(* ===== verification/Prelude.thy ===== *)
theory Prelude
  imports Main "HOL-Library.Word" "HOL-Library.Char_ord" "HOL-Library.List_Lexorder"
begin

text \<open>
  Shared vocabulary of the development: the machine integers of the Rust sources as words of
  their width, Rust's \<open>Result\<close> as a sum type with the \<open>?\<close> operator as a bind, \<open>for\<close> loops
  with early return as folds over results, the checked and saturating integer operations,
  ASCII case folding, and a stable sort with an explicit comparison. The lemma collections
  \<open>unat_arith_simps\<close> (reading words as natural numbers) and \<open>result_simps\<close> (inverting
  successful computations) are used by the component theories.
\<close>

section \<open>Machine integers\<close>

type_synonym u8 = "8 word"
type_synonym u32 = "32 word"
type_synonym u64 = "64 word"
type_synonym u128 = "128 word"
type_synonym u256 = "256 word"

named_theorems unat_arith_simps
named_theorems result_simps

definition checked_add :: "'l::len word \<Rightarrow> 'l word \<Rightarrow> 'l word option" where
  "checked_add a b = (if uint a + uint b < 2 ^ LENGTH('l) then Some (a + b) else None)"

definition checked_sub :: "'l::len word \<Rightarrow> 'l word \<Rightarrow> 'l word option" where
  "checked_sub a b = (if b \<le> a then Some (a - b) else None)"

definition checked_mul :: "'l::len word \<Rightarrow> 'l word \<Rightarrow> 'l word option" where
  "checked_mul a b = (if uint a * uint b < 2 ^ LENGTH('l) then Some (a * b) else None)"

definition saturating_add :: "'l::len word \<Rightarrow> 'l word \<Rightarrow> 'l word" where
  "saturating_add a b = (if uint a + uint b < 2 ^ LENGTH('l) then a + b else - 1)"

definition saturating_sub :: "'l::len word \<Rightarrow> 'l word \<Rightarrow> 'l word" where
  "saturating_sub a b = (if b \<le> a then a - b else 0)"

definition saturating_mul :: "'l::len word \<Rightarrow> 'l word \<Rightarrow> 'l word" where
  "saturating_mul a b = (if uint a * uint b < 2 ^ LENGTH('l) then a * b else - 1)"

lemma uint_add_lt_iff:
  "uint a + uint (b :: 'l::len word) < 2 ^ n \<longleftrightarrow> unat a + unat b < 2 ^ n"
  using of_nat_less_iff [of "unat a + unat b" "2 ^ n", where 'a = int]
  by (simp only: uint_nat of_nat_add of_nat_power of_nat_numeral)

lemma uint_mult_lt_iff:
  "uint a * uint (b :: 'l::len word) < 2 ^ n \<longleftrightarrow> unat a * unat b < 2 ^ n"
  using of_nat_less_iff [of "unat a * unat b" "2 ^ n", where 'a = int]
  by (simp only: uint_nat of_nat_mult of_nat_power of_nat_numeral)

lemma uint_lt_iff: "uint (a :: 'l::len word) < 2 ^ n \<longleftrightarrow> unat a < 2 ^ n"
  using of_nat_less_iff [of "unat a" "2 ^ n", where 'a = int]
  by (simp only: uint_nat of_nat_power of_nat_numeral)

lemmas checked_add_unat = checked_add_def [unfolded uint_add_lt_iff]
lemmas checked_mul_unat = checked_mul_def [unfolded uint_mult_lt_iff]
lemmas saturating_add_unat = saturating_add_def [unfolded uint_add_lt_iff]
lemmas saturating_mul_unat = saturating_mul_def [unfolded uint_mult_lt_iff]

lemma unat_add_exact:
  "unat a + unat b < 2 ^ LENGTH('l) \<Longrightarrow> unat (a + b :: 'l::len word) = unat a + unat b"
  by (simp add: unat_word_ariths)

lemma unat_mult_exact:
  "unat a * unat b < 2 ^ LENGTH('l) \<Longrightarrow> unat (a * b :: 'l::len word) = unat a * unat b"
  by (simp add: unat_word_ariths)

lemma unat_sub_exact: "b \<le> a \<Longrightarrow> unat (a - b :: 'l::len word) = unat a - unat b"
  by (rule unat_sub)

lemma checked_add_Some [result_simps]:
  "checked_add a b = Some (c :: 'l::len word) \<longleftrightarrow> unat c = unat a + unat b"
  by (auto simp: checked_add_unat unat_add_exact)
    (metis unat_add_exact unsigned_less word_unat_eq_iff, metis unsigned_less)

lemma checked_add_None [result_simps]:
  "checked_add a b = (None :: 'l::len word option) \<longleftrightarrow> 2 ^ LENGTH('l) \<le> unat a + unat b"
  by (auto simp: checked_add_unat)

lemma checked_mul_Some [result_simps]:
  "checked_mul a b = Some (c :: 'l::len word) \<longleftrightarrow> unat c = unat a * unat b"
  by (auto simp: checked_mul_unat unat_mult_exact)
    (metis unat_mult_exact unsigned_less word_unat_eq_iff, metis unsigned_less)

lemma checked_mul_None [result_simps]:
  "checked_mul a b = (None :: 'l::len word option) \<longleftrightarrow> 2 ^ LENGTH('l) \<le> unat a * unat b"
  by (auto simp: checked_mul_unat)

lemma checked_sub_Some [result_simps]:
  "checked_sub a b = Some (c :: 'l::len word) \<longleftrightarrow> unat b \<le> unat a \<and> unat c = unat a - unat b"
  by (auto simp: checked_sub_def unat_sub_exact word_le_nat_alt)
    (metis unat_sub_exact word_le_nat_alt word_unat_eq_iff)

lemma unat_max_word: "unat (- 1 :: 'l::len word) = 2 ^ LENGTH('l) - 1"
  by (simp add: unsigned_minus_1_eq_mask mask_eq_exp_minus_1)

lemma unat_saturating_add [unat_arith_simps]:
  "unat (saturating_add a b :: 'l::len word) = min (unat a + unat b) (2 ^ LENGTH('l) - 1)"
proof (cases "unat a + unat b < 2 ^ LENGTH('l)")
  case True
  then show ?thesis by (simp add: saturating_add_unat unat_add_exact min_absorb1)
next
  case False
  then show ?thesis by (simp add: saturating_add_unat unat_max_word min_absorb2)
qed

lemma unat_saturating_mul [unat_arith_simps]:
  "unat (saturating_mul a b :: 'l::len word) = min (unat a * unat b) (2 ^ LENGTH('l) - 1)"
proof (cases "unat a * unat b < 2 ^ LENGTH('l)")
  case True
  then have "unat a * unat b \<le> 2 ^ LENGTH('l) - 1" by linarith
  with True show ?thesis by (simp add: saturating_mul_unat unat_mult_exact min_absorb1)
next
  case False
  then have "2 ^ LENGTH('l) - 1 \<le> unat a * unat b" by linarith
  with False show ?thesis by (simp add: saturating_mul_unat unat_max_word min_absorb2)
qed

lemma unat_saturating_sub [unat_arith_simps]:
  "unat (saturating_sub a b :: 'l::len word) = unat a - unat b"
  by (auto simp: saturating_sub_def unat_sub_exact word_le_nat_alt)

lemma unat_min [unat_arith_simps]: "unat (min a b :: 'l::len word) = min (unat a) (unat b)"
  by (auto simp: min_def word_le_nat_alt)

lemma unat_max [unat_arith_simps]: "unat (max a b :: 'l::len word) = max (unat a) (unat b)"
  by (auto simp: max_def word_le_nat_alt)

lemma unat_ucast_exact:
  "unat a < 2 ^ LENGTH('m) \<Longrightarrow> unat (ucast (a :: 'l::len word) :: 'm::len word) = unat a"
  by (simp add: unsigned_ucast_eq take_bit_nat_eq_self)

lemma unat_u64_u128 [unat_arith_simps]: "unat (ucast (a :: u64) :: u128) = unat a"
proof (rule unat_ucast_exact)
  have "unat a < 2 ^ 64" using unsigned_less [of a] by simp
  also have "\<dots> \<le> (2::nat) ^ LENGTH(128)" by simp
  finally show "unat a < 2 ^ LENGTH(128)" .
qed

lemma unat_u128_u256 [unat_arith_simps]: "unat (ucast (a :: u128) :: u256) = unat a"
proof (rule unat_ucast_exact)
  have "unat a < 2 ^ 128" using unsigned_less [of a] by simp
  also have "\<dots> \<le> (2::nat) ^ LENGTH(256)" by simp
  finally show "unat a < 2 ^ LENGTH(256)" .
qed

lemma u64_lt: "unat (a :: u64) < 2 ^ 64"
  using unsigned_less [of a] by simp

lemma u128_lt: "unat (a :: u128) < 2 ^ 128"
  using unsigned_less [of a] by simp

text \<open>\<open>u128::try_from\<close> and \<open>u64::try_from\<close> of a 256-bit contract value.\<close>

definition u128_of_u256 :: "u256 \<Rightarrow> u128 option" where
  "u128_of_u256 x = (if uint x < 2 ^ 128 then Some (ucast x) else None)"

definition u64_of_u256 :: "u256 \<Rightarrow> u64 option" where
  "u64_of_u256 x = (if uint x < 2 ^ 64 then Some (ucast x) else None)"

lemma u128_of_u256_Some: "u128_of_u256 x = Some w \<longleftrightarrow> unat x < 2 ^ 128 \<and> w = ucast x"
  unfolding u128_of_u256_def uint_lt_iff by auto

section \<open>Results and early return\<close>

text \<open>A Rust \<open>Result<T, E>\<close> is \<open>'e + 'a\<close>: \<open>Inl\<close> an error, \<open>Inr\<close> a value.\<close>

definition res_bind :: "'e + 'a \<Rightarrow> ('a \<Rightarrow> 'e + 'b) \<Rightarrow> 'e + 'b" where
  "res_bind r f = (case r of Inl e \<Rightarrow> Inl e | Inr x \<Rightarrow> f x)"

definition ok_or :: "'e \<Rightarrow> 'a option \<Rightarrow> 'e + 'a" where
  "ok_or e x = (case x of None \<Rightarrow> Inl e | Some v \<Rightarrow> Inr v)"

definition map_err :: "('e \<Rightarrow> 'f) \<Rightarrow> 'e + 'a \<Rightarrow> 'f + 'a" where
  "map_err f r = (case r of Inl e \<Rightarrow> Inl (f e) | Inr x \<Rightarrow> Inr x)"

definition is_ok :: "'e + 'a \<Rightarrow> bool" where
  "is_ok r = (case r of Inl _ \<Rightarrow> False | Inr _ \<Rightarrow> True)"

text \<open>\<open>Option::unwrap_or\<close>.\<close>

definition or_default :: "'a \<Rightarrow> 'a option \<Rightarrow> 'a" where
  "or_default d x = (case x of None \<Rightarrow> d | Some v \<Rightarrow> v)"

lemma res_bind_simps [simp]:
  "res_bind (Inl e) f = Inl e" "res_bind (Inr x) f = f x"
  by (simp_all add: res_bind_def)

lemma ok_or_simps [simp]: "ok_or e None = Inl e" "ok_or e (Some v) = Inr v"
  by (simp_all add: ok_or_def)

lemma map_err_simps [simp]: "map_err f (Inl e) = Inl (f e)" "map_err f (Inr x) = Inr x"
  by (simp_all add: map_err_def)

lemma is_ok_simps [simp]: "is_ok (Inr x)" "\<not> is_ok (Inl e)"
  by (simp_all add: is_ok_def)

lemma res_bind_eq_Inr [result_simps]:
  "res_bind r f = Inr y \<longleftrightarrow> (\<exists>x. r = Inr x \<and> f x = Inr y)"
  by (cases r) auto

lemma ok_or_eq_Inr [result_simps]: "ok_or e x = Inr v \<longleftrightarrow> x = Some v"
  by (cases x) auto

lemma map_err_eq_Inr [result_simps]: "map_err f r = Inr v \<longleftrightarrow> r = Inr v"
  by (cases r) auto

lemma is_ok_iff: "is_ok r \<longleftrightarrow> (\<exists>x. r = Inr x)"
  by (cases r) auto

lemma is_ok_bindI: "\<lbrakk>is_ok r; \<And>x. r = Inr x \<Longrightarrow> is_ok (f x)\<rbrakk> \<Longrightarrow> is_ok (res_bind r f)"
  by (cases r) auto

text \<open>A \<open>for\<close> loop whose body uses \<open>?\<close>: the first error leaves the loop.\<close>

fun res_fold :: "('s \<Rightarrow> 'a \<Rightarrow> 'e + 's) \<Rightarrow> 's \<Rightarrow> 'a list \<Rightarrow> 'e + 's" where
  "res_fold f s [] = Inr s"
| "res_fold f s (x # xs) = res_bind (f s x) (\<lambda>s'. res_fold f s' xs)"

text \<open>\<open>iter().map(f).collect::<Result<Vec<_>, _>>()\<close>.\<close>

fun res_map :: "('a \<Rightarrow> 'e + 'b) \<Rightarrow> 'a list \<Rightarrow> 'e + 'b list" where
  "res_map f [] = Inr []"
| "res_map f (x # xs) = res_bind (f x) (\<lambda>y. res_bind (res_map f xs) (\<lambda>ys. Inr (y # ys)))"

lemma res_fold_append:
  "res_fold f s (xs @ ys) = res_bind (res_fold f s xs) (\<lambda>s'. res_fold f s' ys)"
proof (induction xs arbitrary: s)
  case (Cons x xs)
  then show ?case by (cases "f s x") auto
qed simp

lemma res_fold_invariant:
  assumes "res_fold f s xs = Inr t" and "P s"
    and "\<And>s x s'. \<lbrakk>P s; x \<in> set xs; f s x = Inr s'\<rbrakk> \<Longrightarrow> P s'"
  shows "P t"
  using assms
proof (induction xs arbitrary: s)
  case (Cons x xs)
  from Cons.prems(1) obtain s' where s': "f s x = Inr s'" and rest: "res_fold f s' xs = Inr t"
    by (auto simp: result_simps)
  show ?case
  proof (rule Cons.IH [OF rest])
    show "P s'" using Cons.prems(2,3) s' by auto
    show "\<And>s x s'. \<lbrakk>P s; x \<in> set xs; f s x = Inr s'\<rbrakk> \<Longrightarrow> P s'" using Cons.prems(3) by auto
  qed
qed simp

lemma res_map_Inr_list_all2:
  "res_map f xs = Inr ys \<longleftrightarrow> list_all2 (\<lambda>x y. f x = Inr y) xs ys"
proof (induction xs arbitrary: ys)
  case Nil
  then show ?case by auto
next
  case (Cons x xs)
  show ?case
    by (cases ys) (auto simp: result_simps Cons.IH)
qed

lemma res_map_length: "res_map f xs = Inr ys \<Longrightarrow> length ys = length xs"
  by (simp add: res_map_Inr_list_all2 list_all2_lengthD)

lemma res_map_is_ok: "(\<And>x. x \<in> set xs \<Longrightarrow> is_ok (f x)) \<Longrightarrow> is_ok (res_map f xs)"
  by (induction xs) (auto intro!: is_ok_bindI)

section \<open>ASCII strings\<close>

text \<open>
  A Rust \<open>String\<close> is a \<open>char list\<close>; a character is one byte of its UTF-8 form.
  \<open>to_ascii_lowercase\<close> changes the bytes of \<open>A\<close> to \<open>Z\<close> only.
\<close>

definition to_ascii_lower_char :: "char \<Rightarrow> char" where
  "to_ascii_lower_char c =
     (let n = (of_char c :: nat) in if 65 \<le> n \<and> n \<le> 90 then char_of (n + 32) else c)"

definition to_ascii_lowercase :: "string \<Rightarrow> string" where
  "to_ascii_lowercase s = map to_ascii_lower_char s"

lemma to_ascii_lower_char_idem [simp]:
  "to_ascii_lower_char (to_ascii_lower_char c) = to_ascii_lower_char c"
  by (simp add: to_ascii_lower_char_def Let_def)

lemma to_ascii_lowercase_idem [simp]:
  "to_ascii_lowercase (to_ascii_lowercase s) = to_ascii_lowercase s"
  by (simp add: to_ascii_lowercase_def)

lemma length_to_ascii_lowercase [simp]: "length (to_ascii_lowercase s) = length s"
  by (simp add: to_ascii_lowercase_def)

definition strip_prefix :: "string \<Rightarrow> string \<Rightarrow> string option" where
  "strip_prefix p s = (if take (length p) s = p then Some (drop (length p) s) else None)"

lemma strip_prefix_append [simp]: "strip_prefix p (p @ s) = Some s"
  by (simp add: strip_prefix_def)

lemma strip_prefix_Some: "strip_prefix p s = Some r \<longleftrightarrow> s = p @ r"
  by (auto simp: strip_prefix_def) (metis append_take_drop_id)

text \<open>\<open>trim_start_matches("0x")\<close> removes the prefix as often as it occurs.\<close>

function trim_start_0x :: "string \<Rightarrow> string" where
  "trim_start_0x s = (case strip_prefix ''0x'' s of None \<Rightarrow> s | Some rest \<Rightarrow> trim_start_0x rest)"
  by pat_completeness auto
termination
  by (relation "measure length") (auto simp: strip_prefix_Some)

declare trim_start_0x.simps [simp del]

text \<open>Splitting at the separators, as \<open>split\<close> does: empty parts are kept.\<close>

fun split_on :: "('a \<Rightarrow> bool) \<Rightarrow> 'a list \<Rightarrow> 'a list list" where
  "split_on p [] = [[]]"
| "split_on p (c # cs) =
     (if p c then [] # split_on p cs
      else case split_on p cs of [] \<Rightarrow> [[c]] | w # ws \<Rightarrow> (c # w) # ws)"

section \<open>Files\<close>

text \<open>What reading a file gives: it is absent, it cannot be read, or it holds what was written.\<close>

datatype 'f file_read = NotFound | Unreadable string | Content 'f

text \<open>\<open>Path::with_extension\<close> on a path with a file name.\<close>

definition with_extension :: "string \<Rightarrow> string \<Rightarrow> string" where
  "with_extension path ext =
     (let name = rev (takeWhile (\<lambda>c. c \<noteq> CHR ''/'') (rev path));
          dir = take (length path - length name) path;
          stem_rev = dropWhile (\<lambda>c. c \<noteq> CHR ''.'') (rev name);
          stem = (case stem_rev of [] \<Rightarrow> name | [_] \<Rightarrow> name | _ # r \<Rightarrow> rev r)
      in dir @ stem @ ''.'' @ ext)"

section \<open>Stable sorting with a comparison\<close>

text \<open>
  Rust's \<open>sort_by\<close> is a stable sort. \<open>le x y\<close> is "the comparator does not answer
  \<open>Greater\<close> on \<open>x, y\<close>".
\<close>

fun insert_by :: "('a \<Rightarrow> 'a \<Rightarrow> bool) \<Rightarrow> 'a \<Rightarrow> 'a list \<Rightarrow> 'a list" where
  "insert_by le x [] = [x]"
| "insert_by le x (y # ys) = (if le x y then x # y # ys else y # insert_by le x ys)"

fun sort_by :: "('a \<Rightarrow> 'a \<Rightarrow> bool) \<Rightarrow> 'a list \<Rightarrow> 'a list" where
  "sort_by le [] = []"
| "sort_by le (x # xs) = insert_by le x (sort_by le xs)"

lemma set_insert_by [simp]: "set (insert_by le x xs) = insert x (set xs)"
  by (induction xs) auto

lemma set_sort_by [simp]: "set (sort_by le xs) = set xs"
  by (induction xs) auto

lemma length_insert_by [simp]: "length (insert_by le x xs) = Suc (length xs)"
  by (induction xs) auto

lemma length_sort_by [simp]: "length (sort_by le xs) = length xs"
  by (induction xs) auto

lemma distinct_insert_by: "distinct (insert_by le x xs) \<longleftrightarrow> x \<notin> set xs \<and> distinct xs"
  by (induction xs) auto

lemma distinct_sort_by [simp]: "distinct (sort_by le xs) \<longleftrightarrow> distinct xs"
  by (induction xs) (auto simp: distinct_insert_by)

lemma sorted_insert_by:
  assumes "\<And>x y. le x y \<or> le y x" and "\<And>x y z. le x y \<Longrightarrow> le y z \<Longrightarrow> le x z"
    and "sorted_wrt le xs"
  shows "sorted_wrt le (insert_by le x xs)"
  using assms(3)
proof (induction xs)
  case (Cons y ys)
  show ?case
  proof (cases "le x y")
    case True
    with Cons.prems assms(2) show ?thesis by auto
  next
    case False
    then have "le y x" using assms(1) by blast
    with False Cons show ?thesis by auto
  qed
qed simp

lemma sorted_sort_by:
  assumes "\<And>x y. le x y \<or> le y x" and "\<And>x y z. le x y \<Longrightarrow> le y z \<Longrightarrow> le x z"
  shows "sorted_wrt le (sort_by le xs)"
  by (induction xs) (auto intro: sorted_insert_by [OF assms])

section \<open>Sums of natural numbers\<close>

lemma sum_list_pos_member: "x \<in> set xs \<Longrightarrow> x \<le> sum_list (xs :: nat list)"
  by (induction xs) auto

lemma sum_list_div_le:
  "(\<Sum>x\<leftarrow>xs. f x div d) \<le> (\<Sum>x\<leftarrow>xs. f x) div (d::nat)"
proof (induction xs)
  case (Cons x xs)
  have "f x div d + (\<Sum>x\<leftarrow>xs. f x) div d \<le> (f x + (\<Sum>x\<leftarrow>xs. f x)) div d"
    by (metis div_add1_eq le_add1)
  with Cons show ?case by simp
qed simp

end
