(* ===== verification/BTree.thy ===== *)
theory BTree
  imports Prelude
begin

text \<open>
  \<open>std::collections::BTreeMap\<close> and \<open>BTreeSet\<close> as strictly ascending association lists and
  lists, the form in which the Rust code iterates over them. The interface \<open>ordered_map\<close>
  states what every client of a map uses: what a lookup returns after an insertion or a
  removal and that the entries stay strictly ascending. Its lemmas (overwriting, sums of the
  values under an entry update) are proved once from these laws and interpreted on the model
  of \<open>BTreeMap\<close>.
\<close>

type_synonym ('k, 'v) btree_map = "('k \<times> 'v) list"
type_synonym 'k btree_set = "'k list"

named_theorems btree_simps

definition bt_wf :: "('k::linorder, 'v) btree_map \<Rightarrow> bool" where
  "bt_wf m \<longleftrightarrow> sorted_wrt (<) (map fst m)"

fun bt_get :: "('k, 'v) btree_map \<Rightarrow> 'k \<Rightarrow> 'v option" where
  "bt_get [] k = None"
| "bt_get ((k', v) # m) k = (if k' = k then Some v else bt_get m k)"

fun bt_insert :: "'k::linorder \<Rightarrow> 'v \<Rightarrow> ('k, 'v) btree_map \<Rightarrow> ('k, 'v) btree_map" where
  "bt_insert k v [] = [(k, v)]"
| "bt_insert k v ((k', v') # m) =
     (if k < k' then (k, v) # (k', v') # m
      else if k = k' then (k, v) # m
      else (k', v') # bt_insert k v m)"

fun bt_remove :: "'k \<Rightarrow> ('k, 'v) btree_map \<Rightarrow> ('k, 'v) btree_map" where
  "bt_remove k [] = []"
| "bt_remove k ((k', v') # m) = (if k = k' then m else (k', v') # bt_remove k m)"

definition bt_contains :: "('k, 'v) btree_map \<Rightarrow> 'k \<Rightarrow> bool" where
  "bt_contains m k \<longleftrightarrow> bt_get m k \<noteq> None"

text \<open>\<open>get(k).copied().unwrap_or(d)\<close> and \<open>*entry(k).or_insert(d) = f(...)\<close>.\<close>

definition bt_get_or :: "'v \<Rightarrow> ('k, 'v) btree_map \<Rightarrow> 'k \<Rightarrow> 'v" where
  "bt_get_or d m k = (case bt_get m k of None \<Rightarrow> d | Some v \<Rightarrow> v)"

definition bt_update :: "'v \<Rightarrow> ('v \<Rightarrow> 'v) \<Rightarrow> 'k::linorder \<Rightarrow> ('k, 'v) btree_map \<Rightarrow> ('k, 'v) btree_map" where
  "bt_update d f k m = bt_insert k (f (bt_get_or d m k)) m"

section \<open>The interface of an ordered map\<close>

locale ordered_map =
  fixes empty :: "'m"
    and get :: "'m \<Rightarrow> 'k::linorder \<Rightarrow> 'v option"
    and ins :: "'k \<Rightarrow> 'v \<Rightarrow> 'm \<Rightarrow> 'm"
    and rem :: "'k \<Rightarrow> 'm \<Rightarrow> 'm"
    and entries :: "'m \<Rightarrow> ('k \<times> 'v) list"
    and wf :: "'m \<Rightarrow> bool"
  assumes wf_empty: "wf empty"
    and wf_ins: "wf m \<Longrightarrow> wf (ins k v m)"
    and wf_rem: "wf m \<Longrightarrow> wf (rem k m)"
    and get_empty: "get empty k = None"
    and get_ins: "wf m \<Longrightarrow> get (ins k v m) k' = (if k' = k then Some v else get m k')"
    and get_rem: "wf m \<Longrightarrow> get (rem k m) k' = (if k' = k then None else get m k')"
    and entries_sorted: "wf m \<Longrightarrow> sorted_wrt (<) (map fst (entries m))"
    and entries_get: "wf m \<Longrightarrow> (k, v) \<in> set (entries m) \<longleftrightarrow> get m k = Some v"
begin

lemma get_ins_same: "wf m \<Longrightarrow> get (ins k v m) k = Some v"
  by (simp add: get_ins)

lemma distinct_keys: "wf m \<Longrightarrow> distinct (map fst (entries m))"
  using entries_sorted by (simp add: strict_sorted_iff)

lemma entries_eqI:
  assumes "wf m" and "wf m'" and "\<And>k. get m k = get m' k"
  shows "entries m = entries m'"
proof -
  have "set (entries m) = set (entries m')"
    using assms by (auto simp: entries_get)
  moreover have "inj_on fst (set (entries m) \<union> set (entries m'))"
    using calculation distinct_keys [OF assms(2)] by (simp add: distinct_map)
  ultimately show ?thesis
    using assms(1,2) entries_sorted
    by (intro map_inj_on [of fst "entries m" "entries m'"] strict_sorted_equal)
      (auto simp flip: image_set)
qed

lemma overwrite: "wf m \<Longrightarrow> entries (ins k v (ins k v' m)) = entries (ins k v m)"
  by (rule entries_eqI) (auto simp: wf_ins get_ins)

lemma ins_commute:
  "\<lbrakk>wf m; k \<noteq> k'\<rbrakk> \<Longrightarrow> entries (ins k v (ins k' v' m)) = entries (ins k' v' (ins k v m))"
  by (rule entries_eqI) (auto simp: wf_ins get_ins)

lemma keys_get: "wf m \<Longrightarrow> fst ` set (entries m) = {k. get m k \<noteq> None}"
  by (auto simp: entries_get intro!: image_eqI [of _ fst "(_, _)"])

lemma keys_ins: "wf m \<Longrightarrow> fst ` set (entries (ins k v m)) = insert k (fst ` set (entries m))"
  by (auto simp: keys_get wf_ins get_ins)

lemma sum_entries_ins:
  fixes w :: "'v \<Rightarrow> nat"
  assumes "wf m"
  shows "(\<Sum>e\<leftarrow>entries (ins k v m). w (snd e)) + (case get m k of None \<Rightarrow> 0 | Some u \<Rightarrow> w u)
       = (\<Sum>e\<leftarrow>entries m. w (snd e)) + w v"
proof -
  have flat: "(\<Sum>e\<leftarrow>entries n. w (snd e)) = (\<Sum>e \<in> set (entries n). w (snd e))" if "wf n" for n
    using distinct_keys [OF that] by (simp add: sum_list_distinct_conv_sum_set distinct_map)
  let ?rest = "{e \<in> set (entries m). fst e \<noteq> k}"
  have new: "set (entries (ins k v m)) = insert (k, v) ?rest"
    using assms by (auto simp: entries_get wf_ins get_ins split: if_splits)
  have fin: "finite ?rest" by simp
  have old: "(\<Sum>e \<in> set (entries m). w (snd e))
      = (\<Sum>e \<in> ?rest. w (snd e)) + (case get m k of None \<Rightarrow> 0 | Some u \<Rightarrow> w u)"
  proof (cases "get m k")
    case None
    then have "?rest = set (entries m)" using assms by (auto simp: entries_get)
    with None show ?thesis by simp
  next
    case (Some u)
    then have "set (entries m) = insert (k, u) ?rest" using assms by (auto simp: entries_get)
    moreover have "(k, u) \<notin> ?rest" by simp
    ultimately show ?thesis using Some fin by (metis (no_types, lifting) add.commute option.simps(5) snd_conv sum.insert)
  qed
  show ?thesis
    unfolding flat [OF wf_ins [OF assms]] flat [OF assms] new old using fin by simp
qed

end

section \<open>\<open>BTreeMap\<close> provides it\<close>

lemma bt_wf_Nil [simp]: "bt_wf []"
  by (simp add: bt_wf_def)

lemma bt_wf_Cons: "bt_wf ((k, v) # m) \<longleftrightarrow> (\<forall>k' \<in> fst ` set m. k < k') \<and> bt_wf m"
  by (auto simp: bt_wf_def)

lemma keys_bt_insert: "fst ` set (bt_insert k v m) = insert k (fst ` set m)"
  by (induction k v m rule: bt_insert.induct) auto

lemma bt_wf_insert: "bt_wf m \<Longrightarrow> bt_wf (bt_insert k v m)"
proof (induction m)
  case (Cons e m)
  obtain k' v' where e: "e = (k', v')" by (cases e)
  with Cons show ?case by (fastforce simp: bt_wf_Cons keys_bt_insert)
qed (simp add: bt_wf_Cons)

lemma set_bt_remove: "set (bt_remove k m) \<subseteq> set m"
  by (induction k m rule: bt_remove.induct) auto

lemma bt_wf_remove: "bt_wf m \<Longrightarrow> bt_wf (bt_remove k m)"
proof (induction k m rule: bt_remove.induct)
  case (2 k k' v' m)
  with set_bt_remove [of k m] show ?case by (auto simp: bt_wf_Cons)
qed simp

lemma bt_get_notin: "k \<notin> fst ` set m \<Longrightarrow> bt_get m k = None"
  by (induction m) auto

lemma bt_get_in_keys: "bt_get m k = Some v \<Longrightarrow> k \<in> fst ` set m"
  using bt_get_notin by fastforce

lemma bt_get_insert:
  "bt_get (bt_insert k v m) k' = (if k' = k then Some v else bt_get m k')"
  by (induction m) auto

lemma bt_get_remove:
  assumes "bt_wf m"
  shows "bt_get (bt_remove k m) k' = (if k' = k then None else bt_get m k')"
  using assms
proof (induction m)
  case (Cons e m)
  obtain k1 v1 where e: "e = (k1, v1)" by (cases e)
  have "k1 \<notin> fst ` set m" using Cons.prems e by (auto simp: bt_wf_Cons)
  then have "bt_get m k1 = None" by (rule bt_get_notin)
  with Cons e show ?case by (auto simp: bt_wf_Cons)
qed simp

lemma bt_entries_get: "bt_wf m \<Longrightarrow> (k, v) \<in> set m \<longleftrightarrow> bt_get m k = Some v"
proof (induction m)
  case (Cons e m)
  obtain k1 v1 where e: "e = (k1, v1)" by (cases e)
  with Cons have IH: "(k, v) \<in> set m \<longleftrightarrow> bt_get m k = Some v" and notin: "k1 \<notin> fst ` set m"
    by (auto simp: bt_wf_Cons)
  from notin have "(k1, v) \<notin> set m" by force
  with e IH show ?case by auto
qed simp

interpretation bt: ordered_map "[]" bt_get bt_insert bt_remove "\<lambda>m. m" bt_wf
  by unfold_locales
    (simp_all add: bt_wf_insert bt_wf_remove bt_get_insert bt_get_remove bt_entries_get,
     simp add: bt_wf_def)

lemmas [btree_simps] = bt_get_insert bt_get_remove bt_wf_insert bt_wf_remove bt_get_or_def

lemma bt_wf_update [simp]: "bt_wf m \<Longrightarrow> bt_wf (bt_update d f k m)"
  by (simp add: bt_update_def bt_wf_insert)

lemma bt_get_update [btree_simps]:
  "bt_get (bt_update d f k m) k' = (if k' = k then Some (f (bt_get_or d m k)) else bt_get m k')"
  by (simp add: bt_update_def bt_get_insert)

lemma bt_sum_insert:
  fixes w :: "'v \<Rightarrow> nat"
  assumes "bt_wf m"
  shows "(\<Sum>e\<leftarrow>bt_insert k v m. w (snd e)) + (case bt_get m k of None \<Rightarrow> 0 | Some u \<Rightarrow> w u)
       = (\<Sum>e\<leftarrow>m. w (snd e)) + w v"
  by (rule bt.sum_entries_ins [OF assms])

lemma bt_contains_iff [btree_simps]: "bt_contains m k \<longleftrightarrow> (\<exists>v. bt_get m k = Some v)"
  by (auto simp: bt_contains_def)

section \<open>\<open>BTreeSet\<close>\<close>

fun bs_insert :: "'k::linorder \<Rightarrow> 'k btree_set \<Rightarrow> 'k btree_set" where
  "bs_insert k [] = [k]"
| "bs_insert k (x # xs) =
     (if k < x then k # x # xs else if k = x then x # xs else x # bs_insert k xs)"

definition bs_wf :: "'k::linorder btree_set \<Rightarrow> bool" where
  "bs_wf s \<longleftrightarrow> sorted_wrt (<) s"

definition bs_contains :: "'k btree_set \<Rightarrow> 'k \<Rightarrow> bool" where
  "bs_contains s k \<longleftrightarrow> k \<in> set s"

definition bs_of_list :: "'k::linorder list \<Rightarrow> 'k btree_set" where
  "bs_of_list xs = foldl (\<lambda>s x. bs_insert x s) [] xs"

lemma set_bs_insert [simp]: "set (bs_insert k s) = insert k (set s)"
  by (induction s) auto

lemma bs_wf_Nil [simp]: "bs_wf []"
  by (simp add: bs_wf_def)

lemma bs_wf_insert [simp]: "bs_wf s \<Longrightarrow> bs_wf (bs_insert k s)"
  by (induction s) (force simp: bs_wf_def)+

lemma bs_wf_distinct: "bs_wf s \<Longrightarrow> distinct s"
  by (simp add: bs_wf_def strict_sorted_iff)

lemma set_bs_of_list [simp]: "set (bs_of_list xs) = set xs"
proof -
  have "set (foldl (\<lambda>s x. bs_insert x s) s xs) = set s \<union> set xs" for s :: "'a list"
    by (induction xs arbitrary: s) auto
  then show ?thesis by (simp add: bs_of_list_def)
qed

lemma length_bs_insert: "bs_wf s \<Longrightarrow> length (bs_insert k s) = (if k \<in> set s then length s else Suc (length s))"
  by (metis bs_wf_distinct bs_wf_insert card_insert_if distinct_card finite_set set_bs_insert)

end
