(* ===== verification/Dapr.thy ===== *)
theory Dapr
  imports BTree
begin

text \<open>
  The payout reference library \<open>sims/src/lib.rs\<close>: usage rows and datasets, the diminishing
  returns multiplier \<open>d_ppm\<close>, the exact apportionment \<open>apportion\<close> (largest remainder) and the
  allocation of every user's tier fee to works. All amounts are words of the width the code
  uses; every \<open>checked_*\<close> operation and every \<open>?\<close> of the code is a branch of the model, and
  unchecked \<open>+\<close> and \<open>-\<close> are the wrapping operations of words, shown not to wrap where it
  matters.
\<close>

section \<open>Data model and arithmetic\<close>

datatype dapr_error = Overflow | RowCredibilityLen

definition mul_div :: "u128 \<Rightarrow> u128 \<Rightarrow> u128 \<Rightarrow> dapr_error + u128" where
  "mul_div a b denom =
     (if denom = 0 then Inl Overflow
      else let prod = (ucast a :: u256) * ucast b;
               quot = prod div ucast denom
           in if uint quot < 2 ^ 128 then Inr (ucast quot) else Inl Overflow)"

record usage_row =
  ur_user :: string
  ur_work :: string
  ur_minutes :: u64
  ur_price_ppm :: u64
  ur_region_ppm :: u64
  ur_plays :: u64

definition usage_value :: "usage_row \<Rightarrow> dapr_error + u128" where
  "usage_value r =
     ok_or Overflow
       (Option.bind (checked_mul (ucast (ur_minutes r)) (ucast (ur_price_ppm r)))
         (\<lambda>v. checked_mul v (ucast (ur_region_ppm r))))"

record dataset =
  ds_tier_fees :: "(string, u128) btree_map"
  ds_usage :: "usage_row list"
  ds_bandwidth_ppm :: "(string, u64) btree_map"

definition total_fees :: "dataset \<Rightarrow> u128" where
  "total_fees d = sum_list (map snd (ds_tier_fees d))"

definition bw_ppm :: "(string, u64) btree_map \<Rightarrow> string \<Rightarrow> u64" where
  "bw_ppm bandwidth work = min (bt_get_or 1000000 bandwidth work) 1000000"

definition dataset_bw :: "dataset \<Rightarrow> string \<Rightarrow> u64" where
  "dataset_bw d work = bw_ppm (ds_bandwidth_ppm d) work"

record dapr_params =
  diminishing_k_ppm :: u64

definition default_params :: dapr_params where
  "default_params = \<lparr>diminishing_k_ppm = 1000000\<rparr>"

record reputation =
  distinct_users :: u64
  weighted_usage :: u128

record payouts =
  per_work :: "(string, u128) btree_map"
  unallocated :: u128
  reputation_of :: "(string, reputation) btree_map"

definition total_to_works :: "payouts \<Rightarrow> u128" where
  "total_to_works p = sum_list (map snd (per_work p))"

record raw_row =
  rr_user :: string
  rr_work :: string
  rr_raw :: u128

section \<open>The diminishing-returns multiplier\<close>

definition PLAYS_CAP :: u64 where
  "PLAYS_CAP = 100000"

definition d_term :: "u64 \<Rightarrow> u64 \<Rightarrow> u128" where
  "d_term k_ppm j =
     (let denom_ppm = 1000000 + ucast k_ppm * ucast (j - 1)
      in 1000000 * 1000000 div denom_ppm)"

definition d_ppm :: "u64 \<Rightarrow> u64 \<Rightarrow> u64" where
  "d_ppm plays k_ppm =
     (let v = min (max plays 1) PLAYS_CAP;
          sum_ppm = foldl (\<lambda>s j. s + d_term k_ppm j) 0 (map of_nat [1..<Suc (unat v)])
      in ucast (sum_ppm div ucast v))"

section \<open>Largest-remainder apportionment\<close>

text \<open>
  The loop over the weights: floored shares, remainders and the running total of the floored
  shares. \<open>numerator / weight_sum\<close> panics in Rust for a zero \<open>weight_sum\<close>; the only caller
  (\<open>alloc_user\<close>) has returned before when \<open>sum_cred\<close> is zero.
\<close>

definition apportion_step ::
    "u128 \<Rightarrow> u128 \<Rightarrow> u128 list \<times> u128 list \<times> u128 \<Rightarrow> u128 \<Rightarrow> dapr_error + u128 list \<times> u128 list \<times> u128" where
  "apportion_step amount weight_sum s w =
     (case s of (base, remainders, assigned) \<Rightarrow>
        res_bind (ok_or Overflow (checked_mul amount w)) (\<lambda>numerator.
          let fl = numerator div weight_sum; rm = numerator mod weight_sum
          in Inr (base @ [fl], remainders @ [rm], assigned + fl)))"

text \<open>\<open>remainders[b].cmp(&remainders[a]).then(a.cmp(&b))\<close> is not \<open>Greater\<close>.\<close>

definition rank_le :: "u128 list \<Rightarrow> nat \<Rightarrow> nat \<Rightarrow> bool" where
  "rank_le remainders a b \<longleftrightarrow>
     remainders ! b < remainders ! a \<or> (remainders ! b = remainders ! a \<and> a \<le> b)"

definition hand_out :: "u128 list \<Rightarrow> nat list \<Rightarrow> u128 list" where
  "hand_out base idxs = foldl (\<lambda>b i. b[i := b ! i + 1]) base idxs"

definition apportion :: "u128 \<Rightarrow> u128 list \<Rightarrow> u128 \<Rightarrow> dapr_error + u128 list" where
  "apportion amount weights weight_sum =
     res_bind (res_fold (apportion_step amount weight_sum) ([], [], 0) weights)
       (\<lambda>(base, remainders, assigned).
          let leftover = amount - assigned;
              order = sort_by (rank_le remainders) [0..<length weights]
          in Inr (hand_out base (take (unat (ucast leftover :: u64)) order)))"

section \<open>Allocation\<close>

text \<open>Rows grouped by user, in order, each with its clamped credibility.\<close>

definition group_rows :: "raw_row list \<Rightarrow> u64 list \<Rightarrow> (string, (raw_row \<times> u64) list) btree_map" where
  "group_rows rows creds =
     foldl (\<lambda>m (row, cred_ppm). bt_update [] (\<lambda>l. l @ [(row, min cred_ppm 1000000)]) (rr_user row) m)
       [] (zip rows creds)"

record user_state =
  us_creds :: "u128 list"
  us_rw :: u128
  us_sum_cred :: u128
  us_rep_usage :: "(string, u128) btree_map"
  us_rep_users :: "(string, string btree_set) btree_map"

definition cred_row :: "string \<Rightarrow> user_state \<Rightarrow> raw_row \<times> u64 \<Rightarrow> dapr_error + user_state" where
  "cred_row user s rc =
     (case rc of (row, cred_ppm) \<Rightarrow>
        res_bind (mul_div (rr_raw row) (ucast cred_ppm) 1000000) (\<lambda>cred.
        res_bind (ok_or Overflow (checked_add (us_rw s) (rr_raw row))) (\<lambda>rw.
        res_bind (ok_or Overflow (checked_add (us_sum_cred s) cred)) (\<lambda>sum_cred.
        res_bind (ok_or Overflow (checked_add (bt_get_or 0 (us_rep_usage s) (rr_work row)) cred)) (\<lambda>updated.
        Inr \<lparr>us_creds = us_creds s @ [cred], us_rw = rw, us_sum_cred = sum_cred,
             us_rep_usage = bt_insert (rr_work row) updated (us_rep_usage s),
             us_rep_users = bt_update [] (bs_insert user) (rr_work row) (us_rep_users s)\<rparr>)))))"

definition credit_row ::
    "(string, u128) btree_map \<Rightarrow> (raw_row \<times> u64) \<times> u128 \<Rightarrow> dapr_error + (string, u128) btree_map" where
  "credit_row m rs =
     (case rs of ((row, _), share) \<Rightarrow>
        res_bind (ok_or Overflow (checked_add (bt_get_or 0 m (rr_work row)) share)) (\<lambda>v.
        Inr (bt_insert (rr_work row) v m)))"

record alloc_state =
  al_per_work :: "(string, u128) btree_map"
  al_unallocated :: u128
  al_rep_usage :: "(string, u128) btree_map"
  al_rep_users :: "(string, string btree_set) btree_map"

definition alloc_user ::
    "(string, (raw_row \<times> u64) list) btree_map \<Rightarrow> alloc_state \<Rightarrow> string \<times> u128 \<Rightarrow> dapr_error + alloc_state" where
  "alloc_user rows_by_user s uf =
     (case uf of (user, fee) \<Rightarrow>
        let user_rows = bt_get_or [] rows_by_user user in
        res_bind (res_fold (cred_row user)
            \<lparr>us_creds = [], us_rw = 0, us_sum_cred = 0,
             us_rep_usage = al_rep_usage s, us_rep_users = al_rep_users s\<rparr> user_rows) (\<lambda>us.
        let s1 = s\<lparr>al_rep_usage := us_rep_usage us, al_rep_users := us_rep_users us\<rparr> in
        if us_rw us = 0 \<or> us_sum_cred us = 0 then
          res_bind (ok_or Overflow (checked_add (al_unallocated s1) fee)) (\<lambda>u.
          Inr (s1\<lparr>al_unallocated := u\<rparr>))
        else
          res_bind (mul_div fee (us_sum_cred us) (us_rw us)) (\<lambda>target.
          res_bind (ok_or Overflow (checked_sub fee target)) (\<lambda>rest.
          res_bind (ok_or Overflow (checked_add (al_unallocated s1) rest)) (\<lambda>u.
          res_bind (apportion target (us_creds us) (us_sum_cred us)) (\<lambda>shares.
          res_bind (res_fold credit_row (al_per_work s1) (zip user_rows shares)) (\<lambda>pw.
          Inr (s1\<lparr>al_unallocated := u, al_per_work := pw\<rparr>))))))))"

definition fold_reputation ::
    "(string, u128) btree_map \<Rightarrow> (string, string btree_set) btree_map \<Rightarrow> (string, reputation) btree_map" where
  "fold_reputation usage users =
     map (\<lambda>(w, wu). (w, \<lparr>distinct_users = of_nat (case bt_get users w of None \<Rightarrow> 0 | Some s \<Rightarrow> length s),
                         weighted_usage = wu\<rparr>)) usage"

definition allocate_from_raw_with_row_credibility ::
    "(string, u128) btree_map \<Rightarrow> raw_row list \<Rightarrow> u64 list \<Rightarrow> dapr_error + payouts" where
  "allocate_from_raw_with_row_credibility tier_fees rows credibility_ppm =
     (if length credibility_ppm \<noteq> length rows then Inl RowCredibilityLen
      else
        let rows_by_user = group_rows rows credibility_ppm in
        res_bind (res_fold (alloc_user rows_by_user)
            \<lparr>al_per_work = [], al_unallocated = 0, al_rep_usage = [], al_rep_users = []\<rparr> tier_fees)
          (\<lambda>s. Inr \<lparr>per_work = al_per_work s, unallocated = al_unallocated s,
                    reputation_of = fold_reputation (al_rep_usage s) (al_rep_users s)\<rparr>))"

definition allocate_from_raw ::
    "(string, u128) btree_map \<Rightarrow> raw_row list \<Rightarrow> (string, u64) btree_map \<Rightarrow> dapr_error + payouts" where
  "allocate_from_raw tier_fees rows bandwidth =
     (let per_row = map (\<lambda>r. bw_ppm bandwidth (rr_work r)) rows
      in allocate_from_raw_with_row_credibility tier_fees rows per_row)"

definition raw_of_usage :: "u64 \<Rightarrow> usage_row \<Rightarrow> dapr_error + raw_row" where
  "raw_of_usage k row =
     res_bind (usage_value row) (\<lambda>value.
     res_bind (mul_div value (ucast (d_ppm (ur_plays row) k)) 1000000) (\<lambda>raw.
     Inr \<lparr>rr_user = ur_user row, rr_work = ur_work row, rr_raw = raw\<rparr>))"

definition allocate :: "dataset \<Rightarrow> dapr_params \<Rightarrow> dapr_error + payouts" where
  "allocate d params =
     (let k = diminishing_k_ppm params in
      res_bind (res_map (raw_of_usage k) (ds_usage d)) (\<lambda>raw_rows.
      allocate_from_raw (ds_tier_fees d) raw_rows (ds_bandwidth_ppm d)))"

section \<open>Arithmetic facts\<close>

lemma mul_div_Inr [result_simps]:
  "mul_div a b d = Inr q \<longleftrightarrow> d \<noteq> 0 \<and> unat q = unat a * unat b div unat d"
proof -
  have "unat a * unat b < 2 ^ 128 * 2 ^ 128"
    by (intro mult_strict_mono u128_lt) auto
  then have prod: "unat ((ucast a :: u256) * ucast b) = unat a * unat b"
    by (subst unat_mult_exact) (simp_all add: unat_arith_simps)
  have quot: "unat ((ucast a :: u256) * ucast b div ucast d) = unat a * unat b div unat d"
    by (simp add: unat_div_distrib prod unat_arith_simps)
  let ?q = "(ucast a :: u256) * ucast b div ucast d"
  have md: "mul_div a b d = (if d = 0 then Inl Overflow
      else if unat a * unat b div unat d < 2 ^ 128 then Inr (ucast ?q) else Inl Overflow)"
    unfolding mul_div_def Let_def uint_lt_iff quot ..
  show ?thesis
  proof (cases "d \<noteq> 0 \<and> unat a * unat b div unat d < 2 ^ 128")
    case True
    then have "unat (ucast ?q :: u128) = unat a * unat b div unat d"
      by (subst unat_ucast_exact) (simp_all add: quot)
    with True show ?thesis
      unfolding md by (auto simp: word_unat_eq_iff)
  next
    case False
    then show ?thesis
      unfolding md using u128_lt [of q] by auto
  qed
qed

lemma mul_div_is_ok:
  assumes "d \<noteq> 0" and "unat a * unat b div unat d < 2 ^ 128"
  shows "is_ok (mul_div a b d)"
proof -
  have "unat (of_nat (unat a * unat b div unat d) :: u128) = unat a * unat b div unat d"
    using assms(2) by (simp add: unat_of_nat take_bit_nat_eq_self)
  then have "mul_div a b d = Inr (of_nat (unat a * unat b div unat d))"
    using assms(1) by (simp add: mul_div_Inr)
  then show ?thesis by simp
qed

lemma usage_value_Inr [result_simps]:
  "usage_value r = Inr v \<longleftrightarrow>
     unat v = unat (ur_minutes r) * unat (ur_price_ppm r) * unat (ur_region_ppm r)"
proof
  assume "usage_value r = Inr v"
  then show "unat v = unat (ur_minutes r) * unat (ur_price_ppm r) * unat (ur_region_ppm r)"
    by (auto simp: usage_value_def result_simps bind_eq_Some_conv unat_arith_simps)
next
  assume v: "unat v = unat (ur_minutes r) * unat (ur_price_ppm r) * unat (ur_region_ppm r)"
  let ?m = "ucast (ur_minutes r) * ucast (ur_price_ppm r) :: u128"
  have "unat (ur_minutes r) * unat (ur_price_ppm r) < 2 ^ 64 * 2 ^ 64"
    by (intro mult_strict_mono u64_lt) auto
  then have m: "unat ?m = unat (ur_minutes r) * unat (ur_price_ppm r)"
    by (subst unat_mult_exact) (simp_all add: unat_arith_simps)
  then have "checked_mul (ucast (ur_minutes r)) (ucast (ur_price_ppm r)) = Some ?m"
    by (simp add: result_simps unat_arith_simps)
  moreover from m v have "checked_mul ?m (ucast (ur_region_ppm r)) = Some v"
    by (simp add: result_simps unat_arith_simps)
  ultimately show "usage_value r = Inr v" by (simp add: usage_value_def)
qed

section \<open>Apportionment\<close>

text \<open>The ideal share of an item, floored, and the remainder, as natural numbers.\<close>

definition floor_share :: "u128 \<Rightarrow> u128 \<Rightarrow> u128 \<Rightarrow> nat" where
  "floor_share amount weight_sum w = unat amount * unat w div unat weight_sum"

definition share_rem :: "u128 \<Rightarrow> u128 \<Rightarrow> u128 \<Rightarrow> nat" where
  "share_rem amount weight_sum w = unat amount * unat w mod unat weight_sum"

definition sum_unat :: "'l::len word list \<Rightarrow> nat" where
  "sum_unat ws = (\<Sum>w\<leftarrow>ws. unat w)"

lemma sum_unat_simps [simp]:
  "sum_unat [] = 0" "sum_unat (w # ws) = unat w + sum_unat ws"
  "sum_unat (ws @ vs) = sum_unat ws + sum_unat vs"
  by (simp_all add: sum_unat_def)

lemma apportion_step_Inr:
  "apportion_step amount weight_sum (b0, r0, a0) w = Inr s' \<longleftrightarrow>
     unat amount * unat w < 2 ^ 128 \<and>
     s' = (b0 @ [amount * w div weight_sum], r0 @ [amount * w mod weight_sum],
           a0 + amount * w div weight_sum)"
  by (auto simp: apportion_step_def Let_def checked_mul_unat)

lemma apportion_scan:
  assumes "res_fold (apportion_step amount weight_sum) (b0, r0, a0) weights = Inr (b, r, a)"
    and "unat a0 + (\<Sum>w\<leftarrow>weights. floor_share amount weight_sum w) < 2 ^ 128"
  shows "map unat b = map unat b0 @ map (floor_share amount weight_sum) weights
       \<and> map unat r = map unat r0 @ map (share_rem amount weight_sum) weights
       \<and> unat a = unat a0 + (\<Sum>w\<leftarrow>weights. floor_share amount weight_sum w)"
  using assms
proof (induction weights arbitrary: b0 r0 a0)
  case (Cons w ws)
  let ?n = "amount * w"
  from Cons.prems(1) have fits: "unat amount * unat w < 2 ^ LENGTH(128)"
    and rest: "res_fold (apportion_step amount weight_sum)
       (b0 @ [?n div weight_sum], r0 @ [?n mod weight_sum], a0 + ?n div weight_sum) ws = Inr (b, r, a)"
    by (auto simp: res_bind_eq_Inr apportion_step_Inr)
  have num: "unat ?n = unat amount * unat w" using fits by (rule unat_mult_exact)
  have fl: "unat (?n div weight_sum) = floor_share amount weight_sum w"
    and rm: "unat (?n mod weight_sum) = share_rem amount weight_sum w"
    by (simp_all add: unat_div_distrib unat_mod_distrib num floor_share_def share_rem_def)
  have add: "unat (a0 + ?n div weight_sum) = unat a0 + floor_share amount weight_sum w"
    using Cons.prems(2) by (subst unat_add_exact) (simp_all add: fl)
  from Cons.IH [OF rest] Cons.prems(2) show ?case by (simp add: add fl rm add.assoc)
qed simp

lemma apportion_scan_is_ok:
  assumes "\<And>w. w \<in> set weights \<Longrightarrow> unat amount * unat w < 2 ^ 128"
  shows "is_ok (res_fold (apportion_step amount weight_sum) s weights)"
  using assms
proof (induction weights arbitrary: s)
  case (Cons w ws)
  have "is_ok (apportion_step amount weight_sum s w)"
    using Cons.prems [of w] by (cases s) (simp add: apportion_step_def checked_mul_unat Let_def)
  with Cons show ?case by (auto intro!: is_ok_bindI)
qed simp

lemma length_hand_out [simp]: "length (hand_out b idxs) = length b"
  unfolding hand_out_def by (induction idxs arbitrary: b) auto

lemma nth_hand_out:
  assumes "distinct idxs" and "set idxs \<subseteq> {..<length b}" and "i < length b"
  shows "hand_out b idxs ! i = b ! i + (if i \<in> set idxs then 1 else 0)"
  using assms unfolding hand_out_def
proof (induction idxs arbitrary: b)
  case (Cons j js)
  then show ?case by (auto simp: nth_list_update)
qed simp

lemma rank_le_total: "rank_le r a b \<or> rank_le r b a"
  by (auto simp: rank_le_def)

lemma rank_le_trans: "\<lbrakk>rank_le r a b; rank_le r b c\<rbrakk> \<Longrightarrow> rank_le r a c"
  by (auto simp: rank_le_def)

text \<open>The items that receive a spare unit: the first \<open>k\<close> of the ranking.\<close>

definition topped_up :: "u128 list \<Rightarrow> nat \<Rightarrow> nat \<Rightarrow> nat set" where
  "topped_up r n k = set (take k (sort_by (rank_le r) [0..<n]))"

lemma topped_up_subset: "topped_up r n k \<subseteq> {..<n}"
  using set_take_subset [of k "sort_by (rank_le r) [0..<n]"] by (auto simp: topped_up_def)

lemma card_topped_up: "card (topped_up r n k) = min k n"
  by (simp add: topped_up_def distinct_card min.commute)

lemma topped_up_first:
  assumes "i \<in> topped_up r n k" and "j < n" and "j \<notin> topped_up r n k"
  shows "rank_le r i j"
proof -
  let ?o = "sort_by (rank_le r) [0..<n]"
  have "sorted_wrt (rank_le r) ?o"
    by (rule sorted_sort_by) (fact rank_le_total rank_le_trans)+
  then have sorted: "sorted_wrt (rank_le r) (take k ?o @ drop k ?o)" by simp
  have "j \<in> set (take k ?o @ drop k ?o)" using assms(2) by simp
  with assms(3) have "j \<in> set (drop k ?o)" by (auto simp: topped_up_def simp del: append_take_drop_id)
  with assms(1) sorted show ?thesis by (auto simp: topped_up_def sorted_wrt_append simp del: append_take_drop_id)
qed

definition leftover_units :: "u128 \<Rightarrow> u128 list \<Rightarrow> u128 \<Rightarrow> nat" where
  "leftover_units amount weights weight_sum =
     unat amount - (\<Sum>w\<leftarrow>weights. floor_share amount weight_sum w)"

lemma floor_rem: "floor_share amount weight_sum w * unat weight_sum + share_rem amount weight_sum w
    = unat amount * unat w"
  by (simp add: floor_share_def share_rem_def)

lemma sum_floor_le:
  assumes "weight_sum \<noteq> 0" and "sum_unat weights = unat weight_sum"
  shows "(\<Sum>w\<leftarrow>weights. floor_share amount weight_sum w) \<le> unat amount"
proof -
  have "(\<Sum>w\<leftarrow>weights. floor_share amount weight_sum w)
      \<le> (\<Sum>w\<leftarrow>weights. unat amount * unat w) div unat weight_sum"
    unfolding floor_share_def by (rule sum_list_div_le)
  also have "(\<Sum>w\<leftarrow>weights. unat amount * unat w) = unat amount * unat weight_sum"
    using assms(2) by (simp add: sum_list_const_mult sum_unat_def)
  finally show ?thesis using assms(1) by (simp add: unat_gt_0)
qed

lemma leftover_times:
  assumes "weight_sum \<noteq> 0" and "sum_unat weights = unat weight_sum"
  shows "leftover_units amount weights weight_sum * unat weight_sum
       = (\<Sum>w\<leftarrow>weights. share_rem amount weight_sum w)"
proof -
  have "(\<Sum>w\<leftarrow>weights. floor_share amount weight_sum w) * unat weight_sum
      + (\<Sum>w\<leftarrow>weights. share_rem amount weight_sum w)
      = (\<Sum>w\<leftarrow>weights. floor_share amount weight_sum w * unat weight_sum + share_rem amount weight_sum w)"
    by (simp add: sum_list_addf sum_list_mult_const)
  also have "\<dots> = unat amount * unat weight_sum"
    using assms(2) by (simp add: floor_rem sum_list_const_mult sum_unat_def)
  finally show ?thesis
    by (simp add: leftover_units_def diff_mult_distrib)
qed

lemma sum_lt_count:
  assumes "\<And>x. x \<in> set xs \<Longrightarrow> f x < (d::nat)"
  shows "(\<Sum>x\<leftarrow>xs. f x) \<le> length (List.filter (\<lambda>x. f x \<noteq> 0) xs) * d"
  using assms
proof (induction xs)
  case (Cons x xs)
  then have "f x < d" and "(\<Sum>x\<leftarrow>xs. f x) \<le> length (List.filter (\<lambda>x. f x \<noteq> 0) xs) * d" by auto
  then show ?case by auto
qed simp

lemma leftover_le_nonzero:
  assumes "weight_sum \<noteq> 0" and "sum_unat weights = unat weight_sum"
  shows "leftover_units amount weights weight_sum
       \<le> length (List.filter (\<lambda>w. share_rem amount weight_sum w \<noteq> 0) weights)"
proof -
  have pos: "0 < unat weight_sum" using assms(1) by (simp add: unat_gt_0)
  then have "leftover_units amount weights weight_sum * unat weight_sum
      \<le> length (List.filter (\<lambda>w. share_rem amount weight_sum w \<noteq> 0) weights) * unat weight_sum"
    unfolding leftover_times [OF assms] by (intro sum_lt_count) (simp add: share_rem_def)
  with pos show ?thesis by simp
qed

lemma leftover_le_length:
  assumes "weight_sum \<noteq> 0" and "sum_unat weights = unat weight_sum"
  shows "leftover_units amount weights weight_sum \<le> length weights"
  using leftover_le_nonzero [OF assms] length_filter_le order_trans by blast

lemma apportion_shape:
  assumes "apportion amount weights weight_sum = Inr shares"
    and "weight_sum \<noteq> 0" and "sum_unat weights = unat weight_sum" and "length weights < 2 ^ 64"
  obtains r where "map unat r = map (share_rem amount weight_sum) weights"
    and "length shares = length weights"
    and "\<And>i. i < length weights \<Longrightarrow> unat (shares ! i) = floor_share amount weight_sum (weights ! i)
           + (if i \<in> topped_up r (length weights) (leftover_units amount weights weight_sum) then 1 else 0)"
proof -
  let ?n = "length weights" and ?k = "leftover_units amount weights weight_sum"
  note le = sum_floor_le [OF assms(2,3), of amount]
  from assms(1) obtain b r a
    where scan: "res_fold (apportion_step amount weight_sum) ([], [], 0) weights = Inr (b, r, a)"
      and shares: "shares = hand_out b (take (unat (ucast (amount - a) :: u64)) (sort_by (rank_le r) [0..<?n]))"
    by (auto simp: apportion_def Let_def res_bind_eq_Inr)
  have "unat (0 :: u128) + (\<Sum>w\<leftarrow>weights. floor_share amount weight_sum w) < 2 ^ 128"
    using le u128_lt [of amount] by simp
  from apportion_scan [OF scan this]
  have b: "map unat b = map (floor_share amount weight_sum) weights"
    and r: "map unat r = map (share_rem amount weight_sum) weights"
    and a: "unat a = (\<Sum>w\<leftarrow>weights. floor_share amount weight_sum w)" by simp_all
  have "unat (amount - a) = ?k"
    using le a by (simp add: unat_sub word_le_nat_alt leftover_units_def)
  moreover have "?k < 2 ^ 64"
    using leftover_le_length [OF assms(2,3), of amount] assms(4) by linarith
  ultimately have k: "unat (ucast (amount - a) :: u64) = ?k"
    by (subst unat_ucast_exact) simp_all
  have len: "length b = ?n" using b map_eq_imp_length_eq by blast
  let ?top = "take ?k (sort_by (rank_le r) [0..<?n])"
  have nth: "unat (shares ! i) = floor_share amount weight_sum (weights ! i)
      + (if i \<in> topped_up r ?n ?k then 1 else 0)" if i: "i < ?n" for i
  proof -
    have bi: "unat (b ! i) = floor_share amount weight_sum (weights ! i)"
      using b i len by (metis nth_map)
    have member_le: "floor_share amount weight_sum (weights ! i) \<le> unat a"
      unfolding a using i by (intro sum_list_pos_member) simp
    have sh: "shares ! i = b ! i + (if i \<in> topped_up r ?n ?k then 1 else 0)"
      unfolding shares k topped_up_def
      by (rule nth_hand_out) (use i len set_take_subset [of ?k "sort_by (rank_le r) [0..<?n]"] in auto)
    show ?thesis
    proof (cases "i \<in> topped_up r ?n ?k")
      case True
      then have "0 < ?k" by (cases ?k) (auto simp: topped_up_def)
      then have "unat (b ! i) + 1 < 2 ^ 128"
        using member_le bi a u128_lt [of amount] by (simp add: leftover_units_def)
      then have "unat (b ! i + 1) = unat (b ! i) + 1"
        by (subst unat_add_exact) simp_all
      with True sh bi show ?thesis by simp
    qed (simp add: sh bi)
  qed
  show thesis
    by (rule that [OF r _ nth]) (simp_all add: shares len)
qed

lemma apportion_exact_sum:
  assumes "apportion amount weights weight_sum = Inr shares"
    and "weight_sum \<noteq> 0" and "sum_unat weights = unat weight_sum" and "length weights < 2 ^ 64"
  shows "length shares = length weights \<and> sum_unat shares = unat amount"
proof -
  let ?n = "length weights" and ?k = "leftover_units amount weights weight_sum"
  from apportion_shape [OF assms] obtain r where
      len: "length shares = ?n"
    and nth: "\<And>i. i < ?n \<Longrightarrow> unat (shares ! i) = floor_share amount weight_sum (weights ! i)
           + (if i \<in> topped_up r ?n ?k then 1 else 0)"
    by blast
  have "sum_unat shares = (\<Sum>i<?n. unat (shares ! i))"
    by (simp add: sum_unat_def sum_list_sum_nth len atLeast0LessThan)
  also have "\<dots> = (\<Sum>i<?n. floor_share amount weight_sum (weights ! i)) + card (topped_up r ?n ?k)"
    using topped_up_subset [of r ?n ?k]
    by (simp add: nth sum.distrib flip: sum.inter_restrict) (simp add: Int_absorb1)
  also have "card (topped_up r ?n ?k) = ?k"
    using leftover_le_length [OF assms(2,3)] by (simp add: card_topped_up min_absorb1)
  also have "(\<Sum>i<?n. floor_share amount weight_sum (weights ! i))
      = (\<Sum>w\<leftarrow>weights. floor_share amount weight_sum w)"
    by (simp add: sum_list_sum_nth atLeast0LessThan)
  finally show ?thesis
    using sum_floor_le [OF assms(2,3), of amount] len by (simp add: leftover_units_def)
qed

lemma apportion_is_ok:
  assumes "unat amount * unat weight_sum < 2 ^ 128" and "sum_unat weights = unat weight_sum"
  shows "is_ok (apportion amount weights weight_sum)"
proof -
  have fits: "unat amount * unat w < 2 ^ 128" if "w \<in> set weights" for w
  proof -
    have "unat w \<le> unat weight_sum"
      using that assms(2) sum_list_pos_member [of "unat w" "map unat weights"] by (auto simp: sum_unat_def)
    then have "unat amount * unat w \<le> unat amount * unat weight_sum" by simp
    with assms(1) show ?thesis by linarith
  qed
  then show ?thesis
    unfolding apportion_def
    by (intro is_ok_bindI apportion_scan_is_ok) (auto simp: Let_def split: prod.splits)
qed

section \<open>Crediting the shares of an exact split\<close>

text \<open>
  The allocation relies on one law of its splitting routine: the shares are as many as the
  weights and add up to the amount. Under that law, folding the shares into the per-work
  totals adds exactly the amount to their sum.
\<close>

definition map_total :: "('k, 'l::len word) btree_map \<Rightarrow> nat" where
  "map_total m = (\<Sum>e\<leftarrow>m. unat (snd e))"

lemma map_total_Nil [simp]: "map_total [] = 0"
  by (simp add: map_total_def)

lemma map_total_insert:
  assumes "bt_wf m"
  shows "map_total (bt_insert k v m) + unat (bt_get_or 0 m k) = map_total m + unat v"
  using bt_sum_insert [OF assms, of unat k v]
  by (simp add: map_total_def bt_get_or_def split: option.splits)

lemma credit_row_Inr:
  "credit_row m (rc, share) = Inr m' \<longleftrightarrow>
     unat (bt_get_or 0 m (rr_work (fst rc))) + unat share < 2 ^ 128 \<and>
     m' = bt_insert (rr_work (fst rc)) (bt_get_or 0 m (rr_work (fst rc)) + share) m"
  by (cases rc) (auto simp: credit_row_def checked_add_unat)

lemma credit_row_total:
  assumes "bt_wf m" and "credit_row m (rc, share) = Inr m'"
  shows "bt_wf m' \<and> map_total m' = map_total m + unat share"
proof -
  let ?k = "rr_work (fst rc)"
  from assms(2) have fits: "unat (bt_get_or 0 m ?k) + unat share < 2 ^ LENGTH(128)"
    and m': "m' = bt_insert ?k (bt_get_or 0 m ?k + share) m"
    by (simp_all add: credit_row_Inr)
  from map_total_insert [OF assms(1), of ?k "bt_get_or 0 m ?k + share"] unat_add_exact [OF fits]
  show ?thesis by (simp add: m' bt_wf_insert [OF assms(1)])
qed

lemma credit_fold_total:
  assumes "res_fold credit_row m (zip rows shares) = Inr m'" and "bt_wf m"
    and "length rows = length shares"
  shows "bt_wf m' \<and> map_total m' = map_total m + sum_unat shares"
  using assms
proof (induction rows arbitrary: shares m)
  case (Cons rc rows)
  then obtain share shares' where sh: "shares = share # shares'" by (cases shares) auto
  with Cons.prems(1) obtain m1 where step: "credit_row m (rc, share) = Inr m1"
    and rest: "res_fold credit_row m1 (zip rows shares') = Inr m'"
    by (auto simp: res_bind_eq_Inr)
  from credit_row_total [OF Cons.prems(2) step] Cons.IH [OF rest] Cons.prems(3) sh
  show ?case by simp
qed simp

locale exact_split =
  fixes split_shares :: "u128 \<Rightarrow> u128 list \<Rightarrow> u128 \<Rightarrow> 'e + u128 list"
  assumes split_exact:
    "\<lbrakk>split_shares amount weights weight_sum = Inr shares; weight_sum \<noteq> 0;
      sum_unat weights = unat weight_sum; length weights < 2 ^ 64\<rbrakk>
     \<Longrightarrow> length shares = length weights \<and> sum_unat shares = unat amount"
begin

lemma credited_exactly:
  assumes "split_shares amount weights weight_sum = Inr shares" and "weight_sum \<noteq> 0"
    and "sum_unat weights = unat weight_sum" and "length weights < 2 ^ 64"
    and "res_fold credit_row m (zip rows shares) = Inr m'" and "bt_wf m"
    and "length rows = length weights"
  shows "bt_wf m' \<and> map_total m' = map_total m + unat amount"
  using credit_fold_total [OF assms(5,6)] split_exact [OF assms(1-4)] assms(7) by simp

lemma single_weight_all:
  assumes "split_shares amount [w] w = Inr shares" and "w \<noteq> 0"
  shows "shares = [amount]"
proof -
  have "length shares = 1 \<and> sum_unat shares = unat amount"
    using split_exact [OF assms] by simp
  then show ?thesis by (cases shares) (auto simp: word_unat_eq_iff)
qed

end

interpretation apportion: exact_split apportion
  by unfold_locales (rule apportion_exact_sum)

section \<open>Grouping the rows\<close>

definition user_rows_of :: "raw_row list \<Rightarrow> u64 list \<Rightarrow> string \<Rightarrow> (raw_row \<times> u64) list" where
  "user_rows_of rows creds user =
     map (\<lambda>(r, c). (r, min c 1000000)) (List.filter (\<lambda>(r, c). rr_user r = user) (zip rows creds))"

lemma group_rows_get:
  "bt_get_or [] (group_rows rows creds) user = user_rows_of rows creds user"
proof -
  have "bt_get_or [] (foldl (\<lambda>m (row, c). bt_update [] (\<lambda>l. l @ [(row, min c 1000000)]) (rr_user row) m) m ps) user
      = bt_get_or [] m user @ map (\<lambda>(r, c). (r, min c 1000000)) (List.filter (\<lambda>(r, c). rr_user r = user) ps)"
    for m :: "(string, (raw_row \<times> u64) list) btree_map" and ps
    by (induction ps arbitrary: m) (auto simp: bt_get_or_def bt_get_update split: option.splits)
  from this [of "[]" "zip rows creds"] show ?thesis
    by (simp add: group_rows_def user_rows_of_def bt_get_or_def)
qed

lemma length_user_rows_of: "length (user_rows_of rows creds user) \<le> length rows"
  using length_filter_le [of _ "zip rows creds"] by (fastforce simp: user_rows_of_def)

lemma user_rows_of_clamped: "(r, c) \<in> set (user_rows_of rows creds user) \<Longrightarrow> unat c \<le> 1000000"
  by (auto simp: user_rows_of_def unat_min)

section \<open>What one user's fee is worth\<close>

definition cred_nat :: "raw_row \<times> u64 \<Rightarrow> nat" where
  "cred_nat rc = unat (rr_raw (fst rc)) * unat (snd rc) div 1000000"

definition raw_total :: "(raw_row \<times> u64) list \<Rightarrow> nat" where
  "raw_total rs = (\<Sum>rc\<leftarrow>rs. unat (rr_raw (fst rc)))"

definition cred_total :: "(raw_row \<times> u64) list \<Rightarrow> nat" where
  "cred_total rs = (\<Sum>rc\<leftarrow>rs. cred_nat rc)"

text \<open>The amount of the fee that reaches works; the rest is burned.\<close>

definition fee_target :: "nat \<Rightarrow> (raw_row \<times> u64) list \<Rightarrow> nat" where
  "fee_target fee rs =
     (if raw_total rs = 0 \<or> cred_total rs = 0 then 0 else fee * cred_total rs div raw_total rs)"

lemma totals_simps [simp]:
  "raw_total [] = 0" "raw_total (rc # rs) = unat (rr_raw (fst rc)) + raw_total rs"
  "cred_total [] = 0" "cred_total (rc # rs) = cred_nat rc + cred_total rs"
  by (simp_all add: raw_total_def cred_total_def)

lemma cred_nat_le: "unat (snd rc) \<le> 1000000 \<Longrightarrow> cred_nat rc \<le> unat (rr_raw (fst rc))"
  unfolding cred_nat_def by (metis div_le_mono mult_le_mono2 nonzero_mult_div_cancel_right zero_neq_numeral)

lemma cred_total_le:
  "(\<And>rc. rc \<in> set rs \<Longrightarrow> unat (snd rc) \<le> 1000000) \<Longrightarrow> cred_total rs \<le> raw_total rs"
  by (induction rs) (auto intro: add_mono cred_nat_le)

lemma cred_total_mono:
  assumes "list_all2 (\<lambda>a b. fst a = fst b \<and> snd a \<le> snd b) rs rs'"
  shows "raw_total rs = raw_total rs' \<and> cred_total rs \<le> cred_total rs'"
  using assms
  by (induction rs rs' rule: list_all2_induct)
    (auto intro!: add_mono div_le_mono mult_le_mono2 simp: cred_nat_def word_le_nat_alt)

lemma fee_target_le:
  assumes "cred_total rs \<le> raw_total rs"
  shows "fee_target fee rs \<le> fee"
proof -
  have "fee * cred_total rs div raw_total rs \<le> fee * raw_total rs div raw_total rs"
    using assms by (intro div_le_mono) simp
  then show ?thesis by (cases "raw_total rs = 0") (auto simp: fee_target_def)
qed

lemma fee_target_mono:
  assumes "list_all2 (\<lambda>a b. fst a = fst b \<and> snd a \<le> snd b) rs rs'"
  shows "fee_target fee rs \<le> fee_target fee rs'"
proof -
  from cred_total_mono [OF assms] have eq: "raw_total rs = raw_total rs'"
    and le: "cred_total rs \<le> cred_total rs'" by simp_all
  have "fee * cred_total rs div raw_total rs' \<le> fee * cred_total rs' div raw_total rs'"
    using le by (intro div_le_mono) simp
  then show ?thesis using eq le by (auto simp: fee_target_def)
qed

lemma ppm_word: "unat (1000000 :: u128) = 1000000" "unat (1000000 :: u64) = 1000000"
  by (simp_all)

lemma cred_row_Inr:
  assumes "cred_row user s (row, c) = Inr s'"
  obtains cred rw sc up where "unat cred = cred_nat (row, c)"
    and "unat rw = unat (us_rw s) + unat (rr_raw row)"
    and "unat sc = unat (us_sum_cred s) + unat cred"
    and "unat up = unat (bt_get_or 0 (us_rep_usage s) (rr_work row)) + unat cred"
    and "s' = \<lparr>us_creds = us_creds s @ [cred], us_rw = rw, us_sum_cred = sc,
             us_rep_usage = bt_insert (rr_work row) up (us_rep_usage s),
             us_rep_users = bt_update [] (bs_insert user) (rr_work row) (us_rep_users s)\<rparr>"
proof -
  from assms obtain cred rw sc up where
      md: "mul_div (rr_raw row) (ucast c) 1000000 = Inr cred"
    and rw: "checked_add (us_rw s) (rr_raw row) = Some rw"
    and sc: "checked_add (us_sum_cred s) cred = Some sc"
    and up: "checked_add (bt_get_or 0 (us_rep_usage s) (rr_work row)) cred = Some up"
    and s': "s' = \<lparr>us_creds = us_creds s @ [cred], us_rw = rw, us_sum_cred = sc,
             us_rep_usage = bt_insert (rr_work row) up (us_rep_usage s),
             us_rep_users = bt_update [] (bs_insert user) (rr_work row) (us_rep_users s)\<rparr>"
    by (auto simp: cred_row_def res_bind_eq_Inr ok_or_eq_Inr)
  from md have "unat cred = cred_nat (row, c)"
    by (simp add: mul_div_Inr cred_nat_def unat_u64_u128 ppm_word)
  with rw sc up s' show thesis by (auto simp: checked_add_Some intro: that)
qed

lemma cred_rows_Inr:
  assumes "res_fold (cred_row user) s rs = Inr s'"
  shows "map unat (us_creds s') = map unat (us_creds s) @ map cred_nat rs
       \<and> unat (us_rw s') = unat (us_rw s) + raw_total rs
       \<and> unat (us_sum_cred s') = unat (us_sum_cred s) + cred_total rs"
  using assms
proof (induction rs arbitrary: s)
  case (Cons rc rs)
  obtain row c where rc: "rc = (row, c)" by (cases rc)
  from Cons.prems obtain s1 where step: "cred_row user s (row, c) = Inr s1"
    and rest: "res_fold (cred_row user) s1 rs = Inr s'"
    by (auto simp: rc res_bind_eq_Inr)
  show ?case
    by (rule cred_row_Inr [OF step]) (use Cons.IH [OF rest] in \<open>simp add: rc\<close>)
qed simp

section \<open>One user's step of the allocation\<close>

lemma alloc_user_Inr:
  assumes "alloc_user G s (user, fee) = Inr s'" and "bt_wf (al_per_work s)"
    and "bt_get_or [] G user = rs" and "length rs < 2 ^ 64"
    and "\<And>rc. rc \<in> set rs \<Longrightarrow> unat (snd rc) \<le> 1000000"
  shows "bt_wf (al_per_work s')
       \<and> map_total (al_per_work s') = map_total (al_per_work s) + fee_target (unat fee) rs
       \<and> unat (al_unallocated s') = unat (al_unallocated s) + (unat fee - fee_target (unat fee) rs)"
proof -
  let ?s0 = "\<lparr>us_creds = [], us_rw = 0, us_sum_cred = 0,
             us_rep_usage = al_rep_usage s, us_rep_users = al_rep_users s\<rparr>"
  from assms(1,3) obtain us where us: "res_fold (cred_row user) ?s0 rs = Inr us"
    by (auto simp: alloc_user_def Let_def res_bind_eq_Inr)
  from cred_rows_Inr [OF us] have creds: "map unat (us_creds us) = map cred_nat rs"
    and rw: "unat (us_rw us) = raw_total rs" and sc: "unat (us_sum_cred us) = cred_total rs"
    by simp_all
  have zero: "us_rw us = 0 \<longleftrightarrow> raw_total rs = 0" "us_sum_cred us = 0 \<longleftrightarrow> cred_total rs = 0"
    by (simp_all flip: rw sc add: unat_eq_0)
  show ?thesis
  proof (cases "us_rw us = 0 \<or> us_sum_cred us = 0")
    case True
    with assms(1,3) us obtain u where "checked_add (al_unallocated s) fee = Some u"
      and "al_per_work s' = al_per_work s" and "al_unallocated s' = u"
      by (auto simp: alloc_user_def Let_def res_bind_eq_Inr ok_or_eq_Inr)
    with True assms(2) show ?thesis by (auto simp: zero fee_target_def checked_add_Some)
  next
    case False
    with assms(1,3) us obtain t rest u shares pw where
        t: "mul_div fee (us_sum_cred us) (us_rw us) = Inr t"
      and rest: "checked_sub fee t = Some rest"
      and u: "checked_add (al_unallocated s) rest = Some u"
      and shares: "apportion t (us_creds us) (us_sum_cred us) = Inr shares"
      and pw: "res_fold credit_row (al_per_work s) (zip rs shares) = Inr pw"
      and s': "al_per_work s' = pw" "al_unallocated s' = u"
      by (auto simp: alloc_user_def Let_def res_bind_eq_Inr ok_or_eq_Inr)
    have len: "length (us_creds us) = length rs"
      using creds map_eq_imp_length_eq by blast
    have sum: "sum_unat (us_creds us) = unat (us_sum_cred us)"
      by (simp add: sum_unat_def sc creds cred_total_def)
    from t False have tgt: "unat t = fee_target (unat fee) rs"
      by (auto simp: mul_div_Inr fee_target_def zero rw sc)
    have "bt_wf pw \<and> map_total pw = map_total (al_per_work s) + unat t"
      by (rule apportion.credited_exactly [OF shares _ sum _ pw assms(2)])
        (use False len assms(4) in simp_all)
    with rest u s' tgt show ?thesis by (simp add: checked_sub_Some checked_add_Some)
  qed
qed

lemma alloc_users_Inr:
  assumes "res_fold (alloc_user G) s fees = Inr s'" and "bt_wf (al_per_work s)"
    and "\<And>user. length (bt_get_or [] G user) < 2 ^ 64"
    and "\<And>user rc. rc \<in> set (bt_get_or [] G user) \<Longrightarrow> unat (snd rc) \<le> 1000000"
  shows "bt_wf (al_per_work s')
       \<and> map_total (al_per_work s') = map_total (al_per_work s)
           + (\<Sum>(u, fee)\<leftarrow>fees. fee_target (unat fee) (bt_get_or [] G u))
       \<and> unat (al_unallocated s') = unat (al_unallocated s)
           + (\<Sum>(u, fee)\<leftarrow>fees. unat fee - fee_target (unat fee) (bt_get_or [] G u))"
  using assms(1,2)
proof (induction fees arbitrary: s)
  case (Cons uf fees)
  obtain u fee where uf: "uf = (u, fee)" by (cases uf)
  from Cons.prems(1) obtain s1 where step: "alloc_user G s (u, fee) = Inr s1"
    and rest: "res_fold (alloc_user G) s1 fees = Inr s'"
    by (auto simp: uf res_bind_eq_Inr)
  note one = alloc_user_Inr [OF step Cons.prems(2) refl assms(3,4)]
  with Cons.IH [OF rest] show ?case by (simp add: uf)
qed simp

lemma allocation_Inr:
  assumes "allocate_from_raw_with_row_credibility fees rows creds = Inr p" and "length rows < 2 ^ 64"
  shows "length creds = length rows \<and> bt_wf (per_work p)
       \<and> map_total (per_work p) = (\<Sum>(u, fee)\<leftarrow>fees. fee_target (unat fee) (user_rows_of rows creds u))
       \<and> unat (unallocated p) = (\<Sum>(u, fee)\<leftarrow>fees. unat fee - fee_target (unat fee) (user_rows_of rows creds u))"
proof -
  let ?G = "group_rows rows creds"
  from assms(1) obtain s where len: "length creds = length rows"
    and fold: "res_fold (alloc_user ?G)
       \<lparr>al_per_work = [], al_unallocated = 0, al_rep_usage = [], al_rep_users = []\<rparr> fees = Inr s"
    and p: "per_work p = al_per_work s" "unallocated p = al_unallocated s"
    by (auto simp: allocate_from_raw_with_row_credibility_def Let_def res_bind_eq_Inr split: if_splits)
  have short: "length (bt_get_or [] ?G u) < 2 ^ 64" for u
    using length_user_rows_of [of rows creds u] assms(2) by (simp add: group_rows_get)
  have clamped: "\<And>u rc. rc \<in> set (bt_get_or [] ?G u) \<Longrightarrow> unat (snd rc) \<le> 1000000"
    using user_rows_of_clamped by (fastforce simp: group_rows_get)
  from alloc_users_Inr [OF fold _ short clamped] len p show ?thesis
    by (simp add: group_rows_get)
qed

section \<open>When the allocation succeeds\<close>

lemma bt_get_or_le_total: "bt_wf m \<Longrightarrow> unat (bt_get_or 0 m k) \<le> map_total m"
  using map_total_insert [of m k 0] by simp

lemma cred_row_total:
  assumes "cred_row user s (row, c) = Inr s'" and "bt_wf (us_rep_usage s)"
  shows "bt_wf (us_rep_usage s')
       \<and> map_total (us_rep_usage s') = map_total (us_rep_usage s) + cred_nat (row, c)"
proof (rule cred_row_Inr [OF assms(1)])
  fix cred rw sc up
  assume "unat cred = cred_nat (row, c)"
    and "unat up = unat (bt_get_or 0 (us_rep_usage s) (rr_work row)) + unat cred"
    and "s' = \<lparr>us_creds = us_creds s @ [cred], us_rw = rw, us_sum_cred = sc,
             us_rep_usage = bt_insert (rr_work row) up (us_rep_usage s),
             us_rep_users = bt_update [] (bs_insert user) (rr_work row) (us_rep_users s)\<rparr>"
  then show ?thesis
    using map_total_insert [OF assms(2), of "rr_work row" up] by (simp add: bt_wf_insert [OF assms(2)])
qed

lemma cred_rows_total:
  assumes "res_fold (cred_row user) s rs = Inr s'" and "bt_wf (us_rep_usage s)"
  shows "bt_wf (us_rep_usage s')
       \<and> map_total (us_rep_usage s') = map_total (us_rep_usage s) + cred_total rs"
  using assms
proof (induction rs arbitrary: s)
  case (Cons rc rs)
  obtain row c where rc: "rc = (row, c)" by (cases rc)
  with Cons.prems obtain s1 where step: "cred_row user s (row, c) = Inr s1"
    and rest: "res_fold (cred_row user) s1 rs = Inr s'"
    by (auto simp: res_bind_eq_Inr)
  from cred_row_total [OF step Cons.prems(2)] Cons.IH [OF rest] show ?case by (simp add: rc)
qed simp

lemma checked_add_is_ok: "unat a + unat b < 2 ^ 128 \<Longrightarrow> is_ok (ok_or e (checked_add a (b :: u128)))"
  by (simp add: checked_add_unat)

lemma cred_row_is_ok:
  assumes "unat c \<le> 1000000" and "bt_wf (us_rep_usage s)"
    and "unat (us_rw s) + unat (rr_raw row) < 2 ^ 128"
    and "unat (us_sum_cred s) + unat (rr_raw row) < 2 ^ 128"
    and "map_total (us_rep_usage s) + unat (rr_raw row) < 2 ^ 128"
  shows "is_ok (cred_row user s (row, c))"
proof -
  have le: "cred_nat (row, c) \<le> unat (rr_raw row)" using cred_nat_le [of "(row, c)"] assms(1) by simp
  then have "unat (rr_raw row) * unat c div 1000000 < 2 ^ 128"
    using u128_lt [of "rr_raw row"] by (simp add: cred_nat_def)
  then have md: "is_ok (mul_div (rr_raw row) (ucast c) 1000000)"
    by (intro mul_div_is_ok) (simp_all add: unat_u64_u128)
  have cred: "unat cred \<le> unat (rr_raw row)" if "mul_div (rr_raw row) (ucast c) 1000000 = Inr cred" for cred
    using that le by (simp add: mul_div_Inr cred_nat_def unat_u64_u128)
  have "unat (bt_get_or 0 (us_rep_usage s) (rr_work row)) \<le> map_total (us_rep_usage s)"
    by (rule bt_get_or_le_total [OF assms(2)])
  with assms(3-5) show ?thesis
    unfolding cred_row_def prod.case
    by (intro is_ok_bindI md checked_add_is_ok) (auto dest!: cred)
qed

lemma cred_rows_is_ok:
  assumes "\<And>rc. rc \<in> set rs \<Longrightarrow> unat (snd rc) \<le> 1000000" and "bt_wf (us_rep_usage s)"
    and "unat (us_rw s) + raw_total rs < 2 ^ 128"
    and "unat (us_sum_cred s) + raw_total rs < 2 ^ 128"
    and "map_total (us_rep_usage s) + raw_total rs < 2 ^ 128"
  shows "is_ok (res_fold (cred_row user) s rs)"
  using assms
proof (induction rs arbitrary: s)
  case (Cons rc rs)
  obtain row c where rc: "rc = (row, c)" by (cases rc)
  have c: "unat c \<le> 1000000" using Cons.prems(1) [of rc] rc by simp
  have le: "cred_nat (row, c) \<le> unat (rr_raw row)" using cred_nat_le [of "(row, c)"] c by simp
  show ?case
    unfolding rc res_fold.simps
  proof (rule is_ok_bindI)
    show "is_ok (cred_row user s (row, c))"
      by (rule cred_row_is_ok [OF c Cons.prems(2)]) (use Cons.prems(3-5) rc in auto)
  next
    fix s1
    assume step: "cred_row user s (row, c) = Inr s1"
    note tot = cred_row_total [OF step Cons.prems(2)]
    show "is_ok (res_fold (cred_row user) s1 rs)"
    proof (rule Cons.IH)
      show "\<And>rc. rc \<in> set rs \<Longrightarrow> unat (snd rc) \<le> 1000000" using Cons.prems(1) by auto
      show "bt_wf (us_rep_usage s1)" using tot by simp
      show "unat (us_rw s1) + raw_total rs < 2 ^ 128" "unat (us_sum_cred s1) + raw_total rs < 2 ^ 128"
        by (rule cred_row_Inr [OF step]; use Cons.prems(3,4) rc le in simp)+
      show "map_total (us_rep_usage s1) + raw_total rs < 2 ^ 128"
        using tot Cons.prems(5) rc le by simp
    qed
  qed
qed simp

lemma credit_fold_is_ok:
  assumes "bt_wf m" and "length rows = length shares" and "map_total m + sum_unat shares < 2 ^ 128"
  shows "is_ok (res_fold credit_row m (zip rows shares))"
  using assms
proof (induction rows arbitrary: m shares)
  case (Cons rc rows)
  then obtain sh shs where sh: "shares = sh # shs" by (cases shares) auto
  let ?old = "bt_get_or 0 m (rr_work (fst rc))"
  have "unat ?old + unat sh < 2 ^ 128"
    using bt_get_or_le_total [OF Cons.prems(1), of "rr_work (fst rc)"] Cons.prems(3) sh by simp
  then have step: "credit_row m (rc, sh) = Inr (bt_insert (rr_work (fst rc)) (?old + sh) m)" (is "_ = Inr ?m1")
    by (simp add: credit_row_Inr)
  have "is_ok (res_fold credit_row ?m1 (zip rows shs))"
    using credit_row_total [OF Cons.prems(1) step] Cons.prems(2,3) sh
    by (intro Cons.IH) simp_all
  with step sh show ?case by simp
qed simp

text \<open>What the allocation keeps while it works through the fees.\<close>

definition alloc_inv :: "nat \<Rightarrow> nat \<Rightarrow> alloc_state \<Rightarrow> bool" where
  "alloc_inv F R s \<longleftrightarrow> bt_wf (al_per_work s) \<and> bt_wf (al_rep_usage s)
     \<and> map_total (al_per_work s) + unat (al_unallocated s) = F
     \<and> map_total (al_rep_usage s) \<le> R"

lemma alloc_user_rep_usage:
  assumes "alloc_user G s (user, fee) = Inr s'" and "bt_wf (al_rep_usage s)"
  shows "bt_wf (al_rep_usage s') \<and> map_total (al_rep_usage s')
      = map_total (al_rep_usage s) + cred_total (bt_get_or [] G user)"
proof -
  let ?s0 = "\<lparr>us_creds = [], us_rw = 0, us_sum_cred = 0,
             us_rep_usage = al_rep_usage s, us_rep_users = al_rep_users s\<rparr>"
  from assms(1) obtain us where us: "res_fold (cred_row user) ?s0 (bt_get_or [] G user) = Inr us"
    and s': "al_rep_usage s' = us_rep_usage us"
    by (auto simp: alloc_user_def Let_def res_bind_eq_Inr split: if_splits)
  from cred_rows_total [OF us] assms(2) s' show ?thesis by simp
qed

lemma alloc_user_inv:
  assumes "alloc_user G s (user, fee) = Inr s'" and "alloc_inv F R s"
    and "length (bt_get_or [] G user) < 2 ^ 64"
    and "\<And>rc. rc \<in> set (bt_get_or [] G user) \<Longrightarrow> unat (snd rc) \<le> 1000000"
  shows "alloc_inv (F + unat fee) (R + raw_total (bt_get_or [] G user)) s'"
proof -
  let ?rs = "bt_get_or [] G user"
  have le: "cred_total ?rs \<le> raw_total ?rs" by (rule cred_total_le) (rule assms(4))
  have inv: "bt_wf (al_per_work s)" "bt_wf (al_rep_usage s)"
    "map_total (al_per_work s) + unat (al_unallocated s) = F" "map_total (al_rep_usage s) \<le> R"
    using assms(2) by (simp_all add: alloc_inv_def)
  from alloc_user_Inr [OF assms(1) inv(1) refl assms(3,4)] alloc_user_rep_usage [OF assms(1) inv(2)]
    fee_target_le [OF le, of "unat fee"] le inv(3,4)
  show ?thesis by (simp add: alloc_inv_def)
qed

lemma alloc_user_is_ok:
  assumes "alloc_inv F R s" and "bt_get_or [] G user = rs" and "length rs < 2 ^ 64"
    and "\<And>rc. rc \<in> set rs \<Longrightarrow> unat (snd rc) \<le> 1000000"
    and "F + unat fee < 2 ^ 128" and "R + raw_total rs < 2 ^ 128"
    and "unat fee * raw_total rs < 2 ^ 128"
  shows "is_ok (alloc_user G s (user, fee))"
proof -
  let ?s0 = "\<lparr>us_creds = [], us_rw = 0, us_sum_cred = 0,
             us_rep_usage = al_rep_usage s, us_rep_users = al_rep_users s\<rparr>"
  have inv: "bt_wf (al_per_work s)" "bt_wf (al_rep_usage s)"
    "map_total (al_per_work s) + unat (al_unallocated s) = F" "map_total (al_rep_usage s) \<le> R"
    using assms(1) by (simp_all add: alloc_inv_def)
  have un: "unat (al_unallocated s) + unat fee < 2 ^ 128" using inv(3) assms(5) by linarith
  have "is_ok (res_fold (cred_row user) ?s0 rs)"
    by (rule cred_rows_is_ok) (use assms(4,6) inv in auto)
  then obtain us where us: "res_fold (cred_row user) ?s0 rs = Inr us" by (auto simp: is_ok_iff)
  from cred_rows_Inr [OF us] have creds: "map unat (us_creds us) = map cred_nat rs"
    and rw: "unat (us_rw us) = raw_total rs" and sc: "unat (us_sum_cred us) = cred_total rs"
    by simp_all
  have le: "cred_total rs \<le> raw_total rs" by (rule cred_total_le) (rule assms(4))
  show ?thesis
  proof (cases "us_rw us = 0 \<or> us_sum_cred us = 0")
    case True
    with us un show ?thesis
      by (auto simp: alloc_user_def assms(2) checked_add_unat)
  next
    case False
    have "unat fee * unat (us_sum_cred us) div unat (us_rw us) = fee_target (unat fee) rs"
      using False by (auto simp: fee_target_def rw sc simp flip: unat_eq_0)
    moreover have tle: "fee_target (unat fee) rs \<le> unat fee" by (rule fee_target_le [OF le])
    ultimately have "is_ok (mul_div fee (us_sum_cred us) (us_rw us))"
      using False u128_lt [of fee] by (intro mul_div_is_ok) auto
    then obtain t where t: "mul_div fee (us_sum_cred us) (us_rw us) = Inr t" by (auto simp: is_ok_iff)
    then have t': "unat t = fee_target (unat fee) rs"
      using False by (auto simp: mul_div_Inr fee_target_def rw sc simp flip: unat_eq_0)
    then have sub: "checked_sub fee t = Some (fee - t)"
      and fee_t: "unat (fee - t) = unat fee - unat t"
      using tle by (simp_all add: checked_sub_def unat_sub word_le_nat_alt)
    have add: "checked_add (al_unallocated s) (fee - t) = Some (al_unallocated s + (fee - t))"
      using un by (simp add: checked_add_unat fee_t)
    have sum: "sum_unat (us_creds us) = unat (us_sum_cred us)"
      by (simp add: sum_unat_def sc creds cred_total_def)
    have "unat t * unat (us_sum_cred us) \<le> unat fee * raw_total rs"
      using t' tle le sc by (intro mult_le_mono) simp_all
    then have "is_ok (apportion t (us_creds us) (us_sum_cred us))"
      using assms(7) by (intro apportion_is_ok [OF _ sum]) linarith
    then obtain sh where sh: "apportion t (us_creds us) (us_sum_cred us) = Inr sh" by (auto simp: is_ok_iff)
    have len: "length (us_creds us) = length rs" using creds map_eq_imp_length_eq by blast
    have exact: "length sh = length rs \<and> sum_unat sh = unat t"
      using apportion_exact_sum [OF sh _ sum] False len assms(3) by simp
    have "is_ok (res_fold credit_row (al_per_work s) (zip rs sh))"
      by (rule credit_fold_is_ok) (use inv exact t' tle assms(5) in auto)
    then obtain pw where "res_fold credit_row (al_per_work s) (zip rs sh) = Inr pw" by (auto simp: is_ok_iff)
    with False us t sub add sh show ?thesis by (simp add: alloc_user_def assms(2) Let_def)
  qed
qed

lemma alloc_users_is_ok:
  assumes "alloc_inv F R s"
    and "\<And>user. length (bt_get_or [] G user) < 2 ^ 64"
    and "\<And>user rc. rc \<in> set (bt_get_or [] G user) \<Longrightarrow> unat (snd rc) \<le> 1000000"
    and "F + map_total fees < 2 ^ 128"
    and "R + (\<Sum>(u, fee)\<leftarrow>fees. raw_total (bt_get_or [] G u)) < 2 ^ 128"
    and "\<And>u fee. (u, fee) \<in> set fees \<Longrightarrow> unat fee * raw_total (bt_get_or [] G u) < 2 ^ 128"
  shows "is_ok (res_fold (alloc_user G) s fees)"
  using assms(1,4-6)
proof (induction fees arbitrary: s F R)
  case (Cons uf fees)
  obtain u fee where uf: "uf = (u, fee)" by (cases uf)
  let ?rs = "bt_get_or [] G u"
  show ?case
    unfolding uf res_fold.simps
  proof (rule is_ok_bindI)
    show "is_ok (alloc_user G s (u, fee))"
      by (rule alloc_user_is_ok [OF Cons.prems(1) refl assms(2,3)])
        (use Cons.prems uf in \<open>auto simp: map_total_def\<close>)
  next
    fix s1
    assume "alloc_user G s (u, fee) = Inr s1"
    from alloc_user_inv [OF this Cons.prems(1) assms(2,3)]
    have "alloc_inv (F + unat fee) (R + raw_total ?rs) s1" .
    then show "is_ok (res_fold (alloc_user G) s1 fees)"
      by (rule Cons.IH) (use Cons.prems uf in \<open>auto simp: map_total_def add.assoc\<close>)
  qed
qed simp

lemma raw_total_user_rows:
  assumes "distinct users"
  shows "(\<Sum>u\<leftarrow>users. raw_total (user_rows_of rows creds u)) \<le> (\<Sum>r\<leftarrow>rows. unat (rr_raw r))"
proof -
  have "(\<Sum>u\<leftarrow>users. raw_total (map (\<lambda>(r, c). (r, min c 1000000)) (List.filter (\<lambda>(r, c). rr_user r = u) ps)))
      \<le> (\<Sum>rc\<leftarrow>ps. unat (rr_raw (fst rc)))" for ps :: "(raw_row \<times> u64) list"
  proof (induction ps)
    case (Cons p ps)
    obtain r c where p: "p = (r, c)" by (cases p)
    have split: "raw_total (map (\<lambda>(r, c). (r, min c 1000000)) (List.filter (\<lambda>(r, c). rr_user r = u) (p # ps)))
        = (if u = rr_user r then unat (rr_raw r) else 0)
          + raw_total (map (\<lambda>(r, c). (r, min c 1000000)) (List.filter (\<lambda>(r, c). rr_user r = u) ps))" for u
      by (simp add: p)
    have "(\<Sum>u\<leftarrow>users. if u = rr_user r then unat (rr_raw r) else 0) \<le> unat (rr_raw r)"
      using assms by (induction users) auto
    with Cons show ?case by (simp only: split sum_list_addf) (simp add: p)
  qed (simp add: sum_list_0)
  from this [of "zip rows creds"] have "(\<Sum>u\<leftarrow>users. raw_total (user_rows_of rows creds u))
      \<le> (\<Sum>rc\<leftarrow>zip rows creds. unat (rr_raw (fst rc)))"
    by (simp add: user_rows_of_def)
  also have "\<dots> \<le> (\<Sum>r\<leftarrow>rows. unat (rr_raw r))"
  proof (induction rows arbitrary: creds)
    case (Cons r rows)
    then show ?case by (cases creds) auto
  qed simp
  finally show ?thesis .
qed

lemma raw_total_one_user: "raw_total (user_rows_of rows creds u) \<le> (\<Sum>r\<leftarrow>rows. unat (rr_raw r))"
  using raw_total_user_rows [of "[u]"] by simp

section \<open>The multiplier as a function of natural numbers\<close>

definition d_sum :: "nat \<Rightarrow> nat \<Rightarrow> nat" where
  "d_sum k v = (\<Sum>j<v. 10 ^ 12 div (10 ^ 6 + k * j))"

definition d_nat :: "nat \<Rightarrow> nat \<Rightarrow> nat" where
  "d_nat k v = d_sum k v div v"

lemma d_sum_Suc: "d_sum k (Suc v) = d_sum k v + 10 ^ 12 div (10 ^ 6 + k * v)"
  by (simp add: d_sum_def)

lemma d_sum_le: "d_sum k v \<le> v * 10 ^ 6"
proof (induction v)
  case (Suc v)
  have "(10 ^ 12 :: nat) div (10 ^ 6 + k * v) \<le> 10 ^ 12 div 10 ^ 6"
    by (rule div_le_mono2) simp_all
  with Suc show ?case by (simp add: d_sum_Suc)
qed (simp add: d_sum_def)

lemma d_sum_last: "v * (10 ^ 12 div (10 ^ 6 + k * v)) \<le> d_sum k v"
proof -
  have "(\<Sum>j<v. 10 ^ 12 div (10 ^ 6 + k * v)) \<le> d_sum k v"
    unfolding d_sum_def by (rule sum_mono) (simp add: div_le_mono2)
  then show ?thesis by simp
qed

lemma d_nat_Suc_le: "0 < v \<Longrightarrow> d_nat k (Suc v) \<le> d_nat k v"
proof -
  assume v: "0 < v"
  have "d_sum k (Suc v) * v \<le> d_sum k v * Suc v"
    using d_sum_last [of v k] by (simp add: d_sum_Suc algebra_simps)
  then have "d_sum k (Suc v) * v div (Suc v * v) \<le> d_sum k v * Suc v div (Suc v * v)"
    by (rule div_le_mono)
  moreover have "d_sum k v * Suc v div (Suc v * v) = d_sum k v div v"
    by (metis div_mult_mult1 mult.commute nat.distinct(1))
  moreover have "d_sum k (Suc v) * v div (Suc v * v) = d_sum k (Suc v) div Suc v"
    using v by (subst div_mult_mult2) simp_all
  ultimately show ?thesis by (simp only: d_nat_def)
qed

lemma d_nat_antimono:
  assumes "0 < v" and "v \<le> v'"
  shows "d_nat k v' \<le> d_nat k v"
  using assms(2)
proof (induction rule: dec_induct)
  case (step n)
  then have "d_nat k (Suc n) \<le> d_nat k n" using assms(1) by (intro d_nat_Suc_le) simp
  with step.IH show ?case by simp
qed simp

lemma d_nat_le: "d_nat k v \<le> 10 ^ 6"
proof (cases "v = 0")
  case False
  have "d_sum k v div v \<le> v * 10 ^ 6 div v" by (rule div_le_mono) (rule d_sum_le)
  with False show ?thesis by (simp add: d_nat_def)
qed (simp add: d_nat_def)

lemma d_term_unat:
  assumes "j < 100000"
  shows "unat (d_term k (of_nat (Suc j))) = 10 ^ 12 div (10 ^ 6 + unat k * j)"
proof -
  have j: "unat (of_nat (Suc j) - 1 :: u64) = j"
    using assms by (simp add: unat_of_nat take_bit_nat_eq_self)
  have "unat k * j \<le> 2 ^ 64 * 100000"
    using u64_lt [of k] assms by (intro mult_le_mono) simp_all
  then have small: "unat k * j + 10 ^ 6 < 2 ^ 128" by simp
  then have prod: "unat (ucast k * ucast (of_nat (Suc j) - 1 :: u64) :: u128) = unat k * j"
    by (subst unat_mult_exact) (simp_all add: unat_u64_u128 j del: of_nat_Suc)
  have den: "unat (1000000 + ucast k * ucast (of_nat (Suc j) - 1 :: u64) :: u128) = 10 ^ 6 + unat k * j"
    using small by (subst unat_add_exact) (simp_all add: prod ppm_word del: of_nat_Suc)
  show ?thesis
    by (simp add: d_term_def Let_def unat_div_distrib den del: of_nat_Suc)
qed

lemma d_loop_unat:
  assumes "v \<le> 100000"
  shows "unat (foldl (\<lambda>s j. s + d_term k j) 0 (map of_nat [1..<Suc v])) = d_sum (unat k) v"
  using assms
proof (induction v)
  case (Suc v)
  let ?s = "foldl (\<lambda>s j. s + d_term k j) 0 (map of_nat [1..<Suc v])"
  have "d_sum (unat k) (Suc v) \<le> Suc v * 10 ^ 6" by (rule d_sum_le)
  also have "\<dots> < 2 ^ 128" using Suc.prems by simp
  finally have "unat ?s + unat (d_term k (of_nat (Suc v))) < 2 ^ 128"
    using Suc by (simp add: d_term_unat d_sum_Suc del: of_nat_Suc)
  then have "unat (?s + d_term k (of_nat (Suc v))) = unat ?s + unat (d_term k (of_nat (Suc v)))"
    by (intro unat_add_exact) simp
  with Suc show ?case by (simp add: d_term_unat d_sum_Suc del: of_nat_Suc)
qed (simp add: d_sum_def)

lemma d_ppm_unat:
  "unat (d_ppm plays k) = d_nat (unat k) (min (max (unat plays) 1) 100000)"
proof -
  let ?v = "min (max plays 1) PLAYS_CAP"
  have v: "unat ?v = min (max (unat plays) 1) 100000"
    by (simp add: PLAYS_CAP_def unat_min unat_max)
  have q: "unat (foldl (\<lambda>s j. s + d_term k j) 0 (map of_nat [1..<Suc (unat ?v)]) div ucast ?v)
      = d_nat (unat k) (unat ?v)"
    by (subst unat_div_distrib, subst d_loop_unat) (simp_all add: v unat_u64_u128 d_nat_def)
  have "d_nat (unat k) (unat ?v) < 2 ^ 64"
    using d_nat_le [of "unat k" "unat ?v"] by simp
  with q show ?thesis
    unfolding d_ppm_def Let_def by (subst unat_ucast_exact) (simp_all add: v)
qed

section \<open>The largest-remainder method as a specification\<close>

text \<open>
  The share of item \<open>i\<close> without any sorting: its floored ideal share, and one unit more when
  fewer items come before it (larger remainder, or equal remainder and smaller index) than
  units are left over.
\<close>

definition before :: "nat \<Rightarrow> nat list \<Rightarrow> nat \<Rightarrow> nat \<Rightarrow> bool" where
  "before amount ws j i \<longleftrightarrow>
     amount * ws ! i mod sum_list ws < amount * ws ! j mod sum_list ws \<or>
     (amount * ws ! i mod sum_list ws = amount * ws ! j mod sum_list ws \<and> j < i)"

definition hamilton :: "nat \<Rightarrow> nat list \<Rightarrow> nat \<Rightarrow> nat" where
  "hamilton amount ws i =
     amount * ws ! i div sum_list ws
       + (if length (List.filter (\<lambda>j. before amount ws j i) [0..<length ws])
             < amount - (\<Sum>w\<leftarrow>ws. amount * w div sum_list ws) then 1 else 0)"

lemma hamilton_zero: "(\<forall>w \<in> set ws. amount * w = 0) \<Longrightarrow> i < length ws \<Longrightarrow> amount = 0 \<Longrightarrow> hamilton amount ws i = 0"
  by (simp add: hamilton_def)

lemma topped_up_iff:
  assumes "i < n"
  shows "i \<in> topped_up r n k \<longleftrightarrow>
     length (List.filter (\<lambda>j. r ! i < r ! j \<or> (r ! i = r ! j \<and> j < i)) [0..<n]) < k"
proof -
  let ?o = "sort_by (rank_le r) [0..<n]"
  have srt: "sorted_wrt (rank_le r) ?o"
    by (rule sorted_sort_by) (fact rank_le_total rank_le_trans)+
  obtain p where p: "p < length ?o" "?o ! p = i"
    using assms by (metis in_set_conv_nth set_sort_by atLeastLessThan_iff set_upt zero_le)
  have strict: "r ! i < r ! j \<or> (r ! i = r ! j \<and> j < i) \<longleftrightarrow> rank_le r j i \<and> j \<noteq> i" for j
    by (auto simp: rank_le_def)
  have "set (take p ?o) = {j \<in> {..<n}. rank_le r j i \<and> j \<noteq> i}"
  proof (intro equalityI subsetI)
    fix j assume "j \<in> set (take p ?o)"
    then obtain q where q: "q < p" "?o ! q = j" using p by (auto simp: in_set_conv_nth)
    have "rank_le r j i" using sorted_wrt_nth_less [OF srt q(1) p(1)] p(2) q(2) by simp
    moreover have "j \<noteq> i" using p q by (metis distinct_sort_by distinct_upt less_irrefl nth_eq_iff_index_eq order_less_trans)
    moreover have "j < n" using q p by (metis atLeastLessThan_iff nth_mem order_less_trans set_sort_by set_upt)
    ultimately show "j \<in> {j \<in> {..<n}. rank_le r j i \<and> j \<noteq> i}" by simp
  next
    fix j assume j: "j \<in> {j \<in> {..<n}. rank_le r j i \<and> j \<noteq> i}"
    then have "j \<in> set ?o" by simp
    then obtain q where q: "q < length ?o" "?o ! q = j" unfolding in_set_conv_nth by blast
    have "\<not> p < q"
    proof
      assume "p < q"
      then have "rank_le r i j" using sorted_wrt_nth_less [OF srt _ q(1)] p(2) q(2) by blast
      with j show False by (auto simp: rank_le_def)
    qed
    moreover have "q \<noteq> p" using j p q by auto
    ultimately show "j \<in> set (take p ?o)" using q p by (auto simp: in_set_conv_nth intro!: exI [of _ q])
  qed
  then have "card (set (take p ?o)) = length (List.filter (\<lambda>j. rank_le r j i \<and> j \<noteq> i) [0..<n])"
    by (simp add: distinct_length_filter Int_def conj_commute)
  then have pos: "length (List.filter (\<lambda>j. r ! i < r ! j \<or> (r ! i = r ! j \<and> j < i)) [0..<n]) = p"
    using p(1) by (simp add: strict distinct_card)
  have d: "distinct ?o" by simp
  have "i \<in> set (take k ?o) \<longleftrightarrow> p < k"
  proof
    assume "i \<in> set (take k ?o)"
    then obtain q where q: "q < k" "q < length ?o" "?o ! q = i" unfolding in_set_conv_nth by auto
    then have "q = p" using p nth_eq_iff_index_eq [OF d q(2) p(1)] by simp
    with q(1) show "p < k" by simp
  next
    assume "p < k"
    with p show "i \<in> set (take k ?o)" unfolding in_set_conv_nth by (intro exI [of _ p]) simp
  qed
  then show ?thesis unfolding pos topped_up_def .
qed

lemma apportion_is_hamilton:
  assumes "apportion amount weights weight_sum = Inr shares"
    and "weight_sum \<noteq> 0" and "sum_unat weights = unat weight_sum" and "length weights < 2 ^ 64"
  shows "map unat shares = map (hamilton (unat amount) (map unat weights)) [0..<length weights]"
proof (rule nth_equalityI)
  let ?n = "length weights" and ?k = "leftover_units amount weights weight_sum"
  from apportion_shape [OF assms] obtain r where
      r: "map unat r = map (share_rem amount weight_sum) weights"
    and len: "length shares = ?n"
    and nth: "\<And>i. i < ?n \<Longrightarrow> unat (shares ! i) = floor_share amount weight_sum (weights ! i)
           + (if i \<in> topped_up r ?n ?k then 1 else 0)"
    by blast
  show "length (map unat shares) = length (map (hamilton (unat amount) (map unat weights)) [0..<?n])"
    by (simp add: len)
  fix i assume "i < length (map unat shares)"
  then have i: "i < ?n" by (simp add: len)
  have lr: "length r = ?n" using r map_eq_imp_length_eq by blast
  have rj: "unat (r ! j) = unat amount * unat (weights ! j) mod unat weight_sum" if "j < ?n" for j
    using r that lr by (metis nth_map share_rem_def)
  have sum: "sum_list (map unat weights) = unat weight_sum"
    using assms(3) by (simp add: sum_unat_def)
  have bef: "(r ! i < r ! j \<or> (r ! i = r ! j \<and> j < i)) \<longleftrightarrow> before (unat amount) (map unat weights) j i"
    if "j < ?n" for j
    using that i by (simp add: before_def word_less_nat_alt word_unat_eq_iff rj sum)
  have "List.filter (\<lambda>j. r ! i < r ! j \<or> (r ! i = r ! j \<and> j < i)) [0..<?n]
      = List.filter (\<lambda>j. before (unat amount) (map unat weights) j i) [0..<?n]"
    by (rule filter_cong) (simp_all add: bef)
  moreover have "?k = unat amount - (\<Sum>w\<leftarrow>map unat weights. unat amount * w div sum_list (map unat weights))"
    unfolding leftover_units_def sum floor_share_def [abs_def] by (simp add: comp_def)
  ultimately show "map unat shares ! i = map (hamilton (unat amount) (map unat weights)) [0..<?n] ! i"
    using i len nth [OF i] topped_up_iff [OF i, of r ?k]
    by (simp add: hamilton_def floor_share_def sum)
qed

section \<open>The allocation implements the specification\<close>

text \<open>What work \<open>w\<close> receives of one user's fee.\<close>

definition user_credit :: "nat \<Rightarrow> (raw_row \<times> u64) list \<Rightarrow> string \<Rightarrow> nat" where
  "user_credit fee rs w =
     (\<Sum>i\<leftarrow>[0..<length rs]. if rr_work (fst (rs ! i)) = w
        then hamilton (fee_target fee rs) (map cred_nat rs) i else 0)"

lemma user_credit_no_target:
  assumes "fee_target fee rs = 0"
  shows "user_credit fee rs w = 0"
proof -
  have "hamilton 0 (map cred_nat rs) i = 0" for i by (simp add: hamilton_def)
  then show ?thesis by (auto simp: user_credit_def assms)
qed

lemma credit_fold_at:
  assumes "res_fold credit_row m (zip rows shares) = Inr m'" and "length rows = length shares"
  shows "unat (bt_get_or 0 m' w) = unat (bt_get_or 0 m w)
       + (\<Sum>(rc, sh)\<leftarrow>zip rows shares. if rr_work (fst rc) = w then unat sh else 0)"
  using assms
proof (induction rows arbitrary: shares m)
  case (Cons rc rows)
  then obtain sh shs where sh: "shares = sh # shs" by (cases shares) auto
  let ?k = "rr_work (fst rc)"
  let ?m1 = "bt_insert ?k (bt_get_or 0 m ?k + sh) m"
  from Cons.prems(1) sh have fits: "unat (bt_get_or 0 m ?k) + unat sh < 2 ^ LENGTH(128)"
    and rest: "res_fold credit_row ?m1 (zip rows shs) = Inr m'"
    by (auto simp: res_bind_eq_Inr credit_row_Inr)
  have "unat (bt_get_or 0 ?m1 w) = unat (bt_get_or 0 m w) + (if ?k = w then unat sh else 0)"
    using unat_add_exact [OF fits] by (auto simp: bt_get_or_def bt_get_insert)
  with Cons.IH [OF rest] Cons.prems(2) sh show ?case by simp
qed simp

lemma zip_as_map: "length xs = length ys \<Longrightarrow> zip xs ys = map (\<lambda>i. (xs ! i, ys ! i)) [0..<length xs]"
  by (rule nth_equalityI) simp_all

lemma alloc_user_credit:
  assumes "alloc_user G s (user, fee) = Inr s'" and "bt_get_or [] G user = rs" and "length rs < 2 ^ 64"
  shows "unat (bt_get_or 0 (al_per_work s') w)
       = unat (bt_get_or 0 (al_per_work s) w) + user_credit (unat fee) rs w"
proof -
  let ?s0 = "\<lparr>us_creds = [], us_rw = 0, us_sum_cred = 0,
             us_rep_usage = al_rep_usage s, us_rep_users = al_rep_users s\<rparr>"
  from assms(1,2) obtain us where us: "res_fold (cred_row user) ?s0 rs = Inr us"
    by (auto simp: alloc_user_def Let_def res_bind_eq_Inr)
  from cred_rows_Inr [OF us] have creds: "map unat (us_creds us) = map cred_nat rs"
    and rw: "unat (us_rw us) = raw_total rs" and sc: "unat (us_sum_cred us) = cred_total rs"
    by simp_all
  have zero: "us_rw us = 0 \<longleftrightarrow> raw_total rs = 0" "us_sum_cred us = 0 \<longleftrightarrow> cred_total rs = 0"
    by (simp_all flip: rw sc add: unat_eq_0)
  show ?thesis
  proof (cases "us_rw us = 0 \<or> us_sum_cred us = 0")
    case True
    then have "fee_target (unat fee) rs = 0" by (auto simp: fee_target_def zero)
    moreover from True assms(1,2) us have "al_per_work s' = al_per_work s"
      by (auto simp: alloc_user_def Let_def res_bind_eq_Inr)
    ultimately show ?thesis by (simp add: user_credit_no_target)
  next
    case False
    with assms(1,2) us obtain t shares pw where
        t: "mul_div fee (us_sum_cred us) (us_rw us) = Inr t"
      and shares: "apportion t (us_creds us) (us_sum_cred us) = Inr shares"
      and pw: "res_fold credit_row (al_per_work s) (zip rs shares) = Inr pw"
      and s': "al_per_work s' = pw"
      by (auto simp: alloc_user_def Let_def res_bind_eq_Inr ok_or_eq_Inr)
    have len: "length (us_creds us) = length rs" using creds map_eq_imp_length_eq by blast
    have sum: "sum_unat (us_creds us) = unat (us_sum_cred us)"
      by (simp add: sum_unat_def sc creds cred_total_def)
    from t False have tgt: "unat t = fee_target (unat fee) rs"
      by (auto simp: mul_div_Inr fee_target_def zero rw sc)
    have ham: "map unat shares = map (hamilton (unat t) (map cred_nat rs)) [0..<length rs]"
      using apportion_is_hamilton [OF shares _ sum] False len assms(3) creds by simp
    then have lsh: "length rs = length shares"
      by (metis length_map length_upt minus_nat.diff_0)
    have "unat (shares ! i) = hamilton (unat t) (map cred_nat rs) i" if "i < length rs" for i
      using arg_cong [OF ham, of "\<lambda>l. l ! i"] that lsh by simp
    then have "(\<Sum>(rc, sh)\<leftarrow>zip rs shares. if rr_work (fst rc) = w then unat sh else 0)
        = user_credit (unat fee) rs w"
      unfolding zip_as_map [OF lsh] user_credit_def tgt
      by (simp add: comp_def) (rule arg_cong [of _ _ sum_list], rule map_cong, simp_all)
    with credit_fold_at [OF pw lsh, of w] s' show ?thesis by simp
  qed
qed

lemma alloc_users_credit:
  assumes "res_fold (alloc_user G) s fees = Inr s'" and "\<And>user. length (bt_get_or [] G user) < 2 ^ 64"
  shows "unat (bt_get_or 0 (al_per_work s') w) = unat (bt_get_or 0 (al_per_work s) w)
       + (\<Sum>(u, fee)\<leftarrow>fees. user_credit (unat fee) (bt_get_or [] G u) w)"
  using assms(1)
proof (induction fees arbitrary: s)
  case (Cons uf fees)
  obtain u fee where uf: "uf = (u, fee)" by (cases uf)
  from Cons.prems(1) obtain s1 where step: "alloc_user G s (u, fee) = Inr s1"
    and rest: "res_fold (alloc_user G) s1 fees = Inr s'"
    by (auto simp: uf res_bind_eq_Inr)
  from alloc_user_credit [OF step refl assms(2)] Cons.IH [OF rest] show ?case by (simp add: uf)
qed simp

lemma allocation_credit:
  assumes "allocate_from_raw_with_row_credibility fees rows creds = Inr p" and "length rows < 2 ^ 64"
  shows "unat (bt_get_or 0 (per_work p) w)
       = (\<Sum>(u, fee)\<leftarrow>fees. user_credit (unat fee) (user_rows_of rows creds u) w)"
proof -
  let ?G = "group_rows rows creds"
  from assms(1) obtain s where fold: "res_fold (alloc_user ?G)
       \<lparr>al_per_work = [], al_unallocated = 0, al_rep_usage = [], al_rep_users = []\<rparr> fees = Inr s"
    and p: "per_work p = al_per_work s"
    by (auto simp: allocate_from_raw_with_row_credibility_def Let_def res_bind_eq_Inr split: if_splits)
  have short: "length (bt_get_or [] ?G u) < 2 ^ 64" for u
    using length_user_rows_of [of rows creds u] assms(2) by (simp add: group_rows_get)
  from alloc_users_credit [OF fold short, of w] p show ?thesis
    by (simp add: group_rows_get) (simp add: bt_get_or_def)
qed

lemma topped_up_nonzero:
  assumes "i \<in> topped_up r n k" and "map unat r = map f ws" and "n = length ws"
    and "k \<le> length (List.filter (\<lambda>w. f w \<noteq> 0) ws)"
  shows "0 < f (ws ! i)"
proof (rule ccontr)
  assume "\<not> 0 < f (ws ! i)"
  have i: "i < n" using assms(1) topped_up_subset by blast
  have lr: "length r = n" using assms(2,3) map_eq_imp_length_eq by blast
  have rj: "unat (r ! j) = f (ws ! j)" if "j < n" for j
    using assms(2,3) that lr by (metis nth_map)
  with i \<open>\<not> 0 < f (ws ! i)\<close> have ri: "r ! i = 0" by (simp add: word_unat_eq_iff)
  let ?nz = "{j \<in> {..<n}. f (ws ! j) \<noteq> 0}"
  have "rank_le r j i" "\<not> rank_le r i j" if "j \<in> ?nz" for j
    using that ri rj [of j] by (auto simp: rank_le_def word_less_nat_alt unat_eq_0)
  then have "?nz \<subseteq> topped_up r n k"
    using topped_up_first [OF assms(1)] by blast
  with ri i assms(1) rj have "insert i ?nz \<subseteq> topped_up r n k" by auto
  moreover have "finite (topped_up r n k)" by (simp add: topped_up_def)
  ultimately have "card (insert i ?nz) \<le> k"
    using card_mono card_topped_up [of r n k] by (metis min.cobounded1 order_trans)
  moreover have "card (insert i ?nz) = Suc (card ?nz)"
    using \<open>\<not> 0 < f (ws ! i)\<close> by (intro card_insert_disjoint) auto
  moreover have "card ?nz = length (List.filter (\<lambda>w. f w \<noteq> 0) ws)"
    using assms(3) by (simp add: length_filter_conv_card lessThan_def) 
  ultimately show False using assms(4) by simp
qed
section \<open>Properties\<close>

definition ex_fees :: "(string, u128) btree_map" where
  "ex_fees = [(''alice'', 1000), (''bob'', 700), (''carol'', 50)]"

definition ex_rows :: "raw_row list" where
  "ex_rows = [\<lparr>rr_user = ''alice'', rr_work = ''wA'', rr_raw = 7\<rparr>,
              \<lparr>rr_user = ''bob'', rr_work = ''wA'', rr_raw = 5\<rparr>,
              \<lparr>rr_user = ''alice'', rr_work = ''wB'', rr_raw = 11\<rparr>,
              \<lparr>rr_user = ''bob'', rr_work = ''wC'', rr_raw = 9\<rparr>]"

definition ex_creds :: "u64 list" where
  "ex_creds = [1000000, 400000, 500000, 2000000]"

lemma ex_allocation:
  "is_ok (allocate_from_raw_with_row_credibility ex_fees ex_rows ex_creds)"
  by code_simp

lemma ex_allocation_neutral:
  "is_ok (allocate_from_raw_with_row_credibility ex_fees ex_rows (replicate 4 1000000))"
  by code_simp

lemma ex_rows_short: "length ex_rows < 2 ^ 64"
  by (simp add: ex_rows_def)

lemma ex_fees_wf: "bt_wf ex_fees"
  by code_simp

lemmas ex_spec_simps = ex_fees_def ex_rows_def ex_creds_def user_rows_of_def user_credit_def
  fee_target_def raw_total_def cred_total_def cred_nat_def hamilton_def before_def upt_rec unat_min

lemma sum_list_split:
  "(\<And>x. f x \<le> (g x :: nat)) \<Longrightarrow> (\<Sum>x\<leftarrow>xs. f x) + (\<Sum>x\<leftarrow>xs. g x - f x) = (\<Sum>x\<leftarrow>xs. g x)"
proof (induction xs)
  case (Cons x xs)
  from Cons.prems [of x] Cons.IH [OF Cons.prems] show ?case by simp
qed simp

lemma sum_list_word: "sum_list (map snd m) = (of_nat (map_total m) :: 'l::len word)"
  by (induction m) (auto simp: map_total_def)

lemma allocation_conserves:
  assumes "allocate_from_raw_with_row_credibility fees rows creds = Inr p" and "length rows < 2 ^ 64"
  shows "map_total (per_work p) + unat (unallocated p) = map_total fees"
proof -
  let ?t = "\<lambda>uf. fee_target (unat (snd uf)) (user_rows_of rows creds (fst uf))"
  have "?t uf \<le> unat (snd uf)" for uf :: "string \<times> u128"
    by (intro fee_target_le cred_total_le) (use user_rows_of_clamped in fastforce)
  from sum_list_split [of ?t "\<lambda>uf. unat (snd uf)", OF this, of fees]
  have "(\<Sum>uf\<leftarrow>fees. ?t uf) + (\<Sum>uf\<leftarrow>fees. unat (snd uf) - ?t uf) = map_total fees"
    by (simp add: map_total_def)
  with allocation_Inr [OF assms] show ?thesis by (simp add: case_prod_unfold)
qed

text \<open>C1: no value is minted or lost. Whenever the allocation succeeds, the credits of all works
  and the unallocated amount add up to exactly the fees paid, as natural numbers.\<close>

theorem allocation_conserves_fees:
  assumes "allocate_from_raw_with_row_credibility fees rows creds = Inr p" and "length rows < 2 ^ 64"
  shows "map_total (per_work p) + unat (unallocated p) = map_total fees"
  by (rule allocation_conserves [OF assms])

theorem allocation_conserves_fees_witness:
  "\<exists>p. allocate_from_raw_with_row_credibility ex_fees ex_rows ex_creds = Inr p
     \<and> map_total (per_work p) + unat (unallocated p) = 1750"
proof -
  obtain p where p: "allocate_from_raw_with_row_credibility ex_fees ex_rows ex_creds = Inr p"
    using ex_allocation by (auto simp: is_ok_iff)
  from allocation_conserves_fees [OF p ex_rows_short] p show ?thesis
    by (simp add: ex_fees_def map_total_def)
qed

text \<open>C8: the allocation implements the payout formula. A work's credit is the sum, over the paying
  users, of the largest-remainder shares (by credible weight) of the user's target
  \<open>fee * sum cred / sum raw\<close> on the rows of that work, and the unallocated amount is the sum of
  what the targets leave of the fees.\<close>

theorem allocation_refines_spec:
  assumes "allocate_from_raw_with_row_credibility fees rows creds = Inr p" and "length rows < 2 ^ 64"
  shows "unat (bt_get_or 0 (per_work p) w)
           = (\<Sum>(u, fee)\<leftarrow>fees. user_credit (unat fee) (user_rows_of rows creds u) w)
       \<and> unat (unallocated p)
           = (\<Sum>(u, fee)\<leftarrow>fees. unat fee - fee_target (unat fee) (user_rows_of rows creds u))"
  using allocation_credit [OF assms] allocation_Inr [OF assms] by blast

theorem allocation_refines_spec_witness:
  "\<exists>p. allocate_from_raw_with_row_credibility ex_fees ex_rows ex_creds = Inr p
     \<and> unat (bt_get_or 0 (per_work p) ''wA'') = 389 + 100 \<and> unat (unallocated p) = 334 + 150 + 50"
proof -
  obtain p where p: "allocate_from_raw_with_row_credibility ex_fees ex_rows ex_creds = Inr p"
    using ex_allocation by (auto simp: is_ok_iff)
  have "(\<Sum>(u, fee)\<leftarrow>ex_fees. user_credit (unat fee) (user_rows_of ex_rows ex_creds u) ''wA'') = 489"
    "(\<Sum>(u, fee)\<leftarrow>ex_fees. unat fee - fee_target (unat fee) (user_rows_of ex_rows ex_creds u)) = 534"
    by (simp_all add: ex_spec_simps)
  with allocation_refines_spec [OF p ex_rows_short, of "''wA''"] p show ?thesis by simp
qed

text \<open>C22: \<open>apportion\<close> is the largest-remainder method. Its shares are as many as the weights, are
  exactly those of the method stated without sorting, differ from the ideal share
  \<open>amount * w / weight_sum\<close> by less than one unit, and add up to the amount.\<close>

theorem apportion_largest_remainder:
  assumes "apportion amount weights weight_sum = Inr shares"
    and "weight_sum \<noteq> 0" and "sum_unat weights = unat weight_sum" and "length weights < 2 ^ 64"
  shows "map unat shares = map (hamilton (unat amount) (map unat weights)) [0..<length weights]
       \<and> sum_unat shares = unat amount
       \<and> (\<forall>i < length weights.
            unat amount * unat (weights ! i) < (unat (shares ! i) + 1) * unat weight_sum
          \<and> unat (shares ! i) * unat weight_sum < unat amount * unat (weights ! i) + unat weight_sum)"
proof (intro conjI allI impI)
  show "map unat shares = map (hamilton (unat amount) (map unat weights)) [0..<length weights]"
    by (rule apportion_is_hamilton [OF assms])
  show "sum_unat shares = unat amount" using apportion_exact_sum [OF assms] by simp
next
  fix i assume i: "i < length weights"
  let ?w = "weights ! i" and ?k = "leftover_units amount weights weight_sum"
  have rem: "share_rem amount weight_sum ?w < unat weight_sum"
    using assms(2) by (simp add: share_rem_def unat_gt_0)
  note fr = floor_rem [of amount weight_sum ?w]
  from apportion_shape [OF assms] obtain r
    where r: "map unat r = map (share_rem amount weight_sum) weights"
      and nth: "\<And>i. i < length weights \<Longrightarrow> unat (shares ! i) = floor_share amount weight_sum (weights ! i)
           + (if i \<in> topped_up r (length weights) ?k then 1 else 0)"
    by blast
  show "unat amount * unat ?w < (unat (shares ! i) + 1) * unat weight_sum"
    using nth [OF i] rem fr by (auto simp: add_mult_distrib)
  show "unat (shares ! i) * unat weight_sum < unat amount * unat ?w + unat weight_sum"
  proof (cases "i \<in> topped_up r (length weights) ?k")
    case True
    have "0 < share_rem amount weight_sum ?w"
      using topped_up_nonzero [OF True r] leftover_le_nonzero [OF assms(2,3), of amount] i by simp
    with True nth [OF i] fr show ?thesis by (simp add: add_mult_distrib)
  next
    case False
    have "0 < unat weight_sum" using assms(2) by (simp add: unat_gt_0)
    with False nth [OF i] fr show ?thesis by (simp add: add_mult_distrib)
  qed
qed

theorem apportion_largest_remainder_witness:
  "\<exists>s. apportion 100 [1, 1, 1] 3 = Inr s \<and> sum_unat s = 100
     \<and> map unat s = map (hamilton 100 [1, 1, 1]) [0..<3]"
proof -
  have "is_ok (apportion 100 [1, 1, 1] 3)" by code_simp
  then obtain s where s: "apportion 100 [1, 1, 1] 3 = Inr s" by (auto simp: is_ok_iff)
  from apportion_largest_remainder [OF s] s show ?thesis by (simp add: upt_rec)
qed

text \<open>Apportionment fails exactly when the product of the amount and some weight exceeds 128
  bits, and then with \<open>Overflow\<close>, although every share would fit.\<close>

theorem apportion_error_iff:
  "apportion amount weights weight_sum = Inl e \<longleftrightarrow>
     e = Overflow \<and> (\<exists>w \<in> set weights. 2 ^ 128 \<le> unat amount * unat w)"
proof -
  have "res_fold (apportion_step amount weight_sum) s weights = Inl e \<longleftrightarrow>
      e = Overflow \<and> (\<exists>w \<in> set weights. 2 ^ 128 \<le> unat amount * unat w)" for s
  proof (induction weights arbitrary: s)
    case (Cons w ws)
    obtain b r a where s: "s = (b, r, a)" by (cases s)
    show ?case
    proof (cases "unat amount * unat w < 2 ^ 128")
      case True
      then have "apportion_step amount weight_sum s w
          = Inr (b @ [amount * w div weight_sum], r @ [amount * w mod weight_sum], a + amount * w div weight_sum)"
        by (simp add: s apportion_step_Inr)
      with Cons True show ?thesis by auto
    next
      case False
      then have "apportion_step amount weight_sum s w = Inl Overflow"
        by (simp add: s apportion_step_def checked_mul_unat)
      with False show ?thesis by auto
    qed
  qed simp
  moreover have "apportion amount weights weight_sum = Inl e \<longleftrightarrow>
      res_fold (apportion_step amount weight_sum) ([], [], 0) weights = Inl e"
    by (cases "res_fold (apportion_step amount weight_sum) ([], [], 0) weights")
      (auto simp: apportion_def Let_def)
  ultimately show ?thesis by simp
qed

lemma user_rows_of_cong:
  assumes "length creds = length rows" and "length creds' = length rows"
    and "\<And>i. \<lbrakk>i < length rows; rr_user (rows ! i) = u\<rbrakk> \<Longrightarrow> creds ! i = creds' ! i"
  shows "user_rows_of rows creds u = user_rows_of rows creds' u"
  unfolding user_rows_of_def using assms
proof (induction rows arbitrary: creds creds')
  case (Cons r rows)
  from Cons.prems(1,2) obtain c cs c' cs' where cs: "creds = c # cs" "creds' = c' # cs'"
    by (metis length_Suc_conv)
  from Cons.prems(3) [of 0] cs have "rr_user r = u \<Longrightarrow> c = c'" by simp
  moreover have "cs ! i = cs' ! i" if "i < length rows" "rr_user (rows ! i) = u" for i
    using Cons.prems(3) [of "Suc i"] that cs by simp
  ultimately show ?case using Cons.IH [of cs cs'] Cons.prems(1,2) cs by simp
qed simp

lemma sum_one_key:
  fixes h h' :: "'k::linorder \<Rightarrow> 'v \<Rightarrow> nat"
  assumes "bt_wf m" and "bt_get m u = Some x" and "\<And>k v. k \<noteq> u \<Longrightarrow> h k v = h' k v"
  shows "(\<Sum>(k, v)\<leftarrow>m. h k v) + h' u x = (\<Sum>(k, v)\<leftarrow>m. h' k v) + h u x"
  using assms(1,2)
proof (induction m)
  case (Cons e m)
  obtain k v where e: "e = (k, v)" by (cases e)
  show ?case
  proof (cases "k = u")
    case True
    with Cons.prems e have x: "v = x" and notin: "u \<notin> fst ` set m"
      by (auto simp: bt_wf_Cons)
    then have "(\<Sum>(k, v)\<leftarrow>m. h k v) = (\<Sum>(k, v)\<leftarrow>m. h' k v)"
      using assms(3) by (intro arg_cong [of _ _ sum_list] map_cong) force+
    with True x e show ?thesis by simp
  next
    case False
    with Cons e assms(3) show ?thesis by (simp add: bt_wf_Cons)
  qed
qed simp

lemma allocation_is_ok:
  assumes "bt_wf fees" and "length creds = length rows" and "length rows < 2 ^ 64"
    and "map_total fees < 2 ^ 128"
    and "\<And>u fee. (u, fee) \<in> set fees \<Longrightarrow> unat fee * (\<Sum>r\<leftarrow>rows. unat (rr_raw r)) < 2 ^ 128"
    and "(\<Sum>r\<leftarrow>rows. unat (rr_raw r)) < 2 ^ 128"
  shows "is_ok (allocate_from_raw_with_row_credibility fees rows creds)"
proof -
  let ?G = "group_rows rows creds" and ?W = "\<Sum>r\<leftarrow>rows. unat (rr_raw r)"
  have short: "length (bt_get_or [] ?G u) < 2 ^ 64" for u
    using length_user_rows_of [of rows creds u] assms(3) by (simp add: group_rows_get)
  have clamped: "\<And>u rc. rc \<in> set (bt_get_or [] ?G u) \<Longrightarrow> unat (snd rc) \<le> 1000000"
    using user_rows_of_clamped by (fastforce simp: group_rows_get)
  have "distinct (map fst fees)" by (rule bt.distinct_keys [OF assms(1)])
  from raw_total_user_rows [OF this, of rows creds] assms(6)
  have raws: "0 + (\<Sum>(u, fee)\<leftarrow>fees. raw_total (bt_get_or [] ?G u)) < 2 ^ 128"
    by (simp add: group_rows_get comp_def case_prod_unfold)
  have each: "unat fee * raw_total (bt_get_or [] ?G u) < 2 ^ 128" if "(u, fee) \<in> set fees" for u fee
  proof -
    have "unat fee * raw_total (bt_get_or [] ?G u) \<le> unat fee * ?W"
      using raw_total_one_user by (simp add: group_rows_get)
    with assms(5) [OF that] show ?thesis by linarith
  qed
  have "alloc_inv 0 0 \<lparr>al_per_work = [], al_unallocated = 0, al_rep_usage = [], al_rep_users = []\<rparr>"
    by (simp add: alloc_inv_def)
  from alloc_users_is_ok [OF this short clamped _ raws each] assms(4)
  have "is_ok (res_fold (alloc_user ?G)
     \<lparr>al_per_work = [], al_unallocated = 0, al_rep_usage = [], al_rep_users = []\<rparr> fees)" by simp
  then show ?thesis
    using assms(2) by (auto simp: allocate_from_raw_with_row_credibility_def Let_def intro!: is_ok_bindI)
qed

text \<open>C32: the allocation succeeds whenever the fees add up to less than \<open>2^128\<close>, the raw weights add
  up to less than \<open>2^128\<close>, and each fee times the total weight does too: no checked operation
  fails, for any credibility values and any number of users and rows.\<close>

theorem allocation_succeeds:
  assumes "bt_wf fees" and "length creds = length rows" and "length rows < 2 ^ 64"
    and "map_total fees < 2 ^ 128"
    and "\<And>u fee. (u, fee) \<in> set fees \<Longrightarrow> unat fee * (\<Sum>r\<leftarrow>rows. unat (rr_raw r)) < 2 ^ 128"
    and "(\<Sum>r\<leftarrow>rows. unat (rr_raw r)) < 2 ^ 128"
  shows "is_ok (allocate_from_raw_with_row_credibility fees rows creds)"
  by (rule allocation_is_ok [OF assms])

theorem allocation_succeeds_witness:
  "is_ok (allocate_from_raw_with_row_credibility ex_fees ex_rows [3, 1, 4, 1])"
  by (rule allocation_succeeds [OF ex_fees_wf _ ex_rows_short])
    (auto simp: ex_fees_def ex_rows_def map_total_def)

text \<open>C24: strict loss. Two allocations of the same fees and rows in which only user \<open>u\<close>'s
  credibility differs pay every work the same out of the other users' fees: what \<open>u\<close> loses is
  added to the unallocated amount and never moves to a work through somebody else.\<close>

theorem no_cross_user_effect:
  assumes "allocate_from_raw_with_row_credibility fees rows creds = Inr p"
    and "allocate_from_raw_with_row_credibility fees rows creds' = Inr p'"
    and "length rows < 2 ^ 64" and "bt_wf fees" and "bt_get fees u = Some fee"
    and "\<And>i. \<lbrakk>i < length rows; rr_user (rows ! i) \<noteq> u\<rbrakk> \<Longrightarrow> creds ! i = creds' ! i"
  shows "unat (bt_get_or 0 (per_work p) w) + user_credit (unat fee) (user_rows_of rows creds' u) w
           = unat (bt_get_or 0 (per_work p') w) + user_credit (unat fee) (user_rows_of rows creds u) w
       \<and> unat (unallocated p) + (unat fee - fee_target (unat fee) (user_rows_of rows creds' u))
           = unat (unallocated p') + (unat fee - fee_target (unat fee) (user_rows_of rows creds u))"
proof -
  have len: "length creds = length rows" "length creds' = length rows"
    using allocation_Inr [OF assms(1,3)] allocation_Inr [OF assms(2,3)] by simp_all
  have same: "user_rows_of rows creds v = user_rows_of rows creds' v" if "v \<noteq> u" for v
    by (rule user_rows_of_cong [OF len]) (use assms(6) that in blast)
  have only: "(\<Sum>(v, f)\<leftarrow>fees. g f (user_rows_of rows creds v)) + g fee (user_rows_of rows creds' u)
      = (\<Sum>(v, f)\<leftarrow>fees. g f (user_rows_of rows creds' v)) + g fee (user_rows_of rows creds u)"
    for g :: "u128 \<Rightarrow> (raw_row \<times> u64) list \<Rightarrow> nat"
    by (rule sum_one_key [OF assms(4,5)]) (simp add: same)
  from allocation_credit [OF assms(1,3), of w] allocation_credit [OF assms(2,3), of w]
    allocation_Inr [OF assms(1,3)] allocation_Inr [OF assms(2,3)]
    only [of "\<lambda>f rs. user_credit (unat f) rs w"] only [of "\<lambda>f rs. unat f - fee_target (unat f) rs"]
  show ?thesis by simp
qed

theorem no_cross_user_effect_witness:
  "\<exists>p p'. allocate_from_raw_with_row_credibility ex_fees ex_rows ex_creds = Inr p
     \<and> allocate_from_raw_with_row_credibility ex_fees ex_rows [0, 400000, 0, 2000000] = Inr p'
     \<and> unat (unallocated p) + 1000 = unat (unallocated p') + 334"
proof -
  obtain p where p: "allocate_from_raw_with_row_credibility ex_fees ex_rows ex_creds = Inr p"
    using ex_allocation by (auto simp: is_ok_iff)
  have "is_ok (allocate_from_raw_with_row_credibility ex_fees ex_rows [0, 400000, 0, 2000000])"
    by code_simp
  then obtain p' where p': "allocate_from_raw_with_row_credibility ex_fees ex_rows [0, 400000, 0, 2000000] = Inr p'"
    by (auto simp: is_ok_iff)
  have fee: "bt_get ex_fees ''alice'' = Some 1000" by (simp add: ex_fees_def)
  have others: "ex_creds ! i = [0, 400000, 0, 2000000] ! i"
    if "i < length ex_rows" "rr_user (ex_rows ! i) \<noteq> ''alice''" for i
    using that by (auto simp: ex_rows_def ex_creds_def less_Suc_eq)
  from no_cross_user_effect [OF p p' ex_rows_short ex_fees_wf fee others, of "''wA''"] p p' show ?thesis
    by (simp add: ex_spec_simps)
qed

lemma user_rows_of_mono:
  assumes "list_all2 (\<le>) creds creds'"
  shows "list_all2 (\<lambda>a b. fst a = fst b \<and> snd a \<le> snd b) (user_rows_of rows creds u) (user_rows_of rows creds' u)"
  unfolding user_rows_of_def using assms
proof (induction rows arbitrary: creds creds')
  case (Cons r rows)
  show ?case
  proof (cases creds)
    case (Cons c cs)
    with Cons.prems obtain c' cs' where c': "creds' = c' # cs'" "c \<le> c'" "list_all2 (\<le>) cs cs'"
      by (auto simp: list_all2_Cons1)
    with Cons Cons.IH [OF c'(3)] show ?thesis by (auto simp: min.coboundedI1 min.coboundedI2)
  qed (use Cons.prems in simp)
qed simp


text \<open>Credibility only discounts. Lowering credibility values, with fees and rows unchanged,
  never pays more to works in total and never leaves less unallocated.\<close>

theorem discount_monotone:
  assumes "allocate_from_raw_with_row_credibility fees rows creds = Inr p"
    and "allocate_from_raw_with_row_credibility fees rows creds' = Inr p'"
    and "length rows < 2 ^ 64" and "list_all2 (\<le>) creds creds'"
  shows "map_total (per_work p) \<le> map_total (per_work p') \<and> unallocated p' \<le> unallocated p"
proof -
  have le: "fee_target f (user_rows_of rows creds u) \<le> fee_target f (user_rows_of rows creds' u)" for f u
    by (intro fee_target_mono user_rows_of_mono assms(4))
  have "(\<Sum>(u, fee)\<leftarrow>fees. fee_target (unat fee) (user_rows_of rows creds u))
      \<le> (\<Sum>(u, fee)\<leftarrow>fees. fee_target (unat fee) (user_rows_of rows creds' u))"
    by (rule sum_list_mono) (auto simp: le)
  moreover have "(\<Sum>(u, fee)\<leftarrow>fees. unat fee - fee_target (unat fee) (user_rows_of rows creds' u))
      \<le> (\<Sum>(u, fee)\<leftarrow>fees. unat fee - fee_target (unat fee) (user_rows_of rows creds u))"
    by (rule sum_list_mono) (auto intro!: diff_le_mono2 simp: le)
  ultimately show ?thesis
    using allocation_Inr [OF assms(1,3)] allocation_Inr [OF assms(2,3)] by (simp add: word_le_nat_alt)
qed

theorem discount_monotone_witness:
  "\<exists>p p'. allocate_from_raw_with_row_credibility ex_fees ex_rows ex_creds = Inr p
     \<and> allocate_from_raw_with_row_credibility ex_fees ex_rows [1000000, 1000000, 1000000, 2000000] = Inr p'
     \<and> unallocated p' \<le> unallocated p"
proof -
  obtain p where p: "allocate_from_raw_with_row_credibility ex_fees ex_rows ex_creds = Inr p"
    using ex_allocation by (auto simp: is_ok_iff)
  have "is_ok (allocate_from_raw_with_row_credibility ex_fees ex_rows [1000000, 1000000, 1000000, 2000000])"
    by code_simp
  then obtain p' where p': "allocate_from_raw_with_row_credibility ex_fees ex_rows [1000000, 1000000, 1000000, 2000000] = Inr p'"
    by (auto simp: is_ok_iff)
  from discount_monotone [OF p p' ex_rows_short] p p' show ?thesis by (simp add: ex_creds_def)
qed

text \<open>Neutral credibility pays everything. When every row's credibility is at least
  \<open>1_000_000\<close>, only the fees of users without any raw weight stay unallocated.\<close>

theorem neutral_pays_everything:
  assumes "allocate_from_raw_with_row_credibility fees rows creds = Inr p"
    and "length rows < 2 ^ 64" and "list_all (\<lambda>c. 1000000 \<le> c) creds"
  shows "unat (unallocated p)
       = (\<Sum>(u, fee)\<leftarrow>fees. if raw_total (user_rows_of rows creds u) = 0 then unat fee else 0)"
proof -
  have "unat fee - fee_target (unat fee) (user_rows_of rows creds u)
      = (if raw_total (user_rows_of rows creds u) = 0 then unat fee else 0)" for u and fee :: u128
  proof -
    have "snd rc = 1000000" if "rc \<in> set (user_rows_of rows creds u)" for rc
      using that assms(3) by (auto simp: user_rows_of_def list_all_iff min_def dest!: set_zip_rightD)
    then have "cred_total (user_rows_of rows creds u) = raw_total (user_rows_of rows creds u)"
      unfolding cred_total_def raw_total_def
      by (intro arg_cong [of _ _ sum_list] map_cong) (simp_all add: cred_nat_def ppm_word)
    then show ?thesis by (simp add: fee_target_def)
  qed
  then show ?thesis using allocation_Inr [OF assms(1,2)] by simp
qed

theorem neutral_pays_everything_witness:
  "\<exists>p. allocate_from_raw_with_row_credibility ex_fees ex_rows (replicate 4 1000000) = Inr p
     \<and> unat (unallocated p) = 50"
proof -
  obtain p where p: "allocate_from_raw_with_row_credibility ex_fees ex_rows (replicate 4 1000000) = Inr p"
    using ex_allocation_neutral by (auto simp: is_ok_iff)
  have "replicate 4 (1000000 :: u64) = [1000000, 1000000, 1000000, 1000000]"
    by (simp add: numeral_eq_Suc)
  with neutral_pays_everything [OF p ex_rows_short] p show ?thesis
    by (simp add: ex_spec_simps)
qed

text \<open>The diminishing-returns multiplier never wraps and never panics: it is the averaged sum of
  \<open>10^12 div (10^6 + k * (j - 1))\<close> over the clamped play count, at most \<open>1_000_000\<close>, equal to it
  for zero or one play, and does not increase with the number of plays.\<close>

theorem d_ppm_diminishes:
  "unat (d_ppm plays k) = d_nat (unat k) (min (max (unat plays) 1) 100000)
   \<and> d_ppm plays k \<le> 1000000 \<and> d_ppm 0 k = 1000000 \<and> d_ppm 1 k = 1000000
   \<and> d_ppm (max plays plays') k \<le> d_ppm plays k"
proof (intro conjI)
  show "unat (d_ppm plays k) = d_nat (unat k) (min (max (unat plays) 1) 100000)" by (rule d_ppm_unat)
  show "d_ppm plays k \<le> 1000000"
    using d_nat_le [of "unat k"] by (simp add: word_le_nat_alt d_ppm_unat)
  show "d_ppm 0 k = 1000000" "d_ppm 1 k = 1000000"
    by (simp_all add: word_unat_eq_iff d_ppm_unat d_nat_def d_sum_def)
  show "d_ppm (max plays plays') k \<le> d_ppm plays k"
    unfolding word_le_nat_alt d_ppm_unat by (rule d_nat_antimono) (auto simp: unat_max)
qed

text \<open>The whole computation from usage rows. When \<open>allocate\<close> succeeds, the totals it reports
  satisfy \<open>total_to_works() + unallocated == total_fees()\<close>.\<close>

theorem allocate_total:
  assumes "allocate d params = Inr p" and "length (ds_usage d) < 2 ^ 64"
  shows "total_to_works p + unallocated p = total_fees d"
proof -
  from assms(1) obtain raw where raw: "res_map (raw_of_usage (diminishing_k_ppm params)) (ds_usage d) = Inr raw"
    and al: "allocate_from_raw_with_row_credibility (ds_tier_fees d) raw
       (map (\<lambda>r. bw_ppm (ds_bandwidth_ppm d) (rr_work r)) raw) = Inr p"
    by (auto simp: allocate_def allocate_from_raw_def Let_def res_bind_eq_Inr)
  have "length raw < 2 ^ 64" using res_map_length [OF raw] assms(2) by simp
  from allocation_conserves [OF al this]
  have "(of_nat (map_total (per_work p) + unat (unallocated p)) :: u128) = of_nat (map_total (ds_tier_fees d))"
    by simp
  then show ?thesis by (simp add: total_to_works_def total_fees_def sum_list_word)
qed

definition ex_dataset :: dataset where
  "ex_dataset = \<lparr>ds_tier_fees = [(''u'', 100)],
     ds_usage = [\<lparr>ur_user = ''u'', ur_work = ''w'', ur_minutes = 3, ur_price_ppm = 2,
                  ur_region_ppm = 5, ur_plays = 2\<rparr>],
     ds_bandwidth_ppm = [(''w'', 500000)]\<rparr>"

theorem allocate_total_witness:
  "\<exists>p. allocate ex_dataset default_params = Inr p \<and> total_to_works p + unallocated p = 100"
proof -
  have "is_ok (allocate ex_dataset default_params)" by code_simp
  then obtain p where p: "allocate ex_dataset default_params = Inr p" by (auto simp: is_ok_iff)
  from allocate_total [OF p] p show ?thesis by (simp add: ex_dataset_def total_fees_def)
qed

end
