(* ===== verification/Hex.thy ===== *)
theory Hex
  imports BTree
begin

text \<open>
  Base-16 text: \<open>hex_string\<close> of \<open>services/storage/src/lib.rs\<close> and of the bandwidth client, and
  the decoder \<open>decode_hex\<close> of \<open>libs/receipt/src/lib.rs\<close>, with Rust's \<open>u8::from_str_radix\<close> as the
  standard library defines it (a leading \<open>+\<close> is accepted). A character is one byte of the UTF-8
  form of the text, the level at which the decoder works. The locale \<open>hex_codec\<close> is the
  interface the clients of a hex coder use, interpreted on these two functions.
\<close>

definition hex_digit :: "u8 \<Rightarrow> char" where
  "hex_digit n = (if n < 10 then char_of (unat n + 48) else char_of (unat n + 87))"

definition hex_value :: "char \<Rightarrow> u8 option" where
  "hex_value c =
     (let n = (of_char c :: nat) in
      if 48 \<le> n \<and> n \<le> 57 then Some (of_nat (n - 48))
      else if 97 \<le> n \<and> n \<le> 102 then Some (of_nat (n - 87))
      else if 65 \<le> n \<and> n \<le> 70 then Some (of_nat (n - 55))
      else None)"

definition is_ascii_hexdigit :: "char \<Rightarrow> bool" where
  "is_ascii_hexdigit c \<longleftrightarrow> hex_value c \<noteq> None"

text \<open>\<open>format!("{b:02x}")\<close> for every byte.\<close>

definition hex_string :: "u8 list \<Rightarrow> string" where
  "hex_string bs = concat (map (\<lambda>b. [hex_digit (b div 16), hex_digit (b mod 16)]) bs)"

text \<open>\<open>u8::from_str_radix(s, 16)\<close>.\<close>

fun radix16 :: "u8 \<Rightarrow> string \<Rightarrow> u8 option" where
  "radix16 acc [] = Some acc"
| "radix16 acc (c # s) =
     Option.bind (hex_value c) (\<lambda>d.
     Option.bind (checked_mul acc 16) (\<lambda>m.
     Option.bind (checked_add m d) (\<lambda>a. radix16 a s)))"

definition u8_from_str_radix16 :: "string \<Rightarrow> u8 option" where
  "u8_from_str_radix16 s =
     (case s of
        [] \<Rightarrow> None
      | [c] \<Rightarrow> (if c = CHR ''+'' \<or> c = CHR ''-'' then None else radix16 0 s)
      | c # r \<Rightarrow> (if c = CHR ''+'' then radix16 0 r else radix16 0 s))"

fun decode_pairs :: "string \<Rightarrow> u8 list option" where
  "decode_pairs (c # d # s) =
     Option.bind (u8_from_str_radix16 [c, d]) (\<lambda>b. map_option ((#) b) (decode_pairs s))"
| "decode_pairs s = Some []"

definition decode_hex :: "string \<Rightarrow> u8 list option" where
  "decode_hex s = (if length s mod 2 \<noteq> 0 then None else decode_pairs s)"

section \<open>The interface of a hex coder\<close>

locale hex_codec =
  fixes hex_encode :: "u8 list \<Rightarrow> string" and hex_decode :: "string \<Rightarrow> u8 list option"
  assumes decode_encode: "hex_decode (hex_encode bs) = Some bs"
    and encode_no_prefix: "strip_prefix ''0x'' (hex_encode bs) = None"
begin

lemma encode_inj: "hex_encode a = hex_encode b \<longleftrightarrow> a = b"
  by (metis decode_encode option.inject)

lemma decode_prefixed:
  "hex_decode (case strip_prefix ''0x'' (''0x'' @ hex_encode bs) of None \<Rightarrow> ''0x'' @ hex_encode bs | Some r \<Rightarrow> r)
     = Some bs"
  by (simp add: decode_encode del: append_Cons append_Nil)

lemma decode_bare:
  "hex_decode (case strip_prefix ''0x'' (hex_encode bs) of None \<Rightarrow> hex_encode bs | Some r \<Rightarrow> r) = Some bs"
  by (simp add: encode_no_prefix decode_encode)

end

section \<open>The coder of the sources provides it\<close>

lemma u8_small: "unat (b :: u8) < 256"
  using unsigned_less [of b] by simp

lemma hex_digit_facts:
  assumes "n < 16"
  shows "hex_value (hex_digit n) = Some n"
    and "hex_digit n \<noteq> CHR ''x''" and "hex_digit n \<noteq> CHR ''+'' \<and> hex_digit n \<noteq> CHR ''-''"
    and "to_ascii_lower_char (hex_digit n) = hex_digit n"
proof -
  have "unat n < 16" using assms by (simp add: word_less_nat_alt)
  moreover have "n < 10 \<longleftrightarrow> unat n < 10" by (simp add: word_less_nat_alt)
  ultimately show val: "hex_value (hex_digit n) = Some n"
    and "to_ascii_lower_char (hex_digit n) = hex_digit n"
    by (auto simp: hex_digit_def hex_value_def to_ascii_lower_char_def)
  show "hex_digit n \<noteq> CHR ''x''" "hex_digit n \<noteq> CHR ''+'' \<and> hex_digit n \<noteq> CHR ''-''"
    using val by (auto simp: hex_value_def)
qed

lemma u8_nibbles:
  "b div 16 < (16 :: u8)" "b mod 16 < (16 :: u8)" "unat (b div 16) * 16 + unat (b mod 16) = unat (b :: u8)"
  using u8_small [of b] by (simp_all add: word_less_nat_alt unat_div_distrib unat_mod_distrib)

lemma decode_byte:
  "u8_from_str_radix16 [hex_digit (b div 16), hex_digit (b mod 16)] = Some b"
proof -
  have hi: "unat (b div 16) < 16" using u8_nibbles(1) [of b] by (simp add: word_less_nat_alt)
  then have mul: "checked_mul (b div 16) 16 = Some (b div 16 * 16)"
    by (simp add: result_simps unat_mult_exact)
  have "unat (b div 16 * 16) = unat (b div 16) * 16"
    using hi by (subst unat_mult_exact) simp_all
  then have add: "checked_add (b div 16 * 16) (b mod 16) = Some b"
    using u8_nibbles(3) [of b] by (simp add: result_simps)
  have zero: "checked_mul (0 :: u8) 16 = Some 0" "checked_add 0 (b div 16) = Some (b div 16)"
    by (simp_all add: result_simps)
  show ?thesis
    using hex_digit_facts [OF u8_nibbles(1), of b] hex_digit_facts [OF u8_nibbles(2), of b] mul add zero
    by (simp add: u8_from_str_radix16_def)
qed

lemma hex_string_simps [simp]:
  "hex_string [] = []"
  "hex_string (b # bs) = hex_digit (b div 16) # hex_digit (b mod 16) # hex_string bs"
  by (simp_all add: hex_string_def)

lemma length_hex_string [simp]: "length (hex_string bs) = 2 * length bs"
  by (induction bs) simp_all

lemma decode_hex_string: "decode_hex (hex_string bs) = Some bs"
proof -
  have "decode_pairs (hex_string bs) = Some bs"
    by (induction bs) (simp_all add: decode_byte)
  then show ?thesis by (simp add: decode_hex_def)
qed

interpretation hex: hex_codec hex_string decode_hex
proof
  show "decode_hex (hex_string bs) = Some bs" for bs by (rule decode_hex_string)
  show "strip_prefix ''0x'' (hex_string bs) = None" for bs
    using hex_digit_facts(2) u8_nibbles by (cases bs) (auto simp: strip_prefix_def)
qed

lemma hex_string_lowercase: "to_ascii_lowercase (hex_string bs) = hex_string bs"
  by (induction bs) (simp_all add: to_ascii_lowercase_def hex_digit_facts u8_nibbles)

lemma hex_string_digits: "c \<in> set (hex_string bs) \<Longrightarrow> is_ascii_hexdigit c"
  by (induction bs) (auto simp: is_ascii_hexdigit_def hex_digit_facts u8_nibbles)

lemma decode_pairs_length: "decode_pairs s = Some bs \<Longrightarrow> length bs = length s div 2"
  by (induction s arbitrary: bs rule: decode_pairs.induct) (auto simp: bind_eq_Some_conv)

lemma decode_hex_length: "decode_hex s = Some bs \<Longrightarrow> length s = 2 * length bs"
  by (auto simp: decode_hex_def decode_pairs_length split: if_splits)

section \<open>Properties\<close>

text \<open>Text form of bytes. Decoding inverts encoding with or without the \<open>0x\<close> prefix, encoding
  is injective, already lowercase and doubles the length.\<close>

theorem hex_round_trip:
  "decode_hex (hex_string bs) = Some bs
   \<and> decode_hex (case strip_prefix ''0x'' (''0x'' @ hex_string bs) of None \<Rightarrow> ''0x'' @ hex_string bs | Some r \<Rightarrow> r) = Some bs
   \<and> (hex_string bs = hex_string bs' \<longleftrightarrow> bs = bs')
   \<and> to_ascii_lowercase (hex_string bs) = hex_string bs \<and> length (hex_string bs) = 2 * length bs"
  using hex.decode_encode hex.decode_prefixed hex.encode_inj
  by (simp add: hex_string_lowercase del: append_Cons append_Nil)

text \<open>The decoder accepts texts that are not hexadecimal: a \<open>+\<close> in the place of a high digit is
  read as zero, so \<open>+f\<close> and \<open>0f\<close> decode to the same byte.\<close>

theorem decode_hex_accepts_plus:
  "decode_hex ''+f'' = Some [15] \<and> decode_hex ''+f'' = decode_hex ''0f'' \<and> \<not> is_ascii_hexdigit (CHR ''+'')"
  by code_simp

end
