(* ===== verification/Bytes32.thy ===== *)
theory Bytes32
  imports Hex
begin

text \<open>
  \<open>Bytes32\<close> of \<open>libs/wallet-zk/src/lib.rs\<close>: the 32-byte identifiers of works, salts and
  commitments, ordered by their raw bytes, with their \<open>0x<64 hex>\<close> text form. The crate uses the
  byte-level coder of the crate \<open>hex\<close>, a parameter here under the interface \<open>hex_codec\<close>;
  the functions of the theory \<open>Hex\<close> instantiate it. The hash \<open>keccak256\<close> (crate
  \<open>tiny_keccak\<close>) is a parameter of every definition that hashes.
\<close>

datatype bytes32 = Bytes32 (as_bytes: "u8 list")

definition b32_ok :: "bytes32 \<Rightarrow> bool" where
  "b32_ok b \<longleftrightarrow> length (as_bytes b) = 32"

lemma as_bytes_eq_iff: "as_bytes a = as_bytes b \<longleftrightarrow> a = b"
  by (cases a; cases b) simp

instantiation bytes32 :: linorder
begin

definition less_eq_bytes32 :: "bytes32 \<Rightarrow> bytes32 \<Rightarrow> bool" where
  "less_eq_bytes32 a b \<longleftrightarrow> as_bytes a \<le> as_bytes b"

definition less_bytes32 :: "bytes32 \<Rightarrow> bytes32 \<Rightarrow> bool" where
  "less_bytes32 a b \<longleftrightarrow> as_bytes a < as_bytes b"

instance
  by standard (auto simp: less_eq_bytes32_def less_bytes32_def simp flip: as_bytes_eq_iff)

end

datatype bytes32_error = BadLength nat | NotHex

text \<open>\<open>Display\<close>, which \<open>Serialize\<close> also uses, and \<open>FromStr\<close>, which \<open>Deserialize\<close> also uses.\<close>

definition bytes32_to_string :: "(u8 list \<Rightarrow> string) \<Rightarrow> bytes32 \<Rightarrow> string" where
  "bytes32_to_string hex_encode b = ''0x'' @ hex_encode (as_bytes b)"

definition bytes32_from_str :: "(string \<Rightarrow> u8 list option) \<Rightarrow> string \<Rightarrow> bytes32_error + bytes32" where
  "bytes32_from_str hex_decode s =
     (let hex_part = (case strip_prefix ''0x'' s of None \<Rightarrow> s | Some r \<Rightarrow> r)
      in res_bind (ok_or NotHex (hex_decode hex_part)) (\<lambda>bytes.
         if length bytes \<noteq> 32 then Inl (BadLength (length bytes)) else Inr (Bytes32 bytes)))"

lemma bytes32_from_str_ok: "bytes32_from_str hex_decode s = Inr b \<Longrightarrow> b32_ok b"
  by (auto simp: bytes32_from_str_def Let_def result_simps b32_ok_def split: if_splits)

context hex_codec
begin

lemma from_str_to_string:
  "b32_ok b \<Longrightarrow> bytes32_from_str hex_decode (bytes32_to_string hex_encode b) = Inr b"
  unfolding bytes32_from_str_def bytes32_to_string_def Let_def decode_prefixed
  by (cases b) (simp add: b32_ok_def)

lemma from_str_bare:
  "b32_ok b \<Longrightarrow> bytes32_from_str hex_decode (hex_encode (as_bytes b)) = Inr b"
  unfolding bytes32_from_str_def Let_def decode_bare
  by (cases b) (simp add: b32_ok_def)

lemma to_string_inj:
  "bytes32_to_string hex_encode a = bytes32_to_string hex_encode b \<longleftrightarrow> a = b"
  by (simp add: bytes32_to_string_def encode_inj as_bytes_eq_iff)

lemma from_str_bad_length:
  "length bs \<noteq> 32 \<Longrightarrow> bytes32_from_str hex_decode (hex_encode bs) = Inl (BadLength (length bs))"
  unfolding bytes32_from_str_def Let_def decode_bare by simp

end

section \<open>Properties\<close>

text \<open>A 32-byte value survives its text form. For any hex coder that decodes what it encodes and
  never writes a leading \<open>0x\<close>, parsing the displayed form or the bare hex form gives the value
  back, distinct values have distinct texts, and an encoding of another length is refused with
  that length.\<close>

theorem bytes32_round_trip:
  assumes "hex_codec hex_encode hex_decode" and "b32_ok b" and "length bs \<noteq> 32"
  shows "bytes32_from_str hex_decode (bytes32_to_string hex_encode b) = Inr b
       \<and> bytes32_from_str hex_decode (hex_encode (as_bytes b)) = Inr b
       \<and> (bytes32_to_string hex_encode b = bytes32_to_string hex_encode b' \<longleftrightarrow> b = b')
       \<and> bytes32_from_str hex_decode (hex_encode bs) = Inl (BadLength (length bs))"
  using hex_codec.from_str_to_string [OF assms(1,2)] hex_codec.from_str_bare [OF assms(1,2)]
    hex_codec.to_string_inj [OF assms(1)] hex_codec.from_str_bad_length [OF assms(1,3)]
  by blast

theorem bytes32_round_trip_witness:
  "bytes32_from_str decode_hex (bytes32_to_string hex_string (Bytes32 (replicate 32 171)))
     = Inr (Bytes32 (replicate 32 171))
   \<and> bytes32_from_str decode_hex (hex_string [1, 2]) = Inl (BadLength 2)"
  using bytes32_round_trip [OF hex.hex_codec_axioms, of "Bytes32 (replicate 32 171)" "[1, 2]"]
  by (simp add: b32_ok_def)

end
