(* ===== verification/Merkle.thy ===== *)
theory Merkle
  imports Prelude
begin

unbundle bit_operations_syntax

text \<open>
  The Merkle tree of \<open>services/settlement/src/merkle.rs\<close>: leaf and pair hashes, the levels of
  the tree, its root, inclusion proofs and their verification. A 32-byte hash is a list of bytes
  and \<open>keccak256\<close> is a parameter. What the tree needs of the pairing function is that it does
  not depend on the order of its arguments, the interface \<open>unordered_pairing\<close>; \<open>hash_pair\<close>
  provides it for every hash. Proofs of every leaf verify, for every hash; that only payments in the
  tree verify needs a hash without collisions on the byte strings that are hashed.
\<close>

type_synonym hash = "u8 list"

text \<open>\<open>amount.to_be_bytes()\<close>.\<close>

definition u128_to_be_bytes :: "u128 \<Rightarrow> u8 list" where
  "u128_to_be_bytes a = map (\<lambda>i. ucast (drop_bit (8 * (15 - i)) a)) [0..<16]"

definition leaf_hash :: "(u8 list \<Rightarrow> hash) \<Rightarrow> hash \<Rightarrow> u128 \<Rightarrow> hash" where
  "leaf_hash keccak256 work_id amount =
     keccak256 (work_id @ replicate 16 0 @ u128_to_be_bytes amount)"

definition hash_pair :: "(u8 list \<Rightarrow> hash) \<Rightarrow> hash \<Rightarrow> hash \<Rightarrow> hash" where
  "hash_pair keccak256 a b =
     (let (lo, hi) = (if a \<le> b then (a, b) else (b, a)) in keccak256 (lo @ hi))"

record merkle_tree =
  levels :: "hash list list"

text \<open>One pass of the inner loop of \<open>build\<close>: pairs are hashed, a lone last node is carried up.\<close>

fun next_level :: "('h \<Rightarrow> 'h \<Rightarrow> 'h) \<Rightarrow> 'h list \<Rightarrow> 'h list" where
  "next_level pair (a # b # rest) = pair a b # next_level pair rest"
| "next_level pair [a] = [a]"
| "next_level pair [] = []"

lemma length_next_level: "length (next_level pair xs) = (length xs + 1) div 2"
  by (induction pair xs rule: next_level.induct) auto

text \<open>The outer loop: levels are added until the last has a single node.\<close>

function levels_from :: "('h \<Rightarrow> 'h \<Rightarrow> 'h) \<Rightarrow> 'h list \<Rightarrow> 'h list list" where
  "levels_from pair current =
     (if length current > 1 then current # levels_from pair (next_level pair current) else [current])"
  by auto
termination
  by (relation "measure (\<lambda>(_, xs). length xs)") (auto simp: length_next_level)

declare levels_from.simps [simp del]

text \<open>\<open>None\<close> is the panic of the assertion on an empty leaf list.\<close>

definition merkle_build :: "(u8 list \<Rightarrow> hash) \<Rightarrow> hash list \<Rightarrow> merkle_tree option" where
  "merkle_build keccak256 leaves =
     (if leaves = [] then None else Some \<lparr>levels = levels_from (hash_pair keccak256) leaves\<rparr>)"

definition merkle_root :: "merkle_tree \<Rightarrow> hash" where
  "merkle_root t = last (levels t) ! 0"

text \<open>The walk over every level but the root, collecting the sibling at each step.\<close>

fun proof_walk :: "'h list list \<Rightarrow> nat \<Rightarrow> 'h list" where
  "proof_walk [] idx = []"
| "proof_walk (level # rest) idx =
     (let sibling = idx XOR 1
      in (if sibling < length level then [level ! sibling] else []) @ proof_walk rest (idx div 2))"

definition merkle_proof :: "merkle_tree \<Rightarrow> nat \<Rightarrow> hash list" where
  "merkle_proof t index = proof_walk (butlast (levels t)) index"

definition merkle_verify :: "(u8 list \<Rightarrow> hash) \<Rightarrow> hash list \<Rightarrow> hash \<Rightarrow> hash \<Rightarrow> bool" where
  "merkle_verify keccak256 path rt leaf \<longleftrightarrow> foldl (hash_pair keccak256) leaf path = rt"

section \<open>The interface of the pairing function\<close>

lemma sibling_eq: "i XOR 1 = (if even i then Suc i else i - 1)" for i :: nat
  using xor_Suc_0_eq [of i] by simp

lemma next_level_nth:
  assumes "2 * k < length xs"
  shows "next_level pair xs ! k
       = (if Suc (2 * k) < length xs then pair (xs ! (2 * k)) (xs ! Suc (2 * k)) else xs ! (2 * k))"
  using assms
proof (induction pair xs arbitrary: k rule: next_level.induct)
  case (1 pair a b rest)
  then show ?case by (cases k) auto
qed auto

locale unordered_pairing =
  fixes pair :: "'h \<Rightarrow> 'h \<Rightarrow> 'h"
  assumes pair_sym: "pair a b = pair b a"
begin

text \<open>A node together with its sibling, if it has one, gives its parent.\<close>

lemma parent_nth:
  assumes "i < length xs"
  shows "next_level pair xs ! (i div 2)
       = foldl pair (xs ! i) (if i XOR 1 < length xs then [xs ! (i XOR 1)] else [])"
proof (cases "even i")
  case True
  then show ?thesis using assms next_level_nth [of "i div 2" xs pair] unfolding sibling_eq by simp
next
  case False
  then obtain k where "i = Suc (2 * k)" by (metis oddE Suc_eq_plus1)
  then show ?thesis using assms next_level_nth [of k xs pair] unfolding sibling_eq by (simp add: pair_sym)
qed

lemma walk_reaches_root:
  assumes "i < length xs"
  shows "foldl pair (xs ! i) (proof_walk (butlast (levels_from pair xs)) i) = last (levels_from pair xs) ! 0"
  using assms
proof (induction "length xs" arbitrary: xs i rule: less_induct)
  case less
  show ?case
  proof (cases "length xs > 1")
    case True
    let ?next = "next_level pair xs"
    have lv: "levels_from pair xs = xs # levels_from pair ?next"
      using True by (simp add: levels_from.simps [of pair xs])
    have ne: "levels_from pair ?next \<noteq> []" by (simp add: levels_from.simps [of pair ?next])
    have "length ?next < length xs" using True by (simp add: length_next_level)
    moreover have "i div 2 < length ?next" using less.prems by (simp add: length_next_level)
    ultimately have IH: "foldl pair (?next ! (i div 2)) (proof_walk (butlast (levels_from pair ?next)) (i div 2))
        = last (levels_from pair ?next) ! 0"
      using less.hyps by blast
    show ?thesis
      using IH ne unfolding lv parent_nth [OF less.prems] by (simp add: Let_def del: One_nat_def)
  next
    case False
    with less.prems have "i = 0" by simp
    with False show ?thesis by (simp add: levels_from.simps [of pair xs])
  qed
qed

end

interpretation keccak_pairs: unordered_pairing "hash_pair keccak256" for keccak256
  by unfold_locales (auto simp: hash_pair_def)

lemma merkle_build_nth:
  "merkle_build keccak256 leaves = Some t \<Longrightarrow>
     leaves \<noteq> [] \<and> levels t = levels_from (hash_pair keccak256) leaves"
  by (auto simp: merkle_build_def split: if_splits)

lemma merkle_walk_verifies:
  assumes "merkle_build keccak256 leaves = Some t" and "i < length leaves"
  shows "merkle_verify keccak256 (merkle_proof t i) (merkle_root t) (leaves ! i)"
  using keccak_pairs.walk_reaches_root [OF assms(2), of keccak256] merkle_build_nth [OF assms(1)]
  by (simp add: merkle_verify_def merkle_proof_def merkle_root_def)

text \<open>Completeness of inclusion proofs. For every non-empty list of leaves, of any length and
  for any hash, the proof generated for an index verifies against the root of the built tree.\<close>

theorem merkle_proofs_verify:
  assumes "merkle_build keccak256 leaves = Some t" and "i < length leaves"
  shows "merkle_verify keccak256 (merkle_proof t i) (merkle_root t) (leaves ! i)"
  by (rule merkle_walk_verifies [OF assms])

theorem merkle_proofs_verify_witness:
  "\<exists>t. merkle_build (take 32) [[1], [2], [3], [4], [5]] = Some t
     \<and> merkle_verify (take 32) (merkle_proof t 4) (merkle_root t) [5]"
proof -
  obtain t where "merkle_build (take 32) [[1], [2], [3], [4], [5 :: u8]] = Some t"
    by (simp add: merkle_build_def)
  with merkle_proofs_verify [OF this, of 4] show ?thesis by simp
qed

section \<open>What a verifying proof shows\<close>

text \<open>
  The pairs hashed while a proof is folded, and the pairs hashed while the tree is built.
\<close>

fun fold_steps :: "('h \<Rightarrow> 'h \<Rightarrow> 'h) \<Rightarrow> 'h \<Rightarrow> 'h list \<Rightarrow> ('h \<times> 'h) list" where
  "fold_steps pair v [] = []"
| "fold_steps pair v (s # ss) = (v, s) # fold_steps pair (pair v s) ss"

fun level_pairs :: "'h list \<Rightarrow> ('h \<times> 'h) list" where
  "level_pairs (a # b # rest) = (a, b) # level_pairs rest"
| "level_pairs _ = []"

definition tree_pairs :: "'h list list \<Rightarrow> ('h \<times> 'h) set" where
  "tree_pairs lvls = (\<Union>l \<in> set lvls. set (level_pairs l))"

definition tree_nodes :: "'h list list \<Rightarrow> 'h set" where
  "tree_nodes lvls = (\<Union>l \<in> set lvls. set l)"

lemma set_next_level:
  "n \<in> set (next_level pair xs) \<Longrightarrow> n \<in> set xs \<or> (\<exists>(c, d) \<in> set (level_pairs xs). n = pair c d)"
  by (induction pair xs rule: next_level.induct) auto

lemma level_pairs_members: "(c, d) \<in> set (level_pairs xs) \<Longrightarrow> c \<in> set xs \<and> d \<in> set xs"
  by (induction xs rule: level_pairs.induct) auto

lemma tree_node_cases:
  assumes "n \<in> tree_nodes (levels_from pair xs)"
  shows "n \<in> set xs \<or> (\<exists>(c, d) \<in> tree_pairs (levels_from pair xs). n = pair c d)"
  using assms
proof (induction pair xs rule: levels_from.induct)
  case (1 pair xs)
  show ?case
  proof (cases "length xs > 1")
    case True
    then have lv: "levels_from pair xs = xs # levels_from pair (next_level pair xs)"
      by (simp add: levels_from.simps [of pair xs])
    show ?thesis
    proof (cases "n \<in> set xs")
      case False
      with 1(2) have "n \<in> tree_nodes (levels_from pair (next_level pair xs))"
        by (auto simp: lv tree_nodes_def)
      from 1(1) [OF True this] set_next_level [of n pair xs] False show ?thesis
        by (auto simp: lv tree_pairs_def)
    qed simp
  next
    case False
    with 1(2) show ?thesis by (simp add: levels_from.simps [of pair xs] tree_nodes_def)
  qed
qed

lemma tree_pairs_nodes: "(c, d) \<in> tree_pairs lvls \<Longrightarrow> c \<in> tree_nodes lvls \<and> d \<in> tree_nodes lvls"
  using level_pairs_members by (fastforce simp: tree_pairs_def tree_nodes_def)

lemma merkle_root_in_tree:
  assumes "leaves \<noteq> []"
  shows "last (levels_from pair leaves) ! 0 \<in> tree_nodes (levels_from pair leaves)"
proof -
  have nonempty: "l \<noteq> []" if "l \<in> set (levels_from pair leaves)" for l
    using that assms
  proof (induction pair leaves rule: levels_from.induct)
    case (1 pair xs)
    show ?case
    proof (cases "length xs > 1")
      case True
      have "length (next_level pair xs) \<noteq> 0" using True by (simp add: length_next_level)
      then have "next_level pair xs \<noteq> []" by auto
      with 1 True show ?thesis by (auto simp: levels_from.simps [of pair xs])
    qed (use 1 in \<open>simp add: levels_from.simps [of pair xs]\<close>)
  qed
  have "levels_from pair leaves \<noteq> []" by (simp add: levels_from.simps [of pair leaves])
  then have "last (levels_from pair leaves) \<in> set (levels_from pair leaves)" by simp
  moreover from nonempty [OF this] have "last (levels_from pair leaves) ! 0 \<in> set (last (levels_from pair leaves))"
    by simp
  ultimately show ?thesis by (auto simp: tree_nodes_def)
qed

text \<open>The byte strings hashed for a payment and for a pair, and all those hashed while the tree of a list
  of payments is built and while a proof of a payment is folded.\<close>

definition leaf_input :: "hash \<Rightarrow> u128 \<Rightarrow> u8 list" where
  "leaf_input work_id amount = work_id @ replicate 16 0 @ u128_to_be_bytes amount"

definition pair_input :: "hash \<Rightarrow> hash \<Rightarrow> u8 list" where
  "pair_input a b = (if a \<le> b then a @ b else b @ a)"

definition payment_leaves :: "(u8 list \<Rightarrow> hash) \<Rightarrow> (hash \<times> u128) list \<Rightarrow> hash list" where
  "payment_leaves keccak256 payments = map (\<lambda>(w, a). leaf_hash keccak256 w a) payments"

definition tree_inputs :: "(u8 list \<Rightarrow> hash) \<Rightarrow> (hash \<times> u128) list \<Rightarrow> u8 list list" where
  "tree_inputs keccak256 payments =
     map (\<lambda>(w, a). leaf_input w a) payments
     @ concat (map (\<lambda>l. map (\<lambda>(c, d). pair_input c d) (level_pairs l))
         (levels_from (hash_pair keccak256) (payment_leaves keccak256 payments)))"

definition proof_inputs :: "(u8 list \<Rightarrow> hash) \<Rightarrow> hash \<Rightarrow> u128 \<Rightarrow> hash list \<Rightarrow> u8 list list" where
  "proof_inputs keccak256 work_id amount path =
     leaf_input work_id amount
     # map (\<lambda>(v, s). pair_input v s) (fold_steps (hash_pair keccak256) (leaf_hash keccak256 work_id amount) path)"

lemma leaf_hash_input: "leaf_hash keccak256 w a = keccak256 (leaf_input w a)"
  by (simp add: leaf_hash_def leaf_input_def)

lemma hash_pair_input: "hash_pair keccak256 a b = keccak256 (pair_input a b)"
  by (simp add: hash_pair_def pair_input_def)

lemma length_u128_bytes [simp]: "length (u128_to_be_bytes a) = 16"
  by (simp add: u128_to_be_bytes_def)

lemma u128_bytes_inject: "u128_to_be_bytes a = u128_to_be_bytes b \<longleftrightarrow> a = b"
proof
  assume eq: "u128_to_be_bytes a = u128_to_be_bytes b"
  show "a = b"
  proof (rule bit_word_eqI)
    fix n assume "n < LENGTH(128)"
    then have q: "15 - (15 - n div 8) = n div 8" "15 - n div 8 < 16" by simp_all
    have nth: "u128_to_be_bytes c ! (15 - n div 8) = ucast (drop_bit (8 * (n div 8)) c)" for c
      using q by (simp add: u128_to_be_bytes_def)
    have "bit (u128_to_be_bytes c ! (15 - n div 8)) (n mod 8) \<longleftrightarrow> bit c n" for c
      unfolding nth by (simp add: bit_ucast_iff bit_drop_bit_eq)
    with eq show "bit a n = bit b n" by metis
  qed
qed simp

lemma le_zeros:
  fixes xs ys :: "u8 list"
  assumes "xs \<le> replicate n 0 @ ys" and "n \<le> length xs"
  shows "take n xs = replicate n 0"
  using assms
proof (induction n arbitrary: xs)
  case (Suc n)
  then show ?case by (cases xs) auto
qed simp

text \<open>A leaf and a pair hash the same bytes only when both halves of the pair begin with sixteen zero
  bytes: the second half of a leaf does, and the halves of a pair are sorted.\<close>

lemma leaf_pair_input:
  assumes "leaf_input w a = pair_input c d" and "length w = 32" and "length c = 32" and "length d = 32"
  shows "take 16 c = replicate 16 0" "take 16 d = replicate 16 0"
proof -
  have halves: "take 16 lo = replicate 16 0 \<and> take 16 hi = replicate 16 0"
    if "w @ replicate 16 0 @ u128_to_be_bytes a = lo @ hi" "lo \<le> hi" "length lo = 32" for lo hi :: "u8 list"
  proof -
    have hi: "hi = replicate 16 0 @ u128_to_be_bytes a" using that(1,3) assms(2) by (simp add: append_eq_append_conv)
    with le_zeros [of lo 16] that(2,3) show ?thesis by simp
  qed
  have "take 16 c = replicate 16 0 \<and> take 16 d = replicate 16 0"
    using halves [of c d] halves [of d c] assms by (auto simp: leaf_input_def pair_input_def split: if_splits)
  then show "take 16 c = replicate 16 0" "take 16 d = replicate 16 0" by simp_all
qed

lemma pair_input_inject:
  assumes "pair_input a b = pair_input c d" and "length a = 32" and "length b = 32" and "length c = 32" and "length d = 32"
  shows "a = c \<and> b = d \<or> a = d \<and> b = c"
  using assms by (auto simp: pair_input_def append_eq_append_conv split: if_splits)

lemma leaf_input_inject:
  assumes "leaf_input w a = leaf_input w' a'" and "length w = 32" and "length w' = 32"
  shows "w = w' \<and> a = a'"
  using assms by (simp add: leaf_input_def append_eq_append_conv u128_bytes_inject)

text \<open>The hashes of a set of inputs are usable when they are 32 bytes, no two of the inputs collide and
  none hashes to a value whose first half is zero.\<close>

definition hashes_well :: "(u8 list \<Rightarrow> hash) \<Rightarrow> u8 list list \<Rightarrow> bool" where
  "hashes_well keccak256 inputs \<longleftrightarrow>
     list_all (\<lambda>x. length (keccak256 x) = 32 \<and> take 16 (keccak256 x) \<noteq> replicate 16 0
        \<and> list_all (\<lambda>y. keccak256 x = keccak256 y \<longrightarrow> x = y) inputs) inputs"

lemma hashes_wellD:
  assumes "hashes_well keccak256 inputs" and "x \<in> set inputs"
  shows "length (keccak256 x) = 32" "take 16 (keccak256 x) \<noteq> replicate 16 0"
    "y \<in> set inputs \<Longrightarrow> keccak256 x = keccak256 y \<Longrightarrow> x = y"
  using assms by (simp_all add: hashes_well_def list_all_iff)

text \<open>Every node of the tree of some payments is the hash of one of its inputs: that of a payment, or that
  of a pair of nodes.\<close>

lemma payment_tree_cases:
  assumes "n \<in> tree_nodes (levels_from (hash_pair keccak256) (payment_leaves keccak256 payments))"
  obtains (leaf) w a where "(w, a) \<in> set payments" "n = keccak256 (leaf_input w a)"
        "leaf_input w a \<in> set (tree_inputs keccak256 payments)"
    | (pair) c d where "c \<in> tree_nodes (levels_from (hash_pair keccak256) (payment_leaves keccak256 payments))"
        "d \<in> tree_nodes (levels_from (hash_pair keccak256) (payment_leaves keccak256 payments))"
        "n = keccak256 (pair_input c d)" "pair_input c d \<in> set (tree_inputs keccak256 payments)"
proof -
  let ?lv = "levels_from (hash_pair keccak256) (payment_leaves keccak256 payments)"
  from tree_node_cases [OF assms] show thesis
  proof
    assume "n \<in> set (payment_leaves keccak256 payments)"
    then obtain w a where "(w, a) \<in> set payments" "n = leaf_hash keccak256 w a" by (auto simp: payment_leaves_def)
    moreover from this have "leaf_input w a \<in> set (tree_inputs keccak256 payments)" by (force simp: tree_inputs_def)
    ultimately show thesis using leaf by (simp add: leaf_hash_input)
  next
    assume "\<exists>(c, d) \<in> tree_pairs ?lv. n = hash_pair keccak256 c d"
    then obtain c d where cd: "(c, d) \<in> tree_pairs ?lv" "n = hash_pair keccak256 c d" by auto
    from cd(1) have "pair_input c d \<in> set (tree_inputs keccak256 payments)"
      by (force simp: tree_inputs_def tree_pairs_def)
    moreover from cd(2) have "n = keccak256 (pair_input c d)" unfolding hash_pair_input .
    ultimately show thesis using tree_pairs_nodes [OF cd(1)] pair by blast
  qed
qed

lemma payment_node_well:
  assumes "n \<in> tree_nodes (levels_from (hash_pair keccak256) (payment_leaves keccak256 payments))"
    and "hashes_well keccak256 inputs" and "set (tree_inputs keccak256 payments) \<subseteq> set inputs"
  shows "length n = 32 \<and> take 16 n \<noteq> replicate 16 0"
  using assms(1)
proof (cases rule: payment_tree_cases)
  case (leaf w a)
  with assms(3) hashes_wellD [OF assms(2), of "leaf_input w a"] show ?thesis by auto
next
  case (pair c d)
  with assms(3) hashes_wellD [OF assms(2), of "pair_input c d"] show ?thesis by auto
qed

text \<open>One step of a proof backwards: if the parent of a hashed value is a node, so is the value.\<close>

lemma parent_in_tree:
  assumes node: "hash_pair keccak256 (keccak256 x) s
        \<in> tree_nodes (levels_from (hash_pair keccak256) (payment_leaves keccak256 payments))"
    and well: "hashes_well keccak256 inputs" and sub: "set (tree_inputs keccak256 payments) \<subseteq> set inputs"
    and x: "x \<in> set inputs" "pair_input (keccak256 x) s \<in> set inputs" and s: "length s = 32"
    and ids: "\<And>w a. (w, a) \<in> set payments \<Longrightarrow> length w = 32"
  shows "keccak256 x \<in> tree_nodes (levels_from (hash_pair keccak256) (payment_leaves keccak256 payments))"
  using node
proof (cases rule: payment_tree_cases)
  case (leaf w a)
  with hashes_wellD(3) [OF well, of "leaf_input w a" "pair_input (keccak256 x) s"] sub x
  have "leaf_input w a = pair_input (keccak256 x) s" by (auto simp: hash_pair_input)
  from leaf_pair_input(1) [OF this ids [OF leaf(1)] hashes_wellD(1) [OF well x(1)] s] hashes_wellD(2) [OF well x(1)]
  show ?thesis by contradiction
next
  case (pair c d)
  with hashes_wellD(3) [OF well, of "pair_input c d" "pair_input (keccak256 x) s"] sub x
  have "pair_input c d = pair_input (keccak256 x) s" by (auto simp: hash_pair_input)
  from pair_input_inject [OF this] pair(1,2) payment_node_well [OF _ well sub] hashes_wellD(1) [OF well x(1)] s
  show ?thesis by metis
qed

lemma folded_in_tree:
  assumes "foldl (hash_pair keccak256) (keccak256 x) path
        \<in> tree_nodes (levels_from (hash_pair keccak256) (payment_leaves keccak256 payments))"
    and well: "hashes_well keccak256 inputs" and sub: "set (tree_inputs keccak256 payments) \<subseteq> set inputs"
    and "x \<in> set inputs"
    and "set (map (\<lambda>(v, s). pair_input v s) (fold_steps (hash_pair keccak256) (keccak256 x) path)) \<subseteq> set inputs"
    and "list_all (\<lambda>s. length s = 32) path"
    and ids: "\<And>w a. (w, a) \<in> set payments \<Longrightarrow> length w = 32"
  shows "keccak256 x \<in> tree_nodes (levels_from (hash_pair keccak256) (payment_leaves keccak256 payments))"
  using assms(1,4-6)
proof (induction path arbitrary: x)
  case (Cons s path)
  then have "pair_input (keccak256 x) s \<in> set inputs" by simp
  with Cons.IH [of "pair_input (keccak256 x) s", folded hash_pair_input [of keccak256 "keccak256 x" s]] Cons.prems
  have "hash_pair keccak256 (keccak256 x) s \<in> tree_nodes (levels_from (hash_pair keccak256) (payment_leaves keccak256 payments))"
    by simp
  from parent_in_tree [OF this well sub] Cons.prems ids show ?case by auto
qed simp

text \<open>C16: an inclusion proof proves a payment. Let a tree be built from the leaves of a list of payments.
  If any path of any length verifies the leaf of a work and an amount against its root, that payment is
  in the list: proofs of other amounts, of other works, and inner nodes passed off as leaves all fail. The
  work ids and the path are 32-byte values. Among the byte strings actually hashed, to build the tree and
  to check the proof, no two collide and none hashes to a value with sixteen leading zero bytes; the
  latter is what separates the leaves, whose amount is padded with sixteen zeros, from the pairs.\<close>

theorem merkle_proofs_bind:
  assumes "merkle_build keccak256 (map (\<lambda>(w, a). leaf_hash keccak256 w a) payments) = Some t"
    and "merkle_verify keccak256 path (merkle_root t) (leaf_hash keccak256 work_id amount)"
    and "hashes_well keccak256 (tree_inputs keccak256 payments @ proof_inputs keccak256 work_id amount path)"
    and "length work_id = 32" and "list_all (\<lambda>(w, a). length w = 32) payments" and "list_all (\<lambda>h. length h = 32) path"
  shows "(work_id, amount) \<in> set payments"
proof -
  let ?leaves = "payment_leaves keccak256 payments" and ?x = "leaf_input work_id amount"
  let ?inputs = "tree_inputs keccak256 payments @ proof_inputs keccak256 work_id amount path"
  let ?nodes = "tree_nodes (levels_from (hash_pair keccak256) ?leaves)"
  have ids: "length w = 32" if "(w, a) \<in> set payments" for w a
    using assms(5) that by (auto simp: list_all_iff)
  from merkle_build_nth [OF assms(1)] have ne: "?leaves \<noteq> []" and lv: "levels t = levels_from (hash_pair keccak256) ?leaves"
    by (simp_all add: payment_leaves_def)
  have sub: "set (tree_inputs keccak256 payments) \<subseteq> set ?inputs" by simp
  have x: "?x \<in> set ?inputs" by (simp add: proof_inputs_def)
  have "foldl (hash_pair keccak256) (keccak256 ?x) path \<in> ?nodes"
    using assms(2) merkle_root_in_tree [OF ne, of "hash_pair keccak256"]
    by (simp add: merkle_verify_def merkle_root_def lv leaf_hash_input)
  then have "keccak256 ?x \<in> ?nodes"
    by (rule folded_in_tree [OF _ assms(3) sub x _ assms(6) ids]) (auto simp: proof_inputs_def leaf_hash_input)
  then show ?thesis
  proof (cases rule: payment_tree_cases)
    case (leaf w a)
    from hashes_wellD(3) [OF assms(3) x _ leaf(2)] sub leaf(3) have "?x = leaf_input w a" by blast
    from leaf_input_inject [OF this assms(4) ids [OF leaf(1)]] leaf(1) show ?thesis by simp
  next
    case (pair c d)
    from hashes_wellD(3) [OF assms(3) x _ pair(3)] sub pair(4) have "?x = pair_input c d" by blast
    from leaf_pair_input(1) [OF this assms(4)] payment_node_well [OF pair(1) assms(3) sub]
      payment_node_well [OF pair(2) assms(3) sub] show ?thesis by blast
  qed
qed

text \<open>A hash for the witness: the sum of the first and the last byte behind 31 ones.\<close>

definition ends_hash :: "u8 list \<Rightarrow> hash" where
  "ends_hash bs = replicate 31 1 @ [hd bs + last bs]"

definition ex_payments :: "(hash \<times> u128) list" where
  "ex_payments = [(replicate 32 1, 10), (replicate 32 2, 40), (replicate 32 3, 1)]"

definition ex_path :: "hash list" where
  "ex_path = [leaf_hash ends_hash (replicate 32 1) 10, leaf_hash ends_hash (replicate 32 3) 1]"

theorem merkle_proofs_bind_witness:
  "case merkle_build ends_hash (map (\<lambda>(w, a). leaf_hash ends_hash w a) ex_payments) of
     None \<Rightarrow> False
   | Some t \<Rightarrow>
       merkle_verify ends_hash ex_path (merkle_root t) (leaf_hash ends_hash (replicate 32 2) 40)
     \<and> (replicate 32 2, 40) \<in> set ex_payments
     \<and> \<not> merkle_verify ends_hash ex_path (merkle_root t) (leaf_hash ends_hash (replicate 32 2) 30)"
proof -
  have "ex_payments \<noteq> []" by (simp add: ex_payments_def)
  then obtain t where t: "merkle_build ends_hash (map (\<lambda>(w, a). leaf_hash ends_hash w a) ex_payments) = Some t"
    by (simp add: merkle_build_def)
  have "case merkle_build ends_hash (map (\<lambda>(w, a). leaf_hash ends_hash w a) ex_payments) of
      None \<Rightarrow> False | Some t \<Rightarrow> merkle_verify ends_hash ex_path (merkle_root t) (leaf_hash ends_hash (replicate 32 2) 40)"
    by code_simp
  then have v: "merkle_verify ends_hash ex_path (merkle_root t) (leaf_hash ends_hash (replicate 32 2) 40)" by (simp only: t option.case)
  have well: "hashes_well ends_hash (tree_inputs ends_hash ex_payments @ proof_inputs ends_hash (replicate 32 2) 40 ex_path)"
    "hashes_well ends_hash (tree_inputs ends_hash ex_payments @ proof_inputs ends_hash (replicate 32 2) 30 ex_path)"
    by code_simp+
  have ids: "list_all (\<lambda>(w, a). length w = 32) ex_payments" "list_all (\<lambda>h. length h = 32) ex_path"
    by (simp_all add: ex_payments_def ex_path_def leaf_hash_def ends_hash_def)
  have "(replicate 32 2, 30) \<notin> set ex_payments" by (simp add: ex_payments_def)
  with merkle_proofs_bind [OF t _ well(2) _ ids] merkle_proofs_bind [OF t v well(1) _ ids] v show ?thesis by (auto simp: t)
qed

end
