(* ===== verification/Settle.thy ===== *)
theory Settle
  imports Dapr Bytes32 Merkle
begin

text \<open>
  \<open>services/settlement/src/settle.rs\<close>: from payouts to the committed settlement. \<open>finalize\<close>
  routes every credited work by recognition tier into the direct Merkle tree or into escrow,
  and the three entry points run the allocation and share it. The hash and the hex coder are
  parameters (\<open>Bytes32\<close>, \<open>Merkle\<close>).
\<close>

record settlement_entry =
  se_work_id :: bytes32
  se_amount :: u128
  se_proof :: "bytes32 list"

record escrow_entry =
  ee_work_id :: bytes32
  ee_amount :: u128

record settlement =
  sm_epoch :: u64
  merkle_root_of :: bytes32
  total_credits :: u128
  sm_unallocated :: u128
  entries :: "settlement_entry list"
  escrow :: "escrow_entry list"
  escrow_total :: u128

datatype settle_error = Dapr dapr_error | BadWorkId string | NoCredits

section \<open>Routing the credited works\<close>

record route_state =
  direct_ids :: "bytes32 list"
  direct_amounts :: "u128 list"
  leaves :: "hash list"
  rt_escrow :: "escrow_entry list"
  rt_escrow_total :: u128

definition route_work ::
    "(u8 list \<Rightarrow> hash) \<Rightarrow> (string \<Rightarrow> u8 list option) \<Rightarrow> string btree_set
     \<Rightarrow> route_state \<Rightarrow> string \<times> u128 \<Rightarrow> settle_error + route_state" where
  "route_work keccak256 hex_decode escrow_works s wa =
     (case wa of (work_hex, amount) \<Rightarrow>
        res_bind (map_err (\<lambda>_. BadWorkId work_hex) (bytes32_from_str hex_decode work_hex)) (\<lambda>work.
        if bs_contains escrow_works work_hex then
          Inr (s\<lparr>rt_escrow := rt_escrow s @ [\<lparr>ee_work_id = work, ee_amount = amount\<rparr>],
                 rt_escrow_total := rt_escrow_total s + amount\<rparr>)
        else
          Inr (s\<lparr>leaves := leaves s @ [leaf_hash keccak256 (as_bytes work) amount],
                 direct_ids := direct_ids s @ [work],
                 direct_amounts := direct_amounts s @ [amount]\<rparr>)))"

definition finalize ::
    "(u8 list \<Rightarrow> hash) \<Rightarrow> (string \<Rightarrow> u8 list option)
     \<Rightarrow> u64 \<Rightarrow> payouts \<Rightarrow> string btree_set \<Rightarrow> settle_error + settlement" where
  "finalize keccak256 hex_decode epoch p escrow_works =
     (if per_work p = [] then Inl NoCredits
      else
        res_bind (res_fold (route_work keccak256 hex_decode escrow_works)
            \<lparr>direct_ids = [], direct_amounts = [], leaves = [], rt_escrow = [], rt_escrow_total = 0\<rparr>
            (per_work p)) (\<lambda>s.
        let (rt, ents, total_direct) =
          (if direct_ids s = [] then (Bytes32 (replicate 32 0), [], 0)
           else
             let tree = the (merkle_build keccak256 (leaves s));
                 ents = map (\<lambda>i. \<lparr>se_work_id = direct_ids s ! i, se_amount = direct_amounts s ! i,
                                  se_proof = map Bytes32 (merkle_proof tree i)\<rparr>) [0..<length (direct_ids s)]
             in (Bytes32 (merkle_root tree), ents, sum_list (direct_amounts s)))
        in Inr \<lparr>sm_epoch = epoch, merkle_root_of = rt, total_credits = total_direct,
                sm_unallocated = unallocated p, entries = ents,
                escrow = rt_escrow s, escrow_total = rt_escrow_total s\<rparr>))"

section \<open>Entry points\<close>

definition settle ::
    "(u8 list \<Rightarrow> hash) \<Rightarrow> (string \<Rightarrow> u8 list option)
     \<Rightarrow> u64 \<Rightarrow> dataset \<Rightarrow> string btree_set \<Rightarrow> settle_error + settlement" where
  "settle keccak256 hex_decode epoch d escrow_works =
     res_bind (map_err Dapr (allocate d default_params)) (\<lambda>p.
     finalize keccak256 hex_decode epoch p escrow_works)"

definition settle_raw ::
    "(u8 list \<Rightarrow> hash) \<Rightarrow> (string \<Rightarrow> u8 list option)
     \<Rightarrow> u64 \<Rightarrow> (string, u128) btree_map \<Rightarrow> raw_row list \<Rightarrow> (string, u64) btree_map
     \<Rightarrow> string btree_set \<Rightarrow> settle_error + settlement" where
  "settle_raw keccak256 hex_decode epoch tier_fees rows bandwidth escrow_works =
     res_bind (map_err Dapr (allocate_from_raw tier_fees rows bandwidth)) (\<lambda>p.
     finalize keccak256 hex_decode epoch p escrow_works)"

definition settle_raw_with_row_credibility ::
    "(u8 list \<Rightarrow> hash) \<Rightarrow> (string \<Rightarrow> u8 list option)
     \<Rightarrow> u64 \<Rightarrow> (string, u128) btree_map \<Rightarrow> raw_row list \<Rightarrow> u64 list
     \<Rightarrow> string btree_set \<Rightarrow> settle_error + settlement" where
  "settle_raw_with_row_credibility keccak256 hex_decode epoch tier_fees rows credibility escrow_works =
     res_bind (map_err Dapr (allocate_from_raw_with_row_credibility tier_fees rows credibility)) (\<lambda>p.
     finalize keccak256 hex_decode epoch p escrow_works)"

section \<open>Decimal strings\<close>

text \<open>
  \<open>u128_string\<close>: \<open>u128::to_string\<close> and \<open>str::parse::<u128>\<close> of the standard library. Parsing
  accepts one leading \<open>+\<close>, needs at least one digit and refuses an overflow.
\<close>

fun digits_of :: "nat \<Rightarrow> string \<Rightarrow> string" where
  "digits_of n acc =
     (let acc' = char_of (n mod 10 + 48) # acc
      in if n < 10 then acc' else digits_of (n div 10) acc')"

definition u128_to_string :: "u128 \<Rightarrow> string" where
  "u128_to_string v = digits_of (unat v) []"

fun parse_digits :: "u128 \<Rightarrow> string \<Rightarrow> u128 option" where
  "parse_digits acc [] = Some acc"
| "parse_digits acc (c # s) =
     (let n = (of_char c :: nat) in
      if 48 \<le> n \<and> n \<le> 57 then
        Option.bind (checked_mul acc 10) (\<lambda>m.
        Option.bind (checked_add m (of_nat (n - 48))) (\<lambda>a. parse_digits a s))
      else None)"

definition parse_u128 :: "string \<Rightarrow> u128 option" where
  "parse_u128 s =
     (let body = (case s of [] \<Rightarrow> [] | c # r \<Rightarrow> if c = CHR ''+'' then r else s)
      in if body = [] then None else parse_digits 0 body)"

definition parse_u64 :: "string \<Rightarrow> u64 option" where
  "parse_u64 s = Option.bind (parse_u128 s) (\<lambda>v. if uint v < 2 ^ 64 then Some (ucast v) else None)"

definition u64_to_string :: "u64 \<Rightarrow> string" where
  "u64_to_string v = digits_of (unat v) []"

section \<open>What routing computes\<close>

definition work_of :: "(string \<Rightarrow> u8 list option) \<Rightarrow> string \<Rightarrow> bytes32" where
  "work_of hex_decode h = (case bytes32_from_str hex_decode h of Inr b \<Rightarrow> b | Inl _ \<Rightarrow> Bytes32 [])"

definition direct_part :: "string btree_set \<Rightarrow> (string \<times> u128) list \<Rightarrow> (string \<times> u128) list" where
  "direct_part esc ws = List.filter (\<lambda>wa. \<not> bs_contains esc (fst wa)) ws"

definition escrow_part :: "string btree_set \<Rightarrow> (string \<times> u128) list \<Rightarrow> (string \<times> u128) list" where
  "escrow_part esc ws = List.filter (\<lambda>wa. bs_contains esc (fst wa)) ws"

lemma parts_simps [simp]:
  "direct_part esc [] = []" "escrow_part esc [] = []"
  "direct_part esc (wa # ws) = (if bs_contains esc (fst wa) then direct_part esc ws else wa # direct_part esc ws)"
  "escrow_part esc (wa # ws) = (if bs_contains esc (fst wa) then wa # escrow_part esc ws else escrow_part esc ws)"
  by (simp_all add: direct_part_def escrow_part_def)

lemma parts_total: "map_total (direct_part esc ws) + map_total (escrow_part esc ws) = map_total ws"
  by (induction ws) (auto simp: map_total_def)

lemma route_work_Inr:
  "route_work keccak256 dec esc s (h, a) = Inr s' \<longleftrightarrow>
     is_ok (bytes32_from_str dec h) \<and>
     s' = (if bs_contains esc h then
            s\<lparr>rt_escrow := rt_escrow s @ [\<lparr>ee_work_id = work_of dec h, ee_amount = a\<rparr>],
              rt_escrow_total := rt_escrow_total s + a\<rparr>
           else s\<lparr>leaves := leaves s @ [leaf_hash keccak256 (as_bytes (work_of dec h)) a],
                  direct_ids := direct_ids s @ [work_of dec h],
                  direct_amounts := direct_amounts s @ [a]\<rparr>)"
  by (cases "bytes32_from_str dec h") (auto simp: route_work_def work_of_def)

lemma route_fold_Inr:
  assumes "res_fold (route_work keccak256 dec esc) s ws = Inr s'"
  shows "(\<forall>wa \<in> set ws. is_ok (bytes32_from_str dec (fst wa)))
     \<and> direct_ids s' = direct_ids s @ map (\<lambda>wa. work_of dec (fst wa)) (direct_part esc ws)
     \<and> direct_amounts s' = direct_amounts s @ map snd (direct_part esc ws)
     \<and> leaves s' = leaves s @ map (\<lambda>wa. leaf_hash keccak256 (as_bytes (work_of dec (fst wa))) (snd wa)) (direct_part esc ws)
     \<and> rt_escrow s' = rt_escrow s @ map (\<lambda>wa. \<lparr>ee_work_id = work_of dec (fst wa), ee_amount = snd wa\<rparr>) (escrow_part esc ws)
     \<and> rt_escrow_total s' = rt_escrow_total s + sum_list (map snd (escrow_part esc ws))"
  using assms
proof (induction ws arbitrary: s)
  case (Cons wa ws)
  obtain h a where wa: "wa = (h, a)" by (cases wa)
  from Cons.prems obtain s1 where step: "route_work keccak256 dec esc s (h, a) = Inr s1"
    and rest: "res_fold (route_work keccak256 dec esc) s1 ws = Inr s'"
    by (auto simp: wa res_bind_eq_Inr)
  from Cons.IH [OF rest] step show ?case
    by (cases "bs_contains esc h") (simp_all add: wa route_work_Inr add.assoc)
qed simp

lemma route_fold_error:
  "res_fold (route_work keccak256 dec esc) s ws = Inl e \<longleftrightarrow>
     (\<exists>ok h a rest. ws = ok @ (h, a) # rest \<and> (\<forall>wa \<in> set ok. is_ok (bytes32_from_str dec (fst wa)))
        \<and> \<not> is_ok (bytes32_from_str dec h) \<and> e = BadWorkId h)"
  (is "?L s ws \<longleftrightarrow> ?R ws")
proof (induction ws arbitrary: s)
  case (Cons wa ws)
  obtain h a where wa: "wa = (h, a)" by (cases wa)
  show ?case
  proof (cases "bytes32_from_str dec h")
    case (Inl er)
    then have "?L s (wa # ws) \<longleftrightarrow> e = BadWorkId h" by (auto simp: wa route_work_def)
    moreover have "?R (wa # ws) \<longleftrightarrow> e = BadWorkId h"
    proof
      assume "?R (wa # ws)"
      then obtain ok h' a' rest where r: "wa # ws = ok @ (h', a') # rest"
        and ok: "\<forall>wa \<in> set ok. is_ok (bytes32_from_str dec (fst wa))" and e: "e = BadWorkId h'" by blast
      from r ok Inl show "e = BadWorkId h" by (cases ok) (auto simp: wa e)
    next
      assume "e = BadWorkId h"
      with Inl have "wa # ws = [] @ (h, a) # ws \<and> (\<forall>wa \<in> set []. is_ok (bytes32_from_str dec (fst wa)))
          \<and> \<not> is_ok (bytes32_from_str dec h) \<and> e = BadWorkId h" by (simp add: wa)
      then show "?R (wa # ws)" by blast
    qed
    ultimately show ?thesis by simp
  next
    case (Inr b)
    then have "is_ok (route_work keccak256 dec esc s wa)" by (simp add: wa route_work_def)
    then obtain s1 where "route_work keccak256 dec esc s wa = Inr s1" by (auto simp: is_ok_iff)
    then have "?L s (wa # ws) \<longleftrightarrow> ?L s1 ws" by simp
    moreover have "?R (wa # ws) \<longleftrightarrow> ?R ws"
    proof
      assume "?R (wa # ws)"
      then obtain ok h' a' rest where r: "wa # ws = ok @ (h', a') # rest"
        and ok: "\<forall>wa \<in> set ok. is_ok (bytes32_from_str dec (fst wa))"
        and bad: "\<not> is_ok (bytes32_from_str dec h')" and e: "e = BadWorkId h'" by blast
      from r bad Inr obtain ok' where "ok = wa # ok'" by (cases ok) (auto simp: wa)
      with r ok bad e show "?R ws" by auto
    next
      assume "?R ws"
      then obtain ok h' a' rest where "ws = ok @ (h', a') # rest"
        and "\<forall>wa \<in> set ok. is_ok (bytes32_from_str dec (fst wa))"
        and "\<not> is_ok (bytes32_from_str dec h')" and "e = BadWorkId h'" by blast
      with Inr have "wa # ws = (wa # ok) @ (h', a') # rest \<and> (\<forall>wa \<in> set (wa # ok). is_ok (bytes32_from_str dec (fst wa)))
          \<and> \<not> is_ok (bytes32_from_str dec h') \<and> e = BadWorkId h'" by (simp add: wa)
      then show "?R (wa # ws)" by blast
    qed
    ultimately show ?thesis using Cons.IH by simp
  qed
qed simp

text \<open>The settlement of a successful \<open>finalize\<close>, field by field.\<close>

lemma finalize_Inr:
  assumes "finalize keccak256 dec epoch p esc = Inr s"
  defines "D \<equiv> direct_part esc (per_work p)" and "E \<equiv> escrow_part esc (per_work p)"
  shows "per_work p \<noteq> [] \<and> sm_epoch s = epoch \<and> sm_unallocated s = unallocated p
     \<and> (\<forall>wa \<in> set (per_work p). is_ok (bytes32_from_str dec (fst wa)))
     \<and> map (\<lambda>e. (se_work_id e, se_amount e)) (entries s) = map (\<lambda>wa. (work_of dec (fst wa), snd wa)) D
     \<and> map (\<lambda>e. (ee_work_id e, ee_amount e)) (escrow s) = map (\<lambda>wa. (work_of dec (fst wa), snd wa)) E
     \<and> total_credits s = sum_list (map snd D) \<and> escrow_total s = sum_list (map snd E)
     \<and> (D = [] \<longrightarrow> merkle_root_of s = Bytes32 (replicate 32 0))
     \<and> (\<forall>i < length D. \<exists>tree. merkle_build keccak256
            (map (\<lambda>wa. leaf_hash keccak256 (as_bytes (work_of dec (fst wa))) (snd wa)) D) = Some tree
          \<and> merkle_root_of s = Bytes32 (merkle_root tree)
          \<and> se_proof (entries s ! i) = map Bytes32 (merkle_proof tree i))"
proof -
  let ?L = "map (\<lambda>wa. leaf_hash keccak256 (as_bytes (work_of dec (fst wa))) (snd wa)) D"
  from assms(1) obtain t where ne: "per_work p \<noteq> []"
    and fold: "res_fold (route_work keccak256 dec esc)
       \<lparr>direct_ids = [], direct_amounts = [], leaves = [], rt_escrow = [], rt_escrow_total = 0\<rparr> (per_work p) = Inr t"
    by (auto simp: finalize_def res_bind_eq_Inr split: if_splits)
  note r = route_fold_Inr [OF fold, folded D_def E_def, simplified]
  show ?thesis
  proof (cases "D = []")
    case True
    with assms(1) fold r ne show ?thesis
      by (auto simp: finalize_def comp_def)
  next
    case False
    then obtain tree where tree: "merkle_build keccak256 ?L = Some tree"
      by (simp add: merkle_build_def)
    let ?ents = "map (\<lambda>i. \<lparr>se_work_id = map (\<lambda>wa. work_of dec (fst wa)) D ! i,
        se_amount = map snd D ! i, se_proof = map Bytes32 (merkle_proof tree i)\<rparr>) [0..<length D]"
    from assms(1) fold r ne False tree
    have s: "s = \<lparr>sm_epoch = epoch, merkle_root_of = Bytes32 (merkle_root tree),
        total_credits = sum_list (map snd D), sm_unallocated = unallocated p, entries = ?ents,
        escrow = map (\<lambda>wa. \<lparr>ee_work_id = work_of dec (fst wa), ee_amount = snd wa\<rparr>) E,
        escrow_total = sum_list (map snd E)\<rparr>"
      by (simp add: finalize_def)
    have "map (\<lambda>e. (se_work_id e, se_amount e)) ?ents = map (\<lambda>wa. (work_of dec (fst wa), snd wa)) D"
      by (rule nth_equalityI) simp_all
    with s r ne False tree show ?thesis by (simp add: comp_def)
  qed
qed

section \<open>Decimal round trip\<close>

declare digits_of.simps [simp del]

lemma digits_of_append: "digits_of n acc = digits_of n [] @ acc"
proof (induction n arbitrary: acc rule: less_induct)
  case (less n)
  show ?case
  proof (cases "n < 10")
    case True
    then show ?thesis by (simp add: digits_of.simps [of n])
  next
    case False
    then have "n div 10 < n" by simp
    from less.IH [OF this, of "char_of (n mod 10 + 48) # acc"]
      less.IH [OF this, of "[char_of (n mod 10 + 48)]"] False
    show ?thesis by (simp add: digits_of.simps [of n])
  qed
qed

lemma parse_digits_append:
  "parse_digits acc (xs @ ys) = Option.bind (parse_digits acc xs) (\<lambda>a. parse_digits a ys)"
  by (induction acc xs rule: parse_digits.induct) (auto simp: Let_def split: Option.bind_splits)

lemma parse_one_digit:
  assumes "unat acc * 10 + d < 2 ^ 128" and "d < 10"
  shows "parse_digits acc [char_of (d + 48)] = Some (of_nat (unat acc * 10 + d))"
proof -
  have d: "unat (of_nat d :: u128) = d" using assms(2) by (simp add: unat_of_nat take_bit_nat_eq_self)
  have "unat acc * unat (10 :: u128) < 2 ^ LENGTH(128)" using assms(1) by simp
  then have m: "checked_mul acc 10 = Some (acc * 10)" "unat (acc * 10) = unat acc * 10"
    by (simp_all add: checked_mul_unat unat_mult_exact)
  then have "checked_add (acc * 10) (of_nat d) = Some (of_nat (unat acc * 10 + d))"
    using assms(1) by (simp add: checked_add_unat m d del: of_nat_add) simp
  with m assms(2) show ?thesis by (simp add: Let_def)
qed

lemma parse_digits_of: "n < 2 ^ 128 \<Longrightarrow> parse_digits 0 (digits_of n []) = Some (of_nat n)"
proof (induction n rule: less_induct)
  case (less n)
  show ?case
  proof (cases "n < 10")
    case True
    then show ?thesis using parse_one_digit [of 0 n] by (simp add: digits_of.simps [of n])
  next
    case False
    then have lt: "n div 10 < n" by simp
    have small: "n div 10 < 2 ^ 128" using less.prems by simp
    have u: "unat (of_nat (n div 10) :: u128) = n div 10"
      using small by (simp add: unat_of_nat take_bit_nat_eq_self)
    have "digits_of n [] = digits_of (n div 10) [] @ [char_of (n mod 10 + 48)]"
      using False digits_of_append [of "n div 10" "[char_of (n mod 10 + 48)]"]
      by (simp add: digits_of.simps [of n])
    moreover have "n div 10 * 10 + n mod 10 = n" by simp
    ultimately show ?thesis
      using less.IH [OF lt small] parse_one_digit [of "of_nat (n div 10)" "n mod 10"] less.prems
      by (simp add: parse_digits_append u del: of_nat_add of_nat_mult)
  qed
qed

lemma digits_of_first:
  obtains c r where "digits_of n [] = c # r" and "c \<noteq> CHR ''+''"
proof (induction n arbitrary: thesis rule: less_induct)
  case (less n)
  show ?case
  proof (cases "n < 10")
    case True
    have "(of_char (char_of (n + 48) :: char) :: nat) = n + 48" using True by simp
    moreover have "(of_char (CHR ''+'') :: nat) = 43" by simp
    moreover have "n + 48 \<noteq> 43" by simp
    ultimately have "(char_of (n + 48) :: char) \<noteq> CHR ''+''" by metis
    with True show ?thesis by (intro less.prems) (simp_all add: digits_of.simps [of n])
  next
    case False
    then have "n div 10 < n" by simp
    then obtain c r where "digits_of (n div 10) [] = c # r" "c \<noteq> CHR ''+''"
      using less.IH by blast
    with False show ?thesis
      using digits_of_append [of "n div 10" "[char_of (n mod 10 + 48)]"]
      by (intro less.prems) (simp_all add: digits_of.simps [of n])
  qed
qed

lemma parse_u128_to_string: "parse_u128 (u128_to_string v) = Some v"
proof -
  obtain c r where d: "digits_of (unat v) [] = c # r" "c \<noteq> CHR ''+''" by (rule digits_of_first)
  have "parse_digits 0 (digits_of (unat v) []) = Some v"
    using parse_digits_of [OF u128_lt, of v] by simp
  with d show ?thesis by (simp add: parse_u128_def u128_to_string_def)
qed

section \<open>Properties\<close>

lemma sum_list_unat:
  fixes ws :: "'l::len word list"
  assumes "sum_unat ws < 2 ^ LENGTH('l)"
  shows "unat (sum_list ws) = sum_unat ws"
  using assms
proof (induction ws)
  case (Cons w ws)
  then have "unat (sum_list ws) = sum_unat ws" by simp
  with Cons.prems show ?case by (simp add: unat_add_exact)
qed simp

lemma map_total_sum_unat: "map_total m = sum_unat (map snd m)"
  by (simp add: map_total_def sum_unat_def comp_def)

lemma finalize_totals:
  assumes "finalize keccak256 dec epoch p esc = Inr s" and "map_total (per_work p) < 2 ^ 128"
  shows "unat (total_credits s) + unat (escrow_total s) = map_total (per_work p)"
proof -
  let ?D = "direct_part esc (per_work p)" and ?E = "escrow_part esc (per_work p)"
  have tot: "map_total ?D + map_total ?E = map_total (per_work p)" by (rule parts_total)
  then have "sum_unat (map snd ?D) < 2 ^ LENGTH(128)" "sum_unat (map snd ?E) < 2 ^ LENGTH(128)"
    using assms(2) by (simp_all flip: map_total_sum_unat)
  from this [THEN sum_list_unat] finalize_Inr [OF assms(1)] tot
  show ?thesis by (simp add: map_total_sum_unat)
qed

text \<open>The two totals of a settlement are the sums of its two lists.\<close>

lemma finalize_lists:
  assumes "finalize keccak256 dec epoch p esc = Inr s" and "map_total (per_work p) < 2 ^ 128"
  shows "sum_unat (map se_amount (entries s)) = unat (total_credits s)
     \<and> sum_unat (map ee_amount (escrow s)) = unat (escrow_total s)"
proof -
  let ?D = "direct_part esc (per_work p)" and ?E = "escrow_part esc (per_work p)"
  note f = finalize_Inr [OF assms(1)]
  from f have "map snd (map (\<lambda>e. (se_work_id e, se_amount e)) (entries s)) = map snd (map (\<lambda>wa. (work_of dec (fst wa), snd wa)) ?D)"
    and "map snd (map (\<lambda>e. (ee_work_id e, ee_amount e)) (escrow s)) = map snd (map (\<lambda>wa. (work_of dec (fst wa), snd wa)) ?E)"
    by simp_all
  then have lists: "map se_amount (entries s) = map snd ?D" "map ee_amount (escrow s) = map snd ?E"
    by (simp_all add: comp_def)
  have "map_total ?D + map_total ?E = map_total (per_work p)" by (rule parts_total)
  then have "sum_unat (map snd ?D) < 2 ^ LENGTH(128)" "sum_unat (map snd ?E) < 2 ^ LENGTH(128)"
    using assms(2) by (simp_all flip: map_total_sum_unat)
  from this [THEN sum_list_unat] f show ?thesis by (simp add: lists)
qed

definition ex_id :: "u8 \<Rightarrow> string" where
  "ex_id b = ''0x'' @ hex_string (replicate 32 b)"

definition ex_hex_fees :: "(string, u128) btree_map" where
  "ex_hex_fees = [(''alice'', 1000), (''bob'', 500)]"

definition ex_hex_rows :: "raw_row list" where
  "ex_hex_rows = [\<lparr>rr_user = ''alice'', rr_work = ex_id 1, rr_raw = 3\<rparr>,
                  \<lparr>rr_user = ''alice'', rr_work = ex_id 2, rr_raw = 4\<rparr>,
                  \<lparr>rr_user = ''bob'', rr_work = ex_id 3, rr_raw = 5\<rparr>]"

definition ex_settle :: "settle_error + settlement" where
  "ex_settle = settle_raw_with_row_credibility (take 32) decode_hex 7 ex_hex_fees ex_hex_rows
     [1000000, 500000, 250000] [ex_id 2]"

lemma ex_settle_ok: "is_ok ex_settle"
  by code_simp

lemma settlement_accounts:
  assumes "settle_raw_with_row_credibility keccak256 dec epoch fees rows creds esc = Inr s"
    and "length rows < 2 ^ 64" and "map_total fees < 2 ^ 128"
  shows "unat (total_credits s) + unat (escrow_total s) + unat (sm_unallocated s) = map_total fees"
proof -
  from assms(1) obtain p where p: "allocate_from_raw_with_row_credibility fees rows creds = Inr p"
    and f: "finalize keccak256 dec epoch p esc = Inr s"
    by (auto simp: settle_raw_with_row_credibility_def res_bind_eq_Inr map_err_eq_Inr)
  note cons = allocation_conserves [OF p assms(2)]
  then have "map_total (per_work p) < 2 ^ 128" using assms(3) by linarith
  from finalize_totals [OF f this] cons finalize_Inr [OF f] show ?thesis by simp
qed

lemma settlement_lists:
  assumes "settle_raw_with_row_credibility keccak256 dec epoch fees rows creds esc = Inr s"
    and "length rows < 2 ^ 64" and "map_total fees < 2 ^ 128"
  shows "sum_unat (map se_amount (entries s)) = unat (total_credits s)
     \<and> sum_unat (map ee_amount (escrow s)) = unat (escrow_total s)"
proof -
  from assms(1) obtain p where p: "allocate_from_raw_with_row_credibility fees rows creds = Inr p"
    and f: "finalize keccak256 dec epoch p esc = Inr s"
    by (auto simp: settle_raw_with_row_credibility_def res_bind_eq_Inr map_err_eq_Inr)
  from allocation_conserves [OF p assms(2)] assms(3) have "map_total (per_work p) < 2 ^ 128" by linarith
  with finalize_lists [OF f] show ?thesis by blast
qed

text \<open>C2: settlement conserves the fees. The amounts of the entries of a settlement, those of its
  escrow items and the unallocated amount add up, as natural numbers, to exactly the fees of the
  epoch, whenever those fit in 128 bits. The two totals it reports are the sums of the two lists,
  so they did not wrap.\<close>

theorem settlement_conserves_fees:
  assumes "settle_raw_with_row_credibility keccak256 dec epoch fees rows creds esc = Inr s"
    and "length rows < 2 ^ 64" and "map_total fees < 2 ^ 128"
  shows "(\<Sum>e\<leftarrow>entries s. unat (se_amount e)) + (\<Sum>e\<leftarrow>escrow s. unat (ee_amount e)) + unat (sm_unallocated s)
       = map_total fees
     \<and> unat (total_credits s) = (\<Sum>e\<leftarrow>entries s. unat (se_amount e))
     \<and> unat (escrow_total s) = (\<Sum>e\<leftarrow>escrow s. unat (ee_amount e))"
  using settlement_lists [OF assms] settlement_accounts [OF assms] by (simp add: sum_unat_def comp_def)

theorem settlement_conserves_fees_witness:
  "\<exists>s. ex_settle = Inr s
     \<and> (\<Sum>e\<leftarrow>entries s. unat (se_amount e)) + (\<Sum>e\<leftarrow>escrow s. unat (ee_amount e)) + unat (sm_unallocated s) = 1500
     \<and> length (entries s) = 2 \<and> length (escrow s) = 1"
proof -
  obtain s where s: "ex_settle = Inr s" using ex_settle_ok by (auto simp: is_ok_iff)
  have "(\<Sum>e\<leftarrow>entries s. unat (se_amount e)) + (\<Sum>e\<leftarrow>escrow s. unat (ee_amount e)) + unat (sm_unallocated s)
      = map_total ex_hex_fees"
    using settlement_conserves_fees [OF s [unfolded ex_settle_def]]
    by (simp add: ex_hex_rows_def ex_hex_fees_def map_total_def)
  also have "\<dots> = 1500" by (simp add: ex_hex_fees_def map_total_def)
  finally have sum: "(\<Sum>e\<leftarrow>entries s. unat (se_amount e)) + (\<Sum>e\<leftarrow>escrow s. unat (ee_amount e))
      + unat (sm_unallocated s) = 1500" .
  have "case ex_settle of Inr s \<Rightarrow> length (entries s) = 2 \<and> length (escrow s) = 1 | Inl _ \<Rightarrow> False"
    by code_simp
  then have "length (entries s) = 2 \<and> length (escrow s) = 1" by (simp only: s sum.case)
  with sum s show ?thesis by blast
qed

text \<open>Every direct credit can be withdrawn. Each entry of a settlement carries a proof that
  verifies the leaf of its work and amount against the committed root.\<close>

theorem settlement_proofs_verify:
  assumes "finalize keccak256 dec epoch p esc = Inr s" and "e \<in> set (entries s)"
  shows "merkle_verify keccak256 (map as_bytes (se_proof e)) (as_bytes (merkle_root_of s))
           (leaf_hash keccak256 (as_bytes (se_work_id e)) (se_amount e))"
proof -
  let ?D = "direct_part esc (per_work p)"
  let ?leaf = "\<lambda>wa. leaf_hash keccak256 (as_bytes (work_of dec (fst wa))) (snd wa)"
  note f = finalize_Inr [OF assms(1)]
  then have ents: "map (\<lambda>e. (se_work_id e, se_amount e)) (entries s) = map (\<lambda>wa. (work_of dec (fst wa), snd wa)) ?D"
    by blast
  then have len: "length (entries s) = length ?D" using map_eq_imp_length_eq by blast
  from assms(2) obtain i where i: "i < length (entries s)" "e = entries s ! i" by (auto simp: in_set_conv_nth)
  from arg_cong [OF ents, of "\<lambda>l. l ! i"] i len
  have "(se_work_id e, se_amount e) = (work_of dec (fst (?D ! i)), snd (?D ! i))" by simp
  then have leaf: "leaf_hash keccak256 (as_bytes (se_work_id e)) (se_amount e) = map ?leaf ?D ! i"
    using i len by simp
  from f i len obtain tree where tree: "merkle_build keccak256 (map ?leaf ?D) = Some tree"
    and rt: "merkle_root_of s = Bytes32 (merkle_root tree)"
    and pf: "se_proof e = map Bytes32 (merkle_proof tree i)"
    by auto
  have "merkle_verify keccak256 (merkle_proof tree i) (merkle_root tree) (map ?leaf ?D ! i)"
    by (rule merkle_walk_verifies [OF tree]) (use i len in simp)
  then show ?thesis by (simp add: leaf rt pf comp_def)
qed

theorem settlement_proofs_verify_witness:
  "\<exists>s. finalize (take 4) decode_hex 7
         \<lparr>per_work = [(ex_id 1, 10), (ex_id 2, 20), (ex_id 3, 30)], unallocated = 5, reputation_of = []\<rparr> [ex_id 2] = Inr s
     \<and> (\<exists>e. e \<in> set (entries s) \<and> se_amount e = 30 \<and>
           merkle_verify (take 4) (map as_bytes (se_proof e)) (as_bytes (merkle_root_of s))
             (leaf_hash (take 4) (as_bytes (se_work_id e)) (se_amount e)))"
proof -
  let ?p = "\<lparr>per_work = [(ex_id 1, 10), (ex_id 2, 20), (ex_id 3, 30)], unallocated = 5, reputation_of = []\<rparr>"
  have "is_ok (finalize (take 4) decode_hex 7 ?p [ex_id 2])" by code_simp
  then obtain s where s: "finalize (take 4) decode_hex 7 ?p [ex_id 2] = Inr s" by (auto simp: is_ok_iff)
  from finalize_Inr [OF s] have "map (\<lambda>e. (se_work_id e, se_amount e)) (entries s)
      = map (\<lambda>wa. (work_of decode_hex (fst wa), snd wa)) (direct_part [ex_id 2] (per_work ?p))" by blast
  moreover have "map snd (direct_part [ex_id 2] (per_work ?p)) = [10, 30]" by code_simp
  ultimately have "map se_amount (entries s) = [10, 30]"
    by (metis (no_types, lifting) comp_def list.map_comp list.map_cong snd_conv)
  then have "30 \<in> se_amount ` set (entries s)" by (simp flip: set_map)
  then obtain e where e: "e \<in> set (entries s)" "se_amount e = 30" by auto
  from settlement_proofs_verify [OF s e(1)] s e show ?thesis by blast
qed

text \<open>Routing is a partition. The direct entries are, in order, the credited works outside the
  escrow set with their amounts, the escrow entries those inside it; nothing is dropped,
  duplicated or changed, and an all-escrow epoch commits the zero root.\<close>

theorem settlement_partition:
  assumes "finalize keccak256 dec epoch p esc = Inr s"
  shows "map (\<lambda>e. (se_work_id e, se_amount e)) (entries s)
           = map (\<lambda>(h, a). (work_of dec h, a)) (List.filter (\<lambda>(h, a). h \<notin> set esc) (per_work p))
       \<and> map (\<lambda>e. (ee_work_id e, ee_amount e)) (escrow s)
           = map (\<lambda>(h, a). (work_of dec h, a)) (List.filter (\<lambda>(h, a). h \<in> set esc) (per_work p))
       \<and> (set (map fst (per_work p)) \<subseteq> set esc
           \<longrightarrow> merkle_root_of s = Bytes32 (replicate 32 0) \<and> total_credits s = 0)"
proof -
  have "direct_part esc (per_work p) = []" if "set (map fst (per_work p)) \<subseteq> set esc"
    using that by (auto simp: direct_part_def bs_contains_def filter_empty_conv)
  then show ?thesis
    using finalize_Inr [OF assms]
    by (auto simp: direct_part_def escrow_part_def bs_contains_def case_prod_unfold)
qed

theorem settlement_partition_witness:
  "\<exists>s. finalize (take 4) decode_hex 7
         \<lparr>per_work = [(ex_id 1, 10), (ex_id 2, 20)], unallocated = 5, reputation_of = []\<rparr> [ex_id 1, ex_id 2] = Inr s
     \<and> total_credits s = 0 \<and> map (\<lambda>e. ee_amount e) (escrow s) = [10, 20]"
proof -
  let ?p = "\<lparr>per_work = [(ex_id 1, 10), (ex_id 2, 20)], unallocated = 5, reputation_of = []\<rparr>"
  have "is_ok (finalize (take 4) decode_hex 7 ?p [ex_id 1, ex_id 2])" by code_simp
  then obtain s where s: "finalize (take 4) decode_hex 7 ?p [ex_id 1, ex_id 2] = Inr s" by (auto simp: is_ok_iff)
  note part = settlement_partition [OF s]
  have "set (map fst (per_work ?p)) \<subseteq> set [ex_id 1, ex_id 2]" by simp
  with part have zero: "total_credits s = 0" by blast
  from part have "map (\<lambda>e. (ee_work_id e, ee_amount e)) (escrow s)
      = map (\<lambda>(h, a). (work_of decode_hex h, a)) (List.filter (\<lambda>(h, a). h \<in> set [ex_id 1, ex_id 2]) (per_work ?p))"
    by blast
  from arg_cong [OF this, of "map snd"] have "map (\<lambda>e. ee_amount e) (escrow s) = [10, 20]"
    by (simp add: comp_def)
  with zero s show ?thesis by (intro exI [of _ s] conjI)
qed

text \<open>When settlement fails. \<open>NoCredits\<close> is returned exactly for an empty payout, and otherwise
  the only error is the first work id that is not a 32-byte hex value.\<close>

theorem finalize_error_iff:
  "finalize keccak256 dec epoch p esc = Inl e \<longleftrightarrow>
     (per_work p = [] \<and> e = NoCredits)
     \<or> (\<exists>ok h a rest. per_work p = ok @ (h, a) # rest
          \<and> list_all (\<lambda>wa. is_ok (bytes32_from_str dec (fst wa))) ok
          \<and> \<not> is_ok (bytes32_from_str dec h) \<and> e = BadWorkId h)"
proof (cases "per_work p = []")
  case False
  let ?s0 = "\<lparr>direct_ids = [], direct_amounts = [], leaves = [], rt_escrow = [], rt_escrow_total = 0\<rparr>"
  have "finalize keccak256 dec epoch p esc = Inl e \<longleftrightarrow>
      res_fold (route_work keccak256 dec esc) ?s0 (per_work p) = Inl e"
    using False by (cases "res_fold (route_work keccak256 dec esc) ?s0 (per_work p)")
      (auto simp: finalize_def Let_def split: prod.splits)
  also have "\<dots> \<longleftrightarrow> (\<exists>ok h a rest. per_work p = ok @ (h, a) # rest
          \<and> (\<forall>wa \<in> set ok. is_ok (bytes32_from_str dec (fst wa)))
          \<and> \<not> is_ok (bytes32_from_str dec h) \<and> e = BadWorkId h)"
    by (rule route_fold_error)
  finally show ?thesis using False unfolding list_all_iff by blast
qed (auto simp: finalize_def)

text \<open>Amounts survive their decimal text form: parsing what is printed gives the amount back.\<close>

theorem u128_string_round_trip:
  "parse_u128 (u128_to_string v) = Some v"
  by (rule parse_u128_to_string)

end
