(* ===== verification/Zk.thy ===== *)
theory Zk
  imports Dapr
begin

text \<open>
  \<open>libs/zk-circuits\<close> without the constraint system (theory \<open>Circuit\<close>): field conversions
  (\<open>field.rs\<close>), the Poseidon commitments and digest (\<open>poseidon.rs\<close>), the native weight
  (\<open>dr.rs\<close>), and proof assembly (\<open>prove.rs\<close>). Field elements are integers in \<open>[0, p)\<close>; the
  modulus \<open>p\<close> of the BN254 scalar field, the Poseidon sponge and the Groth16 prover and
  verifier come from the arkworks crates and are parameters.
\<close>

definition MAX_WORKS :: nat where "MAX_WORKS = 16"
definition MAX_PLAYS_CIRCUIT :: u64 where "MAX_PLAYS_CIRCUIT = 64"

type_synonym b32 = "u8 list"
type_synonym fr = int

section \<open>Field conversions\<close>

definition be_int :: "u8 list \<Rightarrow> int" where
  "be_int bs = foldl (\<lambda>a b. a * 256 + uint b) 0 bs"

definition int_be :: "nat \<Rightarrow> int \<Rightarrow> u8 list" where
  "int_be n f = map (\<lambda>i. word_of_int (f div 256 ^ (n - 1 - i))) [0..<n]"

definition fr_from_bytes32 :: "int \<Rightarrow> b32 \<Rightarrow> fr" where
  "fr_from_bytes32 p b = be_int b mod p"

definition fr_to_bytes32 :: "fr \<Rightarrow> b32" where
  "fr_to_bytes32 f = int_be 32 f"

definition fr_from_u128 :: "int \<Rightarrow> u128 \<Rightarrow> fr" where
  "fr_from_u128 p v = uint v mod p"

section \<open>Poseidon commitments\<close>

definition commitment :: "int \<Rightarrow> (fr list \<Rightarrow> fr) \<Rightarrow> b32 \<Rightarrow> u64 \<Rightarrow> u64 \<Rightarrow> b32 \<Rightarrow> b32" where
  "commitment p poseidon_hash work_id minutes plays salt =
     fr_to_bytes32 (poseidon_hash
       [fr_from_bytes32 p work_id, fr_from_u128 p (ucast minutes),
        fr_from_u128 p (ucast plays), fr_from_bytes32 p salt])"

definition pseudonym :: "int \<Rightarrow> (fr list \<Rightarrow> fr) \<Rightarrow> b32 \<Rightarrow> b32 \<Rightarrow> b32" where
  "pseudonym p poseidon_hash k_epoch c =
     fr_to_bytes32 (poseidon_hash [fr_from_bytes32 p k_epoch, fr_from_bytes32 p c])"

record public_row =
  pr_work_id :: b32
  pr_commitment :: b32
  pr_pseudonym :: b32
  pr_weight :: u128

definition digest_inputs :: "int \<Rightarrow> u64 \<Rightarrow> b32 \<Rightarrow> b32 \<Rightarrow> public_row list \<Rightarrow> fr list" where
  "digest_inputs p epoch tier k_epoch rows =
     [fr_from_u128 p (ucast epoch), fr_from_bytes32 p tier, fr_from_bytes32 p k_epoch]
     @ concat (map (\<lambda>row. [fr_from_bytes32 p (pr_pseudonym row), fr_from_bytes32 p (pr_work_id row),
                           fr_from_u128 p (pr_weight row)]) rows)"

definition digest :: "int \<Rightarrow> (fr list \<Rightarrow> fr) \<Rightarrow> u64 \<Rightarrow> b32 \<Rightarrow> b32 \<Rightarrow> public_row list \<Rightarrow> b32" where
  "digest p poseidon_hash epoch tier k_epoch rows =
     fr_to_bytes32 (poseidon_hash (digest_inputs p epoch tier k_epoch rows))"

section \<open>The native weight\<close>

definition d_ppm_table :: "u64 \<Rightarrow> u64 list" where
  "d_ppm_table k_ppm = map (\<lambda>i. d_ppm (of_nat i + 1) k_ppm) [0..<unat MAX_PLAYS_CIRCUIT]"

text \<open>Every product is an unchecked \<open>u128\<close> multiplication.\<close>

definition weight_of :: "u64 \<Rightarrow> u64 \<Rightarrow> u64 \<Rightarrow> u64 \<Rightarrow> u64 \<Rightarrow> u128" where
  "weight_of minutes plays price_ppm region_ppm k_ppm =
     (let v = min (max plays 1) MAX_PLAYS_CIRCUIT;
          d = (ucast (d_ppm_table k_ppm ! unat (v - 1)) :: u128);
          value = (ucast minutes :: u128) * ucast price_ppm * ucast region_ppm
      in value * d div 1000000)"

section \<open>Proof assembly\<close>

record usage_row_input =
  ri_work_id :: b32
  ri_minutes :: u64
  ri_plays :: u64
  ri_salt :: b32
  ri_price_ppm :: u64
  ri_region_ppm :: u64

record row_witness =
  rw_active :: bool
  rw_work_id :: b32
  rw_minutes :: u64
  rw_plays :: u64
  rw_salt :: b32
  rw_price_ppm :: u64
  rw_region_ppm :: u64
  rw_weight :: u128
  rw_commitment :: b32
  rw_pseudonym :: b32

record usage_circuit =
  uc_epoch :: u64
  uc_tier :: b32
  uc_k_epoch :: b32
  uc_k_ppm :: u64
  uc_rows :: "row_witness list"
  uc_digest :: b32

record proof_bundle =
  pb_proof :: "u8 list"
  pb_digest :: b32
  pb_epoch :: u64
  pb_tier :: b32
  pb_k_epoch :: b32
  pb_rows :: "public_row list"

datatype prove_error = TooManyWorks | Synthesis string | Serialize string

definition padded_row :: "int \<Rightarrow> (fr list \<Rightarrow> fr) \<Rightarrow> b32 \<Rightarrow> row_witness" where
  "padded_row p poseidon_hash k_epoch =
     (let c = commitment p poseidon_hash (replicate 32 0) 0 0 (replicate 32 0);
          ps = pseudonym p poseidon_hash k_epoch c
      in \<lparr>rw_active = False, rw_work_id = replicate 32 0, rw_minutes = 0, rw_plays = 0,
          rw_salt = replicate 32 0, rw_price_ppm = 0, rw_region_ppm = 0, rw_weight = 0,
          rw_commitment = c, rw_pseudonym = ps\<rparr>)"

definition active_row :: "int \<Rightarrow> (fr list \<Rightarrow> fr) \<Rightarrow> b32 \<Rightarrow> u64 \<Rightarrow> usage_row_input \<Rightarrow> row_witness" where
  "active_row p poseidon_hash k_epoch k_ppm i =
     (let c = commitment p poseidon_hash (ri_work_id i) (ri_minutes i) (ri_plays i) (ri_salt i);
          ps = pseudonym p poseidon_hash k_epoch c;
          w = weight_of (ri_minutes i) (ri_plays i) (ri_price_ppm i) (ri_region_ppm i) k_ppm
      in \<lparr>rw_active = True, rw_work_id = ri_work_id i, rw_minutes = ri_minutes i, rw_plays = ri_plays i,
          rw_salt = ri_salt i, rw_price_ppm = ri_price_ppm i, rw_region_ppm = ri_region_ppm i,
          rw_weight = w, rw_commitment = c, rw_pseudonym = ps\<rparr>)"

definition public_row_of :: "row_witness \<Rightarrow> public_row" where
  "public_row_of row =
     \<lparr>pr_work_id = rw_work_id row, pr_commitment = rw_commitment row,
      pr_pseudonym = rw_pseudonym row, pr_weight = rw_weight row\<rparr>"

text \<open>\<open>while rows.len() < MAX_WORKS { rows.push(x) }\<close>.\<close>

definition pad_to :: "nat \<Rightarrow> 'a \<Rightarrow> 'a list \<Rightarrow> 'a list" where
  "pad_to n x rows = rows @ replicate (n - length rows) x"

definition prove_circuit ::
    "int \<Rightarrow> (fr list \<Rightarrow> fr) \<Rightarrow> u64 \<Rightarrow> b32 \<Rightarrow> b32 \<Rightarrow> u64 \<Rightarrow> usage_row_input list \<Rightarrow> usage_circuit" where
  "prove_circuit p poseidon_hash epoch tier k_epoch k_ppm inputs =
     (let rows = pad_to MAX_WORKS (padded_row p poseidon_hash k_epoch)
                   (map (active_row p poseidon_hash k_epoch k_ppm) inputs)
      in \<lparr>uc_epoch = epoch, uc_tier = tier, uc_k_epoch = k_epoch, uc_k_ppm = k_ppm, uc_rows = rows,
          uc_digest = digest p poseidon_hash epoch tier k_epoch (map public_row_of rows)\<rparr>)"

definition prove ::
    "int \<Rightarrow> (fr list \<Rightarrow> fr) \<Rightarrow> ('pk \<Rightarrow> usage_circuit \<Rightarrow> string + 'pf) \<Rightarrow> ('pf \<Rightarrow> string + u8 list)
     \<Rightarrow> 'pk \<Rightarrow> u64 \<Rightarrow> b32 \<Rightarrow> b32 \<Rightarrow> u64 \<Rightarrow> usage_row_input list \<Rightarrow> prove_error + proof_bundle" where
  "prove p poseidon_hash groth16_prove serialize_compressed pk epoch tier k_epoch k_ppm inputs =
     (if length inputs > MAX_WORKS then Inl TooManyWorks
      else
        let circuit = prove_circuit p poseidon_hash epoch tier k_epoch k_ppm inputs in
        res_bind (map_err Synthesis (groth16_prove pk circuit)) (\<lambda>prf.
        res_bind (map_err Serialize (serialize_compressed prf)) (\<lambda>bytes.
        Inr \<lparr>pb_proof = bytes, pb_digest = uc_digest circuit, pb_epoch = epoch, pb_tier = tier,
             pb_k_epoch = k_epoch, pb_rows = map public_row_of (uc_rows circuit)\<rparr>)))"

definition digest_from_active ::
    "int \<Rightarrow> (fr list \<Rightarrow> fr) \<Rightarrow> u64 \<Rightarrow> b32 \<Rightarrow> b32 \<Rightarrow> public_row list \<Rightarrow> prove_error + b32" where
  "digest_from_active p poseidon_hash epoch tier k_epoch active =
     (if length active > MAX_WORKS then Inl TooManyWorks
      else
        let pad = public_row_of (padded_row p poseidon_hash k_epoch);
            rows = pad_to MAX_WORKS pad active
        in Inr (digest p poseidon_hash epoch tier k_epoch rows))"

definition verify ::
    "int \<Rightarrow> (u8 list \<Rightarrow> 'pf option) \<Rightarrow> ('vk \<Rightarrow> fr list \<Rightarrow> 'pf \<Rightarrow> bool option) \<Rightarrow> 'vk \<Rightarrow> b32 \<Rightarrow> u8 list \<Rightarrow> bool" where
  "verify p deserialize_compressed groth16_verify vk dg bytes =
     (case deserialize_compressed bytes of
        None \<Rightarrow> False
      | Some prf \<Rightarrow> (case groth16_verify vk [fr_from_bytes32 p dg] prf of None \<Rightarrow> False | Some b \<Rightarrow> b))"

section \<open>Keys for the devnet and the on-chain encoding\<close>

definition empty_circuit :: "int \<Rightarrow> (fr list \<Rightarrow> fr) \<Rightarrow> usage_circuit" where
  "empty_circuit p poseidon_hash =
     (let rows = replicate MAX_WORKS (padded_row p poseidon_hash (replicate 32 0))
      in \<lparr>uc_epoch = 0, uc_tier = replicate 32 0, uc_k_epoch = replicate 32 0, uc_k_ppm = 1000000,
          uc_rows = rows,
          uc_digest = digest p poseidon_hash 0 (replicate 32 0) (replicate 32 0) (map public_row_of rows)\<rparr>)"

type_synonym g1 = "int \<times> int"
type_synonym g2 = "(int \<times> int) \<times> (int \<times> int)"

definition fq_word :: "int \<Rightarrow> u8 list" where
  "fq_word f = int_be 32 f"

definition push_g1 :: "g1 \<Rightarrow> u8 list" where
  "push_g1 pt = fq_word (fst pt) @ fq_word (snd pt)"

definition push_g2 :: "g2 \<Rightarrow> u8 list" where
  "push_g2 pt = (case pt of ((x0, x1), (y0, y1)) \<Rightarrow> fq_word x1 @ fq_word x0 @ fq_word y1 @ fq_word y0)"

definition proof_to_evm_calldata :: "(u8 list \<Rightarrow> (g1 \<times> g2 \<times> g1) option) \<Rightarrow> u8 list \<Rightarrow> u8 list option" where
  "proof_to_evm_calldata deserialize_compressed bytes =
     Option.bind (deserialize_compressed bytes) (\<lambda>(a, b, c). Some (push_g1 a @ push_g2 b @ push_g1 c))"

section \<open>Bytes and field elements\<close>

lemma be_int_append: "be_int (xs @ [b]) = be_int xs * 256 + uint b"
  by (simp add: be_int_def)

lemma be_int_nonneg: "0 \<le> be_int bs"
  by (induction bs rule: rev_induct) (simp_all add: be_int_append, simp add: be_int_def)

lemma be_int_less: "be_int bs < 256 ^ length bs"
proof (induction bs rule: rev_induct)
  case (snoc b bs)
  have "uint b < 256" using uint_lt2p [of b] by simp
  with snoc show ?case by (simp add: be_int_append)
qed (simp add: be_int_def)

lemma be_int_concat: "be_int (xs @ ys) = be_int xs * 256 ^ length ys + be_int ys"
proof (induction ys rule: rev_induct)
  case (snoc y ys)
  then show ?case
    unfolding append_assoc [symmetric] be_int_append by (simp add: algebra_simps)
qed (simp add: be_int_def)

lemma int_be_Suc: "int_be (Suc n) f = int_be n (f div 256) @ [word_of_int f]"
proof -
  have "map (\<lambda>i. word_of_int (f div 256 ^ (n - i)) :: u8) [0..<n]
      = map (\<lambda>i. word_of_int (f div 256 div 256 ^ (n - 1 - i))) [0..<n]"
  proof (rule map_cong [OF refl])
    fix i assume "i \<in> set [0..<n]"
    then have "n - i = Suc (n - 1 - i)" by auto
    then show "(word_of_int (f div 256 ^ (n - i)) :: u8) = word_of_int (f div 256 div 256 ^ (n - 1 - i))"
      by (simp add: zdiv_zmult2_eq)
  qed
  then show ?thesis by (simp add: int_be_def)
qed

lemma be_int_be: "0 \<le> f \<Longrightarrow> f < 256 ^ n \<Longrightarrow> be_int (int_be n f) = f"
proof (induction n arbitrary: f)
  case (Suc n)
  have "f div 256 < 256 ^ n" using Suc.prems by (simp add: div_less_iff_less_mult)
  moreover have "uint (word_of_int f :: u8) = f mod 256" by (simp add: uint_word_of_int)
  ultimately show ?case using Suc by (simp add: int_be_Suc be_int_append)
qed (simp add: be_int_def int_be_def)

lemma length_int_be [simp]: "length (int_be n f) = n"
  by (simp add: int_be_def)

lemma fr_round_trip: "\<lbrakk>0 \<le> f; f < p; p \<le> 2 ^ 256\<rbrakk> \<Longrightarrow> fr_from_bytes32 p (fr_to_bytes32 f) = f"
  by (simp add: fr_from_bytes32_def fr_to_bytes32_def be_int_be)

section \<open>The native weight against the payout library\<close>

lemma d_ppm_table_nth:
  assumes "v \<le> 64" and "0 < v"
  shows "d_ppm_table k ! unat (v - 1 :: u64) = d_ppm v k"
proof -
  have "1 \<le> v" using assms(2) by (simp add: word_le_nat_alt word_less_nat_alt)
  then have u: "unat (v - 1) = unat v - 1" by (simp add: unat_sub)
  have v: "unat v \<le> 64" "0 < unat v" using assms by (simp_all add: word_le_nat_alt word_less_nat_alt)
  then have "unat v - 1 < unat MAX_PLAYS_CIRCUIT" by (simp add: MAX_PLAYS_CIRCUIT_def)
  moreover have "(of_nat (unat v - 1) :: u64) + 1 = v"
    using v by (simp add: word_unat_eq_iff unat_of_nat take_bit_nat_eq_self flip: u)
  ultimately show ?thesis by (simp add: d_ppm_table_def u)
qed

definition circuit_plays :: "u64 \<Rightarrow> u64" where
  "circuit_plays plays = min (max plays 1) MAX_PLAYS_CIRCUIT"

lemma circuit_plays_range: "circuit_plays plays \<le> 64" "0 < circuit_plays plays"
  by (auto simp: circuit_plays_def MAX_PLAYS_CIRCUIT_def word_less_nat_alt unat_min unat_max)

lemma weight_of_def':
  "weight_of m plays pr rg k
     = (ucast m :: u128) * ucast pr * ucast rg * ucast (d_ppm (circuit_plays plays) k) div 1000000"
  using d_ppm_table_nth [OF circuit_plays_range, of k plays]
  by (simp add: weight_of_def Let_def circuit_plays_def)

lemma unat_product3:
  assumes "unat (m :: u64) * unat (pr :: u64) * unat (rg :: u64) < 2 ^ 128"
  shows "unat ((ucast m :: u128) * ucast pr * ucast rg) = unat m * unat pr * unat rg"
proof -
  have "unat m * unat pr < 2 ^ 64 * 2 ^ 64" by (intro mult_strict_mono u64_lt) auto
  then have "unat ((ucast m :: u128) * ucast pr) = unat m * unat pr"
    by (subst unat_mult_exact) (simp_all add: unat_u64_u128)
  with assms show ?thesis by (subst unat_mult_exact) (simp_all add: unat_u64_u128)
qed

lemma weight_of_nat:
  assumes "unat m * unat pr * unat rg * unat (d_ppm (circuit_plays plays) k) < 2 ^ 128"
    and "unat m * unat pr * unat rg < 2 ^ 128"
  shows "unat (weight_of m plays pr rg k)
       = unat m * unat pr * unat rg * unat (d_ppm (circuit_plays plays) k) div 1000000"
proof -
  have "unat ((ucast m :: u128) * ucast pr * ucast rg * ucast (d_ppm (circuit_plays plays) k))
      = unat m * unat pr * unat rg * unat (d_ppm (circuit_plays plays) k)"
    using assms(1) by (subst unat_mult_exact) (simp_all add: unat_u64_u128 unat_product3 [OF assms(2)])
  then show ?thesis by (simp add: weight_of_def' unat_div_distrib)
qed

lemma raw_of_usage_nat:
  "raw_of_usage k row = Inr raw \<Longrightarrow>
     unat (rr_raw raw) = unat (ur_minutes row) * unat (ur_price_ppm row) * unat (ur_region_ppm row)
       * unat (d_ppm (ur_plays row) k) div 1000000"
  by (auto simp: raw_of_usage_def res_bind_eq_Inr usage_value_Inr mul_div_Inr unat_u64_u128)

section \<open>Padding\<close>

lemma length_pad_to: "length xs \<le> n \<Longrightarrow> length (pad_to n x xs) = n"
  by (simp add: pad_to_def)

lemma map_pad_to: "map f (pad_to n x xs) = pad_to n (f x) (map f xs)"
  by (simp add: pad_to_def)

section \<open>Properties\<close>

text \<open>Field encodings are lossless: a field element below a modulus of at most 256 bits survives
  its 32-byte encoding.\<close>

theorem fr_bytes_round_trip:
  assumes "0 \<le> f" and "f < p" and "p \<le> 2 ^ 256"
  shows "length (fr_to_bytes32 f) = 32 \<and> fr_from_bytes32 p (fr_to_bytes32 f) = f"
  using fr_round_trip [OF assms] by (simp add: fr_to_bytes32_def)

theorem fr_bytes_round_trip_witness:
  "fr_from_bytes32 101 (fr_to_bytes32 77) = 77"
  using fr_bytes_round_trip [of 77 101] by simp

text \<open>The weight a prover claims is the weight the payout library computes: for at most 64 plays
  (zero counted as one) and products below \<open>2^128\<close>, \<open>weight_of\<close> equals the raw weight of the
  corresponding usage row.\<close>

theorem weight_of_matches_payouts:
  assumes "raw_of_usage k row = Inr raw" and "ur_plays row \<le> 64"
    and "unat (ur_minutes row) * unat (ur_price_ppm row) * unat (ur_region_ppm row) * 1000000 < 2 ^ 128"
  shows "weight_of (ur_minutes row) (ur_plays row) (ur_price_ppm row) (ur_region_ppm row) k = rr_raw raw"
proof -
  let ?v = "unat (ur_minutes row) * unat (ur_price_ppm row) * unat (ur_region_ppm row)"
  let ?d = "d_ppm (circuit_plays (ur_plays row)) k"
  have "unat ?d \<le> 1000000" using d_nat_le [of "unat k"] by (simp add: d_ppm_unat)
  then have "?v * unat ?d \<le> ?v * 1000000" by simp
  then have fits: "?v * unat ?d < 2 ^ 128" "?v < 2 ^ 128" using assms(3) by linarith+
  have "max (ur_plays row) 1 \<le> 64" using assms(2) by simp
  then have "circuit_plays (ur_plays row) = max (ur_plays row) 1"
    by (simp add: circuit_plays_def MAX_PLAYS_CIRCUIT_def min_absorb1)
  then have "unat ?d = unat (d_ppm (ur_plays row) k)" by (simp add: d_ppm_unat unat_max max.assoc)
  with weight_of_nat [OF fits] raw_of_usage_nat [OF assms(1)] show ?thesis
    by (simp add: word_unat_eq_iff)
qed

theorem weight_of_matches_payouts_witness:
  "\<exists>raw. raw_of_usage 1000000 \<lparr>ur_user = ''u'', ur_work = ''w'', ur_minutes = 30, ur_price_ppm = 1200000,
      ur_region_ppm = 900000, ur_plays = 2\<rparr> = Inr raw \<and> weight_of 30 2 1200000 900000 1000000 = rr_raw raw"
proof -
  let ?row = "\<lparr>ur_user = ''u'', ur_work = ''w'', ur_minutes = 30, ur_price_ppm = 1200000,
      ur_region_ppm = 900000, ur_plays = 2\<rparr>"
  have "is_ok (raw_of_usage 1000000 ?row)" by code_simp
  then obtain raw where raw: "raw_of_usage 1000000 ?row = Inr raw" by (auto simp: is_ok_iff)
  from weight_of_matches_payouts [OF raw] raw show ?thesis by simp
qed

text \<open>The native weight wraps inside the circuit's own ranges: for \<open>2^31\<close> minutes at price and
  region factors of \<open>2^39\<close>, all within the 32 and 40 bits the circuit allows, the payout library
  computes \<open>2^109\<close> and \<open>weight_of\<close> a different value.\<close>

theorem weight_of_wraps_in_range:
  "raw_of_usage 1000000 \<lparr>ur_user = ''u'', ur_work = ''w'', ur_minutes = 2 ^ 31, ur_price_ppm = 2 ^ 39,
      ur_region_ppm = 2 ^ 39, ur_plays = 1\<rparr> = Inr \<lparr>rr_user = ''u'', rr_work = ''w'', rr_raw = 2 ^ 109\<rparr>
   \<and> weight_of (2 ^ 31) 1 (2 ^ 39) (2 ^ 39) 1000000 \<noteq> 2 ^ 109"
proof
  show "raw_of_usage 1000000 \<lparr>ur_user = ''u'', ur_work = ''w'', ur_minutes = 2 ^ 31, ur_price_ppm = 2 ^ 39,
      ur_region_ppm = 2 ^ 39, ur_plays = 1\<rparr> = Inr \<lparr>rr_user = ''u'', rr_work = ''w'', rr_raw = 2 ^ 109\<rparr>"
    by code_simp
  have "circuit_plays 1 = 1" by (simp add: circuit_plays_def MAX_PLAYS_CIRCUIT_def)
  moreover have "d_ppm 1 1000000 = 1000000" by code_simp
  ultimately show "weight_of (2 ^ 31) 1 (2 ^ 39) (2 ^ 39) 1000000 \<noteq> 2 ^ 109"
    by (simp add: weight_of_def')
qed

text \<open>Off-chain verifiers recompute the prover's digest. The bundle of a successful proof has
  exactly \<open>MAX_WORKS\<close> rows, the real ones first, and recomputing the digest from those real rows
  alone gives the digest the proof binds.\<close>

theorem digest_from_active_agrees:
  assumes "prove p poseidon_hash gp ser pk epoch tier k_epoch k_ppm inputs = Inr b"
  shows "length (pb_rows b) = MAX_WORKS
       \<and> take (length inputs) (pb_rows b) = map (\<lambda>i. public_row_of (active_row p poseidon_hash k_epoch k_ppm i)) inputs
       \<and> digest_from_active p poseidon_hash epoch tier k_epoch (take (length inputs) (pb_rows b)) = Inr (pb_digest b)"
proof -
  let ?act = "map (\<lambda>i. public_row_of (active_row p poseidon_hash k_epoch k_ppm i)) inputs"
  let ?pad = "public_row_of (padded_row p poseidon_hash k_epoch)"
  from assms have len: "length inputs \<le> MAX_WORKS"
    and rows: "pb_rows b = pad_to MAX_WORKS ?pad ?act"
    and dg: "pb_digest b = digest p poseidon_hash epoch tier k_epoch (pb_rows b)"
    by (auto simp: prove_def prove_circuit_def Let_def res_bind_eq_Inr map_pad_to comp_def split: if_splits)
  from len have "take (length inputs) (pb_rows b) = ?act" by (simp add: rows pad_to_def)
  moreover from len have "length (pb_rows b) = MAX_WORKS" by (simp add: rows length_pad_to)
  ultimately show ?thesis using len dg by (simp add: digest_from_active_def Let_def flip: rows)
qed

theorem digest_from_active_agrees_witness:
  "\<exists>b. prove 101 sum_list (\<lambda>_ _. Inr ()) (\<lambda>_. Inr [1]) () 3 [] [5] 1000000
      [\<lparr>ri_work_id = [9], ri_minutes = 4, ri_plays = 1, ri_salt = [], ri_price_ppm = 10, ri_region_ppm = 10\<rparr>] = Inr b
    \<and> digest_from_active 101 sum_list 3 [] [5] (take 1 (pb_rows b)) = Inr (pb_digest b)"
proof -
  let ?i = "[\<lparr>ri_work_id = [9], ri_minutes = 4, ri_plays = 1, ri_salt = [], ri_price_ppm = 10, ri_region_ppm = 10\<rparr>]"
  have "is_ok (prove 101 sum_list (\<lambda>_ _. Inr ()) (\<lambda>_. Inr [1]) () 3 [] [5] 1000000 ?i)"
    by (simp add: prove_def MAX_WORKS_def Let_def)
  then obtain b where b: "prove 101 sum_list (\<lambda>_ _. Inr ()) (\<lambda>_. Inr [1]) () 3 [] [5] 1000000 ?i = Inr b"
    by (auto simp: is_ok_iff)
  have one: "length ?i = 1" by simp
  from digest_from_active_agrees [OF b, unfolded one]
  have "digest_from_active 101 sum_list 3 [] [5] (take 1 (pb_rows b)) = Inr (pb_digest b)" by blast
  with b show ?thesis by blast
qed

text \<open>A submission with more than sixteen real rows is refused on both sides with
  \<open>TooManyWorks\<close>, and no other size is refused by the digest recomputation.\<close>

theorem too_many_works:
  "(digest_from_active p poseidon_hash epoch tier k_epoch active = Inl TooManyWorks
      \<longleftrightarrow> 16 < length active)
   \<and> (prove p poseidon_hash gp ser pk epoch tier k_epoch k_ppm inputs = Inl TooManyWorks
      \<longleftrightarrow> 16 < length inputs)"
  by (auto simp: digest_from_active_def prove_def MAX_WORKS_def Let_def res_bind_def map_err_def
      split: if_splits sum.splits)

end
