(* ===== verification/Circuit.thy ===== *)
theory Circuit
  imports Zk
begin

text \<open>
  The usage-proof constraint system of \<open>libs/zk-circuits/src/circuit.rs\<close>. A constraint system is
  the predicate its constraints put on the values of its variables: \<open>row_vars\<close> are the variables
  one row allocates, any field elements a prover may choose, and \<open>enforce_row\<close> holds when every
  constraint of the row does. \<open>assign_row\<close> and \<open>circuit_satisfied\<close> give the values the code's own
  closures assign from a \<open>RowWitness\<close>. A field variable is an integer in \<open>[0, p)\<close>; a
  conditional equality is an implication; \<open>to_bits_le\<close> followed by the recomposition of the low
  \<open>n\<close> bits is the value modulo \<open>2^n\<close>; a witnessed Boolean is a truth value. What the soundness
  lemmas use of the modulus is \<open>2^253 < p\<close>.
\<close>

definition MINUTES_BITS :: nat where "MINUTES_BITS = 32"
definition PLAYS_BITS :: nat where "PLAYS_BITS = 7"
definition PPM_BITS :: nat where "PPM_BITS = 40"
definition WEIGHT_BITS :: nat where "WEIGHT_BITS = 120"
definition PPM_SCALE :: u128 where "PPM_SCALE = 1000000"
definition K_PPM_CIRCUIT :: u64 where "K_PPM_CIRCUIT = 1000000"
definition REMAINDER_BITS :: nat where "REMAINDER_BITS = 20"

record row_vars =
  rv_active :: bool
  rv_work_id :: fr
  rv_salt :: fr
  rv_commitment :: fr
  rv_pseudonym :: fr
  rv_minutes :: fr
  rv_plays :: fr
  rv_price :: fr
  rv_region :: fr
  rv_weight :: fr
  rv_selectors :: "bool list"
  rv_r :: fr

definition enforce_bit_width :: "fr \<Rightarrow> nat \<Rightarrow> bool \<Rightarrow> bool" where
  "enforce_bit_width value n_bits guard \<longleftrightarrow> (guard \<longrightarrow> value = value mod 2 ^ n_bits)"

definition selector_sums :: "int \<Rightarrow> u64 list \<Rightarrow> bool list \<Rightarrow> fr \<times> fr \<times> fr" where
  "selector_sums p table selectors =
     foldl (\<lambda>(sum_sel, sum_idx, d) (i, s).
         let s_fp = (if s then 1 else 0);
             idx_c = fr_from_u128 p (of_nat i);
             tab_c = fr_from_u128 p (ucast (table ! i))
         in ((sum_sel + s_fp) mod p, (sum_idx + s_fp * idx_c) mod p, (d + s_fp * tab_c) mod p))
       (0, 0, 0) (enumerate 0 selectors)"

definition enforce_dr_weight :: "int \<Rightarrow> row_vars \<Rightarrow> bool" where
  "enforce_dr_weight p v =
     (let table = d_ppm_table K_PPM_CIRCUIT;
          (sum_sel, sum_idx, d_var) = selector_sums p table (rv_selectors v);
          plays_minus_one = (rv_plays v - 1) mod p;
          value_var = rv_minutes v * rv_price v mod p * rv_region v mod p;
          scale = fr_from_u128 p PPM_SCALE;
          lhs = (rv_weight v * scale + rv_r v) mod p;
          rhs = value_var * d_var mod p;
          r_slack = (fr_from_u128 p (PPM_SCALE - 1) - rv_r v) mod p
      in (rv_active v \<longrightarrow> sum_sel = 1 mod p)
       \<and> (rv_active v \<longrightarrow> sum_idx = plays_minus_one)
       \<and> (rv_active v \<longrightarrow> lhs = rhs)
       \<and> enforce_bit_width (rv_r v) REMAINDER_BITS (rv_active v)
       \<and> enforce_bit_width r_slack REMAINDER_BITS (rv_active v))"

definition padded_commitment :: "int \<Rightarrow> (fr list \<Rightarrow> fr) \<Rightarrow> b32" where
  "padded_commitment p poseidon_hash = commitment p poseidon_hash (replicate 32 0) 0 0 (replicate 32 0)"

definition enforce_row :: "int \<Rightarrow> (fr list \<Rightarrow> fr) \<Rightarrow> fr \<Rightarrow> row_vars \<Rightarrow> bool" where
  "enforce_row p poseidon_hash k_epoch_var v =
     (let active = rv_active v; inactive = (\<not> rv_active v);
          computed_commitment = poseidon_hash [rv_work_id v, rv_minutes v, rv_plays v, rv_salt v];
          plays_slack = (fr_from_u128 p (ucast MAX_PLAYS_CIRCUIT) - rv_plays v) mod p;
          derived_pseudonym = poseidon_hash [k_epoch_var, rv_commitment v];
          padded_c = fr_from_bytes32 p (padded_commitment p poseidon_hash);
          padded_p = poseidon_hash [k_epoch_var, padded_c]
      in (active \<longrightarrow> rv_commitment v = computed_commitment)
       \<and> enforce_bit_width (rv_minutes v) MINUTES_BITS active
       \<and> enforce_bit_width (rv_plays v) PLAYS_BITS active
       \<and> enforce_bit_width (rv_price v) PPM_BITS active
       \<and> enforce_bit_width (rv_region v) PPM_BITS active
       \<and> enforce_bit_width plays_slack PLAYS_BITS active
       \<and> (active \<longrightarrow> rv_work_id v \<noteq> 0)
       \<and> enforce_dr_weight p v
       \<and> enforce_bit_width (rv_weight v) WEIGHT_BITS active
       \<and> (active \<longrightarrow> rv_pseudonym v = derived_pseudonym)
       \<and> (inactive \<longrightarrow> rv_work_id v = 0)
       \<and> (inactive \<longrightarrow> rv_weight v = 0)
       \<and> (inactive \<longrightarrow> rv_commitment v = padded_c)
       \<and> (inactive \<longrightarrow> rv_pseudonym v = padded_p))"

definition unique_works :: "row_vars list \<Rightarrow> bool" where
  "unique_works rows \<longleftrightarrow>
     (\<forall>i \<in> set [0..<length rows]. \<forall>j \<in> set [Suc i..<length rows].
        \<not> (rv_active (rows ! i) \<and> rv_active (rows ! j) \<and> rv_work_id (rows ! i) = rv_work_id (rows ! j)))"

definition digest_preimage :: "fr \<Rightarrow> fr \<Rightarrow> fr \<Rightarrow> row_vars list \<Rightarrow> fr list" where
  "digest_preimage epoch_var tier_var k_epoch_var rows =
     [epoch_var, tier_var, k_epoch_var]
     @ concat (map (\<lambda>v. [rv_pseudonym v, rv_work_id v, rv_weight v]) rows)"

text \<open>
  The whole system over its variables; the first argument is the public input. A row count
  other than \<open>MAX_WORKS\<close> is \<open>SynthesisError::Unsatisfiable\<close>.
\<close>

definition generate_constraints ::
    "int \<Rightarrow> (fr list \<Rightarrow> fr) \<Rightarrow> fr \<Rightarrow> fr \<Rightarrow> fr \<Rightarrow> fr \<Rightarrow> row_vars list \<Rightarrow> bool" where
  "generate_constraints p poseidon_hash digest_var k_epoch_var epoch_var tier_var rows \<longleftrightarrow>
     length rows = MAX_WORKS
     \<and> list_all (enforce_row p poseidon_hash k_epoch_var) rows
     \<and> unique_works rows
     \<and> digest_var = poseidon_hash (digest_preimage epoch_var tier_var k_epoch_var rows)"

section \<open>The values the code assigns\<close>

definition assign_row :: "int \<Rightarrow> row_witness \<Rightarrow> row_vars" where
  "assign_row p row =
     (let table = d_ppm_table K_PPM_CIRCUIT;
          hot = unat (min (max (rw_plays row) 1) MAX_PLAYS_CIRCUIT - 1);
          value_native = (ucast (rw_minutes row) :: u128) * ucast (rw_price_ppm row) * ucast (rw_region_ppm row);
          d_native = (ucast (table ! hot) :: u128);
          r_native = (value_native mod PPM_SCALE) * (d_native mod PPM_SCALE) mod PPM_SCALE
      in \<lparr>rv_active = rw_active row,
          rv_work_id = fr_from_bytes32 p (rw_work_id row),
          rv_salt = fr_from_bytes32 p (rw_salt row),
          rv_commitment = fr_from_bytes32 p (rw_commitment row),
          rv_pseudonym = fr_from_bytes32 p (rw_pseudonym row),
          rv_minutes = fr_from_u128 p (ucast (rw_minutes row)),
          rv_plays = fr_from_u128 p (ucast (rw_plays row)),
          rv_price = fr_from_u128 p (ucast (rw_price_ppm row)),
          rv_region = fr_from_u128 p (ucast (rw_region_ppm row)),
          rv_weight = fr_from_u128 p (rw_weight row),
          rv_selectors = map (\<lambda>i. i = hot) [0..<unat MAX_PLAYS_CIRCUIT],
          rv_r = fr_from_u128 p r_native\<rparr>)"

definition circuit_satisfied :: "int \<Rightarrow> (fr list \<Rightarrow> fr) \<Rightarrow> usage_circuit \<Rightarrow> bool" where
  "circuit_satisfied p poseidon_hash c =
     generate_constraints p poseidon_hash (fr_from_bytes32 p (uc_digest c)) (fr_from_bytes32 p (uc_k_epoch c))
       (fr_from_u128 p (ucast (uc_epoch c))) (fr_from_bytes32 p (uc_tier c)) (map (assign_row p) (uc_rows c))"

section \<open>Arithmetic in the field\<close>

definition field_row :: "int \<Rightarrow> row_vars \<Rightarrow> bool" where
  "field_row p v \<longleftrightarrow>
     list_all (\<lambda>x. 0 \<le> x \<and> x < p)
       [rv_work_id v, rv_salt v, rv_commitment v, rv_pseudonym v, rv_minutes v, rv_plays v,
        rv_price v, rv_region v, rv_weight v, rv_r v]
     \<and> length (rv_selectors v) = 64"

lemma bit_width_iff: "0 \<le> x \<Longrightarrow> enforce_bit_width x n True \<longleftrightarrow> x < 2 ^ n"
  by (auto simp: enforce_bit_width_def) (metis pos_mod_bound zero_less_numeral zero_less_power)

lemma bit_width_False [simp]: "enforce_bit_width x n False"
  by (simp add: enforce_bit_width_def)

lemma fr_u128_exact: "uint v < p \<Longrightarrow> fr_from_u128 p v = uint v"
  by (simp add: fr_from_u128_def)

lemma uint_of_nat_small: "i < 2 ^ LENGTH('l) \<Longrightarrow> uint (of_nat i :: 'l::len word) = int i"
  by (simp add: unsigned_of_nat take_bit_nat_eq_self)

lemma uint_u64_u128: "uint (ucast (x :: u64) :: u128) = uint x"
  by (metis uint_nat unat_u64_u128)

definition sel_count :: "bool list \<Rightarrow> int" where
  "sel_count s = (\<Sum>i<length s. if s ! i then 1 else 0)"

definition sel_index :: "bool list \<Rightarrow> int" where
  "sel_index s = (\<Sum>i<length s. if s ! i then int i else 0)"

definition sel_value :: "u64 list \<Rightarrow> bool list \<Rightarrow> int" where
  "sel_value t s = (\<Sum>i<length s. if s ! i then uint (t ! i) else 0)"

lemma sel_append:
  "sel_count (s @ [b]) = sel_count s + (if b then 1 else 0)"
  "sel_index (s @ [b]) = sel_index s + (if b then int (length s) else 0)"
  "sel_value t (s @ [b]) = sel_value t s + (if b then uint (t ! length s) else 0)"
  by (simp_all add: sel_count_def sel_index_def sel_value_def nth_append)

lemma sel_bounds:
  "0 \<le> sel_count s" "sel_count s \<le> int (length s)"
  "0 \<le> sel_index s" "sel_index s \<le> int (length s) * int (length s)"
  "0 \<le> sel_value t s" "sel_value t s \<le> int (length s) * 2 ^ 64"
proof -
  have v: "uint (t ! i) \<le> 2 ^ 64" for i using uint_lt2p [of "t ! i"] by simp
  show "0 \<le> sel_count s" "0 \<le> sel_index s" "0 \<le> sel_value t s"
    by (auto simp: sel_count_def sel_index_def sel_value_def intro!: sum_nonneg)
  have "sel_count s \<le> (\<Sum>i<length s. 1)" unfolding sel_count_def by (rule sum_mono) simp
  then show "sel_count s \<le> int (length s)" by simp
  have "sel_index s \<le> (\<Sum>i<length s. int (length s))" unfolding sel_index_def by (rule sum_mono) simp
  then show "sel_index s \<le> int (length s) * int (length s)" by simp
  have "sel_value t s \<le> (\<Sum>i<length s. 2 ^ 64)" unfolding sel_value_def
    by (rule sum_mono) (use v in auto)
  then show "sel_value t s \<le> int (length s) * 2 ^ 64" by simp
qed

lemma selector_sums_exact:
  assumes "length s \<le> 64" and "2 ^ 253 < p"
  shows "selector_sums p t s = (sel_count s, sel_index s, sel_value t s)"
  using assms(1)
proof (induction s rule: rev_induct)
  case Nil
  then show ?case by (simp add: selector_sums_def sel_count_def sel_index_def sel_value_def)
next
  case (snoc b s)
  let ?n = "length s"
  have n: "?n < 64" using snoc.prems by simp
  have idx: "fr_from_u128 p (of_nat ?n) = int ?n"
    using n assms(2) by (subst fr_u128_exact) (simp_all add: uint_of_nat_small)
  have "uint (t ! ?n) < 2 ^ 64" using uint_lt2p [of "t ! ?n"] by simp
  then have tab: "fr_from_u128 p (ucast (t ! ?n)) = uint (t ! ?n)"
    using assms(2) by (subst fr_u128_exact) (simp_all add: uint_u64_u128)
  have sq: "int (Suc ?n) * int (Suc ?n) \<le> 64 * 64" by (rule mult_mono) (use n in simp_all)
  have b: "sel_count (s @ [b]) \<le> 64" "sel_index (s @ [b]) \<le> 64 * 64" "sel_value t (s @ [b]) \<le> 64 * 2 ^ 64"
    using sel_bounds(2) [of "s @ [b]"] sel_bounds(4) [of "s @ [b]"] sel_bounds(6) [of t "s @ [b]"] n sq
    by simp_all
  have m: "sel_count (s @ [b]) mod p = sel_count (s @ [b])" "sel_index (s @ [b]) mod p = sel_index (s @ [b])"
    "sel_value t (s @ [b]) mod p = sel_value t (s @ [b])"
    using b sel_bounds(1) [of "s @ [b]"] sel_bounds(3) [of "s @ [b]"] sel_bounds(5) [of t "s @ [b]"] assms(2) by simp_all
  have "selector_sums p t (s @ [b]) = (sel_count (s @ [b]) mod p, sel_index (s @ [b]) mod p, sel_value t (s @ [b]) mod p)"
    using snoc by (simp add: selector_sums_def enumerate_append_eq idx tab Let_def sel_append)
  then show ?case by (simp only: m)
qed

text \<open>A count of one makes the selector one-hot.\<close>

lemma one_hot:
  assumes "sel_count s = 1"
  obtains i where "i < length s" and "sel_index s = int i" and "sel_value t s = uint (t ! i)"
proof -
  have "sel_count s = int (card {i \<in> {..<length s}. s ! i})"
    unfolding sel_count_def by (simp add: sum.If_cases Int_def)
  with assms have "card {i \<in> {..<length s}. s ! i} = 1" by simp
  then obtain i where i: "{i \<in> {..<length s}. s ! i} = {i}" by (auto simp: card_1_singleton_iff)
  have conv: "(\<Sum>j<length s. if s ! j then f j else 0) = f i" for f :: "nat \<Rightarrow> int"
  proof -
    have "(\<Sum>j<length s. if s ! j then f j else 0) = sum f {j \<in> {..<length s}. s ! j}"
      by (simp add: sum.If_cases Int_def)
    then show ?thesis unfolding i by simp
  qed
  from i have "i < length s" by auto
  then show thesis by (rule that) (simp_all add: sel_index_def sel_value_def conv)
qed

section \<open>Soundness of one row\<close>

lemma table_entry:
  "i < 64 \<Longrightarrow> d_ppm_table k ! i = d_ppm (of_nat i + 1) k"
  by (simp add: d_ppm_table_def MAX_PLAYS_CIRCUIT_def)

lemma d_ppm_le: "uint (d_ppm v k) \<le> 1000000"
proof -
  have "d_ppm v k \<le> 1000000" using d_nat_le [of "unat k"] by (simp add: word_le_nat_alt d_ppm_unat)
  then show ?thesis by (simp add: word_le_def)
qed

text \<open>The products of bounded factors stay below the modulus, so the field equation of the proven
  division is an equation of integers.\<close>

lemma division_exact:
  fixes p w r vl d :: int
  assumes "2 ^ 253 < p" and "0 \<le> w" "w < 2 ^ 120" and "0 \<le> r" "r < 1000000"
    and "0 \<le> vl" "vl < 2 ^ 112" and "0 \<le> d" "d \<le> 1000000"
    and "(w * 1000000 + r) mod p = vl * d mod p"
  shows "w = vl * d div 1000000"
proof -
  have "vl * d \<le> 2 ^ 112 * 1000000" using assms(6-9) by (intro mult_mono) simp_all
  then have "vl * d < p" using assms(1) by simp
  moreover have "0 \<le> vl * d" using assms(6,8) by simp
  moreover have "w * 1000000 + r < p" "0 \<le> w * 1000000 + r" using assms(1-5) by simp_all
  ultimately have "w * 1000000 + r = vl * d" using assms(10) by simp
  then have "vl * d div 1000000 = (w * 1000000 + r) div 1000000" by simp
  also have "\<dots> = w" using assms(4,5) by simp
  finally show ?thesis by simp
qed

lemma product_bound:
  fixes m pr rg :: int
  assumes "0 \<le> m" "m < 2 ^ 32" "0 \<le> pr" "pr < 2 ^ 40" "0 \<le> rg" "rg < 2 ^ 40"
  shows "0 \<le> m * pr * rg" "m * pr * rg < 2 ^ 112" "m * pr < 2 ^ 72"
proof -
  show "0 \<le> m * pr * rg" using assms by simp
  have "m * pr \<le> (2 ^ 32 - 1) * (2 ^ 40 - 1)" using assms by (intro mult_mono) simp_all
  then show mp: "m * pr < 2 ^ 72" by simp
  then have "m * pr * rg \<le> (2 ^ 72 - 1) * (2 ^ 40 - 1)" using assms by (intro mult_mono) simp_all
  then show "m * pr * rg < 2 ^ 112" by simp
qed

lemma dr_weight_sound:
  assumes big: "2 ^ 253 < p" and fld: "field_row p v" and act: "rv_active v" and dr: "enforce_dr_weight p v"
    and "rv_minutes v < 2 ^ 32" and "rv_price v < 2 ^ 40" and "rv_region v < 2 ^ 40"
    and "rv_plays v \<le> 64" and "rv_weight v < 2 ^ 120"
  shows "1 \<le> rv_plays v \<and> rv_weight v
       = rv_minutes v * rv_price v * rv_region v * uint (d_ppm (word_of_int (rv_plays v)) 1000000) div 1000000"
proof -
  let ?t = "d_ppm_table K_PPM_CIRCUIT" and ?s = "rv_selectors v"
  have nn: "0 \<le> rv_minutes v" "0 \<le> rv_plays v" "0 \<le> rv_price v" "0 \<le> rv_region v" "0 \<le> rv_weight v"
      "0 \<le> rv_r v" "rv_r v < p" and len: "length ?s = 64"
    using fld by (simp_all add: field_row_def)
  have sums: "selector_sums p ?t ?s = (sel_count ?s, sel_index ?s, sel_value ?t ?s)"
    using len big by (intro selector_sums_exact) simp_all
  have sc: "fr_from_u128 p PPM_SCALE = 1000000" "fr_from_u128 p (PPM_SCALE - 1) = 999999"
    using big by (simp_all add: fr_from_u128_def PPM_SCALE_def)
  from dr act sums sc have one: "sel_count ?s = 1 mod p"
    and idx: "sel_index ?s = (rv_plays v - 1) mod p"
    and eq: "(rv_weight v * 1000000 + rv_r v) mod p
        = rv_minutes v * rv_price v mod p * rv_region v mod p * sel_value ?t ?s mod p"
    and r20: "enforce_bit_width (rv_r v) 20 True"
    and slack: "enforce_bit_width ((999999 - rv_r v) mod p) 20 True"
    by (simp_all add: enforce_dr_weight_def Let_def REMAINDER_BITS_def)
  have "sel_count ?s = 1" using one big by simp
  then obtain i where i: "i < 64" and si: "sel_index ?s = int i" and sv: "sel_value ?t ?s = uint (?t ! i)"
    using one_hot [of ?s] len by metis
  have plays: "rv_plays v = int i + 1"
  proof (cases "rv_plays v = 0")
    case True
    then have "(rv_plays v - 1) mod p = p - 1" using big by (simp add: zmod_minus1)
    with idx si i big show ?thesis by simp
  next
    case False
    then have "(rv_plays v - 1) mod p = rv_plays v - 1" using nn assms(8) big by simp
    with idx si show ?thesis by simp
  qed
  have "d_ppm (word_of_int (rv_plays v)) 1000000 = ?t ! i"
    using table_entry [OF i, of K_PPM_CIRCUIT] by (simp add: plays K_PPM_CIRCUIT_def)
  with sv have d: "sel_value ?t ?s = uint (d_ppm (word_of_int (rv_plays v)) 1000000)" by simp
  note pb = product_bound [OF nn(1) assms(5) nn(3) assms(6) nn(4) assms(7)]
  have "rv_minutes v * rv_price v mod p = rv_minutes v * rv_price v"
    using pb(3) nn big by simp
  then have val: "rv_minutes v * rv_price v mod p * rv_region v mod p = rv_minutes v * rv_price v * rv_region v"
    using pb(1,2) big by simp
  have r: "rv_r v < 1000000"
  proof (rule ccontr)
    assume ge: "\<not> rv_r v < 1000000"
    have "rv_r v < 2 ^ 20" using r20 nn by (simp add: bit_width_iff)
    with ge big have "(999999 - rv_r v + p) mod p = 999999 - rv_r v + p"
      by (intro mod_pos_pos_trivial) simp_all
    then have "(999999 - rv_r v) mod p = 999999 - rv_r v + p" by simp
    moreover have "(999999 - rv_r v) mod p < 2 ^ 20"
      using slack big by (subst (asm) bit_width_iff) simp_all
    ultimately show False using \<open>rv_r v < 2 ^ 20\<close> big by simp
  qed
  have "rv_weight v = rv_minutes v * rv_price v * rv_region v * sel_value ?t ?s div 1000000"
    using eq val by (intro division_exact [OF big nn(5) assms(9) nn(6) r pb(1,2)])
      (simp_all add: d d_ppm_le)
  with d plays show ?thesis by simp
qed

lemma plays_in_table:
  assumes "2 ^ 253 < p" and "0 \<le> x" "x < 2 ^ 7"
    and "enforce_bit_width ((fr_from_u128 p (ucast MAX_PLAYS_CIRCUIT) - x) mod p) 7 True"
  shows "x \<le> 64"
proof (rule ccontr)
  assume gt: "\<not> x \<le> 64"
  have c: "fr_from_u128 p (ucast MAX_PLAYS_CIRCUIT) = 64"
    using assms(1) by (simp add: fr_from_u128_def MAX_PLAYS_CIRCUIT_def)
  have "(64 - x + p) mod p = 64 - x + p" using gt assms(1-3) by (intro mod_pos_pos_trivial) simp_all
  then have "(64 - x) mod p = 64 - x + p" by simp
  moreover have "(64 - x) mod p < 2 ^ 7"
    using assms(1,4) by (subst (asm) bit_width_iff) (simp_all add: c)
  ultimately show False using assms(1-3) by simp
qed

text \<open>What an accepted active row states about its variables.\<close>

definition row_statement :: "(fr list \<Rightarrow> fr) \<Rightarrow> fr \<Rightarrow> row_vars \<Rightarrow> bool" where
  "row_statement poseidon_hash k_epoch_var v \<longleftrightarrow>
     rv_work_id v \<noteq> 0 \<and> 1 \<le> rv_plays v \<and> rv_plays v \<le> 64
   \<and> rv_minutes v < 2 ^ 32 \<and> rv_price v < 2 ^ 40 \<and> rv_region v < 2 ^ 40
   \<and> rv_commitment v = poseidon_hash [rv_work_id v, rv_minutes v, rv_plays v, rv_salt v]
   \<and> rv_pseudonym v = poseidon_hash [k_epoch_var, rv_commitment v]
   \<and> rv_weight v = rv_minutes v * rv_price v * rv_region v
        * uint (d_ppm (word_of_int (rv_plays v)) 1000000) div 1000000"

lemma enforce_row_sound:
  assumes big: "2 ^ 253 < p" and fld: "field_row p v" and act: "rv_active v"
    and row: "enforce_row p poseidon_hash k v"
  shows "row_statement poseidon_hash k v"
proof -
  have nn: "0 \<le> rv_minutes v" "0 \<le> rv_plays v" "0 \<le> rv_price v" "0 \<le> rv_region v" "0 \<le> rv_weight v"
    using fld by (simp_all add: field_row_def)
  from row act have id: "rv_work_id v \<noteq> 0"
    and com: "rv_commitment v = poseidon_hash [rv_work_id v, rv_minutes v, rv_plays v, rv_salt v]"
    and ps: "rv_pseudonym v = poseidon_hash [k, rv_commitment v]"
    and dr: "enforce_dr_weight p v"
    and bits: "enforce_bit_width (rv_minutes v) 32 True" "enforce_bit_width (rv_plays v) 7 True"
      "enforce_bit_width (rv_price v) 40 True" "enforce_bit_width (rv_region v) 40 True"
      "enforce_bit_width (rv_weight v) 120 True"
    and slack: "enforce_bit_width ((fr_from_u128 p (ucast MAX_PLAYS_CIRCUIT) - rv_plays v) mod p) 7 True"
    by (simp_all add: enforce_row_def Let_def MINUTES_BITS_def PLAYS_BITS_def PPM_BITS_def WEIGHT_BITS_def)
  from bits nn have lt: "rv_minutes v < 2 ^ 32" "rv_plays v < 2 ^ 7" "rv_price v < 2 ^ 40"
      "rv_region v < 2 ^ 40" "rv_weight v < 2 ^ 120"
    by (simp_all only: bit_width_iff)
  have plays: "rv_plays v \<le> 64" by (rule plays_in_table [OF big nn(2) lt(2) slack])
  from dr_weight_sound [OF big fld act dr lt(1,3,4) plays lt(5)] id com ps lt plays
  show ?thesis by (simp add: row_statement_def)
qed

lemma unique_works_distinct:
  assumes "unique_works rows"
  shows "distinct (map rv_work_id (List.filter rv_active rows))"
proof -
  have "sorted_wrt (\<lambda>a b. \<not> (rv_active a \<and> rv_active b \<and> rv_work_id a = rv_work_id b)) rows"
    using assms by (auto simp: sorted_wrt_iff_nth_less unique_works_def)
  then show ?thesis by (induction rows) auto
qed

lemma distinct_unique_works:
  assumes "distinct (map rv_work_id (List.filter rv_active rows))"
  shows "unique_works rows"
proof -
  from assms have "sorted_wrt (\<lambda>a b. \<not> (rv_active a \<and> rv_active b \<and> rv_work_id a = rv_work_id b)) rows"
  proof (induction rows)
    case (Cons a rows)
    then show ?case by (cases "rv_active a") auto
  qed simp
  then show ?thesis by (auto simp: sorted_wrt_iff_nth_less unique_works_def)
qed

section \<open>Completeness\<close>

text \<open>The inputs an honest prover can prove: every factor in its range, at least one play, a work id
  that is not zero in the field, and a product the native weight does not wrap on.\<close>

definition provable_input :: "int \<Rightarrow> usage_row_input \<Rightarrow> bool" where
  "provable_input p i \<longleftrightarrow>
     unat (ri_minutes i) < 2 ^ 32 \<and> unat (ri_price_ppm i) < 2 ^ 40 \<and> unat (ri_region_ppm i) < 2 ^ 40
   \<and> 1 \<le> ri_plays i \<and> ri_plays i \<le> 64 \<and> fr_from_bytes32 p (ri_work_id i) \<noteq> 0
   \<and> unat (ri_minutes i) * unat (ri_price_ppm i) * unat (ri_region_ppm i) * 1000000 < 2 ^ 128"

lemma one_hot_sums:
  assumes "h < 64"
  shows "sel_count (map (\<lambda>i. i = h) [0..<64]) = 1"
    and "sel_index (map (\<lambda>i. i = h) [0..<64]) = int h"
    and "sel_value t (map (\<lambda>i. i = h) [0..<64]) = uint (t ! h)"
proof -
  have d: "(\<Sum>i<64. if map (\<lambda>i. i = h) [0..<64] ! i then f i else 0) = f h" for f :: "nat \<Rightarrow> int"
  proof -
    have "(\<Sum>i<64. if map (\<lambda>i. i = h) [0..<64] ! i then f i else 0) = (\<Sum>i<64. if i = h then f i else 0)"
      by (rule sum.cong) simp_all
    then show ?thesis using assms by (simp add: sum.delta')
  qed
  show "sel_count (map (\<lambda>i. i = h) [0..<64]) = 1" "sel_index (map (\<lambda>i. i = h) [0..<64]) = int h"
    "sel_value t (map (\<lambda>i. i = h) [0..<64]) = uint (t ! h)"
    using assms d by (simp_all add: sel_count_def sel_index_def sel_value_def)
qed

lemma fr_in_field: "0 < p \<Longrightarrow> 0 \<le> fr_from_bytes32 p b \<and> fr_from_bytes32 p b < p"
  by (simp add: fr_from_bytes32_def)

lemma fr_u64: "2 ^ 253 < p \<Longrightarrow> fr_from_u128 p (ucast (x :: u64)) = uint x"
  using uint_lt2p [of x] by (simp add: fr_from_u128_def uint_u64_u128)

lemma fr_u128_nat: "2 ^ 253 < p \<Longrightarrow> fr_from_u128 p x = int (unat x)"
  using uint_lt2p [of x] by (simp add: fr_from_u128_def)

lemma fr_ppm: "2 ^ 253 < p \<Longrightarrow> fr_from_u128 p PPM_SCALE = 1000000"
  "2 ^ 253 < p \<Longrightarrow> fr_from_u128 p (PPM_SCALE - 1) = 999999"
  by (simp_all add: fr_from_u128_def PPM_SCALE_def)

lemma remainder_exact:
  fixes v d :: u128
  shows "unat (v mod PPM_SCALE * (d mod PPM_SCALE) mod PPM_SCALE) = unat v * unat d mod 1000000"
proof -
  have s: "unat PPM_SCALE = 1000000" by (simp add: PPM_SCALE_def)
  have "unat (v mod PPM_SCALE) < 1000000" "unat (d mod PPM_SCALE) < 1000000"
    by (simp_all add: unat_mod_distrib s)
  then have "unat (v mod PPM_SCALE) * unat (d mod PPM_SCALE) < 1000000 * 1000000"
    by (intro mult_strict_mono) simp_all
  then have "unat (v mod PPM_SCALE * (d mod PPM_SCALE)) = unat (v mod PPM_SCALE) * unat (d mod PPM_SCALE)"
    by (subst unat_mult_exact) simp_all
  then show ?thesis by (simp add: unat_mod_distrib s mod_mult_eq)
qed

lemma div_mod_int: "int (n div 1000000) * 1000000 + int (n mod 1000000) = int n"
  by (metis div_mult_mod_eq of_nat_add of_nat_mult of_nat_numeral)

lemma honest_row_dr:
  fixes poseidon_hash :: "fr list \<Rightarrow> fr" and k_epoch :: b32
  assumes big: "2 ^ 253 < p" and ok: "provable_input p i"
  defines "v \<equiv> assign_row p (active_row p poseidon_hash k_epoch 1000000 i)"
  shows "enforce_dr_weight p v" and "rv_weight v < 2 ^ 112"
proof -
  let ?M = "unat (ri_minutes i)" and ?P = "unat (ri_price_ppm i)" and ?R = "unat (ri_region_ppm i)"
  let ?cp = "circuit_plays (ri_plays i)" and ?hot = "unat (circuit_plays (ri_plays i) - 1)"
  let ?D = "unat (d_ppm (circuit_plays (ri_plays i)) 1000000)"
  from ok have r: "?M < 2 ^ 32" "?P < 2 ^ 40" "?R < 2 ^ 40" "1 \<le> ri_plays i" "ri_plays i \<le> 64"
    and fits: "?M * ?P * ?R * 1000000 < 2 ^ 128"
    by (simp_all add: provable_input_def)
  have cp: "?cp = ri_plays i" using r(4,5) by (simp add: circuit_plays_def MAX_PLAYS_CIRCUIT_def)
  have u: "unat (ri_plays i) \<le> 64" "1 \<le> unat (ri_plays i)" using r(4,5) by (simp_all add: word_le_nat_alt)
  have hot: "?hot = unat (ri_plays i) - 1" using r(4) by (simp add: cp unat_sub)
  have hot64: "?hot < 64" using u by (simp add: hot)
  have D: "?D \<le> 1000000" using d_nat_le by (simp add: d_ppm_unat)
  have "?M * ?P * ?R * ?D \<le> ?M * ?P * ?R * 1000000" using D by (rule mult_le_mono2)
  with fits have fitsD: "?M * ?P * ?R * ?D < 2 ^ 128" and fitsV: "?M * ?P * ?R < 2 ^ 128" by linarith+
  have w: "rv_weight v = int (?M * ?P * ?R * ?D div 1000000)"
    using weight_of_nat [OF fitsD fitsV] big
    by (simp add: v_def assign_row_def active_row_def Let_def fr_u128_nat del: of_nat_mult of_nat_div)
  have tab: "d_ppm_table K_PPM_CIRCUIT ! ?hot = d_ppm ?cp 1000000"
    using d_ppm_table_nth [OF circuit_plays_range] by (simp add: K_PPM_CIRCUIT_def)
  let ?V = "ucast (ri_minutes i) * ucast (ri_price_ppm i) * ucast (ri_region_ppm i) :: u128"
  have "rv_r v = int (unat (?V mod PPM_SCALE * (ucast (d_ppm ?cp 1000000) mod PPM_SCALE) mod PPM_SCALE))"
    using big tab
    by (simp add: v_def assign_row_def active_row_def Let_def fr_u128_nat flip: circuit_plays_def)
  then have rr: "rv_r v = int (?M * ?P * ?R * ?D mod 1000000)"
    unfolding remainder_exact unat_product3 [OF fitsV] unat_u64_u128 .
  have sel: "rv_selectors v = map (\<lambda>j. j = ?hot) [0..<64]"
    by (simp add: v_def assign_row_def active_row_def Let_def MAX_PLAYS_CIRCUIT_def circuit_plays_def)
  have fields: "rv_minutes v = int ?M" "rv_price v = int ?P" "rv_region v = int ?R"
      "rv_plays v = int (unat (ri_plays i))" "rv_active v"
    using big by (simp_all add: v_def assign_row_def active_row_def Let_def fr_u64)
  have sums: "selector_sums p (d_ppm_table K_PPM_CIRCUIT) (rv_selectors v) = (1, int ?hot, int ?D)"
    using big one_hot_sums [OF hot64] tab
    by (subst selector_sums_exact) (simp_all add: sel)
  have pb: "0 \<le> int ?M * int ?P * int ?R" "int ?M * int ?P * int ?R < 2 ^ 112" "int ?M * int ?P < 2 ^ 72"
    using product_bound [of "int ?M" "int ?P" "int ?R"] r(1-3)
    by (simp_all flip: of_nat_mult of_nat_less_iff [where 'a = int])
  have val: "int ?M * int ?P mod p * int ?R mod p = int (?M * ?P * ?R)"
    using pb big by simp
  have "int ?M * int ?P * int ?R * int ?D \<le> 2 ^ 112 * 1000000"
    using pb d_ppm_le [of ?cp 1000000] by (intro mult_mono) simp_all
  then have small: "int (?M * ?P * ?R * ?D) < p" using big by simp
  have eq: "int (?M * ?P * ?R * ?D div 1000000) * 1000000 + int (?M * ?P * ?R * ?D mod 1000000)
      = int (?M * ?P * ?R * ?D)"
    by (rule div_mod_int)
  have r20: "int (?M * ?P * ?R * ?D mod 1000000) < 1000000" by (simp del: of_nat_mult of_nat_mod)
  have slack: "(999999 - int (?M * ?P * ?R * ?D mod 1000000)) mod p = 999999 - int (?M * ?P * ?R * ?D mod 1000000)"
    using r20 big by (intro mod_pos_pos_trivial) (simp_all del: of_nat_mult of_nat_mod)
  have "1 \<le> uint (ri_plays i)" "uint (ri_plays i) \<le> 64" using r(4,5) by (simp_all add: word_le_def)
  then have idx: "int ?hot = (int (unat (ri_plays i)) - 1) mod p"
    using u big by (simp add: hot)
  have prod: "int (?M * ?P * ?R) * int ?D mod p = int (?M * ?P * ?R * ?D) mod p"
    by (simp only: of_nat_mult)
  have bits: "enforce_bit_width (int (?M * ?P * ?R * ?D mod 1000000)) 20 True"
      "enforce_bit_width (999999 - int (?M * ?P * ?R * ?D mod 1000000)) 20 True"
    using r20 by (simp_all add: bit_width_iff del: of_nat_mult of_nat_mod)
  have one: "(1 :: int) = 1 mod p" using big by simp
  show "enforce_dr_weight p v"
    unfolding enforce_dr_weight_def Let_def sums fields(1-4) w rr prod.case fr_ppm [OF big] val eq slack
      REMAINDER_BITS_def eqTrueI [OF fields(5)]
    by (intro conjI impI one idx bits prod [symmetric])
  have "?M * ?P * ?R * ?D div 1000000 \<le> ?M * ?P * ?R * 1000000 div 1000000"
    using D by (intro div_le_mono) simp
  then have "?M * ?P * ?R * ?D div 1000000 \<le> ?M * ?P * ?R" by simp
  then have "int (?M * ?P * ?R * ?D div 1000000) \<le> int (?M * ?P * ?R)" by (simp only: of_nat_le_iff)
  also have "\<dots> < 2 ^ 112" using pb(2) by (simp only: of_nat_mult)
  finally show "rv_weight v < 2 ^ 112" by (simp only: w)
qed

definition hash_in_field :: "int \<Rightarrow> (fr list \<Rightarrow> fr) \<Rightarrow> bool" where
  "hash_in_field p poseidon_hash \<longleftrightarrow> (\<forall>xs. 0 \<le> poseidon_hash xs \<and> poseidon_hash xs < p)"

lemma hash_round_trip:
  "\<lbrakk>hash_in_field p poseidon_hash; p \<le> 2 ^ 256\<rbrakk>
     \<Longrightarrow> fr_from_bytes32 p (fr_to_bytes32 (poseidon_hash xs)) = poseidon_hash xs"
  by (rule fr_round_trip) (simp_all add: hash_in_field_def)

lemma honest_active_row:
  assumes big: "2 ^ 253 < p" and p256: "p \<le> 2 ^ 256" and h: "hash_in_field p poseidon_hash"
    and ok: "provable_input p i"
  shows "enforce_row p poseidon_hash (fr_from_bytes32 p k_epoch) (assign_row p (active_row p poseidon_hash k_epoch 1000000 i))"
proof -
  let ?v = "assign_row p (active_row p poseidon_hash k_epoch 1000000 i)"
  let ?c = "commitment p poseidon_hash (ri_work_id i) (ri_minutes i) (ri_plays i) (ri_salt i)"
  have com: "fr_from_bytes32 p ?c = poseidon_hash [fr_from_bytes32 p (ri_work_id i),
      fr_from_u128 p (ucast (ri_minutes i)), fr_from_u128 p (ucast (ri_plays i)), fr_from_bytes32 p (ri_salt i)]"
    unfolding commitment_def by (rule hash_round_trip [OF h p256])
  have ps: "fr_from_bytes32 p (pseudonym p poseidon_hash k_epoch ?c)
      = poseidon_hash [fr_from_bytes32 p k_epoch, fr_from_bytes32 p ?c]"
    unfolding pseudonym_def by (rule hash_round_trip [OF h p256])
  from ok have r: "unat (ri_minutes i) < 2 ^ 32" "unat (ri_price_ppm i) < 2 ^ 40" "unat (ri_region_ppm i) < 2 ^ 40"
      "1 \<le> ri_plays i" "ri_plays i \<le> 64" and id: "fr_from_bytes32 p (ri_work_id i) \<noteq> 0"
    by (simp_all add: provable_input_def)
  have lt: "uint (ri_minutes i) < 2 ^ 32" "uint (ri_price_ppm i) < 2 ^ 40" "uint (ri_region_ppm i) < 2 ^ 40"
    using r(1-3) by (simp_all only: uint_lt_iff)
  have pl: "uint (ri_plays i) \<le> 64" using r(5) by (simp add: word_le_def)
  have bits: "enforce_bit_width (uint (ri_minutes i)) 32 True" "enforce_bit_width (uint (ri_plays i)) 7 True"
      "enforce_bit_width (uint (ri_price_ppm i)) 40 True" "enforce_bit_width (uint (ri_region_ppm i)) 40 True"
    using lt pl by (simp_all add: bit_width_iff)
  have w: "enforce_bit_width (rv_weight ?v) 120 True"
    using honest_row_dr(2) [OF big ok, of poseidon_hash k_epoch] big
    by (subst bit_width_iff) (simp_all add: assign_row_def Let_def fr_u128_nat)
  have c64: "fr_from_u128 p (ucast MAX_PLAYS_CIRCUIT) = 64"
    using big by (simp add: fr_from_u128_def MAX_PLAYS_CIRCUIT_def)
  have "64 < p" using big by simp
  have nn: "0 \<le> uint (ri_plays i)" by simp
  with \<open>64 < p\<close> have "(64 - uint (ri_plays i)) mod p = 64 - uint (ri_plays i)"
    using pl by (intro mod_pos_pos_trivial) linarith+
  moreover have "64 - uint (ri_plays i) < 2 ^ 7" 
  proof -
    have "64 - uint (ri_plays i) \<le> 64" using nn by linarith
    also have "\<dots> < 2 ^ 7" by simp
    finally show ?thesis .
  qed
  ultimately have slack: "enforce_bit_width ((fr_from_u128 p (ucast MAX_PLAYS_CIRCUIT) - uint (ri_plays i)) mod p) 7 True"
    using pl by (simp only: c64 bit_width_iff)
  have fields: "rv_active ?v" "rv_commitment ?v = fr_from_bytes32 p ?c"
      "rv_pseudonym ?v = fr_from_bytes32 p (pseudonym p poseidon_hash k_epoch ?c)"
      "rv_work_id ?v = fr_from_bytes32 p (ri_work_id i)" "rv_salt ?v = fr_from_bytes32 p (ri_salt i)"
      "rv_minutes ?v = uint (ri_minutes i)" "rv_plays ?v = uint (ri_plays i)"
      "rv_price ?v = uint (ri_price_ppm i)" "rv_region ?v = uint (ri_region_ppm i)"
    using big by (simp_all add: assign_row_def active_row_def Let_def fr_u64)
  have com': "fr_from_bytes32 p ?c = poseidon_hash [fr_from_bytes32 p (ri_work_id i),
      uint (ri_minutes i), uint (ri_plays i), fr_from_bytes32 p (ri_salt i)]"
    using com big by (simp only: fr_u64)
  show ?thesis
    unfolding enforce_row_def Let_def fields(2-9) eqTrueI [OF fields(1)] MINUTES_BITS_def PLAYS_BITS_def
      PPM_BITS_def WEIGHT_BITS_def
    using bits w slack com' ps id honest_row_dr(1) [OF big ok, of poseidon_hash k_epoch]
    by (simp only: simp_thms)
qed

lemma honest_padded_row:
  assumes big: "2 ^ 253 < p" and p256: "p \<le> 2 ^ 256" and h: "hash_in_field p poseidon_hash"
  shows "enforce_row p poseidon_hash (fr_from_bytes32 p k_epoch) (assign_row p (padded_row p poseidon_hash k_epoch))"
proof -
  let ?v = "assign_row p (padded_row p poseidon_hash k_epoch)"
  let ?c = "commitment p poseidon_hash (replicate 32 0) 0 0 (replicate 32 0)"
  have ps: "fr_from_bytes32 p (pseudonym p poseidon_hash k_epoch ?c)
      = poseidon_hash [fr_from_bytes32 p k_epoch, fr_from_bytes32 p ?c]"
    unfolding pseudonym_def by (rule hash_round_trip [OF h p256])
  have z: "fr_from_bytes32 p (replicate 32 0) = 0" "fr_from_u128 p 0 = 0"
    by (simp_all add: fr_from_bytes32_def be_int_def fr_from_u128_def numeral_eq_Suc)
  have fields: "rv_active ?v = False" "rv_commitment ?v = fr_from_bytes32 p ?c"
      "rv_pseudonym ?v = fr_from_bytes32 p (pseudonym p poseidon_hash k_epoch ?c)"
      "rv_work_id ?v = 0" "rv_weight ?v = 0"
    by (simp_all add: assign_row_def padded_row_def Let_def z)
  have "enforce_dr_weight p ?v"
    by (simp add: enforce_dr_weight_def fields(1) case_prod_unfold Let_def)
  then show ?thesis
    unfolding enforce_row_def Let_def fields padded_commitment_def
    using ps by simp
qed

section \<open>Properties\<close>

lemma preimage_rows:
  assumes "digest_preimage ep ti k rows = digest_inputs p epoch tier k_epoch pub" and "length rows = length pub"
    and "i < length rows"
  shows "rv_pseudonym (rows ! i) = fr_from_bytes32 p (pr_pseudonym (pub ! i))
       \<and> rv_work_id (rows ! i) = fr_from_bytes32 p (pr_work_id (pub ! i))
       \<and> rv_weight (rows ! i) = fr_from_u128 p (pr_weight (pub ! i))"
    and "k = fr_from_bytes32 p k_epoch"
proof -
  let ?f = "\<lambda>v. [rv_pseudonym v, rv_work_id v, rv_weight v]"
    and ?g = "\<lambda>row. [fr_from_bytes32 p (pr_pseudonym row), fr_from_bytes32 p (pr_work_id row),
        fr_from_u128 p (pr_weight row)]"
  from assms(1) have "concat (map ?f rows) = concat (map ?g pub)" and k: "k = fr_from_bytes32 p k_epoch"
    by (simp_all add: digest_preimage_def digest_inputs_def)
  moreover have "length x = length y" if "(x, y) \<in> set (zip (map ?f rows) (map ?g pub))" for x y
    using that by (auto simp: zip_map_map)
  ultimately have "map ?f rows = map ?g pub"
    using concat_eq_concat_iff [of "map ?f rows" "map ?g pub"] assms(2) by fastforce
  then have "map ?f rows ! i = map ?g pub ! i" by (rule arg_cong)
  then show "rv_pseudonym (rows ! i) = fr_from_bytes32 p (pr_pseudonym (pub ! i))
       \<and> rv_work_id (rows ! i) = fr_from_bytes32 p (pr_work_id (pub ! i))
       \<and> rv_weight (rows ! i) = fr_from_u128 p (pr_weight (pub ! i))"
    using assms(2,3) by simp
  show "k = fr_from_bytes32 p k_epoch" by (rule k)
qed

lemma circuit_sound:
  assumes "2 ^ 253 < p" and "\<And>v. v \<in> set rows \<Longrightarrow> field_row p v"
    and "generate_constraints p poseidon_hash dg k ep ti rows"
  shows "(\<forall>v \<in> set rows. if rv_active v then row_statement poseidon_hash k v
                        else rv_weight v = 0 \<and> rv_work_id v = 0)
       \<and> distinct (map rv_work_id (List.filter rv_active rows))
       \<and> dg = poseidon_hash (digest_preimage ep ti k rows)"
proof (intro conjI ballI)
  fix v assume v: "v \<in> set rows"
  with assms(3) have row: "enforce_row p poseidon_hash k v"
    by (auto simp: generate_constraints_def list_all_iff)
  show "if rv_active v then row_statement poseidon_hash k v else rv_weight v = 0 \<and> rv_work_id v = 0"
    using enforce_row_sound [OF assms(1) assms(2) [OF v] _ row] row
    by (auto simp: enforce_row_def Let_def)
next
  show "distinct (map rv_work_id (List.filter rv_active rows))"
    using assms(3) by (intro unique_works_distinct) (simp add: generate_constraints_def)
qed (use assms(3) in \<open>simp add: generate_constraints_def\<close>)

text \<open>C9: soundness of the usage circuit. Whatever field elements a prover assigns, if all
  constraints hold then every active row carries a non-zero work, its own Poseidon commitment and
  pseudonym under the shared epoch key, factors within their ranges, between 1 and 64 plays, and
  exactly the weight \<open>minutes * price * region * D(plays) div 10^6\<close> as an integer; active rows
  name distinct works; padding rows have weight zero; and the public input is the hash of these
  values.\<close>

theorem usage_circuit_sound:
  assumes "2 ^ 253 < p" and "\<And>v. v \<in> set rows \<Longrightarrow> field_row p v"
    and "generate_constraints p poseidon_hash dg k ep ti rows"
  shows "(\<forall>v \<in> set rows. if rv_active v then row_statement poseidon_hash k v
                        else rv_weight v = 0 \<and> rv_work_id v = 0)
       \<and> distinct (map rv_work_id (List.filter rv_active rows))
       \<and> dg = poseidon_hash (digest_preimage ep ti k rows)"
  by (rule circuit_sound [OF assms])

lemma circuit_complete:
  assumes "2 ^ 253 < p" and "p \<le> 2 ^ 256" and "hash_in_field p poseidon_hash"
    and "\<And>i. i \<in> set inputs \<Longrightarrow> provable_input p i" and "length inputs \<le> MAX_WORKS"
    and "distinct (map (\<lambda>i. fr_from_bytes32 p (ri_work_id i)) inputs)"
  shows "circuit_satisfied p poseidon_hash (prove_circuit p poseidon_hash epoch tier k_epoch 1000000 inputs)"
proof -
  let ?act = "map (active_row p poseidon_hash k_epoch 1000000) inputs"
  let ?pads = "replicate (MAX_WORKS - length inputs) (padded_row p poseidon_hash k_epoch)"
  let ?rows = "?act @ ?pads"
  let ?vars = "map (assign_row p) ?rows"
  have rows: "uc_rows (prove_circuit p poseidon_hash epoch tier k_epoch 1000000 inputs) = ?rows"
    by (simp add: prove_circuit_def Let_def pad_to_def)
  have "list_all (enforce_row p poseidon_hash (fr_from_bytes32 p k_epoch)) ?vars"
    using honest_active_row [OF assms(1-3) assms(4)] honest_padded_row [OF assms(1-3)]
    by (auto simp: list_all_iff)
  moreover have "map rv_work_id (List.filter rv_active ?vars) = map (\<lambda>i. fr_from_bytes32 p (ri_work_id i)) inputs"
    by (simp add: assign_row_def active_row_def padded_row_def Let_def filter_map comp_def)
  then have "unique_works ?vars" using assms(6) by (intro distinct_unique_works) simp
  moreover have "digest_preimage (fr_from_u128 p (ucast epoch)) (fr_from_bytes32 p tier) (fr_from_bytes32 p k_epoch) ?vars
      = digest_inputs p epoch tier k_epoch (map public_row_of ?rows)"
    by (simp add: digest_preimage_def digest_inputs_def assign_row_def public_row_of_def Let_def comp_def)
  then have "fr_from_bytes32 p (uc_digest (prove_circuit p poseidon_hash epoch tier k_epoch 1000000 inputs))
      = poseidon_hash (digest_preimage (fr_from_u128 p (ucast epoch)) (fr_from_bytes32 p tier) (fr_from_bytes32 p k_epoch) ?vars)"
    using hash_round_trip [OF assms(3,2)] by (simp add: prove_circuit_def Let_def digest_def pad_to_def)
  ultimately show ?thesis
    using assms(5) unfolding circuit_satisfied_def rows
    by (simp add: generate_constraints_def prove_circuit_def Let_def)
qed

text \<open>C23: completeness of the usage circuit. For inputs in range with works distinct in the field, the
  circuit the prover builds is satisfied by the values the code assigns, so an honest submission
  of at most sixteen works can always be proved.\<close>

theorem usage_circuit_complete:
  assumes "2 ^ 253 < p" and "p \<le> 2 ^ 256" and "hash_in_field p poseidon_hash"
    and "\<And>i. i \<in> set inputs \<Longrightarrow> provable_input p i" and "length inputs \<le> MAX_WORKS"
    and "distinct (map (\<lambda>i. fr_from_bytes32 p (ri_work_id i)) inputs)"
  shows "circuit_satisfied p poseidon_hash (prove_circuit p poseidon_hash epoch tier k_epoch 1000000 inputs)"
  by (rule circuit_complete [OF assms])

definition bn254_modulus :: int where
  "bn254_modulus = 21888242871839275222246405745257275088548364400416034343698204186575808495617"

definition sum_hash :: "fr list \<Rightarrow> fr" where
  "sum_hash xs = sum_list xs mod bn254_modulus"

definition ex_input :: usage_row_input where
  "ex_input = \<lparr>ri_work_id = [9], ri_minutes = 30, ri_plays = 2, ri_salt = [1], ri_price_ppm = 1200000,
     ri_region_ppm = 900000\<rparr>"

lemma ex_field: "2 ^ 253 < bn254_modulus" "bn254_modulus \<le> 2 ^ 256" "hash_in_field bn254_modulus sum_hash"
  by (simp_all add: bn254_modulus_def hash_in_field_def sum_hash_def)

lemma ex_provable: "provable_input bn254_modulus ex_input"
  by (simp add: provable_input_def ex_input_def bn254_modulus_def fr_from_bytes32_def be_int_def)

theorem usage_circuit_complete_witness:
  "circuit_satisfied bn254_modulus sum_hash (prove_circuit bn254_modulus sum_hash 3 [1] [2] 1000000 [ex_input])"
  by (rule usage_circuit_complete [OF ex_field]) (simp_all add: ex_provable MAX_WORKS_def)

lemma assign_row_in_field:
  assumes "0 < p"
  shows "field_row p (assign_row p r)"
  using assms by (simp add: field_row_def assign_row_def Let_def fr_from_bytes32_def fr_from_u128_def MAX_PLAYS_CIRCUIT_def)

theorem usage_circuit_sound_witness:
  "\<exists>rows. generate_constraints bn254_modulus sum_hash
       (sum_hash (digest_preimage 3 1 2 rows)) 2 3 1 rows
     \<and> (\<exists>v \<in> set rows. rv_active v \<and> row_statement sum_hash 2 v)"
proof -
  let ?c = "prove_circuit bn254_modulus sum_hash 3 [1] [2] 1000000 [ex_input]"
  let ?rows = "map (assign_row bn254_modulus) (uc_rows ?c)"
  have sat: "circuit_satisfied bn254_modulus sum_hash ?c"
    by (rule circuit_complete [OF ex_field]) (simp_all add: ex_provable MAX_WORKS_def)
  have ctx: "fr_from_bytes32 bn254_modulus (uc_k_epoch ?c) = 2" "fr_from_u128 bn254_modulus (ucast (uc_epoch ?c)) = 3"
      "fr_from_bytes32 bn254_modulus (uc_tier ?c) = 1"
    by (simp_all add: prove_circuit_def Let_def fr_from_bytes32_def be_int_def fr_from_u128_def bn254_modulus_def)
  have gen: "generate_constraints bn254_modulus sum_hash (fr_from_bytes32 bn254_modulus (uc_digest ?c)) 2 3 1 ?rows"
    using sat unfolding circuit_satisfied_def ctx .
  have fld: "\<And>v. v \<in> set ?rows \<Longrightarrow> field_row bn254_modulus v"
    using assign_row_in_field [of bn254_modulus] by (auto simp: bn254_modulus_def)
  from usage_circuit_sound [OF ex_field(1) fld gen]
  have sound: "\<forall>v \<in> set ?rows. if rv_active v then row_statement sum_hash 2 v else rv_weight v = 0 \<and> rv_work_id v = 0"
    and dg: "fr_from_bytes32 bn254_modulus (uc_digest ?c) = sum_hash (digest_preimage 3 1 2 ?rows)"
    by blast+
  let ?v = "assign_row bn254_modulus (active_row bn254_modulus sum_hash [2] 1000000 ex_input)"
  have v: "?v \<in> set ?rows" by (simp add: prove_circuit_def Let_def pad_to_def)
  have act: "rv_active ?v" by (simp add: assign_row_def active_row_def Let_def)
  with sound v have "row_statement sum_hash 2 ?v" by fastforce
  with act v gen show ?thesis unfolding dg by blast
qed

text \<open>A row with zero plays can never be proved. The native side gives such a row the weight of a
  single play, but no assignment of its variables with that play count satisfies the constraints
  of an active row.\<close>

theorem zero_plays_unprovable:
  assumes "2 ^ 253 < p" and "ri_plays i = 0"
  shows "\<not> enforce_row p poseidon_hash k (assign_row p (active_row p poseidon_hash k_epoch k_ppm i))"
proof
  let ?v = "assign_row p (active_row p poseidon_hash k_epoch k_ppm i)"
  assume row: "enforce_row p poseidon_hash k ?v"
  have fld: "field_row p ?v" using assms(1) by (intro assign_row_in_field) simp
  have act: "rv_active ?v" and pl: "rv_plays ?v = 0"
    using assms by (simp_all add: assign_row_def active_row_def Let_def fr_from_u128_def)
  from enforce_row_sound [OF assms(1) fld act row] pl show False by (simp add: row_statement_def)
qed

theorem zero_plays_unprovable_witness:
  "\<not> enforce_row bn254_modulus sum_hash 2
     (assign_row bn254_modulus (active_row bn254_modulus sum_hash [2] 1000000 (ex_input\<lparr>ri_plays := 0\<rparr>)))"
  by (rule zero_plays_unprovable [OF ex_field(1)]) simp

end
