(* ===== verification/Wallet.thy ===== *)
theory Wallet
  imports Bytes32 Zk
begin

text \<open>
  \<open>libs/wallet-zk\<close>: usage commitments (\<open>commit.rs\<close>), the placeholder proof (\<open>zk.rs\<close>) and the
  epoch-aware session store (\<open>session.rs\<close>). The session store is also run as a sequence of
  events, against a specification that counts plays and seconds per work directly.
\<close>

section \<open>Commitments\<close>

datatype usage_commitment = Commitment (commitment_bytes: bytes32)

record usage_opening =
  op_work_id :: bytes32
  op_minutes :: u64
  op_plays :: u64
  op_salt :: bytes32

definition opening_commit :: "int \<Rightarrow> (fr list \<Rightarrow> fr) \<Rightarrow> usage_opening \<Rightarrow> usage_commitment" where
  "opening_commit p poseidon_hash opn =
     Commitment (Bytes32 (commitment p poseidon_hash (as_bytes (op_work_id opn)) (op_minutes opn)
       (op_plays opn) (as_bytes (op_salt opn))))"

definition opening_verify :: "int \<Rightarrow> (fr list \<Rightarrow> fr) \<Rightarrow> usage_opening \<Rightarrow> usage_commitment \<Rightarrow> bool" where
  "opening_verify p poseidon_hash opn c \<longleftrightarrow> opening_commit p poseidon_hash opn = c"

section \<open>The placeholder proof\<close>

record usage_entry =
  ue_work_id :: bytes32
  ue_minutes :: u64
  ue_plays :: u64

record placeholder_proof =
  pf_scheme :: string
  pf_work_count :: nat
  pf_total_minutes :: u64

definition PLACEHOLDER_SCHEME :: string where
  "PLACEHOLDER_SCHEME = ''none-v0''"

definition generate_proof :: "usage_entry list \<Rightarrow> placeholder_proof" where
  "generate_proof usage =
     \<lparr>pf_scheme = PLACEHOLDER_SCHEME, pf_work_count = length usage,
      pf_total_minutes = foldl (\<lambda>acc e. saturating_add acc (ue_minutes e)) 0 usage\<rparr>"

definition verify_proof :: "usage_commitment list \<Rightarrow> placeholder_proof \<Rightarrow> bool" where
  "verify_proof commitments pf \<longleftrightarrow>
     pf_scheme pf = PLACEHOLDER_SCHEME \<and> pf_work_count pf = length commitments"

section \<open>The session store\<close>

definition EPOCH_LENGTH_SECS :: u64 where
  "EPOCH_LENGTH_SECS = 30 * 24 * 60 * 60"

definition epoch_of :: "u64 \<Rightarrow> u64" where
  "epoch_of timestamp_secs = timestamp_secs div EPOCH_LENGTH_SECS"

record session_state =
  ss_epoch :: u64
  per_work_secs :: "(bytes32, u64) btree_map"
  per_work_plays :: "(bytes32, u64) btree_map"
  ss_active :: "(string, bytes32) btree_map"

definition session_new :: "u64 \<Rightarrow> session_state" where
  "session_new now_secs =
     \<lparr>ss_epoch = epoch_of now_secs, per_work_secs = [], per_work_plays = [], ss_active = []\<rparr>"

definition session_start :: "string \<Rightarrow> bytes32 \<Rightarrow> session_state \<Rightarrow> session_state" where
  "session_start session_id work_id s =
     s\<lparr>ss_active := bt_insert session_id work_id (ss_active s),
       per_work_plays := bt_update 0 (\<lambda>n. saturating_add n 1) work_id (per_work_plays s)\<rparr>"

definition session_add_time :: "string \<Rightarrow> u64 \<Rightarrow> session_state \<Rightarrow> bool \<times> session_state" where
  "session_add_time session_id dt_secs s =
     (case bt_get (ss_active s) session_id of
        Some work_id \<Rightarrow>
          (True, s\<lparr>per_work_secs := bt_update 0 (\<lambda>n. saturating_add n dt_secs) work_id (per_work_secs s)\<rparr>)
      | None \<Rightarrow> (False, s))"

definition session_stop :: "string \<Rightarrow> session_state \<Rightarrow> bool \<times> session_state" where
  "session_stop session_id s =
     (bt_get (ss_active s) session_id \<noteq> None, s\<lparr>ss_active := bt_remove session_id (ss_active s)\<rparr>)"

text \<open>The \<open>filter_map\<close> of \<open>flush\<close>: the drained play counts are consumed entry by entry.\<close>

fun drain :: "(bytes32 \<times> u64) list \<Rightarrow> (bytes32, u64) btree_map \<Rightarrow> usage_entry list" where
  "drain [] plays = []"
| "drain ((work_id, secs) # rest) plays =
     (let minutes = secs div 60 in
      if minutes = 0 then drain rest plays
      else \<lparr>ue_work_id = work_id, ue_minutes = minutes, ue_plays = bt_get_or 0 plays work_id\<rparr>
           # drain rest (bt_remove work_id plays))"

definition session_flush :: "session_state \<Rightarrow> usage_entry list \<times> session_state" where
  "session_flush s =
     (drain (per_work_secs s) (per_work_plays s), s\<lparr>per_work_secs := [], per_work_plays := []\<rparr>)"

section \<open>Runs of the store\<close>

datatype session_event = Start string bytes32 | AddTime string u64 | Stop string

definition session_step :: "session_state \<Rightarrow> session_event \<Rightarrow> session_state" where
  "session_step s e =
     (case e of Start i w \<Rightarrow> session_start i w s
      | AddTime i dt \<Rightarrow> snd (session_add_time i dt s)
      | Stop i \<Rightarrow> snd (session_stop i s))"

definition session_run :: "session_event list \<Rightarrow> session_state \<Rightarrow> session_state" where
  "session_run es s = foldl session_step s es"

definition session_wf :: "session_state \<Rightarrow> bool" where
  "session_wf s \<longleftrightarrow> bt_wf (per_work_secs s) \<and> bt_wf (per_work_plays s) \<and> bt_wf (ss_active s)"

text \<open>
  The specification: which work each open session accrues to, and the plays and seconds per work
  as natural numbers, by recursion over the events.
\<close>

fun open_sessions :: "(string \<Rightarrow> bytes32 option) \<Rightarrow> session_event list \<Rightarrow> (string \<Rightarrow> bytes32 option)" where
  "open_sessions act [] = act"
| "open_sessions act (Start i w # es) = open_sessions (act(i := Some w)) es"
| "open_sessions act (AddTime i dt # es) = open_sessions act es"
| "open_sessions act (Stop i # es) = open_sessions (act(i := None)) es"

fun spec_plays :: "session_event list \<Rightarrow> bytes32 \<Rightarrow> nat" where
  "spec_plays [] w = 0"
| "spec_plays (Start i w' # es) w = (if w' = w then 1 else 0) + spec_plays es w"
| "spec_plays (e # es) w = spec_plays es w"

fun spec_secs :: "(string \<Rightarrow> bytes32 option) \<Rightarrow> session_event list \<Rightarrow> bytes32 \<Rightarrow> nat" where
  "spec_secs act [] w = 0"
| "spec_secs act (Start i w' # es) w = spec_secs (act(i := Some w')) es w"
| "spec_secs act (AddTime i dt # es) w = (if act i = Some w then unat dt else 0) + spec_secs act es w"
| "spec_secs act (Stop i # es) w = spec_secs (act(i := None)) es w"

section \<open>The store implements the specification\<close>

lemmas session_ops = session_start_def session_add_time_def session_stop_def

lemma session_step_wf: "session_wf s \<Longrightarrow> session_wf (session_step s e)"
  by (cases e) (auto simp: session_wf_def session_step_def session_ops bt_wf_insert bt_wf_remove
      split: option.splits)

lemma session_run_wf: "session_wf s \<Longrightarrow> session_wf (session_run es s)"
  unfolding session_run_def by (induction es arbitrary: s) (auto intro: session_step_wf)

lemma session_new_wf: "session_wf (session_new t)"
  by (simp add: session_wf_def session_new_def)

lemma session_run_append: "session_run (es @ es') s = session_run es' (session_run es s)"
  by (simp add: session_run_def)

lemma session_run_simps [simp]:
  "session_run [] s = s" "session_run (e # es) s = session_run es (session_step s e)"
  by (simp_all add: session_run_def)

lemma step_active:
  "session_wf s \<Longrightarrow> bt_get (ss_active (session_step s e)) = open_sessions (bt_get (ss_active s)) [e]"
  by (cases e) (auto simp: session_step_def session_ops session_wf_def bt_get_insert bt_get_remove
      split: option.splits)

definition U64_MAX :: nat where "U64_MAX = 2 ^ 64 - 1"

lemma unat_sat_u64: "unat (saturating_add a b :: u64) = min (unat a + unat b) U64_MAX"
  by (simp add: unat_saturating_add U64_MAX_def)

lemma u64_le_max: "unat (a :: u64) \<le> U64_MAX"
  using u64_lt [of a] by (simp add: U64_MAX_def)

lemma run_plays:
  assumes "session_wf s"
  shows "unat (bt_get_or 0 (per_work_plays (session_run es s)) w)
       = min (unat (bt_get_or 0 (per_work_plays s) w) + spec_plays es w) U64_MAX"
  using assms
proof (induction es arbitrary: s)
  case Nil
  then show ?case using u64_le_max by (simp add: min_absorb1)
next
  case (Cons e es)
  note IH = Cons.IH [OF session_step_wf [OF Cons.prems, of e]]
  show ?case
  proof (cases e)
    case (Start i w')
    have "unat (bt_get_or 0 (per_work_plays (session_step s e)) w)
        = (if w' = w then min (unat (bt_get_or 0 (per_work_plays s) w) + 1) U64_MAX
           else unat (bt_get_or 0 (per_work_plays s) w))"
      by (simp add: Start session_step_def session_start_def bt_get_update bt_get_or_def unat_sat_u64 U64_MAX_def)
    with IH show ?thesis by (auto simp: Start)
  qed (use IH in \<open>simp_all add: session_step_def session_ops split: option.splits\<close>)
qed

lemma run_secs:
  assumes "session_wf s"
  shows "unat (bt_get_or 0 (per_work_secs (session_run es s)) w)
       = min (unat (bt_get_or 0 (per_work_secs s) w) + spec_secs (bt_get (ss_active s)) es w) U64_MAX"
  using assms
proof (induction es arbitrary: s)
  case Nil
  then show ?case using u64_le_max by (simp add: min_absorb1)
next
  case (Cons e es)
  note IH = Cons.IH [OF session_step_wf [OF Cons.prems, of e], unfolded step_active [OF Cons.prems]]
  show ?case
  proof (cases e)
    case (AddTime i dt)
    have "unat (bt_get_or 0 (per_work_secs (session_step s e)) w)
        = (if bt_get (ss_active s) i = Some w then min (unat (bt_get_or 0 (per_work_secs s) w) + unat dt) U64_MAX
           else unat (bt_get_or 0 (per_work_secs s) w))"
      by (auto simp: AddTime session_step_def session_add_time_def bt_get_update bt_get_or_def unat_sat_u64
          split: option.splits)
    with IH show ?thesis by (auto simp: AddTime)
  qed (use IH in \<open>simp_all add: session_step_def session_ops fun_upd_def\<close>)
qed

section \<open>What \<open>flush\<close> produces\<close>

definition entry_of :: "(bytes32, u64) btree_map \<Rightarrow> bytes32 \<times> u64 \<Rightarrow> usage_entry" where
  "entry_of plays e = \<lparr>ue_work_id = fst e, ue_minutes = snd e div 60, ue_plays = bt_get_or 0 plays (fst e)\<rparr>"

lemma drain_as_map:
  assumes "bt_wf plays" and "distinct (map fst ws)"
  shows "drain ws plays = map (entry_of plays) (List.filter (\<lambda>e. snd e div 60 \<noteq> 0) ws)"
  using assms
proof (induction ws arbitrary: plays)
  case (Cons e ws)
  obtain w secs where e: "e = (w, secs)" by (cases e)
  have same: "map (entry_of (bt_remove w plays)) (List.filter (\<lambda>e. snd e div 60 \<noteq> 0) ws)
      = map (entry_of plays) (List.filter (\<lambda>e. snd e div 60 \<noteq> 0) ws)"
    using Cons.prems by (auto simp: e entry_of_def bt_get_or_def bt_get_remove image_iff intro!: map_cong)
  from Cons.prems have d: "distinct (map fst ws)" by simp
  show ?case
    using Cons.IH [OF Cons.prems(1) d] Cons.IH [OF bt_wf_remove [OF Cons.prems(1)] d, of w] same
    by (simp add: e Let_def entry_of_def)
qed simp

lemma flush_entries:
  assumes "session_wf s"
  shows "fst (session_flush s)
       = map (entry_of (per_work_plays s)) (List.filter (\<lambda>e. snd e div 60 \<noteq> 0) (per_work_secs s))"
  unfolding session_flush_def fst_conv
  by (rule drain_as_map) (use assms bt.distinct_keys in \<open>auto simp: session_wf_def\<close>)

lemma unstarted_no_secs:
  "\<lbrakk>\<forall>i. act i \<noteq> Some w; spec_plays es w = 0\<rbrakk> \<Longrightarrow> spec_secs act es w = 0"
  by (induction act es w rule: spec_secs.induct) (auto split: if_splits)

lemma sorted_map_filter: "sorted_wrt R (map f xs) \<Longrightarrow> sorted_wrt R (map f (List.filter P xs))"
  by (induction xs) auto

section \<open>Properties\<close>

lemma flush_accounts:
  fixes es t
  defines "s \<equiv> session_run es (session_new t)"
  defines "out \<equiv> fst (session_flush s)"
  shows "sorted_wrt (<) (map ue_work_id out)
       \<and> (e \<in> set out \<longleftrightarrow>
            unat (ue_minutes e) = min (spec_secs (\<lambda>_. None) es (ue_work_id e)) U64_MAX div 60
          \<and> ue_minutes e \<noteq> 0
          \<and> unat (ue_plays e) = min (spec_plays es (ue_work_id e)) U64_MAX)
       \<and> 0 \<notin> ue_plays ` set out
       \<and> per_work_secs (snd (session_flush s)) = [] \<and> per_work_plays (snd (session_flush s)) = []
       \<and> ss_active (snd (session_flush s)) = ss_active s"
proof -
  have wf: "session_wf s" unfolding s_def by (rule session_run_wf [OF session_new_wf])
  have wfs: "bt_wf (per_work_secs s)" using wf by (simp add: session_wf_def)
  have nil: "bt_get [] = (\<lambda>_. None :: bytes32 option)" for k :: string by (rule ext) simp
  have secs: "unat (bt_get_or 0 (per_work_secs s) w) = min (spec_secs (\<lambda>_. None) es w) U64_MAX"
    and plays: "unat (bt_get_or 0 (per_work_plays s) w) = min (spec_plays es w) U64_MAX" for w
    using run_secs [OF session_new_wf, of es t w] run_plays [OF session_new_wf, of es t w]
    by (simp_all add: s_def session_new_def bt_get_or_def nil)
  have out: "out = map (entry_of (per_work_plays s)) (List.filter (\<lambda>e. snd e div 60 \<noteq> 0) (per_work_secs s))"
    unfolding out_def by (rule flush_entries [OF wf])
  have "sorted_wrt (<) (map fst (per_work_secs s))" using wfs by (simp add: bt_wf_def)
  then have sorted: "sorted_wrt (<) (map ue_work_id out)"
    by (simp add: out comp_def entry_of_def sorted_map_filter)
  have mem: "e \<in> set out \<longleftrightarrow>
            unat (ue_minutes e) = min (spec_secs (\<lambda>_. None) es (ue_work_id e)) U64_MAX div 60
          \<and> ue_minutes e \<noteq> 0 \<and> unat (ue_plays e) = min (spec_plays es (ue_work_id e)) U64_MAX" for e
  proof
    assume "e \<in> set out"
    then obtain w x where wx: "bt_get (per_work_secs s) w = Some x" "x div 60 \<noteq> 0"
      and e: "e = entry_of (per_work_plays s) (w, x)"
      using bt_entries_get [OF wfs] by (auto simp: out)
    have "unat x = min (spec_secs (\<lambda>_. None) es w) U64_MAX" using secs [of w] wx by (simp add: bt_get_or_def)
    then have "unat (x div 60) = min (spec_secs (\<lambda>_. None) es w) U64_MAX div 60" by (simp add: unat_div_distrib)
    with wx plays show "unat (ue_minutes e) = min (spec_secs (\<lambda>_. None) es (ue_work_id e)) U64_MAX div 60
          \<and> ue_minutes e \<noteq> 0 \<and> unat (ue_plays e) = min (spec_plays es (ue_work_id e)) U64_MAX"
      by (simp add: e entry_of_def)
  next
    assume a: "unat (ue_minutes e) = min (spec_secs (\<lambda>_. None) es (ue_work_id e)) U64_MAX div 60
          \<and> ue_minutes e \<noteq> 0 \<and> unat (ue_plays e) = min (spec_plays es (ue_work_id e)) U64_MAX"
    let ?x = "bt_get_or 0 (per_work_secs s) (ue_work_id e)"
    have m: "ue_minutes e = ?x div 60"
      using a secs [of "ue_work_id e"] by (simp add: word_unat_eq_iff unat_div_distrib)
    have p: "ue_plays e = bt_get_or 0 (per_work_plays s) (ue_work_id e)"
      using a plays [of "ue_work_id e"] by (simp add: word_unat_eq_iff)
    have "?x \<noteq> 0" using a m by auto
    then have "(ue_work_id e, ?x) \<in> set (per_work_secs s)"
      using bt_entries_get [OF wfs] by (auto simp: bt_get_or_def split: option.splits)
    moreover have "e = entry_of (per_work_plays s) (ue_work_id e, ?x)"
      using m p by (simp add: entry_of_def)
    ultimately show "e \<in> set out" using a m by (force simp: out)
  qed
  have "0 \<notin> ue_plays ` set out"
  proof
    assume "0 \<in> ue_plays ` set out"
    then obtain x where x: "x \<in> set out" "ue_plays x = 0" by auto
    then have "spec_plays es (ue_work_id x) = 0" using mem [of x] by (simp add: min_def U64_MAX_def split: if_splits)
    then have "spec_secs (\<lambda>_. None) es (ue_work_id x) = 0" by (intro unstarted_no_secs) simp_all
    moreover from x(1) have "unat (ue_minutes x) = min (spec_secs (\<lambda>_. None) es (ue_work_id x)) U64_MAX div 60"
      and "ue_minutes x \<noteq> 0" using mem [of x] by blast+
    ultimately show False by (simp add: unat_eq_0)
  qed
  with sorted mem show ?thesis by (simp add: session_flush_def)
qed

text \<open>The session store accounts what happened. For every sequence of start, progress and stop
  events on a new store, \<open>flush\<close> returns, ordered by work id, exactly one entry for each work with
  at least a full minute; its minutes are the seconds reported for sessions open on that work,
  floored (and capped at the largest \<open>u64\<close>), its plays the number of starts, which is never
  zero. The flush clears both accumulators and keeps the open sessions.\<close>

theorem session_accounting:
  fixes es t
  defines "s \<equiv> session_run es (session_new t)"
  defines "out \<equiv> fst (session_flush s)"
  shows "sorted_wrt (<) (map ue_work_id out)
       \<and> (e \<in> set out \<longleftrightarrow>
            unat (ue_minutes e) = min (spec_secs (\<lambda>_. None) es (ue_work_id e)) U64_MAX div 60
          \<and> ue_minutes e \<noteq> 0
          \<and> unat (ue_plays e) = min (spec_plays es (ue_work_id e)) U64_MAX)
       \<and> 0 \<notin> ue_plays ` set out
       \<and> per_work_secs (snd (session_flush s)) = [] \<and> per_work_plays (snd (session_flush s)) = []
       \<and> ss_active (snd (session_flush s)) = ss_active s"
  unfolding s_def out_def by (rule flush_accounts)

text \<open>A session kept open across a flush is billed without plays: time accrued after the flush
  yields an entry whose play count is zero, although the code's comment says that every work with
  accrued seconds has a count.\<close>

theorem flush_loses_open_play:
  "let s = snd (session_flush (session_run [Start ''s'' (Bytes32 [7]), AddTime ''s'' 120] (session_new 0)))
   in fst (session_flush (session_run [AddTime ''s'' 90] s))
        = [\<lparr>ue_work_id = Bytes32 [7], ue_minutes = 1, ue_plays = 0\<rparr>]"
  by code_simp

text \<open>The placeholder proof records the number of works and the saturated sum of the minutes, and
  is accepted exactly for as many commitments as there are entries.\<close>

theorem placeholder_proof_checks:
  "unat (pf_total_minutes (generate_proof usage)) = min (\<Sum>e\<leftarrow>usage. unat (ue_minutes e)) U64_MAX
   \<and> (verify_proof commitments (generate_proof usage) \<longleftrightarrow> length commitments = length usage)"
proof -
  have "unat (foldl (\<lambda>acc e. saturating_add acc (ue_minutes e)) a usage)
      = min (unat a + (\<Sum>e\<leftarrow>usage. unat (ue_minutes e))) U64_MAX" for a
  proof (induction usage arbitrary: a)
    case Nil
    then show ?case using u64_le_max [of a] by (simp add: min_absorb1)
  next
    case (Cons e usage)
    then show ?case by (simp add: unat_sat_u64)
  qed
  then show ?thesis by (auto simp: generate_proof_def verify_proof_def)
qed

end
