(* ===== verification/Receipt.thy ===== *)
theory Receipt
  imports Hex "HOL-Library.Product_Lexorder"
begin

text \<open>
  \<open>libs/receipt/src/lib.rs\<close>: the receipt tuple, its signable bytes, signer recovery, the position of
  a chunk and the dedup key. The canonical JSON encoding (\<open>serde_jcs\<close>), the parsing of a
  signature, the EIP-191 recovery and the \<open>{:#x}\<close> form of an address (crate \<open>alloy\<close>) are the
  fields of the parameter \<open>receipt_env\<close>.
\<close>

definition CHUNK_SIZE :: u64 where
  "CHUNK_SIZE = 131072"

record receipt =
  rc_work_id :: string
  rc_consumer :: string
  rc_node :: string
  rc_chunk_index :: u64
  rc_bytes :: u64
  rc_epoch :: u64

datatype receipt_error =
  Canonical string | BadSignature | Recover string | SignerMismatch string | Json string

record ('sig, 'addr) receipt_env =
  canonical_json :: "receipt \<Rightarrow> string + u8 list"
  parse_signature :: "u8 list \<Rightarrow> 'sig option"
  recover_from_msg :: "'sig \<Rightarrow> u8 list \<Rightarrow> string + 'addr"
  lower_hex :: "'addr \<Rightarrow> string"

definition normalize_addr :: "string \<Rightarrow> string" where
  "normalize_addr s = to_ascii_lowercase s"

definition canonical_bytes :: "('sig, 'addr) receipt_env \<Rightarrow> receipt \<Rightarrow> receipt_error + u8 list" where
  "canonical_bytes env r = map_err Canonical (canonical_json env r)"

definition recover_signer :: "('sig, 'addr) receipt_env \<Rightarrow> receipt \<Rightarrow> string \<Rightarrow> receipt_error + 'addr" where
  "recover_signer env r sig_hex =
     (let raw = (case strip_prefix ''0x'' sig_hex of None \<Rightarrow> sig_hex | Some rest \<Rightarrow> rest) in
      res_bind (ok_or BadSignature (decode_hex raw)) (\<lambda>bytes.
      res_bind (ok_or BadSignature (parse_signature env bytes)) (\<lambda>sig.
      res_bind (canonical_bytes env r) (\<lambda>msg.
      map_err Recover (recover_from_msg env sig msg)))))"

definition receipt_offset :: "receipt \<Rightarrow> u64" where
  "receipt_offset r = saturating_mul (rc_chunk_index r) CHUNK_SIZE"

type_synonym dedup_key = "string \<times> string \<times> u64"

definition dedup_key :: "receipt \<Rightarrow> dedup_key" where
  "dedup_key r = (normalize_addr (rc_consumer r), to_ascii_lowercase (rc_work_id r), rc_chunk_index r)"

record signed_receipt =
  sr_receipt :: receipt
  sr_node_sig :: string
  sr_consumer_sig :: string

definition signed_verify :: "('sig, 'addr) receipt_env \<Rightarrow> signed_receipt \<Rightarrow> receipt_error + unit" where
  "signed_verify env s =
     res_bind (recover_signer env (sr_receipt s) (sr_node_sig s)) (\<lambda>node.
     if lower_hex env node \<noteq> normalize_addr (rc_node (sr_receipt s)) then Inl (SignerMismatch ''node'')
     else
       res_bind (recover_signer env (sr_receipt s) (sr_consumer_sig s)) (\<lambda>consumer.
       if lower_hex env consumer \<noteq> normalize_addr (rc_consumer (sr_receipt s)) then Inl (SignerMismatch ''consumer'')
       else Inr ()))"

record receipt_bundle =
  rb_epoch :: u64
  rb_receipts :: "signed_receipt list"

lemma normalize_idem [simp]: "normalize_addr (normalize_addr s) = normalize_addr s"
  by (simp add: normalize_addr_def)

lemma recover_signer_Inr:
  "recover_signer env r sig_hex = Inr a \<longleftrightarrow>
     (\<exists>bytes sig msg. decode_hex (case strip_prefix ''0x'' sig_hex of None \<Rightarrow> sig_hex | Some rest \<Rightarrow> rest) = Some bytes
        \<and> parse_signature env bytes = Some sig \<and> canonical_json env r = Inr msg \<and> recover_from_msg env sig msg = Inr a)"
  by (auto simp: recover_signer_def canonical_bytes_def res_bind_eq_Inr ok_or_eq_Inr map_err_eq_Inr)

lemma signed_verify_Inr:
  "is_ok (signed_verify env s) \<longleftrightarrow>
     (\<exists>node consumer. recover_signer env (sr_receipt s) (sr_node_sig s) = Inr node
        \<and> lower_hex env node = normalize_addr (rc_node (sr_receipt s))
        \<and> recover_signer env (sr_receipt s) (sr_consumer_sig s) = Inr consumer
        \<and> lower_hex env consumer = normalize_addr (rc_consumer (sr_receipt s)))"
  by (auto simp: signed_verify_def is_ok_iff res_bind_eq_Inr split: if_splits)

text \<open>
  Verification succeeds exactly when each signature text decodes to a signature that recovers, over
  the canonical bytes of the receipt, to the address the receipt names, compared without case.
\<close>

definition signed_by :: "('sig, 'addr) receipt_env \<Rightarrow> receipt \<Rightarrow> string \<Rightarrow> string \<Rightarrow> bool" where
  "signed_by env r sig_hex party \<longleftrightarrow>
     (\<exists>msg bytes sig a. canonical_json env r = Inr msg
        \<and> decode_hex (case strip_prefix ''0x'' sig_hex of None \<Rightarrow> sig_hex | Some rest \<Rightarrow> rest) = Some bytes
        \<and> parse_signature env bytes = Some sig \<and> recover_from_msg env sig msg = Inr a
        \<and> lower_hex env a = to_ascii_lowercase party)"

lemma signed_verify_both_parties:
  "is_ok (signed_verify env s) \<longleftrightarrow>
     signed_by env (sr_receipt s) (sr_node_sig s) (rc_node (sr_receipt s))
   \<and> signed_by env (sr_receipt s) (sr_consumer_sig s) (rc_consumer (sr_receipt s))"
  unfolding signed_verify_Inr recover_signer_Inr normalize_addr_def signed_by_def by blast

lemma unat_receipt_offset:
  "unat (receipt_offset r) = min (unat (rc_chunk_index r) * 131072) (2 ^ 64 - 1)"
  by (simp add: receipt_offset_def unat_saturating_mul CHUNK_SIZE_def)

end
