(* ===== verification/Credibility.thy ===== *)
theory Credibility
  imports Receipt Dapr
begin

text \<open>
  \<open>services/settlement/src/receipts.rs\<close>: which receipts of a bundle count, the verified bytes per
  (consumer, work), the per-user evidence factor and the credibility of each row. The
  credential check is the closure argument of the code. Warnings on stderr are not modelled.
\<close>

definition RATE_SCALE :: u128 where
  "RATE_SCALE = 1000000000000"

definition mul_div_floor :: "u128 \<Rightarrow> u128 \<Rightarrow> u128 \<Rightarrow> u128" where
  "mul_div_floor a b d =
     (let q = a div d; r = a mod d
      in saturating_add (saturating_mul q b) (saturating_mul r b div d))"

section \<open>Accepting receipts\<close>

type_synonym byte_totals = "(string \<times> string, u128) btree_map"

record accept_state =
  ac_totals :: byte_totals
  ac_seen :: "dedup_key btree_set"

definition accept_one ::
    "('sig, 'addr) receipt_env \<Rightarrow> u64 \<Rightarrow> (string \<Rightarrow> bool) \<Rightarrow> accept_state \<Rightarrow> signed_receipt \<Rightarrow> accept_state" where
  "accept_one env epoch credentialed s sr =
     (let r = sr_receipt sr in
      if \<not> is_ok (signed_verify env sr) then s
      else if rc_epoch r \<noteq> epoch then s
      else if \<not> credentialed (normalize_addr (rc_node r)) then s
      else
        let key = dedup_key r in
        if bs_contains (ac_seen s) key then s
        else s\<lparr>ac_seen := bs_insert key (ac_seen s),
               ac_totals := bt_update 0 (\<lambda>n. saturating_add n (ucast (min (rc_bytes r) CHUNK_SIZE)))
                 (normalize_addr (rc_consumer r), to_ascii_lowercase (rc_work_id r)) (ac_totals s)\<rparr>)"

definition accept_receipts ::
    "('sig, 'addr) receipt_env \<Rightarrow> receipt_bundle \<Rightarrow> u64 \<Rightarrow> (string \<Rightarrow> bool) \<Rightarrow> byte_totals" where
  "accept_receipts env bundle epoch credentialed =
     ac_totals (foldl (accept_one env epoch credentialed) \<lparr>ac_totals = [], ac_seen = []\<rparr> (rb_receipts bundle))"

section \<open>The per-user evidence factor\<close>

definition user_bytes :: "byte_totals \<Rightarrow> (string, u128) btree_map" where
  "user_bytes verified =
     foldl (\<lambda>m ((user, _), bytes). bt_update 0 (\<lambda>n. saturating_add n bytes) (normalize_addr user) m) [] verified"

definition epoch_factor_ppm :: "byte_totals \<Rightarrow> u64 \<Rightarrow> (string, u64) btree_map" where
  "epoch_factor_ppm verified min_epoch_bytes =
     (let totals = user_bytes verified in
      if min_epoch_bytes = 0 then map (\<lambda>(u, _). (u, 1000000)) totals
      else map (\<lambda>(user, bytes).
             (user, ucast (min (mul_div_floor bytes 1000000 (ucast min_epoch_bytes)) 1000000))) totals)"

section \<open>The credibility of a row\<close>

definition row_credibility ::
    "byte_totals \<Rightarrow> (string, u64) btree_map \<Rightarrow> (string, u64) btree_map \<Rightarrow> raw_row \<Rightarrow> u64" where
  "row_credibility verified rates epoch_factor row =
     (let work = to_ascii_lowercase (rr_work row);
          factor = bt_get_or 0 epoch_factor (normalize_addr (rr_user row))
      in case bt_get rates work of
           None \<Rightarrow> 0
         | Some rate64 \<Rightarrow>
             if \<not> rate64 > 0 then 0
             else if rr_raw row = 0 then factor
             else
               let rate = ucast rate64 :: u128;
                   expected = max (mul_div_floor (rr_raw row) rate RATE_SCALE) 1;
                   bytes = bt_get_or 0 verified (normalize_addr (rr_user row), work);
                   ppm = mul_div_floor bytes 1000000 expected;
                   row_ppm = (ucast (min ppm 1000000) :: u64)
               in ucast (mul_div_floor (ucast row_ppm) (ucast factor) 1000000))"

definition row_credibility_ppm ::
    "raw_row list \<Rightarrow> byte_totals \<Rightarrow> (string, u64) btree_map \<Rightarrow> (string, u64) btree_map \<Rightarrow> u64 list" where
  "row_credibility_ppm rows verified rates epoch_factor =
     map (row_credibility verified rates epoch_factor) rows"

section \<open>The floored quotient\<close>

definition U128_MAX :: nat where "U128_MAX = 2 ^ 128 - 1"

lemma unat_le_U128_MAX: "unat (a :: u128) \<le> U128_MAX"
  using u128_lt [of a] by (simp add: U128_MAX_def)

lemma mul_div_floor_nat:
  assumes "d \<noteq> 0" and "unat a mod unat d * unat b < 2 ^ 128"
  shows "unat (mul_div_floor a b d) = min (unat a * unat b div unat d) U128_MAX"
proof -
  let ?q = "unat a div unat d" and ?r = "unat a mod unat d"
  have d: "0 < unat d" using assms(1) by (simp add: unat_gt_0)
  have "unat a * unat b = unat d * (?q * unat b) + ?r * unat b"
    by (metis add_mult_distrib mult.assoc mult_div_mod_eq)
  then have split: "unat a * unat b div unat d = ?q * unat b + ?r * unat b div unat d"
    using d by simp
  have "unat (saturating_mul (a mod d) b div d) = ?r * unat b div unat d"
    using assms(2) by (simp add: unat_div_distrib unat_saturating_mul unat_mod_distrib)
  then show ?thesis
    by (auto simp: mul_div_floor_def Let_def unat_saturating_add unat_saturating_mul unat_div_distrib
        split U128_MAX_def min_def)
qed

section \<open>Accepted receipts\<close>

definition eligible :: "('sig, 'addr) receipt_env \<Rightarrow> u64 \<Rightarrow> (string \<Rightarrow> bool) \<Rightarrow> signed_receipt \<Rightarrow> bool" where
  "eligible env epoch credentialed sr \<longleftrightarrow>
     is_ok (signed_verify env sr) \<and> rc_epoch (sr_receipt sr) = epoch
     \<and> credentialed (normalize_addr (rc_node (sr_receipt sr)))"

definition pair_of :: "signed_receipt \<Rightarrow> string \<times> string" where
  "pair_of sr = (normalize_addr (rc_consumer (sr_receipt sr)), to_ascii_lowercase (rc_work_id (sr_receipt sr)))"

definition key_of :: "signed_receipt \<Rightarrow> dedup_key" where
  "key_of sr = dedup_key (sr_receipt sr)"

definition counted_bytes :: "signed_receipt \<Rightarrow> nat" where
  "counted_bytes sr = min (unat (rc_bytes (sr_receipt sr))) 131072"

lemma key_pair: "key_of sr = (fst (pair_of sr), snd (pair_of sr), rc_chunk_index (sr_receipt sr))"
  by (simp add: key_of_def pair_of_def dedup_key_def)

text \<open>The receipts whose content position has not been seen before.\<close>

fun firsts :: "dedup_key set \<Rightarrow> signed_receipt list \<Rightarrow> signed_receipt list" where
  "firsts seen [] = []"
| "firsts seen (sr # srs) =
     (if key_of sr \<in> seen then firsts seen srs else sr # firsts (insert (key_of sr) seen) srs)"

lemma set_firsts: "set (firsts seen srs) \<subseteq> set srs"
  by (induction seen srs rule: firsts.induct) auto

lemma firsts_keys: "key_of ` set (firsts seen srs) = key_of ` set srs - seen"
  by (induction seen srs rule: firsts.induct) auto

lemma distinct_firsts: "distinct (map key_of (firsts seen srs))"
proof (induction seen srs rule: firsts.induct)
  case (2 seen sr srs)
  then show ?case using firsts_keys [of "insert (key_of sr) seen" srs] by (auto simp: image_iff)
qed simp

lemma firsts_append:
  "firsts seen (xs @ ys) = firsts seen xs @ firsts (seen \<union> key_of ` set xs) ys"
  by (induction seen xs rule: firsts.induct) (auto simp: insert_absorb Un_commute)

lemma firsts_all_seen: "key_of ` set srs \<subseteq> seen \<Longrightarrow> firsts seen srs = []"
  by (induction seen srs rule: firsts.induct) auto

definition credited :: "string \<times> string \<Rightarrow> signed_receipt list \<Rightarrow> nat" where
  "credited k srs = (\<Sum>sr\<leftarrow>srs. if pair_of sr = k then counted_bytes sr else 0)"

lemma credited_simps [simp]:
  "credited k [] = 0" "credited k (sr # srs) = (if pair_of sr = k then counted_bytes sr else 0) + credited k srs"
  by (simp_all add: credited_def)

lemma min_chunk: "unat (ucast (min b CHUNK_SIZE) :: u128) = min (unat b) 131072"
  by (simp add: unat_u64_u128 unat_min CHUNK_SIZE_def)

lemma accept_fold:
  assumes "bs_wf (ac_seen s)"
  shows "unat (bt_get_or 0 (ac_totals (foldl (accept_one env epoch cred) s srs)) k)
       = min (unat (bt_get_or 0 (ac_totals s) k)
           + credited k (firsts (set (ac_seen s)) (List.filter (eligible env epoch cred) srs))) U128_MAX"
  using assms
proof (induction srs arbitrary: s)
  case Nil
  then show ?case using unat_le_U128_MAX by (simp add: min_absorb1)
next
  case (Cons sr srs)
  let ?s1 = "accept_one env epoch cred s sr"
  show ?case
  proof (cases "eligible env epoch cred sr \<and> key_of sr \<notin> set (ac_seen s)")
    case True
    then have s1: "ac_seen ?s1 = bs_insert (key_of sr) (ac_seen s)"
      and tot: "ac_totals ?s1 = bt_update 0 (\<lambda>n. saturating_add n (ucast (min (rc_bytes (sr_receipt sr)) CHUNK_SIZE)))
                 (pair_of sr) (ac_totals s)"
      by (simp_all add: accept_one_def Let_def eligible_def key_of_def bs_contains_def pair_of_def)
    have "unat (bt_get_or 0 (ac_totals ?s1) k)
        = min (unat (bt_get_or 0 (ac_totals s) k) + (if pair_of sr = k then counted_bytes sr else 0)) U128_MAX"
      using unat_le_U128_MAX
      by (auto simp: tot bt_get_or_def bt_get_update unat_saturating_add min_chunk counted_bytes_def U128_MAX_def min_absorb1)
    with True Cons.IH [of ?s1] Cons.prems show ?thesis by (simp add: s1)
  next
    case False
    then have "?s1 = s"
      by (auto simp: accept_one_def Let_def eligible_def key_of_def bs_contains_def)
    with False Cons show ?thesis by auto
  qed
qed

lemma accept_spec:
  "unat (bt_get_or 0 (accept_receipts env b epoch cred) k)
     = min (credited k (firsts {} (List.filter (eligible env epoch cred) (rb_receipts b)))) U128_MAX"
  using accept_fold [of "\<lparr>ac_totals = [], ac_seen = []\<rparr>" env epoch cred "rb_receipts b" k]
  by (simp add: accept_receipts_def bt_get_or_def)

lemma credited_le_chunks:
  assumes "distinct (map key_of srs)"
  shows "credited k srs \<le> 131072 * card {rc_chunk_index (sr_receipt sr) | sr. sr \<in> set srs \<and> pair_of sr = k}"
proof -
  let ?ks = "List.filter (\<lambda>sr. pair_of sr = k) srs"
  let ?ix = "\<lambda>sr. rc_chunk_index (sr_receipt sr)"
  have "credited k srs \<le> 131072 * length ?ks"
    by (induction srs) (auto simp: counted_bytes_def)
  moreover have "inj_on ?ix (set ?ks)"
    using assms by (auto simp: inj_on_def distinct_map key_pair)
  moreover have "distinct ?ks" using assms by (simp add: distinct_map)
  then have "length ?ks = card (set ?ks)" by (rule distinct_card [symmetric])
  ultimately have "credited k srs \<le> 131072 * card (?ix ` set ?ks)"
    by (simp only: card_image)
  moreover have "?ix ` set ?ks = {?ix sr | sr. sr \<in> set srs \<and> pair_of sr = k}" by auto
  ultimately show ?thesis by simp
qed

section \<open>The evidence factor\<close>

definition user_total :: "byte_totals \<Rightarrow> string \<Rightarrow> nat" where
  "user_total verified u = (\<Sum>((user, _), bytes)\<leftarrow>verified. if normalize_addr user = u then unat bytes else 0)"

lemma user_bytes_get:
  "unat (bt_get_or 0 (user_bytes verified) u) = min (user_total verified u) U128_MAX"
proof -
  have "unat (bt_get_or 0 (foldl (\<lambda>m ((user, _), bytes). bt_update 0 (\<lambda>n. saturating_add n bytes) (normalize_addr user) m) m verified) u)
      = min (unat (bt_get_or 0 m u) + user_total verified u) U128_MAX" for m
  proof (induction verified arbitrary: m)
    case Nil
    then show ?case using unat_le_U128_MAX by (simp add: user_total_def min_absorb1)
  next
    case (Cons e verified)
    obtain user w b where e: "e = ((user, w), b)" by (metis prod.exhaust)
    let ?m1 = "bt_update 0 (\<lambda>n. saturating_add n b) (normalize_addr user) m"
    have "unat (bt_get_or 0 ?m1 u) = min (unat (bt_get_or 0 m u) + (if normalize_addr user = u then unat b else 0)) U128_MAX"
      using unat_le_U128_MAX
      by (auto simp: bt_get_or_def bt_get_update unat_saturating_add U128_MAX_def min_absorb1)
    with Cons.IH [of ?m1] show ?case by (simp add: e user_total_def)
  qed
  from this [of "[]"] show ?thesis by (simp add: user_bytes_def bt_get_or_def)
qed

lemma user_bytes_wf: "bt_wf (user_bytes verified)"
proof -
  have "bt_wf m \<Longrightarrow> bt_wf (foldl (\<lambda>m ((user, _), bytes). bt_update 0 (\<lambda>n. saturating_add n bytes) (normalize_addr user) m) m verified)" for m
    by (induction verified arbitrary: m) auto
  then show ?thesis by (simp add: user_bytes_def)
qed

lemma user_bytes_contains:
  "bt_get (user_bytes verified) u \<noteq> None \<longleftrightarrow> u \<in> (\<lambda>e. normalize_addr (fst (fst e))) ` set verified"
proof -
  have "bt_get (foldl (\<lambda>m ((user, _), bytes). bt_update 0 (\<lambda>n. saturating_add n bytes) (normalize_addr user) m) m verified) u \<noteq> None
      \<longleftrightarrow> bt_get m u \<noteq> None \<or> u \<in> (\<lambda>e. normalize_addr (fst (fst e))) ` set verified" for m
    by (induction verified arbitrary: m) (auto simp: bt_get_update)
  from this [of "[]"] show ?thesis by (simp add: user_bytes_def)
qed

lemma bt_get_map_values: "bt_get (map (\<lambda>(k, v). (k, f v)) m) k = map_option f (bt_get m k)"
  by (induction m) auto

text \<open>The factor of a user as a natural number, zero without evidence.\<close>

definition factor_nat :: "byte_totals \<Rightarrow> nat \<Rightarrow> string \<Rightarrow> nat" where
  "factor_nat verified min_bytes u =
     (if u \<notin> (\<lambda>e. normalize_addr (fst (fst e))) ` set verified then 0
      else if min_bytes = 0 then 1000000
      else min (min (user_total verified u) U128_MAX * 1000000 div min_bytes) 1000000)"

lemma epoch_factor_nat:
  "unat (bt_get_or 0 (epoch_factor_ppm verified m) u) = factor_nat verified (unat m) u"
proof -
  let ?ub = "user_bytes verified"
  have some: "bt_get ?ub u = Some (bt_get_or 0 ?ub u)" if "bt_get ?ub u \<noteq> None"
    using that by (auto simp: bt_get_or_def)
  have clamp: "unat (ucast (min x 1000000 :: u128) :: u64) = min (unat x) 1000000" for x
    by (subst unat_ucast_exact) (simp_all add: unat_min min_less_iff_disj)
  show ?thesis
  proof (cases "bt_get ?ub u = None")
    case True
    then have "u \<notin> (\<lambda>e. normalize_addr (fst (fst e))) ` set verified" using user_bytes_contains by blast
    moreover from True have "bt_get (epoch_factor_ppm verified m) u = None"
      by (simp add: epoch_factor_ppm_def Let_def bt_get_map_values)
    ultimately show ?thesis by (simp add: factor_nat_def bt_get_or_def)
  next
    case False
    then have ev: "u \<in> (\<lambda>e. normalize_addr (fst (fst e))) ` set verified" using user_bytes_contains by blast
    show ?thesis
    proof (cases "m = 0")
      case True
      with False ev show ?thesis
        by (auto simp: epoch_factor_ppm_def Let_def bt_get_map_values bt_get_or_def factor_nat_def)
    next
      case m: False
      let ?b = "bt_get_or 0 ?ub u"
      have um: "unat (ucast m :: u128) = unat m" by (rule unat_u64_u128)
      have "unat ?b mod unat m * 1000000 < 2 ^ 64 * 1000000"
        using u64_lt [of m] m by (intro mult_strict_right_mono) (auto intro: order.strict_trans [OF mod_less_divisor] simp: unat_gt_0)
      then have "unat (mul_div_floor ?b 1000000 (ucast m)) = min (unat ?b * 1000000 div unat m) U128_MAX"
        using m by (subst mul_div_floor_nat) (auto simp: um simp flip: unat_eq_0)
      moreover have "bt_get (epoch_factor_ppm verified m) u
          = Some (ucast (min (mul_div_floor ?b 1000000 (ucast m)) 1000000))"
        using m some [OF False] by (simp add: epoch_factor_ppm_def Let_def bt_get_map_values)
      then have "bt_get_or 0 (epoch_factor_ppm verified m) u
          = ucast (min (mul_div_floor ?b 1000000 (ucast m)) 1000000)"
        by (simp add: bt_get_or_def)
      ultimately have "unat (bt_get_or 0 (epoch_factor_ppm verified m) u)
          = min (min (unat ?b * 1000000 div unat m) U128_MAX) 1000000"
        by (simp only: clamp)
      also have "\<dots> = min (unat ?b * 1000000 div unat m) 1000000"
        by (simp add: U128_MAX_def min.assoc)
      also have "\<dots> = factor_nat verified (unat m) u"
        using m ev by (simp add: factor_nat_def user_bytes_get unat_eq_0)
      finally show ?thesis .
    qed
  qed
qed

lemma factor_nat_le: "factor_nat verified m u \<le> 1000000"
  by (simp add: factor_nat_def)

section \<open>The credibility of a row as a natural number\<close>

definition expected_nat :: "u128 \<Rightarrow> u64 \<Rightarrow> nat" where
  "expected_nat raw rate = max (min (unat raw * unat rate div 1000000000000) U128_MAX) 1"

definition credibility_nat :: "nat \<Rightarrow> (string, u64) btree_map \<Rightarrow> nat \<Rightarrow> raw_row \<Rightarrow> nat" where
  "credibility_nat bytes rates factor row =
     (case bt_get rates (to_ascii_lowercase (rr_work row)) of
        None \<Rightarrow> 0
      | Some rate \<Rightarrow>
          if rate = 0 then 0
          else if rr_raw row = 0 then factor
          else min (bytes * 1000000 div expected_nat (rr_raw row) rate) 1000000 * factor div 1000000)"

definition row_bytes :: "byte_totals \<Rightarrow> raw_row \<Rightarrow> u128" where
  "row_bytes verified row = bt_get_or 0 verified (normalize_addr (rr_user row), to_ascii_lowercase (rr_work row))"

lemma expected_unat:
  "unat (max (mul_div_floor raw (ucast (rate :: u64)) RATE_SCALE) 1) = expected_nat raw rate"
proof -
  have s: "unat RATE_SCALE = 1000000000000" "RATE_SCALE \<noteq> 0" by (simp_all add: RATE_SCALE_def)
  have "unat raw mod unat RATE_SCALE * unat (ucast rate :: u128) < 1000000000000 * 2 ^ 64"
    using u64_lt [of rate] by (intro mult_strict_mono) (simp_all add: s unat_u64_u128)
  then have "unat (mul_div_floor raw (ucast rate) RATE_SCALE) = min (unat raw * unat rate div 1000000000000) U128_MAX"
    by (subst mul_div_floor_nat) (simp_all add: s unat_u64_u128)
  then show ?thesis by (simp add: unat_max expected_nat_def)
qed

lemma clamp_ppm: "unat (ucast (min x 1000000 :: u128) :: u64) = min (unat x) 1000000"
  by (subst unat_ucast_exact) (simp_all add: unat_min min_less_iff_disj)

lemma row_credibility_nat:
  assumes "unat (row_bytes verified row) < 2 ^ 108"
    and "unat (bt_get_or 0 ef (normalize_addr (rr_user row))) \<le> 1000000"
  shows "unat (row_credibility verified rates ef row)
       = credibility_nat (unat (row_bytes verified row)) rates
           (unat (bt_get_or 0 ef (normalize_addr (rr_user row)))) row"
proof -
  let ?f = "bt_get_or 0 ef (normalize_addr (rr_user row))" and ?b = "row_bytes verified row"
  show ?thesis
  proof (cases "bt_get rates (to_ascii_lowercase (rr_work row))")
    case None
    then show ?thesis by (simp add: row_credibility_def credibility_nat_def)
  next
    case (Some rate)
    show ?thesis
    proof (cases "rate = 0 \<or> rr_raw row = 0")
      case True
      with Some show ?thesis by (auto simp: row_credibility_def credibility_nat_def Let_def word_gt_0)
    next
      case False
      let ?e = "max (mul_div_floor (rr_raw row) (ucast rate) RATE_SCALE) 1"
      have e: "?e \<noteq> 0" using expected_unat [of "rr_raw row" rate]
        by (auto simp: expected_nat_def simp flip: unat_eq_0)
      have "unat ?b mod unat ?e < 2 ^ 108"
        by (rule order.strict_trans1 [OF mod_less_eq_dividend assms(1)])
      then have "unat ?b mod unat ?e * unat (1000000 :: u128) < 2 ^ 108 * 1000000" by simp
      then have "unat (mul_div_floor ?b 1000000 ?e)
          = min (unat ?b * 1000000 div expected_nat (rr_raw row) rate) U128_MAX"
        using e by (subst mul_div_floor_nat) (simp_all add: expected_unat)
      then have rp: "unat (ucast (min (mul_div_floor ?b 1000000 ?e) 1000000) :: u64)
          = min (unat ?b * 1000000 div expected_nat (rr_raw row) rate) 1000000"
        by (simp add: clamp_ppm U128_MAX_def min.assoc)
      let ?r = "ucast (min (mul_div_floor ?b 1000000 ?e) 1000000) :: u64"
      have r6: "unat ?r \<le> 1000000" by (simp add: rp)
      have "unat ?r mod 1000000 * unat ?f < 1000000 * 1000001"
        using assms(2) by (intro mult_strict_mono) simp_all
      then have fold: "unat (mul_div_floor (ucast ?r) (ucast ?f) 1000000)
          = min (unat ?r * unat ?f div 1000000) U128_MAX"
        by (subst mul_div_floor_nat) (simp_all add: unat_u64_u128)
      have "unat ?r * unat ?f div 1000000 \<le> 1000000 * 1000000 div 1000000"
        using r6 assms(2) by (intro div_le_mono mult_mono) simp_all
      then have le: "unat ?r * unat ?f div 1000000 \<le> 1000000" by simp
      then have "unat (ucast (mul_div_floor (ucast ?r) (ucast ?f) 1000000) :: u64) = unat ?r * unat ?f div 1000000"
        using fold by (subst unat_ucast_exact) (simp_all add: U128_MAX_def)
      moreover have "row_credibility verified rates ef row
          = ucast (mul_div_floor (ucast ?r) (ucast ?f) 1000000)"
        using Some False by (simp add: row_credibility_def Let_def word_gt_0 row_bytes_def)
      ultimately show ?thesis using Some False by (simp add: credibility_nat_def rp)
    qed
  qed
qed

lemma credibility_nat_le: "factor \<le> 1000000 \<Longrightarrow> credibility_nat bytes rates factor row \<le> factor"
proof -
  assume "factor \<le> 1000000"
  have "min x 1000000 * factor div 1000000 \<le> 1000000 * factor div 1000000" for x
    by (intro div_le_mono mult_le_mono1) simp
  then show ?thesis by (auto simp: credibility_nat_def split: option.splits)
qed

lemma credibility_nat_mono:
  assumes "bytes \<le> bytes'" and "factor \<le> factor'"
  shows "credibility_nat bytes rates factor row \<le> credibility_nat bytes' rates factor' row"
proof -
  have "min (bytes * 1000000 div e) 1000000 * factor div 1000000 \<le> min (bytes' * 1000000 div e) 1000000 * factor' div 1000000" for e
    using assms by (intro div_le_mono mult_le_mono min.mono mult_le_mono1) simp_all
  then show ?thesis using assms by (auto simp: credibility_nat_def split: option.splits)
qed

lemma card_u64_set: "card (A :: u64 set) \<le> 2 ^ 64"
proof -
  have "inj_on unat A" by (auto simp: inj_on_def word_unat_eq_iff)
  then have "card A = card (unat ` A)" by (simp add: card_image)
  also have "\<dots> \<le> card {..<(2::nat) ^ 64}"
    by (intro card_mono) (use u64_lt in auto)
  finally show ?thesis by simp
qed

lemma accept_wf: "bt_wf (accept_receipts env b epoch cred)"
proof -
  have "bt_wf (ac_totals s) \<Longrightarrow> bt_wf (ac_totals (foldl (accept_one env epoch cred) s srs))" for s srs
    by (induction srs arbitrary: s) (auto simp: accept_one_def Let_def)
  then show ?thesis by (simp add: accept_receipts_def)
qed

lemma accepted_chunk_bound:
  "unat (bt_get_or 0 (accept_receipts env b epoch cred) k)
     \<le> 131072 * card {rc_chunk_index (sr_receipt sr) | sr.
          sr \<in> set (rb_receipts b) \<and> eligible env epoch cred sr \<and> pair_of sr = k}"
proof -
  let ?E = "List.filter (eligible env epoch cred) (rb_receipts b)"
  let ?S = "\<lambda>srs. {rc_chunk_index (sr_receipt sr) | sr. sr \<in> srs \<and> pair_of sr = k}"
  have "unat (bt_get_or 0 (accept_receipts env b epoch cred) k) \<le> credited k (firsts {} ?E)"
    by (simp add: accept_spec)
  also have "\<dots> \<le> 131072 * card (?S (set (firsts {} ?E)))"
    by (rule credited_le_chunks [OF distinct_firsts])
  also have "\<dots> \<le> 131072 * card (?S (set ?E))"
    using set_firsts [of "{}" ?E] by (intro mult_le_mono2 card_mono) auto
  also have "?S (set ?E) = {rc_chunk_index (sr_receipt sr) | sr.
          sr \<in> set (rb_receipts b) \<and> eligible env epoch cred sr \<and> pair_of sr = k}" by auto
  finally show ?thesis .
qed

lemma accepted_small: "unat (bt_get_or 0 (accept_receipts env b epoch cred) k) < 2 ^ 108"
proof -
  have "unat (bt_get_or 0 (accept_receipts env b epoch cred) k) \<le> 131072 * 2 ^ 64"
    by (rule order_trans [OF accepted_chunk_bound]) (intro mult_le_mono2 card_u64_set)
  then show ?thesis by simp
qed

section \<open>Monotonicity of the evidence\<close>

definition totals_le :: "byte_totals \<Rightarrow> byte_totals \<Rightarrow> bool" where
  "totals_le v v' \<longleftrightarrow> (\<forall>k b. bt_get v k = Some b \<longrightarrow> (\<exists>b'. bt_get v' k = Some b' \<and> b \<le> b'))"

lemma wf_sum_as_set:
  assumes "bt_wf m"
  shows "(\<Sum>e\<leftarrow>m. f e) = (\<Sum>k \<in> fst ` set m. f (k, the (bt_get m k)) :: nat)"
proof -
  have d: "distinct (map fst m)" by (rule bt.distinct_keys [OF assms])
  then have "(\<Sum>e\<leftarrow>m. f e) = (\<Sum>e \<in> set m. f e)"
    by (simp add: sum_list_distinct_conv_sum_set distinct_map)
  also have "\<dots> = (\<Sum>e \<in> set m. f (fst e, the (bt_get m (fst e))))"
    by (rule sum.cong) (use bt_entries_get [OF assms] in auto)
  also have "\<dots> = (\<Sum>k \<in> fst ` set m. f (k, the (bt_get m k)))"
    using d by (subst sum.reindex) (simp_all add: distinct_map)
  finally show ?thesis .
qed

lemma totals_le_keys:
  assumes "bt_wf v" and "bt_wf v'" and "totals_le v v'"
  shows "fst ` set v \<subseteq> fst ` set v'"
proof
  fix k assume "k \<in> fst ` set v"
  then obtain b where "bt_get v k = Some b" using bt.keys_get [OF assms(1)] by auto
  then obtain b' where "bt_get v' k = Some b'" using assms(3) unfolding totals_le_def by blast
  then show "k \<in> fst ` set v'" using bt.keys_get [OF assms(2)] by simp
qed

lemma user_total_mono:
  assumes "bt_wf v" and "bt_wf v'" and "totals_le v v'"
  shows "user_total v u \<le> user_total v' u"
proof -
  let ?f = "\<lambda>((user, _), bytes). if normalize_addr user = u then unat (bytes :: u128) else (0 :: nat)"
  have "(\<Sum>k \<in> fst ` set v. ?f (k, the (bt_get v k))) \<le> (\<Sum>k \<in> fst ` set v. ?f (k, the (bt_get v' k)))"
  proof (rule sum_mono)
    fix k assume "k \<in> fst ` set v"
    then obtain b where b: "bt_get v k = Some b" using bt.keys_get [OF assms(1)] by auto
    then obtain b' where "bt_get v' k = Some b'" "b \<le> b'" using assms(3) unfolding totals_le_def by blast
    with b show "?f (k, the (bt_get v k)) \<le> ?f (k, the (bt_get v' k))" by (cases k) (simp add: word_le_nat_alt)
  qed
  also have "\<dots> \<le> (\<Sum>k \<in> fst ` set v'. ?f (k, the (bt_get v' k)))"
    by (rule sum_mono2) (use totals_le_keys [OF assms] in auto)
  finally show ?thesis
    unfolding user_total_def wf_sum_as_set [OF assms(1)] wf_sum_as_set [OF assms(2)] .
qed

lemma factor_nat_mono:
  assumes "bt_wf v" and "bt_wf v'" and "totals_le v v'"
  shows "factor_nat v m u \<le> factor_nat v' m u"
proof -
  have "u \<in> (\<lambda>e. normalize_addr (fst (fst e))) ` set v \<Longrightarrow> u \<in> (\<lambda>e. normalize_addr (fst (fst e))) ` set v'"
    using totals_le_keys [OF assms] by (auto simp: image_iff) (metis (no_types, opaque_lifting) fst_conv image_eqI image_iff subsetD surj_pair)
  moreover have "min (min (user_total v u) U128_MAX * 1000000 div m) 1000000
      \<le> min (min (user_total v' u) U128_MAX * 1000000 div m) 1000000"
    using user_total_mono [OF assms] by (intro min.mono div_le_mono mult_le_mono1) simp_all
  ultimately show ?thesis by (simp add: factor_nat_def)
qed

lemma accept_contains:
  "bt_get (accept_receipts env b epoch cred) k \<noteq> None
     \<longleftrightarrow> k \<in> pair_of ` {sr \<in> set (rb_receipts b). eligible env epoch cred sr}"
proof -
  have "bt_get (ac_totals (foldl (accept_one env epoch cred) s srs)) k \<noteq> None
      \<longleftrightarrow> bt_get (ac_totals s) k \<noteq> None
        \<or> k \<in> pair_of ` set (firsts (set (ac_seen s)) (List.filter (eligible env epoch cred) srs))" for s srs
  proof (induction srs arbitrary: s)
    case (Cons sr srs)
    show ?case
    proof (cases "eligible env epoch cred sr \<and> key_of sr \<notin> set (ac_seen s)")
      case True
      then have "ac_seen (accept_one env epoch cred s sr) = bs_insert (key_of sr) (ac_seen s)"
        and "ac_totals (accept_one env epoch cred s sr)
          = bt_update 0 (\<lambda>n. saturating_add n (ucast (min (rc_bytes (sr_receipt sr)) CHUNK_SIZE))) (pair_of sr) (ac_totals s)"
        by (simp_all add: accept_one_def Let_def eligible_def key_of_def bs_contains_def pair_of_def)
      with True Cons.IH [of "accept_one env epoch cred s sr"] show ?thesis by (auto simp: bt_get_update)
    next
      case False
      then have "accept_one env epoch cred s sr = s"
        by (auto simp: accept_one_def Let_def eligible_def key_of_def bs_contains_def)
      with False Cons show ?thesis by auto
    qed
  qed simp
  from this [of "\<lparr>ac_totals = [], ac_seen = []\<rparr>" "rb_receipts b"]
  have iff: "bt_get (accept_receipts env b epoch cred) k \<noteq> None
     \<longleftrightarrow> k \<in> pair_of ` set (firsts {} (List.filter (eligible env epoch cred) (rb_receipts b)))"
    by (simp add: accept_receipts_def)
  have pk: "pair_of ` A = (\<lambda>(c, w, i). (c, w)) ` key_of ` A" for A
    by (force simp: key_pair image_image)
  have "pair_of ` set (firsts {} srs) = pair_of ` set srs" for srs
    unfolding pk firsts_keys by simp
  with iff show ?thesis by simp
qed

lemma credited_append: "credited k (xs @ ys) = credited k xs + credited k ys"
  by (simp add: credited_def)

lemma accept_append_le:
  "totals_le (accept_receipts env b epoch cred)
     (accept_receipts env (b\<lparr>rb_receipts := rb_receipts b @ extra\<rparr>) epoch cred)"
proof -
  let ?V = "accept_receipts env b epoch cred"
  let ?V' = "accept_receipts env (b\<lparr>rb_receipts := rb_receipts b @ extra\<rparr>) epoch cred"
  have le: "bt_get_or 0 ?V k \<le> bt_get_or 0 ?V' k" for k
    unfolding word_le_nat_alt accept_spec by (intro min.mono) (simp_all add: firsts_append credited_append)
  have "\<exists>v'. bt_get ?V' k = Some v' \<and> v \<le> v'" if v: "bt_get ?V k = Some v" for k v
  proof -
    have "k \<in> pair_of ` {sr \<in> set (rb_receipts b). eligible env epoch cred sr}"
      using v accept_contains [of env b epoch cred k] by simp
    then have "bt_get ?V' k \<noteq> None" unfolding accept_contains by auto
    with le [of k] v show ?thesis by (auto simp: bt_get_or_def)
  qed
  then show ?thesis by (auto simp: totals_le_def)
qed

section \<open>Properties\<close>

definition demo_env :: "(u8 list, string) receipt_env" where
  "demo_env = \<lparr>canonical_json = (\<lambda>_. Inr []), parse_signature = Some,
     recover_from_msg = (\<lambda>sig _. Inr (hex_string sig)), lower_hex = (\<lambda>a. a)\<rparr>"

definition demo_receipt :: "string \<Rightarrow> u64 \<Rightarrow> u64 \<Rightarrow> signed_receipt" where
  "demo_receipt work index bytes =
     \<lparr>sr_receipt = \<lparr>rc_work_id = work, rc_consumer = ''cc'', rc_node = ''AA'', rc_chunk_index = index,
        rc_bytes = bytes, rc_epoch = 3\<rparr>, sr_node_sig = ''0xaa'', sr_consumer_sig = ''cc''\<rparr>"

definition demo_bundle :: receipt_bundle where
  "demo_bundle = \<lparr>rb_epoch = 3, rb_receipts =
     [demo_receipt ''w'' 0 131072, demo_receipt ''w'' 0 999999, demo_receipt ''w'' 1 5, demo_receipt ''v'' 0 200000]\<rparr>"

lemma accepted_credibility_nat:
  fixes env b epoch cred min_bytes
  defines "v \<equiv> accept_receipts env b epoch cred"
  shows "unat (row_credibility v rates (epoch_factor_ppm v min_bytes) row)
       = credibility_nat (unat (row_bytes v row)) rates
           (factor_nat v (unat min_bytes) (normalize_addr (rr_user row))) row"
proof -
  have "unat (row_bytes v row) < 2 ^ 108" unfolding row_bytes_def v_def by (rule accepted_small)
  moreover have "unat (bt_get_or 0 (epoch_factor_ppm v min_bytes) (normalize_addr (rr_user row))) \<le> 1000000"
    unfolding epoch_factor_nat by (rule factor_nat_le)
  ultimately show ?thesis using row_credibility_nat [of v row "epoch_factor_ppm v min_bytes" rates]
    unfolding epoch_factor_nat by blast
qed

text \<open>What a bundle earns. The verified bytes of a (consumer, work) pair are the sum, over the
  first receipt of each content position among those that are co-signed, of this epoch and from a
  credentialed node, of their bytes clamped to a chunk; so they never exceed \<open>CHUNK_SIZE\<close> times
  the number of distinct chunks named, however many receipts are submitted.\<close>

theorem accepted_bytes:
  "unat (bt_get_or 0 (accept_receipts env b epoch cred) k)
     = min (credited k (firsts {} (List.filter (eligible env epoch cred) (rb_receipts b)))) U128_MAX
   \<and> unat (bt_get_or 0 (accept_receipts env b epoch cred) k)
       \<le> 131072 * card {rc_chunk_index (sr_receipt sr) | sr.
            sr \<in> set (rb_receipts b) \<and> eligible env epoch cred sr \<and> pair_of sr = k}"
  using accept_spec accepted_chunk_bound by blast

text \<open>C20: replays earn nothing. Appending receipts that are ineligible, or whose content position an
  eligible receipt of the bundle already holds, changes no pair's verified bytes, whatever bytes
  and nodes they name.\<close>

theorem replays_earn_nothing:
  assumes "\<And>sr. \<lbrakk>sr \<in> set extra; eligible env epoch cred sr\<rbrakk>
       \<Longrightarrow> \<exists>old \<in> set (rb_receipts b). eligible env epoch cred old \<and> key_of old = key_of sr"
  shows "bt_get_or 0 (accept_receipts env (b\<lparr>rb_receipts := rb_receipts b @ extra\<rparr>) epoch cred) k
       = bt_get_or 0 (accept_receipts env b epoch cred) k"
proof -
  let ?E = "List.filter (eligible env epoch cred)"
  have "key_of ` set (?E extra) \<subseteq> key_of ` set (?E (rb_receipts b))"
  proof
    fix x assume "x \<in> key_of ` set (?E extra)"
    then obtain sr where sr: "sr \<in> set extra" "eligible env epoch cred sr" "x = key_of sr" by auto
    from assms [OF sr(1,2)] obtain old where "old \<in> set (?E (rb_receipts b))" "key_of old = x"
      unfolding sr(3) by auto
    then show "x \<in> key_of ` set (?E (rb_receipts b))" by blast
  qed
  then have "firsts ({} \<union> key_of ` set (?E (rb_receipts b))) (?E extra) = []"
    by (intro firsts_all_seen) simp
  then show ?thesis
    by (simp add: word_unat_eq_iff accept_spec firsts_append)
qed

theorem replays_earn_nothing_witness:
  "bt_get_or 0 (accept_receipts demo_env (demo_bundle\<lparr>rb_receipts := rb_receipts demo_bundle @ [demo_receipt ''W'' 1 131072]\<rparr>)
      3 (\<lambda>_. True)) (''cc'', ''w'')
   = bt_get_or 0 (accept_receipts demo_env demo_bundle 3 (\<lambda>_. True)) (''cc'', ''w'')"
proof (rule replays_earn_nothing)
  fix sr assume "sr \<in> set [demo_receipt ''W'' 1 131072]"
  then have sr: "sr = demo_receipt ''W'' 1 131072" by simp
  have "eligible demo_env 3 (\<lambda>_. True) (demo_receipt ''w'' 1 5)
      \<and> key_of (demo_receipt ''w'' 1 5) = key_of (demo_receipt ''W'' 1 131072)" by code_simp
  then show "\<exists>old \<in> set (rb_receipts demo_bundle). eligible demo_env 3 (\<lambda>_. True) old \<and> key_of old = key_of sr"
    unfolding sr by (intro bexI [of _ "demo_receipt ''w'' 1 5"]) (simp_all add: demo_bundle_def)
qed

text \<open>The credibility the settlement computes from a bundle. For every bundle, rate table and
  floor, each row's value is exactly the documented two-stage formula over natural numbers (no
  step of the fixed-width arithmetic clips), it never exceeds the user's evidence factor, and that
  factor never exceeds \<open>1_000_000\<close>.\<close>

theorem credibility_of_accepted:
  "let v = accept_receipts env b epoch cred;
       factor = (\<lambda>row. factor_nat v (unat min_bytes) (normalize_addr (rr_user row)));
       out = row_credibility_ppm rows v rates (epoch_factor_ppm v min_bytes)
   in map unat out = map (\<lambda>row. credibility_nat (unat (row_bytes v row)) rates (factor row) row) rows
    \<and> list_all2 (\<lambda>row c. unat c \<le> factor row \<and> factor row \<le> 1000000) rows out"
proof -
  define v where "v = accept_receipts env b epoch cred"
  let ?ef = "epoch_factor_ppm v min_bytes"
  let ?factor = "\<lambda>row. factor_nat v (unat min_bytes) (normalize_addr (rr_user row))"
  have val: "unat (row_credibility v rates ?ef row)
      = credibility_nat (unat (row_bytes v row)) rates (?factor row) row" for row
    unfolding v_def by (rule accepted_credibility_nat)
  have "credibility_nat (unat (row_bytes v row)) rates (?factor row) row \<le> ?factor row" for row
    by (rule credibility_nat_le [OF factor_nat_le])
  then show ?thesis
    unfolding Let_def v_def [symmetric] row_credibility_ppm_def
    by (simp add: val list_all2_conv_all_nth factor_nat_le)
qed

text \<open>Credibility fails closed. A row whose work has no rate, or a rate of zero, and a row of a user
  without a single verified byte total, have credibility zero.\<close>

theorem credibility_fails_closed:
  assumes "bt_get rates (to_ascii_lowercase (rr_work row)) \<in> {None, Some 0}
         \<or> normalize_addr (rr_user row) \<notin> (\<lambda>e. normalize_addr (fst (fst e))) ` set v"
  shows "row_credibility v rates (epoch_factor_ppm v min_bytes) row = 0"
  using assms
proof
  assume "bt_get rates (to_ascii_lowercase (rr_work row)) \<in> {None, Some 0}"
  then show ?thesis by (auto simp: row_credibility_def Let_def)
next
  assume "normalize_addr (rr_user row) \<notin> (\<lambda>e. normalize_addr (fst (fst e))) ` set v"
  then have "unat (bt_get_or 0 (epoch_factor_ppm v min_bytes) (normalize_addr (rr_user row))) = 0"
    unfolding epoch_factor_nat by (simp add: factor_nat_def)
  then have zero: "bt_get_or 0 (epoch_factor_ppm v min_bytes) (normalize_addr (rr_user row)) = 0"
    by (simp add: unat_eq_0)
  have "mul_div_floor a 0 1000000 = 0" for a
    by (simp add: word_unat_eq_iff mul_div_floor_nat)
  then show ?thesis by (simp add: row_credibility_def zero Let_def split: option.splits)
qed

theorem credibility_fails_closed_witness:
  "row_credibility [((''u'', ''w''), 500000)] [(''w'', 960000)]
     (epoch_factor_ppm [((''u'', ''w''), 500000)] 1000) \<lparr>rr_user = ''x'', rr_work = ''w'', rr_raw = 5\<rparr> = 0"
  by (rule credibility_fails_closed) (simp add: normalize_addr_def to_ascii_lowercase_def to_ascii_lower_char_def)

text \<open>Honest evidence never hurts. Adding receipts to a bundle lowers no row's credibility, for
  any rows, rates and floor.\<close>

theorem more_receipts_never_hurt:
  "list_all2 (\<le>)
     (row_credibility_ppm rows (accept_receipts env b epoch cred) rates
        (epoch_factor_ppm (accept_receipts env b epoch cred) min_bytes))
     (row_credibility_ppm rows (accept_receipts env (b\<lparr>rb_receipts := rb_receipts b @ extra\<rparr>) epoch cred) rates
        (epoch_factor_ppm (accept_receipts env (b\<lparr>rb_receipts := rb_receipts b @ extra\<rparr>) epoch cred) min_bytes))"
proof -
  let ?b' = "b\<lparr>rb_receipts := rb_receipts b @ extra\<rparr>"
  let ?v = "accept_receipts env b epoch cred" and ?v' = "accept_receipts env ?b' epoch cred"
  have le: "totals_le ?v ?v'" by (rule accept_append_le)
  have bytes: "unat (row_bytes ?v row) \<le> unat (row_bytes ?v' row)" for row
    unfolding row_bytes_def accept_spec by (intro min.mono) (simp_all add: firsts_append credited_append)
  have "row_credibility ?v rates (epoch_factor_ppm ?v min_bytes) row
      \<le> row_credibility ?v' rates (epoch_factor_ppm ?v' min_bytes) row" for row
    unfolding word_le_nat_alt accepted_credibility_nat
    by (rule credibility_nat_mono [OF bytes factor_nat_mono [OF accept_wf accept_wf le]])
  then show ?thesis by (simp add: row_credibility_ppm_def list_all2_conv_all_nth)
qed

text \<open>The epoch a bundle declares is never compared with its receipts: changing it changes
  nothing.\<close>

theorem bundle_epoch_ignored:
  "accept_receipts env (b\<lparr>rb_epoch := e\<rparr>) epoch cred = accept_receipts env b epoch cred"
  by (simp add: accept_receipts_def)

end
