(* ===== verification/Storage.thy ===== *)
theory Storage
  imports Receipt
begin

text \<open>
  The storage node (\<open>services/storage/src/lib.rs\<close>): the ledger of delivered chunks, the reading of
  a chunk, the all-or-nothing delivery stream, the \<open>content\<close> and \<open>receipt\<close> handlers, and the node
  as a state machine whose steps are requests, polls of open streams and abandoned connections.
  The file system (reading a file of the content directory by name) and the signer are
  parameters. The mutex of the ledger is not modelled: every ledger operation is one step.
\<close>

section \<open>The ledger\<close>

record served_chunk =
  sv_work_id :: string
  sv_consumer :: string
  sv_bytes :: u64

record ledger =
  lg_entries :: "(dedup_key, served_chunk) btree_map"

definition ledger_key :: "string \<Rightarrow> string \<Rightarrow> u64 \<Rightarrow> dedup_key" where
  "ledger_key consumer work_id chunk_index =
     (normalize_addr consumer, to_ascii_lowercase work_id, chunk_index)"

definition ledger_record :: "string \<Rightarrow> string \<Rightarrow> u64 \<Rightarrow> served_chunk \<Rightarrow> ledger \<Rightarrow> ledger" where
  "ledger_record consumer work_id chunk_index served l =
     l\<lparr>lg_entries := bt_insert (ledger_key consumer work_id chunk_index) served (lg_entries l)\<rparr>"

definition ledger_get :: "ledger \<Rightarrow> string \<Rightarrow> string \<Rightarrow> u64 \<Rightarrow> served_chunk option" where
  "ledger_get l consumer work_id chunk_index = bt_get (lg_entries l) (ledger_key consumer work_id chunk_index)"

datatype storage_error = NotServed | BadWorkId | Content string

definition issue_receipt ::
    "ledger \<Rightarrow> string \<Rightarrow> u64 \<Rightarrow> string \<Rightarrow> string \<Rightarrow> u64 \<Rightarrow> storage_error + receipt" where
  "issue_receipt l node_addr epoch consumer work_id chunk_index =
     res_bind (ok_or NotServed (ledger_get l consumer work_id chunk_index)) (\<lambda>served.
     Inr \<lparr>rc_work_id = to_ascii_lowercase (sv_work_id served),
          rc_consumer = normalize_addr (sv_consumer served),
          rc_node = normalize_addr node_addr, rc_chunk_index = chunk_index,
          rc_bytes = sv_bytes served, rc_epoch = epoch\<rparr>)"

section \<open>Reading a chunk\<close>

definition is_work_id :: "string \<Rightarrow> bool" where
  "is_work_id s =
     (case strip_prefix ''0x'' s of
        Some rest \<Rightarrow> length rest = 64 \<and> list_all is_ascii_hexdigit rest
      | None \<Rightarrow> False)"

definition content_name :: "string \<Rightarrow> string" where
  "content_name work_id = to_ascii_lowercase work_id @ ''.bin''"

definition fragment_for_chunk ::
    "(string \<Rightarrow> string + u8 list) \<Rightarrow> string \<Rightarrow> u64 \<Rightarrow> storage_error + u8 list" where
  "fragment_for_chunk read_file work_id chunk_index =
     (if \<not> is_work_id work_id then Inl BadWorkId
      else
        res_bind (map_err Content (read_file (content_name work_id))) (\<lambda>data.
        let start = min (unat (saturating_mul chunk_index CHUNK_SIZE)) (length data);
            stop = min (start + unat CHUNK_SIZE) (length data)
        in Inr (take (stop - start) (drop start data))))"

section \<open>The delivery stream\<close>

record delivery_stream =
  st_data :: "u8 list"
  st_pos :: nat
  st_piece :: nat
  st_armed :: bool

definition stream_new :: "u8 list \<Rightarrow> nat \<Rightarrow> delivery_stream" where
  "stream_new data piece = \<lparr>st_data = data, st_pos = 0, st_piece = max piece 1, st_armed = True\<rparr>"

text \<open>The item yielded, whether the completion callback runs, and the stream afterwards.\<close>

definition poll_next :: "delivery_stream \<Rightarrow> u8 list option \<times> bool \<times> delivery_stream" where
  "poll_next s =
     (if st_pos s \<ge> length (st_data s) then (None, st_armed s, s\<lparr>st_armed := False\<rparr>)
      else
        let stop = min (st_pos s + st_piece s) (length (st_data s));
            piece = take (stop - st_pos s) (drop (st_pos s) (st_data s))
        in (Some piece, False, s\<lparr>st_pos := stop\<rparr>))"

section \<open>The node\<close>

text \<open>An open response: its stream and the values captured by the completion callback.\<close>

record open_response =
  or_stream :: delivery_stream
  or_served :: served_chunk
  or_consumer :: string
  or_work_id :: string
  or_chunk_index :: u64

definition content_handler ::
    "(string \<Rightarrow> string + u8 list) \<Rightarrow> string \<Rightarrow> string \<Rightarrow> u64 \<Rightarrow> storage_error + open_response" where
  "content_handler read_file work_id consumer chunk_index =
     res_bind (fragment_for_chunk read_file work_id chunk_index) (\<lambda>bytes.
     Inr \<lparr>or_stream = stream_new bytes (16 * 1024),
          or_served = \<lparr>sv_work_id = to_ascii_lowercase work_id, sv_consumer = normalize_addr consumer,
                       sv_bytes = of_nat (length bytes)\<rparr>,
          or_consumer = normalize_addr consumer, or_work_id = to_ascii_lowercase work_id,
          or_chunk_index = chunk_index\<rparr>)"

record node =
  nd_addr :: string
  nd_epoch :: u64
  nd_ledger :: ledger
  nd_responses :: "nat \<Rightarrow> open_response option"
  nd_next :: nat

definition node_start :: "string \<Rightarrow> u64 \<Rightarrow> node" where
  "node_start addr epoch =
     \<lparr>nd_addr = addr, nd_epoch = epoch, nd_ledger = \<lparr>lg_entries = []\<rparr>, nd_responses = (\<lambda>_. None), nd_next = 0\<rparr>"

definition complete_response :: "open_response \<Rightarrow> bool \<Rightarrow> node \<Rightarrow> node" where
  "complete_response o_r fired n =
     (if fired then n\<lparr>nd_ledger := ledger_record (or_consumer o_r) (or_work_id o_r) (or_chunk_index o_r)
                        (or_served o_r) (nd_ledger n)\<rparr>
      else n)"

datatype node_event =
    Requested nat string string u64
  | Refused string string u64 storage_error
  | Sent nat "u8 list"
  | Ended nat
  | Abandoned nat

inductive node_step :: "(string \<Rightarrow> string + u8 list) \<Rightarrow> node \<Rightarrow> node_event \<Rightarrow> node \<Rightarrow> bool"
  for read_file where
  request: "\<lbrakk>content_handler read_file work_id consumer chunk_index = Inr o_r; i = nd_next n\<rbrakk>
     \<Longrightarrow> node_step read_file n (Requested i work_id consumer chunk_index)
           (n\<lparr>nd_responses := (nd_responses n)(i := Some o_r), nd_next := Suc i\<rparr>)"
| refuse: "content_handler read_file work_id consumer chunk_index = Inl e
     \<Longrightarrow> node_step read_file n (Refused work_id consumer chunk_index e) n"
| send: "\<lbrakk>nd_responses n i = Some o_r; poll_next (or_stream o_r) = (Some piece, fired, s')\<rbrakk>
     \<Longrightarrow> node_step read_file n (Sent i piece)
           (n\<lparr>nd_responses := (nd_responses n)(i := Some (o_r\<lparr>or_stream := s'\<rparr>))\<rparr>)"
| finish: "\<lbrakk>nd_responses n i = Some o_r; poll_next (or_stream o_r) = (None, fired, s')\<rbrakk>
     \<Longrightarrow> node_step read_file n (Ended i)
           (complete_response o_r fired
              (n\<lparr>nd_responses := (nd_responses n)(i := Some (o_r\<lparr>or_stream := s'\<rparr>))\<rparr>))"
| abandon: "nd_responses n i = Some o_r
     \<Longrightarrow> node_step read_file n (Abandoned i) (n\<lparr>nd_responses := (nd_responses n)(i := None)\<rparr>)"

inductive node_run :: "(string \<Rightarrow> string + u8 list) \<Rightarrow> node \<Rightarrow> node_event list \<Rightarrow> node \<Rightarrow> bool"
  for read_file where
  start: "node_run read_file n [] n"
| step: "\<lbrakk>node_run read_file n tr n'; node_step read_file n' e n''\<rbrakk> \<Longrightarrow> node_run read_file n (tr @ [e]) n''"

inductive_cases node_stepE: "node_step read_file n e n'"
inductive_simps node_step_simps:
  "node_step read_file n (Requested i w c x) n'" "node_step read_file n (Sent i piece) n'"
  "node_step read_file n (Ended i) n'" "node_step read_file n (Abandoned i) n'"

section \<open>The receipt endpoint\<close>

datatype receipt_response = Status nat string | Signed receipt string

definition storage_error_text :: "storage_error \<Rightarrow> string" where
  "storage_error_text e =
     (case e of NotServed \<Rightarrow> ''no chunk was fully delivered for that consumer, work and chunk index''
      | BadWorkId \<Rightarrow> ''malformed work id''
      | Content m \<Rightarrow> ''reading content: '' @ m)"

definition receipt_handler ::
    "('sig, 'addr) receipt_env \<Rightarrow> (u8 list \<Rightarrow> string + u8 list) \<Rightarrow> node \<Rightarrow> string \<Rightarrow> u64 \<Rightarrow> string \<Rightarrow> receipt_response" where
  "receipt_handler env sign n work_id chunk_index consumer =
     (case issue_receipt (nd_ledger n) (nd_addr n) (nd_epoch n) consumer work_id chunk_index of
        Inl e \<Rightarrow> Status 404 (storage_error_text e)
      | Inr r \<Rightarrow>
          (case canonical_json env r of
             Inl e \<Rightarrow> Status 500 e
           | Inr msg \<Rightarrow>
               (case sign msg of
                  Inl e \<Rightarrow> Status 500 e
                | Inr sig \<Rightarrow> Signed r (''0x'' @ hex_string sig))))"

section \<open>Chunks of a file\<close>

lemma is_work_id_iff:
  "is_work_id s \<longleftrightarrow> (\<exists>rest. s = ''0x'' @ rest \<and> length rest = 64 \<and> list_all is_ascii_hexdigit rest)"
  by (auto simp: is_work_id_def strip_prefix_Some split: option.splits)
    (metis option.distinct(1) strip_prefix_append append_Cons append_Nil)

lemma fragment_Inr:
  "fragment_for_chunk read_file w x = Inr bytes \<longleftrightarrow>
     (\<exists>data. is_work_id w \<and> read_file (content_name w) = Inr data
        \<and> bytes = take 131072 (drop (min (unat x * 131072) (2 ^ 64 - 1)) data))"
proof -
  have sz: "unat CHUNK_SIZE = 131072" by (simp add: CHUNK_SIZE_def)
  have off: "unat (saturating_mul x CHUNK_SIZE) = min (unat x * 131072) (2 ^ 64 - 1)"
    by (simp add: unat_saturating_mul sz)
  have window: "take (min (min s (length data) + 131072) (length data) - min s (length data))
      (drop (min s (length data)) data) = take 131072 (drop s data)" for s and data :: "u8 list"
    by (cases "s \<le> length data") (auto simp: min_def)
  show ?thesis
    by (simp only: fragment_for_chunk_def off sz Let_def window)
      (auto simp: res_bind_eq_Inr map_err_eq_Inr)
qed

lemma fragment_length: "fragment_for_chunk read_file w x = Inr bytes \<Longrightarrow> length bytes \<le> 131072"
  by (auto simp: fragment_Inr)

lemma fragment_in_range:
  assumes "read_file (content_name w) = Inr data" and "is_work_id w" and "unat x * 131072 < 2 ^ 64"
  shows "fragment_for_chunk read_file w x = Inr (take 131072 (drop (unat x * 131072) data))"
proof -
  have "min (unat x * 131072) (2 ^ 64 - 1) = unat x * 131072" using assms(3) by simp
  with assms show ?thesis by (auto simp only: fragment_Inr)
qed

lemma concat_windows:
  "concat (map (\<lambda>k. take c (drop (k * c) xs)) [0..<n]) = take (n * c) xs"
proof (induction n)
  case (Suc n)
  have "take (n * c) xs @ take c (drop (n * c) xs) = take (n * c + c) xs"
    by (simp add: take_add)
  with Suc show ?case by (simp add: add.commute)
qed simp

definition chunks_upto :: "(string \<Rightarrow> string + u8 list) \<Rightarrow> string \<Rightarrow> nat \<Rightarrow> storage_error + u8 list" where
  "chunks_upto read_file w n =
     res_bind (res_map (\<lambda>k. fragment_for_chunk read_file w (of_nat k)) [0..<n]) (\<lambda>fs. Inr (concat fs))"

lemma res_map_all_Inr: "(\<And>x. x \<in> set xs \<Longrightarrow> f x = Inr (g x)) \<Longrightarrow> res_map f xs = Inr (map g xs)"
  by (induction xs) auto

text \<open>Fetching the blocks 0, 1, ..., n - 1 of a work and joining them gives the first n * CHUNK_SIZE
  bytes of its file, hence the whole file once n blocks cover it: no byte is lost, repeated or
  padded, and the last block is short.\<close>
theorem chunks_reassemble:
  assumes "is_work_id w" and "read_file (content_name w) = Inr data" and "n * unat CHUNK_SIZE < 2 ^ 64"
  shows "chunks_upto read_file w n = Inr (take (n * unat CHUNK_SIZE) data)"
proof -
  have sz: "unat CHUNK_SIZE = 131072" by (simp add: CHUNK_SIZE_def)
  have "fragment_for_chunk read_file w (of_nat k) = Inr (take 131072 (drop (k * 131072) data))" if "k < n" for k
  proof -
    from that assms(3) sz have "k < 2 ^ 64" and lt: "k * 131072 < 2 ^ 64"
      by (auto intro: le_less_trans [of _ "n * 131072"])
    then have "unat (of_nat k :: u64) = k" by (simp add: unat_of_nat take_bit_nat_eq_self)
    with fragment_in_range [where read_file = read_file and w = w and x = "of_nat k", OF assms(2,1)] lt
    show ?thesis by simp
  qed
  then have "res_map (\<lambda>k. fragment_for_chunk read_file w (of_nat k)) [0..<n]
      = Inr (map (\<lambda>k. take 131072 (drop (k * 131072) data)) [0..<n])"
    by (intro res_map_all_Inr) auto
  then show ?thesis by (simp add: chunks_upto_def concat_windows sz)
qed

definition demo_work :: string where
  "demo_work = ''0x'' @ replicate 64 (CHR ''a'')"

definition demo_dir :: "string \<Rightarrow> string + u8 list" where
  "demo_dir name = (if name = demo_work @ ''.bin'' then Inr [7, 8, 9] else Inl ''not found'')"

lemma demo_dir_facts: "is_work_id demo_work" "demo_dir (content_name demo_work) = Inr [7, 8, 9]"
  by code_simp+

theorem chunks_reassemble_witness: "chunks_upto demo_dir demo_work 2 = Inr [7, 8, 9]"
proof -
  have "2 * unat CHUNK_SIZE < 2 ^ 64" by (simp add: CHUNK_SIZE_def)
  from chunks_reassemble [where read_file = demo_dir and w = demo_work and n = 2, OF demo_dir_facts this] show ?thesis by (simp add: CHUNK_SIZE_def)
qed

text \<open>C35: whatever work id a request carries, a file is read only when the id is \<open>0x\<close> and 64
  hexadecimal digits, and the name read is then those characters in lower case and \<open>.bin\<close>: 70
  characters, none of them a path separator, so a crafted id never leaves the content directory.\<close>
theorem no_path_escape:
  assumes "\<And>name. CHR ''/'' \<notin> set name \<Longrightarrow> length name = 70 \<Longrightarrow> name \<noteq> ''..'' \<Longrightarrow> read_file name = read_file' name"
  shows "fragment_for_chunk read_file w x = fragment_for_chunk read_file' w x"
proof (cases "is_work_id w")
  case True
  then obtain rest where w: "w = ''0x'' @ rest" "length rest = 64" "list_all is_ascii_hexdigit rest"
    by (auto simp: is_work_id_iff)
  have slash: "to_ascii_lower_char c \<noteq> CHR ''/''" if "is_ascii_hexdigit c" for c
  proof
    assume eq: "to_ascii_lower_char c = CHR ''/''"
    have "c = CHR ''/''"
    proof (rule ccontr)
      assume "c \<noteq> CHR ''/''"
      with eq have "65 \<le> (of_char c :: nat)" "(of_char c :: nat) \<le> 90"
          "char_of ((of_char c :: nat) + 32) = CHR ''/''"
        by (auto simp: to_ascii_lower_char_def Let_def split: if_splits)
      then have "(of_char (char_of ((of_char c :: nat) + 32) :: char) :: nat) = 47" by simp
      with \<open>65 \<le> (of_char c :: nat)\<close> \<open>(of_char c :: nat) \<le> 90\<close> show False by simp
    qed
    moreover have "\<not> is_ascii_hexdigit (CHR ''/'')" by code_simp
    ultimately show False using that by simp
  qed
  have "CHR ''/'' \<notin> set (content_name w)"
  proof
    assume "CHR ''/'' \<in> set (content_name w)"
    moreover have "content_name w = map to_ascii_lower_char (''0x'' @ rest) @ ''.bin''"
      by (simp add: content_name_def to_ascii_lowercase_def w)
    moreover have "CHR ''/'' \<notin> set (map to_ascii_lower_char ''0x'')" by code_simp
    ultimately obtain c where "c \<in> set rest" "to_ascii_lower_char c = CHR ''/''" by auto
    with w(3) slash show False by (auto simp: list_all_iff)
  qed
  moreover have "length (content_name w) = 70" using w by (simp add: content_name_def)
  moreover from this have "content_name w \<noteq> ''..''" by auto
  ultimately have "read_file (content_name w) = read_file' (content_name w)" by (rule assms)
  then show ?thesis by (simp add: fragment_for_chunk_def)
qed (simp add: fragment_for_chunk_def)

definition other_dir :: "string \<Rightarrow> string + u8 list" where
  "other_dir name = (if CHR ''/'' \<in> set name then Inr [1] else demo_dir name)"

theorem no_path_escape_witness:
  "fragment_for_chunk demo_dir ''../../etc/passwd'' 0 = fragment_for_chunk other_dir ''../../etc/passwd'' 0"
  by (rule no_path_escape) (simp add: other_dir_def)

section \<open>What a run of the node delivers\<close>

fun sent_of :: "nat \<Rightarrow> node_event \<Rightarrow> u8 list" where
  "sent_of i (Sent j piece) = (if i = j then piece else [])"
| "sent_of i _ = []"

definition sent_bytes :: "nat \<Rightarrow> node_event list \<Rightarrow> u8 list" where
  "sent_bytes i tr = concat (map (sent_of i) tr)"

lemma sent_bytes_simps [simp]:
  "sent_bytes i [] = []" "sent_bytes i (tr @ [e]) = sent_bytes i tr @ sent_of i e"
  by (simp_all add: sent_bytes_def)

lemma poll_next_Some:
  "poll_next s = (Some p, fired, s') \<longleftrightarrow>
     st_pos s < length (st_data s) \<and> \<not> fired
     \<and> p = take (min (st_pos s + st_piece s) (length (st_data s)) - st_pos s) (drop (st_pos s) (st_data s))
     \<and> s' = s\<lparr>st_pos := min (st_pos s + st_piece s) (length (st_data s))\<rparr>"
  by (auto simp: poll_next_def Let_def)

lemma poll_next_None:
  "poll_next s = (None, fired, s') \<longleftrightarrow>
     length (st_data s) \<le> st_pos s \<and> fired = st_armed s \<and> s' = s\<lparr>st_armed := False\<rparr>"
  by (auto simp: poll_next_def Let_def)

definition sound_response ::
    "(string \<Rightarrow> string + u8 list) \<Rightarrow> node_event list \<Rightarrow> nat \<Rightarrow> open_response \<Rightarrow> bool" where
  "sound_response read_file tr i o_r \<longleftrightarrow>
     (\<exists>w c x bytes. Requested i w c x \<in> set tr \<and> fragment_for_chunk read_file w x = Inr bytes
        \<and> st_data (or_stream o_r) = bytes \<and> st_pos (or_stream o_r) \<le> length bytes
        \<and> sent_bytes i tr = take (st_pos (or_stream o_r)) bytes
        \<and> or_work_id o_r = to_ascii_lowercase w \<and> or_consumer o_r = normalize_addr c
        \<and> or_chunk_index o_r = x
        \<and> or_served o_r = \<lparr>sv_work_id = to_ascii_lowercase w, sv_consumer = normalize_addr c,
                           sv_bytes = of_nat (length bytes)\<rparr>)"

definition delivered ::
    "(string \<Rightarrow> string + u8 list) \<Rightarrow> node_event list \<Rightarrow> nat \<Rightarrow> string \<Rightarrow> string \<Rightarrow> u64 \<Rightarrow> u8 list \<Rightarrow> bool" where
  "delivered read_file tr i w c x bytes \<longleftrightarrow>
     Requested i w c x \<in> set tr \<and> Ended i \<in> set tr
     \<and> fragment_for_chunk read_file w x = Inr bytes \<and> sent_bytes i tr = bytes"

definition node_inv :: "(string \<Rightarrow> string + u8 list) \<Rightarrow> node_event list \<Rightarrow> node \<Rightarrow> bool" where
  "node_inv read_file tr n \<longleftrightarrow>
     (\<forall>i o_r. nd_responses n i = Some o_r \<longrightarrow> i < nd_next n \<and> sound_response read_file tr i o_r)
   \<and> (\<forall>i \<ge> nd_next n. sent_bytes i tr = [])
   \<and> (\<forall>k sv. bt_get (lg_entries (nd_ledger n)) k = Some sv \<longrightarrow>
        (\<exists>i w c x bytes. delivered read_file tr i w c x bytes \<and> k = ledger_key c w x
           \<and> sv = \<lparr>sv_work_id = to_ascii_lowercase w, sv_consumer = normalize_addr c,
                   sv_bytes = of_nat (length bytes)\<rparr>
           \<and> i < nd_next n
           \<and> (\<forall>o_r. nd_responses n i = Some o_r \<longrightarrow> length (st_data (or_stream o_r)) \<le> st_pos (or_stream o_r))))"

lemma sound_response_extend:
  "\<lbrakk>sound_response read_file tr i o_r; sent_of i e = []\<rbrakk> \<Longrightarrow> sound_response read_file (tr @ [e]) i o_r"
  by (simp add: sound_response_def) blast

lemma delivered_extend:
  "\<lbrakk>delivered read_file tr i w c x bytes; sent_of i e = []\<rbrakk> \<Longrightarrow> delivered read_file (tr @ [e]) i w c x bytes"
  by (simp add: delivered_def)

lemma node_invI:
  assumes "\<And>i o_r. nd_responses n i = Some o_r \<Longrightarrow> i < nd_next n \<and> sound_response read_file tr i o_r"
    and "\<And>i. nd_next n \<le> i \<Longrightarrow> sent_bytes i tr = []"
    and "\<And>k sv. bt_get (lg_entries (nd_ledger n)) k = Some sv \<Longrightarrow>
        \<exists>i w c x bytes. delivered read_file tr i w c x bytes \<and> k = ledger_key c w x
           \<and> sv = \<lparr>sv_work_id = to_ascii_lowercase w, sv_consumer = normalize_addr c,
                   sv_bytes = of_nat (length bytes)\<rparr>
           \<and> i < nd_next n
           \<and> (\<forall>o_r. nd_responses n i = Some o_r \<longrightarrow> length (st_data (or_stream o_r)) \<le> st_pos (or_stream o_r))"
  shows "node_inv read_file tr n"
  unfolding node_inv_def using assms by blast

lemma node_invD:
  assumes "node_inv read_file tr n"
  shows "nd_responses n i = Some o_r \<Longrightarrow> i < nd_next n"
    and "nd_responses n i = Some o_r \<Longrightarrow> sound_response read_file tr i o_r"
    and "nd_next n \<le> i \<Longrightarrow> sent_bytes i tr = []"
    and "bt_get (lg_entries (nd_ledger n)) k = Some sv \<Longrightarrow>
        \<exists>i w c x bytes. delivered read_file tr i w c x bytes \<and> k = ledger_key c w x
           \<and> sv = \<lparr>sv_work_id = to_ascii_lowercase w, sv_consumer = normalize_addr c,
                   sv_bytes = of_nat (length bytes)\<rparr>
           \<and> i < nd_next n
           \<and> (\<forall>o_r. nd_responses n i = Some o_r \<longrightarrow> length (st_data (or_stream o_r)) \<le> st_pos (or_stream o_r))"
  using assms unfolding node_inv_def by blast+

lemma content_handler_Inr:
  "content_handler read_file w c x = Inr o_r \<longleftrightarrow>
     (\<exists>bytes. fragment_for_chunk read_file w x = Inr bytes
        \<and> o_r = \<lparr>or_stream = stream_new bytes (16 * 1024),
                 or_served = \<lparr>sv_work_id = to_ascii_lowercase w, sv_consumer = normalize_addr c,
                              sv_bytes = of_nat (length bytes)\<rparr>,
                 or_consumer = normalize_addr c, or_work_id = to_ascii_lowercase w, or_chunk_index = x\<rparr>)"
  by (auto simp: content_handler_def res_bind_eq_Inr)

lemma node_inv_quiet:
  assumes inv: "node_inv read_file tr n" and quiet: "\<And>i. sent_of i e = []"
    and ledger: "nd_ledger n' = nd_ledger n" and nxt: "nd_next n \<le> nd_next n'"
    and resp: "\<And>i o_r. nd_responses n' i = Some o_r \<Longrightarrow>
       nd_responses n i = Some o_r \<or> (nd_next n \<le> i \<and> i < nd_next n' \<and> sound_response read_file (tr @ [e]) i o_r)"
  shows "node_inv read_file (tr @ [e]) n'"
proof (rule node_invI)
  show "i < nd_next n' \<and> sound_response read_file (tr @ [e]) i o_r" if "nd_responses n' i = Some o_r" for i o_r
    using resp [OF that] node_invD(1,2) [OF inv, of i o_r] nxt sound_response_extend [OF _ quiet]
    by (auto intro: less_le_trans)
  show "sent_bytes i (tr @ [e]) = []" if "nd_next n' \<le> i" for i
    using node_invD(3) [OF inv, of i] that nxt quiet by simp
next
  fix k sv assume "bt_get (lg_entries (nd_ledger n')) k = Some sv"
  with ledger have "bt_get (lg_entries (nd_ledger n)) k = Some sv" by simp
  from node_invD(4) [OF inv this] obtain i w c x bytes
    where d: "delivered read_file tr i w c x bytes" "k = ledger_key c w x"
      "sv = \<lparr>sv_work_id = to_ascii_lowercase w, sv_consumer = normalize_addr c, sv_bytes = of_nat (length bytes)\<rparr>"
      "i < nd_next n"
      "\<forall>o_r. nd_responses n i = Some o_r \<longrightarrow> length (st_data (or_stream o_r)) \<le> st_pos (or_stream o_r)"
    by blast
  have "\<forall>o_r. nd_responses n' i = Some o_r \<longrightarrow> length (st_data (or_stream o_r)) \<le> st_pos (or_stream o_r)"
    using resp d(4,5) by fastforce
  moreover have "i < nd_next n'" using d(4) nxt by simp
  ultimately show "\<exists>i w c x bytes. delivered read_file (tr @ [e]) i w c x bytes \<and> k = ledger_key c w x
           \<and> sv = \<lparr>sv_work_id = to_ascii_lowercase w, sv_consumer = normalize_addr c,
                   sv_bytes = of_nat (length bytes)\<rparr>
           \<and> i < nd_next n'
           \<and> (\<forall>o_r. nd_responses n' i = Some o_r \<longrightarrow> length (st_data (or_stream o_r)) \<le> st_pos (or_stream o_r))"
    using delivered_extend [OF d(1) quiet] d(2,3) by blast
qed

lemma node_inv_send:
  assumes inv: "node_inv read_file tr n" and r: "nd_responses n i = Some o_r"
    and p: "poll_next (or_stream o_r) = (Some piece, fired, s')"
  shows "node_inv read_file (tr @ [Sent i piece])
           (n\<lparr>nd_responses := (nd_responses n)(i := Some (o_r\<lparr>or_stream := s'\<rparr>))\<rparr>)"
    (is "node_inv _ ?tr ?n")
proof (rule node_invI)
  note p' = p [unfolded poll_next_Some]
  note inv' = node_invD [OF inv]
  have here: "sound_response read_file ?tr i (o_r\<lparr>or_stream := s'\<rparr>)"
  proof -
    have "take a xs @ take (b - a) (drop a xs) = take b xs" if "a \<le> b" for a b and xs :: "u8 list"
      using that by (metis le_add_diff_inverse take_add)
    then have "take (st_pos (or_stream o_r)) (st_data (or_stream o_r)) @ piece
        = take (st_pos s') (st_data (or_stream o_r))"
      using p' by simp
    then show ?thesis using inv'(2) [OF r] p' unfolding sound_response_def by fastforce
  qed
  show "j < nd_next ?n \<and> sound_response read_file ?tr j q" if "nd_responses ?n j = Some q" for j q
  proof (cases "j = i")
    case True
    with that here inv'(1) [OF r] show ?thesis by auto
  next
    case False
    with that have "nd_responses n j = Some q" by simp
    from inv'(1,2) [OF this] False show ?thesis by (auto intro: sound_response_extend)
  qed
  show "sent_bytes j ?tr = []" if "nd_next ?n \<le> j" for j
    using inv'(3) [of j] inv'(1) [OF r] that by auto
next
  fix k sv assume "bt_get (lg_entries (nd_ledger ?n)) k = Some sv"
  then have "bt_get (lg_entries (nd_ledger n)) k = Some sv" by simp
  from node_invD(4) [OF inv this] obtain j w c x bytes
    where d: "delivered read_file tr j w c x bytes" "k = ledger_key c w x"
      "sv = \<lparr>sv_work_id = to_ascii_lowercase w, sv_consumer = normalize_addr c, sv_bytes = of_nat (length bytes)\<rparr>"
      "j < nd_next n"
      "\<forall>o_r. nd_responses n j = Some o_r \<longrightarrow> length (st_data (or_stream o_r)) \<le> st_pos (or_stream o_r)"
    by blast
  have "j \<noteq> i" using d(5) r p [unfolded poll_next_Some] by auto
  then have "delivered read_file ?tr j w c x bytes" using d(1) by (auto intro: delivered_extend)
  with d \<open>j \<noteq> i\<close> show "\<exists>j w c x bytes. delivered read_file ?tr j w c x bytes \<and> k = ledger_key c w x
           \<and> sv = \<lparr>sv_work_id = to_ascii_lowercase w, sv_consumer = normalize_addr c,
                   sv_bytes = of_nat (length bytes)\<rparr>
           \<and> j < nd_next ?n
           \<and> (\<forall>o_r. nd_responses ?n j = Some o_r \<longrightarrow> length (st_data (or_stream o_r)) \<le> st_pos (or_stream o_r))"
    by (intro exI [of _ j] exI [of _ w] exI [of _ c] exI [of _ x] exI [of _ bytes]) simp
qed

lemma ledger_key_normal [simp]: "ledger_key (normalize_addr c) (to_ascii_lowercase w) x = ledger_key c w x"
  by (simp add: ledger_key_def)

lemma node_inv_finish:
  assumes inv: "node_inv read_file tr n" and r: "nd_responses n i = Some o_r"
    and p: "poll_next (or_stream o_r) = (None, fired, s')"
  shows "node_inv read_file (tr @ [Ended i])
           (complete_response o_r fired
              (n\<lparr>nd_responses := (nd_responses n)(i := Some (o_r\<lparr>or_stream := s'\<rparr>))\<rparr>))"
proof -
  let ?n = "n\<lparr>nd_responses := (nd_responses n)(i := Some (o_r\<lparr>or_stream := s'\<rparr>))\<rparr>"
  note p' = p [unfolded poll_next_None]
  from node_invD(2) [OF inv r] p' have here: "sound_response read_file tr i (o_r\<lparr>or_stream := s'\<rparr>)"
    unfolding sound_response_def by fastforce
  have old: "node_inv read_file tr ?n"
  proof (rule node_invI)
    show "j < nd_next ?n \<and> sound_response read_file tr j q" if "nd_responses ?n j = Some q" for j q
      using that here node_invD(1,2) [OF inv] r by (cases "j = i") auto
    show "sent_bytes j tr = []" if "nd_next ?n \<le> j" for j
      using node_invD(3) [OF inv] that by simp
    show "\<exists>j w c x bytes. delivered read_file tr j w c x bytes \<and> k = ledger_key c w x
           \<and> sv = \<lparr>sv_work_id = to_ascii_lowercase w, sv_consumer = normalize_addr c,
                   sv_bytes = of_nat (length bytes)\<rparr>
           \<and> j < nd_next ?n
           \<and> (\<forall>q. nd_responses ?n j = Some q \<longrightarrow> length (st_data (or_stream q)) \<le> st_pos (or_stream q))"
      if "bt_get (lg_entries (nd_ledger ?n)) k = Some sv" for k sv
    proof -
      from that have "bt_get (lg_entries (nd_ledger n)) k = Some sv" by simp
      from node_invD(4) [OF inv this] show ?thesis
        using p' by (elim exE conjE) (intro exI conjI, assumption+, auto)
    qed
  qed
  have ext: "node_inv read_file (tr @ [Ended i]) ?n"
    by (rule node_inv_quiet [OF old]) auto
  show ?thesis
  proof (cases fired)
    case False
    with ext show ?thesis by (simp add: complete_response_def)
  next
    case True
    from node_invD(2) [OF inv r] obtain w c x bytes
      where b: "Requested i w c x \<in> set tr" "fragment_for_chunk read_file w x = Inr bytes"
        "st_data (or_stream o_r) = bytes" "sent_bytes i tr = take (st_pos (or_stream o_r)) bytes"
        "or_work_id o_r = to_ascii_lowercase w" "or_consumer o_r = normalize_addr c"
        "or_chunk_index o_r = x"
        "or_served o_r = \<lparr>sv_work_id = to_ascii_lowercase w, sv_consumer = normalize_addr c,
                         sv_bytes = of_nat (length bytes)\<rparr>"
      unfolding sound_response_def by blast
    have full: "delivered read_file (tr @ [Ended i]) i w c x bytes"
      using b p' by (simp add: delivered_def)
    show ?thesis
    proof (rule node_invI)
      let ?n' = "complete_response o_r fired ?n"
      have same: "nd_responses ?n' = nd_responses ?n" "nd_next ?n' = nd_next ?n"
        by (simp_all add: complete_response_def)
      show "j < nd_next ?n' \<and> sound_response read_file (tr @ [Ended i]) j q"
        if "nd_responses ?n' j = Some q" for j q
        using that node_invD(1,2) [OF ext] unfolding same by blast
      show "sent_bytes j (tr @ [Ended i]) = []" if "nd_next ?n' \<le> j" for j
        using that node_invD(3) [OF ext] unfolding same by blast
      show "\<exists>j w c x bytes. delivered read_file (tr @ [Ended i]) j w c x bytes \<and> k = ledger_key c w x
           \<and> sv = \<lparr>sv_work_id = to_ascii_lowercase w, sv_consumer = normalize_addr c,
                   sv_bytes = of_nat (length bytes)\<rparr>
           \<and> j < nd_next ?n'
           \<and> (\<forall>q. nd_responses ?n' j = Some q \<longrightarrow> length (st_data (or_stream q)) \<le> st_pos (or_stream q))"
        if "bt_get (lg_entries (nd_ledger ?n')) k = Some sv" for k sv
      proof (cases "k = ledger_key c w x")
        case here: True
        with that True b have sv: "sv = \<lparr>sv_work_id = to_ascii_lowercase w, sv_consumer = normalize_addr c,
             sv_bytes = of_nat (length bytes)\<rparr>"
          by (simp add: complete_response_def ledger_record_def b bt_get_insert)
        have "i < nd_next ?n'" using node_invD(1) [OF inv r] by (simp add: same)
        moreover have "\<forall>q. nd_responses ?n' i = Some q \<longrightarrow> length (st_data (or_stream q)) \<le> st_pos (or_stream q)"
          unfolding same using p' by simp
        ultimately show ?thesis using full here sv by blast
      next
        case False
        with that True have "bt_get (lg_entries (nd_ledger ?n)) k = Some sv"
          by (simp add: complete_response_def ledger_record_def b bt_get_insert)
        from node_invD(4) [OF ext this] show ?thesis unfolding same .
      qed
    qed
  qed
qed

lemma node_inv_step:
  assumes inv: "node_inv read_file tr n" and "node_step read_file n e n'"
  shows "node_inv read_file (tr @ [e]) n'"
  using assms(2)
proof cases
  case (request w c x o_r i)
  from request(3) obtain bytes where b: "fragment_for_chunk read_file w x = Inr bytes"
      "o_r = \<lparr>or_stream = stream_new bytes (16 * 1024),
             or_served = \<lparr>sv_work_id = to_ascii_lowercase w, sv_consumer = normalize_addr c,
                          sv_bytes = of_nat (length bytes)\<rparr>,
             or_consumer = normalize_addr c, or_work_id = to_ascii_lowercase w, or_chunk_index = x\<rparr>"
    by (auto simp: content_handler_Inr)
  have "sent_bytes i (tr @ [e]) = []" using node_invD(3) [OF inv, of i] request by simp
  then have "sound_response read_file (tr @ [e]) i o_r"
    unfolding sound_response_def
    by (intro exI [of _ w] exI [of _ c] exI [of _ x] exI [of _ bytes])
      (simp add: b request(1) stream_new_def)
  with request show ?thesis by (intro node_inv_quiet [OF inv]) (auto split: if_splits)
next
  case (refuse w c x err)
  then show ?thesis by (intro node_inv_quiet [OF inv]) auto
next
  case (send i o_r piece fired s')
  with node_inv_send [OF inv] show ?thesis by simp
next
  case (finish i o_r fired s')
  with node_inv_finish [OF inv] show ?thesis by simp
next
  case (abandon i o_r)
  then show ?thesis by (intro node_inv_quiet [OF inv]) (auto split: if_splits)
qed

lemma node_run_inv: "node_run read_file n tr n' \<Longrightarrow> n = node_start addr epoch \<Longrightarrow> node_inv read_file tr n'"
proof (induction rule: node_run.induct)
  case (start n)
  then show ?case by (intro node_invI) (simp_all add: node_start_def)
next
  case (step n tr n' e n'')
  then show ?case by (auto intro: node_inv_step)
qed

lemma node_step_identity:
  "node_step read_file n e n' \<Longrightarrow> nd_addr n' = nd_addr n \<and> nd_epoch n' = nd_epoch n"
  by (auto elim!: node_stepE simp: complete_response_def)

lemma node_run_identity:
  "node_run read_file n tr n' \<Longrightarrow> nd_addr n' = nd_addr n \<and> nd_epoch n' = nd_epoch n"
  by (induction rule: node_run.induct) (auto dest: node_step_identity)

text \<open>C13: whatever requests, polls, disconnections and retries a node has seen since it started, it
  issues a receipt only for a chunk that it delivered in full to that consumer: some request for
  that content position was followed by slices that join to exactly the block of the work's file
  and by the end of the stream. The receipt counts those bytes (never more than CHUNK_SIZE), and
  carries the node's own address and epoch.\<close>
theorem receipt_only_after_full_delivery:
  assumes run: "node_run read_file (node_start addr epoch) tr n"
    and issued: "issue_receipt (nd_ledger n) (nd_addr n) (nd_epoch n) consumer work_id chunk_index = Inr r"
  shows "\<exists>i w c bytes.
      delivered read_file tr i w c chunk_index bytes
    \<and> to_ascii_lowercase w = to_ascii_lowercase work_id \<and> normalize_addr c = normalize_addr consumer
    \<and> unat (rc_bytes r) = length bytes \<and> length bytes \<le> unat CHUNK_SIZE
    \<and> rc_work_id r = to_ascii_lowercase work_id \<and> rc_consumer r = normalize_addr consumer
    \<and> rc_chunk_index r = chunk_index \<and> rc_node r = normalize_addr addr \<and> rc_epoch r = epoch"
proof -
  from issued obtain sv where
      got: "bt_get (lg_entries (nd_ledger n)) (ledger_key consumer work_id chunk_index) = Some sv" and
      r: "r = \<lparr>rc_work_id = to_ascii_lowercase (sv_work_id sv), rc_consumer = normalize_addr (sv_consumer sv),
          rc_node = normalize_addr (nd_addr n), rc_chunk_index = chunk_index,
          rc_bytes = sv_bytes sv, rc_epoch = nd_epoch n\<rparr>"
    by (auto simp: issue_receipt_def res_bind_eq_Inr ok_or_eq_Inr ledger_get_def)
  from node_invD(4) [OF node_run_inv [OF run refl] got] obtain i w c x bytes
    where d: "delivered read_file tr i w c x bytes" "ledger_key consumer work_id chunk_index = ledger_key c w x"
      "sv = \<lparr>sv_work_id = to_ascii_lowercase w, sv_consumer = normalize_addr c, sv_bytes = of_nat (length bytes)\<rparr>"
    by blast
  have len: "length bytes \<le> 131072" using d(1) by (auto simp: delivered_def intro: fragment_length)
  then have "unat (of_nat (length bytes) :: u64) = length bytes"
    by (simp add: unat_of_nat take_bit_nat_eq_self)
  with d len r node_run_identity [OF run] show ?thesis
    by (intro exI [of _ i] exI [of _ w] exI [of _ c] exI [of _ bytes])
      (auto simp: ledger_key_def node_start_def CHUNK_SIZE_def normalize_addr_def)
qed

section \<open>A complete delivery\<close>

lemma sent_bytes_append [simp]: "sent_bytes i (tr @ tr') = sent_bytes i tr @ sent_bytes i tr'"
  by (simp add: sent_bytes_def)

lemma node_run_trans:
  "node_run read_file n' tr' n'' \<Longrightarrow> node_run read_file n tr n' \<Longrightarrow> node_run read_file n (tr @ tr') n''"
  by (induction rule: node_run.induct) (simp, metis append_assoc node_run.step)

lemma node_run_one: "node_step read_file n e n' \<Longrightarrow> node_run read_file n [e] n'"
  using node_run.step [OF node_run.start] by fastforce

lemma drain_response:
  assumes "nd_responses n i = Some o_r" and "0 < st_piece (or_stream o_r)" and "st_armed (or_stream o_r)"
  shows "\<exists>tr n'. node_run read_file n tr n'
     \<and> sent_bytes i tr = drop (st_pos (or_stream o_r)) (st_data (or_stream o_r))
     \<and> nd_ledger n' = ledger_record (or_consumer o_r) (or_work_id o_r) (or_chunk_index o_r) (or_served o_r) (nd_ledger n)"
  using assms
proof (induction "length (st_data (or_stream o_r)) - st_pos (or_stream o_r)" arbitrary: n o_r rule: less_induct)
  case less
  let ?s = "or_stream o_r"
  show ?case
  proof (cases "st_pos ?s < length (st_data ?s)")
    case False
    then have "poll_next ?s = (None, True, ?s\<lparr>st_armed := False\<rparr>)"
      using less.prems(3) by (simp add: poll_next_def)
    from node_run_one [OF node_step.finish [OF less.prems(1) this]]
    have "node_run read_file n [Ended i] (complete_response o_r True
       (n\<lparr>nd_responses := (nd_responses n)(i := Some (o_r\<lparr>or_stream := ?s\<lparr>st_armed := False\<rparr>\<rparr>))\<rparr>))" .
    moreover have "sent_bytes i [Ended i] = drop (st_pos ?s) (st_data ?s)"
      using False by (simp add: sent_bytes_def)
    moreover have "nd_ledger (complete_response o_r True
         (n\<lparr>nd_responses := (nd_responses n)(i := Some (o_r\<lparr>or_stream := ?s\<lparr>st_armed := False\<rparr>\<rparr>))\<rparr>))
       = ledger_record (or_consumer o_r) (or_work_id o_r) (or_chunk_index o_r) (or_served o_r) (nd_ledger n)"
      by (simp add: complete_response_def)
    ultimately show ?thesis by blast
  next
    case True
    let ?stop = "min (st_pos ?s + st_piece ?s) (length (st_data ?s))"
    let ?p = "take (?stop - st_pos ?s) (drop (st_pos ?s) (st_data ?s))"
    let ?q = "o_r\<lparr>or_stream := ?s\<lparr>st_pos := ?stop\<rparr>\<rparr>"
    let ?n = "n\<lparr>nd_responses := (nd_responses n)(i := Some ?q)\<rparr>"
    have poll: "poll_next ?s = (Some ?p, False, ?s\<lparr>st_pos := ?stop\<rparr>)"
      using True by (simp add: poll_next_def Let_def)
    have "\<exists>tr n'. node_run read_file ?n tr n'
       \<and> sent_bytes i tr = drop (st_pos (or_stream ?q)) (st_data (or_stream ?q))
       \<and> nd_ledger n' = ledger_record (or_consumer ?q) (or_work_id ?q) (or_chunk_index ?q) (or_served ?q) (nd_ledger ?n)"
      by (rule less.hyps) (use less.prems True in auto)
    then obtain tr n' where r: "node_run read_file ?n tr n'" "sent_bytes i tr = drop ?stop (st_data ?s)"
        "nd_ledger n' = ledger_record (or_consumer o_r) (or_work_id o_r) (or_chunk_index o_r) (or_served o_r) (nd_ledger n)"
      by auto
    have "?p @ drop ?stop (st_data ?s) = drop (st_pos ?s) (st_data ?s)"
    proof -
      have "drop ?stop (st_data ?s) = drop (?stop - st_pos ?s) (drop (st_pos ?s) (st_data ?s))"
        using True by simp
      then show ?thesis by (simp only: append_take_drop_id)
    qed
    then have "sent_bytes i ([Sent i ?p] @ tr) = drop (st_pos ?s) (st_data ?s)"
      using r(2) by (simp add: sent_bytes_def)
    with r(3) node_run_trans [OF r(1) node_run_one [OF node_step.send [OF less.prems(1) poll]]]
    show ?thesis by blast
  qed
qed

text \<open>A request for readable content that is polled to the end sends exactly the block and
  leaves the node ready to issue a receipt for it, whatever the node was doing before.\<close>
theorem full_delivery_earns_receipt:
  assumes "fragment_for_chunk read_file work_id chunk_index = Inr bytes"
  shows "\<exists>tr n' r. node_run read_file n (Requested (nd_next n) work_id consumer chunk_index # tr) n'
     \<and> sent_bytes (nd_next n) tr = bytes
     \<and> issue_receipt (nd_ledger n') (nd_addr n') (nd_epoch n') consumer work_id chunk_index = Inr r
     \<and> rc_bytes r = of_nat (length bytes)"
proof -
  let ?o = "\<lparr>or_stream = stream_new bytes (16 * 1024),
             or_served = \<lparr>sv_work_id = to_ascii_lowercase work_id, sv_consumer = normalize_addr consumer,
                          sv_bytes = of_nat (length bytes)\<rparr>,
             or_consumer = normalize_addr consumer, or_work_id = to_ascii_lowercase work_id,
             or_chunk_index = chunk_index\<rparr>"
  let ?n = "n\<lparr>nd_responses := (nd_responses n)(nd_next n := Some ?o), nd_next := Suc (nd_next n)\<rparr>"
  have "content_handler read_file work_id consumer chunk_index = Inr ?o"
    using assms by (simp add: content_handler_Inr)
  from node_run_one [OF node_step.request [OF this refl]]
  have first: "node_run read_file n [Requested (nd_next n) work_id consumer chunk_index] ?n" .
  have "nd_responses ?n (nd_next n) = Some ?o" by simp
  from drain_response [OF this, where read_file = read_file] obtain tr n'
    where r: "node_run read_file ?n tr n'" "sent_bytes (nd_next n) tr = bytes"
      "nd_ledger n' = ledger_record (normalize_addr consumer) (to_ascii_lowercase work_id) chunk_index (or_served ?o) (nd_ledger n)"
    by (auto simp: stream_new_def)
  have "issue_receipt (nd_ledger n') (nd_addr n') (nd_epoch n') consumer work_id chunk_index
     = Inr \<lparr>rc_work_id = to_ascii_lowercase work_id, rc_consumer = normalize_addr consumer,
            rc_node = normalize_addr (nd_addr n'), rc_chunk_index = chunk_index,
            rc_bytes = of_nat (length bytes), rc_epoch = nd_epoch n'\<rparr>"
    by (simp add: issue_receipt_def ledger_get_def r(3) ledger_record_def bt_get_insert)
  with node_run_trans [OF r(1) first] r(2) show ?thesis
    by (intro exI conjI) (simp, assumption, assumption, simp)
qed

lemma demo_fragment: "fragment_for_chunk demo_dir demo_work 0 = Inr [7, 8, 9]"
  by (simp add: fragment_Inr demo_dir_facts)

theorem full_delivery_earns_receipt_witness:
  "\<exists>tr n' r. node_run demo_dir (node_start ''0xab'' 4) (Requested 0 demo_work ''0xC0'' 0 # tr) n'
     \<and> sent_bytes 0 tr = [7, 8, 9]
     \<and> issue_receipt (nd_ledger n') (nd_addr n') (nd_epoch n') ''0xC0'' demo_work 0 = Inr r
     \<and> rc_bytes r = 3"
  using full_delivery_earns_receipt [OF demo_fragment, of "node_start ''0xab'' 4" "''0xC0''"]
  by (simp add: node_start_def)

lemma demo_run:
  "\<exists>tr n r. node_run demo_dir (node_start ''0xAB'' 4) tr n
     \<and> issue_receipt (nd_ledger n) (nd_addr n) (nd_epoch n) ''0xC0'' demo_work 0 = Inr r"
proof -
  let ?o = "\<lparr>or_stream = stream_new [7, 8, 9] (16 * 1024),
             or_served = \<lparr>sv_work_id = to_ascii_lowercase demo_work, sv_consumer = normalize_addr ''0xC0'',
                          sv_bytes = of_nat (length [7, 8, 9 :: u8])\<rparr>,
             or_consumer = normalize_addr ''0xC0'', or_work_id = to_ascii_lowercase demo_work,
             or_chunk_index = 0\<rparr>"
  have "content_handler demo_dir demo_work ''0xC0'' 0 = Inr ?o"
    by (simp add: content_handler_Inr demo_fragment)
  from node_run_one [OF node_step.request [OF this refl, of "node_start ''0xAB'' 4"]]
  have first: "node_run demo_dir (node_start ''0xAB'' 4) [Requested 0 demo_work ''0xC0'' 0]
      (node_start ''0xAB'' 4\<lparr>nd_responses := [0 \<mapsto> ?o], nd_next := 1\<rparr>)" (is "node_run _ _ _ ?n")
    by (simp add: node_start_def)
  have "nd_responses ?n 0 = Some ?o" by simp
  from drain_response [OF this, where read_file = demo_dir] obtain tr n'
    where r: "node_run demo_dir ?n tr n'"
      "nd_ledger n' = ledger_record (normalize_addr ''0xC0'') (to_ascii_lowercase demo_work) 0 (or_served ?o) (nd_ledger ?n)"
    by (auto simp: stream_new_def)
  have "is_ok (issue_receipt (nd_ledger n') (nd_addr n') (nd_epoch n') ''0xC0'' demo_work 0)"
    by (simp add: issue_receipt_def ledger_get_def r(2) ledger_record_def bt_get_insert)
  with node_run_trans [OF r(1) first] show ?thesis unfolding is_ok_iff by blast
qed

theorem receipt_only_after_full_delivery_witness:
  "\<exists>tr i w c (r :: receipt). delivered demo_dir tr i w c 0 [7, 8, 9] \<and> rc_bytes r = 3 \<and> rc_node r = ''0xab''
     \<and> rc_consumer r = ''0xc0'' \<and> rc_epoch r = 4"
proof -
  obtain tr n r where "node_run demo_dir (node_start ''0xAB'' 4) tr n"
      "issue_receipt (nd_ledger n) (nd_addr n) (nd_epoch n) ''0xC0'' demo_work 0 = Inr r"
    using demo_run by blast
  from receipt_only_after_full_delivery [OF this] obtain i w c bytes
    where d: "delivered demo_dir tr i w c 0 bytes" "to_ascii_lowercase w = to_ascii_lowercase demo_work"
      "unat (rc_bytes r) = length bytes" "rc_node r = normalize_addr ''0xAB''"
      "rc_consumer r = normalize_addr ''0xC0''" "rc_epoch r = 4"
    by blast
  have "to_ascii_lowercase demo_work = demo_work" by code_simp
  with d(2) have name: "content_name w = content_name demo_work" by (simp add: content_name_def)
  from d(1) have "fragment_for_chunk demo_dir w 0 = Inr bytes" by (simp add: delivered_def)
  then have bytes: "bytes = [7, 8, 9]" by (auto simp: fragment_Inr name demo_dir_facts)
  then have "unat (rc_bytes r) = unat (3 :: u64)" using d(3) by simp
  then have "rc_bytes r = 3" by (rule word_unat_eq_iff [THEN iffD2])
  moreover have "normalize_addr ''0xAB'' = ''0xab''" "normalize_addr ''0xC0'' = ''0xc0''" by code_simp+
  ultimately have "delivered demo_dir tr i w c 0 [7, 8, 9] \<and> rc_bytes r = 3 \<and> rc_node r = ''0xab''
     \<and> rc_consumer r = ''0xc0'' \<and> rc_epoch r = 4" using d bytes by simp
  then show ?thesis by (intro exI)
qed

end
