(* ===== verification/Job.thy ===== *)
theory Job
  imports Prelude "HOL-Library.Sublist"
begin

text \<open>
  Jobs of the binaries: a computation that may fail and that records the effects (transactions, file
  writes) that have happened, in order. An effect is offered to a parameter that says whether it
  succeeds; a failed effect ends the job and is not recorded. The binds are those of any computation
  over a state with errors, the type \<open>proc\<close>. \<open>follows\<close> states the discipline the
  jobs of the settlement service and of the player obey: whatever fails, the effects are a prefix
  of a plan, and all of it on success.
\<close>

text \<open>A computation that may fail and that records the effects that have happened.\<close>

type_synonym ('s, 'e, 'a) proc = "'s \<Rightarrow> 's \<times> ('e + 'a)"
type_synonym ('o, 'e, 'a) job = "('o list, 'e, 'a) proc"

definition job_bind :: "('s, 'e, 'a) proc \<Rightarrow> ('a \<Rightarrow> ('s, 'e, 'b) proc) \<Rightarrow> ('s, 'e, 'b) proc" where
  "job_bind j k tr = (case j tr of (tr', Inl e) \<Rightarrow> (tr', Inl e) | (tr', Inr x) \<Rightarrow> k x tr')"

definition job_lift :: "'e + 'a \<Rightarrow> ('s, 'e, 'a) proc" where
  "job_lift r tr = (tr, r)"

definition perform :: "('o \<Rightarrow> 'e + unit) \<Rightarrow> 'o \<Rightarrow> ('o, 'e, unit) job" where
  "perform send o_c tr =
     (case send o_c of Inl e \<Rightarrow> (tr, Inl e) | Inr _ \<Rightarrow> (tr @ [o_c], Inr ()))"

fun perform_all :: "('o \<Rightarrow> 'e + unit) \<Rightarrow> 'o list \<Rightarrow> ('o, 'e, unit) job" where
  "perform_all send [] = job_lift (Inr ())"
| "perform_all send (o_c # os) = job_bind (perform send o_c) (\<lambda>_. perform_all send os)"

lemma job_bind_assoc: "job_bind (job_bind j k) k' = job_bind j (\<lambda>x. job_bind (k x) k')"
  by (intro ext) (simp add: job_bind_def split: prod.split sum.split)

lemma job_lift_ok: "job_bind (job_lift (Inr x)) k = k x"
  by (intro ext) (simp add: job_bind_def job_lift_def)

section \<open>Inverting a run\<close>

lemma job_bind_Inr [result_simps]:
  "job_bind j k tr = (tr', Inr y) \<longleftrightarrow> (\<exists>tr'' x. j tr = (tr'', Inr x) \<and> k x tr'' = (tr', Inr y))"
  by (auto simp: job_bind_def split: prod.splits sum.splits)

lemma job_lift_Inr [result_simps]: "job_lift r tr = (tr', Inr y) \<longleftrightarrow> tr' = tr \<and> r = Inr y"
  by (auto simp: job_lift_def)

lemma perform_Inr [result_simps]:
  "perform send o_c tr = (tr', Inr u) \<longleftrightarrow> is_ok (send o_c) \<and> tr' = tr @ [o_c]"
  by (auto simp: perform_def is_ok_iff split: sum.splits)

lemma perform_all_Inr [result_simps]:
  "perform_all send os tr = (tr', Inr u) \<longleftrightarrow> list_all (\<lambda>o_c. is_ok (send o_c)) os \<and> tr' = tr @ os"
  by (induction os arbitrary: tr) (auto simp: result_simps)

section \<open>Following a plan\<close>

lemma perform_cases:
  "(is_ok (send o_c) \<and> perform send o_c tr = (tr @ [o_c], Inr ()))
   \<or> (\<not> is_ok (send o_c) \<and> (\<exists>e. perform send o_c tr = (tr, Inl e)))"
  by (auto simp: perform_def is_ok_iff split: sum.splits)

lemma perform_all_prefix:
  "\<exists>done. fst (perform_all send os tr) = tr @ done \<and> prefix done os
     \<and> (is_ok (snd (perform_all send os tr)) \<longleftrightarrow> done = os)"
proof (induction os arbitrary: tr)
  case (Cons x os)
  show ?case
  proof (cases "is_ok (send x)")
    case True
    then have p: "perform send x tr = (tr @ [x], Inr ())" using perform_cases by fastforce
    from Cons.IH [of "tr @ [x]"] obtain d where
        d: "fst (perform_all send os (tr @ [x])) = (tr @ [x]) @ d" "prefix d os"
          "is_ok (snd (perform_all send os (tr @ [x]))) \<longleftrightarrow> d = os" by blast
    then show ?thesis by (intro exI [of _ "x # d"]) (simp add: job_bind_def p)
  next
    case False
    then obtain e where p: "perform send x tr = (tr, Inl e)" using perform_cases by fastforce
    then show ?thesis by (intro exI [of _ "[]"]) (simp add: job_bind_def p)
  qed
qed (simp add: job_lift_def)

lemma job_bind_guard:
  "job_bind (job_lift (if b then Inr () else Inl e)) k tr = (if b then k () tr else (tr, Inl e))"
  by (simp add: job_bind_def job_lift_def)

text \<open>Steps whose effects are a prefix of a list of effects, and all of it when they succeed.\<close>

definition follows :: "('o, 'e, 'a) job \<Rightarrow> 'o list \<Rightarrow> bool" where
  "follows j os \<longleftrightarrow>
     (\<forall>tr. \<exists>done. fst (j tr) = tr @ done \<and> prefix done os \<and> (is_ok (snd (j tr)) \<longrightarrow> done = os))"

lemma follows_lift: "follows (job_lift r) []"
  by (simp add: follows_def job_lift_def)

lemma follows_perform: "follows (perform send o_c) [o_c]"
  unfolding follows_def
proof
  fix tr
  show "\<exists>done. fst (perform send o_c tr) = tr @ done \<and> prefix done [o_c]
      \<and> (is_ok (snd (perform send o_c tr)) \<longrightarrow> done = [o_c])"
    using perform_cases [of send o_c tr] by auto
qed

lemma follows_perform_all: "follows (perform_all send os) os"
  unfolding follows_def using perform_all_prefix by metis

lemma follows_bind:
  assumes "follows j os" and "\<And>x. follows (k x) os'"
  shows "follows (job_bind j k) (os @ os')"
  unfolding follows_def
proof
  fix tr
  from assms(1) obtain d where d: "fst (j tr) = tr @ d" "prefix d os" "is_ok (snd (j tr)) \<longrightarrow> d = os"
    unfolding follows_def by blast
  show "\<exists>done. fst (job_bind j k tr) = tr @ done \<and> prefix done (os @ os')
     \<and> (is_ok (snd (job_bind j k tr)) \<longrightarrow> done = os @ os')"
  proof (cases "j tr")
    case (Pair tr' r)
    show ?thesis
    proof (cases r)
      case (Inl e)
      with Pair d show ?thesis by (intro exI [of _ d]) (simp add: job_bind_def prefix_prefix)
    next
      case (Inr x)
      from assms(2) obtain d' where d': "fst (k x tr') = tr' @ d'" "prefix d' os'" "is_ok (snd (k x tr')) \<longrightarrow> d' = os'"
        unfolding follows_def by blast
      with Pair Inr d show ?thesis by (intro exI [of _ "os @ d'"]) (simp add: job_bind_def)
    qed
  qed
qed

end
