(* ===== verification/Epoch.thy ===== *)
theory Epoch
  imports Settle Credibility Zk Wallet Job
begin

text \<open>
  The settlement job around the payout mathematics: \<open>config.rs\<close>, \<open>disclosure.rs\<close> and
  \<open>chain.rs\<close> of \<open>services/settlement/src\<close>. The chain is read through the parameter
  \<open>chain_view\<close> (contract calls and logs, crate \<open>alloy\<close>); transactions and file writes are
  values of type \<open>outcome\<close> offered to the parameter \<open>send\<close>, which says whether they succeed,
  and the job returns the list of those that happened. A transaction succeeds when its receipt
  arrives; like the code, the model does not look at the status inside the receipt. Messages on stderr are not modelled.
\<close>

section \<open>Configuration\<close>

record deployments =
  dp_tiers :: string
  dp_registry :: string
  dp_consumption :: string
  dp_payouts :: string
  dp_escrow :: string
  dp_beacon :: string
  dp_identity :: string

record config =
  rpc_url :: string
  private_key :: string
  cf_epoch :: u64
  disclosure_path :: "string option"
  out_path :: string
  cf_deployments :: deployments
  receipts_path :: "string option"
  min_epoch_bytes :: u64

datatype config_error = Missing string | Invalid string | Deployments string string

definition req :: "(string \<Rightarrow> string option) \<Rightarrow> string \<Rightarrow> config_error + string" where
  "req var name = ok_or (Missing name) (var name)"

definition config_from_env ::
    "(string \<Rightarrow> string option) \<Rightarrow> (string \<Rightarrow> string + string) \<Rightarrow> (string \<Rightarrow> string + deployments)
     \<Rightarrow> config_error + config" where
  "config_from_env var read_to_string parse_deployments =
     (let rpc = or_default ''http://127.0.0.1:8545'' (var ''RPC_URL'') in
      res_bind (req var ''PRIVATE_KEY'') (\<lambda>key.
      res_bind (req var ''EPOCH'') (\<lambda>epoch_text.
      res_bind (ok_or (Invalid ''EPOCH'') (parse_u64 epoch_text)) (\<lambda>epoch.
      let path = or_default ''chain/deployments/localhost.json'' (var ''DEPLOYMENTS'') in
      res_bind (map_err (Deployments path) (read_to_string path)) (\<lambda>raw.
      res_bind (map_err (Deployments path) (parse_deployments raw)) (\<lambda>deployed.
      res_bind (case var ''MIN_EPOCH_BYTES'' of
                  Some v \<Rightarrow> ok_or (Invalid ''MIN_EPOCH_BYTES'') (parse_u64 v)
                | None \<Rightarrow> Inr 131072) (\<lambda>floor_bytes.
      Inr \<lparr>rpc_url = rpc, private_key = key, cf_epoch = epoch, disclosure_path = var ''DISCLOSURE'',
           out_path = or_default (''chain/out/epoch-'' @ u64_to_string epoch @ ''-proofs.json'') (var ''OUT''),
           cf_deployments = deployed, receipts_path = var ''RECEIPTS'', min_epoch_bytes = floor_bytes\<rparr>)))))))"

section \<open>The disclosure file\<close>

record disclosure =
  dc_users :: "(string, usage_opening list) btree_map"
  dc_escrow_works :: "bytes32 list"

datatype disclosure_error = DIo string string | DParse string string

definition disclosure_load ::
    "(string \<Rightarrow> string + string) \<Rightarrow> (string \<Rightarrow> string + disclosure) \<Rightarrow> string \<Rightarrow> disclosure_error + disclosure" where
  "disclosure_load read_to_string parse_disclosure path =
     res_bind (map_err (DIo path) (read_to_string path)) (\<lambda>raw.
     map_err (DParse path) (parse_disclosure raw))"

text \<open>\<open>to_lowercase\<close> on the ASCII text of an address.\<close>

definition for_user :: "disclosure \<Rightarrow> string \<Rightarrow> usage_opening list option" where
  "for_user d address = bt_get (dc_users d) (to_ascii_lowercase address)"

section \<open>What the job reads and does\<close>

record submission =
  ev_user :: string
  ev_tier :: b32
  ev_digest :: b32
  ev_pseudonyms :: "b32 list"
  ev_work_ids :: "b32 list"
  ev_weights :: "u256 list"

record chain_view =
  get_logs :: "string \<Rightarrow> u64 \<Rightarrow> string + (string + submission) list"
  key_for :: "u64 \<Rightarrow> string + b32"
  fee_of :: "b32 \<Rightarrow> string + u256"
  price_per_min_of :: "b32 \<Rightarrow> string + u256"
  bandwidth_rate_of :: "b32 \<Rightarrow> string + u256"
  is_valid :: "string \<Rightarrow> b32 \<Rightarrow> string + bool"
  is_address :: "string \<Rightarrow> bool"
  b256_from_str :: "string \<Rightarrow> b32 option"

record files =
  read_text :: "string \<Rightarrow> string + string"
  parse_disclosure :: "string \<Rightarrow> string + disclosure"
  parse_bundle :: "string \<Rightarrow> string + receipt_bundle"

record primitives =
  pm_keccak256 :: "u8 list \<Rightarrow> hash"
  pm_hex_encode :: "u8 list \<Rightarrow> string"
  pm_hex_decode :: "string \<Rightarrow> u8 list option"
  pm_modulus :: int
  pm_poseidon :: "fr list \<Rightarrow> fr"

datatype run_error =
  Chain string | BadAddress string | TooLarge | DigestError prove_error | SettleError settle_error
| DisclosureError disclosure_error | Io string | ParseBundle string | BadKey | BadUrl | BadId string

datatype outcome =
    CommitEpoch u64 bytes32 u128
  | FundEscrow u128
  | CommitEscrow u64 bytes32 u128
  | WriteProofs string settlement
  | WriteSidecar string "(string \<times> string \<times> u128 \<times> u64) list"

definition resolve :: "chain_view \<Rightarrow> string \<Rightarrow> run_error + unit" where
  "resolve ch a = (if is_address ch a then Inr () else Inl (BadAddress a))"

definition storage_node_credential_type :: "primitives \<Rightarrow> b32" where
  "storage_node_credential_type pm =
     pm_keccak256 pm (map of_char ''cwe.credential.storage-node'')"

definition epoch_logs :: "chain_view \<Rightarrow> config \<Rightarrow> run_error + (string + submission) list" where
  "epoch_logs ch cfg =
     res_bind (resolve ch (dp_consumption (cf_deployments cfg))) (\<lambda>_.
     map_err Chain (get_logs ch (dp_consumption (cf_deployments cfg)) (cf_epoch cfg)))"

section \<open>Disclosure mode\<close>

definition disclosed_row ::
    "primitives \<Rightarrow> chain_view \<Rightarrow> string \<Rightarrow> usage_opening \<Rightarrow> run_error + usage_row" where
  "disclosed_row pm ch user_hex op =
     res_bind (map_err Chain (price_per_min_of ch (as_bytes (op_work_id op)))) (\<lambda>price.
     res_bind (ok_or TooLarge (u64_of_u256 price)) (\<lambda>price_ppm.
     Inr \<lparr>ur_user = user_hex, ur_work = bytes32_to_string (pm_hex_encode pm) (op_work_id op),
          ur_minutes = op_minutes op, ur_price_ppm = price_ppm, ur_region_ppm = 1000000,
          ur_plays = op_plays op\<rparr>))"

definition disclose_event ::
    "primitives \<Rightarrow> chain_view \<Rightarrow> disclosure \<Rightarrow> (string, u128) btree_map \<times> usage_row list
     \<Rightarrow> string + submission \<Rightarrow> run_error + (string, u128) btree_map \<times> usage_row list" where
  "disclose_event pm ch d s log =
     (case s of (tier_fees, usage) \<Rightarrow>
        res_bind (map_err Chain log) (\<lambda>ev.
        res_bind (map_err Chain (fee_of ch (ev_tier ev))) (\<lambda>fee.
        res_bind (ok_or TooLarge (u128_of_u256 fee)) (\<lambda>fee128.
        let tier_fees' = bt_insert (ev_user ev) fee128 tier_fees in
        case for_user d (ev_user ev) of
          None \<Rightarrow> Inr (tier_fees', usage)
        | Some openings \<Rightarrow>
            res_bind (res_map (disclosed_row pm ch (ev_user ev)) openings) (\<lambda>rows.
            Inr (tier_fees', usage @ rows))))))"

definition run_disclosure ::
    "primitives \<Rightarrow> chain_view \<Rightarrow> files \<Rightarrow> config \<Rightarrow> string \<Rightarrow> run_error + settlement" where
  "run_disclosure pm ch fs cfg path =
     res_bind (resolve ch (dp_tiers (cf_deployments cfg))) (\<lambda>_.
     res_bind (resolve ch (dp_registry (cf_deployments cfg))) (\<lambda>_.
     res_bind (map_err DisclosureError (disclosure_load (read_text fs) (parse_disclosure fs) path)) (\<lambda>d.
     res_bind (epoch_logs ch cfg) (\<lambda>logs.
     res_bind (res_fold (disclose_event pm ch d) ([], []) logs) (\<lambda>(tier_fees, usage).
     let escrow_works = bs_of_list (map (bytes32_to_string (pm_hex_encode pm)) (dc_escrow_works d)) in
     map_err SettleError (settle (pm_keccak256 pm) (pm_hex_decode pm) (cf_epoch cfg)
       \<lparr>ds_tier_fees = tier_fees, ds_usage = usage, ds_bandwidth_ppm = []\<rparr> escrow_works))))))"

section \<open>Event mode\<close>

text \<open>The active rows of a submission; the zero commitment is not hashed.\<close>

definition active_rows :: "submission \<Rightarrow> run_error + public_row list" where
  "active_rows ev =
     res_map (\<lambda>i.
       res_bind (ok_or TooLarge (u128_of_u256 (ev_weights ev ! i))) (\<lambda>w.
       Inr \<lparr>pr_work_id = ev_work_ids ev ! i, pr_commitment = replicate 32 0,
            pr_pseudonym = ev_pseudonyms ev ! i, pr_weight = w\<rparr>)) [0..<length (ev_work_ids ev)]"

definition paid_rows :: "primitives \<Rightarrow> string \<Rightarrow> public_row list \<Rightarrow> raw_row list" where
  "paid_rows pm user_hex active =
     map (\<lambda>row. \<lparr>rr_user = user_hex,
                 rr_work = bytes32_to_string (pm_hex_encode pm) (Bytes32 (pr_work_id row)),
                 rr_raw = pr_weight row\<rparr>) active"

definition pay_event ::
    "primitives \<Rightarrow> chain_view \<Rightarrow> u64 \<Rightarrow> b32 \<Rightarrow> (string, u128) btree_map \<times> raw_row list
     \<Rightarrow> string + submission \<Rightarrow> run_error + (string, u128) btree_map \<times> raw_row list" where
  "pay_event pm ch epoch k_epoch s log =
     (case s of (tier_fees, rows) \<Rightarrow>
        res_bind (map_err Chain log) (\<lambda>ev.
        let n = length (ev_work_ids ev) in
        if length (ev_pseudonyms ev) \<noteq> n \<or> length (ev_weights ev) \<noteq> n then Inr s
        else
          res_bind (active_rows ev) (\<lambda>active.
          res_bind (map_err DigestError
              (digest_from_active (pm_modulus pm) (pm_poseidon pm) epoch (ev_tier ev) k_epoch active)) (\<lambda>expected.
          if expected \<noteq> ev_digest ev then Inr s
          else
            res_bind (map_err Chain (fee_of ch (ev_tier ev))) (\<lambda>fee.
            res_bind (ok_or TooLarge (u128_of_u256 fee)) (\<lambda>fee128.
            Inr (bt_insert (ev_user ev) fee128 tier_fees,
                 rows @ paid_rows pm (ev_user ev) active)))))))"

text \<open>One credential lookup per distinct node.\<close>

definition check_node ::
    "primitives \<Rightarrow> chain_view \<Rightarrow> (string, bool) btree_map \<Rightarrow> signed_receipt
     \<Rightarrow> run_error + (string, bool) btree_map" where
  "check_node pm ch valid sr =
     (let nd = normalize_addr (rc_node (sr_receipt sr)) in
      if bt_contains valid nd then Inr valid
      else
        res_bind (if is_address ch nd
                  then map_err Chain (is_valid ch nd (storage_node_credential_type pm))
                  else Inr False) (\<lambda>ok.
        Inr (bt_insert nd ok valid)))"

text \<open>One rate lookup per distinct work; a rate above 64 bits counts as none.\<close>

definition fetch_rate ::
    "chain_view \<Rightarrow> (string, u64) btree_map \<Rightarrow> raw_row \<Rightarrow> run_error + (string, u64) btree_map" where
  "fetch_rate ch rates row =
     (let work = to_ascii_lowercase (rr_work row) in
      if bt_contains rates work then Inr rates
      else
        res_bind (ok_or (BadId work) (b256_from_str ch work)) (\<lambda>wid.
        res_bind (map_err Chain (bandwidth_rate_of ch wid)) (\<lambda>rate.
        Inr (bt_insert work (or_default 0 (u64_of_u256 rate)) rates))))"

definition sidecar_rows ::
    "byte_totals \<Rightarrow> (string, u64) btree_map \<Rightarrow> (string \<times> string \<times> u128 \<times> u64) list" where
  "sidecar_rows verified factor =
     map (\<lambda>((user, work), bytes). (user, work, bytes, bt_get_or 0 factor user)) verified"

definition bandwidth_credibility ::
    "primitives \<Rightarrow> ('sig, 'addr) receipt_env \<Rightarrow> chain_view \<Rightarrow> files \<Rightarrow> config \<Rightarrow> string \<Rightarrow> raw_row list
     \<Rightarrow> run_error + (outcome \<times> u64 list)" where
  "bandwidth_credibility pm env ch fs cfg path rows =
     res_bind (map_err Io (read_text fs path)) (\<lambda>raw.
     res_bind (map_err ParseBundle (parse_bundle fs raw)) (\<lambda>bundle.
     res_bind (resolve ch (dp_identity (cf_deployments cfg))) (\<lambda>_.
     res_bind (res_fold (check_node pm ch) [] (rb_receipts bundle)) (\<lambda>valid.
     let verified = accept_receipts env bundle (cf_epoch cfg) (\<lambda>nd. bt_get_or False valid nd) in
     res_bind (resolve ch (dp_registry (cf_deployments cfg))) (\<lambda>_.
     res_bind (res_fold (fetch_rate ch) [] rows) (\<lambda>rates.
     let factor = epoch_factor_ppm verified (min_epoch_bytes cfg);
         ppm = row_credibility_ppm rows verified rates factor
     in Inr (WriteSidecar (with_extension (out_path cfg) ''bandwidth.json'') (sidecar_rows verified factor), ppm)))))))"

definition run_events ::
    "primitives \<Rightarrow> ('sig, 'addr) receipt_env \<Rightarrow> chain_view \<Rightarrow> files \<Rightarrow> (outcome \<Rightarrow> run_error + unit)
     \<Rightarrow> config \<Rightarrow> (outcome, run_error, settlement) job" where
  "run_events pm env ch fs send cfg =
     job_bind (job_lift (resolve ch (dp_tiers (cf_deployments cfg)))) (\<lambda>_.
     job_bind (job_lift (resolve ch (dp_beacon (cf_deployments cfg)))) (\<lambda>_.
     job_bind (job_lift (map_err Chain (key_for ch (cf_epoch cfg)))) (\<lambda>k_epoch.
     job_bind (job_lift (epoch_logs ch cfg)) (\<lambda>logs.
     job_bind (job_lift (res_fold (pay_event pm ch (cf_epoch cfg) k_epoch) ([], []) logs)) (\<lambda>(tier_fees, rows).
     case receipts_path cfg of
       None \<Rightarrow>
         job_lift (map_err SettleError
           (settle_raw (pm_keccak256 pm) (pm_hex_decode pm) (cf_epoch cfg) tier_fees rows [] []))
     | Some path \<Rightarrow>
         job_bind (job_lift (bandwidth_credibility pm env ch fs cfg path rows)) (\<lambda>(sidecar, ppm).
         job_bind (perform send sidecar) (\<lambda>_.
         job_lift (map_err SettleError
           (settle_raw_with_row_credibility (pm_keccak256 pm) (pm_hex_decode pm) (cf_epoch cfg)
              tier_fees rows ppm [])))))))))"

definition compute_settlement ::
    "primitives \<Rightarrow> ('sig, 'addr) receipt_env \<Rightarrow> chain_view \<Rightarrow> files \<Rightarrow> (outcome \<Rightarrow> run_error + unit)
     \<Rightarrow> config \<Rightarrow> (outcome, run_error, settlement) job" where
  "compute_settlement pm env ch fs send cfg =
     (case disclosure_path cfg of
        Some path \<Rightarrow> job_lift (run_disclosure pm ch fs cfg path)
      | None \<Rightarrow> run_events pm env ch fs send cfg)"

definition run ::
    "primitives \<Rightarrow> ('sig, 'addr) receipt_env \<Rightarrow> chain_view \<Rightarrow> files \<Rightarrow> (string \<Rightarrow> bool) \<Rightarrow> (string \<Rightarrow> bool)
     \<Rightarrow> (outcome \<Rightarrow> run_error + unit) \<Rightarrow> config \<Rightarrow> (outcome, run_error, settlement) job" where
  "run pm env ch fs is_key is_url send cfg =
     job_bind (job_lift (if is_key (private_key cfg) then Inr () else Inl BadKey)) (\<lambda>_.
     job_bind (job_lift (if is_url (rpc_url cfg) then Inr () else Inl BadUrl)) (\<lambda>_.
     job_bind (compute_settlement pm env ch fs send cfg) (\<lambda>s.
     job_bind (job_lift (resolve ch (dp_payouts (cf_deployments cfg)))) (\<lambda>_.
     job_bind (perform send (CommitEpoch (sm_epoch s) (merkle_root_of s) (total_credits s))) (\<lambda>_.
     job_bind (if escrow s = [] then job_lift (Inr ())
               else
                 job_bind (job_lift (resolve ch (dp_escrow (cf_deployments cfg)))) (\<lambda>_.
                 job_bind (perform send (FundEscrow (escrow_total s))) (\<lambda>_.
                 perform_all send (map (\<lambda>e. CommitEscrow (sm_epoch s) (ee_work_id e) (ee_amount e)) (escrow s))))) (\<lambda>_.
     job_bind (perform send (WriteProofs (out_path cfg) s)) (\<lambda>_.
     job_lift (Inr s))))))))"

section \<open>Which submissions are paid\<close>

definition same_lengths :: "submission \<Rightarrow> bool" where
  "same_lengths ev \<longleftrightarrow>
     length (ev_pseudonyms ev) = length (ev_work_ids ev) \<and> length (ev_weights ev) = length (ev_work_ids ev)"

definition submission_rows :: "submission \<Rightarrow> public_row list" where
  "submission_rows ev =
     map (\<lambda>(w, ps, wt). \<lparr>pr_work_id = w, pr_commitment = replicate 32 0, pr_pseudonym = ps, pr_weight = ucast wt\<rparr>)
       (zip (ev_work_ids ev) (zip (ev_pseudonyms ev) (ev_weights ev)))"

text \<open>The submission passes re-verification: its own rows hash to its digest.\<close>

definition genuine :: "primitives \<Rightarrow> u64 \<Rightarrow> b32 \<Rightarrow> submission \<Rightarrow> bool" where
  "genuine pm epoch k_epoch ev \<longleftrightarrow>
     same_lengths ev
     \<and> digest_from_active (pm_modulus pm) (pm_poseidon pm) epoch (ev_tier ev) k_epoch (submission_rows ev)
         = Inr (ev_digest ev)"

text \<open>Inside the widths: no weight needs more than 128 bits and the rows fit the circuit.\<close>

definition in_range :: "submission \<Rightarrow> bool" where
  "in_range ev \<longleftrightarrow>
     list_all (\<lambda>w. unat w < 2 ^ 128) (ev_weights ev) \<and> length (ev_work_ids ev) \<le> MAX_WORKS"

lemma active_rows_Inr:
  assumes "same_lengths ev"
  shows "active_rows ev = Inr active \<longleftrightarrow>
     list_all (\<lambda>w. unat w < 2 ^ 128) (ev_weights ev) \<and> active = submission_rows ev"
proof -
  let ?n = "length (ev_work_ids ev)"
  have len: "length (ev_weights ev) = ?n" "length (ev_pseudonyms ev) = ?n"
    using assms by (simp_all add: same_lengths_def)
  have rows: "submission_rows ev ! i = \<lparr>pr_work_id = ev_work_ids ev ! i, pr_commitment = replicate 32 0,
      pr_pseudonym = ev_pseudonyms ev ! i, pr_weight = ucast (ev_weights ev ! i)\<rparr>" if "i < ?n" for i
    using that len by (simp add: submission_rows_def)
  have rlen: "length (submission_rows ev) = ?n" using len by (simp add: submission_rows_def)
  have "active_rows ev = Inr active \<longleftrightarrow>
      length active = ?n \<and> (\<forall>i < ?n. unat (ev_weights ev ! i) < 2 ^ 128 \<and> active ! i = submission_rows ev ! i)"
    by (auto simp: active_rows_def res_map_Inr_list_all2 list_all2_conv_all_nth res_bind_eq_Inr
        ok_or_eq_Inr u128_of_u256_Some rows)
  also have "\<dots> \<longleftrightarrow> list_all (\<lambda>w. unat w < 2 ^ 128) (ev_weights ev) \<and> active = submission_rows ev"
    using len rlen by (auto simp: list_all_length list_eq_iff_nth_eq)
  finally show ?thesis .
qed

lemma length_submission_rows: "same_lengths ev \<Longrightarrow> length (submission_rows ev) = length (ev_work_ids ev)"
  by (simp add: submission_rows_def same_lengths_def)

text \<open>One log, on success: rejected submissions leave no trace, accepted ones add fee and rows.\<close>

lemma pay_event_Inr:
  "pay_event pm ch epoch k (fees, rows) log = Inr s \<longleftrightarrow>
     (\<exists>ev. log = Inr ev \<and>
       (if \<not> same_lengths ev then s = (fees, rows)
        else in_range ev \<and>
          (if \<not> genuine pm epoch k ev then s = (fees, rows)
           else \<exists>fee. fee_of ch (ev_tier ev) = Inr fee \<and> unat fee < 2 ^ 128
             \<and> s = (bt_insert (ev_user ev) (ucast fee) fees, rows @ paid_rows pm (ev_user ev) (submission_rows ev)))))"
proof (cases log)
  case (Inr ev)
  show ?thesis
  proof (cases "same_lengths ev")
    case False
    then show ?thesis
      by (auto simp: pay_event_def Inr same_lengths_def Let_def)
  next
    case True
    then have guard: "length (ev_pseudonyms ev) = length (ev_work_ids ev)" "length (ev_weights ev) = length (ev_work_ids ev)"
      by (simp_all add: same_lengths_def)
    show ?thesis
      using length_submission_rows [OF True] True
      by (auto simp: pay_event_def Inr guard res_bind_eq_Inr map_err_eq_Inr ok_or_eq_Inr active_rows_Inr [OF True]
          u128_of_u256_Some genuine_def in_range_def digest_from_active_def Let_def split: if_splits)
  qed
qed (simp add: pay_event_def)

text \<open>The fee table: the last accepted submission of a user sets the fee.\<close>

definition fee_table :: "chain_view \<Rightarrow> submission list \<Rightarrow> (string, u128) btree_map" where
  "fee_table ch evs =
     foldl (\<lambda>m ev. bt_insert (ev_user ev) (case fee_of ch (ev_tier ev) of Inr fee \<Rightarrow> ucast fee | Inl _ \<Rightarrow> 0) m) [] evs"

definition row_table :: "primitives \<Rightarrow> submission list \<Rightarrow> raw_row list" where
  "row_table pm evs = concat (map (\<lambda>ev. paid_rows pm (ev_user ev) (submission_rows ev)) evs)"

definition fee_ok :: "chain_view \<Rightarrow> submission \<Rightarrow> bool" where
  "fee_ok ch ev = (case fee_of ch (ev_tier ev) of Inl _ \<Rightarrow> False | Inr fee \<Rightarrow> unat fee < 2 ^ 128)"

lemma res_bind_Inr_id: "res_bind r (\<lambda>x. Inr x) = r"
  by (cases r) auto

lemma pay_fold_Inr:
  "res_fold (pay_event pm ch epoch k) ([], []) logs = Inr s \<longleftrightarrow>
     (\<exists>evs. logs = map Inr evs
        \<and> list_all in_range (List.filter same_lengths evs)
        \<and> list_all (fee_ok ch) (List.filter (genuine pm epoch k) evs)
        \<and> s = (fee_table ch (List.filter (genuine pm epoch k) evs), row_table pm (List.filter (genuine pm epoch k) evs)))"
proof (induction logs arbitrary: s rule: rev_induct)
  case Nil
  then show ?case by (auto simp: fee_table_def row_table_def)
next
  case (snoc log logs)
  let ?G = "genuine pm epoch k"
  let ?spec = "\<lambda>logs s. \<exists>evs. logs = map Inr evs
        \<and> list_all in_range (List.filter same_lengths evs)
        \<and> list_all (fee_ok ch) (List.filter ?G evs)
        \<and> s = (fee_table ch (List.filter ?G evs), row_table pm (List.filter ?G evs))"
  have G: "same_lengths ev" if "?G ev" for ev using that by (simp add: genuine_def)
  have "res_fold (pay_event pm ch epoch k) ([], []) (logs @ [log]) = Inr s \<longleftrightarrow>
      (\<exists>fees rows. ?spec logs (fees, rows) \<and> pay_event pm ch epoch k (fees, rows) log = Inr s)"
    by (simp add: res_fold_append res_bind_eq_Inr res_bind_Inr_id snoc.IH)
  also have "\<dots> \<longleftrightarrow> ?spec (logs @ [log]) s"
  proof
    assume "\<exists>fees rows. ?spec logs (fees, rows) \<and> pay_event pm ch epoch k (fees, rows) log = Inr s"
    then obtain evs ev where "logs = map Inr evs" "log = Inr ev"
        "list_all in_range (List.filter same_lengths evs)" "list_all (fee_ok ch) (List.filter ?G evs)"
        "pay_event pm ch epoch k (fee_table ch (List.filter ?G evs), row_table pm (List.filter ?G evs)) (Inr ev) = Inr s"
      unfolding pay_event_Inr by auto
    then show "?spec (logs @ [log]) s"
      using G by (intro exI [of _ "evs @ [ev]"])
        (auto simp: pay_event_Inr fee_table_def row_table_def fee_ok_def split: if_splits)
  next
    assume "?spec (logs @ [log]) s"
    then obtain evs' where e: "logs @ [log] = map Inr evs'"
        "list_all in_range (List.filter same_lengths evs')" "list_all (fee_ok ch) (List.filter ?G evs')"
        "s = (fee_table ch (List.filter ?G evs'), row_table pm (List.filter ?G evs'))" by blast
    then obtain evs ev where evs: "evs' = evs @ [ev]" "logs = map Inr evs" "log = Inr ev"
      by (metis append_butlast_last_id butlast_append butlast_snoc last_map last_snoc list.map_disc_iff map_butlast snoc_eq_iff_butlast)
    then show "\<exists>fees rows. ?spec logs (fees, rows) \<and> pay_event pm ch epoch k (fees, rows) log = Inr s"
      using e G by (intro exI conjI)
        (auto simp: pay_event_Inr fee_table_def row_table_def fee_ok_def split: sum.splits if_splits)
  qed
  finally show ?case .
qed

section \<open>The effects of a run\<close>

text \<open>What a run does once the settlement \<open>s\<close> is computed, in order.\<close>

definition plan :: "config \<Rightarrow> settlement \<Rightarrow> outcome list" where
  "plan cfg s =
     CommitEpoch (sm_epoch s) (merkle_root_of s) (total_credits s)
     # (if escrow s = [] then []
        else FundEscrow (escrow_total s) # map (\<lambda>e. CommitEscrow (sm_epoch s) (ee_work_id e) (ee_amount e)) (escrow s))
     @ [WriteProofs (out_path cfg) s]"

definition is_sidecar :: "outcome \<Rightarrow> bool" where
  "is_sidecar o_c = (case o_c of WriteSidecar _ _ \<Rightarrow> True | _ \<Rightarrow> False)"

text \<open>The tail of \<open>run\<close> after the settlement is known.\<close>

definition carry_out :: "chain_view \<Rightarrow> (outcome \<Rightarrow> run_error + unit) \<Rightarrow> config \<Rightarrow> settlement \<Rightarrow> (outcome, run_error, settlement) job" where
  "carry_out ch send cfg s =
     job_bind (job_lift (resolve ch (dp_payouts (cf_deployments cfg)))) (\<lambda>_.
     job_bind (perform send (CommitEpoch (sm_epoch s) (merkle_root_of s) (total_credits s))) (\<lambda>_.
     job_bind (if escrow s = [] then job_lift (Inr ())
               else
                 job_bind (job_lift (resolve ch (dp_escrow (cf_deployments cfg)))) (\<lambda>_.
                 job_bind (perform send (FundEscrow (escrow_total s))) (\<lambda>_.
                 perform_all send (map (\<lambda>e. CommitEscrow (sm_epoch s) (ee_work_id e) (ee_amount e)) (escrow s))))) (\<lambda>_.
     job_bind (perform send (WriteProofs (out_path cfg) s)) (\<lambda>_.
     job_lift (Inr s)))))"

lemma run_unfold:
  "run pm env ch fs is_key is_url send cfg tr =
     (if \<not> is_key (private_key cfg) then (tr, Inl BadKey)
      else if \<not> is_url (rpc_url cfg) then (tr, Inl BadUrl)
      else job_bind (compute_settlement pm env ch fs send cfg) (carry_out ch send cfg) tr)"
  unfolding run_def job_bind_guard carry_out_def [abs_def]
  by (cases "is_key (private_key cfg)"; cases "is_url (rpc_url cfg)") (simp_all only: if_True if_False not_True_eq_False not_False_eq_True simp_thms)

lemma carry_out_follows: "follows (carry_out ch send cfg s) (plan cfg s)"
proof -
  let ?esc = "if escrow s = [] then []
        else FundEscrow (escrow_total s) # map (\<lambda>e. CommitEscrow (sm_epoch s) (ee_work_id e) (ee_amount e)) (escrow s)"
  have esc: "follows (if escrow s = [] then job_lift (Inr ())
               else
                 job_bind (job_lift (resolve ch (dp_escrow (cf_deployments cfg)))) (\<lambda>_.
                 job_bind (perform send (FundEscrow (escrow_total s))) (\<lambda>_.
                 perform_all send (map (\<lambda>e. CommitEscrow (sm_epoch s) (ee_work_id e) (ee_amount e)) (escrow s))))) ?esc"
  proof (cases "escrow s = []")
    case True
    then show ?thesis by (simp add: follows_lift)
  next
    case False
    have "follows (job_bind (job_lift (resolve ch (dp_escrow (cf_deployments cfg)))) (\<lambda>_.
                 job_bind (perform send (FundEscrow (escrow_total s))) (\<lambda>_.
                 perform_all send (map (\<lambda>e. CommitEscrow (sm_epoch s) (ee_work_id e) (ee_amount e)) (escrow s)))))
        ([] @ [FundEscrow (escrow_total s)] @ map (\<lambda>e. CommitEscrow (sm_epoch s) (ee_work_id e) (ee_amount e)) (escrow s))"
      by (intro follows_bind follows_lift follows_perform follows_perform_all)
    with False show ?thesis by simp
  qed
  have "follows (carry_out ch send cfg s)
      ([] @ [CommitEpoch (sm_epoch s) (merkle_root_of s) (total_credits s)] @ ?esc @ [WriteProofs (out_path cfg) s] @ [])"
    unfolding carry_out_def
    by (intro follows_bind follows_lift follows_perform esc)
  then show ?thesis by (simp add: plan_def)
qed

lemma compute_sidecar:
  "\<exists>side. fst (compute_settlement pm env ch fs send cfg tr) = tr @ side \<and> list_all is_sidecar side
     \<and> length side \<le> 1 \<and> (side \<noteq> [] \<longrightarrow> receipts_path cfg \<noteq> None)"
proof (cases "disclosure_path cfg")
  case (Some path)
  then show ?thesis by (simp add: compute_settlement_def job_lift_def)
next
  case None
  show ?thesis
  proof (cases "receipts_path cfg")
    case none: None
    have "fst (run_events pm env ch fs send cfg tr) = tr"
      by (auto simp: run_events_def job_bind_def job_lift_def none split: sum.splits prod.splits)
    then show ?thesis by (simp add: compute_settlement_def None)
  next
    case (Some path)
    have sc: "is_sidecar (fst x)" if "bandwidth_credibility pm env ch fs cfg path rows = Inr x" for x rows
      using that by (auto simp: bandwidth_credibility_def res_bind_eq_Inr Let_def is_sidecar_def)
    have "fst (run_events pm env ch fs send cfg tr) = tr
        \<or> (\<exists>o_c. is_sidecar o_c \<and> fst (run_events pm env ch fs send cfg tr) = tr @ [o_c])"
      using sc by (auto simp: run_events_def job_bind_def job_lift_def Some perform_def split: sum.splits prod.splits)
    then show ?thesis using Some
      by (auto simp: compute_settlement_def None)
  qed
qed

section \<open>Properties\<close>

lemma run_shape:
  "\<exists>side rest. fst (run pm env ch fs is_key is_url send cfg []) = side @ rest
     \<and> list_all is_sidecar side \<and> length side \<le> 1
     \<and> (rest = [] \<or> (\<exists>s. compute_settlement pm env ch fs send cfg [] = (side, Inr s) \<and> prefix rest (plan cfg s)))
     \<and> (case snd (run pm env ch fs is_key is_url send cfg []) of
          Inl _ \<Rightarrow> True
        | Inr s \<Rightarrow> compute_settlement pm env ch fs send cfg [] = (side, Inr s) \<and> rest = plan cfg s)"
proof (cases "is_key (private_key cfg) \<and> is_url (rpc_url cfg)")
  case False
  then show ?thesis by (auto simp: run_unfold intro!: exI [of _ "[]"])
next
  case True
  then have run: "run pm env ch fs is_key is_url send cfg [] =
      job_bind (compute_settlement pm env ch fs send cfg) (carry_out ch send cfg) []" by (simp add: run_unfold)
  obtain side r where c: "compute_settlement pm env ch fs send cfg [] = (side, r)" by fastforce
  have sc: "list_all is_sidecar side" "length side \<le> 1"
    using compute_sidecar [of pm env ch fs send cfg "[]"] c by auto
  show ?thesis
  proof (cases r)
    case (Inl e)
    with sc c show ?thesis by (intro exI [of _ side] exI [of _ "[]"]) (simp add: run job_bind_def)
  next
    case (Inr s)
    have "\<exists>done. fst (carry_out ch send cfg s side) = side @ done \<and> prefix done (plan cfg s)
        \<and> (is_ok (snd (carry_out ch send cfg s side)) \<longrightarrow> done = plan cfg s)"
      using carry_out_follows [of ch send cfg s] unfolding follows_def by blast
    then obtain d where d: "fst (carry_out ch send cfg s side) = side @ d" "prefix d (plan cfg s)"
        "is_ok (snd (carry_out ch send cfg s side)) \<longrightarrow> d = plan cfg s" by blast
    have same: "s' = s" if "snd (carry_out ch send cfg s side) = Inr s'" for s'
      using that surjective_pairing [of "carry_out ch send cfg s side"]
      by (auto simp: carry_out_def result_simps)
    have run': "run pm env ch fs is_key is_url send cfg [] = carry_out ch send cfg s side"
      by (simp add: run job_bind_def c Inr)
    show ?thesis unfolding run' using sc c Inr d same
      by (intro exI [of _ side] exI [of _ d]) (auto split: sum.splits)
  qed
qed

text \<open>C12: the order of effects of a settlement run. Whatever fails and wherever, the job sends no
  transaction before the settlement is computed, and the effects that happened are then a prefix of
  one plan: commit the root, fund the escrow contract, commit each escrowed work, write the proofs.
  A run reports success exactly with the whole plan carried out.\<close>
theorem run_effects_ordered:
  "\<exists>side rest. fst (run pm env ch fs is_key is_url send cfg []) = side @ rest
     \<and> list_all is_sidecar side \<and> length side \<le> 1
     \<and> (rest = [] \<or> (\<exists>s. compute_settlement pm env ch fs send cfg [] = (side, Inr s) \<and> prefix rest (plan cfg s)))
     \<and> (case snd (run pm env ch fs is_key is_url send cfg []) of
          Inl _ \<Rightarrow> True
        | Inr s \<Rightarrow> compute_settlement pm env ch fs send cfg [] = (side, Inr s) \<and> rest = plan cfg s)"
  by (rule run_shape)

lemma run_events_Inr:
  assumes "run_events pm env ch fs send cfg tr = (tr', Inr s)"
    and "get_logs ch (dp_consumption (cf_deployments cfg)) (cf_epoch cfg) = Inr (map Inr evs)"
    and "key_for ch (cf_epoch cfg) = Inr k"
  defines "paid \<equiv> List.filter (genuine pm (cf_epoch cfg) k) evs"
  shows "\<exists>creds. settle_raw_with_row_credibility (pm_keccak256 pm) (pm_hex_decode pm) (cf_epoch cfg)
            (fee_table ch paid) (row_table pm paid) creds [] = Inr s
       \<and> (case receipts_path cfg of
            None \<Rightarrow> creds = replicate (length (row_table pm paid)) 1000000
          | Some path \<Rightarrow> \<exists>sidecar. bandwidth_credibility pm env ch fs cfg path (row_table pm paid) = Inr (sidecar, creds))"
proof -
  have neutral: "map (\<lambda>r. bw_ppm [] (rr_work r)) rows = replicate (length rows) 1000000" for rows
    by (induction rows) (simp_all add: bw_ppm_def bt_get_or_def)
  have evs: "map Inr evs = map Inr evs' \<longleftrightarrow> evs' = evs" for evs' :: "submission list"
    by (auto dest: map_injective)
  from assms(1-3) show ?thesis
    by (cases "receipts_path cfg")
      (auto simp: run_events_def result_simps epoch_logs_def pay_fold_Inr evs paid_def
        settle_raw_def settle_raw_with_row_credibility_def allocate_from_raw_def Let_def neutral
        split: prod.splits)
qed

text \<open>C10: what event mode pays. A successful run pays exactly the submissions whose rows hash to the
  digest verified on chain: the fees are those of their users, the rows are theirs in chain order,
  nothing is escrowed, and direct credits plus the unallocated amount equal those fees to the unit.
  Rejected submissions neither pay nor are charged.\<close>
theorem event_mode_pays_genuine:
  assumes "run pm env ch fs is_key is_url send cfg [] = (tr, Inr s)" and "disclosure_path cfg = None"
    and "get_logs ch (dp_consumption (cf_deployments cfg)) (cf_epoch cfg) = Inr (map Inr evs)"
    and "key_for ch (cf_epoch cfg) = Inr k"
    and "paid = List.filter (genuine pm (cf_epoch cfg) k) evs"
    and "length (row_table pm paid) < 2 ^ 64" and "map_total (fee_table ch paid) < 2 ^ 128"
  shows "\<exists>creds. settle_raw_with_row_credibility (pm_keccak256 pm) (pm_hex_decode pm) (cf_epoch cfg)
            (fee_table ch paid) (row_table pm paid) creds [] = Inr s
       \<and> (case receipts_path cfg of
            None \<Rightarrow> creds = replicate (length (row_table pm paid)) 1000000
          | Some path \<Rightarrow> \<exists>sidecar. bandwidth_credibility pm env ch fs cfg path (row_table pm paid) = Inr (sidecar, creds))
       \<and> escrow s = []
       \<and> unat (total_credits s) + unat (sm_unallocated s) = map_total (fee_table ch paid)"
proof -
  from assms(1,2) obtain side where "run_events pm env ch fs send cfg [] = (side, Inr s)"
    using run_shape [of pm env ch fs is_key is_url send cfg] by (auto simp: compute_settlement_def)
  from run_events_Inr [OF this assms(3,4)] obtain creds where
      c: "settle_raw_with_row_credibility (pm_keccak256 pm) (pm_hex_decode pm) (cf_epoch cfg)
            (fee_table ch paid) (row_table pm paid) creds [] = Inr s" and
      cr: "case receipts_path cfg of
            None \<Rightarrow> creds = replicate (length (row_table pm paid)) 1000000
          | Some path \<Rightarrow> \<exists>sidecar. bandwidth_credibility pm env ch fs cfg path (row_table pm paid) = Inr (sidecar, creds)"
    unfolding assms(5) by blast
  from c obtain p where "finalize (pm_keccak256 pm) (pm_hex_decode pm) (cf_epoch cfg) p [] = Inr s"
    by (auto simp: settle_raw_with_row_credibility_def res_bind_eq_Inr map_err_eq_Inr)
  from finalize_Inr [OF this] have "escrow s = []" "escrow_total s = 0"
    by (auto simp: escrow_part_def bs_contains_def)
  with settlement_accounts [OF c assms(6,7)] c cr show ?thesis by auto
qed

text \<open>C37: one submission stops the epoch. If any event of the epoch has equal array lengths but more
  than sixteen rows, or a weight of 128 bits or more, event mode fails before doing anything, whatever
  the other submissions are; such an event is not skipped like one with a wrong digest.\<close>
theorem one_submission_blocks:
  assumes "get_logs ch (dp_consumption (cf_deployments cfg)) (cf_epoch cfg) = Inr (map Inr evs)"
    and "ev \<in> set evs" and "same_lengths ev" and "\<not> in_range ev" and "disclosure_path cfg = None"
  shows "fst (run pm env ch fs is_key is_url send cfg []) = []
       \<and> \<not> is_ok (snd (run pm env ch fs is_key is_url send cfg []))"
proof -
  have no: "\<not> is_ok (res_fold (pay_event pm ch (cf_epoch cfg) k) ([], []) (map Inr evs))" for k
  proof
    assume "is_ok (res_fold (pay_event pm ch (cf_epoch cfg) k) ([], []) (map Inr evs))"
    then obtain evs' :: "submission list" where "map Inr evs = (map Inr evs' :: (string + submission) list)"
        "list_all in_range (List.filter same_lengths evs')"
      unfolding is_ok_iff pay_fold_Inr by auto
    moreover from this have "evs' = evs" by (auto dest: map_injective)
    ultimately show False using assms(2-4) by (auto simp: list_all_iff)
  qed
  have fails: "\<exists>e. res_fold (pay_event pm ch (cf_epoch cfg) k) ([], []) (map Inr evs) = Inl e" for k
    using no [of k] by (cases "res_fold (pay_event pm ch (cf_epoch cfg) k) ([], []) (map Inr evs)") simp_all
  have "\<exists>e. run_events pm env ch fs send cfg [] = ([], Inl e)"
  proof (cases "key_for ch (cf_epoch cfg)")
    case (Inr k)
    with fails [of k] show ?thesis
      by (auto simp: run_events_def job_bind_def job_lift_def epoch_logs_def resolve_def assms(1))
  qed (simp add: run_events_def job_bind_def job_lift_def resolve_def)
  then show ?thesis
    by (auto simp: run_unfold job_bind_def compute_settlement_def assms(5))
qed
lemma carry_out_succeeds:
  assumes "\<And>o_c. is_ok (send o_c)" and "\<And>a. is_address ch a"
  shows "carry_out ch send cfg s tr = (tr @ plan cfg s, Inr s)"
  by (simp add: carry_out_def result_simps resolve_def plan_def list_all_iff assms)

section \<open>A concrete epoch\<close>

definition ex_prims :: primitives where
  "ex_prims = \<lparr>pm_keccak256 = (\<lambda>bs. take 32 (bs @ replicate 32 0)), pm_hex_encode = hex_string,
     pm_hex_decode = decode_hex, pm_modulus = 101, pm_poseidon = (\<lambda>_. 0)\<rparr>"

definition ex_submission :: "string \<Rightarrow> b32 \<Rightarrow> submission" where
  "ex_submission user dg = \<lparr>ev_user = user, ev_tier = [1], ev_digest = dg, ev_pseudonyms = [[5]],
     ev_work_ids = [replicate 32 9], ev_weights = [7]\<rparr>"

definition ex_digest :: b32 where
  "ex_digest = fr_to_bytes32 0"

definition ex_events :: "submission list" where
  "ex_events = [ex_submission ''0xaa'' ex_digest, ex_submission ''0xbb'' [0]]"

definition ex_chain :: "submission list \<Rightarrow> chain_view" where
  "ex_chain evs = \<lparr>get_logs = (\<lambda>_ _. Inr (map Inr evs)), key_for = (\<lambda>_. Inr [3]), fee_of = (\<lambda>_. Inr 1000),
     price_per_min_of = (\<lambda>_. Inl ''unused''), bandwidth_rate_of = (\<lambda>_. Inl ''unused''),
     is_valid = (\<lambda>_ _. Inr False), is_address = (\<lambda>_. True), b256_from_str = (\<lambda>_. None)\<rparr>"

definition ex_config :: config where
  "ex_config = \<lparr>rpc_url = ''u'', private_key = ''k'', cf_epoch = 4, disclosure_path = None, out_path = ''out'',
     cf_deployments = \<lparr>dp_tiers = ''t'', dp_registry = ''r'', dp_consumption = ''c'', dp_payouts = ''p'',
       dp_escrow = ''e'', dp_beacon = ''b'', dp_identity = ''i''\<rparr>,
     receipts_path = None, min_epoch_bytes = 131072\<rparr>"

definition ex_files :: files where
  "ex_files = \<lparr>read_text = (\<lambda>_. Inl ''none''), parse_disclosure = (\<lambda>_. Inl ''none''), parse_bundle = (\<lambda>_. Inl ''none'')\<rparr>"

definition ex_run :: "submission list \<Rightarrow> outcome list \<times> (run_error + settlement)" where
  "ex_run evs = run ex_prims demo_env (ex_chain evs) ex_files (\<lambda>_. True) (\<lambda>_. True) (\<lambda>_. Inr ()) ex_config []"

lemma ex_genuine:
  "List.filter (genuine ex_prims 4 [3]) ex_events = [ex_submission ''0xaa'' ex_digest]"
proof -
  have "fr_to_bytes32 0 \<noteq> [0]"
    using length_int_be [of 32 0] by (auto simp: fr_to_bytes32_def simp del: length_int_be)
  then show ?thesis
    by (simp add: ex_events_def genuine_def ex_submission_def same_lengths_def submission_rows_def ex_prims_def
        digest_from_active_def digest_def ex_digest_def MAX_WORKS_def)
qed

lemma ex_fees: "fee_table (ex_chain evs) [ex_submission ''0xaa'' ex_digest] = [(''0xaa'', 1000)]"
  by (simp add: fee_table_def ex_submission_def ex_chain_def)

lemma ex_rows:
  "row_table ex_prims [ex_submission ''0xaa'' ex_digest]
     = [\<lparr>rr_user = ''0xaa'', rr_work = bytes32_to_string hex_string (Bytes32 (replicate 32 9)), rr_raw = 7\<rparr>]"
  by (simp add: row_table_def ex_submission_def paid_rows_def submission_rows_def ex_prims_def)

lemma ex_settled:
  "is_ok (settle_raw (\<lambda>bs. take 32 (bs @ replicate 32 0)) decode_hex 4 [(''0xaa'', 1000)]
     [\<lparr>rr_user = ''0xaa'', rr_work = bytes32_to_string hex_string (Bytes32 (replicate 32 9)), rr_raw = 7\<rparr>] [] [])"
  by code_simp

lemma ex_run_ok: "is_ok (snd (ex_run ex_events))"
proof -
  have "res_fold (pay_event ex_prims (ex_chain ex_events) 4 [3]) ([], []) (map Inr ex_events)
     = Inr ([(''0xaa'', 1000)],
        [\<lparr>rr_user = ''0xaa'', rr_work = bytes32_to_string hex_string (Bytes32 (replicate 32 9)), rr_raw = 7\<rparr>])"
    unfolding pay_fold_Inr ex_fees [symmetric, of ex_events] ex_rows [symmetric]
    by (intro exI [of _ ex_events] conjI) (unfold ex_genuine,
        simp_all add: ex_events_def ex_submission_def in_range_def fee_ok_def ex_chain_def MAX_WORKS_def)
  moreover obtain s where "settle_raw (\<lambda>bs. take 32 (bs @ replicate 32 0)) decode_hex 4 [(''0xaa'', 1000)]
     [\<lparr>rr_user = ''0xaa'', rr_work = bytes32_to_string hex_string (Bytes32 (replicate 32 9)), rr_raw = 7\<rparr>] [] [] = Inr s"
    using ex_settled by (auto simp: is_ok_iff)
  ultimately have "run_events ex_prims demo_env (ex_chain ex_events) ex_files (\<lambda>_. Inr ()) ex_config [] = ([], Inr s)"
    by (simp add: run_events_def job_bind_def job_lift_def resolve_def epoch_logs_def)
      (simp add: ex_chain_def ex_config_def ex_prims_def job_lift_def)
  then show ?thesis
    by (simp add: ex_run_def run_unfold job_bind_def compute_settlement_def carry_out_succeeds ex_chain_def)
      (simp add: ex_config_def ex_chain_def carry_out_succeeds)
qed

lemma ex_money:
  "length (row_table ex_prims [ex_submission ''0xaa'' ex_digest]) < 2 ^ 64"
  "map_total (fee_table (ex_chain ex_events) [ex_submission ''0xaa'' ex_digest]) = 1000"
  by (simp_all add: ex_rows ex_fees map_total_def)

theorem event_mode_pays_genuine_witness:
  "\<exists>s. snd (ex_run ex_events) = Inr s \<and> escrow s = [] \<and> unat (total_credits s) + unat (sm_unallocated s) = 1000"
proof -
  from ex_run_ok obtain s where s: "snd (ex_run ex_events) = Inr s" by (auto simp: is_ok_iff)
  then have run: "run ex_prims demo_env (ex_chain ex_events) ex_files (\<lambda>_. True) (\<lambda>_. True) (\<lambda>_. Inr ()) ex_config []
      = (fst (ex_run ex_events), Inr s)" by (simp add: ex_run_def prod_eq_iff)
  have cfg: "disclosure_path ex_config = None" "cf_epoch ex_config = 4" by (simp_all add: ex_config_def)
  have "\<exists>creds. settle_raw_with_row_credibility (pm_keccak256 ex_prims) (pm_hex_decode ex_prims) (cf_epoch ex_config)
            (fee_table (ex_chain ex_events) [ex_submission ''0xaa'' ex_digest])
            (row_table ex_prims [ex_submission ''0xaa'' ex_digest]) creds [] = Inr s
       \<and> (case receipts_path ex_config of
            None \<Rightarrow> creds = replicate (length (row_table ex_prims [ex_submission ''0xaa'' ex_digest])) 1000000
          | Some path \<Rightarrow> \<exists>sidecar. bandwidth_credibility ex_prims demo_env (ex_chain ex_events) ex_files ex_config path
               (row_table ex_prims [ex_submission ''0xaa'' ex_digest]) = Inr (sidecar, creds))
       \<and> escrow s = []
       \<and> unat (total_credits s) + unat (sm_unallocated s)
           = map_total (fee_table (ex_chain ex_events) [ex_submission ''0xaa'' ex_digest])"
    by (rule event_mode_pays_genuine [OF run cfg(1), where evs = ex_events and k = "[3]"])
      (simp_all add: ex_rows ex_money cfg ex_genuine, simp_all add: ex_chain_def)
  with s show ?thesis by (auto simp: ex_money)
qed

definition ex_wide :: submission where
  "ex_wide = (ex_submission ''0xcc'' [])\<lparr>ev_weights := [2 ^ 128]\<rparr>"

theorem one_submission_blocks_witness:
  "fst (ex_run (ex_wide # ex_events)) = [] \<and> \<not> is_ok (snd (ex_run (ex_wide # ex_events)))"
  unfolding ex_run_def
  by (rule one_submission_blocks [where evs = "ex_wide # ex_events" and ev = ex_wide])
    (simp_all add: ex_chain_def ex_wide_def ex_config_def ex_submission_def same_lengths_def in_range_def)

end
