(* ===== verification/Fingerprint.thy ===== *)
theory Fingerprint
  imports Hex Complex_Main
begin

unbundle bit_operations_syntax

text \<open>
  The fingerprint value of \<open>libs/fingerprint/src/lib.rs\<close>: 32 sub-fingerprints of 32 bits, their
  bytes, text form and parser, and the Hamming similarity. A similarity is a multiple of 1/1024, so
  the \<open>f64\<close> result is exact and is a rational here. The signal analysis that computes a
  fingerprint from samples (\<open>f32\<close> arithmetic and the FFT of crate \<open>rustfft\<close>) is a parameter of its
  users; the coder of crate \<open>hex\<close> is a parameter under the interface \<open>sized_hex_codec\<close>.
\<close>

definition FRAMES :: nat where "FRAMES = 32"
definition BITS_PER_FRAME :: nat where "BITS_PER_FRAME = 32"
definition PREFIX :: string where "PREFIX = ''fp:''"
definition BYTE_LEN :: nat where "BYTE_LEN = FRAMES * 4"
definition HEX_LEN :: nat where "HEX_LEN = BYTE_LEN * 2"

datatype fingerprint = Fingerprint (sub: "u32 list")

definition fp_ok :: "fingerprint \<Rightarrow> bool" where
  "fp_ok fp \<longleftrightarrow> length (sub fp) = FRAMES"

datatype fingerprint_error = MissingPrefix | BadLength nat nat | NotHex

definition u32_to_be_bytes :: "u32 \<Rightarrow> u8 list" where
  "u32_to_be_bytes w = [ucast (drop_bit 24 w), ucast (drop_bit 16 w), ucast (drop_bit 8 w), ucast w]"

definition u32_from_be_bytes :: "u8 list \<Rightarrow> u32" where
  "u32_from_be_bytes bs =
     (push_bit 24 (ucast (bs ! 0)) OR push_bit 16 (ucast (bs ! 1)) OR push_bit 8 (ucast (bs ! 2)) OR ucast (bs ! 3))"

definition fp_to_bytes :: "fingerprint \<Rightarrow> u8 list" where
  "fp_to_bytes fp = concat (map u32_to_be_bytes (sub fp))"

definition fp_id :: "(u8 list \<Rightarrow> u8 list) \<Rightarrow> fingerprint \<Rightarrow> u8 list" where
  "fp_id keccak256 fp = keccak256 (fp_to_bytes fp)"

definition fp_to_hex :: "(u8 list \<Rightarrow> string) \<Rightarrow> fingerprint \<Rightarrow> string" where
  "fp_to_hex hex_encode fp = hex_encode (fp_to_bytes fp)"

definition fp_to_string :: "(u8 list \<Rightarrow> string) \<Rightarrow> fingerprint \<Rightarrow> string" where
  "fp_to_string hex_encode fp = PREFIX @ fp_to_hex hex_encode fp"

definition fp_parse :: "(string \<Rightarrow> u8 list option) \<Rightarrow> string \<Rightarrow> fingerprint_error + fingerprint" where
  "fp_parse hex_decode s =
     res_bind (ok_or MissingPrefix (strip_prefix PREFIX s)) (\<lambda>hex_part.
     if length hex_part \<noteq> HEX_LEN then Inl (BadLength HEX_LEN (length hex_part))
     else
       res_bind (ok_or NotHex (hex_decode hex_part)) (\<lambda>bytes.
       Inr (Fingerprint (map (\<lambda>i. u32_from_be_bytes (take 4 (drop (i * 4) bytes))) [0..<FRAMES]))))"

definition count_ones :: "u32 \<Rightarrow> u32" where
  "count_ones w = of_nat (length (List.filter (bit w) [0..<32]))"

definition differing :: "fingerprint \<Rightarrow> fingerprint \<Rightarrow> u32" where
  "differing a b = foldl (\<lambda>diff i. diff + count_ones ((sub a ! i) XOR (sub b ! i))) 0 [0..<FRAMES]"

definition compare_fp :: "fingerprint \<Rightarrow> fingerprint \<Rightarrow> rat" where
  "compare_fp a b = 1 - of_nat (unat (differing a b)) / of_nat (FRAMES * BITS_PER_FRAME)"

section \<open>The interface of a sized hex coder\<close>

locale sized_hex_codec = hex_codec +
  assumes length_encode: "length (hex_encode bs) = 2 * length bs"
    and decode_length: "hex_decode s = Some bs \<Longrightarrow> length s = 2 * length bs"

interpretation sized_hex: sized_hex_codec hex_string decode_hex
  by unfold_locales (simp_all add: decode_hex_length)

section \<open>Bytes\<close>

lemma u32_bytes_round_trip: "u32_from_be_bytes (u32_to_be_bytes w) = w"
proof (rule bit_word_eqI)
  fix n assume n: "n < LENGTH(32)"
  have "bit (u32_from_be_bytes (u32_to_be_bytes w)) n \<longleftrightarrow>
      (24 \<le> n \<and> n - 24 < 8 \<and> bit w (24 + (n - 24))) \<or> (16 \<le> n \<and> n - 16 < 8 \<and> bit w (16 + (n - 16)))
      \<or> (8 \<le> n \<and> n - 8 < 8 \<and> bit w (8 + (n - 8))) \<or> (n < 8 \<and> bit w n)"
    using n by (auto simp: u32_from_be_bytes_def u32_to_be_bytes_def bit_simps)
  also have "\<dots> \<longleftrightarrow> bit w n"
    by (cases "n < 8"; cases "n < 16"; cases "n < 24") (use n in auto)
  finally show "bit (u32_from_be_bytes (u32_to_be_bytes w)) n \<longleftrightarrow> bit w n" .
qed

lemma length_fp_bytes: "length (fp_to_bytes fp) = 4 * length (sub fp)"
  by (simp add: fp_to_bytes_def u32_to_be_bytes_def length_concat sum_list_triv comp_def)

lemma bytes_window:
  "i < length ws \<Longrightarrow> take 4 (drop (i * 4) (concat (map u32_to_be_bytes ws))) = u32_to_be_bytes (ws ! i)"
proof (induction ws arbitrary: i)
  case (Cons w ws)
  have step: "drop (4 + n) (u32_to_be_bytes w @ xs) = drop n xs" for n xs
    by (simp add: u32_to_be_bytes_def numeral_eq_Suc)
  show ?case
  proof (cases i)
    case 0
    then show ?thesis by (simp add: u32_to_be_bytes_def)
  next
    case (Suc j)
    then have "take 4 (drop (i * 4) (concat (map u32_to_be_bytes (w # ws))))
        = take 4 (drop (j * 4) (concat (map u32_to_be_bytes ws)))"
      by (simp only: list.map concat.simps mult_Suc step)
    with Cons Suc show ?thesis by simp
  qed
qed simp

lemma subs_of_bytes:
  assumes "fp_ok fp"
  shows "map (\<lambda>i. u32_from_be_bytes (take 4 (drop (i * 4) (fp_to_bytes fp)))) [0..<FRAMES] = sub fp"
  using assms
  by (intro nth_equalityI) (simp_all add: fp_ok_def fp_to_bytes_def bytes_window u32_bytes_round_trip)

context sized_hex_codec
begin

lemma parse_to_string:
  assumes "fp_ok fp"
  shows "fp_parse hex_decode (fp_to_string hex_encode fp) = Inr fp"
proof -
  have "length (hex_encode (fp_to_bytes fp)) = HEX_LEN"
    using assms by (simp add: length_encode length_fp_bytes fp_ok_def HEX_LEN_def BYTE_LEN_def)
  then show ?thesis
    using subs_of_bytes [OF assms] by (simp add: fp_parse_def fp_to_string_def fp_to_hex_def decode_encode)
qed

lemma parse_ok: "fp_parse hex_decode s = Inr fp \<Longrightarrow> fp_ok fp"
  by (auto simp: fp_parse_def res_bind_eq_Inr fp_ok_def split: if_splits)

lemma to_string_inj_on:
  "\<lbrakk>fp_ok a; fp_ok b; fp_to_string hex_encode a = fp_to_string hex_encode b\<rbrakk> \<Longrightarrow> a = b"
  using parse_to_string by (metis sum.inject(2))

end

section \<open>Similarity\<close>

lemma count_ones_unat: "unat (count_ones w) = card {n. n < 32 \<and> bit w n}"
proof -
  have "length (List.filter (bit w) [0..<32]) = card {n. n < 32 \<and> bit w n}"
    by (subst distinct_card [symmetric]) (auto intro: arg_cong [of _ _ card])
  moreover have "card {n. n < 32 \<and> bit w n} \<le> 32"
    using card_mono [of "{..<32::nat}" "{n. n < 32 \<and> bit w n}"] by auto
  ultimately show ?thesis by (simp add: count_ones_def unat_of_nat take_bit_nat_eq_self)
qed

lemma count_ones_le: "unat (count_ones w) \<le> 32"
  unfolding count_ones_unat using card_mono [of "{..<32::nat}" "{n. n < 32 \<and> bit w n}"] by auto

lemma count_ones_eq_0: "unat (count_ones w) = 0 \<longleftrightarrow> w = 0"
proof -
  have "{n. n < 32 \<and> bit w n} = {} \<longleftrightarrow> w = 0"
    by (auto simp: bit_eq_iff dest: bit_imp_le_length)
  then show ?thesis by (simp add: count_ones_unat)
qed

text \<open>No overflow: at most 1024 bits differ.\<close>

lemma differing_unat:
  "unat (differing a b) = (\<Sum>i<FRAMES. unat (count_ones ((sub a ! i) XOR (sub b ! i))))"
proof -
  have "n \<le> 32 \<Longrightarrow> unat (foldl (\<lambda>diff i. diff + count_ones ((sub a ! i) XOR (sub b ! i))) 0 [0..<n])
      = (\<Sum>i<n. unat (count_ones ((sub a ! i) XOR (sub b ! i))))
    \<and> (\<Sum>i<n. unat (count_ones ((sub a ! i) XOR (sub b ! i)))) \<le> 32 * n" for n
  proof (induction n)
    case (Suc n)
    let ?c = "count_ones ((sub a ! n) XOR (sub b ! n))"
    from Suc have IH: "unat (foldl (\<lambda>diff i. diff + count_ones ((sub a ! i) XOR (sub b ! i))) 0 [0..<n])
      = (\<Sum>i<n. unat (count_ones ((sub a ! i) XOR (sub b ! i))))"
      "(\<Sum>i<n. unat (count_ones ((sub a ! i) XOR (sub b ! i)))) \<le> 32 * n" by simp_all
    with count_ones_le [of "(sub a ! n) XOR (sub b ! n)"] Suc.prems show ?case
      by (simp add: unat_add_exact)
  qed simp
  from this [of 32] show ?thesis by (simp add: FRAMES_def differing_def)
qed

lemma differing_le: "unat (differing a b) \<le> 1024"
proof -
  have "(\<Sum>i<FRAMES. unat (count_ones ((sub a ! i) XOR (sub b ! i)))) \<le> (\<Sum>i<FRAMES. 32)"
    by (rule sum_mono) (rule count_ones_le)
  then show ?thesis by (simp add: differing_unat FRAMES_def)
qed

lemma differing_eq_0:
  assumes "fp_ok a" and "fp_ok b"
  shows "differing a b = 0 \<longleftrightarrow> a = b"
proof -
  have same: "x XOR y = 0 \<longleftrightarrow> x = y" for x y :: u32
    by (metis xor.assoc xor.left_neutral xor_self_eq)
  have "unat (differing a b) = 0 \<longleftrightarrow> (\<forall>i < FRAMES. sub a ! i = sub b ! i)"
    unfolding differing_unat by (auto simp: count_ones_eq_0 same)
  also have "\<dots> \<longleftrightarrow> a = b"
    using assms by (cases a; cases b) (auto simp: fp_ok_def list_eq_iff_nth_eq)
  finally show ?thesis by (simp add: unat_eq_0)
qed

lemma compare_fp_nat: "compare_fp a b = of_nat (1024 - unat (differing a b)) / 1024"
proof -
  have "1 - (of_nat d :: rat) / 1024 = of_nat (1024 - d) / 1024" if "d \<le> 1024" for d
    using that by (simp add: of_nat_diff diff_divide_distrib)
  moreover have "(of_nat (FRAMES * BITS_PER_FRAME) :: rat) = 1024"
    by (simp add: FRAMES_def BITS_PER_FRAME_def)
  ultimately show ?thesis using differing_le [of a b] by (simp only: compare_fp_def)
qed

lemma compare_sym: "compare_fp a b = compare_fp b a"
  by (simp add: compare_fp_def differing_def xor.commute)

lemma compare_range: "0 \<le> compare_fp a b" "compare_fp a b \<le> 1"
  using of_nat_le_iff [of "1024 - unat (differing a b)" 1024, where 'a = rat]
  by (simp_all add: compare_fp_nat divide_le_eq)

lemma compare_eq_1:
  assumes "fp_ok a" and "fp_ok b"
  shows "compare_fp a b = 1 \<longleftrightarrow> a = b"
proof -
  have "compare_fp a b = 1 \<longleftrightarrow> (of_nat (1024 - unat (differing a b)) :: rat) = of_nat 1024"
    by (simp only: compare_fp_nat) simp
  also have "\<dots> \<longleftrightarrow> 1024 - unat (differing a b) = 1024" by (rule of_nat_eq_iff)
  also have "\<dots> \<longleftrightarrow> unat (differing a b) = 0" using differing_le [of a b] by linarith
  also have "\<dots> \<longleftrightarrow> a = b" using differing_eq_0 [OF assms] by (simp add: unat_eq_0)
  finally show ?thesis .
qed

section \<open>Properties\<close>

text \<open>A fingerprint survives its text form: printing and parsing gives it back, every text that
  parses gives 32 sub-fingerprints, and distinct fingerprints have distinct texts.\<close>
theorem fingerprint_round_trip:
  assumes "sized_hex_codec hex_encode hex_decode" and "fp_ok a" and "fp_ok b"
  shows "fp_parse hex_decode (fp_to_string hex_encode a) = Inr a
       \<and> (fp_to_string hex_encode a = fp_to_string hex_encode b \<longleftrightarrow> a = b)
       \<and> (fp_parse hex_decode s = Inr fp \<longrightarrow> fp_ok fp)"
  using sized_hex_codec.parse_to_string [OF assms(1,2)] sized_hex_codec.to_string_inj_on [OF assms]
    sized_hex_codec.parse_ok [OF assms(1)] by blast

theorem fingerprint_round_trip_witness:
  "fp_parse decode_hex (fp_to_string hex_string (Fingerprint (replicate 32 0xDEADBEEF)))
     = Inr (Fingerprint (replicate 32 0xDEADBEEF))"
  using fingerprint_round_trip [OF sized_hex.sized_hex_codec_axioms,
      of "Fingerprint (replicate 32 0xDEADBEEF)" "Fingerprint (replicate 32 0xDEADBEEF)"]
  by (simp add: fp_ok_def FRAMES_def)

text \<open>The similarity is a symmetric number between 0 and 1 that is 1 exactly for equal
  fingerprints: the share of the 1024 bits that agree, with no overflow of the bit counter.\<close>
theorem similarity_measures_bits:
  assumes "fp_ok a" and "fp_ok b"
  shows "compare_fp a b
      = of_nat (1024 - (\<Sum>i<32. card {n. n < 32 \<and> bit ((sub a ! i) XOR (sub b ! i)) n})) / 1024
    \<and> 0 \<le> compare_fp a b \<and> compare_fp a b \<le> 1 \<and> compare_fp a b = compare_fp b a
    \<and> (compare_fp a b = 1 \<longleftrightarrow> a = b)"
proof -
  have "unat (differing a b) = (\<Sum>i<32. card {n. n < 32 \<and> bit ((sub a ! i) XOR (sub b ! i)) n})"
    by (simp add: differing_unat count_ones_unat FRAMES_def)
  with compare_fp_nat [of a b] have "compare_fp a b
      = of_nat (1024 - (\<Sum>i<32. card {n. n < 32 \<and> bit ((sub a ! i) XOR (sub b ! i)) n})) / 1024"
    by simp
  with compare_range compare_sym compare_eq_1 [OF assms] show ?thesis by blast
qed

theorem similarity_measures_bits_witness:
  "compare_fp (Fingerprint (replicate 32 0)) (Fingerprint (1 # replicate 31 0)) < 1"
proof -
  let ?a = "Fingerprint (replicate 32 0)" and ?b = "Fingerprint (1 # replicate 31 0)"
  have "fp_ok ?a" "fp_ok ?b" by (simp_all add: fp_ok_def FRAMES_def)
  from similarity_measures_bits [OF this] have "compare_fp ?a ?b \<le> 1" "compare_fp ?a ?b = 1 \<longleftrightarrow> ?a = ?b"
    by blast+
  moreover have "?a \<noteq> ?b" by (simp add: numeral_eq_Suc)
  ultimately show ?thesis by (simp add: order.strict_iff_order)
qed

end
