(* ===== verification/HubIndex.thy ===== *)
theory HubIndex
  imports Bytes32 Fingerprint
begin

text \<open>
  \<open>manifest.rs\<close> and \<open>index.rs\<close> of \<open>services/discovery-hub/src\<close>: the signed manifest of a work, the
  consent digest of a payee, and the in-memory index with its two secondary maps, the exact and the
  nearest-fingerprint resolution, the ranked search with its pages and the trending list. Canonical
  JSON (crate \<open>serde_jcs\<close>), signature parsing and recovery (crate \<open>alloy\<close>) and the JSON snapshot
  coder (crate \<open>serde_json\<close>) are parameters. Search is modelled on ASCII text, where the standard
  library's \<open>to_lowercase\<close> and \<open>is_alphanumeric\<close> are the definitions below. A \<open>usize\<close> is a \<open>u64\<close>,
  and a product that does not fit wraps, as in a release build.
\<close>

section \<open>Manifests\<close>

datatype work_type = Audio | Video | Text

type_synonym address = "u8 list"

record manifest =
  wm_work_id :: bytes32
  wm_content_id :: bytes32
  wm_fingerprint :: string
  wm_title :: string
  wm_description :: string
  wm_tags :: "string list"
  wm_work_type :: work_type
  wm_price_per_min :: u64
  wm_bandwidth_rate :: u64
  wm_region :: bytes32
  wm_creator_id :: address
  wm_created_at :: u64
  wm_payees :: "(address \<times> u64) list"

datatype manifest_error = Canonical string | BadSignature | Recover string

record 'sig manifest_env =
  mf_canonical_json :: "manifest \<Rightarrow> string + u8 list"
  mf_parse_signature :: "u8 list \<Rightarrow> 'sig option"
  mf_recover_from_msg :: "'sig \<Rightarrow> u8 list \<Rightarrow> string + address"

definition u64_to_be_bytes :: "u64 \<Rightarrow> u8 list" where
  "u64_to_be_bytes v = map (\<lambda>i. of_nat (unat v div 256 ^ (7 - i) mod 256)) [0..<8]"

text \<open>Four 32-byte words of the contract ABI: both ids, the left-padded address and the share.\<close>

definition consent_digest :: "(u8 list \<Rightarrow> u8 list) \<Rightarrow> bytes32 \<Rightarrow> bytes32 \<Rightarrow> address \<Rightarrow> u64 \<Rightarrow> u8 list" where
  "consent_digest keccak256 work_id content_id payee share =
     keccak256 (as_bytes work_id @ as_bytes content_id @ (replicate 12 0 @ payee)
       @ (replicate 24 0 @ u64_to_be_bytes share))"

definition manifest_canonical_bytes :: "'sig manifest_env \<Rightarrow> manifest \<Rightarrow> manifest_error + u8 list" where
  "manifest_canonical_bytes env m = map_err Canonical (mf_canonical_json env m)"

definition manifest_recover_signer ::
    "'sig manifest_env \<Rightarrow> manifest \<Rightarrow> u8 list \<Rightarrow> manifest_error + address" where
  "manifest_recover_signer env m signature =
     res_bind (ok_or BadSignature (mf_parse_signature env signature)) (\<lambda>sig.
     res_bind (manifest_canonical_bytes env m) (\<lambda>msg.
     map_err Recover (mf_recover_from_msg env sig msg)))"

section \<open>The index\<close>

record summary =
  su_work_id :: bytes32
  su_fingerprint :: string
  su_title :: string
  su_work_type :: work_type
  su_tags :: "string list"
  su_price_per_min :: u64

record resolved =
  rs_work_id :: bytes32
  rs_price_per_min :: u64
  rs_region :: bytes32
  rs_work_type :: work_type

datatype index_error =
  DuplicateFingerprint string | DuplicateContentId bytes32 | BadFingerprint fingerprint_error

record hub_index =
  ix_works :: "(bytes32, manifest) btree_map"
  ix_by_fingerprint :: "(string, bytes32) btree_map"
  ix_by_content :: "(bytes32, bytes32) btree_map"

definition index_new :: hub_index where
  "index_new = \<lparr>ix_works = [], ix_by_fingerprint = [], ix_by_content = []\<rparr>"

definition index_len :: "hub_index \<Rightarrow> nat" where
  "index_len ix = length (ix_works ix)"

definition index_is_empty :: "hub_index \<Rightarrow> bool" where
  "index_is_empty ix \<longleftrightarrow> ix_works ix = []"

definition index_upsert ::
    "(string \<Rightarrow> u8 list option) \<Rightarrow> manifest \<Rightarrow> hub_index \<Rightarrow> index_error + hub_index" where
  "index_upsert hex_decode m ix =
     res_bind (map_err BadFingerprint (fp_parse hex_decode (wm_fingerprint m))) (\<lambda>_.
     if (case bt_get (ix_by_fingerprint ix) (wm_fingerprint m) of
           None \<Rightarrow> False | Some existing \<Rightarrow> existing \<noteq> wm_work_id m)
     then Inl (DuplicateFingerprint (wm_fingerprint m))
     else if (case bt_get (ix_by_content ix) (wm_content_id m) of
                None \<Rightarrow> False | Some existing \<Rightarrow> existing \<noteq> wm_work_id m)
     then Inl (DuplicateContentId (wm_content_id m))
     else
       let (by_fp, by_content) =
         (case bt_get (ix_works ix) (wm_work_id m) of
            None \<Rightarrow> (ix_by_fingerprint ix, ix_by_content ix)
          | Some prev \<Rightarrow>
              (if wm_fingerprint prev \<noteq> wm_fingerprint m
               then bt_remove (wm_fingerprint prev) (ix_by_fingerprint ix) else ix_by_fingerprint ix,
               if wm_content_id prev \<noteq> wm_content_id m
               then bt_remove (wm_content_id prev) (ix_by_content ix) else ix_by_content ix))
       in Inr \<lparr>ix_works = bt_insert (wm_work_id m) m (ix_works ix),
               ix_by_fingerprint = bt_insert (wm_fingerprint m) (wm_work_id m) by_fp,
               ix_by_content = bt_insert (wm_content_id m) (wm_work_id m) by_content\<rparr>)"

definition resolved_of :: "manifest \<Rightarrow> resolved" where
  "resolved_of m = \<lparr>rs_work_id = wm_work_id m, rs_price_per_min = wm_price_per_min m,
     rs_region = wm_region m, rs_work_type = wm_work_type m\<rparr>"

definition index_resolve :: "hub_index \<Rightarrow> string \<Rightarrow> resolved option" where
  "index_resolve ix fp =
     Option.bind (bt_get (ix_by_fingerprint ix) fp) (\<lambda>work_id.
     map_option resolved_of (bt_get (ix_works ix) work_id))"

definition index_resolve_content :: "hub_index \<Rightarrow> bytes32 \<Rightarrow> resolved option" where
  "index_resolve_content ix content_id =
     Option.bind (bt_get (ix_by_content ix) content_id) (\<lambda>work_id.
     map_option resolved_of (bt_get (ix_works ix) work_id))"

definition summary_of :: "manifest \<Rightarrow> summary" where
  "summary_of m = \<lparr>su_work_id = wm_work_id m, su_fingerprint = wm_fingerprint m, su_title = wm_title m,
     su_work_type = wm_work_type m, su_tags = wm_tags m, su_price_per_min = wm_price_per_min m\<rparr>"

text \<open>\<open>Iterator::max_by\<close>: the last of the greatest elements.\<close>

definition max_by_last :: "('a \<Rightarrow> 'b::linorder) \<Rightarrow> 'a list \<Rightarrow> 'a option" where
  "max_by_last key xs =
     foldl (\<lambda>acc x. case acc of None \<Rightarrow> Some x | Some y \<Rightarrow> if key x < key y then Some y else Some x) None xs"

definition nearest_fingerprint ::
    "(string \<Rightarrow> u8 list option) \<Rightarrow> hub_index \<Rightarrow> fingerprint \<Rightarrow> rat \<Rightarrow> (summary \<times> rat) option" where
  "nearest_fingerprint hex_decode ix fp threshold =
     max_by_last snd
       (List.map_filter (\<lambda>m.
          case fp_parse hex_decode (wm_fingerprint m) of
            Inl _ \<Rightarrow> None
          | Inr candidate \<Rightarrow>
              let score = compare_fp fp candidate
              in if score > threshold then Some (summary_of m, score) else None)
        (map snd (ix_works ix)))"

definition index_manifest :: "hub_index \<Rightarrow> bytes32 \<Rightarrow> manifest option" where
  "index_manifest ix work_id = bt_get (ix_works ix) work_id"

definition by_creator :: "hub_index \<Rightarrow> address \<Rightarrow> summary list" where
  "by_creator ix creator =
     map summary_of (List.filter (\<lambda>m. wm_creator_id m = creator) (map snd (ix_works ix)))"

section \<open>Search and trending\<close>

definition is_ascii_alphanumeric :: "char \<Rightarrow> bool" where
  "is_ascii_alphanumeric c \<longleftrightarrow>
     (let n = (of_char c :: nat) in 48 \<le> n \<and> n \<le> 57 \<or> 65 \<le> n \<and> n \<le> 90 \<or> 97 \<le> n \<and> n \<le> 122)"

definition tokenize :: "string \<Rightarrow> string list" where
  "tokenize s =
     List.filter (\<lambda>t. t \<noteq> []) (split_on (\<lambda>c. \<not> is_ascii_alphanumeric c) (to_ascii_lowercase s))"

definition relevance :: "manifest \<Rightarrow> string list \<Rightarrow> u32" where
  "relevance m tokens =
     (let title = tokenize (wm_title m); desc = tokenize (wm_description m);
          tags = concat (map tokenize (wm_tags m))
      in foldl (\<lambda>score tok.
           let s1 = (if tok \<in> set title then score + 3 else score);
               s2 = (if tok \<in> set tags then s1 + 2 else s1)
           in if tok \<in> set desc then s2 + 1 else s2) 0 tokens)"

definition of_type :: "work_type option \<Rightarrow> manifest \<Rightarrow> bool" where
  "of_type t m = (case t of None \<Rightarrow> True | Some wt \<Rightarrow> wm_work_type m = wt)"

definition rank_before :: "u32 \<times> manifest \<Rightarrow> u32 \<times> manifest \<Rightarrow> bool" where
  "rank_before a b \<longleftrightarrow>
     fst b < fst a \<or> (fst a = fst b \<and> wm_work_id (snd a) \<le> wm_work_id (snd b))"

definition scored_works :: "hub_index \<Rightarrow> string list \<Rightarrow> work_type option \<Rightarrow> (u32 \<times> manifest) list" where
  "scored_works ix tokens wt =
     List.map_filter (\<lambda>m. let score = relevance m tokens in if score > 0 then Some (score, m) else None)
       (List.filter (of_type wt) (map snd (ix_works ix)))"

definition index_search ::
    "hub_index \<Rightarrow> string \<Rightarrow> work_type option \<Rightarrow> u64 \<Rightarrow> u64 \<Rightarrow> summary list \<times> nat" where
  "index_search ix q wt page page_size =
     (let tokens = tokenize q;
          scored = sort_by rank_before (scored_works ix tokens wt);
          start = saturating_sub page 1 * page_size
      in (map (\<lambda>sm. summary_of (snd sm)) (take (unat page_size) (drop (unat start) scored)), length scored))"

definition newer_first :: "manifest \<Rightarrow> manifest \<Rightarrow> bool" where
  "newer_first a b \<longleftrightarrow>
     wm_created_at b < wm_created_at a \<or> (wm_created_at a = wm_created_at b \<and> wm_work_id a \<le> wm_work_id b)"

definition index_trending :: "hub_index \<Rightarrow> work_type option \<Rightarrow> u64 \<Rightarrow> u64 \<Rightarrow> summary list" where
  "index_trending ix wt now_secs page_size =
     map summary_of (take (unat page_size)
       (sort_by newer_first (List.filter (of_type wt) (map snd (ix_works ix)))))"

section \<open>Snapshots\<close>

definition load_snapshot :: "('f \<Rightarrow> string + hub_index) \<Rightarrow> 'f file_read \<Rightarrow> string + hub_index" where
  "load_snapshot from_json r =
     (case r of Content raw \<Rightarrow> from_json raw | NotFound \<Rightarrow> Inr index_new | Unreadable e \<Rightarrow> Inl e)"

text \<open>
  \<open>std::fs::write\<close> opens the file, which truncates it, and then writes. So a write succeeds, or fails with
  the file as it was because a directory could not be created or the file not opened, or fails later and
  leaves whatever a read then finds.
\<close>

datatype 'f write_outcome = Written | NotOpened string | Torn "'f file_read" string

text \<open>The result of a save and the file after it.\<close>

definition save_snapshot ::
    "(hub_index \<Rightarrow> string + 'f) \<Rightarrow> ('f \<Rightarrow> 'f write_outcome) \<Rightarrow> hub_index \<Rightarrow> 'f file_read
     \<Rightarrow> (string + unit) \<times> 'f file_read" where
  "save_snapshot to_json write_to ix old =
     (case to_json ix of
        Inl e \<Rightarrow> (Inl e, old)
      | Inr json \<Rightarrow>
          (case write_to json of
             Written \<Rightarrow> (Inr (), Content json)
           | NotOpened e \<Rightarrow> (Inl e, old)
           | Torn left e \<Rightarrow> (Inl e, left)))"

text \<open>A torn file does not load: what is left is not UTF-8, or it is a proper prefix of the JSON text of an
  object, which does not parse.\<close>

definition torn_unloadable :: "('f \<Rightarrow> string + hub_index) \<Rightarrow> ('f \<Rightarrow> 'f write_outcome) \<Rightarrow> bool" where
  "torn_unloadable from_json write_to \<longleftrightarrow>
     (\<forall>json left e. write_to json = Torn left e \<longrightarrow> \<not> is_ok (load_snapshot from_json left))"

lemma torn_unloadable_total [simp]:
  "torn_unloadable from_json (\<lambda>_. Written)" "torn_unloadable from_json (\<lambda>_. NotOpened e)"
  by (simp_all add: torn_unloadable_def)

section \<open>The index invariant\<close>

text \<open>The maps are ordered, the secondary maps are exactly the inverse of the works, every work is under
  its own id and every fingerprint parses.\<close>

definition index_ok :: "(string \<Rightarrow> u8 list option) \<Rightarrow> hub_index \<Rightarrow> bool" where
  "index_ok hex_decode ix \<longleftrightarrow>
     bt_wf (ix_works ix) \<and> bt_wf (ix_by_fingerprint ix) \<and> bt_wf (ix_by_content ix)
   \<and> (\<forall>w m. bt_get (ix_works ix) w = Some m \<longrightarrow>
        wm_work_id m = w \<and> is_ok (fp_parse hex_decode (wm_fingerprint m)))
   \<and> (\<forall>f w. bt_get (ix_by_fingerprint ix) f = Some w \<longleftrightarrow>
        (\<exists>m. bt_get (ix_works ix) w = Some m \<and> wm_fingerprint m = f))
   \<and> (\<forall>c w. bt_get (ix_by_content ix) c = Some w \<longleftrightarrow>
        (\<exists>m. bt_get (ix_works ix) w = Some m \<and> wm_content_id m = c))"

lemma index_okD:
  assumes "index_ok hex_decode ix"
  shows "bt_wf (ix_works ix)" "bt_wf (ix_by_fingerprint ix)" "bt_wf (ix_by_content ix)"
    and "bt_get (ix_works ix) w = Some m \<Longrightarrow> wm_work_id m = w"
    and "bt_get (ix_works ix) w = Some m \<Longrightarrow> is_ok (fp_parse hex_decode (wm_fingerprint m))"
    and "bt_get (ix_by_fingerprint ix) f = Some w \<longleftrightarrow>
           (\<exists>m. bt_get (ix_works ix) w = Some m \<and> wm_fingerprint m = f)"
    and "bt_get (ix_by_content ix) c = Some w \<longleftrightarrow>
           (\<exists>m. bt_get (ix_works ix) w = Some m \<and> wm_content_id m = c)"
  using assms unfolding index_ok_def by blast+

lemma index_new_ok: "index_ok hex_decode index_new"
  by (simp add: index_ok_def index_new_def)

text \<open>A secondary map after an update: the stale entry goes, the new one comes.\<close>

lemma secondary_update:
  fixes get :: "'k \<Rightarrow> 'v option"
  assumes old: "\<And>f w. inverse_map f = Some w \<longleftrightarrow> (\<exists>m. get w = Some m \<and> key m = f)"
    and free: "\<And>w. inverse_map (key m) = Some w \<Longrightarrow> w = wid"
    and updated: "\<And>f. updated f = (if f = key m then Some wid
        else case get wid of Some prev \<Rightarrow> (if key prev \<noteq> key m \<and> f = key prev then None else inverse_map f) | None \<Rightarrow> inverse_map f)"
  shows "updated f = Some w \<longleftrightarrow> (\<exists>m'. (get(wid \<mapsto> m)) w = Some m' \<and> key m' = f)"
proof (cases "f = key m")
  case True
  then show ?thesis using old free updated by (auto split: if_splits)
next
  case False
  show ?thesis
  proof (cases "get wid")
    case None
    then show ?thesis using False old updated [of f] by auto
  next
    case (Some prev)
    then show ?thesis using False old [of f w] old [of f wid] updated [of f] by (auto split: if_splits)
  qed
qed

lemma index_upsert_Inr:
  "index_upsert hex_decode m ix = Inr ix' \<longleftrightarrow>
     is_ok (fp_parse hex_decode (wm_fingerprint m))
   \<and> (\<forall>w. bt_get (ix_by_fingerprint ix) (wm_fingerprint m) = Some w \<longrightarrow> w = wm_work_id m)
   \<and> (\<forall>w. bt_get (ix_by_content ix) (wm_content_id m) = Some w \<longrightarrow> w = wm_work_id m)
   \<and> ix' = \<lparr>ix_works = bt_insert (wm_work_id m) m (ix_works ix),
       ix_by_fingerprint = bt_insert (wm_fingerprint m) (wm_work_id m)
         (case bt_get (ix_works ix) (wm_work_id m) of None \<Rightarrow> ix_by_fingerprint ix
          | Some prev \<Rightarrow> if wm_fingerprint prev \<noteq> wm_fingerprint m
              then bt_remove (wm_fingerprint prev) (ix_by_fingerprint ix) else ix_by_fingerprint ix),
       ix_by_content = bt_insert (wm_content_id m) (wm_work_id m)
         (case bt_get (ix_works ix) (wm_work_id m) of None \<Rightarrow> ix_by_content ix
          | Some prev \<Rightarrow> if wm_content_id prev \<noteq> wm_content_id m
              then bt_remove (wm_content_id prev) (ix_by_content ix) else ix_by_content ix)\<rparr>"
  by (auto simp: index_upsert_def res_bind_eq_Inr map_err_eq_Inr is_ok_iff split: option.splits if_splits)

lemma upsert_preserves:
  assumes ok: "index_ok hex_decode ix" and up: "index_upsert hex_decode m ix = Inr ix'"
  shows "index_ok hex_decode ix'"
    and "\<And>w. bt_get (ix_works ix') w = (if w = wm_work_id m then Some m else bt_get (ix_works ix) w)"
proof -
  note d = index_okD [OF ok] and u = up [unfolded index_upsert_Inr]
  let ?W = "bt_get (ix_works ix)"
  have works: "bt_get (ix_works ix') = ?W(wm_work_id m \<mapsto> m)"
    using u by (auto simp: bt_get_insert fun_eq_iff)
  have wf: "bt_wf (ix_works ix')" "bt_wf (ix_by_fingerprint ix')" "bt_wf (ix_by_content ix')"
    using u d(1-3) by (auto simp: bt_wf_insert bt_wf_remove split: option.splits)
  have fp: "bt_get (ix_by_fingerprint ix') f = Some w \<longleftrightarrow>
      (\<exists>m'. (?W(wm_work_id m \<mapsto> m)) w = Some m' \<and> wm_fingerprint m' = f)" for f w
  proof (rule secondary_update [where inverse_map = "bt_get (ix_by_fingerprint ix)"])
    show "bt_get (ix_by_fingerprint ix') f = (if f = wm_fingerprint m then Some (wm_work_id m)
        else case ?W (wm_work_id m) of
          Some prev \<Rightarrow> (if wm_fingerprint prev \<noteq> wm_fingerprint m \<and> f = wm_fingerprint prev then None
                       else bt_get (ix_by_fingerprint ix) f)
        | None \<Rightarrow> bt_get (ix_by_fingerprint ix) f)" for f
      using u d(2) by (auto simp: bt_get_insert bt_get_remove split: option.splits)
  qed (use d(6) u in auto)
  have cid: "bt_get (ix_by_content ix') c = Some w \<longleftrightarrow>
      (\<exists>m'. (?W(wm_work_id m \<mapsto> m)) w = Some m' \<and> wm_content_id m' = c)" for c w
  proof (rule secondary_update [where inverse_map = "bt_get (ix_by_content ix)"])
    show "bt_get (ix_by_content ix') c = (if c = wm_content_id m then Some (wm_work_id m)
        else case ?W (wm_work_id m) of
          Some prev \<Rightarrow> (if wm_content_id prev \<noteq> wm_content_id m \<and> c = wm_content_id prev then None
                       else bt_get (ix_by_content ix) c)
        | None \<Rightarrow> bt_get (ix_by_content ix) c)" for c
      using u d(3) by (auto simp: bt_get_insert bt_get_remove split: option.splits)
  qed (use d(7) u in auto)
  show "index_ok hex_decode ix'"
    unfolding index_ok_def works fp cid using wf d(4,5) u by auto
  show "bt_get (ix_works ix') w = (if w = wm_work_id m then Some m else ?W w)" for w
    by (simp add: works)
qed

text \<open>Every index built by upserts, whether they succeed or are refused.\<close>

definition index_of :: "(string \<Rightarrow> u8 list option) \<Rightarrow> manifest list \<Rightarrow> hub_index" where
  "index_of hex_decode ms =
     foldl (\<lambda>ix m. case index_upsert hex_decode m ix of Inl _ \<Rightarrow> ix | Inr ix' \<Rightarrow> ix') index_new ms"

lemma index_of_ok: "index_ok hex_decode (index_of hex_decode ms)"
  by (induction ms rule: rev_induct)
    (auto simp: index_of_def index_new_ok split: sum.splits intro: upsert_preserves(1))

lemma resolve_iff:
  assumes "index_ok hex_decode ix"
  shows "index_resolve ix f = Some r \<longleftrightarrow>
      (\<exists>w m. bt_get (ix_works ix) w = Some m \<and> wm_fingerprint m = f \<and> r = resolved_of m)"
    and "index_resolve_content ix c = Some r \<longleftrightarrow>
      (\<exists>w m. bt_get (ix_works ix) w = Some m \<and> wm_content_id m = c \<and> r = resolved_of m)"
  using index_okD(6,7) [OF assms]
  by (simp_all add: index_resolve_def index_resolve_content_def bind_eq_Some_conv) (metis option.inject)+

lemma index_unique:
  assumes "index_ok hex_decode ix" and "bt_get (ix_works ix) w = Some m" and "bt_get (ix_works ix) w' = Some m'"
  shows "wm_fingerprint m = wm_fingerprint m' \<Longrightarrow> w = w'" and "wm_content_id m = wm_content_id m' \<Longrightarrow> w = w'"
  using index_okD(6,7) [OF assms(1)] assms(2,3) by (metis option.inject)+

text \<open>C19: the index invariant. Whatever manifests have been offered, accepted or refused, the fingerprint
  and content maps are exactly the inverses of the work map, so a lookup by fingerprint or content id
  answers the fields of the one work that carries it, two works never share either, and an update
  that changes them leaves no stale entry.\<close>
theorem index_resolution_exact:
  "let ix = index_of hex_decode ms
   in (index_resolve ix f = Some r \<longleftrightarrow>
            (\<exists>w m. index_manifest ix w = Some m \<and> wm_fingerprint m = f \<and> r = resolved_of m))
       \<and> (index_resolve_content ix c = Some r \<longleftrightarrow>
            (\<exists>w m. index_manifest ix w = Some m \<and> wm_content_id m = c \<and> r = resolved_of m))
       \<and> inj_on wm_fingerprint (snd ` set (ix_works ix)) \<and> inj_on wm_content_id (snd ` set (ix_works ix))"
proof -
  let ?ix = "index_of hex_decode ms"
  have ok: "index_ok hex_decode ?ix" by (rule index_of_ok)
  note d = index_okD [OF ok]
  have "m = m'" if "(w, m) \<in> set (ix_works ?ix)" "(w', m') \<in> set (ix_works ?ix)"
      "wm_fingerprint m = wm_fingerprint m' \<or> wm_content_id m = wm_content_id m'" for w w' m m'
    using that index_unique [OF ok] d(1) by (metis bt_entries_get option.inject)
  then have "inj_on wm_fingerprint (snd ` set (ix_works ?ix))" "inj_on wm_content_id (snd ` set (ix_works ?ix))"
    by (auto simp: inj_on_def)
  with resolve_iff [OF ok] show ?thesis by (simp add: index_manifest_def)
qed

text \<open>An update is accepted exactly when the fingerprint parses and neither it nor the content id
  belongs to another work; the error names which check failed, in the code's order, and an accepted
  update changes that work only.\<close>
theorem upsert_outcome:
  "let ix = index_of hex_decode ms in case index_upsert hex_decode m ix of
      Inr ix' \<Rightarrow> index_ok hex_decode ix'
        \<and> (\<forall>w. index_manifest ix' w = (if w = wm_work_id m then Some m else index_manifest ix w))
    | Inl (BadFingerprint e) \<Rightarrow> fp_parse hex_decode (wm_fingerprint m) = Inl e
    | Inl (DuplicateFingerprint f) \<Rightarrow> f = wm_fingerprint m
        \<and> (\<exists>w m'. index_manifest ix w = Some m' \<and> w \<noteq> wm_work_id m \<and> wm_fingerprint m' = f)
    | Inl (DuplicateContentId c) \<Rightarrow> c = wm_content_id m
        \<and> (\<exists>w m'. index_manifest ix w = Some m' \<and> w \<noteq> wm_work_id m \<and> wm_content_id m' = c)"
proof (cases "index_upsert hex_decode m (index_of hex_decode ms)")
  case (Inr ix')
  with upsert_preserves [OF index_of_ok Inr] show ?thesis by (simp add: index_manifest_def)
next
  case (Inl e)
  note d = index_okD(6,7) [OF index_of_ok [of hex_decode ms], THEN iffD1]
  from Inl have "case e of BadFingerprint e' \<Rightarrow> fp_parse hex_decode (wm_fingerprint m) = Inl e'
    | DuplicateFingerprint f \<Rightarrow> f = wm_fingerprint m
        \<and> (\<exists>w. bt_get (ix_by_fingerprint (index_of hex_decode ms)) f = Some w \<and> w \<noteq> wm_work_id m)
    | DuplicateContentId c \<Rightarrow> c = wm_content_id m
        \<and> (\<exists>w. bt_get (ix_by_content (index_of hex_decode ms)) c = Some w \<and> w \<noteq> wm_work_id m)"
    by (cases "fp_parse hex_decode (wm_fingerprint m)")
      (auto simp: index_upsert_def split: option.splits if_splits)
  with Inl d show ?thesis
    by (cases e) (simp_all add: index_manifest_def, blast+)
qed

section \<open>Ranking\<close>

lemma rank_total: "rank_before a b \<or> rank_before b a"
  by (auto simp: rank_before_def)

lemma rank_trans: "rank_before a b \<Longrightarrow> rank_before b c \<Longrightarrow> rank_before a c"
  by (auto simp: rank_before_def)

lemma newer_total: "newer_first a b \<or> newer_first b a"
  by (auto simp: newer_first_def)

lemma newer_trans: "newer_first a b \<Longrightarrow> newer_first b c \<Longrightarrow> newer_first a c"
  by (auto simp: newer_first_def)

definition ranked :: "hub_index \<Rightarrow> string \<Rightarrow> work_type option \<Rightarrow> (u32 \<times> manifest) list" where
  "ranked ix q wt = sort_by rank_before (scored_works ix (tokenize q) wt)"

lemma set_map_filter: "set (List.map_filter f xs) = {y. \<exists>x \<in> set xs. f x = Some y}"
  by (induction xs) (auto split: option.splits)

lemma set_ranked:
  assumes "index_ok hex_decode ix"
  shows "set (ranked ix q wt) =
     {(relevance m (tokenize q), m) | m w. index_manifest ix w = Some m \<and> of_type wt m \<and> 0 < relevance m (tokenize q)}"
proof -
  have works: "m \<in> snd ` set (ix_works ix) \<longleftrightarrow> (\<exists>w. index_manifest ix w = Some m)" for m
    using index_okD(1) [OF assms] by (force simp: index_manifest_def bt_entries_get [symmetric])
  show ?thesis
    by (auto simp: ranked_def scored_works_def set_map_filter Let_def works split: if_splits)
qed

lemma distinct_map_filter:
  assumes "distinct xs" and "\<And>x y z. f x = Some z \<Longrightarrow> f y = Some z \<Longrightarrow> x = y"
  shows "distinct (List.map_filter f xs)"
  using assms by (induction xs) (auto simp: set_map_filter split: option.splits)

lemma distinct_works:
  assumes "index_ok hex_decode ix"
  shows "distinct (map snd (ix_works ix))"
proof -
  have key: "wm_work_id (snd e) = fst e" if "e \<in> set (ix_works ix)" for e
  proof -
    have "bt_get (ix_works ix) (fst e) = Some (snd e)"
      using that bt_entries_get [OF index_okD(1) [OF assms], of "fst e" "snd e"] by simp
    then show ?thesis by (rule index_okD(4) [OF assms])
  qed
  have "map wm_work_id (map snd (ix_works ix)) = map fst (ix_works ix)"
    using key by (simp add: comp_def)
  moreover have "distinct (map fst (ix_works ix))"
    using bt.distinct_keys [OF index_okD(1) [OF assms]] .
  ultimately show ?thesis by (metis distinct_map)
qed

lemma distinct_ranked:
  assumes "index_ok hex_decode ix"
  shows "distinct (ranked ix q wt)"
  unfolding ranked_def scored_works_def distinct_sort_by
proof (rule distinct_map_filter)
  show "distinct (List.filter (of_type wt) (map snd (ix_works ix)))"
    using distinct_works [OF assms] by (rule distinct_filter)
qed (auto simp: Let_def split: if_splits)

lemma search_page:
  "index_search ix q wt page psize =
     (map (\<lambda>sm. summary_of (snd sm))
        (take (unat psize) (drop (unat (saturating_sub page 1 * psize)) (ranked ix q wt))),
      length (ranked ix q wt))"
  by (simp add: index_search_def ranked_def Let_def)

lemma concat_pages: "concat (map (\<lambda>k. take s (drop (k * s) xs)) [0..<n]) = take (n * s) xs"
proof (induction n)
  case (Suc n)
  have "take (n * s) xs @ take s (drop (n * s) xs) = take (n * s + s) xs" by (simp add: take_add)
  with Suc show ?case by (simp add: add.commute)
qed simp

text \<open>Search answers exactly the works of the wanted type with a positive score, each once, by
  descending score and then by work id; the reported total counts them; and the pages 1 to n, joined,
  are the first n times page-size of that ranking, so paging neither skips nor repeats a work.\<close>
theorem search_pages_ranking:
  assumes "index_ok hex_decode ix" and "n * unat psize < 2 ^ 64" and "0 < n" and "n < 2 ^ 64"
  shows "sorted_wrt rank_before (ranked ix q wt) \<and> distinct (ranked ix q wt)
    \<and> set (ranked ix q wt) =
        {(relevance m (tokenize q), m) | m w. index_manifest ix w = Some m \<and> of_type wt m \<and> 0 < relevance m (tokenize q)}
    \<and> snd (index_search ix q wt page psize) = length (ranked ix q wt)
    \<and> concat (map (\<lambda>k. fst (index_search ix q wt (of_nat (k + 1)) psize)) [0..<n])
        = map (\<lambda>sm. summary_of (snd sm)) (take (n * unat psize) (ranked ix q wt))"
proof -
  have page: "unat (saturating_sub (of_nat (k + 1)) 1 * psize) = k * unat psize" if "k < n" for k
  proof -
    have "k + 1 < 2 ^ 64" using that assms(4) by simp
    moreover have "unat (of_nat j :: u64) = j" if "j < 2 ^ 64" for j
      using that by (simp add: unat_of_nat take_bit_nat_eq_self)
    ultimately have k1: "unat (of_nat (k + 1) :: u64) = k + 1" by blast
    have sub: "unat (saturating_sub (of_nat (k + 1) :: u64) 1) = k"
      unfolding unat_saturating_sub k1 by simp
    have "k * unat psize \<le> n * unat psize" using that by (intro mult_right_mono) simp_all
    from le_less_trans [OF this assms(2)] have "unat (saturating_sub (of_nat (k + 1) :: u64) 1) * unat psize < 2 ^ LENGTH(64)"
      unfolding sub by simp
    then show ?thesis by (simp only: unat_mult_exact sub)
  qed
  have "concat (map (\<lambda>k. fst (index_search ix q wt (of_nat (k + 1)) psize)) [0..<n])
      = concat (map (\<lambda>k. map (\<lambda>sm. summary_of (snd sm)) (take (unat psize) (drop (k * unat psize) (ranked ix q wt)))) [0..<n])"
    using page by (intro arg_cong [of _ _ concat] map_cong) (simp_all only: search_page fst_conv set_upt atLeastLessThan_iff)
  also have "\<dots> = map (\<lambda>sm. summary_of (snd sm)) (concat (map (\<lambda>k. take (unat psize) (drop (k * unat psize) (ranked ix q wt))) [0..<n]))"
    by (simp add: map_concat comp_def)
  also have "\<dots> = map (\<lambda>sm. summary_of (snd sm)) (take (n * unat psize) (ranked ix q wt))"
    by (simp only: concat_pages)
  finally have pages: "concat (map (\<lambda>k. fst (index_search ix q wt (of_nat (k + 1)) psize)) [0..<n])
      = map (\<lambda>sm. summary_of (snd sm)) (take (n * unat psize) (ranked ix q wt))" .
  have "sorted_wrt rank_before (ranked ix q wt)"
    unfolding ranked_def by (rule sorted_sort_by [OF rank_total rank_trans])
  with pages distinct_ranked [OF assms(1)] set_ranked [OF assms(1)] show ?thesis by (simp add: search_page)
qed

definition ex_manifest :: "u8 \<Rightarrow> string \<Rightarrow> manifest" where
  "ex_manifest n title =
     \<lparr>wm_work_id = Bytes32 (replicate 32 n), wm_content_id = Bytes32 (replicate 32 (n + 100)),
      wm_fingerprint = ''fp:'' @ hex_string (replicate 128 n), wm_title = title, wm_description = ''d'',
      wm_tags = [''rock''], wm_work_type = Audio, wm_price_per_min = 5, wm_bandwidth_rate = 7,
      wm_region = Bytes32 (replicate 32 0), wm_creator_id = replicate 20 1, wm_created_at = 9, wm_payees = []\<rparr>"

definition ex_index :: hub_index where
  "ex_index = index_of decode_hex [ex_manifest 1 ''Blue Song'', ex_manifest 2 ''Other'', ex_manifest 3 ''blue rock'']"

theorem search_pages_ranking_witness:
  "set (ranked ex_index ''BLUE'' None)
     = {(relevance m (tokenize ''BLUE''), m) | m w. index_manifest ex_index w = Some m
          \<and> of_type None m \<and> 0 < relevance m (tokenize ''BLUE'')}"
proof -
  have "2 * unat (20 :: u64) < 2 ^ 64" "0 < (2::nat)" "(2::nat) < 2 ^ 64" by simp_all
  from search_pages_ranking [OF index_of_ok [of decode_hex] this, folded ex_index_def] show ?thesis
    unfolding ex_index_def by blast
qed

text \<open>The page number is not bounded: page 2 to the 62 plus one, with the fixed page size of 20,
  makes the offset wrap to zero and repeats the first page.\<close>
theorem search_page_wraps:
  "fst (index_search ix q wt (2 ^ 62 + 1) 20) = fst (index_search ix q wt 1 20)"
proof -
  have "saturating_sub (2 ^ 62 + 1 :: u64) 1 * 20 = 0" "saturating_sub (1 :: u64) 1 * 20 = 0"
    by (simp_all add: saturating_sub_def)
  then show ?thesis by (simp only: search_page fst_conv)
qed

section \<open>The nearest fingerprint\<close>

lemma max_by_last_None: "max_by_last key xs = None \<longleftrightarrow> xs = []"
  by (induction xs rule: rev_induct) (auto simp: max_by_last_def split: option.splits)

lemma max_by_last_Some:
  "max_by_last key xs = Some y \<Longrightarrow> y \<in> set xs \<and> (\<forall>x \<in> set xs. key x \<le> key y)"
proof (induction xs arbitrary: y rule: rev_induct)
  case (snoc x xs)
  have step: "max_by_last key (xs @ [x]) =
      (case max_by_last key xs of None \<Rightarrow> Some x | Some z \<Rightarrow> if key x < key z then Some z else Some x)"
    by (simp add: max_by_last_def)
  show ?case
  proof (cases "max_by_last key xs")
    case None
    then have "xs = []" by (simp add: max_by_last_None)
    with snoc.prems step None show ?thesis by simp
  next
    case (Some z)
    from snoc.IH [OF Some] have z: "z \<in> set xs" "\<forall>x \<in> set xs. key x \<le> key z" by auto
    show ?thesis
    proof (cases "key x < key z")
      case True
      with z snoc.prems step Some show ?thesis by auto
    next
      case False
      then have "key z \<le> key x" by simp
      with z have "\<forall>w \<in> set xs. key w \<le> key x" by (meson order.trans)
      with False snoc.prems step Some show ?thesis by auto
    qed
  qed
qed (simp add: max_by_last_def)

lemma nearest_correct:
  assumes "index_ok hex_decode ix"
  shows "let score = (\<lambda>m c. fp_parse hex_decode (wm_fingerprint m) = Inr c)
   in case nearest_fingerprint hex_decode ix fp threshold of
        None \<Rightarrow> \<not> (\<exists>w m c. index_manifest ix w = Some m \<and> score m c \<and> compare_fp fp c > threshold)
      | Some (s, sim) \<Rightarrow> sim > threshold
          \<and> (\<exists>w m c. index_manifest ix w = Some m \<and> score m c \<and> s = summary_of m \<and> sim = compare_fp fp c)
          \<and> \<not> (\<exists>w m c. index_manifest ix w = Some m \<and> score m c \<and> compare_fp fp c > sim)"
proof -
  let ?cand = "List.map_filter (\<lambda>m.
          case fp_parse hex_decode (wm_fingerprint m) of
            Inl _ \<Rightarrow> None
          | Inr candidate \<Rightarrow>
              let score = compare_fp fp candidate
              in if score > threshold then Some (summary_of m, score) else None)
        (map snd (ix_works ix))"
  have near: "nearest_fingerprint hex_decode ix fp threshold = max_by_last snd ?cand"
    by (simp add: nearest_fingerprint_def)
  have works: "m \<in> snd ` set (ix_works ix) \<longleftrightarrow> (\<exists>w. index_manifest ix w = Some m)" for m
    using index_okD(1) [OF assms]
    by (force simp: index_manifest_def bt_entries_get [symmetric])
  have inner: "(case fp_parse hex_decode (wm_fingerprint m) of
            Inl _ \<Rightarrow> None
          | Inr candidate \<Rightarrow>
              let score = compare_fp fp candidate
              in if score > threshold then Some (summary_of m, score) else None) = Some y \<longleftrightarrow>
      (\<exists>c. fp_parse hex_decode (wm_fingerprint m) = Inr c \<and> y = (summary_of m, compare_fp fp c)
         \<and> compare_fp fp c > threshold)" for m y
    by (cases "fp_parse hex_decode (wm_fingerprint m)") (auto simp: Let_def)
  have cand: "(s, sim) \<in> set ?cand \<longleftrightarrow> (\<exists>w m c. index_manifest ix w = Some m
      \<and> fp_parse hex_decode (wm_fingerprint m) = Inr c \<and> s = summary_of m \<and> sim = compare_fp fp c \<and> sim > threshold)" for s sim
    unfolding set_map_filter inner set_map works [symmetric] mem_Collect_eq Bex_def
    using works by blast
  obtain C where near': "nearest_fingerprint hex_decode ix fp threshold = max_by_last snd C"
    and cand': "(s, sim) \<in> set C \<longleftrightarrow> (\<exists>w m c. index_manifest ix w = Some m
      \<and> fp_parse hex_decode (wm_fingerprint m) = Inr c \<and> s = summary_of m \<and> sim = compare_fp fp c \<and> sim > threshold)" for s sim
    using near cand by blast
  have mem: "(summary_of m, compare_fp fp c) \<in> set C" if "index_manifest ix w = Some m"
      "fp_parse hex_decode (wm_fingerprint m) = Inr c" "compare_fp fp c > threshold" for w m c
    unfolding cand' using that by (intro exI [of _ w] exI [of _ m] exI [of _ c]) simp
  show ?thesis
  proof (cases "max_by_last snd C")
    case None
    then have "set C = {}" by (simp add: max_by_last_None)
    then have "\<not> (\<exists>w m c. index_manifest ix w = Some m \<and> fp_parse hex_decode (wm_fingerprint m) = Inr c
        \<and> compare_fp fp c > threshold)" using mem by (metis empty_iff)
    with None show ?thesis by (simp add: near' Let_def)
  next
    case (Some y)
    obtain s sim where y: "y = (s, sim)" by (cases y)
    from max_by_last_Some [OF Some] y have top: "(s, sim) \<in> set C" "\<forall>x \<in> set C. snd x \<le> sim" by auto
    then have "sim > threshold" "\<exists>w m c. index_manifest ix w = Some m
        \<and> fp_parse hex_decode (wm_fingerprint m) = Inr c \<and> s = summary_of m \<and> sim = compare_fp fp c"
      using cand' by blast+
    moreover have "\<not> compare_fp fp c > sim" if m: "index_manifest ix w = Some m"
        "fp_parse hex_decode (wm_fingerprint m) = Inr c" for w m c
    proof
      assume "compare_fp fp c > sim"
      with \<open>sim > threshold\<close> have "compare_fp fp c > threshold" by (rule less_trans)
      from mem [OF m this] have "(summary_of m, compare_fp fp c) \<in> set C" .
      with top(2) have "compare_fp fp c \<le> sim" by fastforce
      with \<open>compare_fp fp c > sim\<close> show False by simp
    qed
    ultimately show ?thesis unfolding near' Let_def Some y option.case prod.case by blast
  qed
qed

text \<open>The fingerprint fallback is cautious: it answers nothing when no indexed work scores above the
  threshold, and otherwise a work that does, with its true similarity, which no indexed work beats.\<close>
theorem nearest_fingerprint_best:
  "let ix = index_of hex_decode ms;
       score = (\<lambda>m c. fp_parse hex_decode (wm_fingerprint m) = Inr c)
   in case nearest_fingerprint hex_decode ix fp threshold of
        None \<Rightarrow> \<not> (\<exists>w m c. index_manifest ix w = Some m \<and> score m c \<and> compare_fp fp c > threshold)
      | Some (s, sim) \<Rightarrow> sim > threshold
          \<and> (\<exists>w m c. index_manifest ix w = Some m \<and> score m c \<and> s = summary_of m \<and> sim = compare_fp fp c)
          \<and> \<not> (\<exists>w m c. index_manifest ix w = Some m \<and> score m c \<and> compare_fp fp c > sim)"
  using nearest_correct [OF index_of_ok [of hex_decode ms]] unfolding Let_def .

end
