(* ===== verification/Hub.thy ===== *)
theory Hub
  imports HubIndex Settle
begin

text \<open>
  The discovery hub around its index: \<open>chain.rs\<close>, \<open>api.rs\<close>, \<open>config.rs\<close> and the two signing
  tools of \<open>services/discovery-hub/src\<close>. The registry contract (crate \<open>alloy\<close>), the clock, the
  snapshot file and its JSON coder are parameters. A response is a status with a body or with an
  error text. An ingest is one step: it reads the registry before it takes the index lock, and
  nothing but the locked part touches the index. The OpenAPI document and the axum router are not
  modelled.
\<close>

section \<open>Validation against the registry\<close>

record on_chain_work =
  oc_registrant :: address
  oc_price_per_min :: u64
  oc_bandwidth_rate :: u64
  oc_region :: bytes32

datatype ingest_error =
  Signature | SignerMismatch | Unregistered | PriceMismatch | BandwidthRateMismatch | RegionMismatch
| CreatorMismatch | ChainError string

type_synonym registry_view = "bytes32 \<Rightarrow> string + on_chain_work option"

definition validate_ingest ::
    "'sig manifest_env \<Rightarrow> registry_view \<Rightarrow> manifest \<Rightarrow> u8 list \<Rightarrow> ingest_error + unit" where
  "validate_ingest env lookup m signature =
     res_bind (map_err (\<lambda>_. Signature) (manifest_recover_signer env m signature)) (\<lambda>signer.
     res_bind (map_err ChainError (lookup (wm_work_id m))) (\<lambda>found.
     res_bind (ok_or Unregistered found) (\<lambda>oc.
     if signer \<noteq> oc_registrant oc then Inl SignerMismatch
     else if wm_creator_id m \<noteq> oc_registrant oc then Inl CreatorMismatch
     else if wm_price_per_min m \<noteq> oc_price_per_min oc then Inl PriceMismatch
     else if wm_bandwidth_rate m \<noteq> oc_bandwidth_rate oc then Inl BandwidthRateMismatch
     else if wm_region m \<noteq> oc_region oc then Inl RegionMismatch
     else Inr ())))"

text \<open>The contract calls of \<open>DiscoveryChain\<close>; each may fail with a message.\<close>

record registry_contract =
  rg_is_registered :: "u8 list \<Rightarrow> string + bool"
  rg_price_per_min_of :: "u8 list \<Rightarrow> string + u256"
  rg_bandwidth_rate_of :: "u8 list \<Rightarrow> string + u256"
  rg_region_rule_of :: "u8 list \<Rightarrow> string + u8 list"
  rg_registrant_of :: "u8 list \<Rightarrow> string + address"

definition chain_lookup :: "(string \<Rightarrow> bool) \<Rightarrow> string \<Rightarrow> registry_contract \<Rightarrow> registry_view" where
  "chain_lookup is_url rpc_url registry work_id =
     (if \<not> is_url rpc_url then Inl ''bad RPC URL''
      else
        let wid = as_bytes work_id in
        res_bind (rg_is_registered registry wid) (\<lambda>registered.
        if \<not> registered then Inr None
        else
          res_bind (rg_price_per_min_of registry wid) (\<lambda>price.
          res_bind (rg_bandwidth_rate_of registry wid) (\<lambda>rate.
          res_bind (rg_region_rule_of registry wid) (\<lambda>region.
          res_bind (rg_registrant_of registry wid) (\<lambda>registrant.
          res_bind (ok_or ''price overflow'' (u64_of_u256 price)) (\<lambda>price64.
          res_bind (ok_or ''bandwidth rate overflow'' (u64_of_u256 rate)) (\<lambda>rate64.
          Inr (Some \<lparr>oc_registrant = registrant, oc_price_per_min = price64,
                     oc_bandwidth_rate = rate64, oc_region = Bytes32 region\<rparr>)))))))))"

section \<open>Error texts\<close>

definition ingest_error_text :: "ingest_error \<Rightarrow> string" where
  "ingest_error_text e =
     (case e of
        Signature \<Rightarrow> ''invalid manifest signature''
      | SignerMismatch \<Rightarrow> ''signer is not the work's registrant''
      | Unregistered \<Rightarrow> ''work is not registered''
      | PriceMismatch \<Rightarrow> ''price does not match the on-chain value''
      | BandwidthRateMismatch \<Rightarrow> ''bandwidth rate does not match the on-chain value''
      | RegionMismatch \<Rightarrow> ''region does not match the on-chain value''
      | CreatorMismatch \<Rightarrow> ''creator_id is not the registrant''
      | ChainError m \<Rightarrow> ''chain error: '' @ m)"

definition fingerprint_error_text :: "fingerprint_error \<Rightarrow> string" where
  "fingerprint_error_text e =
     (case e of
        MissingPrefix \<Rightarrow> ''fingerprint must start with the 'fp:' prefix''
      | BadLength expected found \<Rightarrow>
          ''fingerprint hex must be '' @ digits_of expected [] @ '' chars, found '' @ digits_of found []
      | NotHex \<Rightarrow> ''fingerprint contains a non-hexadecimal character'')"

definition index_error_text :: "(u8 list \<Rightarrow> string) \<Rightarrow> index_error \<Rightarrow> string" where
  "index_error_text hex_encode e =
     (case e of
        DuplicateFingerprint f \<Rightarrow> ''fingerprint '' @ f @ '' is already registered to another work''
      | DuplicateContentId c \<Rightarrow>
          ''content id '' @ bytes32_to_string hex_encode c @ '' is already registered to another work''
      | BadFingerprint fe \<Rightarrow> ''fingerprint does not parse: '' @ fingerprint_error_text fe)"

definition manifest_error_text :: "manifest_error \<Rightarrow> string" where
  "manifest_error_text e =
     (case e of
        Canonical m \<Rightarrow> ''canonicalising manifest: '' @ m
      | BadSignature \<Rightarrow> ''invalid signature bytes''
      | Recover m \<Rightarrow> ''recovering signer: '' @ m)"

section \<open>Handlers\<close>

datatype 'a response = Reply nat 'a | Fail nat string

record 'f hub_state =
  hb_index :: hub_index
  hb_snapshot :: "'f file_read"

record ('sig, 'f) hub_env =
  he_manifest_env :: "'sig manifest_env"
  he_hex_encode :: "u8 list \<Rightarrow> string"
  he_hex_decode :: "string \<Rightarrow> u8 list option"
  he_to_json :: "hub_index \<Rightarrow> string + 'f"
  he_from_json :: "'f \<Rightarrow> string + hub_index"

definition hub_ingest ::
    "('sig, 'f) hub_env \<Rightarrow> registry_view \<Rightarrow> ('f \<Rightarrow> 'f write_outcome) \<Rightarrow> u64 \<Rightarrow> manifest \<Rightarrow> string
     \<Rightarrow> 'f hub_state \<Rightarrow> 'f hub_state \<times> bytes32 response" where
  "hub_ingest env lookup write_to now m signature st =
     (case he_hex_decode env (trim_start_0x signature) of
        None \<Rightarrow> (st, Fail 400 ''bad signature hex'')
      | Some sig \<Rightarrow>
          (case validate_ingest (he_manifest_env env) lookup m sig of
             Inl e \<Rightarrow> (st, Fail 400 (ingest_error_text e))
           | Inr _ \<Rightarrow>
               let clamped = m\<lparr>wm_created_at := min (wm_created_at m) now\<rparr> in
               (case index_upsert (he_hex_decode env) clamped (hb_index st) of
                  Inl e \<Rightarrow>
                    (st, Fail (case e of BadFingerprint _ \<Rightarrow> 400 | _ \<Rightarrow> 409)
                           (index_error_text (he_hex_encode env) e))
                | Inr ix \<Rightarrow>
                    (case save_snapshot (he_to_json env) write_to ix (hb_snapshot st) of
                       (Inl e, file_after) \<Rightarrow> (st\<lparr>hb_index := ix, hb_snapshot := file_after\<rparr>, Fail 500 e)
                     | (Inr _, file_after) \<Rightarrow>
                         (st\<lparr>hb_index := ix, hb_snapshot := file_after\<rparr>, Reply 201 (wm_work_id clamped))))))"

definition resolve_content_handler ::
    "('sig, 'f) hub_env \<Rightarrow> hub_index \<Rightarrow> string \<Rightarrow> resolved response" where
  "resolve_content_handler env ix text =
     (case bytes32_from_str (he_hex_decode env) text of
        Inl _ \<Rightarrow> Fail 400 ''bad content id''
      | Inr content_id \<Rightarrow>
          (case index_resolve_content ix content_id of
             None \<Rightarrow> Fail 404 ''content id not found'' | Some r \<Rightarrow> Reply 200 r))"

text \<open>\<open>f64\<close> 0.85; every similarity is a multiple of 1/1024, so rounding it does not matter.\<close>

definition FP_MATCH_THRESHOLD :: rat where
  "FP_MATCH_THRESHOLD = 85 / 100"

definition resolve_fingerprint_handler ::
    "('sig, 'f) hub_env \<Rightarrow> hub_index \<Rightarrow> string \<Rightarrow> rat option \<Rightarrow> (summary \<times> rat) response" where
  "resolve_fingerprint_handler env ix text threshold =
     (case fp_parse (he_hex_decode env) text of
        Inl e \<Rightarrow> Fail 400 (fingerprint_error_text e)
      | Inr fp \<Rightarrow>
          (case nearest_fingerprint (he_hex_decode env) ix fp (or_default FP_MATCH_THRESHOLD threshold) of
             None \<Rightarrow> Fail 404 ''no fingerprint match above threshold''
           | Some found \<Rightarrow> Reply 200 found))"

definition PAGE_SIZE :: u64 where
  "PAGE_SIZE = 20"

text \<open>The results, the page and the total.\<close>

definition search_handler ::
    "hub_index \<Rightarrow> string option \<Rightarrow> work_type option \<Rightarrow> u64 option \<Rightarrow> (summary list \<times> u64 \<times> nat) response" where
  "search_handler ix q wt page =
     (let pg = max (or_default 1 page) 1;
          (results, count) = index_search ix (or_default '''' q) wt pg PAGE_SIZE
      in Reply 200 (results, pg, count))"

definition trending_handler :: "hub_index \<Rightarrow> u64 \<Rightarrow> work_type option \<Rightarrow> summary list response" where
  "trending_handler ix now wt = Reply 200 (index_trending ix wt now PAGE_SIZE)"

definition manifest_handler :: "('sig, 'f) hub_env \<Rightarrow> hub_index \<Rightarrow> string \<Rightarrow> manifest response" where
  "manifest_handler env ix text =
     (case bytes32_from_str (he_hex_decode env) text of
        Inl _ \<Rightarrow> Fail 400 ''bad work id''
      | Inr work_id \<Rightarrow>
          (case index_manifest ix work_id of
             None \<Rightarrow> Fail 404 ''work not found'' | Some m \<Rightarrow> Reply 200 m))"

definition creator_handler ::
    "(string \<Rightarrow> address option) \<Rightarrow> hub_index \<Rightarrow> string \<Rightarrow> (address \<times> summary list \<times> nat) response" where
  "creator_handler parse_address ix text =
     (case parse_address text of
        None \<Rightarrow> Fail 400 ''bad address''
      | Some a \<Rightarrow> (let works = by_creator ix a in Reply 200 (a, works, length works)))"

definition healthz :: "hub_index \<Rightarrow> (string \<times> nat) response" where
  "healthz ix = Reply 200 (''ok'', index_len ix)"

section \<open>Configuration and signing tools\<close>

record hub_config =
  hc_bind :: string
  hc_rpc_url :: string
  hc_registry :: address
  hc_snapshot :: string

datatype hub_config_error = MissingRegistry | BadRegistry string

definition hub_config_from_env ::
    "(string \<Rightarrow> string option) \<Rightarrow> (string \<Rightarrow> address option) \<Rightarrow> hub_config_error + hub_config" where
  "hub_config_from_env var parse_address =
     res_bind (ok_or MissingRegistry (var ''REGISTRY'')) (\<lambda>raw.
     res_bind (ok_or (BadRegistry raw) (parse_address raw)) (\<lambda>registry.
     Inr \<lparr>hc_bind = or_default ''127.0.0.1:8080'' (var ''BIND''),
          hc_rpc_url = or_default ''http://127.0.0.1:8545'' (var ''RPC_URL''),
          hc_registry = registry, hc_snapshot = or_default ''hub-index.json'' (var ''SNAPSHOT'')\<rparr>))"

text \<open>\<open>bin/sign_manifest.rs\<close>; the envelope is the manifest with its signature.\<close>

definition sign_manifest_run ::
    "'sig manifest_env \<Rightarrow> (string \<Rightarrow> string option) \<Rightarrow> (string \<Rightarrow> 'k option) \<Rightarrow> ('k \<Rightarrow> u8 list \<Rightarrow> string + u8 list)
     \<Rightarrow> (u8 list \<Rightarrow> string) \<Rightarrow> (string \<Rightarrow> string + manifest) \<Rightarrow> string + string \<Rightarrow> string + (manifest \<times> string)" where
  "sign_manifest_run env var parse_key sign hex_encode parse_manifest stdin =
     res_bind (ok_or ''PRIVATE_KEY not set'' (var ''PRIVATE_KEY'')) (\<lambda>key.
     res_bind (ok_or ''invalid PRIVATE_KEY'' (parse_key key)) (\<lambda>signer.
     res_bind stdin (\<lambda>input.
     res_bind (parse_manifest input) (\<lambda>m.
     res_bind (map_err manifest_error_text (manifest_canonical_bytes env m)) (\<lambda>bytes.
     res_bind (sign signer bytes) (\<lambda>sig.
     Inr (m, ''0x'' @ hex_encode sig)))))))"

text \<open>\<open>bin/sign_consent.rs\<close>. An error names the field; the parser's own message after it is dropped.\<close>

definition consent_field :: "(string \<Rightarrow> string option) \<Rightarrow> string list \<Rightarrow> nat \<Rightarrow> string \<Rightarrow> string + string" where
  "consent_field var args i env_var =
     (if i < length args then Inr (args ! i)
      else ok_or (env_var @ '' not set (or pass positional args)'') (var env_var))"

definition sign_consent_run ::
    "(u8 list \<Rightarrow> u8 list) \<Rightarrow> (string \<Rightarrow> string option) \<Rightarrow> (string \<Rightarrow> 'k option) \<Rightarrow> ('k \<Rightarrow> u8 list \<Rightarrow> string + u8 list)
     \<Rightarrow> (u8 list \<Rightarrow> string) \<Rightarrow> (string \<Rightarrow> u8 list option) \<Rightarrow> (string \<Rightarrow> address option) \<Rightarrow> string list \<Rightarrow> string + string" where
  "sign_consent_run keccak256 var parse_key sign hex_encode hex_decode parse_address args =
     res_bind (ok_or ''PRIVATE_KEY not set'' (var ''PRIVATE_KEY'')) (\<lambda>key.
     res_bind (ok_or ''invalid PRIVATE_KEY'' (parse_key key)) (\<lambda>signer.
     res_bind (consent_field var args 0 ''WORK_ID'') (\<lambda>work_text.
     res_bind (map_err (\<lambda>_. ''invalid work_id'') (bytes32_from_str hex_decode work_text)) (\<lambda>work_id.
     res_bind (consent_field var args 1 ''CONTENT_ID'') (\<lambda>content_text.
     res_bind (map_err (\<lambda>_. ''invalid content_id'') (bytes32_from_str hex_decode content_text)) (\<lambda>content_id.
     res_bind (consent_field var args 2 ''PAYEE'') (\<lambda>payee_text.
     res_bind (ok_or ''invalid payee'' (parse_address payee_text)) (\<lambda>payee.
     res_bind (consent_field var args 3 ''SHARE'') (\<lambda>share_text.
     res_bind (ok_or ''invalid share'' (parse_u64 share_text)) (\<lambda>share.
     res_bind (sign signer (consent_digest keccak256 work_id content_id payee share)) (\<lambda>sig.
     Inr (''0x'' @ hex_encode sig))))))))))))"

section \<open>What validation guarantees\<close>

definition matches_registry :: "on_chain_work \<Rightarrow> manifest \<Rightarrow> bool" where
  "matches_registry oc m \<longleftrightarrow>
     wm_creator_id m = oc_registrant oc \<and> wm_price_per_min m = oc_price_per_min oc
     \<and> wm_bandwidth_rate m = oc_bandwidth_rate oc \<and> wm_region m = oc_region oc"

lemma validate_ingest_Inr:
  "validate_ingest env lookup m signature = Inr u \<longleftrightarrow>
     (\<exists>oc. lookup (wm_work_id m) = Inr (Some oc) \<and> matches_registry oc m
        \<and> manifest_recover_signer env m signature = Inr (oc_registrant oc))"
  by (auto simp: validate_ingest_def res_bind_eq_Inr map_err_eq_Inr ok_or_eq_Inr matches_registry_def split: if_splits)

definition genuine_manifest ::
    "('sig, 'f) hub_env \<Rightarrow> registry_view \<Rightarrow> manifest \<Rightarrow> string \<Rightarrow> bool" where
  "genuine_manifest env lookup m signature \<longleftrightarrow>
     (\<exists>sig oc. he_hex_decode env (trim_start_0x signature) = Some sig
        \<and> lookup (wm_work_id m) = Inr (Some oc) \<and> matches_registry oc m
        \<and> manifest_recover_signer (he_manifest_env env) m sig = Inr (oc_registrant oc))"

definition clamped :: "u64 \<Rightarrow> manifest \<Rightarrow> manifest" where
  "clamped now m = m\<lparr>wm_created_at := min (wm_created_at m) now\<rparr>"

lemma clamped_simps [simp]:
  "wm_work_id (clamped now m) = wm_work_id m" "wm_fingerprint (clamped now m) = wm_fingerprint m"
  "wm_content_id (clamped now m) = wm_content_id m" "wm_created_at (clamped now m) \<le> now"
  by (simp_all add: clamped_def)

text \<open>The state after an ingest: unchanged, or the upsert of the clamped manifest.\<close>

lemma hub_ingest_cases:
  assumes "hub_ingest env lookup write_to now m signature st = (st', resp)"
  obtains (refused) status msg where "st' = st" "resp = Fail status msg" "status = 400 \<or> status = 409"
  | (indexed) ix where "genuine_manifest env lookup m signature"
      "index_upsert (he_hex_decode env) (clamped now m) (hb_index st) = Inr ix"
      "hb_index st' = ix"
      "(\<exists>json. he_to_json env ix = Inr json \<and> hb_snapshot st' = Content json \<and> resp = Reply 201 (wm_work_id m))
       \<or> (\<exists>e. resp = Fail 500 e \<and> (hb_snapshot st' = hb_snapshot st
             \<or> (\<exists>json. he_to_json env ix = Inr json \<and> write_to json = Torn (hb_snapshot st') e)))"
proof (cases "he_hex_decode env (trim_start_0x signature)")
  case None
  then show ?thesis using assms refused by (auto simp: hub_ingest_def)
next
  case (Some sig)
  show ?thesis
  proof (cases "validate_ingest (he_manifest_env env) lookup m sig")
    case (Inl e)
    then show ?thesis using assms Some refused by (auto simp: hub_ingest_def)
  next
    case (Inr u)
    with Some have gen: "genuine_manifest env lookup m signature"
      by (auto simp: genuine_manifest_def validate_ingest_Inr)
    show ?thesis
    proof (cases "index_upsert (he_hex_decode env) (clamped now m) (hb_index st)")
      case (Inl e)
      then show ?thesis using assms Some Inr refused
        by (auto simp: hub_ingest_def Let_def clamped_def split: index_error.splits)
    next
      case up: (Inr ix)
      show ?thesis
        by (rule indexed [OF gen up])
          (use assms Some Inr up in \<open>auto simp: hub_ingest_def Let_def clamped_def save_snapshot_def
              split: sum.splits write_outcome.splits\<close>)
    qed
  qed
qed

section \<open>Runs of the hub\<close>

datatype hub_event =
    Posted manifest string u64 registry_view "bytes32 response"
  | Restarted

inductive hub_step :: "('sig, 'f) hub_env \<Rightarrow> 'f hub_state \<Rightarrow> hub_event \<Rightarrow> 'f hub_state \<Rightarrow> bool" for env where
  ingest: "\<lbrakk>hub_ingest env lookup write_to now m signature st = (st', resp); torn_unloadable (he_from_json env) write_to\<rbrakk>
     \<Longrightarrow> hub_step env st (Posted m signature now lookup resp) st'"
| restart: "load_snapshot (he_from_json env) (hb_snapshot st) = Inr ix
     \<Longrightarrow> hub_step env st Restarted (st\<lparr>hb_index := ix\<rparr>)"

inductive hub_run :: "('sig, 'f) hub_env \<Rightarrow> hub_event list \<Rightarrow> 'f hub_state \<Rightarrow> bool" for env where
  boot: "hub_run env [] \<lparr>hb_index = index_new, hb_snapshot = NotFound\<rparr>"
| step: "\<lbrakk>hub_run env tr st; hub_step env st e st'\<rbrakk> \<Longrightarrow> hub_run env (tr @ [e]) st'"

inductive_cases hub_stepE: "hub_step env st e st'"

text \<open>Every indexed work stems from a genuine post.\<close>

definition vouched :: "('sig, 'f) hub_env \<Rightarrow> hub_event list \<Rightarrow> manifest \<Rightarrow> bool" where
  "vouched env tr m \<longleftrightarrow>
     (\<exists>m0 signature now lookup resp. Posted m0 signature now lookup resp \<in> set tr
        \<and> genuine_manifest env lookup m0 signature \<and> m = clamped now m0)"

definition index_vouched :: "('sig, 'f) hub_env \<Rightarrow> hub_event list \<Rightarrow> hub_index \<Rightarrow> bool" where
  "index_vouched env tr ix \<longleftrightarrow>
     index_ok (he_hex_decode env) ix \<and> (\<forall>w m. index_manifest ix w = Some m \<longrightarrow> vouched env tr m)"

lemma vouchedI:
  "\<lbrakk>Posted m0 signature now lookup resp \<in> set tr; genuine_manifest env lookup m0 signature\<rbrakk>
     \<Longrightarrow> vouched env tr (clamped now m0)"
  unfolding vouched_def by blast

lemma vouched_mono: "vouched env tr m \<Longrightarrow> vouched env (tr @ [e]) m"
  unfolding vouched_def by fastforce

lemma index_vouched_mono: "index_vouched env tr ix \<Longrightarrow> index_vouched env (tr @ [e]) ix"
  unfolding index_vouched_def using vouched_mono by blast

lemma index_vouched_upsert:
  assumes "index_vouched env tr ix" and "index_upsert (he_hex_decode env) m ix = Inr ix'" and "vouched env tr m"
  shows "index_vouched env tr ix'"
  using upsert_preserves [of "he_hex_decode env" ix m ix'] assms
  unfolding index_vouched_def index_manifest_def by (metis option.inject)

lemma index_vouched_new: "index_vouched env tr index_new"
  by (simp add: index_vouched_def index_new_ok) (simp add: index_manifest_def index_new_def)

lemma hub_run_vouched:
  assumes codec: "\<And>ix json. he_to_json env ix = Inr json \<Longrightarrow> he_from_json env json = Inr ix"
    and "hub_run env tr st"
  shows "index_vouched env tr (hb_index st)
     \<and> (\<forall>ix. load_snapshot (he_from_json env) (hb_snapshot st) = Inr ix \<longrightarrow> index_vouched env tr ix)"
  using assms(2)
proof (induction rule: hub_run.induct)
  case boot
  then show ?case by (simp add: index_vouched_new load_snapshot_def)
next
  case (step tr st e st')
  note keep = index_vouched_mono [where e = e]
  from step.hyps(2) show ?case
  proof cases
    case (ingest lookup write_to now m signature resp)
    have here: "vouched env (tr @ [e]) (clamped now m)" if "genuine_manifest env lookup m signature"
      by (rule vouchedI [where resp = resp, OF _ that]) (simp add: ingest(1))
    from ingest(2) show ?thesis
    proof (cases rule: hub_ingest_cases)
      case refused
      then show ?thesis using step.IH keep by blast
    next
      case (indexed ix)
      have new: "index_vouched env (tr @ [e]) ix"
        using index_vouched_upsert [OF keep indexed(2) here [OF indexed(1)]] step.IH by blast
      from indexed(4) show ?thesis
      proof
        assume "\<exists>json. he_to_json env ix = Inr json \<and> hb_snapshot st' = Content json \<and> resp = Reply 201 (wm_work_id m)"
        then show ?thesis using new indexed(3) codec by (auto simp: load_snapshot_def)
      next
        assume "\<exists>e. resp = Fail 500 e \<and> (hb_snapshot st' = hb_snapshot st
          \<or> (\<exists>json. he_to_json env ix = Inr json \<and> write_to json = Torn (hb_snapshot st') e))"
        then have "hb_snapshot st' = hb_snapshot st \<or> \<not> is_ok (load_snapshot (he_from_json env) (hb_snapshot st'))"
          using ingest(3) by (auto simp: torn_unloadable_def)
        then show ?thesis using new indexed(3) step.IH keep by (auto simp: is_ok_iff)
      qed
    qed
  next
    case (restart ix)
    with step.IH have "index_vouched env tr ix" by blast
    from keep [OF this] restart step.IH show ?thesis by auto
  qed
qed

text \<open>C17: the hub indexes only what the registry vouches for. After any posts, failed writes and
  restarts, every indexed manifest was posted with a signature that recovers to the registrant the
  registry gave for its work id, with the registry's price, bandwidth rate and region and the
  registrant as creator, and its creation time is at most the hub's clock at that post; and two works
  never share a fingerprint or a content id.\<close>
theorem hub_indexes_only_registered:
  assumes "\<And>ix json. he_to_json env ix = Inr json \<Longrightarrow> he_from_json env json = Inr ix"
    and "hub_run env tr st" and "index_manifest (hb_index st) w = Some m"
  shows "\<exists>m0 signature now lookup resp sig oc.
      Posted m0 signature now lookup resp \<in> set tr
    \<and> he_hex_decode env (trim_start_0x signature) = Some sig
    \<and> manifest_recover_signer (he_manifest_env env) m0 sig = Inr (oc_registrant oc)
    \<and> lookup w = Inr (Some oc)
    \<and> wm_creator_id m = oc_registrant oc \<and> wm_price_per_min m = oc_price_per_min oc
    \<and> wm_bandwidth_rate m = oc_bandwidth_rate oc \<and> wm_region m = oc_region oc
    \<and> m = m0\<lparr>wm_created_at := min (wm_created_at m0) now\<rparr>
    \<and> index_ok (he_hex_decode env) (hb_index st)"
proof -
  from hub_run_vouched [OF assms(1,2)] have v: "index_vouched env tr (hb_index st)" by blast
  then have ok: "index_ok (he_hex_decode env) (hb_index st)" by (simp add: index_vouched_def)
  from v assms(3) have "vouched env tr m" by (simp add: index_vouched_def)
  then obtain m0 signature now lookup resp where p: "Posted m0 signature now lookup resp \<in> set tr"
      "genuine_manifest env lookup m0 signature" "m = clamped now m0" by (auto simp: vouched_def)
  moreover have "wm_work_id m = w"
    using index_okD(4) [OF ok] assms(3) by (simp add: index_manifest_def)
  moreover from p(2) obtain sig oc where "he_hex_decode env (trim_start_0x signature) = Some sig"
      "lookup (wm_work_id m0) = Inr (Some oc)" "matches_registry oc m0"
      "manifest_recover_signer (he_manifest_env env) m0 sig = Inr (oc_registrant oc)"
    unfolding genuine_manifest_def by blast
  ultimately show ?thesis
    using ok unfolding matches_registry_def
    by (intro exI [of _ m0] exI [of _ signature] exI [of _ now] exI [of _ lookup] exI [of _ resp] exI [of _ sig]
        exI [of _ oc]) (auto simp: clamped_def)
qed

definition ex_registry :: registry_view where
  "ex_registry work_id = Inr (Some \<lparr>oc_registrant = replicate 20 1, oc_price_per_min = 5, oc_bandwidth_rate = 7,
     oc_region = Bytes32 (replicate 32 0)\<rparr>)"

definition ex_hub_env :: "(u8 list, hub_index) hub_env" where
  "ex_hub_env = \<lparr>he_manifest_env = \<lparr>mf_canonical_json = (\<lambda>_. Inr []), mf_parse_signature = Some,
       mf_recover_from_msg = (\<lambda>sig _. Inr sig)\<rparr>,
     he_hex_encode = hex_string, he_hex_decode = decode_hex, he_to_json = Inr, he_from_json = Inr\<rparr>"

lemma ex_sig: "trim_start_0x (hex_string (replicate 20 1)) = hex_string (replicate 20 1)"
  by (simp add: trim_start_0x.simps hex.encode_no_prefix)

lemma ex_genuine_manifest: "genuine_manifest ex_hub_env ex_registry (ex_manifest 1 title) (hex_string (replicate 20 1))"
  by (simp add: genuine_manifest_def ex_hub_env_def ex_sig hex.decode_encode ex_registry_def matches_registry_def
      manifest_recover_signer_def manifest_canonical_bytes_def ex_manifest_def)

lemma ex_fp_parses: "is_ok (fp_parse decode_hex (wm_fingerprint (ex_manifest 1 title)))"
proof -
  have "strip_prefix PREFIX (''fp:'' @ hex_string (replicate 128 1)) = Some (hex_string (replicate 128 1))"
    unfolding PREFIX_def by (rule strip_prefix_append)
  then show ?thesis
    by (simp add: ex_manifest_def fp_parse_def HEX_LEN_def BYTE_LEN_def FRAMES_def hex.decode_encode)
qed

text \<open>The first post of the example, against any disk.\<close>

lemma ex_post:
  "\<exists>ix. (\<forall>write_to. hub_ingest ex_hub_env ex_registry write_to 4 (ex_manifest 1 title) (hex_string (replicate 20 1))
           \<lparr>hb_index = index_new, hb_snapshot = NotFound\<rparr>
         = (case write_to ix of
              Written \<Rightarrow> (\<lparr>hb_index = ix, hb_snapshot = Content ix\<rparr>, Reply 201 (wm_work_id (ex_manifest 1 title)))
            | NotOpened e \<Rightarrow> (\<lparr>hb_index = ix, hb_snapshot = NotFound\<rparr>, Fail 500 e)
            | Torn left e \<Rightarrow> (\<lparr>hb_index = ix, hb_snapshot = left\<rparr>, Fail 500 e)))
     \<and> index_manifest ix (Bytes32 (replicate 32 1)) = Some (clamped 4 (ex_manifest 1 title))"
proof -
  let ?m = "clamped 4 (ex_manifest 1 title)"
  have "is_ok (index_upsert decode_hex ?m index_new)"
    using ex_fp_parses [of title]
    by (auto simp: is_ok_iff index_upsert_Inr index_new_def)
  then obtain ix where up: "index_upsert decode_hex ?m index_new = Inr ix" by (auto simp: is_ok_iff)
  have id: "wm_work_id (ex_manifest 1 title) = Bytes32 (replicate 32 1)" by (simp add: ex_manifest_def)
  have valid: "\<exists>u. validate_ingest (he_manifest_env ex_hub_env) ex_registry (ex_manifest 1 title) (replicate 20 1) = Inr u"
    using ex_genuine_manifest [of title]
    by (auto simp: validate_ingest_Inr genuine_manifest_def ex_hub_env_def ex_sig hex.decode_encode)
  have "hub_ingest ex_hub_env ex_registry write_to 4 (ex_manifest 1 title) (hex_string (replicate 20 1))
       \<lparr>hb_index = index_new, hb_snapshot = NotFound\<rparr>
     = (case write_to ix of
          Written \<Rightarrow> (\<lparr>hb_index = ix, hb_snapshot = Content ix\<rparr>, Reply 201 (wm_work_id (ex_manifest 1 title)))
        | NotOpened e \<Rightarrow> (\<lparr>hb_index = ix, hb_snapshot = NotFound\<rparr>, Fail 500 e)
        | Torn left e \<Rightarrow> (\<lparr>hb_index = ix, hb_snapshot = left\<rparr>, Fail 500 e))" for write_to
    using valid up
    by (auto simp: hub_ingest_def ex_sig hex.decode_encode ex_hub_env_def clamped_def Let_def save_snapshot_def
        split: write_outcome.splits)
  moreover from upsert_preserves(2) [OF index_new_ok up]
  have "index_manifest ix (Bytes32 (replicate 32 1)) = Some ?m" by (simp add: index_manifest_def id)
  ultimately show ?thesis by blast
qed

lemma ex_posted:
  "\<exists>st. hub_run ex_hub_env [Posted (ex_manifest 1 title) (hex_string (replicate 20 1)) 4 ex_registry
         (Reply 201 (wm_work_id (ex_manifest 1 title)))] st
     \<and> index_manifest (hb_index st) (Bytes32 (replicate 32 1)) = Some (clamped 4 (ex_manifest 1 title))"
proof -
  obtain ix where ix: "hub_ingest ex_hub_env ex_registry (\<lambda>_. Written) 4 (ex_manifest 1 title) (hex_string (replicate 20 1))
        \<lparr>hb_index = index_new, hb_snapshot = NotFound\<rparr>
      = (\<lparr>hb_index = ix, hb_snapshot = Content ix\<rparr>, Reply 201 (wm_work_id (ex_manifest 1 title)))"
      "index_manifest ix (Bytes32 (replicate 32 1)) = Some (clamped 4 (ex_manifest 1 title))"
    using ex_post [of title] by (metis (mono_tags, lifting) write_outcome.case(1))
  from hub_run.step [OF hub_run.boot hub_step.ingest [OF ix(1) torn_unloadable_total(1)]] ix(2)
  show ?thesis by (intro exI conjI) (simp, simp)
qed

theorem hub_indexes_only_registered_witness:
  "\<exists>st m. index_manifest (hb_index st) (Bytes32 (replicate 32 1)) = Some m \<and> wm_price_per_min m = 5
     \<and> index_ok decode_hex (hb_index (st :: hub_index hub_state))"
proof -
  obtain st where r: "hub_run ex_hub_env [Posted (ex_manifest 1 ''t'') (hex_string (replicate 20 1)) 4 ex_registry
        (Reply 201 (wm_work_id (ex_manifest 1 ''t'')))] st"
      "index_manifest (hb_index st) (Bytes32 (replicate 32 1)) = Some (clamped 4 (ex_manifest 1 ''t''))"
    using ex_posted by blast
  have "index_ok (he_hex_decode ex_hub_env) (hb_index st)"
    using hub_indexes_only_registered [OF _ r] by (auto simp: ex_hub_env_def)
  then have "index_ok decode_hex (hb_index st)" by (simp add: ex_hub_env_def)
  with r(2) show ?thesis
    by (intro exI [of _ st] exI [of _ "clamped 4 (ex_manifest 1 ''t'')"]) (simp add: clamped_def ex_manifest_def)
qed

text \<open>C38: the answers of an ingest. A created answer means the work is indexed as posted, with its time
  clamped, and the snapshot file holds the new index. A 400 or 409 leaves index and file unchanged. A 500
  comes after the index has already changed, so the work is served although the client was told the post
  failed; the file is then as it was, when the index could not be serialised or the file not opened, or it
  was torn by the failed write, and then no later start can load it.\<close>
theorem ingest_answers:
  assumes "index_ok (he_hex_decode env) (hb_index st)" and "torn_unloadable (he_from_json env) write_to"
    and "hub_ingest env lookup write_to now m signature st = (st', resp)"
  shows "case resp of
      Reply status w \<Rightarrow> status = 201 \<and> w = wm_work_id m
        \<and> index_manifest (hb_index st') w = Some (m\<lparr>wm_created_at := min (wm_created_at m) now\<rparr>)
        \<and> (\<exists>json. he_to_json env (hb_index st') = Inr json \<and> hb_snapshot st' = Content json)
    | Fail status _ \<Rightarrow>
        (status = 400 \<or> status = 409) \<and> st' = st
        \<or> status = 500
          \<and> index_manifest (hb_index st') (wm_work_id m) = Some (m\<lparr>wm_created_at := min (wm_created_at m) now\<rparr>)
          \<and> (hb_snapshot st' = hb_snapshot st \<or> \<not> is_ok (load_snapshot (he_from_json env) (hb_snapshot st')))"
  using assms(3)
proof (cases rule: hub_ingest_cases)
  case refused
  then show ?thesis by auto
next
  case (indexed ix)
  from upsert_preserves(2) [OF assms(1) indexed(2)] indexed(3)
  have "index_manifest (hb_index st') (wm_work_id m) = Some (clamped now m)" by (simp add: index_manifest_def)
  moreover have "\<not> is_ok (load_snapshot (he_from_json env) left)" if "write_to json = Torn left e" for json left e
    using assms(2) that unfolding torn_unloadable_def by blast
  ultimately show ?thesis using indexed(3,4) by (auto simp: clamped_def)
qed

text \<open>The same post against three disks: one that works, one whose directory is gone, one that fills up
  while the file is written.\<close>

theorem ingest_answers_witness:
  "let st = \<lparr>hb_index = index_new, hb_snapshot = NotFound\<rparr> :: hub_index hub_state;
       post = (\<lambda>write_to. hub_ingest ex_hub_env ex_registry write_to 4 (ex_manifest 1 ''t'') (hex_string (replicate 20 1)) st);
       indexed = (\<lambda>st'. index_manifest (hb_index st') (Bytes32 (replicate 32 1)) = Some (clamped 4 (ex_manifest 1 ''t'')));
       (st1, resp1) = post (\<lambda>_. Written);
       (st2, resp2) = post (\<lambda>_. NotOpened ''no directory'');
       (st3, resp3) = post (\<lambda>_. Torn (Unreadable ''EOF while parsing'') ''no space left'')
   in resp1 = Reply 201 (Bytes32 (replicate 32 1)) \<and> indexed st1 \<and> (\<exists>ix. hb_snapshot st1 = Content ix)
    \<and> resp2 = Fail 500 ''no directory'' \<and> indexed st2 \<and> hb_snapshot st2 = NotFound
    \<and> resp3 = Fail 500 ''no space left'' \<and> indexed st3
        \<and> \<not> is_ok (load_snapshot (he_from_json ex_hub_env) (hb_snapshot st3))"
proof -
  let ?st = "\<lparr>hb_index = index_new, hb_snapshot = NotFound\<rparr> :: hub_index hub_state"
  let ?post = "\<lambda>write_to. hub_ingest ex_hub_env ex_registry write_to 4 (ex_manifest 1 ''t'') (hex_string (replicate 20 1)) ?st"
  obtain ix where post: "\<And>write_to. ?post write_to
      = (case write_to ix of
           Written \<Rightarrow> (\<lparr>hb_index = ix, hb_snapshot = Content ix\<rparr>, Reply 201 (wm_work_id (ex_manifest 1 ''t'')))
         | NotOpened e \<Rightarrow> (\<lparr>hb_index = ix, hb_snapshot = NotFound\<rparr>, Fail 500 e)
         | Torn left e \<Rightarrow> (\<lparr>hb_index = ix, hb_snapshot = left\<rparr>, Fail 500 e))"
    using ex_post [of "''t''"] by blast
  have ok: "index_ok (he_hex_decode ex_hub_env) (hb_index ?st)" by (simp add: index_new_ok)
  have full: "torn_unloadable (he_from_json ex_hub_env) (\<lambda>_. Torn (Unreadable ''EOF while parsing'') ''no space left'')"
    by (simp add: torn_unloadable_def load_snapshot_def)
  have id: "wm_work_id (ex_manifest 1 ''t'') = Bytes32 (replicate 32 1)" by (simp add: ex_manifest_def)
  from ingest_answers [OF ok torn_unloadable_total(1), of ex_registry 4 "ex_manifest 1 ''t''" "hex_string (replicate 20 1)"]
    ingest_answers [OF ok torn_unloadable_total(2), of ex_registry "''no directory''" 4 "ex_manifest 1 ''t''" "hex_string (replicate 20 1)"]
    ingest_answers [OF ok full, of ex_registry 4 "ex_manifest 1 ''t''" "hex_string (replicate 20 1)"]
  show ?thesis by (simp add: post id clamped_def load_snapshot_def)
qed

end
