(* ===== verification/Player.thy ===== *)
theory Player
  imports Epoch Hub
begin

text \<open>
  The desktop player \<open>clients/player-plugin/src\<close>: configuration, price cap, two-tier recognition
  against the hub, the persisted session, and the commands \<open>play\<close>, \<open>status\<close>, \<open>settle\<close> and
  \<open>fingerprint\<close> of \<open>main.rs\<close>. Decoding of media files (crate \<open>symphonia\<close>), the computation of
  a fingerprint from samples, JSON values (crate \<open>serde_json\<close>), HTTP and the signing key are fields
  of the parameter \<open>player_world\<close>; writing the disclosure, the transaction and saving the state
  are effects of a job.
\<close>

section \<open>Configuration\<close>

record player_config =
  pc_hub_url :: string
  pc_rpc_url :: string
  pc_private_key :: "string option"
  pc_consumption :: "string option"
  pc_tier_id :: "string option"
  pc_threshold :: "u64 option"
  pc_state_path :: string
  pc_disclosure_path :: string

datatype player_config_error = MissingVar string | InvalidVar string

text \<open>\<open>in_temp_dir\<close> joins a file name to the temporary directory of the platform.\<close>

definition player_config_from_map ::
    "(string \<Rightarrow> string) \<Rightarrow> (string \<Rightarrow> string option) \<Rightarrow> player_config_error + player_config" where
  "player_config_from_map in_temp_dir get =
     res_bind (ok_or (MissingVar ''HUB_URL'') (get ''HUB_URL'')) (\<lambda>hub_url.
     let rpc = or_default ''http://127.0.0.1:8545'' (get ''RPC_URL'') in
     res_bind (case get ''THRESHOLD'' of
                 Some s \<Rightarrow> res_bind (ok_or (InvalidVar ''THRESHOLD'') (parse_u64 s)) (\<lambda>v. Inr (Some v))
               | None \<Rightarrow> Inr None) (\<lambda>threshold.
     Inr \<lparr>pc_hub_url = hub_url, pc_rpc_url = rpc, pc_private_key = get ''PRIVATE_KEY'',
          pc_consumption = get ''CONSUMPTION'', pc_tier_id = get ''TIER_ID'', pc_threshold = threshold,
          pc_state_path = or_default (in_temp_dir ''cwe-player-state.json'') (get ''STATE''),
          pc_disclosure_path = or_default (in_temp_dir ''cwe-player-disclosure.json'') (get ''DISCLOSURE'')\<rparr>))"

definition require_chain :: "player_config \<Rightarrow> player_config_error + (string \<times> string \<times> string)" where
  "require_chain cfg =
     res_bind (ok_or (MissingVar ''PRIVATE_KEY'') (pc_private_key cfg)) (\<lambda>pk.
     res_bind (ok_or (MissingVar ''CONSUMPTION'') (pc_consumption cfg)) (\<lambda>cons.
     res_bind (ok_or (MissingVar ''TIER_ID'') (pc_tier_id cfg)) (\<lambda>tier.
     Inr (pk, cons, tier))))"

definition policy_allows :: "u64 \<Rightarrow> u64 option \<Rightarrow> bool" where
  "policy_allows price_per_min threshold =
     (case threshold of Some cap \<Rightarrow> price_per_min \<le> cap | None \<Rightarrow> True)"

section \<open>Recognition\<close>

record 's decoded_audio =
  da_bytes :: "u8 list"
  da_samples :: "'s list"
  da_sample_rate :: u32

definition duration_secs :: "'s decoded_audio \<Rightarrow> u64" where
  "duration_secs audio =
     (if da_sample_rate audio = 0 then 0
      else word_of_nat (length (da_samples audio)) div ucast (da_sample_rate audio))"

datatype recognition_tier = SignedTier | FingerprintTier

record resolved_work =
  rk_work_id :: string
  rk_price_per_min :: u64
  rk_tier :: recognition_tier

record 'j json_api =
  js_null :: 'j
  js_get :: "'j \<Rightarrow> string \<Rightarrow> 'j option"
  js_as_str :: "'j \<Rightarrow> string option"
  js_as_u64 :: "'j \<Rightarrow> u64 option"

definition parse_work :: "'j json_api \<Rightarrow> 'j \<Rightarrow> recognition_tier \<Rightarrow> resolved_work option" where
  "parse_work js v tier =
     Option.bind (Option.bind (js_get js v ''work_id'') (js_as_str js)) (\<lambda>work_id.
     Option.bind (Option.bind (js_get js v ''price_per_min'') (js_as_u64 js)) (\<lambda>price.
     Some \<lparr>rk_work_id = work_id, rk_price_per_min = price, rk_tier = tier\<rparr>))"

definition content_id_of :: "(u8 list \<Rightarrow> string) \<Rightarrow> (u8 list \<Rightarrow> u8 list) \<Rightarrow> u8 list \<Rightarrow> string" where
  "content_id_of hex_encode keccak256 bytes = bytes32_to_string hex_encode (Bytes32 (keccak256 bytes))"

record ('j, 's) recognizer =
  rz_json :: "'j json_api"
  rz_hex_encode :: "u8 list \<Rightarrow> string"
  rz_keccak256 :: "u8 list \<Rightarrow> u8 list"
  rz_compute :: "'s list \<Rightarrow> u32 \<Rightarrow> fingerprint"

definition trim_end_slash :: "string \<Rightarrow> string" where
  "trim_end_slash s = rev (dropWhile (\<lambda>c. c = CHR ''/'') (rev s))"

definition content_url :: "string \<Rightarrow> string \<Rightarrow> string" where
  "content_url base cid = base @ ''/resolve/content/'' @ cid"

definition fingerprint_url :: "string \<Rightarrow> string \<Rightarrow> string" where
  "fingerprint_url base fp = base @ ''/resolve/fingerprint/'' @ fp"

definition recognize ::
    "('j, 's) recognizer \<Rightarrow> string \<Rightarrow> 's decoded_audio \<Rightarrow> (string \<Rightarrow> 'j option) \<Rightarrow> resolved_work option" where
  "recognize rz hub_url audio transport =
     (let base = trim_end_slash hub_url;
          cid = content_id_of (rz_hex_encode rz) (rz_keccak256 rz) (da_bytes audio)
      in case Option.bind (transport (content_url base cid)) (\<lambda>v. parse_work (rz_json rz) v SignedTier) of
           Some work \<Rightarrow> Some work
         | None \<Rightarrow>
             let fp = fp_to_string (rz_hex_encode rz) (rz_compute rz (da_samples audio) (da_sample_rate audio))
             in Option.bind (transport (fingerprint_url base fp)) (\<lambda>v.
                parse_work (rz_json rz) (or_default (js_null (rz_json rz)) (js_get (rz_json rz) v ''candidate''))
                  FingerprintTier))"

section \<open>The session\<close>

record player_state =
  ps_session :: session_state
  ps_escrow :: "bytes32 btree_set"

datatype session_error = SessionIo string | SessionParse string

definition session_load ::
    "('f \<Rightarrow> string + player_state) \<Rightarrow> 'f file_read \<Rightarrow> u64 \<Rightarrow> session_error + player_state" where
  "session_load from_json r now_secs =
     (case r of
        Content raw \<Rightarrow> map_err SessionParse (from_json raw)
      | NotFound \<Rightarrow> Inr \<lparr>ps_session = session_new now_secs, ps_escrow = []\<rparr>
      | Unreadable e \<Rightarrow> Inl (SessionIo e))"

definition session_accrue ::
    "(u8 list \<Rightarrow> string) \<Rightarrow> bytes32 \<Rightarrow> u64 \<Rightarrow> bool \<Rightarrow> player_state \<Rightarrow> player_state" where
  "session_accrue hex_encode work_id secs by_fingerprint st =
     (let sid = ''play:'' @ bytes32_to_string hex_encode work_id;
          s1 = session_start sid work_id (ps_session st);
          s2 = snd (session_add_time sid secs s1);
          s3 = snd (session_stop sid s2)
      in \<lparr>ps_session = s3,
          ps_escrow = (if by_fingerprint then bs_insert work_id (ps_escrow st) else ps_escrow st)\<rparr>)"

definition flush_usage :: "player_state \<Rightarrow> usage_entry list \<times> player_state" where
  "flush_usage st = (let (usage, s) = session_flush (ps_session st) in (usage, st\<lparr>ps_session := s\<rparr>))"

definition take_escrow_works :: "player_state \<Rightarrow> bytes32 list \<times> player_state" where
  "take_escrow_works st = (ps_escrow st, st\<lparr>ps_escrow := []\<rparr>)"

definition snapshot_view :: "player_state \<Rightarrow> u64 \<times> (bytes32 \<times> u64) list \<times> bytes32 list" where
  "snapshot_view st = (ss_epoch (ps_session st), per_work_secs (ps_session st), ps_escrow st)"

text \<open>The two steps of \<open>save\<close> on a disk: write a sibling file, rename it over the target.\<close>

type_synonym 'f disk = "string \<Rightarrow> 'f option"

datatype 'f disk_step = WriteFile string 'f | RenameFile string string

definition disk_step :: "'f disk_step \<Rightarrow> 'f disk \<Rightarrow> 'f disk" where
  "disk_step step d =
     (case step of
        WriteFile path content \<Rightarrow> d(path := Some content)
      | RenameFile old new \<Rightarrow> (if old = new then d else d(new := d old, old := None)))"

definition save_steps :: "string \<Rightarrow> 'f \<Rightarrow> 'f disk_step list" where
  "save_steps path json =
     (let tmp = with_extension path ''tmp'' in [WriteFile tmp json, RenameFile tmp path])"

definition session_save ::
    "(player_state \<Rightarrow> string + 'f) \<Rightarrow> string \<Rightarrow> player_state \<Rightarrow> session_error + 'f disk_step list" where
  "session_save to_json path st =
     res_bind (map_err SessionParse (to_json st)) (\<lambda>json. Inr (save_steps path json))"

section \<open>Settling\<close>

definition build_openings :: "usage_entry list \<Rightarrow> (nat \<Rightarrow> bytes32) \<Rightarrow> usage_opening list" where
  "build_openings usage salt_fn =
     map (\<lambda>(i, u). \<lparr>op_work_id = ue_work_id u, op_minutes = ue_minutes u, op_plays = ue_plays u,
                    op_salt = salt_fn i\<rparr>) (enumerate 0 usage)"

definition player_disclosure :: "string \<Rightarrow> usage_opening list \<Rightarrow> bytes32 list \<Rightarrow> disclosure" where
  "player_disclosure user_addr openings escrow_works =
     \<lparr>dc_users = bt_insert (to_ascii_lowercase user_addr) openings [], dc_escrow_works = escrow_works\<rparr>"

datatype player_settle_error =
  Config player_config_error | BadContract | BadTier | Signer string | Rpc | Tx string | DisclosureIo string

datatype player_error =
  PlayerConfig player_config_error | Decode string | PlayerSession session_error
| PlayerSettle player_settle_error | BadWorkId bytes32_error | NothingToSettle | Usage

datatype player_effect =
    DiscloseTo string disclosure
  | SubmitConsumption string b32 "b32 list" "b32 list" "b32 list" "u256 list" b32 "u8 list"
  | SaveState string player_state

record ('j, 's, 'f) player_world =
  pw_recognizer :: "('j, 's) recognizer"
  pw_hex_decode :: "string \<Rightarrow> u8 list option"
  pw_modulus :: int
  pw_poseidon :: "fr list \<Rightarrow> fr"
  pw_in_temp_dir :: "string \<Rightarrow> string"
  pw_var :: "string \<Rightarrow> string option"
  pw_now_secs :: u64
  pw_decode :: "string \<Rightarrow> string + 's decoded_audio"
  pw_get_json :: "string \<Rightarrow> 'j option"
  pw_read :: "string \<Rightarrow> 'f file_read"
  pw_parse_state :: "'f \<Rightarrow> string + player_state"
  pw_address_of :: "string \<Rightarrow> string + string"
  pw_is_url :: "string \<Rightarrow> bool"
  pw_is_address :: "string \<Rightarrow> bool"
  pw_parse_b256 :: "string \<Rightarrow> b32 option"
  pw_salt :: "nat \<Rightarrow> bytes32"

definition signer_address :: "(string \<Rightarrow> string + string) \<Rightarrow> string \<Rightarrow> player_settle_error + string" where
  "signer_address address_of pk = map_err Signer (address_of pk)"

definition commitments_of :: "int \<Rightarrow> (fr list \<Rightarrow> fr) \<Rightarrow> usage_opening list \<Rightarrow> b32 list" where
  "commitments_of p poseidon_hash openings =
     map (\<lambda>o_c. as_bytes (commitment_bytes (opening_commit p poseidon_hash o_c))) openings"

type_synonym 'a player_job = "(player_effect, player_error, 'a) job"

definition submit_consumption ::
    "('j, 's, 'f) player_world \<Rightarrow> (player_effect \<Rightarrow> player_error + unit) \<Rightarrow> player_config
     \<Rightarrow> usage_opening list \<Rightarrow> unit player_job" where
  "submit_consumption w send cfg openings =
     job_bind (job_lift (map_err (\<lambda>e. PlayerSettle (Config e)) (require_chain cfg))) (\<lambda>(pk, cons, tier_id).
     job_bind (job_lift (map_err PlayerSettle (signer_address (pw_address_of w) pk))) (\<lambda>_.
     job_bind (job_lift (if pw_is_url w (pc_rpc_url cfg) then Inr () else Inl (PlayerSettle Rpc))) (\<lambda>_.
     job_bind (job_lift (if pw_is_address w cons then Inr () else Inl (PlayerSettle BadContract))) (\<lambda>_.
     job_bind (job_lift (ok_or (PlayerSettle BadTier) (pw_parse_b256 w tier_id))) (\<lambda>tier.
     let commitments = commitments_of (pw_modulus w) (pw_poseidon w) openings;
         pseudonyms = commitments; work_ids = commitments; weights = map (\<lambda>_. 1) commitments
     in perform send (SubmitConsumption cons tier commitments pseudonyms work_ids weights (replicate 32 0) []))))))"

section \<open>The commands\<close>

datatype player_output =
  Unrecognised | Blocked resolved_work | Accrued resolved_work u64 | FingerprintText string
| StatusView u64 "(bytes32 \<times> u64) list" "bytes32 list" | Settled nat

definition load_config :: "('j, 's, 'f) player_world \<Rightarrow> player_error + player_config" where
  "load_config w = map_err PlayerConfig (player_config_from_map (pw_in_temp_dir w) (pw_var w))"

definition load_session :: "('j, 's, 'f) player_world \<Rightarrow> player_config \<Rightarrow> player_error + player_state" where
  "load_session w cfg =
     map_err PlayerSession (session_load (pw_parse_state w) (pw_read w (pc_state_path cfg)) (pw_now_secs w))"

definition cmd_play ::
    "('j, 's, 'f) player_world \<Rightarrow> (player_effect \<Rightarrow> player_error + unit) \<Rightarrow> string \<Rightarrow> player_output player_job" where
  "cmd_play w send path =
     job_bind (job_lift (load_config w)) (\<lambda>cfg.
     job_bind (job_lift (map_err Decode (pw_decode w path))) (\<lambda>audio.
     case recognize (pw_recognizer w) (pc_hub_url cfg) audio (pw_get_json w) of
       None \<Rightarrow> job_lift (Inr Unrecognised)
     | Some work \<Rightarrow>
         if \<not> policy_allows (rk_price_per_min work) (pc_threshold cfg) then job_lift (Inr (Blocked work))
         else
           job_bind (job_lift (map_err BadWorkId (bytes32_from_str (pw_hex_decode w) (rk_work_id work)))) (\<lambda>work_id.
           let secs = duration_secs audio in
           job_bind (job_lift (load_session w cfg)) (\<lambda>session.
           job_bind (perform send (SaveState (pc_state_path cfg)
               (session_accrue (rz_hex_encode (pw_recognizer w)) work_id secs (rk_tier work = FingerprintTier) session))) (\<lambda>_.
           job_lift (Inr (Accrued work secs)))))))"

definition cmd_fingerprint :: "('j, 's, 'f) player_world \<Rightarrow> string \<Rightarrow> player_output player_job" where
  "cmd_fingerprint w path =
     job_bind (job_lift (map_err Decode (pw_decode w path))) (\<lambda>audio.
     job_lift (Inr (FingerprintText (fp_to_string (rz_hex_encode (pw_recognizer w))
       (rz_compute (pw_recognizer w) (da_samples audio) (da_sample_rate audio))))))"

definition cmd_status :: "('j, 's, 'f) player_world \<Rightarrow> player_output player_job" where
  "cmd_status w =
     job_bind (job_lift (load_config w)) (\<lambda>cfg.
     job_bind (job_lift (load_session w cfg)) (\<lambda>session.
     job_lift (Inr (case snapshot_view session of (epoch, work_secs, bound) \<Rightarrow> StatusView epoch work_secs bound))))"

definition cmd_settle ::
    "('j, 's, 'f) player_world \<Rightarrow> (player_effect \<Rightarrow> player_error + unit) \<Rightarrow> player_output player_job" where
  "cmd_settle w send =
     job_bind (job_lift (load_config w)) (\<lambda>cfg.
     job_bind (job_lift (load_session w cfg)) (\<lambda>session.
     case flush_usage session of (usage, session1) \<Rightarrow>
       if usage = [] then job_lift (Inl NothingToSettle)
       else
         let openings = build_openings usage (pw_salt w) in
         case take_escrow_works session1 of (escrow_works, session2) \<Rightarrow>
           job_bind (job_lift (map_err PlayerConfig (require_chain cfg))) (\<lambda>(pk, _, _).
           job_bind (job_lift (map_err PlayerSettle (signer_address (pw_address_of w) pk))) (\<lambda>user_addr.
           job_bind (perform send (DiscloseTo (pc_disclosure_path cfg)
               (player_disclosure user_addr openings escrow_works))) (\<lambda>_.
           job_bind (submit_consumption w send cfg openings) (\<lambda>_.
           job_bind (perform send (SaveState (pc_state_path cfg) session2)) (\<lambda>_.
           job_lift (Inr (Settled (length openings))))))))))"

definition player_main ::
    "('j, 's, 'f) player_world \<Rightarrow> (player_effect \<Rightarrow> player_error + unit) \<Rightarrow> string list \<Rightarrow> player_output player_job" where
  "player_main w send args =
     (case args of
        [] \<Rightarrow> job_lift (Inl Usage)
      | cmd # rest \<Rightarrow>
          if cmd = ''play'' then (case rest of path # _ \<Rightarrow> cmd_play w send path | [] \<Rightarrow> job_lift (Inl Usage))
          else if cmd = ''status'' then cmd_status w
          else if cmd = ''settle'' then cmd_settle w send
          else if cmd = ''fingerprint'' then
            (case rest of path # _ \<Rightarrow> cmd_fingerprint w path | [] \<Rightarrow> job_lift (Inl Usage))
          else job_lift (Inl Usage))"

section \<open>Accounting of plays\<close>

text \<open>A play: the work, the seconds of the file and whether only the fingerprint matched.\<close>

type_synonym play = "bytes32 \<times> u64 \<times> bool"

definition fresh_state :: "u64 \<Rightarrow> player_state" where
  "fresh_state now = \<lparr>ps_session = session_new now, ps_escrow = []\<rparr>"

definition accrue_all :: "(u8 list \<Rightarrow> string) \<Rightarrow> play list \<Rightarrow> player_state \<Rightarrow> player_state" where
  "accrue_all hex_encode plays st = foldl (\<lambda>st (w, secs, fp). session_accrue hex_encode w secs fp st) st plays"

definition seconds_of :: "play list \<Rightarrow> bytes32 \<Rightarrow> nat" where
  "seconds_of plays w = (\<Sum>(w', secs, _)\<leftarrow>plays. if w' = w then unat secs else 0)"

definition plays_of :: "play list \<Rightarrow> bytes32 \<Rightarrow> nat" where
  "plays_of plays w = length (List.filter (\<lambda>(w', _). w' = w) plays)"

text \<open>An accrual is three events of the session store.\<close>

fun play_events :: "(u8 list \<Rightarrow> string) \<Rightarrow> play \<Rightarrow> session_event list" where
  "play_events hex_encode (w, secs, fp) =
     (let sid = ''play:'' @ bytes32_to_string hex_encode w in [Start sid w, AddTime sid secs, Stop sid])"

lemma session_accrue_events:
  "session_accrue hex_encode w secs fp st =
     \<lparr>ps_session = session_run (play_events hex_encode (w, secs, fp)) (ps_session st),
      ps_escrow = (if fp then bs_insert w (ps_escrow st) else ps_escrow st)\<rparr>"
  by (simp add: session_accrue_def Let_def session_step_def)

lemma accrue_all_session:
  "ps_session (accrue_all hex_encode plays st)
     = session_run (concat (map (play_events hex_encode) plays)) (ps_session st)"
  unfolding accrue_all_def
  by (induction plays arbitrary: st) (auto simp: session_accrue_events session_run_append)

lemma accrue_all_escrow:
  "set (ps_escrow (accrue_all hex_encode plays st))
     = set (ps_escrow st) \<union> {w. \<exists>secs. (w, secs, True) \<in> set plays}"
  unfolding accrue_all_def
  by (induction plays arbitrary: st) (auto simp: session_accrue_events split: if_splits)

lemma spec_plays_events: "spec_plays (play_events hex_encode x @ es) w = (if fst x = w then 1 else 0) + spec_plays es w"
  by (cases x) (simp add: Let_def)

lemma spec_secs_events:
  "spec_secs act (play_events hex_encode (w', secs, fp) @ es) w =
     (if w' = w then unat secs else 0) + spec_secs (act(''play:'' @ bytes32_to_string hex_encode w' := None)) es w"
  by (simp add: Let_def)

lemma spec_plays_all: "spec_plays (concat (map (play_events hex_encode) plays)) w = plays_of plays w"
  by (induction plays) (auto simp: spec_plays_events plays_of_def)

lemma spec_secs_all: "spec_secs act (concat (map (play_events hex_encode) plays)) w = seconds_of plays w"
proof (induction plays arbitrary: act)
  case (Cons x plays)
  obtain w' secs fp where x: "x = (w', secs, fp)" by (cases x) auto
  show ?case unfolding x list.map concat.simps spec_secs_events Cons.IH by (simp add: seconds_of_def)
qed (simp add: seconds_of_def)

lemma plays_accounted:
  "let st = accrue_all hex_encode plays (fresh_state now); usage = fst (flush_usage st)
   in sorted_wrt (<) (map ue_work_id usage)
    \<and> (e \<in> set usage \<longleftrightarrow>
         unat (ue_minutes e) = min (seconds_of plays (ue_work_id e)) U64_MAX div 60 \<and> ue_minutes e \<noteq> 0
       \<and> unat (ue_plays e) = min (plays_of plays (ue_work_id e)) U64_MAX)
    \<and> 0 \<notin> ue_plays ` set usage
    \<and> set (fst (take_escrow_works st)) = {w. \<exists>secs. (w, secs, True) \<in> set plays}"
proof -
  let ?es = "concat (map (play_events hex_encode) plays)"
  have s: "ps_session (accrue_all hex_encode plays (fresh_state now)) = session_run ?es (session_new now)"
    by (simp add: accrue_all_session fresh_state_def)
  have u: "fst (flush_usage (accrue_all hex_encode plays (fresh_state now)))
      = fst (session_flush (session_run ?es (session_new now)))"
    by (simp add: flush_usage_def s split: prod.splits)
  show ?thesis
    using flush_accounts [of ?es now e] unfolding Let_def u
    by (simp add: spec_plays_all spec_secs_all take_escrow_works_def accrue_all_escrow) (simp add: fresh_state_def)
qed

text \<open>C31: what the player accounts. After any plays since the last settlement, flushing gives, ordered by
  work, one entry for each work played for at least a minute in total: its minutes are the seconds of
  its files, floored, and its plays the number of times it was played, at least one; the works to
  escrow are those that some play recognised by fingerprint, whatever its other plays were.\<close>
theorem player_accounting:
  "let st = accrue_all hex_encode plays (fresh_state now); usage = fst (flush_usage st)
   in sorted_wrt (<) (map ue_work_id usage)
    \<and> (e \<in> set usage \<longleftrightarrow>
         unat (ue_minutes e) = min (seconds_of plays (ue_work_id e)) U64_MAX div 60 \<and> ue_minutes e \<noteq> 0
       \<and> unat (ue_plays e) = min (plays_of plays (ue_work_id e)) U64_MAX)
    \<and> 0 \<notin> ue_plays ` set usage
    \<and> set (fst (take_escrow_works st)) = {w. \<exists>secs. (w, secs, True) \<in> set plays}"
  by (rule plays_accounted)

section \<open>The state across invocations\<close>

text \<open>Sessions of the player are never left open, and whatever has seconds has a play.\<close>

definition player_ok :: "player_state \<Rightarrow> bool" where
  "player_ok st \<longleftrightarrow>
     session_wf (ps_session st) \<and> bs_wf (ps_escrow st) \<and> ss_active (ps_session st) = []
     \<and> (\<forall>e \<in> set (per_work_secs (ps_session st)). 1 \<le> unat (bt_get_or 0 (per_work_plays (ps_session st)) (fst e)))"

definition saved_state :: "player_effect \<Rightarrow> player_state option" where
  "saved_state o_c = (case o_c of SaveState _ st \<Rightarrow> Some st | _ \<Rightarrow> None)"

text \<open>The states the state file can hold: each is saved by a command that loaded one of them, or that
  found no file. Between invocations of a player everything outside it may change.\<close>

inductive player_reaches :: "('j, 's, 'f) player_world \<Rightarrow> player_state \<Rightarrow> bool" for player where
  fresh: "player_reaches player (fresh_state now)"
| saved: "\<lbrakk>player_reaches player st;
    w = player\<lparr>pw_now_secs := now, pw_var := var, pw_decode := dec, pw_get_json := js, pw_read := rd, pw_salt := salt\<rparr>;
    load_config w = Inr cfg; load_session w cfg = Inr st;
    o_c \<in> set (fst (player_main w send args [])); saved_state o_c = Some st'\<rbrakk> \<Longrightarrow> player_reaches player st'"

lemma bs_wf_accrue: "bs_wf (ps_escrow st) \<Longrightarrow> bs_wf (ps_escrow (session_accrue hex_encode w secs fp st))"
  by (simp add: session_accrue_events)

lemma player_ok_fresh: "player_ok (fresh_state now)"
  by (simp add: player_ok_def fresh_state_def session_new_wf) (simp add: session_new_def)

lemma player_ok_accrue:
  assumes "player_ok st"
  shows "player_ok (session_accrue hex_encode w secs fp st)"
proof -
  let ?s = "ps_session st" and ?s' = "ps_session (session_accrue hex_encode w secs fp st)"
  from assms have wf: "session_wf ?s" "bs_wf (ps_escrow st)" "ss_active ?s = []"
    and pl: "\<And>e. e \<in> set (per_work_secs ?s) \<Longrightarrow> 1 \<le> unat (bt_get_or 0 (per_work_plays ?s) (fst e))"
    by (auto simp: player_ok_def)
  have run: "?s' = session_run (play_events hex_encode (w, secs, fp)) ?s" by (simp add: session_accrue_events)
  have wf': "session_wf ?s'" unfolding run by (rule session_run_wf [OF wf(1)])
  have act: "ss_active ?s' = []"
    by (simp add: session_accrue_def Let_def session_start_def session_add_time_def session_stop_def wf(3)
        split: option.splits)
  have "1 \<le> unat (bt_get_or 0 (per_work_plays ?s') v)" if "(v, x) \<in> set (per_work_secs ?s')" for v x
  proof (cases "v = w")
    case True
    then show ?thesis
      using run_plays [OF wf(1), of "play_events hex_encode (w, secs, fp)" w]
      by (simp add: run Let_def U64_MAX_def)
  next
    case False
    from that wf' have "bt_get (per_work_secs ?s') v = Some x"
      by (simp add: bt_entries_get session_wf_def)
    with False have "bt_get (per_work_secs ?s) v = Some x"
      by (simp add: session_accrue_def Let_def session_start_def session_add_time_def session_stop_def
          bt_get_update wf(3) split: option.splits if_splits)
    then have "(v, x) \<in> set (per_work_secs ?s)"
      using wf(1) bt_entries_get [of "per_work_secs ?s" v x] by (simp add: session_wf_def)
    from pl [OF this] have "1 \<le> unat (bt_get_or 0 (per_work_plays ?s) v)" by simp
    then show ?thesis
      using run_plays [OF wf(1), of "play_events hex_encode (w, secs, fp)" v] by (simp add: run Let_def U64_MAX_def)
  qed
  then show ?thesis
    using wf' act bs_wf_accrue [OF wf(2)] by (auto simp: player_ok_def)
qed

lemma player_ok_settled:
  assumes "player_ok st" and "flush_usage st = (usage, st1)" and "take_escrow_works st1 = (es, st2)"
  shows "player_ok st2"
  using assms
  by (auto simp: player_ok_def flush_usage_def take_escrow_works_def session_flush_def session_wf_def)

lemma player_flush_plays:
  assumes "player_ok st" and "u \<in> set (fst (flush_usage st))"
  shows "1 \<le> unat (ue_plays u) \<and> 1 \<le> unat (ue_minutes u)"
proof -
  from assms(1) have wf: "session_wf (ps_session st)" by (simp add: player_ok_def)
  have "fst (flush_usage st) = fst (session_flush (ps_session st))" by (simp add: flush_usage_def split: prod.splits)
  with assms(2) flush_entries [OF wf] obtain e where e: "e \<in> set (per_work_secs (ps_session st))"
      "snd e div 60 \<noteq> 0" "u = entry_of (per_work_plays (ps_session st)) e" by auto
  with assms(1) show ?thesis by (auto simp: player_ok_def entry_of_def Suc_le_eq unat_gt_0)
qed

text \<open>What a command saves.\<close>

lemma job_fst_cases:
  "fst (job_bind j k tr) = (case snd (j tr) of Inl _ \<Rightarrow> fst (j tr) | Inr x \<Rightarrow> fst (k x (fst (j tr))))"
  by (simp add: job_bind_def split: prod.splits sum.splits)

lemma fst_job_lift [simp]: "fst (job_lift r tr) = tr" "snd (job_lift r tr) = r"
  by (simp_all add: job_lift_def)

lemma play_effects:
  assumes "load_config w = Inr cfg" and "load_session w cfg = Inr st"
  shows "set (fst (cmd_play w send path [])) \<subseteq>
     {SaveState (pc_state_path cfg) (session_accrue (rz_hex_encode (pw_recognizer w)) wid secs fp st) | wid secs fp. True}"
  using assms
  by (auto simp: cmd_play_def job_fst_cases perform_def Let_def split: sum.splits option.splits)


lemma settle_effects:
  assumes "load_config w = Inr cfg" and "load_session w cfg = Inr st"
    and "flush_usage st = (usage, st1)" and "take_escrow_works st1 = (es, st2)"
    and "o_c \<in> set (fst (cmd_settle w send []))" and "saved_state o_c = Some st'"
  shows "st' = st2"
  using assms
  by (auto simp: cmd_settle_def submit_consumption_def job_fst_cases perform_def Let_def saved_state_def
      split: sum.splits option.splits prod.splits if_splits)

lemma main_saves:
  assumes "load_config w = Inr cfg" and "load_session w cfg = Inr st"
    and "o_c \<in> set (fst (player_main w send args []))" and "saved_state o_c = Some st'"
  shows "(\<exists>wid secs fp. st' = session_accrue (rz_hex_encode (pw_recognizer w)) wid secs fp st)
       \<or> (\<exists>usage st1 es. flush_usage st = (usage, st1) \<and> take_escrow_works st1 = (es, st'))"
proof -
  have quiet: "fst (cmd_status w []) = []" "fst (cmd_fingerprint w path []) = []" for path
    by (auto simp: cmd_status_def cmd_fingerprint_def job_fst_cases split: sum.splits prod.splits)
  from assms(3) consider path where "o_c \<in> set (fst (cmd_play w send path []))"
    | "o_c \<in> set (fst (cmd_settle w send []))"
    by (auto simp: player_main_def quiet split: list.splits if_splits)
  then show ?thesis
  proof cases
    case 1
    with play_effects [OF assms(1,2), of send path] obtain wid secs fp where
        "o_c = SaveState (pc_state_path cfg) (session_accrue (rz_hex_encode (pw_recognizer w)) wid secs fp st)" by blast
    with assms(4) show ?thesis by (auto simp: saved_state_def)
  next
    case 2
    obtain usage st1 where f: "flush_usage st = (usage, st1)" by fastforce
    obtain es st2 where t: "take_escrow_works st1 = (es, st2)" by fastforce
    from settle_effects [OF assms(1,2) f t 2 assms(4)] f t show ?thesis by blast
  qed
qed

lemma reaches_ok: "player_reaches player st \<Longrightarrow> player_ok st"
proof (induction rule: player_reaches.induct)
  case (fresh now)
  show ?case by (rule player_ok_fresh)
next
  case (saved st w now var dec js rd salt cfg o_c send args st')
  from main_saves [OF saved.hyps(3-6)] saved.IH show ?case
    by (auto intro: player_ok_accrue player_ok_settled)
qed

text \<open>C40: the player's invariant. In every state its commands can leave in the state file, no session is
  open, the maps and the escrow set are well formed, and every entry a settlement would disclose has
  at least one minute and at least one play, so the usage proof of each is possible.\<close>
theorem player_usage_provable:
  assumes "player_reaches player st"
  shows "ss_active (ps_session st) = [] \<and> session_wf (ps_session st) \<and> bs_wf (ps_escrow st)
       \<and> list_all (\<lambda>u. 1 \<le> unat (ue_minutes u) \<and> 1 \<le> unat (ue_plays u)) (fst (flush_usage st))"
proof -
  from reaches_ok [OF assms] have ok: "player_ok st" .
  then have "list_all (\<lambda>u. 1 \<le> unat (ue_minutes u) \<and> 1 \<le> unat (ue_plays u)) (fst (flush_usage st))"
    using player_flush_plays [OF ok] by (auto simp: list_all_iff)
  with ok show ?thesis by (simp add: player_ok_def)
qed

section \<open>The order of a settlement\<close>

definition settle_plan ::
    "('j, 's, 'f) player_world \<Rightarrow> player_config \<Rightarrow> player_state \<Rightarrow> string \<Rightarrow> string \<Rightarrow> b32 \<Rightarrow> player_effect list" where
  "settle_plan w cfg st user_addr cons tier =
     (let openings = build_openings (fst (flush_usage st)) (pw_salt w);
          commitments = commitments_of (pw_modulus w) (pw_poseidon w) openings
      in [DiscloseTo (pc_disclosure_path cfg) (player_disclosure user_addr openings (ps_escrow st)),
          SubmitConsumption cons tier commitments commitments commitments (map (\<lambda>_. 1) commitments) (replicate 32 0) [],
          SaveState (pc_state_path cfg) \<lparr>ps_session = snd (session_flush (ps_session st)), ps_escrow = []\<rparr>])"

lemma flush_then_take:
  "flush_usage st = (usage, st1) \<Longrightarrow>
     usage = fst (flush_usage st) \<and> take_escrow_works st1
       = (ps_escrow st, \<lparr>ps_session = snd (session_flush (ps_session st)), ps_escrow = []\<rparr>)"
  by (auto simp: flush_usage_def take_escrow_works_def split: prod.splits)


lemma settle_refused:
  assumes "\<And>cfg st pk cons tt addr. \<lbrakk>load_config w = Inr cfg; load_session w cfg = Inr st;
      fst (flush_usage st) \<noteq> []; require_chain cfg = Inr (pk, cons, tt); pw_address_of w pk = Inr addr\<rbrakk> \<Longrightarrow> False"
  shows "fst (cmd_settle w send []) = [] \<and> \<not> is_ok (snd (cmd_settle w send []))"
proof -
  note quiet = cmd_settle_def job_bind_def job_lift_def
  show ?thesis
  proof (cases "load_config w")
    case cfg: (Inr cfg)
    show ?thesis
    proof (cases "load_session w cfg")
      case st: (Inr st)
      obtain usage st1 where f: "flush_usage st = (usage, st1)" by fastforce
      note t = flush_then_take [OF f]
      show ?thesis
      proof (cases "usage = [] \<or> \<not> is_ok (require_chain cfg)")
        case True
        with cfg st t show ?thesis
          by (cases "require_chain cfg") (auto simp: quiet f Let_def)
      next
        case False
        then obtain pk cons tt where ch: "require_chain cfg = Inr (pk, cons, tt)" by (auto simp: is_ok_iff)
        show ?thesis
        proof (cases "pw_address_of w pk")
          case (Inl e)
          with cfg st t ch False show ?thesis by (simp add: quiet f Let_def signer_address_def)
        next
          case (Inr addr)
          with assms [OF cfg st _ ch Inr] t False show ?thesis by simp
        qed
      qed
    qed (simp add: quiet cfg)
  qed (simp add: quiet)
qed

text \<open>The part after the disclosure, with the checks before the transaction in one.\<close>

definition submit_ready :: "('j, 's, 'f) player_world \<Rightarrow> player_config \<Rightarrow> string \<Rightarrow> string \<Rightarrow> player_error + b32" where
  "submit_ready w cfg cons tier_text =
     res_bind (if pw_is_url w (pc_rpc_url cfg) then Inr () else Inl (PlayerSettle Rpc)) (\<lambda>_.
     res_bind (if pw_is_address w cons then Inr () else Inl (PlayerSettle BadContract)) (\<lambda>_.
     ok_or (PlayerSettle BadTier) (pw_parse_b256 w tier_text)))"

lemma length_build_openings [simp]: "length (build_openings usage salt) = length usage"
  by (simp add: build_openings_def)

lemma submit_shape:
  assumes "require_chain cfg = Inr (pk, cons, tt)" and "pw_address_of w pk = Inr addr"
  shows "submit_consumption w send cfg openings =
     job_bind (job_lift (submit_ready w cfg cons tt)) (\<lambda>tier.
       let cs = commitments_of (pw_modulus w) (pw_poseidon w) openings
       in perform send (SubmitConsumption cons tier cs cs cs (map (\<lambda>_. 1) cs) (replicate 32 0) []))"
  by (intro ext) (simp add: submit_consumption_def submit_ready_def assms signer_address_def job_lift_ok Let_def,
      simp add: job_bind_def job_lift_def)

lemma settle_shape:
  assumes "load_config w = Inr cfg" and "load_session w cfg = Inr st" and "fst (flush_usage st) \<noteq> []"
    and "require_chain cfg = Inr (pk, cons, tt)" and "pw_address_of w pk = Inr addr"
    and "\<And>tier. settle_plan w cfg st addr cons tier = [d, put tier, sv]"
  shows "cmd_settle w send [] =
     job_bind (perform send d) (\<lambda>_. job_bind (job_lift (submit_ready w cfg cons tt)) (\<lambda>tier.
     job_bind (perform send (put tier)) (\<lambda>_. job_bind (perform send sv) (\<lambda>_.
     job_lift (Inr (Settled (length (fst (flush_usage st))))))))) []"
proof -
  obtain usage st1 where f: "flush_usage st = (usage, st1)" by fastforce
  note t = flush_then_take [OF f]
  let ?ops = "build_openings (fst (flush_usage st)) (pw_salt w)"
  from assms(6) [of "[]"] have d: "d = DiscloseTo (pc_disclosure_path cfg) (player_disclosure addr ?ops (ps_escrow st))"
    and sv: "sv = SaveState (pc_state_path cfg) \<lparr>ps_session = snd (session_flush (ps_session st)), ps_escrow = []\<rparr>"
    by (simp_all add: settle_plan_def Let_def)
  have put: "put tier = (let cs = commitments_of (pw_modulus w) (pw_poseidon w) ?ops
        in SubmitConsumption cons tier cs cs cs (map (\<lambda>_. 1) cs) (replicate 32 0) [])" for tier
    using assms(6) [of tier] by (simp add: settle_plan_def Let_def)
  show ?thesis
    unfolding d sv put [unfolded Let_def]
    by (simp add: cmd_settle_def job_lift_ok assms(1,2,4,5) f Let_def signer_address_def)
      (use t assms(3) in \<open>simp add: job_lift_ok assms(1,2,4,5) signer_address_def Let_def job_bind_assoc
        submit_shape [OF assms(4,5)]\<close>)
qed

text \<open>C30: settling discloses before it submits. Whatever fails, the effects of \<open>settle\<close> are a prefix of:
  write the disclosure of the session's entries under the wallet's address, submit exactly the
  commitments of the disclosed openings, save the drained session. So no commitment goes on chain
  whose opening is not on disk, the session is drained only after the submission, and success means
  all three for at least one entry.\<close>
theorem settle_discloses_first:
  "\<exists>cfg st pk cons tier_text addr tier. prefix (fst (cmd_settle w send [])) (settle_plan w cfg st addr cons tier)
     \<and> (case fst (cmd_settle w send []) of [] \<Rightarrow> True
        | _ # rest \<Rightarrow> load_config w = Inr cfg \<and> load_session w cfg = Inr st \<and> fst (flush_usage st) \<noteq> []
            \<and> require_chain cfg = Inr (pk, cons, tier_text) \<and> pw_address_of w pk = Inr addr
            \<and> (case rest of [] \<Rightarrow> True | _ \<Rightarrow> pw_parse_b256 w tier_text = Some tier))
     \<and> (case snd (cmd_settle w send []) of Inl _ \<Rightarrow> True
        | Inr out \<Rightarrow> fst (cmd_settle w send []) = settle_plan w cfg st addr cons tier
            \<and> out = Settled (length (fst (flush_usage st))))"
proof (cases "\<exists>cfg st pk cons tt addr. load_config w = Inr cfg \<and> load_session w cfg = Inr st
    \<and> fst (flush_usage st) \<noteq> [] \<and> require_chain cfg = Inr (pk, cons, tt) \<and> pw_address_of w pk = Inr addr")
  case False
  then have "fst (cmd_settle w send []) = [] \<and> \<not> is_ok (snd (cmd_settle w send []))"
    by (intro settle_refused) blast
  then show ?thesis by (auto simp: is_ok_def split: sum.splits)
next
  case True
  then obtain cfg st pk cons tt addr where ok: "load_config w = Inr cfg" "load_session w cfg = Inr st"
      "fst (flush_usage st) \<noteq> []" "require_chain cfg = Inr (pk, cons, tt)" "pw_address_of w pk = Inr addr" by blast
  obtain d put sv where plan: "\<And>tier. settle_plan w cfg st addr cons tier = [d, put tier, sv]"
    by (simp add: settle_plan_def Let_def)
  note shape = settle_shape [OF ok plan, of send]
  show ?thesis
  proof (cases "submit_ready w cfg cons tt")
    case (Inl e)
    have "fst (cmd_settle w send []) = (if is_ok (send d) then [d] else []) \<and> \<not> is_ok (snd (cmd_settle w send []))"
      unfolding shape by (cases "send d") (simp_all add: job_bind_def job_lift_def perform_def Inl)
    then show ?thesis
      using ok plan by (intro exI [of _ cfg] exI [of _ st] exI [of _ pk] exI [of _ cons] exI [of _ tt] exI [of _ addr]
          exI [of _ "[]"]) (simp add: is_ok_def split: sum.splits)
  next
    case (Inr tier)
    then have tier: "pw_parse_b256 w tt = Some tier"
      by (auto simp: submit_ready_def res_bind_eq_Inr ok_or_eq_Inr split: if_splits)
    let ?tr = "fst (cmd_settle w send [])" and ?out = "Settled (length (fst (flush_usage st)))"
    have "?tr \<in> {[], [d], [d, put tier]} \<and> \<not> is_ok (snd (cmd_settle w send []))
        \<or> ?tr = [d, put tier, sv] \<and> (\<not> is_ok (snd (cmd_settle w send [])) \<or> snd (cmd_settle w send []) = Inr ?out)"
      unfolding shape
      by (cases "send d"; cases "send (put tier)"; cases "send sv")
        (simp_all add: job_bind_def job_lift_def perform_def Inr)
    then show ?thesis
      using ok plan tier by (intro exI [of _ cfg] exI [of _ st] exI [of _ pk] exI [of _ cons] exI [of _ tt]
          exI [of _ addr] exI [of _ tier]) (auto simp: is_ok_def split: sum.splits)
  qed
qed

section \<open>Interrupted saves\<close>

text \<open>The disks a crash can leave: some steps done, the next possibly half done, with any content in
  the file being written.\<close>

inductive interrupted :: "'f disk_step list \<Rightarrow> 'f disk \<Rightarrow> 'f disk \<Rightarrow> bool" where
  before: "interrupted steps d d"
| during: "interrupted (WriteFile path content # steps) d (d(path := Some torn))"
| after_step: "interrupted steps (disk_step step d) d' \<Longrightarrow> interrupted (step # steps) d d'"

inductive_cases interrupted_NilE: "interrupted [] d d'"
inductive_cases interrupted_ConsE: "interrupted (step # steps) d d'"

text \<open>Saving is atomic unless the state file is itself named like its temporary sibling. Wherever a
  crash interrupts the two steps, the state file holds either what it held or the whole new state.\<close>
theorem save_is_atomic:
  assumes "session_save to_json path st = Inr steps" and "with_extension path ''tmp'' \<noteq> path"
    and "interrupted steps d d'"
  shows "d' path = d path \<or> (\<exists>json. to_json st = Inr json \<and> d' path = Some json)"
proof -
  from assms(1) obtain json where json: "to_json st = Inr json" "steps = save_steps path json"
    by (auto simp: session_save_def res_bind_eq_Inr map_err_eq_Inr)
  from assms(3) assms(2) show ?thesis
    unfolding json(2) save_steps_def Let_def
    by (auto simp: json(1) disk_step_def elim!: interrupted_ConsE interrupted_NilE)
qed

definition demo_disk :: "nat disk" where
  "demo_disk = (\<lambda>_. None)(''s.json'' := Some 1)"

theorem save_is_atomic_witness:
  "(demo_disk(''s.tmp'' := Some 7)) ''s.json'' = Some 1"
proof -
  have save: "session_save (\<lambda>_. Inr 2) ''s.json'' (fresh_state 0) = Inr (save_steps ''s.json'' (2::nat))"
    by (simp add: session_save_def)
  have ext: "with_extension ''s.json'' ''tmp'' = ''s.tmp''" by code_simp
  then have "interrupted (save_steps ''s.json'' (2::nat)) demo_disk (demo_disk(''s.tmp'' := Some 7))"
    by (simp add: save_steps_def Let_def interrupted.during)
  from save_is_atomic [OF save _ this] ext show ?thesis by (auto simp: demo_disk_def)
qed

text \<open>Without that exception it is not: a state file named with the extension \<open>tmp\<close> is written in place.\<close>

lemma save_in_place:
  "with_extension ''s.tmp'' ''tmp'' = ''s.tmp''
   \<and> interrupted (save_steps ''s.tmp'' json) d (d(''s.tmp'' := Some torn))"
proof -
  have "with_extension ''s.tmp'' ''tmp'' = ''s.tmp''" by code_simp
  then show ?thesis by (simp add: save_steps_def Let_def interrupted.during)
qed

section \<open>Concrete runs\<close>

definition demo_recognizer :: "(nat, nat) recognizer" where
  "demo_recognizer = \<lparr>rz_json = \<lparr>js_null = 0, js_get = (\<lambda>v k. if k = ''work_id'' then Some 1 else Some 5),
       js_as_str = (\<lambda>v. if v = 1 then Some (''0x'' @ hex_string (replicate 32 1)) else None),
       js_as_u64 = (\<lambda>v. if v = 5 then Some 5 else None)\<rparr>,
     rz_hex_encode = hex_string, rz_keccak256 = (\<lambda>_. replicate 32 0),
     rz_compute = (\<lambda>_ _. Fingerprint (replicate 32 0))\<rparr>"

definition demo_world :: "('j, nat) recognizer \<Rightarrow> (string \<Rightarrow> 'j option) \<Rightarrow> ('j, nat, player_state) player_world" where
  "demo_world rz get_json = \<lparr>pw_recognizer = rz, pw_hex_decode = decode_hex, pw_modulus = 101,
     pw_poseidon = (\<lambda>_. 0), pw_in_temp_dir = (\<lambda>f. f), pw_var = (\<lambda>k. Some (if k = ''THRESHOLD'' then ''9'' else k)),
     pw_now_secs = 0,
     pw_decode = (\<lambda>_. Inr \<lparr>da_bytes = [1], da_samples = replicate 150 0, da_sample_rate = 1\<rparr>),
     pw_get_json = get_json, pw_read = (\<lambda>_. NotFound), pw_parse_state = Inr, pw_address_of = Inr,
     pw_is_url = (\<lambda>_. True), pw_is_address = (\<lambda>_. True), pw_parse_b256 = (\<lambda>_. Some (replicate 32 0)),
     pw_salt = (\<lambda>_. Bytes32 (replicate 32 3))\<rparr>"

definition demo_player :: "(nat, nat, player_state) player_world" where
  "demo_player = demo_world demo_recognizer (\<lambda>_. Some 2)"

definition demo_work_id :: bytes32 where
  "demo_work_id = Bytes32 (replicate 32 1)"

lemma demo_recognizes:
  "recognize demo_recognizer url audio (\<lambda>_. Some 2)
     = Some \<lparr>rk_work_id = bytes32_to_string hex_string demo_work_id, rk_price_per_min = 5, rk_tier = SignedTier\<rparr>"
  by (simp add: recognize_def demo_recognizer_def parse_work_def Let_def bytes32_to_string_def demo_work_id_def)

definition demo_cfg :: player_config where
  "demo_cfg = \<lparr>pc_hub_url = ''HUB_URL'', pc_rpc_url = ''RPC_URL'', pc_private_key = Some ''PRIVATE_KEY'',
     pc_consumption = Some ''CONSUMPTION'', pc_tier_id = Some ''TIER_ID'', pc_threshold = Some 9,
     pc_state_path = ''STATE'', pc_disclosure_path = ''DISCLOSURE''\<rparr>"

lemma demo_config: "load_config (demo_world rz get_json) = Inr demo_cfg"
proof -
  have "parse_u64 ''9'' = Some 9" by code_simp
  then show ?thesis
    by (simp add: load_config_def player_config_from_map_def demo_world_def demo_cfg_def or_default_def Let_def)
qed

lemma demo_session: "load_session (demo_world rz get_json) cfg = Inr (fresh_state 0)"
  by (simp add: load_session_def session_load_def demo_world_def fresh_state_def)

lemma demo_fields:
  "pw_decode (demo_world rz get_json) f = Inr \<lparr>da_bytes = [1], da_samples = replicate 150 0, da_sample_rate = 1\<rparr>"
  "pw_get_json (demo_world rz get_json) = get_json" "pw_recognizer (demo_world rz get_json) = rz"
  "pw_hex_decode (demo_world rz get_json) = decode_hex"
  by (simp_all add: demo_world_def)

lemma demo_play:
  assumes "recognize rz ''HUB_URL'' \<lparr>da_bytes = [1], da_samples = replicate 150 0, da_sample_rate = 1\<rparr> get_json
      = Some \<lparr>rk_work_id = bytes32_to_string hex_string demo_work_id, rk_price_per_min = 5, rk_tier = SignedTier\<rparr>"
    and "rz_hex_encode rz = hex_string"
  shows "cmd_play (demo_world rz get_json) (\<lambda>_. Inr ()) song []
     = ([SaveState ''STATE'' (session_accrue hex_string demo_work_id 150 False (fresh_state 0))],
        Inr (Accrued \<lparr>rk_work_id = bytes32_to_string hex_string demo_work_id, rk_price_per_min = 5, rk_tier = SignedTier\<rparr> 150))"
proof -
  have id: "bytes32_from_str decode_hex (bytes32_to_string hex_string demo_work_id) = Inr demo_work_id"
    by (rule hex.from_str_to_string) (simp add: b32_ok_def demo_work_id_def)
  have cfg: "pc_hub_url demo_cfg = ''HUB_URL''" "pc_threshold demo_cfg = Some 9" "pc_state_path demo_cfg = ''STATE''"
    by (simp_all add: demo_cfg_def)
  show ?thesis
    by (simp add: cmd_play_def demo_config demo_session job_lift_ok demo_fields cfg assms id
        policy_allows_def duration_secs_def Let_def perform_def job_bind_def job_lift_def)
qed

theorem player_usage_provable_witness:
  "list_all (\<lambda>u. 1 \<le> unat (ue_minutes u) \<and> 1 \<le> unat (ue_plays u))
     (fst (flush_usage (session_accrue hex_string demo_work_id 150 False (fresh_state 0))))"
proof -
  let ?st' = "session_accrue hex_string demo_work_id 150 False (fresh_state 0)"
  have play: "cmd_play demo_player (\<lambda>_. Inr ()) ''song'' [] = ([SaveState ''STATE'' ?st'],
      Inr (Accrued \<lparr>rk_work_id = bytes32_to_string hex_string demo_work_id, rk_price_per_min = 5, rk_tier = SignedTier\<rparr> 150))"
    unfolding demo_player_def by (rule demo_play [OF demo_recognizes]) (simp add: demo_recognizer_def)
  have "player_reaches demo_player ?st'"
  proof (rule player_reaches.saved [where w = demo_player and now = "pw_now_secs demo_player" and var = "pw_var demo_player"
          and dec = "pw_decode demo_player" and js = "pw_get_json demo_player" and rd = "pw_read demo_player"
          and salt = "pw_salt demo_player" and send = "\<lambda>_. Inr ()" and args = "[''play'', ''song'']",
          OF player_reaches.fresh [of _ 0]])
    show "load_config demo_player = Inr demo_cfg" unfolding demo_player_def by (rule demo_config)
    show "load_session demo_player demo_cfg = Inr (fresh_state 0)" unfolding demo_player_def by (rule demo_session)
    show "SaveState ''STATE'' ?st' \<in> set (fst (player_main demo_player (\<lambda>_. Inr ()) [''play'', ''song''] []))"
      by (simp add: player_main_def play)
  qed (simp_all add: saved_state_def)
  from player_usage_provable [OF this] show ?thesis by blast
qed

section \<open>The hub as the player sees it\<close>

text \<open>A GET against the hub's routes: the body of a success, nothing otherwise.\<close>

definition hub_get_json ::
    "('sig, 'f) hub_env \<Rightarrow> (resolved \<Rightarrow> 'j) \<Rightarrow> (summary \<times> rat \<Rightarrow> 'j) \<Rightarrow> hub_index \<Rightarrow> string \<Rightarrow> string \<Rightarrow> 'j option" where
  "hub_get_json env resolved_json candidate_json ix base url =
     (case strip_prefix (content_url base []) url of
        Some cid \<Rightarrow>
          (case resolve_content_handler env ix cid of Reply _ r \<Rightarrow> Some (resolved_json r) | Fail _ _ \<Rightarrow> None)
      | None \<Rightarrow>
          (case strip_prefix (fingerprint_url base []) url of
             Some fp \<Rightarrow>
               (case resolve_fingerprint_handler env ix fp None of
                  Reply _ found \<Rightarrow> Some (candidate_json found) | Fail _ _ \<Rightarrow> None)
           | None \<Rightarrow> None))"

lemma content_url_prefix: "strip_prefix (content_url base []) (content_url base cid) = Some cid"
  using strip_prefix_append [of "content_url base []" cid] by (simp add: content_url_def)

lemma fingerprint_url_prefix:
  "strip_prefix (content_url base []) (fingerprint_url base fp) = None"
  "strip_prefix (fingerprint_url base []) (fingerprint_url base fp) = Some fp"
proof -
  have "\<not> (\<exists>r. fingerprint_url base fp = content_url base [] @ r)" by (simp add: fingerprint_url_def content_url_def)
  then show "strip_prefix (content_url base []) (fingerprint_url base fp) = None"
    by (metis not_None_eq strip_prefix_Some)
  show "strip_prefix (fingerprint_url base []) (fingerprint_url base fp) = Some fp"
    using strip_prefix_append [of "fingerprint_url base []" fp] by (simp add: fingerprint_url_def)
qed

text \<open>What the encodings of the two answers must show the player.\<close>

definition shows_work :: "(u8 list \<Rightarrow> string) \<Rightarrow> 'j json_api \<Rightarrow> 'j \<Rightarrow> bytes32 \<Rightarrow> u64 \<Rightarrow> bool" where
  "shows_work hex_encode js v work_id price \<longleftrightarrow>
     (\<exists>a b. js_get js v ''work_id'' = Some a \<and> js_as_str js a = Some (bytes32_to_string hex_encode work_id)
        \<and> js_get js v ''price_per_min'' = Some b \<and> js_as_u64 js b = Some price)"

lemma parse_shown:
  "shows_work hex_encode js v work_id price \<Longrightarrow>
     parse_work js v tier = Some \<lparr>rk_work_id = bytes32_to_string hex_encode work_id, rk_price_per_min = price, rk_tier = tier\<rparr>"
  by (auto simp: shows_work_def parse_work_def)

text \<open>The work the two tiers find in the index.\<close>

definition found_by_content :: "hub_index \<Rightarrow> bytes32 \<Rightarrow> manifest \<Rightarrow> bool" where
  "found_by_content ix cid m \<longleftrightarrow> index_manifest ix (wm_work_id m) = Some m \<and> wm_content_id m = cid"

definition found_by_fingerprint :: "(string \<Rightarrow> u8 list option) \<Rightarrow> hub_index \<Rightarrow> fingerprint \<Rightarrow> manifest \<Rightarrow> bool" where
  "found_by_fingerprint hex_decode ix fp m \<longleftrightarrow>
     index_manifest ix (wm_work_id m) = Some m
     \<and> (\<exists>c. fp_parse hex_decode (wm_fingerprint m) = Inr c \<and> compare_fp fp c > FP_MATCH_THRESHOLD)"

lemma recognize_in_hub:
  assumes codec: "sized_hex_codec (rz_hex_encode rz) (he_hex_decode env)" and ok: "index_ok (he_hex_decode env) ix"
    and "length (rz_keccak256 rz (da_bytes audio)) = 32" and "fp_ok (rz_compute rz (da_samples audio) (da_sample_rate audio))"
    and enc_r: "\<And>r. shows_work (rz_hex_encode rz) (rz_json rz) (resolved_json r) (rs_work_id r) (rs_price_per_min r)"
    and enc_c: "\<And>s sim. \<exists>v. js_get (rz_json rz) (candidate_json (s, sim)) ''candidate'' = Some v
        \<and> shows_work (rz_hex_encode rz) (rz_json rz) v (su_work_id s) (su_price_per_min s)"
    and "transport = hub_get_json env resolved_json candidate_json ix (trim_end_slash hub_url)"
    and "recognize rz hub_url audio transport = Some work"
  shows "\<exists>m. rk_work_id work = bytes32_to_string (rz_hex_encode rz) (wm_work_id m)
     \<and> rk_price_per_min work = wm_price_per_min m
     \<and> (case rk_tier work of
          SignedTier \<Rightarrow> found_by_content ix (Bytes32 (rz_keccak256 rz (da_bytes audio))) m
        | FingerprintTier \<Rightarrow>
            found_by_fingerprint (he_hex_decode env) ix (rz_compute rz (da_samples audio) (da_sample_rate audio)) m
            \<and> \<not> (\<exists>m'. found_by_content ix (Bytes32 (rz_keccak256 rz (da_bytes audio))) m'))"
proof -
  let ?cid = "Bytes32 (rz_keccak256 rz (da_bytes audio))"
    and ?fp = "rz_compute rz (da_samples audio) (da_sample_rate audio)" and ?dec = "he_hex_decode env"
    and ?enc = "rz_hex_encode rz" and ?js = "rz_json rz"
  note hexc = sized_hex_codec.axioms(1) [OF codec]
  have cid: "resolve_content_handler env ix (bytes32_to_string ?enc ?cid) =
      (case index_resolve_content ix ?cid of None \<Rightarrow> Fail 404 ''content id not found'' | Some r \<Rightarrow> Reply 200 r)"
    using hex_codec.from_str_to_string [OF hexc, of ?cid] assms(3) by (simp add: resolve_content_handler_def b32_ok_def)
  have fp: "resolve_fingerprint_handler env ix (fp_to_string ?enc ?fp) None =
      (case nearest_fingerprint ?dec ix ?fp FP_MATCH_THRESHOLD of
         None \<Rightarrow> Fail 404 ''no fingerprint match above threshold'' | Some found \<Rightarrow> Reply 200 found)"
    using sized_hex_codec.parse_to_string [OF codec assms(4)]
    by (simp add: resolve_fingerprint_handler_def or_default_def)
  have t1: "transport (content_url (trim_end_slash hub_url) (bytes32_to_string ?enc ?cid))
      = map_option resolved_json (index_resolve_content ix ?cid)"
    by (simp add: assms(7) hub_get_json_def content_url_prefix cid split: option.split)
  have t2: "transport (fingerprint_url (trim_end_slash hub_url) (fp_to_string ?enc ?fp))
      = map_option candidate_json (nearest_fingerprint ?dec ix ?fp FP_MATCH_THRESHOLD)"
    by (simp add: assms(7) hub_get_json_def fingerprint_url_prefix fp split: option.split)
  have found: "index_resolve_content ix ?cid = Some r \<longleftrightarrow>
      (\<exists>m. found_by_content ix ?cid m \<and> r = resolved_of m)" for r
    using resolve_iff(2) [OF ok, of ?cid r] index_okD(4) [OF ok]
    by (auto simp: found_by_content_def index_manifest_def)
  show ?thesis
  proof (cases "index_resolve_content ix ?cid")
    case (Some r)
    with found obtain m where m: "found_by_content ix ?cid m" "r = resolved_of m" by blast
    from parse_shown [OF enc_r [of r]] assms(8) t1 Some
    have "work = \<lparr>rk_work_id = bytes32_to_string ?enc (rs_work_id r), rk_price_per_min = rs_price_per_min r,
        rk_tier = SignedTier\<rparr>"
      by (simp add: recognize_def Let_def content_id_of_def)
    with m show ?thesis by (intro exI [of _ m]) (simp add: resolved_of_def)
  next
    case None
    with found have no: "\<not> (\<exists>m'. found_by_content ix ?cid m')" by auto
    from None assms(8) t1 t2 obtain s sim where near: "nearest_fingerprint ?dec ix ?fp FP_MATCH_THRESHOLD = Some (s, sim)"
      and work: "parse_work ?js (or_default (js_null ?js) (js_get ?js (candidate_json (s, sim)) ''candidate''))
          FingerprintTier = Some work"
      by (auto simp: recognize_def Let_def content_id_of_def bind_eq_Some_conv)
    from enc_c [of s sim] work parse_shown have
        w: "work = \<lparr>rk_work_id = bytes32_to_string ?enc (su_work_id s), rk_price_per_min = su_price_per_min s,
          rk_tier = FingerprintTier\<rparr>"
      by (fastforce simp: or_default_def)
    from nearest_correct [OF ok, where fp = ?fp and threshold = FP_MATCH_THRESHOLD] near obtain v m c where
        m: "index_manifest ix v = Some m" "fp_parse ?dec (wm_fingerprint m) = Inr c" "s = summary_of m"
          "compare_fp ?fp c > FP_MATCH_THRESHOLD"
      by (auto simp: Let_def)
    then have "found_by_fingerprint ?dec ix ?fp m"
      using index_okD(4) [OF ok] by (auto simp: found_by_fingerprint_def index_manifest_def)
    with w m no show ?thesis by (intro exI [of _ m]) (simp add: summary_of_def)
  qed
qed

end
