(* ===== verification/BandwidthClient.thy ===== *)
theory BandwidthClient
  imports Storage Credibility Settle Job
begin

text \<open>
  The consumer half of the receipt path, \<open>services/storage/src/bin/bandwidth_client.rs\<close>: fetching
  blocks, asking the node to attest them, checking and counter-signing receipts, and the three modes.
  The client is a computation over the state of a server it knows only by the two requests it makes;
  the storage node of the theory \<open>Storage\<close>, serving every request to the end, is one such server.
\<close>

section \<open>The client\<close>

datatype client_error =
  Transport string | HttpStatus nat | BadReceipt receipt_error | NodeSignature u64 | OtherEpoch u64
| OtherWork string | OtherConsumer string | OtherChunk u64 | OtherBytes u64 | Signing string
| MissingVariable string | InvalidVariable string | BadKey | BadNumber | UnexpectedArgument string | NoModeValue
| UnknownMode string

text \<open>The two requests: the bytes received for a block, and the answer to a request for a receipt.\<close>

record 's server =
  sv_content :: "string \<Rightarrow> string \<Rightarrow> u64 \<Rightarrow> ('s, client_error, u8 list) proc"
  sv_receipt :: "string \<Rightarrow> u64 \<Rightarrow> string \<Rightarrow> ('s, client_error, receipt_response) proc"

record wallet_signer =
  sg_address :: string
  sg_sign :: "u8 list \<Rightarrow> string + u8 list"

definition req_env :: "(string \<Rightarrow> string option) \<Rightarrow> string \<Rightarrow> client_error + string" where
  "req_env var name = ok_or (MissingVariable name) (var name)"

definition opt_env :: "(string \<Rightarrow> string option) \<Rightarrow> string \<Rightarrow> u64 \<Rightarrow> client_error + u64" where
  "opt_env var name dflt =
     (case var name of Some v \<Rightarrow> ok_or (InvalidVariable name) (parse_u64 v) | None \<Rightarrow> Inr dflt)"

definition fetch_chunk_fully :: "'s server \<Rightarrow> string \<Rightarrow> string \<Rightarrow> u64 \<Rightarrow> ('s, client_error, u64) proc" where
  "fetch_chunk_fully sv work_id consumer chunk_index =
     job_bind (sv_content sv work_id consumer chunk_index) (\<lambda>body. job_lift (Inr (of_nat (length body))))"

definition eq_ignore_ascii_case :: "string \<Rightarrow> string \<Rightarrow> bool" where
  "eq_ignore_ascii_case a b \<longleftrightarrow> to_ascii_lowercase a = to_ascii_lowercase b"

text \<open>The checks and the counter-signature on an answered receipt.\<close>

definition counter_sign ::
    "('sig, 'addr) receipt_env \<Rightarrow> wallet_signer \<Rightarrow> string \<Rightarrow> string \<Rightarrow> u64 \<Rightarrow> u64 \<Rightarrow> u64 option
     \<Rightarrow> receipt \<Rightarrow> string \<Rightarrow> client_error + signed_receipt" where
  "counter_sign env sg work_id consumer epoch chunk_index expected_bytes r node_sig =
     res_bind (map_err BadReceipt (recover_signer env r node_sig)) (\<lambda>recovered.
     if lower_hex env recovered \<noteq> to_ascii_lowercase (rc_node r) then Inl (NodeSignature chunk_index)
     else if rc_epoch r \<noteq> epoch then Inl (OtherEpoch (rc_epoch r))
     else if rc_work_id r \<noteq> work_id then Inl (OtherWork (rc_work_id r))
     else if \<not> eq_ignore_ascii_case (rc_consumer r) consumer then Inl (OtherConsumer (rc_consumer r))
     else if rc_chunk_index r \<noteq> chunk_index then Inl (OtherChunk (rc_chunk_index r))
     else if (case expected_bytes of Some want \<Rightarrow> rc_bytes r \<noteq> want | None \<Rightarrow> False) then Inl (OtherBytes (rc_bytes r))
     else
       res_bind (map_err BadReceipt (canonical_bytes env r)) (\<lambda>msg.
       res_bind (map_err Signing (sg_sign sg msg)) (\<lambda>sig.
       Inr \<lparr>sr_receipt = r, sr_node_sig = node_sig, sr_consumer_sig = ''0x'' @ hex_string sig\<rparr>)))"

definition co_sign_chunk ::
    "('sig, 'addr) receipt_env \<Rightarrow> 's server \<Rightarrow> wallet_signer \<Rightarrow> string \<Rightarrow> string \<Rightarrow> u64 \<Rightarrow> u64 \<Rightarrow> u64 option
     \<Rightarrow> ('s, client_error, signed_receipt option) proc" where
  "co_sign_chunk env sv sg work_id consumer epoch chunk_index expected_bytes =
     job_bind (sv_receipt sv work_id chunk_index consumer) (\<lambda>resp.
     case resp of
       Status code _ \<Rightarrow> job_lift (if code = 404 then Inr None else Inl (HttpStatus code))
     | Signed r node_sig \<Rightarrow>
         job_lift (res_bind (counter_sign env sg work_id consumer epoch chunk_index expected_bytes r node_sig)
           (\<lambda>sr. Inr (Some sr))))"

definition push_option :: "'a list \<Rightarrow> 'a option \<Rightarrow> 'a list" where
  "push_option xs o_x = (case o_x of None \<Rightarrow> xs | Some x \<Rightarrow> xs @ [x])"

text \<open>The loops of the three modes over the remaining block indices, with the receipts so far.\<close>

fun honest_loop ::
    "('sig, 'addr) receipt_env \<Rightarrow> 's server \<Rightarrow> wallet_signer \<Rightarrow> string \<Rightarrow> string \<Rightarrow> u64
     \<Rightarrow> signed_receipt list \<Rightarrow> u64 list \<Rightarrow> ('s, client_error, signed_receipt list) proc" where
  "honest_loop env sv sg work_id consumer epoch so_far [] = job_lift (Inr so_far)"
| "honest_loop env sv sg work_id consumer epoch so_far (k # ks) =
     job_bind (fetch_chunk_fully sv work_id consumer k) (\<lambda>got.
     if got = 0 then job_lift (Inr so_far)
     else
       job_bind (co_sign_chunk env sv sg work_id consumer epoch k (Some got)) (\<lambda>sr.
       honest_loop env sv sg work_id consumer epoch (push_option so_far sr) ks))"

fun no_download_loop ::
    "('sig, 'addr) receipt_env \<Rightarrow> 's server \<Rightarrow> wallet_signer \<Rightarrow> string \<Rightarrow> string \<Rightarrow> u64
     \<Rightarrow> signed_receipt list \<Rightarrow> u64 list \<Rightarrow> ('s, client_error, signed_receipt list) proc" where
  "no_download_loop env sv sg work_id consumer epoch so_far [] = job_lift (Inr so_far)"
| "no_download_loop env sv sg work_id consumer epoch so_far (k # ks) =
     job_bind (co_sign_chunk env sv sg work_id consumer epoch k None) (\<lambda>sr.
     no_download_loop env sv sg work_id consumer epoch (push_option so_far sr) ks)"

fun refetch_loop ::
    "('sig, 'addr) receipt_env \<Rightarrow> 's server \<Rightarrow> wallet_signer \<Rightarrow> string \<Rightarrow> string \<Rightarrow> u64
     \<Rightarrow> signed_receipt list \<Rightarrow> nat \<Rightarrow> ('s, client_error, signed_receipt list) proc" where
  "refetch_loop env sv sg work_id consumer epoch so_far 0 = job_lift (Inr so_far)"
| "refetch_loop env sv sg work_id consumer epoch so_far (Suc n) =
     job_bind (fetch_chunk_fully sv work_id consumer 0) (\<lambda>got.
     job_bind (co_sign_chunk env sv sg work_id consumer epoch 0 (Some got)) (\<lambda>sr.
     refetch_loop env sv sg work_id consumer epoch (push_option so_far sr) n))"

fun parse_mode :: "string \<Rightarrow> string list \<Rightarrow> client_error + string" where
  "parse_mode mode [] = Inr mode"
| "parse_mode mode (arg # rest) =
     (if arg = ''--mode'' then (case rest of [] \<Rightarrow> Inl NoModeValue | v # rest' \<Rightarrow> parse_mode v rest')
      else Inl (UnexpectedArgument arg))"

definition chunk_indices :: "u64 \<Rightarrow> u64 list" where
  "chunk_indices chunks = map of_nat [0..<unat chunks]"

definition run_mode ::
    "('sig, 'addr) receipt_env \<Rightarrow> 's server \<Rightarrow> wallet_signer \<Rightarrow> string \<Rightarrow> u64 \<Rightarrow> u64 \<Rightarrow> u64 \<Rightarrow> string
     \<Rightarrow> ('s, client_error, signed_receipt list) proc" where
  "run_mode env sv sg work_id epoch chunks repeats mode =
     (if mode = ''honest'' then honest_loop env sv sg work_id (sg_address sg) epoch [] (chunk_indices chunks)
      else if mode = ''no-download'' then no_download_loop env sv sg work_id (sg_address sg) epoch [] (chunk_indices chunks)
      else if mode = ''refetch'' then refetch_loop env sv sg work_id (sg_address sg) epoch [] (unat repeats)
      else job_lift (Inl (UnknownMode mode)))"

text \<open>The whole program: where the bundle is written and what it holds.\<close>

definition client_main ::
    "('sig, 'addr) receipt_env \<Rightarrow> (string \<Rightarrow> 's server) \<Rightarrow> (string \<Rightarrow> string option) \<Rightarrow> (string \<Rightarrow> wallet_signer option)
     \<Rightarrow> string list \<Rightarrow> ('s, client_error, string \<times> receipt_bundle) proc" where
  "client_main env connect var parse_signer args =
     job_bind (job_lift (parse_mode ''honest'' args)) (\<lambda>mode.
     let base = or_default ''http://127.0.0.1:8546'' (var ''STORAGE_URL'') in
     job_bind (job_lift (req_env var ''WORK_ID'')) (\<lambda>work_text.
     let work_id = to_ascii_lowercase work_text in
     job_bind (job_lift (res_bind (req_env var ''PRIVATE_KEY'') (\<lambda>k. ok_or BadKey (parse_signer k)))) (\<lambda>sg.
     job_bind (job_lift (res_bind (req_env var ''EPOCH'') (\<lambda>e. ok_or BadNumber (parse_u64 e)))) (\<lambda>epoch.
     job_bind (job_lift (opt_env var ''CHUNKS'' 4)) (\<lambda>chunks.
     job_bind (job_lift (opt_env var ''REPEATS'' 100)) (\<lambda>repeats.
     job_bind (job_lift (req_env var ''OUT'')) (\<lambda>out.
     job_bind (run_mode env (connect base) sg work_id epoch chunks repeats mode) (\<lambda>signed.
     job_lift (Inr (out, \<lparr>rb_epoch = epoch, rb_receipts = signed\<rparr>))))))))))"

section \<open>The storage node as a server\<close>

text \<open>Polling a response until it ends; \<open>None\<close> would be a stream that never ends.\<close>

partial_function (option) drain_stream :: "delivery_stream \<Rightarrow> (u8 list \<times> bool \<times> delivery_stream) option" where
  "drain_stream s =
     (case poll_next s of
        (None, fired, s') \<Rightarrow> Some ([], fired, s')
      | (Some piece, _, s') \<Rightarrow>
          Option.bind (drain_stream s') (\<lambda>(rest, fired, s''). Some (piece @ rest, fired, s'')))"

definition serve_content :: "(string \<Rightarrow> string + u8 list) \<Rightarrow> string \<Rightarrow> string \<Rightarrow> u64 \<Rightarrow> (node, client_error, u8 list) proc" where
  "serve_content read_file work_id consumer chunk_index n =
     (case content_handler read_file work_id consumer chunk_index of
        Inl _ \<Rightarrow> (n, Inl (HttpStatus 404))
      | Inr o_r \<Rightarrow>
          (case drain_stream (or_stream o_r) of
             None \<Rightarrow> (n, Inl (Transport ''no end''))
           | Some (bytes, fired, s') \<Rightarrow>
               (complete_response o_r fired
                  (n\<lparr>nd_responses := (nd_responses n)(nd_next n := Some (o_r\<lparr>or_stream := s'\<rparr>)),
                     nd_next := Suc (nd_next n)\<rparr>), Inr bytes)))"

definition node_server ::
    "('sig, 'addr) receipt_env \<Rightarrow> (u8 list \<Rightarrow> string + u8 list) \<Rightarrow> (string \<Rightarrow> string + u8 list) \<Rightarrow> node server" where
  "node_server env sign read_file =
     \<lparr>sv_content = serve_content read_file,
      sv_receipt = (\<lambda>work_id chunk_index consumer n. (n, Inr (receipt_handler env sign n work_id chunk_index consumer)))\<rparr>"

lemma drain_from:
  assumes "0 < st_piece s" and "st_pos s \<le> length (st_data s)"
  shows "drain_stream s = Some (drop (st_pos s) (st_data s), st_armed s,
     s\<lparr>st_pos := length (st_data s), st_armed := False\<rparr>)"
  using assms
proof (induction "length (st_data s) - st_pos s" arbitrary: s rule: less_induct)
  case less
  show ?case
  proof (cases "st_pos s < length (st_data s)")
    case False
    with less.prems have "st_pos s = length (st_data s)" by simp
    then show ?thesis by (subst drain_stream.simps) (simp add: poll_next_def)
  next
    case True
    let ?stop = "min (st_pos s + st_piece s) (length (st_data s))"
    let ?s = "s\<lparr>st_pos := ?stop\<rparr>"
    have "drain_stream ?s = Some (drop ?stop (st_data s), st_armed s, ?s\<lparr>st_pos := length (st_data s), st_armed := False\<rparr>)"
      using less.hyps [of ?s] less.prems True by simp
    moreover have "take (?stop - st_pos s) (drop (st_pos s) (st_data s)) @ drop ?stop (st_data s)
        = drop (st_pos s) (st_data s)"
    proof -
      have "drop ?stop (st_data s) = drop (?stop - st_pos s) (drop (st_pos s) (st_data s))" using True by simp
      then show ?thesis by (simp only: append_take_drop_id)
    qed
    ultimately show ?thesis
      using True by (subst drain_stream.simps) (simp add: poll_next_def Let_def)
  qed
qed

text \<open>C36: every response ends. Whatever the block and the slice size, polling a new stream terminates;
  it yields exactly the block and fires the completion callback once.\<close>
theorem stream_terminates:
  "drain_stream (stream_new data piece)
     = Some (data, True, \<lparr>st_data = data, st_pos = length data, st_piece = max piece 1, st_armed = False\<rparr>)"
  using drain_from [of "stream_new data piece"] by (simp add: stream_new_def)

lemma drain_new: "drain_stream (stream_new data piece)
     = Some (data, True, \<lparr>st_data = data, st_pos = length data, st_piece = max piece 1, st_armed = False\<rparr>)"
  using drain_from [of "stream_new data piece"] by (simp add: stream_new_def)

lemma serve_ok:
  assumes "fragment_for_chunk read_file w x = Inr bytes"
  shows "\<exists>n'. serve_content read_file w c x n = (n', Inr bytes) \<and> nd_addr n' = nd_addr n \<and> nd_epoch n' = nd_epoch n
     \<and> nd_ledger n' = ledger_record c w x
         \<lparr>sv_work_id = to_ascii_lowercase w, sv_consumer = normalize_addr c, sv_bytes = of_nat (length bytes)\<rparr> (nd_ledger n)"
  using assms
  by (simp add: serve_content_def content_handler_def drain_new complete_response_def ledger_record_def)

lemma receipt_after_serving:
  assumes "nd_ledger n = ledger_record c w x
         \<lparr>sv_work_id = to_ascii_lowercase w, sv_consumer = normalize_addr c, sv_bytes = b\<rparr> l"
  shows "issue_receipt (nd_ledger n) (nd_addr n) (nd_epoch n) c w x =
     Inr \<lparr>rc_work_id = to_ascii_lowercase w, rc_consumer = normalize_addr c, rc_node = normalize_addr (nd_addr n),
          rc_chunk_index = x, rc_bytes = b, rc_epoch = nd_epoch n\<rparr>"
  by (simp add: issue_receipt_def assms ledger_get_def ledger_record_def bt_get_insert)

text \<open>Serving a request is a run of the node's state machine.\<close>

lemma complete_response_again:
  "complete_response (o_r\<lparr>or_stream := t\<rparr>) fired m = complete_response o_r fired m"
  by (simp add: complete_response_def)

lemma response_update_twice:
  "n\<lparr>nd_responses := (nd_responses n)(i := a)\<rparr>\<lparr>nd_responses := (nd_responses (n\<lparr>nd_responses := (nd_responses n)(i := a)\<rparr>))(i := b)\<rparr>
     = n\<lparr>nd_responses := (nd_responses n)(i := b)\<rparr>"
  by simp

lemma drain_run:
  assumes "nd_responses n i = Some o_r" and "drain_stream (or_stream o_r) = Some (bytes, fired, s')"
    and "0 < st_piece (or_stream o_r)" and "st_pos (or_stream o_r) \<le> length (st_data (or_stream o_r))"
  shows "\<exists>tr. node_run read_file n tr
     (complete_response o_r fired (n\<lparr>nd_responses := (nd_responses n)(i := Some (o_r\<lparr>or_stream := s'\<rparr>))\<rparr>))"
  using assms
proof (induction "length (st_data (or_stream o_r)) - st_pos (or_stream o_r)" arbitrary: n o_r bytes rule: less_induct)
  case less
  let ?s = "or_stream o_r"
  show ?case
  proof (cases "st_pos ?s < length (st_data ?s)")
    case False
    then obtain f t where p: "poll_next ?s = (None, f, t)" by (auto simp: poll_next_def)
    with less.prems(2) have "f = fired" "t = s'" by (simp_all add: drain_stream.simps)
    with node_run_one [OF node_step.finish [OF less.prems(1) p]] show ?thesis by blast
  next
    case True
    then obtain piece f t where p: "poll_next ?s = (Some piece, f, t)" by (auto simp: poll_next_def Let_def)
    note p' = p [unfolded poll_next_Some]
    let ?q = "o_r\<lparr>or_stream := t\<rparr>"
    let ?n = "n\<lparr>nd_responses := (nd_responses n)(i := Some ?q)\<rparr>"
    from less.prems(2) p obtain rest where d: "drain_stream t = Some (rest, fired, s')"
      by (subst (asm) drain_stream.simps) (auto simp: bind_eq_Some_conv)
    have "\<exists>tr. node_run read_file ?n tr
       (complete_response ?q fired (?n\<lparr>nd_responses := (nd_responses ?n)(i := Some (?q\<lparr>or_stream := s'\<rparr>))\<rparr>))"
      by (rule less.hyps) (use less.prems p' d True in auto)
    then obtain tr where "node_run read_file ?n tr
       (complete_response o_r fired (n\<lparr>nd_responses := (nd_responses n)(i := Some (o_r\<lparr>or_stream := s'\<rparr>))\<rparr>))"
      unfolding complete_response_again response_update_twice by auto
    with node_run_trans [OF _ node_run_one [OF node_step.send [OF less.prems(1) p]]] show ?thesis by blast
  qed
qed

lemma serve_content_run:
  assumes "serve_content read_file w c x n = (n', r)"
  shows "\<exists>tr. node_run read_file n tr n'"
proof (cases "content_handler read_file w c x")
  case (Inl e)
  with assms show ?thesis by (auto simp: serve_content_def intro: node_run.start)
next
  case (Inr o_r)
  then obtain bytes where st: "or_stream o_r = stream_new bytes (16 * 1024)"
    by (auto simp: content_handler_Inr)
  let ?i = "nd_next n"
  let ?n = "n\<lparr>nd_responses := (nd_responses n)(?i := Some o_r), nd_next := Suc ?i\<rparr>"
  note first = node_run_one [OF node_step.request [OF Inr refl, of n]]
  have "\<exists>tr. node_run read_file ?n tr (complete_response o_r True
      (?n\<lparr>nd_responses := (nd_responses ?n)(?i := Some (o_r\<lparr>or_stream :=
        \<lparr>st_data = bytes, st_pos = length bytes, st_piece = max (16 * 1024) 1, st_armed = False\<rparr>\<rparr>))\<rparr>))"
    by (rule drain_run [where bytes = bytes]) (simp_all add: st drain_new, simp_all add: stream_new_def)
  moreover have "n' = complete_response o_r True
      (?n\<lparr>nd_responses := (nd_responses ?n)(?i := Some (o_r\<lparr>or_stream :=
        \<lparr>st_data = bytes, st_pos = length bytes, st_piece = max (16 * 1024) 1, st_armed = False\<rparr>\<rparr>))\<rparr>)"
    using assms by (cases n) (simp add: serve_content_def Inr st drain_new complete_response_def)
  ultimately show ?thesis using node_run_trans [OF _ first] by blast
qed

section \<open>What the client signs\<close>

text \<open>The signatures of a party: whatever is signed parses and recovers to the party's address.\<close>

definition signs_as :: "('sig, 'addr) receipt_env \<Rightarrow> (u8 list \<Rightarrow> string + u8 list) \<Rightarrow> string \<Rightarrow> bool" where
  "signs_as env sign party \<longleftrightarrow>
     (\<forall>msg. \<exists>bytes sig a. sign msg = Inr bytes \<and> parse_signature env bytes = Some sig
        \<and> recover_from_msg env sig msg = Inr a \<and> lower_hex env a = to_ascii_lowercase party)"

lemma signed_by_signer:
  assumes "signs_as env sign party" and "canonical_json env r = Inr msg" and "sign msg = Inr bytes"
  shows "signed_by env r (''0x'' @ hex_string bytes) party"
proof -
  from assms(1,3) obtain sig a where "parse_signature env bytes = Some sig" "recover_from_msg env sig msg = Inr a"
      "lower_hex env a = to_ascii_lowercase party"
    unfolding signs_as_def by force
  with assms(2) show ?thesis unfolding signed_by_def
    by (intro exI [of _ msg] exI [of _ bytes] exI [of _ sig] exI [of _ a])
      (simp only: strip_prefix_append option.case decode_hex_string simp_thms)
qed

lemma counter_sign_Inr:
  "counter_sign env sg w c epoch k want r node_sig = Inr sr \<longleftrightarrow>
     (\<exists>a msg sig. recover_signer env r node_sig = Inr a \<and> lower_hex env a = to_ascii_lowercase (rc_node r)
        \<and> rc_epoch r = epoch \<and> rc_work_id r = w \<and> to_ascii_lowercase (rc_consumer r) = to_ascii_lowercase c
        \<and> rc_chunk_index r = k \<and> (\<forall>b. want = Some b \<longrightarrow> rc_bytes r = b)
        \<and> canonical_json env r = Inr msg \<and> sg_sign sg msg = Inr sig
        \<and> sr = \<lparr>sr_receipt = r, sr_node_sig = node_sig, sr_consumer_sig = ''0x'' @ hex_string sig\<rparr>)"
  by (auto simp: counter_sign_def eq_ignore_ascii_case_def canonical_bytes_def res_bind_eq_Inr map_err_eq_Inr
      split: option.splits if_splits)

definition asked :: "('sig, 'addr) receipt_env \<Rightarrow> string \<Rightarrow> string \<Rightarrow> u64 \<Rightarrow> u64 \<Rightarrow> signed_receipt \<Rightarrow> bool" where
  "asked env work_id consumer epoch k sr \<longleftrightarrow>
     is_ok (signed_verify env sr) \<and> rc_epoch (sr_receipt sr) = epoch \<and> rc_work_id (sr_receipt sr) = work_id
     \<and> normalize_addr (rc_consumer (sr_receipt sr)) = normalize_addr consumer \<and> rc_chunk_index (sr_receipt sr) = k"

lemma counter_sign_asked:
  assumes "signs_as env (sg_sign sg) c" and "counter_sign env sg w c epoch k want r node_sig = Inr sr"
  shows "asked env w c epoch k sr" and "sr_receipt sr = r"
proof -
  from assms(2) obtain a msg sig where s: "recover_signer env r node_sig = Inr a"
      "lower_hex env a = to_ascii_lowercase (rc_node r)" "rc_epoch r = epoch" "rc_work_id r = w"
      "to_ascii_lowercase (rc_consumer r) = to_ascii_lowercase c" "rc_chunk_index r = k"
      "canonical_json env r = Inr msg" "sg_sign sg msg = Inr sig"
      "sr = \<lparr>sr_receipt = r, sr_node_sig = node_sig, sr_consumer_sig = ''0x'' @ hex_string sig\<rparr>"
    unfolding counter_sign_Inr by blast
  have "signed_by env r (''0x'' @ hex_string sig) (rc_consumer r)"
    using signed_by_signer [OF assms(1) s(7,8)] s(5) by (simp add: signed_by_def)
  moreover have "signed_by env r node_sig (rc_node r)"
    using s(1,2) unfolding signed_by_def recover_signer_Inr by blast
  ultimately show "asked env w c epoch k sr" using s by (simp add: asked_def signed_verify_both_parties normalize_addr_def)
  show "sr_receipt sr = r" using s by simp
qed

lemma co_sign_Some:
  "co_sign_chunk env sv sg w c epoch k want s = (s', Inr (Some sr)) \<longleftrightarrow>
     (\<exists>r node_sig. sv_receipt sv w k c s = (s', Inr (Signed r node_sig))
        \<and> counter_sign env sg w c epoch k want r node_sig = Inr sr)"
proof -
  have "(\<exists>tr resp. sv_receipt sv w k c s = (tr, Inr resp) \<and> (case resp of
           Status code _ \<Rightarrow> job_lift (if code = 404 then Inr None else Inl (HttpStatus code))
         | Signed r node_sig \<Rightarrow> job_lift (res_bind (counter_sign env sg w c epoch k want r node_sig) (\<lambda>sr. Inr (Some sr)))) tr
         = (s', Inr (Some sr)))
      \<longleftrightarrow> (\<exists>r node_sig. sv_receipt sv w k c s = (s', Inr (Signed r node_sig))
            \<and> counter_sign env sg w c epoch k want r node_sig = Inr sr)"
    by (auto simp: job_lift_Inr res_bind_eq_Inr split: receipt_response.split_asm if_split_asm)
  then show ?thesis by (simp only: co_sign_chunk_def job_bind_Inr)
qed

lemma co_sign_asked:
  assumes "signs_as env (sg_sign sg) c" and "co_sign_chunk env sv sg w c epoch k want s = (s', Inr (Some sr))"
  shows "asked env w c epoch k sr"
  using assms(2) counter_sign_asked(1) [OF assms(1)] unfolding co_sign_Some by blast

lemma push_option_asked:
  assumes "signs_as env (sg_sign sg) c" and "co_sign_chunk env sv sg w c epoch k want s = (s', Inr o_sr)"
    and "list_all (\<lambda>sr. \<exists>k \<in> K. asked env w c epoch k sr) so_far" and "k \<in> K"
  shows "list_all (\<lambda>sr. \<exists>k \<in> K. asked env w c epoch k sr) (push_option so_far o_sr)"
proof (cases o_sr)
  case (Some sr)
  have "asked env w c epoch k sr" by (rule co_sign_asked [OF assms(1) assms(2) [unfolded Some]])
  with Some assms(3,4) show ?thesis by (auto simp: push_option_def)
qed (use assms(3) in \<open>simp add: push_option_def\<close>)

lemma honest_asked:
  "\<lbrakk>honest_loop env sv sg w c epoch so_far ks s = (s', Inr srs); signs_as env (sg_sign sg) c; set ks \<subseteq> K;
     list_all (\<lambda>sr. \<exists>k \<in> K. asked env w c epoch k sr) so_far\<rbrakk>
   \<Longrightarrow> list_all (\<lambda>sr. \<exists>k \<in> K. asked env w c epoch k sr) srs"
proof (induction ks arbitrary: so_far s)
  case (Cons k ks)
  then show ?case by (auto simp: result_simps push_option_asked split: if_splits)
qed (simp add: result_simps)

lemma no_download_asked:
  "\<lbrakk>no_download_loop env sv sg w c epoch so_far ks s = (s', Inr srs); signs_as env (sg_sign sg) c; set ks \<subseteq> K;
     list_all (\<lambda>sr. \<exists>k \<in> K. asked env w c epoch k sr) so_far\<rbrakk>
   \<Longrightarrow> list_all (\<lambda>sr. \<exists>k \<in> K. asked env w c epoch k sr) srs"
proof (induction ks arbitrary: so_far s)
  case (Cons k ks)
  then show ?case by (auto simp: result_simps push_option_asked)
qed (simp add: result_simps)

lemma refetch_asked:
  "\<lbrakk>refetch_loop env sv sg w c epoch so_far n s = (s', Inr srs); signs_as env (sg_sign sg) c; 0 \<in> K;
     list_all (\<lambda>sr. \<exists>k \<in> K. asked env w c epoch k sr) so_far\<rbrakk>
   \<Longrightarrow> list_all (\<lambda>sr. \<exists>k \<in> K. asked env w c epoch k sr) srs"
proof (induction n arbitrary: so_far s)
  case (Suc n)
  then show ?case by (auto simp: result_simps push_option_asked)
qed (simp add: result_simps)

lemma run_mode_asked:
  assumes "run_mode env sv sg w epoch chunks repeats mode s = (s', Inr srs)" and "signs_as env (sg_sign sg) (sg_address sg)"
  shows "list_all (\<lambda>sr. \<exists>k \<in> insert 0 (set (chunk_indices chunks)). asked env w (sg_address sg) epoch k sr) srs"
proof -
  define K where "K = insert 0 (set (chunk_indices chunks))"
  have K: "set (chunk_indices chunks) \<subseteq> K" "0 \<in> K" by (auto simp: K_def)
  have "list_all (\<lambda>sr. \<exists>k \<in> K. asked env w (sg_address sg) epoch k sr) srs"
    using assms(1) K
      honest_asked [OF _ assms(2), where K = K and so_far = "[]" and ks = "chunk_indices chunks"]
      no_download_asked [OF _ assms(2), where K = K and so_far = "[]" and ks = "chunk_indices chunks"]
      refetch_asked [OF _ assms(2), where K = K and so_far = "[]" and n = "unat repeats"]
    unfolding run_mode_def by (auto split: if_splits simp: job_lift_def)
  then show ?thesis by (simp only: K_def)
qed

section \<open>The client against the node\<close>

definition statement :: "node \<Rightarrow> string \<Rightarrow> string \<Rightarrow> u64 \<Rightarrow> u64 \<Rightarrow> receipt" where
  "statement n w c k b =
     \<lparr>rc_work_id = to_ascii_lowercase w, rc_consumer = normalize_addr c, rc_node = normalize_addr (nd_addr n),
      rc_chunk_index = k, rc_bytes = b, rc_epoch = nd_epoch n\<rparr>"

definition always_encodes :: "('sig, 'addr) receipt_env \<Rightarrow> bool" where
  "always_encodes env \<longleftrightarrow> (\<forall>r. is_ok (canonical_json env r))"

lemma node_attests:
  assumes enc: "always_encodes env" and node: "signs_as env sign (nd_addr n)" and me: "signs_as env (sg_sign sg) c"
    and led: "nd_ledger n = ledger_record c w k
         \<lparr>sv_work_id = to_ascii_lowercase w, sv_consumer = normalize_addr c, sv_bytes = b\<rparr> l"
    and w: "to_ascii_lowercase w = w"
  shows "\<exists>sr. co_sign_chunk env (node_server env sign read_file) sg w c (nd_epoch n) k (Some b) n = (n, Inr (Some sr))
     \<and> sr_receipt sr = statement n w c k b"
proof -
  let ?r = "statement n w c k b"
  from enc obtain msg where msg: "canonical_json env ?r = Inr msg"
    unfolding always_encodes_def is_ok_iff by blast
  from node obtain bytes where sig: "sign msg = Inr bytes" unfolding signs_as_def by blast
  from me obtain mine where mine: "sg_sign sg msg = Inr mine" unfolding signs_as_def by blast
  have "receipt_handler env sign n w k c = Signed ?r (''0x'' @ hex_string bytes)"
    using receipt_after_serving [OF led] msg sig by (simp add: receipt_handler_def statement_def)
  then have answer: "sv_receipt (node_server env sign read_file) w k c n = (n, Inr (Signed ?r (''0x'' @ hex_string bytes)))"
    by (simp add: node_server_def)
  have "signed_by env ?r (''0x'' @ hex_string bytes) (nd_addr n)" by (rule signed_by_signer [OF node msg sig])
  then obtain a where rec: "recover_signer env ?r (''0x'' @ hex_string bytes) = Inr a"
      "lower_hex env a = to_ascii_lowercase (nd_addr n)"
    unfolding signed_by_def recover_signer_Inr by blast
  then have "counter_sign env sg w c (nd_epoch n) k (Some b) ?r (''0x'' @ hex_string bytes)
     = Inr \<lparr>sr_receipt = ?r, sr_node_sig = ''0x'' @ hex_string bytes, sr_consumer_sig = ''0x'' @ hex_string mine\<rparr>"
    unfolding counter_sign_Inr using msg mine w by (simp add: statement_def normalize_addr_def)
  with answer show ?thesis unfolding co_sign_Some by (intro exI conjI) (assumption, assumption, simp)
qed

text \<open>One block: fetched in full, attested and counter-signed.\<close>

lemma block_attested:
  assumes enc: "always_encodes env" and node: "signs_as env sign (nd_addr n)" and me: "signs_as env (sg_sign sg) c"
    and w: "to_ascii_lowercase w = w" and data: "fragment_for_chunk read_file w k = Inr bytes"
  shows "\<exists>n' sr. fetch_chunk_fully (node_server env sign read_file) w c k n = (n', Inr (of_nat (length bytes)))
     \<and> co_sign_chunk env (node_server env sign read_file) sg w c (nd_epoch n) k (Some (of_nat (length bytes))) n'
         = (n', Inr (Some sr))
     \<and> sr_receipt sr = statement n w c k (of_nat (length bytes)) \<and> asked env w c (nd_epoch n) k sr
     \<and> nd_addr n' = nd_addr n \<and> nd_epoch n' = nd_epoch n"
proof -
  from serve_ok [OF data] obtain n' where n':
      "serve_content read_file w c k n = (n', Inr bytes)" "nd_addr n' = nd_addr n" "nd_epoch n' = nd_epoch n"
      "nd_ledger n' = ledger_record c w k
         \<lparr>sv_work_id = to_ascii_lowercase w, sv_consumer = normalize_addr c, sv_bytes = of_nat (length bytes)\<rparr> (nd_ledger n)"
    by blast
  have "fetch_chunk_fully (node_server env sign read_file) w c k n = (n', Inr (of_nat (length bytes)))"
    by (simp add: fetch_chunk_fully_def node_server_def job_bind_def n'(1) job_lift_def)
  moreover from node n'(2) have "signs_as env sign (nd_addr n')" by simp
  from node_attests [OF enc this me n'(4) w] obtain sr where
      sr: "co_sign_chunk env (node_server env sign read_file) sg w c (nd_epoch n') k (Some (of_nat (length bytes))) n'
         = (n', Inr (Some sr))" "sr_receipt sr = statement n' w c k (of_nat (length bytes))"
    by blast
  moreover have "statement n' w c k b = statement n w c k b" for b by (simp add: statement_def n')
  moreover from co_sign_asked [OF me sr(1)] have "asked env w c (nd_epoch n) k sr" by (simp add: n'(3))
  ultimately show ?thesis by (auto simp: n')
qed

definition block_of :: "u8 list \<Rightarrow> nat \<Rightarrow> u8 list" where
  "block_of data k = take 131072 (drop (k * 131072) data)"

lemma block_of_facts:
  assumes "is_work_id w" and "read_file (content_name w) = Inr data" and "k * 131072 < 2 ^ 64"
  shows "fragment_for_chunk read_file w (of_nat k) = Inr (block_of data k)"
    and "unat (of_nat (length (block_of data k)) :: u64) = length (block_of data k)"
    and "(of_nat (length (block_of data k)) :: u64) = 0 \<longleftrightarrow> length data \<le> k * 131072"
proof -
  from assms(3) have "k < 2 ^ 64" by linarith
  then have "unat (of_nat k :: u64) = k" by (simp add: unat_of_nat take_bit_nat_eq_self)
  with fragment_in_range [where read_file = read_file and w = w and x = "of_nat k", OF assms(2,1)] assms(3)
  show "fragment_for_chunk read_file w (of_nat k) = Inr (block_of data k)" by (simp add: block_of_def)
  have "length (block_of data k) \<le> 131072" by (simp add: block_of_def)
  then show u: "unat (of_nat (length (block_of data k)) :: u64) = length (block_of data k)"
    by (simp add: unat_of_nat take_bit_nat_eq_self)
  then have "(of_nat (length (block_of data k)) :: u64) = 0 \<longleftrightarrow> length (block_of data k) = 0"
    using unat_eq_zero by metis
  also have "\<dots> \<longleftrightarrow> length data \<le> k * 131072" by (auto simp: block_of_def)
  finally show "(of_nat (length (block_of data k)) :: u64) = 0 \<longleftrightarrow> length data \<le> k * 131072" .
qed

lemma push_option_Some [simp]: "push_option xs (Some x) = xs @ [x]" "push_option xs None = xs"
  by (simp_all add: push_option_def)

lemma honest_run:
  assumes "always_encodes env" and "signs_as env (sg_sign sg) c"
    and "is_work_id w" and "to_ascii_lowercase w = w" and "read_file (content_name w) = Inr data"
    and "signs_as env sign (nd_addr n)" and "\<forall>k \<in> set ks. k * 131072 < 2 ^ 64"
  shows "\<exists>n' rs. honest_loop env (node_server env sign read_file) sg w c (nd_epoch n) so_far (map of_nat ks) n
       = (n', Inr (so_far @ rs))
     \<and> list_all2 (\<lambda>k sr. sr_receipt sr = statement n w c (of_nat k) (of_nat (length (block_of data k)))
          \<and> asked env w c (nd_epoch n) (of_nat k) sr) (takeWhile (\<lambda>k. k * 131072 < length data) ks) rs"
  using assms(6,7)
proof (induction ks arbitrary: n so_far)
  case Nil
  show ?case by (auto simp: job_lift_def)
next
  case (Cons k ks)
  note B = block_of_facts [where read_file = read_file and w = w and k = k, OF assms(3,5)]
  have kb: "k * 131072 < 2 ^ 64" using Cons.prems(2) by simp
  let ?sv = "node_server env sign read_file"
  from block_attested [OF assms(1) Cons.prems(1) assms(2,4) B(1) [OF kb]] obtain n1 sr
    where one: "fetch_chunk_fully ?sv w c (of_nat k) n = (n1, Inr (of_nat (length (block_of data k))))"
      "co_sign_chunk env ?sv sg w c (nd_epoch n) (of_nat k) (Some (of_nat (length (block_of data k)))) n1 = (n1, Inr (Some sr))"
      "sr_receipt sr = statement n w c (of_nat k) (of_nat (length (block_of data k)))"
      "asked env w c (nd_epoch n) (of_nat k) sr" "nd_addr n1 = nd_addr n" "nd_epoch n1 = nd_epoch n"
    by blast
  show ?case
  proof (cases "k * 131072 < length data")
    case False
    then show ?thesis using B(3) [OF kb] by (simp add: job_bind_def one job_lift_def)
  next
    case True
    from Cons.IH [of n1 "so_far @ [sr]"] Cons.prems one(5,6) obtain n' rs
      where r: "honest_loop env ?sv sg w c (nd_epoch n) (so_far @ [sr]) (map of_nat ks) n1 = (n', Inr (so_far @ sr # rs))"
        "list_all2 (\<lambda>k sr. sr_receipt sr = statement n w c (of_nat k) (of_nat (length (block_of data k)))
          \<and> asked env w c (nd_epoch n) (of_nat k) sr) (takeWhile (\<lambda>k. k * 131072 < length data) ks) rs"
      by (auto simp: statement_def)
    have "honest_loop env ?sv sg w c (nd_epoch n) so_far (map of_nat (k # ks)) n = (n', Inr (so_far @ sr # rs))"
      using B(3) [OF kb] True by (simp add: job_bind_def one r)
    with r(2) one(3,4) True show ?thesis by (intro exI [of _ n'] exI [of _ "sr # rs"]) simp
  qed
qed

lemma refetch_run:
  assumes "always_encodes env" and "signs_as env (sg_sign sg) c"
    and "is_work_id w" and "to_ascii_lowercase w = w" and "read_file (content_name w) = Inr data"
    and "signs_as env sign (nd_addr n)"
  shows "\<exists>n' rs. refetch_loop env (node_server env sign read_file) sg w c (nd_epoch n) so_far m n
       = (n', Inr (so_far @ rs)) \<and> length rs = m
     \<and> list_all (\<lambda>sr. sr_receipt sr = statement n w c 0 (of_nat (length (block_of data 0)))
          \<and> asked env w c (nd_epoch n) 0 sr) rs"
  using assms(6)
proof (induction m arbitrary: n so_far)
  case 0
  show ?case by (auto simp: job_lift_def)
next
  case (Suc m)
  note B = block_of_facts [where read_file = read_file and w = w and k = 0, OF assms(3,5), simplified]
  let ?sv = "node_server env sign read_file"
  from block_attested [OF assms(1) Suc.prems assms(2,4) B(1)] obtain n1 sr
    where one: "fetch_chunk_fully ?sv w c 0 n = (n1, Inr (of_nat (length (block_of data 0))))"
      "co_sign_chunk env ?sv sg w c (nd_epoch n) 0 (Some (of_nat (length (block_of data 0)))) n1 = (n1, Inr (Some sr))"
      "sr_receipt sr = statement n w c 0 (of_nat (length (block_of data 0)))"
      "asked env w c (nd_epoch n) 0 sr" "nd_addr n1 = nd_addr n" "nd_epoch n1 = nd_epoch n"
    by blast
  from Suc.IH [of n1 "so_far @ [sr]"] Suc.prems one(5,6) obtain n' rs
    where r: "refetch_loop env ?sv sg w c (nd_epoch n) (so_far @ [sr]) m n1 = (n', Inr (so_far @ sr # rs))" "length rs = m"
      "list_all (\<lambda>sr. sr_receipt sr = statement n w c 0 (of_nat (length (block_of data 0)))
          \<and> asked env w c (nd_epoch n) 0 sr) rs"
    by (auto simp: statement_def)
  then show ?case using one by (intro exI [of _ n'] exI [of _ "sr # rs"]) (simp add: job_bind_def)
qed

lemma no_download_run:
  assumes "\<And>k. ledger_get (nd_ledger n) c w k = None"
  shows "no_download_loop env (node_server env sign read_file) sg w c epoch so_far ks n = (n, Inr so_far)"
  using assms
  by (induction ks)
    (simp_all add: job_lift_def job_bind_def co_sign_chunk_def node_server_def receipt_handler_def issue_receipt_def ok_or_def)
section \<open>What the bundles earn\<close>

lemma firsts_distinct:
  "\<lbrakk>distinct (map key_of srs); key_of ` set srs \<inter> seen = {}\<rbrakk> \<Longrightarrow> firsts seen srs = srs"
proof (induction srs arbitrary: seen)
  case (Cons sr srs)
  then have "firsts (insert (key_of sr) seen) srs = srs" by (intro Cons.IH) auto
  with Cons.prems show ?case by auto
qed simp

lemma firsts_same:
  assumes "\<forall>sr \<in> set srs. key_of sr = key_of x" and "key_of x \<notin> seen"
  shows "firsts seen (x # srs) = [x]"
proof -
  have "firsts (insert (key_of x) seen) srs = []" using assms(1) by (intro firsts_all_seen) auto
  with assms(2) show ?thesis by simp
qed

lemma sum_of_blocks:
  "sum_list (map (\<lambda>k. length (block_of data k)) (takeWhile (\<lambda>k. k * 131072 < length data) [0..<n]))
     = min (length data) (n * 131072)"
proof (induction n)
  case (Suc n)
  show ?case
  proof (cases "n * 131072 < length data")
    case True
    then have P: "\<forall>k \<in> set [0..<n]. k * 131072 < length data" by auto
    then have t: "takeWhile (\<lambda>k. k * 131072 < length data) [0..<n] = [0..<n]"
      by (simp add: takeWhile_eq_all_conv)
    have t': "takeWhile (\<lambda>k. k * 131072 < length data) [0..<Suc n] = [0..<Suc n]"
      using P True by (auto simp add: takeWhile_eq_all_conv)
    from Suc True show ?thesis unfolding t t' by (simp add: block_of_def)
  next
    case False
    have "takeWhile P (xs @ [x]) = takeWhile P xs" if "\<not> P x" for P :: "nat \<Rightarrow> bool" and xs x
      using that by (induction xs) auto
    with False have "takeWhile (\<lambda>k. k * 131072 < length data) [0..<Suc n] = takeWhile (\<lambda>k. k * 131072 < length data) [0..<n]"
      by simp
    with Suc False show ?thesis by simp
  qed
qed simp

lemma list_all2_map_eq:
  "\<lbrakk>list_all2 P xs ys; \<And>x y. P x y \<Longrightarrow> f y = g x\<rbrakk> \<Longrightarrow> map f ys = map g xs"
  by (induction xs ys rule: list_all2_induct) simp_all

lemma of_nat_u64_inj: "inj_on (of_nat :: nat \<Rightarrow> u64) {..<2 ^ 64}"
proof (rule inj_onI)
  have u: "unat (of_nat x :: u64) = x" if "x \<in> {..<2 ^ 64}" for x
    using that by (simp add: unat_of_nat take_bit_nat_eq_self)
  fix a b :: nat assume "a \<in> {..<2 ^ 64}" "b \<in> {..<2 ^ 64}" "(of_nat a :: u64) = of_nat b"
  with u [of a] u [of b] show "a = b" by metis
qed

lemma asked_eligible:
  "\<lbrakk>asked env w c epoch k sr; cred (normalize_addr (rc_node (sr_receipt sr)))\<rbrakk> \<Longrightarrow> eligible env epoch cred sr"
  by (simp add: asked_def eligible_def)

lemma statement_counts:
  assumes "sr_receipt sr = statement n w c k (of_nat (length (block_of data j)))"
  shows "key_of sr = (normalize_addr c, to_ascii_lowercase w, k)" and "pair_of sr = (normalize_addr c, to_ascii_lowercase w)"
    and "counted_bytes sr = length (block_of data j)"
proof -
  have "length (block_of data j) \<le> 131072" by (simp add: block_of_def)
  then have "unat (of_nat (length (block_of data j)) :: u64) = length (block_of data j)"
    by (simp add: unat_of_nat take_bit_nat_eq_self)
  then show "counted_bytes sr = length (block_of data j)" using \<open>_ \<le> 131072\<close> by (simp add: counted_bytes_def assms statement_def)
  show "key_of sr = (normalize_addr c, to_ascii_lowercase w, k)" "pair_of sr = (normalize_addr c, to_ascii_lowercase w)"
    by (simp_all add: key_of_def pair_of_def dedup_key_def assms statement_def)
qed

lemma honest_credit:
  assumes "list_all2 (\<lambda>k sr. sr_receipt sr = statement n w c (of_nat k) (of_nat (length (block_of data k)))
          \<and> asked env w c (nd_epoch n) (of_nat k) sr) (takeWhile (\<lambda>k. k * 131072 < length data) [0..<m]) rs"
    and "m \<le> 2 ^ 64" and "cred (normalize_addr (nd_addr n))" and "to_ascii_lowercase w = w"
  shows "credited (normalize_addr c, w) (firsts {} (List.filter (eligible env (nd_epoch n) cred) rs))
     = min (length data) (m * 131072)"
proof -
  let ?ks = "takeWhile (\<lambda>k. k * 131072 < length data) [0..<m]"
  have "eligible env (nd_epoch n) cred sr" if "sr \<in> set rs" for sr
    using assms(1,3) that
    by (auto simp: list_all2_conv_all_nth in_set_conv_nth statement_def intro!: asked_eligible)
  then have "List.filter (eligible env (nd_epoch n) cred) rs = rs" by simp
  moreover have "map key_of rs = map (\<lambda>k. (normalize_addr c, w, of_nat k)) ?ks"
    by (rule list_all2_map_eq [OF assms(1)]) (use statement_counts(1) assms(4) in fastforce)
  then have "firsts {} rs = rs"
  proof (intro firsts_distinct)
    have "set ?ks \<subseteq> {..<2 ^ 64}" using assms(2) by (auto dest!: set_takeWhileD)
    then have "inj_on (of_nat :: nat \<Rightarrow> u64) (set ?ks)" by (rule inj_on_subset [OF of_nat_u64_inj])
    moreover have "distinct ?ks" by (rule distinct_takeWhile) simp
    moreover assume "map key_of rs = map (\<lambda>k. (normalize_addr c, w, of_nat k)) ?ks"
    ultimately show "distinct (map key_of rs)" by (simp add: distinct_map inj_on_def)
  qed simp
  moreover have "map (\<lambda>sr. if pair_of sr = (normalize_addr c, w) then counted_bytes sr else 0) rs
      = map (\<lambda>k. length (block_of data k)) ?ks"
    by (rule list_all2_map_eq [OF assms(1)]) (use statement_counts(2,3) assms(4) in fastforce)
  ultimately show ?thesis by (simp add: credited_def sum_of_blocks)
qed

lemma refetch_credit:
  assumes "list_all (\<lambda>sr. sr_receipt sr = statement n w c 0 (of_nat (length (block_of data 0)))
          \<and> asked env w c (nd_epoch n) 0 sr) rs"
    and "cred (normalize_addr (nd_addr n))" and "to_ascii_lowercase w = w"
  shows "credited (normalize_addr c, w) (firsts {} (List.filter (eligible env (nd_epoch n) cred) rs))
     = (if rs = [] then 0 else min (length data) 131072)"
proof (cases rs)
  case (Cons x xs)
  have P: "sr_receipt sr = statement n w c 0 (of_nat (length (block_of data 0))) \<and> eligible env (nd_epoch n) cred sr"
    if "sr \<in> set rs" for sr
    using assms(1,2) that by (auto simp: list_all_iff statement_def intro!: asked_eligible)
  then have "List.filter (eligible env (nd_epoch n) cred) rs = x # xs" by (simp add: Cons)
  moreover have "key_of sr = (normalize_addr c, w, 0)" if "sr \<in> set rs" for sr
    using P [OF that] statement_counts(1) assms(3) by metis
  then have "firsts {} (x # xs) = [x]" by (intro firsts_same) (simp_all add: Cons)
  moreover have "pair_of x = (normalize_addr c, w)" "counted_bytes x = length (block_of data 0)"
    using P [of x] statement_counts(2,3) assms(3) Cons by (metis list.set_intros(1))+
  ultimately show ?thesis by (simp add: Cons block_of_def)
qed simp

lemma run_mode_honest:
  "run_mode env sv sg w epoch chunks repeats ''honest'' =
     honest_loop env sv sg w (sg_address sg) epoch [] (map of_nat [0..<unat chunks])"
  by (simp add: run_mode_def chunk_indices_def)

lemma chunk_indices_less: "k \<in> set (chunk_indices chunks) \<Longrightarrow> k < chunks"
proof -
  assume "k \<in> set (chunk_indices chunks)"
  then obtain m where m: "m < unat chunks" "k = of_nat m" by (auto simp: chunk_indices_def)
  then have "unat k = m" by (metis le_unat_uoi less_imp_le_nat)
  with m show "k < chunks" by (simp add: word_less_nat_alt)
qed

section \<open>Properties\<close>

definition demo_signer :: wallet_signer where
  "demo_signer = \<lparr>sg_address = ''cc'', sg_sign = (\<lambda>_. Inr [204])\<rparr>"

definition demo_var :: "string \<Rightarrow> string option" where
  "demo_var = map_of [(''WORK_ID'', demo_work), (''PRIVATE_KEY'', ''k''), (''EPOCH'', ''3''), (''CHUNKS'', ''2''), (''OUT'', ''b.json'')]"

definition demo_node_sign :: "u8 list \<Rightarrow> string + u8 list" where
  "demo_node_sign = (\<lambda>_. Inr [170])"

lemma demo_signs: "signs_as demo_env (sg_sign demo_signer) (sg_address demo_signer)" "signs_as demo_env demo_node_sign ''AA''"
proof -
  have "hex_string [204] = to_ascii_lowercase ''cc''" "hex_string [170] = to_ascii_lowercase ''AA''" by code_simp+
  then show "signs_as demo_env (sg_sign demo_signer) (sg_address demo_signer)" "signs_as demo_env demo_node_sign ''AA''"
    by (simp_all add: signs_as_def demo_env_def demo_signer_def demo_node_sign_def)
qed

lemma demo_encodes: "always_encodes demo_env"
  by (simp add: always_encodes_def demo_env_def is_ok_def)

text \<open>C18: the client never puts its name on a receipt it did not ask for. Against any server, in any
  mode and configuration, when the program ends with a bundle to write, its epoch is the configured one
  and every receipt in it verifies under both signatures, names that epoch, the configured work and the
  wallet's own address, and a block index below \<open>CHUNKS\<close> (or 0, the block of the refetch mode).\<close>

theorem client_signs_what_it_asked:
  assumes "client_main env connect var parse_signer args s = (s', Inr (out, bundle))"
    and "\<And>key sg. parse_signer key = Some sg \<Longrightarrow> signs_as env (sg_sign sg) (sg_address sg)"
  shows "\<exists>sg w. Option.bind (var ''PRIVATE_KEY'') parse_signer = Some sg \<and> var ''WORK_ID'' = Some w
     \<and> Option.bind (var ''EPOCH'') parse_u64 = Some (rb_epoch bundle) \<and> var ''OUT'' = Some out
     \<and> list_all (\<lambda>sr. is_ok (signed_verify env sr) \<and> rc_epoch (sr_receipt sr) = rb_epoch bundle
          \<and> rc_work_id (sr_receipt sr) = to_ascii_lowercase w
          \<and> normalize_addr (rc_consumer (sr_receipt sr)) = normalize_addr (sg_address sg)
          \<and> (case opt_env var ''CHUNKS'' 4 of Inl _ \<Rightarrow> False
              | Inr chunks \<Rightarrow> rc_chunk_index (sr_receipt sr) = 0 \<or> rc_chunk_index (sr_receipt sr) < chunks))
        (rb_receipts bundle)"
proof -
  from assms(1) obtain mode w key sg e epoch chunks repeats srs sv where
    c: "var ''WORK_ID'' = Some w" "var ''PRIVATE_KEY'' = Some key" "parse_signer key = Some sg"
      "var ''EPOCH'' = Some e" "parse_u64 e = Some epoch" "opt_env var ''CHUNKS'' 4 = Inr chunks" "var ''OUT'' = Some out"
      "run_mode env sv sg (to_ascii_lowercase w) epoch chunks repeats mode s = (s', Inr srs)"
      "bundle = \<lparr>rb_epoch = epoch, rb_receipts = srs\<rparr>"
    by (auto simp: client_main_def Let_def job_bind_Inr job_lift_Inr req_env_def ok_or_eq_Inr res_bind_eq_Inr)
  from run_mode_asked [OF c(8) assms(2) [OF c(3)]]
  have "list_all (\<lambda>sr. is_ok (signed_verify env sr) \<and> rc_epoch (sr_receipt sr) = epoch
          \<and> rc_work_id (sr_receipt sr) = to_ascii_lowercase w
          \<and> normalize_addr (rc_consumer (sr_receipt sr)) = normalize_addr (sg_address sg)
          \<and> (rc_chunk_index (sr_receipt sr) = 0 \<or> rc_chunk_index (sr_receipt sr) < chunks)) srs"
    by (rule list.pred_mono_strong) (auto simp: asked_def dest: chunk_indices_less)
  with c show ?thesis by (intro exI [of _ sg] exI [of _ w]) simp
qed

definition demo_server :: "unit server" where
  "demo_server =
     \<lparr>sv_content = (\<lambda>w c k s. (s, Inr (if k = 0 then [7, 8, 9] else []))),
      sv_receipt = (\<lambda>w k c s. (s, Inr (Signed \<lparr>rc_work_id = w, rc_consumer = c, rc_node = ''AA'', rc_chunk_index = k,
         rc_bytes = 3, rc_epoch = 3\<rparr> ''0xaa'')))\<rparr>"

lemma demo_client:
  "case client_main demo_env (\<lambda>_. demo_server) demo_var (\<lambda>_. Some demo_signer) [] () of (_, Inl _) \<Rightarrow> False
   | (_, Inr (out, b)) \<Rightarrow> out = ''b.json'' \<and> rb_epoch b = 3 \<and> map (\<lambda>sr. rc_bytes (sr_receipt sr)) (rb_receipts b) = [3]"
  by code_simp

theorem client_signs_what_it_asked_witness:
  "\<exists>s' (b :: receipt_bundle) sr. client_main demo_env (\<lambda>_. demo_server) demo_var
       (\<lambda>_. Some demo_signer) [] () = (s', Inr (''b.json'', b))
     \<and> rb_receipts b = [sr] \<and> rc_bytes (sr_receipt sr) = 3 \<and> is_ok (signed_verify demo_env sr)
     \<and> rc_epoch (sr_receipt sr) = 3"
proof -
  from demo_client obtain s' out b where run: "client_main demo_env (\<lambda>_. demo_server)
       demo_var (\<lambda>_. Some demo_signer) [] () = (s', Inr (out, b))" "out = ''b.json''" "rb_epoch b = 3"
      "map (\<lambda>sr. rc_bytes (sr_receipt sr)) (rb_receipts b) = [3]"
    by (auto split: prod.splits sum.splits)
  from run(4) obtain sr where sr: "rb_receipts b = [sr]" "rc_bytes (sr_receipt sr) = 3" by auto
  have "signs_as demo_env (sg_sign g) (sg_address g)" if "Some demo_signer = Some g" for g
    using that demo_signs(1) by simp
  from client_signs_what_it_asked [OF run(1) this] have
    "is_ok (signed_verify demo_env sr) \<and> rc_epoch (sr_receipt sr) = 3"
    unfolding run(3) sr(1) by auto
  with run sr show ?thesis by simp
qed

text \<open>C14: an honest download is credited to the byte. A client in the honest mode, against a node in
  any state that serves the work's file and signs as its own address, ends with a bundle for which the
  settlement aggregator, trusting that node, credits the pair with exactly the bytes of the file that
  its \<open>CHUNKS\<close> blocks cover: nothing is lost and nothing is counted twice.\<close>

theorem honest_download_credited:
  assumes "always_encodes env" and "signs_as env (sg_sign sg) (sg_address sg)" and "signs_as env sign (nd_addr n)"
    and "is_work_id w" and "to_ascii_lowercase w = w" and "read_file (content_name w) = Inr data"
    and "unat chunks * unat CHUNK_SIZE < 2 ^ 64" and "cred (normalize_addr (nd_addr n))"
  shows "\<exists>n' srs. run_mode env (node_server env sign read_file) sg w (nd_epoch n) chunks repeats ''honest'' n = (n', Inr srs)
     \<and> unat (bt_get_or 0 (accept_receipts env \<lparr>rb_epoch = nd_epoch n, rb_receipts = srs\<rparr> (nd_epoch n) cred)
               (normalize_addr (sg_address sg), w))
         = min (min (length data) (unat chunks * unat CHUNK_SIZE)) U128_MAX"
proof -
  have sz: "unat CHUNK_SIZE = 131072" by (simp add: CHUNK_SIZE_def)
  from assms(7) have "\<forall>k \<in> set [0..<unat chunks]. k * 131072 < 2 ^ 64"
    unfolding sz by (auto intro: le_less_trans [of _ "unat chunks * 131072"])
  from honest_run [where so_far = "[]" and read_file = read_file and w = w, OF assms(1,2,4,5,6,3) this] obtain n' rs where
      r: "run_mode env (node_server env sign read_file) sg w (nd_epoch n) chunks repeats ''honest'' n = (n', Inr rs)"
        "list_all2 (\<lambda>k sr. sr_receipt sr = statement n w (sg_address sg) (of_nat k) (of_nat (length (block_of data k)))
          \<and> asked env w (sg_address sg) (nd_epoch n) (of_nat k) sr)
          (takeWhile (\<lambda>k. k * 131072 < length data) [0..<unat chunks]) rs"
    by (auto simp: run_mode_honest)
  have "unat chunks < 2 ^ LENGTH(64)" by (rule unsigned_less)
  then have "unat chunks \<le> 2 ^ 64" by simp
  from honest_credit [where cred = cred and w = w, OF r(2) this assms(8,5)] r(1) show ?thesis unfolding accept_spec sz by auto
qed

lemma demo_work_lower: "to_ascii_lowercase demo_work = demo_work"
  by code_simp

theorem honest_download_credited_witness:
  "\<exists>n' srs. run_mode demo_env (node_server demo_env demo_node_sign demo_dir) demo_signer demo_work 4 2 0 ''honest''
       (node_start ''AA'' 4) = (n', Inr srs)
     \<and> bt_get_or 0 (accept_receipts demo_env \<lparr>rb_epoch = 4, rb_receipts = srs\<rparr> 4 (\<lambda>_. True)) (''cc'', demo_work) = 3"
proof -
  let ?n = "node_start ''AA'' 4"
  have facts: "signs_as demo_env demo_node_sign (nd_addr ?n)" "unat (2 :: u64) * unat CHUNK_SIZE < 2 ^ 64"
    using demo_signs(2) by (simp_all add: node_start_def CHUNK_SIZE_def)
  have eqs: "normalize_addr (sg_address demo_signer) = ''cc''" by code_simp
  have e: "nd_epoch ?n = 4" by (simp add: node_start_def)
  have three: "min (min (length [7, 8, 9 :: u8]) (unat (2 :: u64) * unat CHUNK_SIZE)) U128_MAX = unat (3 :: u128)"
    by (simp add: CHUNK_SIZE_def U128_MAX_def)
  from honest_download_credited [of demo_env demo_signer demo_node_sign ?n demo_work demo_dir
        "[7, 8, 9]" 2 "\<lambda>_. True" 0, OF demo_encodes demo_signs(1) facts(1) demo_dir_facts(1) demo_work_lower
        demo_dir_facts(2) facts(2) TrueI]
  show ?thesis unfolding eqs e three word_unat_eq_iff [symmetric] .
qed

text \<open>The two dishonest modes gain nothing, and this is not the client's doing. Asking for receipts
  of blocks never fetched, of a node that has served this consumer nothing of the work, ends with an empty
  bundle; fetching block 0 any number of times ends with that many valid receipts, and the aggregator
  credits the block once.\<close>

theorem dishonest_modes_gain_nothing:
  assumes "always_encodes env" and "signs_as env (sg_sign sg) (sg_address sg)" and "signs_as env sign (nd_addr n)"
    and "is_work_id w" and "to_ascii_lowercase w = w" and "read_file (content_name w) = Inr data"
    and "cred (normalize_addr (nd_addr n))" and "\<And>k. ledger_get (nd_ledger n) (sg_address sg) w k = None"
  shows "run_mode env (node_server env sign read_file) sg w (nd_epoch n) chunks repeats ''no-download'' n = (n, Inr [])
     \<and> (\<exists>n' srs. run_mode env (node_server env sign read_file) sg w (nd_epoch n) chunks repeats ''refetch'' n = (n', Inr srs)
          \<and> length srs = unat repeats
          \<and> unat (bt_get_or 0 (accept_receipts env \<lparr>rb_epoch = nd_epoch n, rb_receipts = srs\<rparr> (nd_epoch n) cred)
                    (normalize_addr (sg_address sg), w))
              = (if repeats = 0 then 0 else min (length data) (unat CHUNK_SIZE)))"
proof
  show "run_mode env (node_server env sign read_file) sg w (nd_epoch n) chunks repeats ''no-download'' n = (n, Inr [])"
    using no_download_run [OF assms(8)] by (simp add: run_mode_def)
next
  have sz: "unat CHUNK_SIZE = 131072" by (simp add: CHUNK_SIZE_def)
  from refetch_run [where so_far = "[]" and m = "unat repeats" and read_file = read_file and w = w, OF assms(1,2,4,5,6,3)] obtain n' rs where
      r: "run_mode env (node_server env sign read_file) sg w (nd_epoch n) chunks repeats ''refetch'' n = (n', Inr rs)"
        "length rs = unat repeats"
        "list_all (\<lambda>sr. sr_receipt sr = statement n w (sg_address sg) 0 (of_nat (length (block_of data 0)))
          \<and> asked env w (sg_address sg) (nd_epoch n) 0 sr) rs"
    by (auto simp: run_mode_def)
  have "rs = [] \<longleftrightarrow> repeats = 0" using r(2) unat_eq_zero [of repeats] by (cases rs) auto
  moreover have "min (min (length data) 131072) U128_MAX = min (length data) 131072" by (simp add: U128_MAX_def)
  ultimately show "\<exists>n' srs. run_mode env (node_server env sign read_file) sg w (nd_epoch n) chunks repeats ''refetch'' n = (n', Inr srs)
          \<and> length srs = unat repeats
          \<and> unat (bt_get_or 0 (accept_receipts env \<lparr>rb_epoch = nd_epoch n, rb_receipts = srs\<rparr> (nd_epoch n) cred)
                    (normalize_addr (sg_address sg), w))
              = (if repeats = 0 then 0 else min (length data) (unat CHUNK_SIZE))"
    using r(1,2) refetch_credit [where cred = cred and w = w, OF r(3) assms(7,5)] unfolding accept_spec sz by auto
qed

theorem dishonest_modes_gain_nothing_witness:
  "run_mode demo_env (node_server demo_env demo_node_sign demo_dir) demo_signer demo_work 4 2 100 ''no-download''
       (node_start ''AA'' 4) = (node_start ''AA'' 4, Inr [])
   \<and> (\<exists>n' srs. run_mode demo_env (node_server demo_env demo_node_sign demo_dir) demo_signer demo_work 4 2 100 ''refetch''
       (node_start ''AA'' 4) = (n', Inr srs) \<and> length srs = 100
     \<and> unat (bt_get_or 0 (accept_receipts demo_env \<lparr>rb_epoch = 4, rb_receipts = srs\<rparr> 4 (\<lambda>_. True)) (''cc'', demo_work)) = 3)"
proof -
  have "signs_as demo_env demo_node_sign (nd_addr (node_start ''AA'' 4))" using demo_signs(2) by (simp add: node_start_def)
  moreover have "ledger_get (nd_ledger (node_start ''AA'' 4)) (sg_address demo_signer) demo_work k = None" for k
    by (simp add: node_start_def ledger_get_def)
  moreover have "normalize_addr (sg_address demo_signer) = ''cc''" by code_simp
  moreover have "nd_epoch (node_start ''AA'' 4) = 4" by (simp add: node_start_def)
  ultimately show ?thesis
    using dishonest_modes_gain_nothing [of demo_env demo_signer demo_node_sign "node_start ''AA'' 4" demo_work demo_dir
        "[7, 8, 9]" "\<lambda>_. True" 2 100, OF demo_encodes demo_signs(1) _ demo_dir_facts(1) demo_work_lower demo_dir_facts(2)]
    by (simp add: CHUNK_SIZE_def numeral_3_eq_3)
qed

end
