(* ===== verification/ZkSubmit.thy ===== *)
theory ZkSubmit
  imports Circuit Epoch
begin

text \<open>
  The submitter of usage proofs, \<open>services/settlement/src/bin/zk_submit.rs\<close>, in its three modes, and
  the contract it submits to, \<open>chain/contracts/CWEConsumption.sol\<close> with the key lookup of
  \<open>chain/contracts/CWEEpochBeacon.sol\<close>. The submitter is a computation over the state of a chain it
  knows by four requests; the contract, with the verifier contract as a parameter, is one such
  chain, on which no time passes during a run. Groth16, the key files, the signing key and the JSON
  parser are the fields of \<open>zk_world\<close>. Printed messages are not modelled.
\<close>

section \<open>The configuration\<close>

datatype zk_error =
  ZkUnexpected string | ZkNoMode | ZkMissing string | ZkLoading string | ZkJson string | ZkDeployment string
| ZkHex | ZkLength nat | ZkLoad string | ZkKey | ZkUrl | ZkRpc string | ZkEpoch | ZkProve prove_error | ZkEncode
| ZkReverted | ZkUnknownMode string

record zk_config =
  zc_mode :: string
  zc_rpc_url :: string
  zc_private_key :: string
  zc_consumption :: string
  zc_beacon :: string
  zc_tier :: b32
  zc_work_id :: b32

record ('pk, 'vk, 'pf) zk_world =
  zw_modulus :: int
  zw_poseidon :: "fr list \<Rightarrow> fr"
  zw_prove :: "'pk \<Rightarrow> usage_circuit \<Rightarrow> string + 'pf"
  zw_serialize :: "'pf \<Rightarrow> string + u8 list"
  zw_deserialize :: "u8 list \<Rightarrow> 'pf option"
  zw_groth16_verify :: "'vk \<Rightarrow> fr list \<Rightarrow> 'pf \<Rightarrow> bool option"
  zw_points :: "u8 list \<Rightarrow> (g1 \<times> g2 \<times> g1) option"
  zw_load_pk :: "string \<Rightarrow> string + 'pk"
  zw_load_vk :: "string \<Rightarrow> string + 'vk"
  zw_var :: "string \<Rightarrow> string option"
  zw_read :: "string \<Rightarrow> string + string"
  zw_json_strings :: "string \<Rightarrow> string + (string \<Rightarrow> string option)"
  zw_hex_decode :: "string \<Rightarrow> u8 list option"
  zw_is_address :: "string \<Rightarrow> bool"
  zw_is_key :: "string \<Rightarrow> bool"
  zw_is_url :: "string \<Rightarrow> bool"

definition PK_PATH :: string where "PK_PATH = ''chain/zk/proving_key.bin''"
definition VK_PATH :: string where "VK_PATH = ''chain/zk/verifying_key.bin''"
definition K_PPM :: u64 where "K_PPM = 1000000"

definition parse_bytes32 :: "(string \<Rightarrow> u8 list option) \<Rightarrow> string \<Rightarrow> zk_error + b32" where
  "parse_bytes32 hex_decode s =
     res_bind (ok_or ZkHex (hex_decode (trim_start_0x s))) (\<lambda>bytes.
     if length bytes \<noteq> 32 then Inl (ZkLength (length bytes)) else Inr bytes)"

definition zk_req_env :: "(string \<Rightarrow> string option) \<Rightarrow> string \<Rightarrow> zk_error + string" where
  "zk_req_env var name = ok_or (ZkMissing name) (var name)"

definition sample_row :: "b32 \<Rightarrow> usage_row_input" where
  "sample_row work_id =
     \<lparr>ri_work_id = work_id, ri_minutes = 60, ri_plays = 2, ri_salt = replicate 32 9,
      ri_price_ppm = 1000000, ri_region_ppm = 1000000\<rparr>"

text \<open>A \<open>--mode\<close> that ends the arguments resets the mode.\<close>

fun zk_parse_mode :: "string option \<Rightarrow> string list \<Rightarrow> zk_error + string option" where
  "zk_parse_mode mode [] = Inr mode"
| "zk_parse_mode mode (arg # rest) =
     (if arg = ''--mode'' then (case rest of [] \<Rightarrow> Inr None | m # rest' \<Rightarrow> zk_parse_mode (Some m) rest')
      else Inl (ZkUnexpected arg))"

definition zkwork :: b32 where
  "zkwork = map of_char ''zkwork'' @ replicate 26 0"

definition zk_address :: "(string \<Rightarrow> bool) \<Rightarrow> (string \<Rightarrow> string option) \<Rightarrow> string \<Rightarrow> zk_error + string" where
  "zk_address addr_ok json name =
     res_bind (ok_or (ZkDeployment name) (json name)) (\<lambda>a. if addr_ok a then Inr a else Inl (ZkDeployment name))"

definition zk_config_parse :: "('pk, 'vk, 'pf) zk_world \<Rightarrow> string list \<Rightarrow> zk_error + zk_config" where
  "zk_config_parse w args =
     res_bind (zk_parse_mode None args) (\<lambda>o_mode.
     res_bind (ok_or ZkNoMode o_mode) (\<lambda>mode.
     let rpc = or_default ''http://127.0.0.1:8545'' (zw_var w ''RPC_URL'') in
     res_bind (zk_req_env (zw_var w) ''PRIVATE_KEY'') (\<lambda>key.
     let path = or_default ''chain/deployments/localhost.json'' (zw_var w ''DEPLOYMENTS'') in
     res_bind (map_err ZkLoading (zw_read w path)) (\<lambda>raw.
     res_bind (map_err ZkJson (zw_json_strings w raw)) (\<lambda>json.
     res_bind (zk_address (zw_is_address w) json ''consumption'') (\<lambda>cons.
     res_bind (zk_address (zw_is_address w) json ''beacon'') (\<lambda>beac.
     res_bind (res_bind (zk_req_env (zw_var w) ''TIER'') (parse_bytes32 (zw_hex_decode w))) (\<lambda>tier.
     res_bind (case zw_var w ''WORK_ID'' of Some s \<Rightarrow> parse_bytes32 (zw_hex_decode w) s | None \<Rightarrow> Inr zkwork) (\<lambda>work.
     Inr \<lparr>zc_mode = mode, zc_rpc_url = rpc, zc_private_key = key, zc_consumption = cons, zc_beacon = beac,
          zc_tier = tier, zc_work_id = work\<rparr>)))))))))"

section \<open>The three modes\<close>

text \<open>The arguments of \<open>submitConsumption\<close>, and the requests made of the chain: the last one is the
  status of a sent transaction.\<close>

record usage_call =
  sc_tier :: b32
  sc_commitments :: "b32 list"
  sc_pseudonyms :: "b32 list"
  sc_work_ids :: "b32 list"
  sc_weights :: "u256 list"
  sc_digest :: b32
  sc_proof :: "u8 list"

record ('s, 'tx) chain_api =
  ca_current_epoch :: "('s, zk_error, u256) proc"
  ca_key_for :: "u256 \<Rightarrow> ('s, zk_error, b32) proc"
  ca_send :: "usage_call \<Rightarrow> ('s, zk_error, 'tx) proc"
  ca_status :: "'tx \<Rightarrow> ('s, zk_error, bool) proc"

definition usage_call_of :: "nat \<Rightarrow> b32 \<Rightarrow> proof_bundle \<Rightarrow> u8 list \<Rightarrow> usage_call" where
  "usage_call_of n tier bundle prf =
     (let active = take n (pb_rows bundle)
      in \<lparr>sc_tier = tier, sc_commitments = map pr_commitment active, sc_pseudonyms = map pr_pseudonym active,
          sc_work_ids = map pr_work_id active, sc_weights = map (\<lambda>r. ucast (pr_weight r)) active,
          sc_digest = pb_digest bundle, sc_proof = prf\<rparr>)"

text \<open>What the honest and the tampering mode do alike: load the key, read the epoch and its key, prove
  the sample and encode the call.\<close>

definition prove_live ::
    "('pk, 'vk, 'pf) zk_world \<Rightarrow> ('s, 'tx) chain_api \<Rightarrow> zk_config \<Rightarrow> ('s, zk_error, usage_call) proc" where
  "prove_live w api cfg =
     job_bind (job_lift (map_err ZkLoad (zw_load_pk w PK_PATH))) (\<lambda>pk.
     job_bind (job_lift (if zw_is_key w (zc_private_key cfg) then Inr () else Inl ZkKey)) (\<lambda>_.
     job_bind (job_lift (if zw_is_url w (zc_rpc_url cfg) then Inr () else Inl ZkUrl)) (\<lambda>_.
     job_bind (ca_current_epoch api) (\<lambda>epoch_word.
     job_bind (job_lift (ok_or ZkEpoch (u64_of_u256 epoch_word))) (\<lambda>epoch.
     job_bind (ca_key_for api (ucast epoch)) (\<lambda>k_epoch.
     let inputs = [sample_row (zc_work_id cfg)] in
     job_bind (job_lift (map_err ZkProve (prove (zw_modulus w) (zw_poseidon w) (zw_prove w) (zw_serialize w)
                  pk epoch (zc_tier cfg) k_epoch K_PPM inputs))) (\<lambda>bundle.
     job_bind (job_lift (ok_or ZkEncode (proof_to_evm_calldata (zw_points w) (pb_proof bundle)))) (\<lambda>prf.
     job_lift (Inr (usage_call_of (length inputs) (zc_tier cfg) bundle prf))))))))))"

definition run_honest ::
    "('pk, 'vk, 'pf) zk_world \<Rightarrow> ('s, 'tx) chain_api \<Rightarrow> zk_config \<Rightarrow> ('s, zk_error, unit) proc" where
  "run_honest w api cfg =
     job_bind (prove_live w api cfg) (\<lambda>call.
     job_bind (ca_send api call) (\<lambda>tx.
     job_bind (ca_status api tx) (\<lambda>status.
     job_lift (if status then Inr () else Inl ZkReverted))))"

definition tampered :: "b32 \<Rightarrow> b32" where
  "tampered dg = dg[0 := dg ! 0 XOR 255]"

definition run_tamper_digest ::
    "('pk, 'vk, 'pf) zk_world \<Rightarrow> ('s, 'tx) chain_api \<Rightarrow> zk_config \<Rightarrow> ('s, zk_error, bool) proc" where
  "run_tamper_digest w api cfg =
     job_bind (prove_live w api cfg) (\<lambda>call s.
     case ca_send api (call\<lparr>sc_digest := tampered (sc_digest call)\<rparr>) s of
       (s', Inl _) \<Rightarrow> (s', Inr True)
     | (s', Inr tx) \<Rightarrow> job_bind (ca_status api tx) (\<lambda>status. job_lift (Inr (\<not> status))) s')"

definition run_row_split :: "('pk, 'vk, 'pf) zk_world \<Rightarrow> zk_config \<Rightarrow> zk_error + bool" where
  "run_row_split w cfg =
     res_bind (map_err ZkLoad (zw_load_pk w PK_PATH)) (\<lambda>pk.
     let inputs = [sample_row (zc_work_id cfg), sample_row (zc_work_id cfg)] in
     case prove (zw_modulus w) (zw_poseidon w) (zw_prove w) (zw_serialize w) pk 1 (zc_tier cfg)
            (replicate 32 17) K_PPM inputs of
       Inl _ \<Rightarrow> Inr True
     | Inr bundle \<Rightarrow>
         res_bind (map_err ZkLoad (zw_load_vk w VK_PATH)) (\<lambda>vk.
         Inr (\<not> verify (zw_modulus w) (zw_deserialize w) (zw_groth16_verify w) vk (pb_digest bundle) (pb_proof bundle))))"

text \<open>The process: whether it exits with success.\<close>

definition zk_submit_main ::
    "('pk, 'vk, 'pf) zk_world \<Rightarrow> (zk_config \<Rightarrow> ('s, 'tx) chain_api) \<Rightarrow> string list \<Rightarrow> 's \<Rightarrow> 's \<times> bool" where
  "zk_submit_main w connect args s =
     (case zk_config_parse w args of
        Inl _ \<Rightarrow> (s, False)
      | Inr cfg \<Rightarrow>
          if zc_mode cfg = ''honest'' then
            (case run_honest w (connect cfg) cfg s of (s', r) \<Rightarrow> (s', is_ok r))
          else if zc_mode cfg = ''tamper-digest'' then
            (case run_tamper_digest w (connect cfg) cfg s of (s', r) \<Rightarrow> (s', r = Inr True))
          else if zc_mode cfg = ''row-split'' then (s, run_row_split w cfg = Inr True)
          else (s, False))"

section \<open>The contract\<close>

datatype consumption_revert = NoCommitments | ArityMismatch | AlreadySubmitted u256 string | ProofRejected

record consumption_state =
  ct_timestamp :: u256
  ct_keys :: "u256 \<Rightarrow> b32"
  ct_submitted :: "u256 \<Rightarrow> string \<Rightarrow> bool"
  ct_log :: "(u256 \<times> submission) list"

definition EPOCH_LENGTH :: u256 where "EPOCH_LENGTH = 2592000"

definition contract_epoch :: "consumption_state \<Rightarrow> u256" where
  "contract_epoch c = ct_timestamp c div EPOCH_LENGTH"

definition contract_submit ::
    "(b32 \<Rightarrow> u8 list \<Rightarrow> bool) \<Rightarrow> string \<Rightarrow> usage_call \<Rightarrow> consumption_state \<Rightarrow> consumption_revert + consumption_state" where
  "contract_submit verifier sender call c =
     (let n = length (sc_commitments call); epoch = contract_epoch c in
      if n = 0 then Inl NoCommitments
      else if n \<noteq> length (sc_pseudonyms call) \<or> n \<noteq> length (sc_work_ids call) \<or> n \<noteq> length (sc_weights call)
      then Inl ArityMismatch
      else if ct_submitted c epoch sender then Inl (AlreadySubmitted epoch sender)
      else if \<not> verifier (sc_digest call) (sc_proof call) then Inl ProofRejected
      else Inr (c\<lparr>ct_submitted := (ct_submitted c)(epoch := (ct_submitted c epoch)(sender := True)),
                  ct_log := ct_log c @ [(epoch, \<lparr>ev_user = sender, ev_tier = sc_tier call,
                    ev_digest = sc_digest call, ev_pseudonyms = sc_pseudonyms call,
                    ev_work_ids = sc_work_ids call, ev_weights = sc_weights call\<rparr>)]\<rparr>))"

text \<open>The contract as a chain; a revert surfaces when the transaction is sent, or in its status.\<close>

definition contract_api ::
    "bool \<Rightarrow> (b32 \<Rightarrow> u8 list \<Rightarrow> bool) \<Rightarrow> string \<Rightarrow> (consumption_state, bool) chain_api" where
  "contract_api estimates verifier sender =
     \<lparr>ca_current_epoch = (\<lambda>c. (c, Inr (contract_epoch c))),
      ca_key_for = (\<lambda>epoch c. (c, Inr (ct_keys c epoch))),
      ca_send = (\<lambda>call c.
        case contract_submit verifier sender call c of
          Inl _ \<Rightarrow> (c, if estimates then Inl (ZkRpc ''execution reverted'') else Inr False)
        | Inr c' \<Rightarrow> (c', Inr True)),
      ca_status = (\<lambda>tx c. (c, Inr tx))\<rparr>"

section \<open>An honest run\<close>

text \<open>Completeness of the proof system with these keys: a satisfied circuit has a proof that serializes,
  encodes, and that the verifier contract accepts for the circuit's digest.\<close>

definition completes :: "('pk, 'vk, 'pf) zk_world \<Rightarrow> 'pk \<Rightarrow> (b32 \<Rightarrow> u8 list \<Rightarrow> bool) \<Rightarrow> bool" where
  "completes w pk verifier \<longleftrightarrow>
     (\<forall>c. circuit_satisfied (zw_modulus w) (zw_poseidon w) c \<longrightarrow>
        (\<exists>pf bytes calldata. zw_prove w pk c = Inr pf \<and> zw_serialize w pf = Inr bytes
           \<and> proof_to_evm_calldata (zw_points w) bytes = Some calldata \<and> verifier (uc_digest c) calldata))"

definition configured :: "('pk, 'vk, 'pf) zk_world \<Rightarrow> zk_config \<Rightarrow> 'pk \<Rightarrow> bool" where
  "configured w cfg pk \<longleftrightarrow>
     zw_load_pk w PK_PATH = Inr pk \<and> zw_is_key w (zc_private_key cfg) \<and> zw_is_url w (zc_rpc_url cfg)"

lemma sample_provable: "fr_from_bytes32 p work_id \<noteq> 0 \<Longrightarrow> provable_input p (sample_row work_id)"
  by (simp add: provable_input_def sample_row_def)

definition sample_circuit :: "('pk, 'vk, 'pf) zk_world \<Rightarrow> zk_config \<Rightarrow> u64 \<Rightarrow> b32 \<Rightarrow> usage_circuit" where
  "sample_circuit w cfg epoch k_epoch =
     prove_circuit (zw_modulus w) (zw_poseidon w) epoch (zc_tier cfg) k_epoch K_PPM [sample_row (zc_work_id cfg)]"

definition sample_public :: "('pk, 'vk, 'pf) zk_world \<Rightarrow> zk_config \<Rightarrow> b32 \<Rightarrow> public_row" where
  "sample_public w cfg k_epoch =
     public_row_of (active_row (zw_modulus w) (zw_poseidon w) k_epoch K_PPM (sample_row (zc_work_id cfg)))"

definition sample_call :: "('pk, 'vk, 'pf) zk_world \<Rightarrow> zk_config \<Rightarrow> u64 \<Rightarrow> b32 \<Rightarrow> u8 list \<Rightarrow> usage_call" where
  "sample_call w cfg epoch k_epoch calldata =
     (let row = sample_public w cfg k_epoch
      in \<lparr>sc_tier = zc_tier cfg, sc_commitments = [pr_commitment row], sc_pseudonyms = [pr_pseudonym row],
          sc_work_ids = [pr_work_id row], sc_weights = [ucast (pr_weight row)],
          sc_digest = uc_digest (sample_circuit w cfg epoch k_epoch), sc_proof = calldata\<rparr>)"

lemma sample_call_of:
  assumes "prove (zw_modulus w) (zw_poseidon w) (zw_prove w) (zw_serialize w) pk epoch (zc_tier cfg) k_epoch K_PPM
      [sample_row (zc_work_id cfg)] = Inr bundle"
  shows "usage_call_of 1 (zc_tier cfg) bundle calldata = sample_call w cfg epoch k_epoch calldata"
    and "pb_digest bundle = uc_digest (sample_circuit w cfg epoch k_epoch)"
  using assms
  by (auto simp: prove_def Let_def res_bind_eq_Inr map_err_eq_Inr MAX_WORKS_def usage_call_of_def sample_call_def
      sample_public_def sample_circuit_def prove_circuit_def pad_to_def)

lemma prove_live_Inr:
  "prove_live w (contract_api est verifier sender) cfg c = (c', Inr call) \<longleftrightarrow>
     c' = c \<and> (\<exists>pk epoch bundle calldata. configured w cfg pk \<and> u64_of_u256 (contract_epoch c) = Some epoch
       \<and> prove (zw_modulus w) (zw_poseidon w) (zw_prove w) (zw_serialize w) pk epoch (zc_tier cfg)
           (ct_keys c (ucast epoch)) K_PPM [sample_row (zc_work_id cfg)] = Inr bundle
       \<and> proof_to_evm_calldata (zw_points w) (pb_proof bundle) = Some calldata
       \<and> call = sample_call w cfg epoch (ct_keys c (ucast epoch)) calldata)"
proof -
  have len: "length [sample_row (zc_work_id cfg)] = 1" by simp
  have api: "ca_current_epoch (contract_api est verifier sender) = (\<lambda>c. (c, Inr (contract_epoch c)))"
      "ca_key_for (contract_api est verifier sender) = (\<lambda>epoch c. (c, Inr (ct_keys c epoch)))"
    by (simp_all add: contract_api_def)
  show ?thesis
    unfolding prove_live_def Let_def api len
    by (auto simp: job_bind_Inr job_lift_Inr map_err_eq_Inr ok_or_eq_Inr configured_def sample_call_of(1) [simplified] split: if_splits)
qed

lemma contract_send:
  "ca_send (contract_api est verifier sender) call c =
     (case contract_submit verifier sender call c of
        Inl _ \<Rightarrow> (c, if est then Inl (ZkRpc ''execution reverted'') else Inr False)
      | Inr c' \<Rightarrow> (c', Inr True))"
  "ca_status (contract_api est verifier sender) tx c = (c, Inr tx)"
  by (simp_all add: contract_api_def)

lemma complete_sample:
  assumes "2 ^ 253 < zw_modulus w" and "zw_modulus w \<le> 2 ^ 256" and "hash_in_field (zw_modulus w) (zw_poseidon w)"
    and "completes w pk verifier" and "configured w cfg pk" and "fr_from_bytes32 (zw_modulus w) (zc_work_id cfg) \<noteq> 0"
    and "u64_of_u256 (contract_epoch c) = Some epoch"
  shows "\<exists>calldata. prove_live w (contract_api est verifier sender) cfg c
        = (c, Inr (sample_call w cfg epoch (ct_keys c (ucast epoch)) calldata))
     \<and> verifier (uc_digest (sample_circuit w cfg epoch (ct_keys c (ucast epoch)))) calldata"
proof -
  let ?k = "ct_keys c (ucast epoch)"
  have "circuit_satisfied (zw_modulus w) (zw_poseidon w) (sample_circuit w cfg epoch ?k)"
    unfolding sample_circuit_def K_PPM_def
    by (rule circuit_complete [OF assms(1-3)]) (use sample_provable [OF assms(6)] in \<open>simp_all add: MAX_WORKS_def\<close>)
  with assms(4) obtain pf bytes calldata where p: "zw_prove w pk (sample_circuit w cfg epoch ?k) = Inr pf"
      "zw_serialize w pf = Inr bytes" "proof_to_evm_calldata (zw_points w) bytes = Some calldata"
      "verifier (uc_digest (sample_circuit w cfg epoch ?k)) calldata"
    unfolding completes_def by blast
  have "\<exists>bundle. prove (zw_modulus w) (zw_poseidon w) (zw_prove w) (zw_serialize w) pk epoch (zc_tier cfg) ?k K_PPM
      [sample_row (zc_work_id cfg)] = Inr bundle \<and> pb_proof bundle = bytes"
    using p(1,2) by (simp add: prove_def Let_def sample_circuit_def MAX_WORKS_def res_bind_def map_err_def)
  with p(3,4) assms(5,7) show ?thesis unfolding prove_live_Inr by blast
qed

text \<open>The event the contract emits for an accepted call.\<close>

definition event_of :: "string \<Rightarrow> usage_call \<Rightarrow> submission" where
  "event_of sender call =
     \<lparr>ev_user = sender, ev_tier = sc_tier call, ev_digest = sc_digest call, ev_pseudonyms = sc_pseudonyms call,
      ev_work_ids = sc_work_ids call, ev_weights = sc_weights call\<rparr>"

lemma contract_submit_Inr:
  "contract_submit verifier sender call c = Inr c' \<longleftrightarrow>
     sc_commitments call \<noteq> [] \<and> length (sc_pseudonyms call) = length (sc_commitments call)
     \<and> length (sc_work_ids call) = length (sc_commitments call) \<and> length (sc_weights call) = length (sc_commitments call)
     \<and> \<not> ct_submitted c (contract_epoch c) sender \<and> verifier (sc_digest call) (sc_proof call)
     \<and> c' = c\<lparr>ct_submitted := (ct_submitted c)(contract_epoch c := (ct_submitted c (contract_epoch c))(sender := True)),
              ct_log := ct_log c @ [(contract_epoch c, event_of sender call)]\<rparr>"
  by (auto simp: contract_submit_def Let_def event_of_def)

lemma sample_event_genuine:
  assumes "pm_modulus pm = zw_modulus w" and "pm_poseidon pm = zw_poseidon w"
  shows "genuine pm epoch k_epoch (event_of sender (sample_call w cfg epoch k_epoch calldata))"
    and "in_range (event_of sender (sample_call w cfg epoch k_epoch calldata))"
    and "submission_rows (event_of sender (sample_call w cfg epoch k_epoch calldata))
       = [(sample_public w cfg k_epoch)\<lparr>pr_commitment := replicate 32 0\<rparr>]"
proof -
  have narrow: "ucast (ucast (pr_weight row) :: u256) = pr_weight row" for row
    by (rule ucast_up_ucast_id) (simp add: is_up)
  show rows: "submission_rows (event_of sender (sample_call w cfg epoch k_epoch calldata))
       = [(sample_public w cfg k_epoch)\<lparr>pr_commitment := replicate 32 0\<rparr>]"
    by (simp add: submission_rows_def event_of_def sample_call_def Let_def narrow)
  have "digest_from_active (pm_modulus pm) (pm_poseidon pm) epoch (zc_tier cfg) k_epoch
      [(sample_public w cfg k_epoch)\<lparr>pr_commitment := replicate 32 0\<rparr>] = Inr (uc_digest (sample_circuit w cfg epoch k_epoch))"
    by (simp add: assms digest_from_active_def sample_circuit_def prove_circuit_def Let_def digest_def digest_inputs_def
        pad_to_def MAX_WORKS_def sample_public_def)
  then show "genuine pm epoch k_epoch (event_of sender (sample_call w cfg epoch k_epoch calldata))"
    unfolding genuine_def rows by (simp add: same_lengths_def event_of_def sample_call_def Let_def)
  show "in_range (event_of sender (sample_call w cfg epoch k_epoch calldata))"
    using u128_lt by (simp add: in_range_def event_of_def sample_call_def Let_def MAX_WORKS_def unat_u128_u256)
qed

lemma u64_of_u256_back:
  assumes "u64_of_u256 x = Some y"
  shows "ucast y = x"
proof -
  from assms have "unat x < 2 ^ LENGTH(64)" and y: "y = ucast x"
    unfolding u64_of_u256_def uint_lt_iff by (auto split: if_splits)
  from unat_ucast_exact [OF this(1)] have "unat y = unat x" by (simp only: y)
  moreover have "unat y < 2 ^ LENGTH(256)" using less_trans [OF u64_lt [of y], of "2 ^ LENGTH(256)"] by simp
  then have "unat (ucast y :: u256) = unat y" by (rule unat_ucast_exact)
  ultimately show ?thesis by (simp add: word_unat_eq_iff)
qed

text \<open>C7: from a usage proof to a payment. With a complete proof system, a submitter that has not
  submitted this epoch runs the honest mode to success; the contract records it and appends exactly one
  event; and the settlement job, reading that event under the same epoch and key, accepts it: it enters
  the user's tier fee and one row, for the configured work, of the weight the payout rules give 60
  minutes in 2 plays.\<close>

theorem honest_submission_is_paid:
  assumes "2 ^ 253 < zw_modulus w" and "zw_modulus w \<le> 2 ^ 256" and "hash_in_field (zw_modulus w) (zw_poseidon w)"
    and "completes w pk verifier" and "configured w cfg pk" and "fr_from_bytes32 (zw_modulus w) (zc_work_id cfg) \<noteq> 0"
    and "u64_of_u256 (contract_epoch c) = Some epoch" and "\<not> ct_submitted c (contract_epoch c) sender"
    and "pm_modulus pm = zw_modulus w" and "pm_poseidon pm = zw_poseidon w"
    and "fee_of ch (zc_tier cfg) = Inr fee" and "unat fee < 2 ^ 128"
  shows "\<exists>c' ev. run_honest w (contract_api est verifier sender) cfg c = (c', Inr ())
     \<and> ct_submitted c' (contract_epoch c) sender \<and> ct_log c' = ct_log c @ [(contract_epoch c, ev)]
     \<and> pay_event pm ch epoch (ct_keys c (contract_epoch c)) (fees, rows) (Inr ev)
         = Inr (bt_insert sender (ucast fee) fees, rows @
             [\<lparr>rr_user = sender, rr_work = bytes32_to_string (pm_hex_encode pm) (Bytes32 (zc_work_id cfg)),
               rr_raw = weight_of 60 2 1000000 1000000 1000000\<rparr>])"
proof -
  have key: "ucast epoch = contract_epoch c" by (rule u64_of_u256_back [OF assms(7)])
  let ?k = "ct_keys c (ucast epoch)"
  from complete_sample [OF assms(1-7), where est = est and sender = sender] obtain calldata where
      live: "prove_live w (contract_api est verifier sender) cfg c = (c, Inr (sample_call w cfg epoch ?k calldata))"
      and ok: "verifier (uc_digest (sample_circuit w cfg epoch ?k)) calldata"
    by blast
  let ?call = "sample_call w cfg epoch ?k calldata" and ?ev = "event_of sender (sample_call w cfg epoch ?k calldata)"
  have call: "sc_commitments ?call \<noteq> []" "length (sc_pseudonyms ?call) = length (sc_commitments ?call)"
      "length (sc_work_ids ?call) = length (sc_commitments ?call)" "length (sc_weights ?call) = length (sc_commitments ?call)"
      "verifier (sc_digest ?call) (sc_proof ?call)" "sc_tier ?call = zc_tier cfg"
    using ok by (simp_all add: sample_call_def Let_def)
  then obtain c' where c': "contract_submit verifier sender ?call c = Inr c'" "ct_submitted c' (contract_epoch c) sender"
      "ct_log c' = ct_log c @ [(contract_epoch c, ?ev)]"
    using assms(8) contract_submit_Inr [of verifier sender ?call c] by fastforce
  have run: "run_honest w (contract_api est verifier sender) cfg c = (c', Inr ())"
    by (simp add: run_honest_def job_bind_def live contract_send c'(1) job_lift_def)
  have "paid_rows pm sender (submission_rows ?ev)
      = [\<lparr>rr_user = sender, rr_work = bytes32_to_string (pm_hex_encode pm) (Bytes32 (zc_work_id cfg)),
               rr_raw = weight_of 60 2 1000000 1000000 1000000\<rparr>]"
    unfolding sample_event_genuine(3) [OF assms(9,10)]
    by (simp add: paid_rows_def sample_public_def public_row_of_def active_row_def Let_def sample_row_def K_PPM_def)
  moreover have "ev_user ?ev = sender" "ev_tier ?ev = zc_tier cfg" by (simp_all add: event_of_def call)
  moreover have "genuine pm epoch ?k ?ev" "in_range ?ev" by (rule sample_event_genuine [OF assms(9,10)])+
  moreover from this(1) have "same_lengths ?ev" by (simp add: genuine_def)
  ultimately have "pay_event pm ch epoch ?k (fees, rows) (Inr ?ev)
         = Inr (bt_insert sender (ucast fee) fees, rows @
             [\<lparr>rr_user = sender, rr_work = bytes32_to_string (pm_hex_encode pm) (Bytes32 (zc_work_id cfg)),
               rr_raw = weight_of 60 2 1000000 1000000 1000000\<rparr>])"
    using assms(11,12) unfolding pay_event_Inr by simp
  with run c' key show ?thesis by auto
qed
definition ex_zk_world :: "(unit, unit, unit) zk_world" where
  "ex_zk_world = \<lparr>zw_modulus = bn254_modulus, zw_poseidon = sum_hash, zw_prove = (\<lambda>_ _. Inr ()),
     zw_serialize = (\<lambda>_. Inr []), zw_deserialize = (\<lambda>_. Some ()), zw_groth16_verify = (\<lambda>_ _ _. Some False),
     zw_points = (\<lambda>_. Some ((1, 2), ((3, 4), (5, 6)), (7, 8))), zw_load_pk = (\<lambda>_. Inr ()), zw_load_vk = (\<lambda>_. Inr ()),
     zw_var = (\<lambda>_. None), zw_read = Inl, zw_json_strings = Inl, zw_hex_decode = decode_hex, zw_is_address = (\<lambda>_. True),
     zw_is_key = (\<lambda>_. True), zw_is_url = (\<lambda>_. True)\<rparr>"

definition ex_zk_config :: zk_config where
  "ex_zk_config = \<lparr>zc_mode = ''honest'', zc_rpc_url = [], zc_private_key = [], zc_consumption = [], zc_beacon = [],
     zc_tier = [1], zc_work_id = replicate 31 0 @ [9]\<rparr>"

definition ex_consumption :: consumption_state where
  "ex_consumption = \<lparr>ct_timestamp = 2592005, ct_keys = (\<lambda>_. [2]), ct_submitted = (\<lambda>_ _. False), ct_log = []\<rparr>"

lemma ex_work_id: "be_int (replicate 31 0 @ [9]) = 9"
  by code_simp

lemma ex_zk_facts:
  "2 ^ 253 < zw_modulus ex_zk_world" "zw_modulus ex_zk_world \<le> 2 ^ 256"
  "hash_in_field (zw_modulus ex_zk_world) (zw_poseidon ex_zk_world)"
  "completes ex_zk_world () (\<lambda>_ _. True)" "configured ex_zk_world ex_zk_config ()"
  "fr_from_bytes32 (zw_modulus ex_zk_world) (zc_work_id ex_zk_config) \<noteq> 0"
  "contract_epoch ex_consumption = 1"
proof -
  show "fr_from_bytes32 (zw_modulus ex_zk_world) (zc_work_id ex_zk_config) \<noteq> 0"
    by (simp add: ex_zk_world_def ex_zk_config_def fr_from_bytes32_def ex_work_id bn254_modulus_def)
qed (use ex_field in \<open>simp_all add: ex_zk_world_def completes_def proof_to_evm_calldata_def configured_def
      contract_epoch_def ex_consumption_def EPOCH_LENGTH_def\<close>)

lemma ex_zk_epoch: "u64_of_u256 (contract_epoch ex_consumption) = Some 1" "ct_submitted ex_consumption e a = False"
  by (simp_all add: ex_zk_facts u64_of_u256_def) (simp add: ex_consumption_def)

theorem honest_submission_is_paid_witness:
  "\<exists>c' ev. run_honest ex_zk_world (contract_api True (\<lambda>_ _. True) ''0xaa'') ex_zk_config ex_consumption = (c', Inr ())
     \<and> ct_log c' = [(1, ev)]
     \<and> pay_event (ex_prims\<lparr>pm_modulus := bn254_modulus, pm_poseidon := sum_hash\<rparr>) ((ex_chain [])\<lparr>fee_of := (\<lambda>_. Inr 7)\<rparr>) 1 [2]
         ([], []) (Inr ev)
       = Inr ([(''0xaa'', 7)], [\<lparr>rr_user = ''0xaa'',
           rr_work = bytes32_to_string hex_string (Bytes32 (zc_work_id ex_zk_config)),
           rr_raw = weight_of 60 2 1000000 1000000 1000000\<rparr>])"
proof -
  let ?pm = "ex_prims\<lparr>pm_modulus := bn254_modulus, pm_poseidon := sum_hash\<rparr>"
  have pm: "pm_modulus ?pm = zw_modulus ex_zk_world" "pm_poseidon ?pm = zw_poseidon ex_zk_world" "pm_hex_encode ?pm = hex_string"
    by (simp_all add: ex_zk_world_def ex_prims_def)
  have "fee_of ((ex_chain [])\<lparr>fee_of := (\<lambda>_. Inr 7)\<rparr>) (zc_tier ex_zk_config) = Inr 7" "unat (7 :: u256) < 2 ^ 128" by simp_all
  note paid = honest_submission_is_paid [where sender = "''0xaa''" and est = True and fees = "[]" and rows = "[]",
      OF ex_zk_facts(1-6) ex_zk_epoch(1) _ pm(1,2) this]
  have "ct_log ex_consumption = []" "ct_keys ex_consumption 1 = [2]" by (simp_all add: ex_consumption_def)
  with paid show ?thesis by (fastforce simp add: ex_zk_epoch ex_zk_facts pm(3))
qed

section \<open>The two attacks\<close>

lemma uint_xor_255: "uint (x XOR 255 :: u8) = 255 - uint x"
proof -
  have ones: "(255 :: u8) = - 1" by simp
  have "take_bit 8 (uint x) = uint x" by (rule take_bit_int_eq_self) (use uint_lt2p [of x] in simp_all)
  moreover have "uint (NOT x) = take_bit 8 (NOT (uint x))" by (simp add: unsigned_not_eq)
  ultimately show ?thesis unfolding ones by (simp add: take_bit_not_eq_mask_diff mask_eq_exp_minus_1)
qed

lemma tampered_value:
  assumes "length d = 32"
  shows "be_int (tampered d) - be_int d = (255 - 2 * uint (d ! 0)) * 2 ^ 248"
proof -
  obtain x xs where d: "d = x # xs" "length xs = 31" using assms by (cases d) auto
  have "be_int (y # xs) = uint y * 256 ^ 31 + be_int xs" for y
    using be_int_concat [of "[y]" xs] d(2) by (simp add: be_int_def)
  then show ?thesis by (simp add: d tampered_def uint_xor_255 algebra_simps)
qed

text \<open>Flipping the top byte never gives another name of the same field element.\<close>

lemma tampered_differs:
  assumes "length d = 32" and "odd p" and "255 < p"
  shows "fr_from_bytes32 p (tampered d) \<noteq> fr_from_bytes32 p d"
proof
  assume "fr_from_bytes32 p (tampered d) = fr_from_bytes32 p d"
  then have "p dvd be_int (tampered d) - be_int d" by (simp add: fr_from_bytes32_def mod_eq_dvd_iff)
  then have "p dvd (255 - 2 * uint (d ! 0)) * 2 ^ 248" by (simp only: tampered_value [OF assms(1)])
  moreover have "coprime p (2 ^ 248)" using assms(2) by (metis coprime_power_right_iff coprime_right_2_iff_odd)
  ultimately have dv: "p dvd 255 - 2 * uint (d ! 0)" by (simp only: coprime_dvd_mult_left_iff)
  have "uint (d ! 0) < 256" "0 \<le> uint (d ! 0)" using uint_lt2p [of "d ! 0"] by simp_all
  then have "\<bar>255 - 2 * uint (d ! 0)\<bar> < p" using assms(3) by linarith
  with dv have "255 - 2 * uint (d ! 0) = 0" using zdvd_imp_le [of p "\<bar>255 - 2 * uint (d ! 0)\<bar>"] by fastforce
  then show False by presburger
qed
text \<open>What the tampering mode observes. The digest it submits is another field element, so another
  public input, than the one its proof was made for. It reports a failure exactly when the contract,
  hence the verifier, accepted the proof for that other input, and whenever it reports the rejection,
  or stops with an error, nothing was recorded.\<close>

theorem tampered_digest_is_another_input:
  assumes "odd (zw_modulus w)" and "255 < zw_modulus w"
    and "run_tamper_digest w (contract_api est verifier sender) cfg c = (c', r)"
  shows "if r = Inr False
     then \<exists>pk epoch bd calldata.
         prove (zw_modulus w) (zw_poseidon w) (zw_prove w) (zw_serialize w) pk epoch (zc_tier cfg)
           (ct_keys c (contract_epoch c)) K_PPM [sample_row (zc_work_id cfg)] = Inr bd
       \<and> proof_to_evm_calldata (zw_points w) (pb_proof bd) = Some calldata
       \<and> verifier (tampered (pb_digest bd)) calldata
       \<and> fr_from_bytes32 (zw_modulus w) (tampered (pb_digest bd)) \<noteq> fr_from_bytes32 (zw_modulus w) (pb_digest bd)
     else c' = c"
proof (cases "prove_live w (contract_api est verifier sender) cfg c")
  case (Pair c1 live)
  show ?thesis
  proof (cases live)
    case (Inl e)
    have "c1 = c"
      using Pair Inl by (auto simp: prove_live_def job_bind_def job_lift_def contract_api_def Let_def
          split: prod.splits sum.splits if_splits)
    with Pair Inl assms(3) show ?thesis by (auto simp: run_tamper_digest_def job_bind_def)
  next
    case (Inr call)
    from Pair [unfolded Inr prove_live_Inr] obtain pk epoch bd calldata where
        l: "c1 = c" "u64_of_u256 (contract_epoch c) = Some epoch"
          "prove (zw_modulus w) (zw_poseidon w) (zw_prove w) (zw_serialize w) pk epoch (zc_tier cfg)
             (ct_keys c (ucast epoch)) K_PPM [sample_row (zc_work_id cfg)] = Inr bd"
          "proof_to_evm_calldata (zw_points w) (pb_proof bd) = Some calldata"
          "call = sample_call w cfg epoch (ct_keys c (ucast epoch)) calldata" by blast
    note key = u64_of_u256_back [OF l(2)]
    let ?bad = "call\<lparr>sc_digest := tampered (sc_digest call)\<rparr>"
    have dg: "sc_digest call = pb_digest bd" "sc_proof call = calldata"
      using sample_call_of(2) [OF l(3)] by (simp_all add: l(5) sample_call_def Let_def)
    have "length (pb_digest bd) = 32"
      using sample_call_of(2) [OF l(3)]
      by (simp add: sample_circuit_def prove_circuit_def Let_def digest_def fr_to_bytes32_def)
    note differs = tampered_differs [OF this assms(1,2)]
    from assms(3) Pair Inr l(1) have run: "(c', r) = (case contract_submit verifier sender ?bad c of
        Inl _ \<Rightarrow> (c, Inr True) | Inr c2 \<Rightarrow> (c2, Inr False))"
      by (cases "contract_submit verifier sender ?bad c"; cases est)
        (auto simp: run_tamper_digest_def job_bind_def contract_send job_lift_def)
    show ?thesis
    proof (cases "contract_submit verifier sender ?bad c")
      case (Inl e)
      with run show ?thesis by simp
    next
      case (Inr c2)
      from Inr [unfolded contract_submit_Inr] have "verifier (tampered (pb_digest bd)) calldata" by (simp add: dg)
      with run Inr l(3,4) differs key show ?thesis by auto
    qed
  qed
qed

theorem tampered_digest_is_another_input_witness:
  "\<exists>c' r. run_tamper_digest ex_zk_world (contract_api False (\<lambda>d _. d = [7]) ''0xaa'') ex_zk_config ex_consumption = (c', r)
     \<and> (r = Inr False \<or> c' = ex_consumption)"
proof -
  obtain c' r where run: "run_tamper_digest ex_zk_world (contract_api False (\<lambda>d _. d = [7]) ''0xaa'') ex_zk_config
      ex_consumption = (c', r)" by (rule prod.exhaust)
  have p: "odd (zw_modulus ex_zk_world)" "255 < zw_modulus ex_zk_world" by (simp_all add: ex_zk_world_def bn254_modulus_def)
  from run tampered_digest_is_another_input [OF p run] show ?thesis by (auto split: if_splits)
qed

text \<open>Soundness of the proof system: what it accepts for a public input has a satisfying assignment.\<close>

definition groth16_sound :: "('pk, 'vk, 'pf) zk_world \<Rightarrow> 'vk \<Rightarrow> bool" where
  "groth16_sound w vk \<longleftrightarrow>
     (\<forall>x pf. zw_groth16_verify w vk [x] pf = Some True \<longrightarrow>
        (\<exists>k ep ti rows. generate_constraints (zw_modulus w) (zw_poseidon w) x k ep ti rows))"

definition split_circuit :: "('pk, 'vk, 'pf) zk_world \<Rightarrow> zk_config \<Rightarrow> usage_circuit" where
  "split_circuit w cfg = prove_circuit (zw_modulus w) (zw_poseidon w) 1 (zc_tier cfg) (replicate 32 17) K_PPM
     [sample_row (zc_work_id cfg), sample_row (zc_work_id cfg)]"

lemma split_rows:
  "length (uc_rows (split_circuit w cfg)) = MAX_WORKS"
  "rw_active (uc_rows (split_circuit w cfg) ! 0)" "rw_active (uc_rows (split_circuit w cfg) ! 1)"
  "rw_work_id (uc_rows (split_circuit w cfg) ! 0) = zc_work_id cfg"
  "rw_work_id (uc_rows (split_circuit w cfg) ! 1) = zc_work_id cfg"
  by (simp_all add: split_circuit_def prove_circuit_def Let_def pad_to_def active_row_def sample_row_def MAX_WORKS_def)

lemma twice_active:
  "\<lbrakk>unique_works rows; length rows = MAX_WORKS; rv_active (rows ! 0); rv_active (rows ! 1)\<rbrakk>
     \<Longrightarrow> rv_work_id (rows ! 0) \<noteq> rv_work_id (rows ! 1)"
  unfolding unique_works_def by (auto simp: MAX_WORKS_def dest!: bspec [of _ _ 0])

text \<open>Splitting one work over two rows. The witness the mode builds does not satisfy the circuit; and
  if the proof that comes out nevertheless verifies, so that the mode reports a break, then for a sound
  proof system two different inputs of the Poseidon hash with the same value have been found.\<close>

theorem row_split_is_refused:
  assumes "zw_modulus w \<le> 2 ^ 256" and "hash_in_field (zw_modulus w) (zw_poseidon w)"
    and "\<And>vk. groth16_sound w vk" and "fr_from_bytes32 (zw_modulus w) (zc_work_id cfg) \<noteq> 0"
    and "run_row_split w cfg = Inr False"
  shows "\<not> circuit_satisfied (zw_modulus w) (zw_poseidon w) (split_circuit w cfg)
     \<and> (\<exists>xs ys. xs \<noteq> ys \<and> zw_poseidon w xs = zw_poseidon w ys)"
proof
  let ?p = "zw_modulus w" and ?H = "zw_poseidon w" and ?c = "split_circuit w cfg"
  show "\<not> circuit_satisfied ?p ?H ?c"
    using twice_active [of "map (assign_row ?p) (uc_rows ?c)"] split_rows [of w cfg]
    by (auto simp: circuit_satisfied_def generate_constraints_def assign_row_def Let_def MAX_WORKS_def)
  let ?rows = "[sample_row (zc_work_id cfg), sample_row (zc_work_id cfg)]"
  from assms(5) obtain pk where "(case prove ?p ?H (zw_prove w) (zw_serialize w) pk 1 (zc_tier cfg) (replicate 32 17)
       K_PPM ?rows of
       Inl _ \<Rightarrow> Inr True
     | Inr bd \<Rightarrow> res_bind (map_err ZkLoad (zw_load_vk w VK_PATH)) (\<lambda>vk.
         Inr (\<not> verify ?p (zw_deserialize w) (zw_groth16_verify w) vk (pb_digest bd) (pb_proof bd)))) = Inr False"
    unfolding run_row_split_def res_bind_eq_Inr Let_def by blast
  then obtain vk bd where
      b: "prove ?p ?H (zw_prove w) (zw_serialize w) pk 1 (zc_tier cfg) (replicate 32 17) K_PPM ?rows = Inr bd"
        "verify ?p (zw_deserialize w) (zw_groth16_verify w) vk (pb_digest bd) (pb_proof bd)"
    by (cases "prove ?p ?H (zw_prove w) (zw_serialize w) pk 1 (zc_tier cfg) (replicate 32 17) K_PPM ?rows")
      (auto simp: res_bind_eq_Inr)
  have dg: "pb_digest bd = uc_digest ?c"
    using b(1) by (auto simp: prove_def Let_def res_bind_eq_Inr split_circuit_def split: if_splits)
  from b(2) obtain pf where "zw_groth16_verify w vk [fr_from_bytes32 ?p (uc_digest ?c)] pf = Some True"
    unfolding dg verify_def by (auto split: option.splits)
  with assms(3) obtain k ep ti rows where
      g: "generate_constraints ?p ?H (fr_from_bytes32 ?p (uc_digest ?c)) k ep ti rows"
    unfolding groth16_sound_def by blast
  let ?pub = "map public_row_of (uc_rows ?c)"
  let ?in = "digest_inputs ?p 1 (zc_tier cfg) (replicate 32 17) ?pub"
  have "uc_digest ?c = fr_to_bytes32 (?H ?in)" by (simp add: split_circuit_def prove_circuit_def Let_def digest_def)
  then have "?H (digest_preimage ep ti k rows) = ?H ?in"
    using g hash_round_trip [OF assms(2,1)] by (simp add: generate_constraints_def)
  moreover have "digest_preimage ep ti k rows \<noteq> ?in"
  proof
    assume eq: "digest_preimage ep ti k rows = ?in"
    have len: "length rows = length ?pub" "length rows = MAX_WORKS" using g split_rows(1) [of w cfg]
      by (simp_all add: generate_constraints_def)
    have work: "rv_work_id (rows ! i) = fr_from_bytes32 ?p (zc_work_id cfg) \<and> rv_active (rows ! i)" if "i \<in> {0, 1}" for i
    proof -
      have i: "i < length rows" using that len by (auto simp: MAX_WORKS_def)
      have "pr_work_id (?pub ! i) = zc_work_id cfg"
        using that i len split_rows(4,5) [of w cfg] by (auto simp: public_row_of_def)
      with preimage_rows(1) [OF eq len(1) i] have id: "rv_work_id (rows ! i) = fr_from_bytes32 ?p (zc_work_id cfg)" by simp
      have "enforce_row ?p ?H k (rows ! i)" using g i by (simp add: generate_constraints_def list_all_length)
      with id assms(4) show ?thesis by (auto simp: enforce_row_def Let_def)
    qed
    with twice_active [of rows] g len(2) show False by (auto simp: generate_constraints_def)
  qed
  ultimately show "\<exists>xs ys. xs \<noteq> ys \<and> ?H xs = ?H ys" by blast
qed

definition ex_weak_world :: "(unit, unit, unit) zk_world" where
  "ex_weak_world = ex_zk_world\<lparr>zw_poseidon := (\<lambda>_. 0), zw_groth16_verify := (\<lambda>_ xs _. Some (xs = [0]))\<rparr>"

theorem row_split_is_refused_witness:
  "\<not> circuit_satisfied bn254_modulus (\<lambda>_. 0) (split_circuit ex_weak_world ex_zk_config)
   \<and> (\<exists>xs ys. xs \<noteq> ys \<and> zw_poseidon ex_weak_world xs = zw_poseidon ex_weak_world ys)"
proof -
  have f: "zw_modulus ex_weak_world = bn254_modulus" "zw_poseidon ex_weak_world = (\<lambda>_. 0)"
      "zw_groth16_verify ex_weak_world = (\<lambda>_ xs _. Some (xs = [0]))"
    by (simp_all add: ex_weak_world_def ex_zk_world_def)
  have h: "hash_in_field bn254_modulus (\<lambda>_. 0)" by (simp add: hash_in_field_def bn254_modulus_def)
  have "circuit_satisfied bn254_modulus (\<lambda>_. 0) (prove_circuit bn254_modulus (\<lambda>_. 0) 3 [1] [2] 1000000 [])"
    by (rule circuit_complete [OF ex_field(1,2) h]) (simp_all add: MAX_WORKS_def)
  then obtain k ep ti rows x where g: "generate_constraints bn254_modulus (\<lambda>_. 0) x k ep ti rows"
    unfolding circuit_satisfied_def by blast
  moreover from this have "x = 0" by (simp add: generate_constraints_def)
  ultimately have "groth16_sound ex_weak_world vk" for vk unfolding groth16_sound_def f by auto
  moreover have "fr_from_bytes32 (zw_modulus ex_weak_world) (zc_work_id ex_zk_config) \<noteq> 0"
    using ex_zk_facts(6) by (simp add: ex_weak_world_def)
  moreover have "run_row_split ex_weak_world ex_zk_config = Inr False"
  proof -
    have "fr_from_bytes32 bn254_modulus (fr_to_bytes32 0) = 0" using hash_round_trip [OF h ex_field(2)] by simp
    then show ?thesis
      by (simp add: run_row_split_def ex_weak_world_def ex_zk_world_def prove_def MAX_WORKS_def Let_def res_bind_def map_err_def
          verify_def prove_circuit_def digest_def)
  qed
  ultimately show ?thesis
    using row_split_is_refused [of ex_weak_world ex_zk_config] ex_field(2) h unfolding f by blast
qed

end
