(* ===== verification/AntiFraud.thy ===== *)
theory AntiFraud
  imports Settle Job
begin

text \<open>
  The reputation the payout library reports with the payouts, and the two programs of
  \<open>sims/src/bin\<close> that run the library: \<open>simulate.rs\<close>, which turns a fixture file into its expected
  payouts, and \<open>antifraud_demo.rs\<close>, which builds the data sets of three attacks and checks the payouts.
  The demo's numbers are instances of lemmas about any number of puppet users and any fee. Reading
  and writing files and the JSON codec are parameters; printed lines are not modelled.
\<close>

section \<open>Reputation\<close>

text \<open>What a user's rows contribute to the reputation of a work.\<close>

definition rep_credit :: "(raw_row \<times> u64) list \<Rightarrow> string \<Rightarrow> nat" where
  "rep_credit rs w = (\<Sum>rc\<leftarrow>rs. if rr_work (fst rc) = w then cred_nat rc else 0)"

definition plays_work :: "(raw_row \<times> u64) list \<Rightarrow> string \<Rightarrow> bool" where
  "plays_work rs w \<longleftrightarrow> (\<exists>rc \<in> set rs. rr_work (fst rc) = w)"

lemma rep_simps [simp]:
  "rep_credit [] w = 0" "\<not> plays_work [] w"
  "rep_credit (rc # rs) w = (if rr_work (fst rc) = w then cred_nat rc else 0) + rep_credit rs w"
  "plays_work (rc # rs) w \<longleftrightarrow> rr_work (fst rc) = w \<or> plays_work rs w"
  by (simp_all add: rep_credit_def plays_work_def)

text \<open>Both maps of the reputation have the same works, and the listeners of a work are a set.\<close>

definition rep_ok :: "(string, u128) btree_map \<Rightarrow> (string, string btree_set) btree_map \<Rightarrow> bool" where
  "rep_ok usage users \<longleftrightarrow> bt_wf usage
     \<and> (\<forall>w. (bt_get usage w = None) = (bt_get users w = None) \<and> bs_wf (bt_get_or [] users w))"

lemma cred_row_rep:
  assumes "cred_row user s (row, c) = Inr s'" and "rep_ok (us_rep_usage s) (us_rep_users s)"
  shows "rep_ok (us_rep_usage s') (us_rep_users s')
     \<and> unat (bt_get_or 0 (us_rep_usage s') w) = unat (bt_get_or 0 (us_rep_usage s) w) + rep_credit [(row, c)] w
     \<and> set (bt_get_or [] (us_rep_users s') w)
         = set (bt_get_or [] (us_rep_users s) w) \<union> (if rr_work row = w then {user} else {})
     \<and> (bt_get (us_rep_usage s') w = None \<longleftrightarrow> bt_get (us_rep_usage s) w = None \<and> rr_work row \<noteq> w)"
proof -
  from assms(1) obtain cred rw sc up where u: "unat cred = cred_nat (row, c)"
    "unat up = unat (bt_get_or 0 (us_rep_usage s) (rr_work row)) + unat cred"
    "s' = \<lparr>us_creds = us_creds s @ [cred], us_rw = rw, us_sum_cred = sc,
             us_rep_usage = bt_insert (rr_work row) up (us_rep_usage s),
             us_rep_users = bt_update [] (bs_insert user) (rr_work row) (us_rep_users s)\<rparr>"
    by (rule cred_row_Inr)
  then show ?thesis using assms(2)
    by (auto simp: rep_ok_def bt_get_or_def bt_get_insert bt_get_update bt_wf_insert)
qed

lemma cred_rows_rep:
  assumes "res_fold (cred_row user) s rs = Inr s'" and "rep_ok (us_rep_usage s) (us_rep_users s)"
  shows "rep_ok (us_rep_usage s') (us_rep_users s')
     \<and> unat (bt_get_or 0 (us_rep_usage s') w) = unat (bt_get_or 0 (us_rep_usage s) w) + rep_credit rs w
     \<and> set (bt_get_or [] (us_rep_users s') w)
         = set (bt_get_or [] (us_rep_users s) w) \<union> (if plays_work rs w then {user} else {})
     \<and> (bt_get (us_rep_usage s') w = None \<longleftrightarrow> bt_get (us_rep_usage s) w = None \<and> \<not> plays_work rs w)"
  using assms
proof (induction rs arbitrary: s)
  case (Cons rc rs)
  obtain row c where rc: "rc = (row, c)" by (cases rc)
  from Cons.prems(1) obtain s1 where step: "cred_row user s (row, c) = Inr s1"
    and rest: "res_fold (cred_row user) s1 rs = Inr s'"
    by (auto simp: rc res_bind_eq_Inr)
  from cred_row_rep [OF step Cons.prems(2), of w] Cons.IH [OF rest] show ?case
    by (auto simp: rc)
qed simp

lemma alloc_user_rep:
  assumes "alloc_user G s (user, fee) = Inr s'" and "rep_ok (al_rep_usage s) (al_rep_users s)"
  shows "rep_ok (al_rep_usage s') (al_rep_users s')
     \<and> unat (bt_get_or 0 (al_rep_usage s') w)
         = unat (bt_get_or 0 (al_rep_usage s) w) + rep_credit (bt_get_or [] G user) w
     \<and> set (bt_get_or [] (al_rep_users s') w)
         = set (bt_get_or [] (al_rep_users s) w) \<union> (if plays_work (bt_get_or [] G user) w then {user} else {})
     \<and> (bt_get (al_rep_usage s') w = None \<longleftrightarrow> bt_get (al_rep_usage s) w = None \<and> \<not> plays_work (bt_get_or [] G user) w)"
proof -
  let ?s0 = "\<lparr>us_creds = [], us_rw = 0, us_sum_cred = 0,
             us_rep_usage = al_rep_usage s, us_rep_users = al_rep_users s\<rparr>"
  from assms(1) obtain us where us: "res_fold (cred_row user) ?s0 (bt_get_or [] G user) = Inr us"
    and s': "al_rep_usage s' = us_rep_usage us" "al_rep_users s' = us_rep_users us"
    by (auto simp: alloc_user_def Let_def res_bind_eq_Inr split: if_splits)
  from cred_rows_rep [OF us, of w] assms(2) show ?thesis unfolding s' by simp
qed

lemma alloc_users_rep:
  assumes "res_fold (alloc_user G) s fees = Inr s'" and "rep_ok (al_rep_usage s) (al_rep_users s)"
  shows "rep_ok (al_rep_usage s') (al_rep_users s')
     \<and> unat (bt_get_or 0 (al_rep_usage s') w)
         = unat (bt_get_or 0 (al_rep_usage s) w) + (\<Sum>(u, fee)\<leftarrow>fees. rep_credit (bt_get_or [] G u) w)
     \<and> set (bt_get_or [] (al_rep_users s') w)
         = set (bt_get_or [] (al_rep_users s) w) \<union> {u \<in> fst ` set fees. plays_work (bt_get_or [] G u) w}
     \<and> (bt_get (al_rep_usage s') w = None
         \<longleftrightarrow> bt_get (al_rep_usage s) w = None \<and> {u \<in> fst ` set fees. plays_work (bt_get_or [] G u) w} = {})"
  using assms
proof (induction fees arbitrary: s)
  case (Cons uf fees)
  obtain u fee where uf: "uf = (u, fee)" by (cases uf)
  from Cons.prems(1) obtain s1 where step: "alloc_user G s (u, fee) = Inr s1"
    and rest: "res_fold (alloc_user G) s1 fees = Inr s'"
    by (auto simp: uf res_bind_eq_Inr)
  from alloc_user_rep [OF step Cons.prems(2), of w] Cons.IH [OF rest] show ?case
    by (auto simp: uf)
qed simp

text \<open>The paying users with a row of the work.\<close>

definition listeners :: "(string, u128) btree_map \<Rightarrow> raw_row list \<Rightarrow> u64 list \<Rightarrow> string \<Rightarrow> string set" where
  "listeners fees rows creds w = {u \<in> fst ` set fees. plays_work (user_rows_of rows creds u) w}"

lemma reputation_get:
  assumes "allocate_from_raw_with_row_credibility fees rows creds = Inr p" and "length fees < 2 ^ 64"
  shows "case bt_get (reputation_of p) w of
       None \<Rightarrow> listeners fees rows creds w = {}
     | Some rep \<Rightarrow> listeners fees rows creds w \<noteq> {}
         \<and> unat (distinct_users rep) = card (listeners fees rows creds w)
         \<and> unat (weighted_usage rep) = (\<Sum>(u, fee)\<leftarrow>fees. rep_credit (user_rows_of rows creds u) w)"
proof -
  let ?G = "group_rows rows creds"
  from assms(1) obtain s where fold: "res_fold (alloc_user ?G)
       \<lparr>al_per_work = [], al_unallocated = 0, al_rep_usage = [], al_rep_users = []\<rparr> fees = Inr s"
    and p: "reputation_of p = fold_reputation (al_rep_usage s) (al_rep_users s)"
    by (auto simp: allocate_from_raw_with_row_credibility_def Let_def res_bind_eq_Inr split: if_splits)
  have start: "rep_ok [] []" by (simp add: rep_ok_def bt_get_or_def)
  let ?L = "listeners fees rows creds w"
  have empty: "bt_get_or 0 ([] :: (string, u128) btree_map) w = 0" "bt_get_or [] ([] :: (string, string btree_set) btree_map) w = []"
    by (simp_all add: bt_get_or_def)
  from alloc_users_rep [OF fold, of w] start have r: "rep_ok (al_rep_usage s) (al_rep_users s)"
      "unat (bt_get_or 0 (al_rep_usage s) w) = (\<Sum>(u, fee)\<leftarrow>fees. rep_credit (user_rows_of rows creds u) w)"
      "set (bt_get_or [] (al_rep_users s) w) = ?L" "bt_get (al_rep_usage s) w = None \<longleftrightarrow> ?L = {}"
    by (simp_all add: group_rows_get listeners_def empty)
  have get: "bt_get (fold_reputation usage users) w
      = map_option (\<lambda>wu. \<lparr>distinct_users = of_nat (case bt_get users w of None \<Rightarrow> 0 | Some s \<Rightarrow> length s),
                         weighted_usage = wu\<rparr>) (bt_get usage w)" for usage users
    by (induction usage) (auto simp: fold_reputation_def)
  have "distinct (bt_get_or [] (al_rep_users s) w)" using r(1) by (auto simp: rep_ok_def intro: bs_wf_distinct)
  then have len: "length (bt_get_or [] (al_rep_users s) w) = card ?L" using r(3) by (metis distinct_card)
  have "?L \<subseteq> fst ` set fees" by (auto simp: listeners_def)
  then have "card ?L \<le> card (fst ` set fees)" by (intro card_mono) simp_all
  also have "\<dots> \<le> length fees" using card_image_le [of "set fees" fst] card_length [of fees] le_trans by blast
  finally have "card ?L < 2 ^ 64" using assms(2) by linarith
  then have "unat (of_nat (card ?L) :: u64) = card ?L" by (simp add: unat_of_nat take_bit_nat_eq_self)
  with r(2,4) len show ?thesis
    by (auto simp: p get bt_get_or_def split: option.splits)
qed

section \<open>One row per user\<close>

lemma hamilton_single: "c \<noteq> 0 \<Longrightarrow> hamilton a [c] 0 = a"
  by (simp add: hamilton_def)

lemma user_credit_single:
  "user_credit fee [(r, c)] w = (if rr_work r = w then fee_target fee [(r, c)] else 0)"
proof (cases "fee_target fee [(r, c)] = 0")
  case True
  then show ?thesis using user_credit_no_target by simp
next
  case False
  then have "cred_nat (r, c) \<noteq> 0" by (simp add: fee_target_def split: if_splits)
  then show ?thesis by (simp add: user_credit_def hamilton_single)
qed

text \<open>Users that each have one row, and pay the same fee.\<close>

definition one_row_each :: "(string, u128) btree_map \<Rightarrow> raw_row list \<Rightarrow> u128 \<Rightarrow> bool" where
  "one_row_each fees rows fee \<longleftrightarrow>
     bt_wf fees \<and> distinct (map rr_user rows) \<and> fst ` set fees = set (map rr_user rows)
     \<and> (\<forall>uf \<in> set fees. snd uf = fee) \<and> length rows < 2 ^ 64"

lemma sum_over_users:
  fixes g :: "string \<Rightarrow> u128 \<Rightarrow> nat"
  assumes "one_row_each fees rows fee"
  shows "(\<Sum>(u, f)\<leftarrow>fees. g u f) = (\<Sum>r\<leftarrow>rows. g (rr_user r) fee)"
proof -
  have d: "distinct (map fst fees)" "distinct (map rr_user rows)" "set (map fst fees) = set (map rr_user rows)"
      "\<forall>uf \<in> set fees. snd uf = fee"
    using assms bt.distinct_keys by (auto simp: one_row_each_def)
  have "(\<Sum>(u, f)\<leftarrow>fees. g u f) = (\<Sum>u\<leftarrow>map fst fees. g u fee)"
    using d(4) by (induction fees) auto
  also have "\<dots> = (\<Sum>u \<in> set (map fst fees). g u fee)" by (rule sum_list_distinct_conv_sum_set [OF d(1)])
  also have "\<dots> = (\<Sum>u\<leftarrow>map rr_user rows. g u fee)"
    unfolding d(3) by (rule sum_list_distinct_conv_sum_set [OF d(2), symmetric])
  finally show ?thesis by (simp add: comp_def)
qed

lemma one_user_rows:
  assumes "distinct (map rr_user rows)" and "length creds = length rows" and "i < length rows"
  shows "user_rows_of rows creds (rr_user (rows ! i)) = [(rows ! i, min (creds ! i) 1000000)]"
proof -
  have "List.filter (\<lambda>(r, c). rr_user r = rr_user (rows ! i)) (zip rows creds)
      = List.filter (\<lambda>x. x = (rows ! i, creds ! i)) (zip rows creds)"
  proof (rule filter_cong [OF refl])
    fix x assume "x \<in> set (zip rows creds)"
    then obtain j where j: "j < length rows" "x = (rows ! j, creds ! j)" by (auto simp: in_set_zip)
    have "rr_user (rows ! j) = rr_user (rows ! i) \<longleftrightarrow> j = i"
      using nth_eq_iff_index_eq [OF assms(1), of j i] j(1) assms(3) by simp
    then show "(case x of (r, c) \<Rightarrow> rr_user r = rr_user (rows ! i)) \<longleftrightarrow> x = (rows ! i, creds ! i)"
      using j(2) by auto
  qed
  also have "\<dots> = [(rows ! i, creds ! i)]"
  proof -
    have "distinct rows" using assms(1) by (simp add: distinct_map)
    then have "distinct (zip rows creds)" by (rule distinct_zipI1)
    moreover have "(rows ! i, creds ! i) \<in> set (zip rows creds)" using assms(2,3) by (auto simp: in_set_zip)
    ultimately have "length (List.filter (\<lambda>x. x = (rows ! i, creds ! i)) (zip rows creds)) = 1"
      by (simp add: distinct_length_filter Int_insert_right)
    then obtain y where y: "List.filter (\<lambda>x. x = (rows ! i, creds ! i)) (zip rows creds) = [y]"
      by (auto simp: length_Suc_conv)
    have "y \<in> set (List.filter (\<lambda>x. x = (rows ! i, creds ! i)) (zip rows creds))" unfolding y by simp
    then have "y = (rows ! i, creds ! i)" by (simp only: set_filter mem_Collect_eq)
    with y show ?thesis by simp
  qed
  finally show ?thesis by (simp add: user_rows_of_def)
qed

lemma sum_one_row:
  fixes g :: "u128 \<Rightarrow> (raw_row \<times> u64) list \<Rightarrow> nat"
  assumes "one_row_each fees rows fee" and "length creds = length rows"
  shows "(\<Sum>(u, f)\<leftarrow>fees. g f (user_rows_of rows creds u))
     = (\<Sum>(r, c)\<leftarrow>zip rows creds. g fee [(r, min c 1000000)])"
proof -
  have d: "distinct (map rr_user rows)" using assms(1) by (simp add: one_row_each_def)
  have "(\<Sum>(u, f)\<leftarrow>fees. g f (user_rows_of rows creds u)) = (\<Sum>r\<leftarrow>rows. g fee (user_rows_of rows creds (rr_user r)))"
    by (rule sum_over_users [OF assms(1)])
  also have "map (\<lambda>r. g fee (user_rows_of rows creds (rr_user r))) rows
      = map (\<lambda>(r, c). g fee [(r, min c 1000000)]) (zip rows creds)"
    by (rule nth_equalityI) (use assms(2) one_user_rows [OF d assms(2)] in auto)
  finally show ?thesis .
qed

lemma one_row_payouts:
  assumes "one_row_each fees rows fee" and "allocate_from_raw_with_row_credibility fees rows creds = Inr p"
  shows "unat (bt_get_or 0 (per_work p) w)
       = (\<Sum>(r, c)\<leftarrow>zip rows creds. if rr_work r = w then fee_target (unat fee) [(r, min c 1000000)] else 0)"
    and "unat (unallocated p) = (\<Sum>(r, c)\<leftarrow>zip rows creds. unat fee - fee_target (unat fee) [(r, min c 1000000)])"
proof -
  have short: "length rows < 2 ^ 64" using assms(1) by (simp add: one_row_each_def)
  note a = allocation_Inr [OF assms(2) short]
  show "unat (bt_get_or 0 (per_work p) w)
       = (\<Sum>(r, c)\<leftarrow>zip rows creds. if rr_work r = w then fee_target (unat fee) [(r, min c 1000000)] else 0)"
    using allocation_credit [OF assms(2) short, of w]
      sum_one_row [OF assms(1), of creds "\<lambda>f rs. user_credit (unat f) rs w"] a
    by (simp add: user_credit_single)
  show "unat (unallocated p) = (\<Sum>(r, c)\<leftarrow>zip rows creds. unat fee - fee_target (unat fee) [(r, min c 1000000)])"
    using a sum_one_row [OF assms(1), of creds "\<lambda>f rs. unat f - fee_target (unat f) rs"] by simp
qed

lemma one_row_reputation:
  assumes "one_row_each fees rows fee" and "allocate_from_raw_with_row_credibility fees rows creds = Inr p"
    and "rr_work r = w" and "r \<in> set rows"
  shows "\<exists>rep. bt_get (reputation_of p) w = Some rep
     \<and> unat (distinct_users rep) = length (List.filter (\<lambda>r. rr_work r = w) rows)
     \<and> unat (weighted_usage rep) = (\<Sum>(r, c)\<leftarrow>zip rows creds. if rr_work r = w then cred_nat (r, min c 1000000) else 0)"
proof -
  have d: "distinct (map rr_user rows)" "fst ` set fees = rr_user ` set rows" "bt_wf fees" "length rows < 2 ^ 64"
    using assms(1) by (auto simp: one_row_each_def)
  have len: "length creds = length rows" using allocation_Inr [OF assms(2) d(4)] by simp
  have "length fees = card (fst ` set fees)"
    using bt.distinct_keys [OF d(3)] by (metis distinct_card length_map list.set_map)
  also have "\<dots> = length rows" unfolding d(2) using d(1) by (metis distinct_card length_map list.set_map)
  finally have short: "length fees < 2 ^ 64" using d(4) by simp
  have L: "listeners fees rows creds w = rr_user ` set (List.filter (\<lambda>r. rr_work r = w) rows)"
  proof -
    have "plays_work (user_rows_of rows creds (rr_user x)) w \<longleftrightarrow> rr_work x = w" if "x \<in> set rows" for x
    proof -
      from that obtain i where "i < length rows" "x = rows ! i" by (auto simp: in_set_conv_nth)
      then show ?thesis using one_user_rows [OF d(1) len] by simp
    qed
    then show ?thesis unfolding listeners_def d(2) by auto
  qed
  have "card (rr_user ` set (List.filter (\<lambda>r. rr_work r = w) rows)) = length (List.filter (\<lambda>r. rr_work r = w) rows)"
    using distinct_card [of "map rr_user (List.filter (\<lambda>r. rr_work r = w) rows)"] distinct_map_filter [OF d(1)] by simp
  moreover have "listeners fees rows creds w \<noteq> {}" unfolding L using assms(3,4) by auto
  moreover have "(\<Sum>(u, f)\<leftarrow>fees. rep_credit (user_rows_of rows creds u) w)
      = (\<Sum>(r, c)\<leftarrow>zip rows creds. if rr_work r = w then cred_nat (r, min c 1000000) else 0)"
    using sum_one_row [OF assms(1) len, of "\<lambda>f rs. rep_credit rs w"]
    by (simp only: rep_simps add_0_right fst_conv)
  ultimately show ?thesis using reputation_get [OF assms(2) short, of w] unfolding L
    by (auto split: option.splits)
qed

section \<open>The demo's data sets\<close>

definition puppet_user :: "u64 \<Rightarrow> string" where
  "puppet_user i = ''puppet'' @ u64_to_string i"

definition puppet_step ::
    "u128 \<Rightarrow> string \<Rightarrow> (string, u128) btree_map \<times> usage_row list \<Rightarrow> u64 \<Rightarrow> (string, u128) btree_map \<times> usage_row list" where
  "puppet_step fee work s i =
     (case s of (tier_fees, usage) \<Rightarrow>
        (bt_insert (puppet_user i) fee tier_fees,
         usage @ [\<lparr>ur_user = puppet_user i, ur_work = work, ur_minutes = 60, ur_price_ppm = 1000000,
                   ur_region_ppm = 1000000, ur_plays = 5000\<rparr>]))"

definition puppet_dataset :: "u64 \<Rightarrow> u128 \<Rightarrow> string \<Rightarrow> u64 option \<Rightarrow> dataset" where
  "puppet_dataset n fee work bandwidth =
     (let (tier_fees, usage) = foldl (puppet_step fee work) ([], []) (map of_nat [0..<unat n]);
          bandwidth_map = (case bandwidth of Some bw \<Rightarrow> bt_insert work bw [] | None \<Rightarrow> [])
      in \<lparr>ds_tier_fees = tier_fees, ds_usage = usage, ds_bandwidth_ppm = bandwidth_map\<rparr>)"

definition superfan_dataset :: "u128 \<Rightarrow> dataset" where
  "superfan_dataset fee =
     \<lparr>ds_tier_fees = bt_insert ''superfan'' fee [],
      ds_usage = [\<lparr>ur_user = ''superfan'', ur_work = ''wNiche'', ur_minutes = 300, ur_price_ppm = 1000000,
                   ur_region_ppm = 1000000, ur_plays = 1000\<rparr>],
      ds_bandwidth_ppm = []\<rparr>"

definition listener_step ::
    "u128 \<Rightarrow> (string, u128) btree_map \<times> usage_row list \<Rightarrow> u64 \<Rightarrow> (string, u128) btree_map \<times> usage_row list" where
  "listener_step fee s i =
     (case s of (tier_fees, usage) \<Rightarrow>
        let user = ''listener'' @ u64_to_string i in
        (bt_insert user fee tier_fees,
         usage @ [\<lparr>ur_user = user, ur_work = ''wBroad'', ur_minutes = 10, ur_price_ppm = 1000000,
                   ur_region_ppm = 1000000, ur_plays = 1\<rparr>]))"

definition breadth_dataset :: "u64 \<Rightarrow> u128 \<Rightarrow> dataset" where
  "breadth_dataset broad_users fee =
     (let (tier_fees, usage) = foldl (listener_step fee) ([], []) (map of_nat [0..<unat broad_users])
      in \<lparr>ds_tier_fees = bt_insert ''grinder'' fee tier_fees,
          ds_usage = usage @ [\<lparr>ur_user = ''grinder'', ur_work = ''wDeep'', ur_minutes = 10, ur_price_ppm = 1000000,
                               ur_region_ppm = 1000000, ur_plays = 500\<rparr>],
          ds_bandwidth_ppm = []\<rparr>)"

section \<open>The demo\<close>

text \<open>A failed check ends the process, as does the panic of an \<open>expect\<close>.\<close>

datatype demo_exit = FailedCheck string | Panicked

definition demo_check :: "string \<Rightarrow> bool \<Rightarrow> demo_exit + unit" where
  "demo_check label passed = (if passed then Inr () else Inl (FailedCheck label))"

definition conserved :: "dataset \<Rightarrow> payouts \<Rightarrow> demo_exit + unit" where
  "conserved d p = demo_check ''conservation'' (total_to_works p + unallocated p = total_fees d)"

definition expect_payouts :: "dataset \<Rightarrow> demo_exit + payouts" where
  "expect_payouts d = map_err (\<lambda>_. Panicked) (allocate d default_params)"

definition scenario_fraud_is_capped :: "demo_exit + unit" where
  "scenario_fraud_is_capped =
     (let n = 5; fee = 100000; d = puppet_dataset n fee ''wF'' None in
      res_bind (expect_payouts d) (\<lambda>p.
      let expected_total = ucast n * fee; paid = bt_get_or 0 (per_work p) ''wF'' in
      res_bind (demo_check ''break-even'' (paid = expected_total)) (\<lambda>_.
      res_bind (demo_check ''nothing left on the table'' (unallocated p = 0)) (\<lambda>_.
      conserved d p))))"

definition scenario_fake_plays_are_a_loss :: "demo_exit + unit" where
  "scenario_fake_plays_are_a_loss =
     (let n = 5; fee = 100000; d = puppet_dataset n fee ''wF'' (Some 100000) in
      res_bind (expect_payouts d) (\<lambda>p.
      let fees = ucast n * fee; paid = bt_get_or 0 (per_work p) ''wF''; expected_shortfall = fees - paid in
      res_bind (demo_check ''strict loss'' (paid < fees)) (\<lambda>_.
      res_bind (demo_check ''discount conserved'' (unallocated p = expected_shortfall)) (\<lambda>_.
      conserved d p))))"

definition scenario_superfan_fairness :: "demo_exit + unit" where
  "scenario_superfan_fairness =
     (let fee = 1000000; d = superfan_dataset fee in
      res_bind (expect_payouts d) (\<lambda>p.
      let paid = bt_get_or 0 (per_work p) ''wNiche'' in
      res_bind (demo_check ''full fee reaches the artist'' (paid = fee)) (\<lambda>_.
      res_bind (demo_check ''nothing withheld'' (unallocated p = 0)) (\<lambda>_.
      conserved d p))))"

definition no_reputation :: reputation where
  "no_reputation = \<lparr>distinct_users = 0, weighted_usage = 0\<rparr>"

definition scenario_reputation_prefers_breadth :: "demo_exit + unit" where
  "scenario_reputation_prefers_breadth =
     (let broad_users = 5; d = breadth_dataset broad_users 200000 in
      res_bind (expect_payouts d) (\<lambda>p.
      let broad_rep = bt_get_or no_reputation (reputation_of p) ''wBroad'';
          deep_rep = bt_get_or no_reputation (reputation_of p) ''wDeep'' in
      res_bind (demo_check ''reaches every distinct listener'' (distinct_users broad_rep = broad_users)) (\<lambda>_.
      res_bind (demo_check ''a single listener'' (distinct_users deep_rep = 1)) (\<lambda>_.
      res_bind (demo_check ''breadth outranks depth'' (weighted_usage broad_rep > weighted_usage deep_rep)) (\<lambda>_.
      conserved d p)))))"

definition antifraud_main :: "demo_exit + unit" where
  "antifraud_main =
     res_bind scenario_fraud_is_capped (\<lambda>_.
     res_bind scenario_fake_plays_are_a_loss (\<lambda>_.
     res_bind scenario_superfan_fairness (\<lambda>_.
     scenario_reputation_prefers_breadth)))"

section \<open>From usage rows to raw rows\<close>

lemma u64_to_string_inj: "u64_to_string i = u64_to_string j \<longleftrightarrow> i = j"
proof
  have lt: "unat i < 2 ^ 128" for i :: u64 using less_trans [OF u64_lt [of i], of "2 ^ 128"] by simp
  have narrow: "unat (of_nat (unat i) :: u128) = unat i" for i :: u64
    by (simp add: unat_u64_u128)
  assume "u64_to_string i = u64_to_string j"
  then have "(of_nat (unat i) :: u128) = of_nat (unat j)"
    using parse_digits_of [OF lt [of i]] parse_digits_of [OF lt [of j]] by (simp add: u64_to_string_def)
  then have "unat i = unat j" using narrow by metis
  then show "i = j" by (simp add: word_unat_eq_iff)
qed simp

text \<open>A row of 60 or fewer minutes at neutral prices has a raw weight, and it is not zero.\<close>

definition raw_weight :: "usage_row \<Rightarrow> nat" where
  "raw_weight row = unat (ur_minutes row) * unat (ur_price_ppm row) * unat (ur_region_ppm row)
     * d_nat 1000000 (min (max (unat (ur_plays row)) 1) 100000) div 1000000"

lemma raw_of_usage_neutral:
  assumes "unat (ur_minutes row) \<le> 1000" and "ur_price_ppm row = 1000000" and "ur_region_ppm row = 1000000"
  shows "\<exists>r. raw_of_usage 1000000 row = Inr r \<and> rr_user r = ur_user row \<and> rr_work r = ur_work row
     \<and> unat (rr_raw r) = raw_weight row \<and> raw_weight row \<le> unat (ur_minutes row) * 1000000000000"
proof -
  let ?v = "unat (ur_minutes row) * unat (ur_price_ppm row) * unat (ur_region_ppm row)"
  have v: "?v = unat (ur_minutes row) * 1000000000000" using assms(2,3) by simp
  have "?v < 2 ^ 128" using assms(1) unfolding v by simp
  define V where "V = ?v"
  have "unat (of_nat V :: u128) = V"
    using \<open>?v < 2 ^ 128\<close> unfolding V_def [symmetric] by (simp add: unat_of_nat take_bit_nat_eq_self)
  then have "usage_value row = Inr (of_nat V) \<and> unat (of_nat V :: u128) = ?v"
    using usage_value_Inr [of row "of_nat V"] by (simp only: V_def)
  then obtain w where w: "usage_value row = Inr w" "unat w = ?v" by blast
  have D: "unat (d_ppm (ur_plays row) 1000000) = d_nat 1000000 (min (max (unat (ur_plays row)) 1) 100000)"
    by (simp add: d_ppm_unat)
  have le: "?v * unat (d_ppm (ur_plays row) 1000000) div 1000000 \<le> ?v"
  proof -
    have "?v * unat (d_ppm (ur_plays row) 1000000) \<le> ?v * 1000000"
      unfolding D using d_nat_le by (intro mult_le_mono2) simp
    then show ?thesis by (metis div_le_mono nonzero_mult_div_cancel_right zero_neq_numeral)
  qed
  have "is_ok (mul_div w (ucast (d_ppm (ur_plays row) 1000000)) 1000000)"
  proof (rule mul_div_is_ok)
    show "unat w * unat (ucast (d_ppm (ur_plays row) 1000000) :: u128) div unat (1000000 :: u128) < 2 ^ 128"
      using le \<open>?v < 2 ^ 128\<close> by (simp add: w unat_u64_u128)
  qed simp
  then obtain raw where raw: "mul_div w (ucast (d_ppm (ur_plays row) 1000000)) 1000000 = Inr raw" by (auto simp: is_ok_iff)
  then have "unat raw = ?v * unat (d_ppm (ur_plays row) 1000000) div 1000000"
    by (simp add: mul_div_Inr w unat_u64_u128)
  with raw w le show ?thesis by (simp add: raw_of_usage_def raw_weight_def D v)
qed

section \<open>Users with one row each, at neutral prices\<close>

definition neutral_row :: "usage_row \<Rightarrow> bool" where
  "neutral_row row \<longleftrightarrow> 0 < unat (ur_minutes row) \<and> unat (ur_minutes row) \<le> 1000
     \<and> ur_price_ppm row = 1000000 \<and> ur_region_ppm row = 1000000"

definition one_usage_each :: "u128 \<Rightarrow> (string, u128) btree_map \<Rightarrow> usage_row list \<Rightarrow> bool" where
  "one_usage_each fee fees usage \<longleftrightarrow> bt_wf fees \<and> distinct (map ur_user usage)
     \<and> fst ` set fees = ur_user ` set usage \<and> (\<forall>uf \<in> set fees. snd uf = fee) \<and> (\<forall>row \<in> set usage. neutral_row row)"

lemma one_usage_Nil: "one_usage_each fee [] []"
  by (simp add: one_usage_each_def)

lemma one_usage_snoc:
  assumes "one_usage_each fee fees usage" and "ur_user row \<notin> ur_user ` set usage" and "neutral_row row"
  shows "one_usage_each fee (bt_insert (ur_user row) fee fees) (usage @ [row])"
proof -
  have "\<forall>uf \<in> set (bt_insert (ur_user row) fee fees). snd uf = fee"
  proof
    fix uf assume "uf \<in> set (bt_insert (ur_user row) fee fees)"
    moreover have "bt_wf (bt_insert (ur_user row) fee fees)"
      using assms(1) by (simp add: one_usage_each_def bt_wf_insert)
    ultimately have "bt_get (bt_insert (ur_user row) fee fees) (fst uf) = Some (snd uf)"
      using bt_entries_get [of "bt_insert (ur_user row) fee fees" "fst uf" "snd uf"] by simp
    then show "snd uf = fee"
      using assms(1) bt_entries_get [of fees "fst uf" "snd uf"]
      by (auto simp: bt_get_insert one_usage_each_def split: if_splits)
  qed
  then show ?thesis using assms by (auto simp: one_usage_each_def bt_wf_insert keys_bt_insert)
qed

definition plays_factor :: "usage_row \<Rightarrow> nat" where
  "plays_factor row = d_nat 1000000 (min (max (unat (ur_plays row)) 1) 100000)"

lemma plays_factor_pos: "0 < plays_factor row"
proof -
  let ?v = "min (max (unat (ur_plays row)) 1) 100000"
  have v: "0 < ?v" "?v \<le> 100000" by simp_all
  have "(10 ^ 12 :: nat) div (10 ^ 6 + 1000000 * 100000) \<le> 10 ^ 12 div (10 ^ 6 + 1000000 * ?v)"
    by (rule div_le_mono2) (use v(2) in simp_all)
  then have "?v * 1 \<le> ?v * (10 ^ 12 div (10 ^ 6 + 1000000 * ?v))" by (intro mult_le_mono2) simp
  also have "\<dots> \<le> d_sum 1000000 ?v" by (rule d_sum_last)
  finally show ?thesis using v(1) unfolding plays_factor_def d_nat_def
    by (metis One_nat_def div_greater_zero_iff mult.right_neutral)
qed

lemma raw_weight_neutral: "neutral_row row \<Longrightarrow> raw_weight row = unat (ur_minutes row) * 1000000 * plays_factor row"
  by (simp add: neutral_row_def raw_weight_def plays_factor_def)

text \<open>The diminishing returns cancel out: of the fee of a user with one row, exactly the credibility's
  part reaches the work.\<close>

lemma one_row_share:
  assumes "unat (rr_raw r) = m * 1000000 * D" and "0 < m" and "0 < D"
  shows "cred_nat (r, c) = m * D * unat c" and "fee_target fee [(r, c)] = fee * unat c div 1000000"
proof -
  have "cred_nat (r, c) = m * D * unat c * 1000000 div 1000000"
    by (simp add: cred_nat_def assms(1) mult.assoc mult.commute mult.left_commute)
  then show c: "cred_nat (r, c) = m * D * unat c" by simp
  have "fee * (m * D * unat c) div (m * 1000000 * D) = (m * D) * (fee * unat c) div ((m * D) * 1000000)"
    by (simp add: mult.assoc mult.commute mult.left_commute)
  also have "\<dots> = fee * unat c div 1000000" using assms(2,3) by (subst div_mult_mult1) simp_all
  finally show "fee_target fee [(r, c)] = fee * unat c div 1000000"
    using assms by (auto simp: fee_target_def c)
qed

definition raw_row_for :: "usage_row \<Rightarrow> raw_row \<Rightarrow> bool" where
  "raw_row_for row r \<longleftrightarrow> rr_user r = ur_user row \<and> rr_work r = ur_work row \<and> unat (rr_raw r) = raw_weight row"

lemma neutral_raw_rows:
  "\<forall>row \<in> set usage. neutral_row row \<Longrightarrow>
     \<exists>raws. res_map (raw_of_usage 1000000) usage = Inr raws \<and> list_all2 raw_row_for usage raws"
proof (induction usage)
  case (Cons row usage)
  then obtain raws where raws: "res_map (raw_of_usage 1000000) usage = Inr raws" "list_all2 raw_row_for usage raws" by auto
  from Cons.prems obtain r where "raw_of_usage 1000000 row = Inr r" "raw_row_for row r"
    using raw_of_usage_neutral [of row] by (auto simp: neutral_row_def raw_row_for_def)
  with raws show ?case by (intro exI [of _ "r # raws"]) simp
qed simp

lemma raw_row_sums:
  assumes "list_all2 raw_row_for usage raws" and "\<And>row r. \<lbrakk>row \<in> set usage; raw_row_for row r\<rbrakk> \<Longrightarrow> g r = (f row :: nat)"
  shows "(\<Sum>r\<leftarrow>raws. g r) = (\<Sum>row\<leftarrow>usage. f row)"
  using assms by (induction rule: list_all2_induct) auto

lemma one_usage_allocates:
  assumes "one_usage_each fee (ds_tier_fees d) (ds_usage d)" and "length (ds_usage d) < 2 ^ 64"
    and fits: "unat fee * (\<Sum>row\<leftarrow>ds_usage d. unat (ur_minutes row) * 1000000000000) < 2 ^ 128"
  obtains raws p where "allocate d default_params = Inr p" and "list_all2 raw_row_for (ds_usage d) raws"
    and "one_row_each (ds_tier_fees d) raws fee"
    and "allocate_from_raw_with_row_credibility (ds_tier_fees d) raws
           (map (\<lambda>r. bw_ppm (ds_bandwidth_ppm d) (rr_work r)) raws) = Inr p"
proof -
  let ?fees = "ds_tier_fees d" and ?T = "\<Sum>row\<leftarrow>ds_usage d. unat (ur_minutes row) * 1000000000000"
  have neutral: "\<forall>row \<in> set (ds_usage d). neutral_row row" using assms(1) by (simp add: one_usage_each_def)
  then obtain raws where raws: "res_map (raw_of_usage 1000000) (ds_usage d) = Inr raws"
    and rel: "list_all2 raw_row_for (ds_usage d) raws" using neutral_raw_rows by blast
  have len: "length raws = length (ds_usage d)" using list_all2_lengthD [OF rel] by simp
  have users: "map rr_user raws = map ur_user (ds_usage d)"
    using rel by (induction rule: list_all2_induct) (simp_all add: raw_row_for_def)
  have one: "one_row_each ?fees raws fee"
    using assms(1,2) len arg_cong [OF users, of set] by (simp add: one_row_each_def one_usage_each_def users)
  have "(\<Sum>r\<leftarrow>raws. unat (rr_raw r)) = (\<Sum>row\<leftarrow>ds_usage d. raw_weight row)"
    by (rule raw_row_sums [OF rel]) (simp add: raw_row_for_def)
  also have "\<dots> \<le> ?T"
  proof (rule sum_list_mono)
    fix row assume "row \<in> set (ds_usage d)"
    with neutral raw_of_usage_neutral [of row] show "raw_weight row \<le> unat (ur_minutes row) * 1000000000000"
      by (auto simp: neutral_row_def)
  qed
  finally have raw_le: "(\<Sum>r\<leftarrow>raws. unat (rr_raw r)) \<le> ?T" .
  have "?T \<le> (\<Sum>row\<leftarrow>ds_usage d. 1000000000000000)"
    by (rule sum_list_mono) (use neutral in \<open>force simp: neutral_row_def\<close>)
  also have "\<dots> = length (ds_usage d) * 1000000000000000" by (simp add: sum_list_triv)
  also have "\<dots> < 2 ^ 128" using assms(2) by simp
  finally have total: "?T < 2 ^ 128" .
  have fee: "snd uf = fee" if "uf \<in> set ?fees" for uf using assms(1) that by (auto simp: one_usage_each_def)
  have "map_total ?fees = (\<Sum>row\<leftarrow>ds_usage d. unat fee)"
    using sum_over_users [OF one, of "\<lambda>_ f. unat f"] users len
    by (simp add: map_total_def comp_def case_prod_unfold sum_list_triv)
  also have "\<dots> \<le> (\<Sum>row\<leftarrow>ds_usage d. unat fee * (unat (ur_minutes row) * 1000000000000))"
    by (rule sum_list_mono) (use neutral in \<open>auto simp: neutral_row_def\<close>)
  also have "\<dots> = unat fee * ?T" by (simp add: sum_list_const_mult)
  finally have fees: "map_total ?fees < 2 ^ 128" using fits by linarith
  have each: "unat f * (\<Sum>r\<leftarrow>raws. unat (rr_raw r)) < 2 ^ 128" if "(u, f) \<in> set ?fees" for u f
  proof -
    have "unat f * (\<Sum>r\<leftarrow>raws. unat (rr_raw r)) \<le> unat fee * ?T" using fee [OF that] raw_le by simp
    then show ?thesis using fits by linarith
  qed
  have "is_ok (allocate_from_raw_with_row_credibility ?fees raws
      (map (\<lambda>r. bw_ppm (ds_bandwidth_ppm d) (rr_work r)) raws))"
    by (rule allocation_is_ok) (use one fees each raw_le total in \<open>auto simp: one_row_each_def\<close>)
  then obtain p where p: "allocate_from_raw_with_row_credibility ?fees raws
      (map (\<lambda>r. bw_ppm (ds_bandwidth_ppm d) (rr_work r)) raws) = Inr p" by (auto simp: is_ok_iff)
  moreover have "allocate d default_params = Inr p"
    using p raws by (simp add: allocate_def allocate_from_raw_def default_params_def)
  ultimately show thesis using that one rel by blast
qed

lemma one_usage_payouts:
  assumes "one_usage_each fee (ds_tier_fees d) (ds_usage d)" and "length (ds_usage d) < 2 ^ 64"
    and "unat fee * (\<Sum>row\<leftarrow>ds_usage d. unat (ur_minutes row) * 1000000000000) < 2 ^ 128"
  shows "\<exists>p. allocate d default_params = Inr p
     \<and> (\<forall>w. unat (bt_get_or 0 (per_work p) w)
          = (\<Sum>row\<leftarrow>ds_usage d. if ur_work row = w then unat fee * unat (dataset_bw d w) div 1000000 else 0))
     \<and> unat (unallocated p)
          = (\<Sum>row\<leftarrow>ds_usage d. unat fee - unat fee * unat (dataset_bw d (ur_work row)) div 1000000)
     \<and> (\<forall>w \<in> ur_work ` set (ds_usage d). \<exists>rep. bt_get (reputation_of p) w = Some rep
          \<and> unat (distinct_users rep) = length (List.filter (\<lambda>row. ur_work row = w) (ds_usage d))
          \<and> unat (weighted_usage rep) = (\<Sum>row\<leftarrow>ds_usage d. if ur_work row = w
               then unat (ur_minutes row) * plays_factor row * unat (dataset_bw d w) else 0))"
proof -
  from assms obtain raws p where p: "allocate d default_params = Inr p"
    and rel: "list_all2 raw_row_for (ds_usage d) raws" and one: "one_row_each (ds_tier_fees d) raws fee"
    and al: "allocate_from_raw_with_row_credibility (ds_tier_fees d) raws
           (map (\<lambda>r. bw_ppm (ds_bandwidth_ppm d) (rr_work r)) raws) = Inr p"
    by (rule one_usage_allocates)
  let ?bw = "dataset_bw d"
  have clamp: "min (bw_ppm m k) 1000000 = bw_ppm m k" for m k by (simp add: bw_ppm_def)
  have zipped: "(\<Sum>(r, c)\<leftarrow>zip raws (map (\<lambda>r. bw_ppm (ds_bandwidth_ppm d) (rr_work r)) raws). h r c)
      = (\<Sum>r\<leftarrow>raws. h r (?bw (rr_work r)))" for h :: "raw_row \<Rightarrow> u64 \<Rightarrow> nat"
    by (induction raws) (simp_all add: dataset_bw_def)
  have neutral: "neutral_row row" if "row \<in> set (ds_usage d)" for row
    using assms(1) that by (simp add: one_usage_each_def)
  have share: "fee_target (unat fee) [(r, c)] = unat fee * unat c div 1000000"
      "cred_nat (r, c) = unat (ur_minutes row) * plays_factor row * unat c"
    if "row \<in> set (ds_usage d)" "raw_row_for row r" for row r c
    using one_row_share [of r "unat (ur_minutes row)" "plays_factor row"] neutral [OF that(1)] that(2)
      raw_weight_neutral [of row] plays_factor_pos [of row]
    by (simp_all add: raw_row_for_def neutral_row_def)
  have paid: "unat (bt_get_or 0 (per_work p) w)
      = (\<Sum>row\<leftarrow>ds_usage d. if ur_work row = w then unat fee * unat (?bw w) div 1000000 else 0)" for w
    unfolding one_row_payouts(1) [OF one al] zipped
    by (rule raw_row_sums [OF rel]) (auto simp: clamp share dataset_bw_def raw_row_for_def)
  have burned: "unat (unallocated p) = (\<Sum>row\<leftarrow>ds_usage d. unat fee - unat fee * unat (?bw (ur_work row)) div 1000000)"
    unfolding one_row_payouts(2) [OF one al] zipped
    by (rule raw_row_sums [OF rel]) (auto simp: clamp share dataset_bw_def raw_row_for_def)
  have rep: "\<exists>rep. bt_get (reputation_of p) w = Some rep
          \<and> unat (distinct_users rep) = length (List.filter (\<lambda>row. ur_work row = w) (ds_usage d))
          \<and> unat (weighted_usage rep) = (\<Sum>row\<leftarrow>ds_usage d. if ur_work row = w
               then unat (ur_minutes row) * plays_factor row * unat (?bw w) else 0)"
    if "w \<in> ur_work ` set (ds_usage d)" for w
  proof -
    have "ur_work ` set (ds_usage d) = rr_work ` set raws"
      using rel by (induction rule: list_all2_induct) (auto simp: raw_row_for_def)
    with that obtain r where r: "r \<in> set raws" "rr_work r = w" by auto
    have n: "length (List.filter (\<lambda>r. rr_work r = w) raws) = length (List.filter (\<lambda>row. ur_work row = w) (ds_usage d))"
      using rel by (induction rule: list_all2_induct) (auto simp: raw_row_for_def)
    have "(\<Sum>r\<leftarrow>raws. if rr_work r = w then cred_nat (r, min (?bw (rr_work r)) 1000000) else 0)
        = (\<Sum>row\<leftarrow>ds_usage d. if ur_work row = w then unat (ur_minutes row) * plays_factor row * unat (?bw w) else 0)"
      by (rule raw_row_sums [OF rel]) (auto simp: clamp share dataset_bw_def raw_row_for_def)
    with one_row_reputation [OF one al r(2,1)] show ?thesis unfolding zipped n by simp
  qed
  from p paid burned rep show ?thesis by blast
qed

section \<open>The data sets have one row per user\<close>

definition puppet_row :: "string \<Rightarrow> u64 \<Rightarrow> usage_row" where
  "puppet_row work i = \<lparr>ur_user = puppet_user i, ur_work = work, ur_minutes = 60, ur_price_ppm = 1000000,
     ur_region_ppm = 1000000, ur_plays = 5000\<rparr>"

definition listener_row :: "u64 \<Rightarrow> usage_row" where
  "listener_row i = \<lparr>ur_user = ''listener'' @ u64_to_string i, ur_work = ''wBroad'', ur_minutes = 10,
     ur_price_ppm = 1000000, ur_region_ppm = 1000000, ur_plays = 1\<rparr>"

lemma row_fold:
  fixes n :: u64
  assumes user: "\<And>i j :: u64. ur_user (row i) = ur_user (row j) \<longleftrightarrow> i = j" and "\<And>i. neutral_row (row i)"
    and step: "\<And>fees usage i. step (fees, usage) i = (bt_insert (ur_user (row i)) fee fees, usage @ [row i])"
    and "k \<le> unat n"
  shows "\<exists>fees. foldl step ([], []) (map of_nat [0..<k]) = (fees, map (\<lambda>j. row (of_nat j)) [0..<k])
     \<and> one_usage_each fee fees (map (\<lambda>j. row (of_nat j)) [0..<k])"
  using assms(4)
proof (induction k)
  case (Suc k)
  then have "k \<le> unat n" by simp
  from Suc.IH [OF this] obtain fees where f: "foldl step ([], []) (map of_nat [0..<k]) = (fees, map (\<lambda>j. row (of_nat j)) [0..<k])"
    "one_usage_each fee fees (map (\<lambda>j. row (of_nat j)) [0..<k])" by blast
  have "ur_user (row (of_nat k)) \<notin> ur_user ` set (map (\<lambda>j. row (of_nat j)) [0..<k])"
  proof
    assume "ur_user (row (of_nat k)) \<in> ur_user ` set (map (\<lambda>j. row (of_nat j)) [0..<k])"
    then obtain j where j: "j < k" "of_nat j = (of_nat k :: u64)" using user by auto
    then have "unat (of_nat j :: u64) = unat (of_nat k :: u64)" by simp
    then show False using j(1) Suc.prems u64_lt [of n] by (simp add: unat_of_nat take_bit_nat_eq_self)
  qed
  from one_usage_snoc [OF f(2) this assms(2)] show ?case using f(1) step by simp
qed (simp add: one_usage_Nil)

lemma puppets_fold:
  fixes n :: u64
  shows "\<exists>fees. foldl (puppet_step fee work) ([], []) (map of_nat [0..<unat n]) = (fees, map (\<lambda>j. puppet_row work (of_nat j)) [0..<unat n])
     \<and> one_usage_each fee fees (map (\<lambda>j. puppet_row work (of_nat j)) [0..<unat n])"
  by (rule row_fold [where n = n]) (simp_all add: puppet_row_def puppet_user_def u64_to_string_inj neutral_row_def puppet_step_def)

lemma listeners_fold:
  fixes n :: u64
  shows "\<exists>fees. foldl (listener_step fee) ([], []) (map of_nat [0..<unat n]) = (fees, map (\<lambda>j. listener_row (of_nat j)) [0..<unat n])
     \<and> one_usage_each fee fees (map (\<lambda>j. listener_row (of_nat j)) [0..<unat n])"
  by (rule row_fold [where n = n]) (simp_all add: listener_row_def u64_to_string_inj neutral_row_def listener_step_def Let_def)

lemma puppet_dataset_fields:
  "ds_usage (puppet_dataset n fee work bandwidth) = map (\<lambda>j. puppet_row work (of_nat j)) [0..<unat n]"
  "one_usage_each fee (ds_tier_fees (puppet_dataset n fee work bandwidth)) (ds_usage (puppet_dataset n fee work bandwidth))"
  "dataset_bw (puppet_dataset n fee work bandwidth) work = min (or_default 1000000 bandwidth) 1000000"
  using puppets_fold [of fee work n]
  by (auto simp: puppet_dataset_def dataset_bw_def bw_ppm_def bt_get_or_def or_default_def split: option.split)

lemma puppets_paid:
  assumes "unat fee * (unat n * 60000000000000) < 2 ^ 128"
    and "bw = unat (min (or_default 1000000 bandwidth) 1000000)"
  shows "\<exists>p. allocate (puppet_dataset n fee work bandwidth) default_params = Inr p
     \<and> unat (bt_get_or 0 (per_work p) work) = unat n * (unat fee * bw div 1000000)
     \<and> unat (unallocated p) = unat n * (unat fee - unat fee * bw div 1000000)"
proof -
  let ?d = "puppet_dataset n fee work bandwidth"
  have rows: "(\<Sum>row\<leftarrow>ds_usage ?d. h row) = unat n * k" if "\<And>i. h (puppet_row work i) = (k :: nat)" for h k
    by (simp add: puppet_dataset_fields(1) comp_def that sum_list_triv)
  have fits: "unat fee * (\<Sum>row\<leftarrow>ds_usage ?d. unat (ur_minutes row) * 1000000000000) < 2 ^ 128"
    using assms(1) rows [of "\<lambda>row. unat (ur_minutes row) * 1000000000000" 60000000000000]
    by (simp add: puppet_row_def)
  have len: "length (ds_usage ?d) < 2 ^ 64" using u64_lt [of n] by (simp add: puppet_dataset_fields(1))
  from one_usage_payouts [OF puppet_dataset_fields(2) len fits] obtain p where p: "allocate ?d default_params = Inr p"
    and paid: "unat (bt_get_or 0 (per_work p) work)
          = (\<Sum>row\<leftarrow>ds_usage ?d. if ur_work row = work then unat fee * unat (dataset_bw ?d work) div 1000000 else 0)"
    and burned: "unat (unallocated p)
          = (\<Sum>row\<leftarrow>ds_usage ?d. unat fee - unat fee * unat (dataset_bw ?d (ur_work row)) div 1000000)"
    by blast
  have "unat (bt_get_or 0 (per_work p) work) = unat n * (unat fee * bw div 1000000)"
    unfolding paid by (rule rows) (simp add: puppet_row_def puppet_dataset_fields(3) assms(2))
  moreover have "unat (unallocated p) = unat n * (unat fee - unat fee * bw div 1000000)"
    unfolding burned by (rule rows) (simp add: puppet_row_def puppet_dataset_fields(3) assms(2))
  ultimately show ?thesis using p by blast
qed

section \<open>The scenarios\<close>

lemma demo_check_bind [simp]: "b \<Longrightarrow> res_bind (demo_check l b) k = k ()"
  by (simp add: demo_check_def)

lemma conserved_ok:
  assumes "allocate d default_params = Inr p" and "length (ds_usage d) < 2 ^ 64"
  shows "conserved d p = Inr ()"
  by (simp add: conserved_def demo_check_def allocate_total [OF assms])

lemma fraud_is_capped: "scenario_fraud_is_capped = Inr ()"
proof -
  let ?d = "puppet_dataset 5 100000 ''wF'' None"
  obtain p where p: "allocate ?d default_params = Inr p" "unat (bt_get_or 0 (per_work p) ''wF'') = 500000"
      "unat (unallocated p) = 0"
    using puppets_paid [of 100000 5 1000000 None "''wF''"] by (auto simp: or_default_def)
  have "bt_get_or 0 (per_work p) ''wF'' = 500000" "unallocated p = 0" using p(2,3) by (simp_all add: word_unat_eq_iff)
  moreover have "conserved ?d p = Inr ()" by (rule conserved_ok [OF p(1)]) (simp add: puppet_dataset_fields(1))
  ultimately show ?thesis by (simp add: scenario_fraud_is_capped_def Let_def expect_payouts_def p(1))
qed

lemma fake_plays_are_a_loss: "scenario_fake_plays_are_a_loss = Inr ()"
proof -
  let ?d = "puppet_dataset 5 100000 ''wF'' (Some 100000)"
  have "100000 = unat (min (or_default 1000000 (Some 100000)) (1000000 :: u64))" by (simp add: or_default_def min_def)
  from puppets_paid [OF _ this, of 100000 5 "''wF''"]
  obtain p where p: "allocate ?d default_params = Inr p" "unat (bt_get_or 0 (per_work p) ''wF'') = 50000"
      "unat (unallocated p) = 450000" by auto
  have "bt_get_or 0 (per_work p) ''wF'' = 50000" "unallocated p = 450000" using p(2,3) by (simp_all add: word_unat_eq_iff)
  moreover have "conserved ?d p = Inr ()" by (rule conserved_ok [OF p(1)]) (simp add: puppet_dataset_fields(1))
  ultimately show ?thesis by (simp add: scenario_fake_plays_are_a_loss_def Let_def expect_payouts_def p(1))
qed

lemma superfan_one: "one_usage_each fee (ds_tier_fees (superfan_dataset fee)) (ds_usage (superfan_dataset fee))"
  using one_usage_snoc [OF one_usage_Nil, of "hd (ds_usage (superfan_dataset fee))" fee]
  by (simp add: superfan_dataset_def neutral_row_def)

lemma superfan_fairness: "scenario_superfan_fairness = Inr ()"
proof -
  let ?d = "superfan_dataset 1000000"
  have bw: "dataset_bw ?d w = 1000000" for w by (simp add: dataset_bw_def bw_ppm_def superfan_dataset_def bt_get_or_def)
  have rows: "ds_usage ?d = [\<lparr>ur_user = ''superfan'', ur_work = ''wNiche'', ur_minutes = 300, ur_price_ppm = 1000000,
                   ur_region_ppm = 1000000, ur_plays = 1000\<rparr>]" by (simp add: superfan_dataset_def)
  obtain p where p: "allocate ?d default_params = Inr p" "unat (bt_get_or 0 (per_work p) ''wNiche'') = 1000000"
      "unat (unallocated p) = 0"
    using one_usage_payouts [OF superfan_one, of 1000000] by (auto simp: rows bw)
  have "bt_get_or 0 (per_work p) ''wNiche'' = 1000000" "unallocated p = 0" using p(2,3) by (simp_all add: word_unat_eq_iff)
  moreover have "conserved ?d p = Inr ()" by (rule conserved_ok [OF p(1)]) (simp add: rows)
  ultimately show ?thesis by (simp add: scenario_superfan_fairness_def Let_def expect_payouts_def p(1))
qed

text \<open>Distinct listeners that play once weigh more in the reputation than one listener that repeats:
  the repeater's weight is at most that of a single play.\<close>

definition grinder_row :: usage_row where
  "grinder_row = \<lparr>ur_user = ''grinder'', ur_work = ''wDeep'', ur_minutes = 10, ur_price_ppm = 1000000,
     ur_region_ppm = 1000000, ur_plays = 500\<rparr>"

lemma breadth_dataset_fields:
  "ds_usage (breadth_dataset n fee) = map (\<lambda>j. listener_row (of_nat j)) [0..<unat n] @ [grinder_row]"
  "one_usage_each fee (ds_tier_fees (breadth_dataset n fee)) (ds_usage (breadth_dataset n fee))"
  "dataset_bw (breadth_dataset n fee) w = 1000000"
proof -
  obtain fees where f: "foldl (listener_step fee) ([], []) (map of_nat [0..<unat n])
      = (fees, map (\<lambda>j. listener_row (of_nat j)) [0..<unat n])"
    and one: "one_usage_each fee fees (map (\<lambda>j. listener_row (of_nat j)) [0..<unat n])"
    using listeners_fold by blast
  have new: "ur_user grinder_row \<notin> ur_user ` set (map (\<lambda>j. listener_row (of_nat j)) [0..<unat n])"
    by (auto simp: grinder_row_def listener_row_def)
  have "neutral_row grinder_row" by (simp add: grinder_row_def neutral_row_def)
  from one_usage_snoc [OF one new this]
  show "one_usage_each fee (ds_tier_fees (breadth_dataset n fee)) (ds_usage (breadth_dataset n fee))"
    unfolding breadth_dataset_def f by (simp add: grinder_row_def)
  show "ds_usage (breadth_dataset n fee) = map (\<lambda>j. listener_row (of_nat j)) [0..<unat n] @ [grinder_row]"
    unfolding breadth_dataset_def f by (simp add: grinder_row_def)
  show "dataset_bw (breadth_dataset n fee) w = 1000000"
    unfolding breadth_dataset_def f by (simp add: dataset_bw_def bw_ppm_def bt_get_or_def)
qed

lemma breadth_reputation:
  assumes "0 < unat n" and "unat n < 2 ^ 63" and "unat fee * (unat n * 10000000000000 + 10000000000000) < 2 ^ 128"
  shows "\<exists>p broad deep. allocate (breadth_dataset n fee) default_params = Inr p
     \<and> bt_get (reputation_of p) ''wBroad'' = Some broad \<and> bt_get (reputation_of p) ''wDeep'' = Some deep
     \<and> distinct_users broad = n \<and> distinct_users deep = 1
     \<and> unat (weighted_usage broad) = unat n * 10000000000000 \<and> unat (weighted_usage deep) = 10000000 * d_nat 1000000 500"
proof -
  let ?d = "breadth_dataset n fee"
  note rows = breadth_dataset_fields(1) [of n fee]
  have works: "ur_work (listener_row i) = ''wBroad''" "ur_work grinder_row = ''wDeep''"
    "unat (ur_minutes (listener_row i)) = 10" "unat (ur_minutes grinder_row) = 10" for i
    by (simp_all add: listener_row_def grinder_row_def)
  have "d_nat 1000000 1 = 1000000" by (simp add: d_nat_def d_sum_def)
  then have D: "plays_factor (listener_row i) = 1000000" "plays_factor grinder_row = d_nat 1000000 500" for i
    by (simp_all add: plays_factor_def listener_row_def grinder_row_def)
  have len: "length (ds_usage ?d) < 2 ^ 64" using assms(2) by (simp add: rows)
  have fits: "unat fee * (\<Sum>row\<leftarrow>ds_usage ?d. unat (ur_minutes row) * 1000000000000) < 2 ^ 128"
    using assms(3) by (simp add: rows works comp_def sum_list_triv)
  have "''wBroad'' \<in> ur_work ` set (ds_usage ?d)"
    using assms(1) works(1) [of 0] by (force simp: rows)
  moreover have "''wDeep'' \<in> ur_work ` set (ds_usage ?d)" by (simp add: rows works)
  ultimately obtain p broad deep where p: "allocate ?d default_params = Inr p"
    and get: "bt_get (reputation_of p) ''wBroad'' = Some broad" "bt_get (reputation_of p) ''wDeep'' = Some deep"
    and users: "unat (distinct_users broad) = length (List.filter (\<lambda>row. ur_work row = ''wBroad'') (ds_usage ?d))"
      "unat (distinct_users deep) = length (List.filter (\<lambda>row. ur_work row = ''wDeep'') (ds_usage ?d))"
    and weights: "unat (weighted_usage broad) = (\<Sum>row\<leftarrow>ds_usage ?d. if ur_work row = ''wBroad''
               then unat (ur_minutes row) * plays_factor row * unat (dataset_bw ?d ''wBroad'') else 0)"
      "unat (weighted_usage deep) = (\<Sum>row\<leftarrow>ds_usage ?d. if ur_work row = ''wDeep''
               then unat (ur_minutes row) * plays_factor row * unat (dataset_bw ?d ''wDeep'') else 0)"
    using one_usage_payouts [OF breadth_dataset_fields(2) len fits] by blast
  have "unat (weighted_usage broad) = unat n * 10000000000000"
    "unat (weighted_usage deep) = 10000000 * d_nat 1000000 500"
    unfolding weights by (simp_all add: rows works D comp_def sum_list_triv breadth_dataset_fields(3))
  moreover have "unat (distinct_users broad) = unat n" "unat (distinct_users deep) = 1"
    unfolding users by (simp_all add: rows works comp_def filter_map)
  ultimately show ?thesis using p get by (simp add: word_unat_eq_iff)
qed

lemma reputation_prefers_breadth: "scenario_reputation_prefers_breadth = Inr ()"
proof -
  let ?d = "breadth_dataset 5 200000"
  obtain p broad deep where p: "allocate ?d default_params = Inr p"
      "bt_get (reputation_of p) ''wBroad'' = Some broad" "bt_get (reputation_of p) ''wDeep'' = Some deep"
      "distinct_users broad = 5" "distinct_users deep = 1"
      "unat (weighted_usage broad) = 50000000000000" "unat (weighted_usage deep) = 10000000 * d_nat 1000000 500"
    using breadth_reputation [of 5 200000] by auto
  have "weighted_usage deep < weighted_usage broad"
    using p(6,7) d_nat_le [of 1000000 500] by (simp add: word_less_nat_alt)
  moreover have "conserved ?d p = Inr ()" by (rule conserved_ok [OF p(1)]) (simp add: breadth_dataset_fields(1))
  ultimately show ?thesis
    using p by (simp add: scenario_reputation_prefers_breadth_def Let_def expect_payouts_def bt_get_or_def)
qed

section \<open>The simulator\<close>

text \<open>
  A path as \<open>Path\<close> compares it: whether it starts at the root, and its components; empty ones and
  single dots count only as a leading dot of a relative path.
\<close>

record fs_path =
  up_root :: bool
  up_comps :: "string list"

definition fs_path_of :: "string \<Rightarrow> fs_path" where
  "fs_path_of s =
     (let parts = split_on (\<lambda>c. c = CHR ''/'') s; kept = List.filter (\<lambda>p. p \<noteq> [] \<and> p \<noteq> ''.'') parts in
      \<lparr>up_root = (s \<noteq> [] \<and> hd s = CHR ''/''),
       up_comps = (if hd parts = ''.'' then ''.'' # kept else kept)\<rparr>)"

definition path_file_name :: "fs_path \<Rightarrow> string option" where
  "path_file_name p = (if up_comps p = [] \<or> last (up_comps p) \<in> {''.'', ''..''} then None else Some (last (up_comps p)))"

definition path_parent :: "fs_path \<Rightarrow> fs_path option" where
  "path_parent p = (if up_comps p = [] then None else Some (p\<lparr>up_comps := butlast (up_comps p)\<rparr>))"

definition path_join :: "fs_path \<Rightarrow> string \<Rightarrow> fs_path" where
  "path_join p name = p\<lparr>up_comps := up_comps p @ [name]\<rparr>"

text \<open>The part of a file name before its last dot; a name whose only dot comes first has no
  extension.\<close>

definition file_stem :: "string \<Rightarrow> string" where
  "file_stem name =
     (let before = rev (drop 1 (dropWhile (\<lambda>c. c \<noteq> CHR ''.'') (rev name))) in
      if before = [] then name else before)"

definition path_file_stem :: "fs_path \<Rightarrow> string option" where
  "path_file_stem p = map_option file_stem (path_file_name p)"

definition expected_output_path :: "fs_path \<Rightarrow> fs_path" where
  "expected_output_path fixture_path =
     (let stem = or_default ''fixture'' (path_file_stem fixture_path);
          file_name = stem @ ''_expected.json''
      in case path_parent fixture_path of
           Some dir \<Rightarrow> path_join dir file_name
         | None \<Rightarrow> \<lparr>up_root = False, up_comps = [file_name]\<rparr>)"

datatype sim_error = Reading | Parsing | Allocating dapr_error | Serialising | Writing

definition sim_run ::
    "(fs_path \<Rightarrow> string option) \<Rightarrow> (string \<Rightarrow> dataset option) \<Rightarrow> (payouts \<Rightarrow> string option)
     \<Rightarrow> (fs_path \<times> string \<Rightarrow> bool) \<Rightarrow> fs_path \<Rightarrow> (fs_path \<times> string, sim_error, fs_path) job" where
  "sim_run read_to_string from_str to_string_pretty fs_write fixture_path =
     job_bind (job_lift (ok_or Reading (read_to_string fixture_path))) (\<lambda>raw.
     job_bind (job_lift (ok_or Parsing (from_str raw))) (\<lambda>d.
     job_bind (job_lift (map_err Allocating (allocate d default_params))) (\<lambda>p.
     let output_path = expected_output_path fixture_path in
     job_bind (job_lift (ok_or Serialising (to_string_pretty p))) (\<lambda>serialized.
     job_bind (perform (\<lambda>w. if fs_write w then Inr () else Inl Writing) (output_path, serialized @ [CHR 0x0A])) (\<lambda>_.
     job_lift (Inr output_path))))))"

text \<open>The exit status: success, or failure for a wrong number of arguments and for every error.\<close>

definition simulate_main ::
    "(fs_path \<Rightarrow> string option) \<Rightarrow> (string \<Rightarrow> dataset option) \<Rightarrow> (payouts \<Rightarrow> string option)
     \<Rightarrow> (fs_path \<times> string \<Rightarrow> bool) \<Rightarrow> string list \<Rightarrow> (fs_path \<times> string) list \<times> bool" where
  "simulate_main read_to_string from_str to_string_pretty fs_write args =
     (case args of
        [fixture] \<Rightarrow>
          (case sim_run read_to_string from_str to_string_pretty fs_write (fs_path_of fixture) [] of
             (writes, Inr _) \<Rightarrow> (writes, True)
           | (writes, Inl _) \<Rightarrow> (writes, False))
      | _ \<Rightarrow> ([], False))"

lemma file_stem_not_extended: "file_stem name @ ''_expected.json'' \<noteq> name"
proof
  assume n: "file_stem name @ ''_expected.json'' = name"
  have "dropWhile (\<lambda>c. c \<noteq> CHR ''.'') (rev (file_stem name @ ''_expected.json''))
      = ''.detcepxe_'' @ rev (file_stem name)" by simp
  then have "file_stem name = file_stem name @ ''_expected''"
    using n by (subst (1) file_stem_def) (simp add: Let_def)
  then show False by simp
qed

lemma output_is_another_file: "expected_output_path f \<noteq> f"
proof
  assume e: "expected_output_path f = f"
  show False
  proof (cases "up_comps f = []")
    case True
    with arg_cong [OF e, of up_comps] show False by (simp add: expected_output_path_def path_parent_def Let_def)
  next
    case False
    let ?stem = "or_default ''fixture'' (path_file_stem f)"
    from arg_cong [OF e, of "\<lambda>p. last (up_comps p)"] False
    have l: "last (up_comps f) = ?stem @ ''_expected.json''"
      by (simp add: expected_output_path_def path_parent_def path_join_def Let_def)
    then have "last (up_comps f) \<notin> {''.'', ''..''}" by (auto dest: arg_cong [of _ _ length])
    then have "?stem = file_stem (last (up_comps f))"
      using False by (simp add: path_file_stem_def path_file_name_def or_default_def)
    with l file_stem_not_extended show False by metis
  qed
qed

section \<open>What the payout programs show\<close>

text \<open>C26: fraud is capped, and fake plays lose. For any number of puppet users who each play one work,
  any fee and any credibility of the work, as long as the fee times the total weight stays below
  \<open>2^128\<close>: the allocation succeeds, each puppet's fee reaches the work in proportion to the
  credibility, so the work is never paid more than the puppets paid in, nothing is lost between the
  work and the unallocated amount, and the attack loses money exactly when the credibility is below
  one and there are fees at all.\<close>

theorem puppets_capped:
  assumes "unat fee * (unat n * 60000000000000) < 2 ^ 128"
  shows "\<exists>p. allocate (puppet_dataset n fee work bandwidth) default_params = Inr p
     \<and> unat (bt_get_or 0 (per_work p) work)
         = unat n * (unat fee * unat (min (or_default 1000000 bandwidth) 1000000) div 1000000)
     \<and> unat (bt_get_or 0 (per_work p) work) \<le> unat n * unat fee
     \<and> unat (bt_get_or 0 (per_work p) work) + unat (unallocated p) = unat n * unat fee
     \<and> (unat (bt_get_or 0 (per_work p) work) < unat n * unat fee
          \<longleftrightarrow> n \<noteq> 0 \<and> fee \<noteq> 0 \<and> or_default 1000000 bandwidth < 1000000)"
proof -
  define bw where "bw = unat (min (or_default 1000000 bandwidth) 1000000)"
  have bw: "bw \<le> 1000000" "bw < 1000000 \<longleftrightarrow> or_default 1000000 bandwidth < 1000000"
    by (auto simp: bw_def unat_min word_less_nat_alt)
  have le: "unat fee * bw div 1000000 \<le> unat fee"
    using div_le_mono [of "unat fee * bw" "unat fee * 1000000" 1000000] bw(1) by simp
  have lt: "unat fee * bw div 1000000 < unat fee \<longleftrightarrow> fee \<noteq> 0 \<and> bw < 1000000"
    using bw(1) by (auto simp: div_less_iff_less_mult unat_gt_0)
  have paid: "unat n * (unat fee * bw div 1000000) < unat n * unat fee \<longleftrightarrow> n \<noteq> 0 \<and> fee \<noteq> 0 \<and> bw < 1000000"
    using lt by (auto simp: unat_gt_0)
  have sum: "unat n * (unat fee * bw div 1000000) + unat n * (unat fee - unat fee * bw div 1000000) = unat n * unat fee"
    using le by (metis add_mult_distrib2 le_add_diff_inverse)
  from puppets_paid [OF assms bw_def, of work] sum paid le show ?thesis
    unfolding bw_def [symmetric] bw(2) [symmetric] by auto
qed

theorem puppets_capped_witness:
  "\<exists>p. allocate (puppet_dataset 1000 2500000 ''wF'' (Some 300000)) default_params = Inr p
     \<and> unat (bt_get_or 0 (per_work p) ''wF'') = 750000000 \<and> unat (unallocated p) = 1750000000"
proof -
  have "min (or_default 1000000 (Some 300000)) 1000000 = (300000 :: u64)" by (simp add: or_default_def min_def)
  with puppets_capped [of 2500000 1000 "''wF''" "Some 300000"] show ?thesis by auto
qed

text \<open>The demonstration passes. All four scenarios end with success: none of the thirteen checks
  fails and no allocation returns an error, so the process never exits with a failure.\<close>

theorem antifraud_demo_passes: "antifraud_main = Inr ()"
  by (simp add: antifraud_main_def fraud_is_capped fake_plays_are_a_loss superfan_fairness reputation_prefers_breadth)

text \<open>The reputation counts listeners once. A work appears in the reputation exactly when a
  paying user has a row of it; its listener count is the number of these users, however many rows or
  plays they have, and its weighted usage is the sum of its rows' credited weights.\<close>

theorem reputation_counts_listeners:
  assumes "allocate_from_raw_with_row_credibility fees rows creds = Inr p" and "length fees < 2 ^ 64"
  shows "(bt_get (reputation_of p) w = None \<longleftrightarrow> listeners fees rows creds w = {})
     \<and> unat (distinct_users (bt_get_or no_reputation (reputation_of p) w)) = card (listeners fees rows creds w)
     \<and> (listeners fees rows creds w = {} \<or> unat (weighted_usage (bt_get_or no_reputation (reputation_of p) w))
          = (\<Sum>(u, fee)\<leftarrow>fees. rep_credit (user_rows_of rows creds u) w))"
  using reputation_get [OF assms, of w]
  by (auto simp: bt_get_or_def no_reputation_def split: option.splits)

theorem reputation_counts_listeners_witness:
  "\<exists>p. allocate_from_raw_with_row_credibility ex_fees ex_rows ex_creds = Inr p
     \<and> unat (distinct_users (bt_get_or no_reputation (reputation_of p) ''wA'')) = 2"
proof -
  obtain p where p: "allocate_from_raw_with_row_credibility ex_fees ex_rows ex_creds = Inr p"
    using ex_allocation by (auto simp: is_ok_iff)
  have "listeners ex_fees ex_rows ex_creds ''wA'' = {''alice'', ''bob''}"
    by (auto simp: listeners_def plays_work_def user_rows_of_def ex_fees_def ex_rows_def ex_creds_def)
  with reputation_counts_listeners [OF p, of "''wA''"] p show ?thesis by (auto simp: ex_fees_def)
qed

text \<open>The simulator writes one file or none. On success there was one argument, the file read and
  parsed, and exactly one file was written: the payouts of the parsed data set, at a path that is
  never the fixture's own, with all fees accounted for. On every failure nothing was written.\<close>

theorem simulate_writes_one_new_file:
  "case simulate_main read_to_string from_str to_string_pretty fs_write args of (writes, ok) \<Rightarrow>
     if ok then \<exists>fixture raw d p json. args = [fixture] \<and> read_to_string (fs_path_of fixture) = Some raw
         \<and> from_str raw = Some d \<and> allocate d default_params = Inr p \<and> to_string_pretty p = Some json
         \<and> writes = [(expected_output_path (fs_path_of fixture), json @ [CHR 0x0A])]
         \<and> expected_output_path (fs_path_of fixture) \<noteq> fs_path_of fixture
         \<and> (2 ^ 64 \<le> length (ds_usage d) \<or> total_to_works p + unallocated p = total_fees d)
     else writes = []"
proof (cases "\<exists>fixture. args = [fixture]")
  case True
  then obtain fixture where args: "args = [fixture]" by blast
  obtain writes r where run: "sim_run read_to_string from_str to_string_pretty fs_write (fs_path_of fixture) [] = (writes, r)"
    by fastforce
  show ?thesis
  proof (cases r)
    case (Inr out)
    with run obtain raw d p json where
      "read_to_string (fs_path_of fixture) = Some raw" "from_str raw = Some d"
      "allocate d default_params = Inr p" "to_string_pretty p = Some json"
      "writes = [(expected_output_path (fs_path_of fixture), json @ [CHR 0x0A])]"
      by (auto simp: sim_run_def Let_def result_simps)
    with run Inr args allocate_total [of d default_params p] output_is_another_file show ?thesis
      by (auto simp: simulate_main_def not_le [symmetric])
  next
    case (Inl e)
    with run have "writes = []"
      by (auto simp: sim_run_def Let_def job_bind_def job_lift_def perform_def split: prod.splits sum.splits if_splits)
    with run Inl args show ?thesis by (simp add: simulate_main_def)
  qed
qed (auto simp: simulate_main_def split: list.splits)

end
