(* ===== verification/Fixtures.thy ===== *)
theory Fixtures
  imports AntiFraud
begin

text \<open>
  The data sets and the expected payouts of \<open>sims/fixtures\<close>, and the tests of \<open>sims/tests/fixtures.rs\<close>
  over them: the model of the payout library computes, inside the logic, the very payouts committed
  in the repository. A field missing in a fixture has its default: no plays, no bandwidth signal.
\<close>

section \<open>The committed files\<close>

definition basic_fixture :: dataset where
  "basic_fixture =
     \<lparr>ds_tier_fees = [(''u1'', 1000000), (''u2'', 1000000)],
      ds_usage =
        [\<lparr>ur_user = ''u1'', ur_work = ''wA'', ur_minutes = 120, ur_price_ppm = 1200000, ur_region_ppm = 1000000, ur_plays = 0\<rparr>,
         \<lparr>ur_user = ''u1'', ur_work = ''wB'', ur_minutes = 30, ur_price_ppm = 600000, ur_region_ppm = 1000000, ur_plays = 0\<rparr>,
         \<lparr>ur_user = ''u2'', ur_work = ''wA'', ur_minutes = 10, ur_price_ppm = 1200000, ur_region_ppm = 1000000, ur_plays = 0\<rparr>,
         \<lparr>ur_user = ''u2'', ur_work = ''wC'', ur_minutes = 90, ur_price_ppm = 2500000, ur_region_ppm = 900000, ur_plays = 0\<rparr>],
      ds_bandwidth_ppm = []\<rparr>"

definition basic_expected :: payouts where
  "basic_expected =
     \<lparr>per_work = [(''wA'', 944833), (''wB'', 111111), (''wC'', 944056)],
      unallocated = 0,
      reputation_of =
        [(''wA'', \<lparr>distinct_users = 2, weighted_usage = 156000000000000\<rparr>),
         (''wB'', \<lparr>distinct_users = 1, weighted_usage = 18000000000000\<rparr>),
         (''wC'', \<lparr>distinct_users = 1, weighted_usage = 202500000000000\<rparr>)]\<rparr>"

definition multi_user_fixture :: dataset where
  "multi_user_fixture =
     \<lparr>ds_tier_fees = [(''u1'', 1000000), (''u2'', 1000000), (''u3'', 500000), (''u4'', 2500000), (''u5'', 333333)],
      ds_usage =
        [\<lparr>ur_user = ''u1'', ur_work = ''wA'', ur_minutes = 50, ur_price_ppm = 1000000, ur_region_ppm = 1000000, ur_plays = 0\<rparr>,
         \<lparr>ur_user = ''u1'', ur_work = ''wB'', ur_minutes = 25, ur_price_ppm = 1500000, ur_region_ppm = 900000, ur_plays = 0\<rparr>,
         \<lparr>ur_user = ''u1'', ur_work = ''wC'', ur_minutes = 10, ur_price_ppm = 2000000, ur_region_ppm = 1000000, ur_plays = 0\<rparr>,
         \<lparr>ur_user = ''u2'', ur_work = ''wA'', ur_minutes = 100, ur_price_ppm = 1000000, ur_region_ppm = 1000000, ur_plays = 0\<rparr>,
         \<lparr>ur_user = ''u2'', ur_work = ''wD'', ur_minutes = 40, ur_price_ppm = 800000, ur_region_ppm = 1100000, ur_plays = 0\<rparr>,
         \<lparr>ur_user = ''u3'', ur_work = ''wB'', ur_minutes = 33, ur_price_ppm = 1500000, ur_region_ppm = 950000, ur_plays = 0\<rparr>,
         \<lparr>ur_user = ''u3'', ur_work = ''wC'', ur_minutes = 33, ur_price_ppm = 2000000, ur_region_ppm = 950000, ur_plays = 0\<rparr>,
         \<lparr>ur_user = ''u3'', ur_work = ''wE'', ur_minutes = 33, ur_price_ppm = 500000, ur_region_ppm = 950000, ur_plays = 0\<rparr>,
         \<lparr>ur_user = ''u4'', ur_work = ''wA'', ur_minutes = 200, ur_price_ppm = 1000000, ur_region_ppm = 1000000, ur_plays = 0\<rparr>,
         \<lparr>ur_user = ''u5'', ur_work = ''wE'', ur_minutes = 7, ur_price_ppm = 500000, ur_region_ppm = 1000000, ur_plays = 0\<rparr>,
         \<lparr>ur_user = ''u5'', ur_work = ''wF'', ur_minutes = 7, ur_price_ppm = 500000, ur_region_ppm = 1000000, ur_plays = 0\<rparr>,
         \<lparr>ur_user = ''u5'', ur_work = ''wG'', ur_minutes = 7, ur_price_ppm = 500000, ur_region_ppm = 1000000, ur_plays = 0\<rparr>],
      ds_bandwidth_ppm = []\<rparr>"

definition multi_user_expected :: payouts where
  "multi_user_expected =
     \<lparr>per_work = [(''wA'', 3721573), (''wB'', 512801), (''wC'', 442771), (''wD'', 260355), (''wE'', 173611), (''wF'', 111111), (''wG'', 111111)],
      unallocated = 0,
      reputation_of =
        [(''wA'', \<lparr>distinct_users = 3, weighted_usage = 350000000000000\<rparr>),
         (''wB'', \<lparr>distinct_users = 2, weighted_usage = 80775000000000\<rparr>),
         (''wC'', \<lparr>distinct_users = 2, weighted_usage = 82700000000000\<rparr>),
         (''wD'', \<lparr>distinct_users = 1, weighted_usage = 35200000000000\<rparr>),
         (''wE'', \<lparr>distinct_users = 2, weighted_usage = 19175000000000\<rparr>),
         (''wF'', \<lparr>distinct_users = 1, weighted_usage = 3500000000000\<rparr>),
         (''wG'', \<lparr>distinct_users = 1, weighted_usage = 3500000000000\<rparr>)]\<rparr>"

definition region_factors_fixture :: dataset where
  "region_factors_fixture =
     \<lparr>ds_tier_fees = [(''u1'', 900000)],
      ds_usage =
        [\<lparr>ur_user = ''u1'', ur_work = ''wFull'', ur_minutes = 100, ur_price_ppm = 1000000, ur_region_ppm = 1000000, ur_plays = 0\<rparr>,
         \<lparr>ur_user = ''u1'', ur_work = ''wHalf'', ur_minutes = 100, ur_price_ppm = 1000000, ur_region_ppm = 500000, ur_plays = 0\<rparr>],
      ds_bandwidth_ppm = []\<rparr>"

definition region_factors_expected :: payouts where
  "region_factors_expected =
     \<lparr>per_work = [(''wFull'', 600000), (''wHalf'', 300000)],
      unallocated = 0,
      reputation_of =
        [(''wFull'', \<lparr>distinct_users = 1, weighted_usage = 100000000000000\<rparr>),
         (''wHalf'', \<lparr>distinct_users = 1, weighted_usage = 50000000000000\<rparr>)]\<rparr>"

definition single_work_fixture :: dataset where
  "single_work_fixture =
     \<lparr>ds_tier_fees = [(''u1'', 777777)],
      ds_usage =
        [\<lparr>ur_user = ''u1'', ur_work = ''wONLY'', ur_minutes = 42, ur_price_ppm = 1000000, ur_region_ppm = 1000000, ur_plays = 0\<rparr>],
      ds_bandwidth_ppm = []\<rparr>"

definition single_work_expected :: payouts where
  "single_work_expected =
     \<lparr>per_work = [(''wONLY'', 777777)],
      unallocated = 0,
      reputation_of =
        [(''wONLY'', \<lparr>distinct_users = 1, weighted_usage = 42000000000000\<rparr>)]\<rparr>"

definition zero_value_fixture :: dataset where
  "zero_value_fixture =
     \<lparr>ds_tier_fees = [(''u1'', 1000000), (''uZero'', 400000)],
      ds_usage =
        [\<lparr>ur_user = ''u1'', ur_work = ''wA'', ur_minutes = 60, ur_price_ppm = 1000000, ur_region_ppm = 1000000, ur_plays = 0\<rparr>,
         \<lparr>ur_user = ''uZero'', ur_work = ''wB'', ur_minutes = 0, ur_price_ppm = 1000000, ur_region_ppm = 1000000, ur_plays = 0\<rparr>],
      ds_bandwidth_ppm = []\<rparr>"

definition zero_value_expected :: payouts where
  "zero_value_expected =
     \<lparr>per_work = [(''wA'', 1000000)],
      unallocated = 400000,
      reputation_of =
        [(''wA'', \<lparr>distinct_users = 1, weighted_usage = 60000000000000\<rparr>),
         (''wB'', \<lparr>distinct_users = 1, weighted_usage = 0\<rparr>)]\<rparr>"

datatype fixture_content = Input dataset | Oracle payouts

text \<open>The directory, in no particular order.\<close>

definition committed_fixtures :: "(string \<times> fixture_content) list" where
  "committed_fixtures =
     [(''zero_value_expected.json'', Oracle zero_value_expected), (''basic.json'', Input basic_fixture),
      (''multi_user.json'', Input multi_user_fixture), (''multi_user_expected.json'', Oracle multi_user_expected),
      (''region_factors_expected.json'', Oracle region_factors_expected), (''single_work.json'', Input single_work_fixture),
      (''basic_expected.json'', Oracle basic_expected), (''zero_value.json'', Input zero_value_fixture),
      (''region_factors.json'', Input region_factors_fixture), (''single_work_expected.json'', Oracle single_work_expected)]"

section \<open>The tests\<close>

definition is_input_fixture :: "string \<Rightarrow> bool" where
  "is_input_fixture name \<longleftrightarrow> suffix ''.json'' name \<and> \<not> suffix ''_expected.json'' name"

definition input_fixtures :: "(string \<times> fixture_content) list \<Rightarrow> string list" where
  "input_fixtures dir = sort_by (\<le>) (List.filter is_input_fixture (map fst dir))"

definition load_dataset :: "(string \<times> fixture_content) list \<Rightarrow> string \<Rightarrow> dataset option" where
  "load_dataset dir name = (case map_of dir name of Some (Input d) \<Rightarrow> Some d | _ \<Rightarrow> None)"

definition load_payouts :: "(string \<times> fixture_content) list \<Rightarrow> string \<Rightarrow> payouts option" where
  "load_payouts dir name = (case map_of dir name of Some (Oracle p) \<Rightarrow> Some p | _ \<Rightarrow> None)"

text \<open>A failed load or allocation panics, which fails the test.\<close>

definition computed :: "(string \<times> fixture_content) list \<Rightarrow> string \<Rightarrow> (dataset \<times> payouts) option" where
  "computed dir path =
     Option.bind (load_dataset dir path) (\<lambda>d.
       case allocate d default_params of Inr p \<Rightarrow> Some (d, p) | Inl _ \<Rightarrow> None)"

definition every_fixture_conserves_fees :: "(string \<times> fixture_content) list \<Rightarrow> bool" where
  "every_fixture_conserves_fees dir \<longleftrightarrow>
     list_all (\<lambda>path. case computed dir path of
         Some (d, p) \<Rightarrow> total_to_works p + unallocated p = total_fees d | None \<Rightarrow> False) (input_fixtures dir)"

definition committed_oracles_match :: "(string \<times> fixture_content) list \<Rightarrow> bool" where
  "committed_oracles_match dir \<longleftrightarrow>
     list_all (\<lambda>path. case computed dir path of
         Some (d, fresh) \<Rightarrow> load_payouts dir (file_stem path @ ''_expected.json'') = Some fresh | None \<Rightarrow> False)
       (input_fixtures dir)"

definition payout_maps_are_well_formed :: "(string \<times> fixture_content) list \<Rightarrow> bool" where
  "payout_maps_are_well_formed dir \<longleftrightarrow>
     list_all (\<lambda>path. case computed dir path of
         Some (d, p) \<Rightarrow> list_all (\<lambda>work. work \<in> set (map ur_work (ds_usage d))) (map fst (per_work p)) | None \<Rightarrow> False)
       (input_fixtures dir)"

section \<open>The oracles\<close>

lemma basic_oracle: "allocate basic_fixture default_params = Inr basic_expected"
  by code_simp

lemma multi_user_oracle: "allocate multi_user_fixture default_params = Inr multi_user_expected"
  by code_simp

lemma region_factors_oracle: "allocate region_factors_fixture default_params = Inr region_factors_expected"
  by code_simp

lemma single_work_oracle: "allocate single_work_fixture default_params = Inr single_work_expected"
  by code_simp

lemma zero_value_oracle: "allocate zero_value_fixture default_params = Inr zero_value_expected"
  by code_simp

lemma inputs:
  "input_fixtures committed_fixtures
     = [''basic.json'', ''multi_user.json'', ''region_factors.json'', ''single_work.json'', ''zero_value.json'']"
proof -
  have "map fst committed_fixtures = [''zero_value_expected.json'', ''basic.json'', ''multi_user.json'', ''multi_user_expected.json'',
      ''region_factors_expected.json'', ''single_work.json'', ''basic_expected.json'', ''zero_value.json'',
      ''region_factors.json'', ''single_work_expected.json'']" by (simp add: committed_fixtures_def)
  moreover have "sort_by (\<le>) (List.filter is_input_fixture [''zero_value_expected.json'', ''basic.json'', ''multi_user.json'',
      ''multi_user_expected.json'', ''region_factors_expected.json'', ''single_work.json'', ''basic_expected.json'',
      ''zero_value.json'', ''region_factors.json'', ''single_work_expected.json''])
    = [''basic.json'', ''multi_user.json'', ''region_factors.json'', ''single_work.json'', ''zero_value.json'']"
    by code_simp
  ultimately show ?thesis by (simp add: input_fixtures_def)
qed

lemma stems:
  "file_stem ''basic.json'' = ''basic''" "file_stem ''multi_user.json'' = ''multi_user''"
  "file_stem ''region_factors.json'' = ''region_factors''" "file_stem ''single_work.json'' = ''single_work''"
  "file_stem ''zero_value.json'' = ''zero_value''"
  by code_simp+

lemmas oracles = basic_oracle multi_user_oracle region_factors_oracle single_work_oracle zero_value_oracle
lemmas fixture_loads = computed_def load_dataset_def load_payouts_def committed_fixtures_def

lemma conserves:
  "total_to_works basic_expected + unallocated basic_expected = total_fees basic_fixture"
  "total_to_works multi_user_expected + unallocated multi_user_expected = total_fees multi_user_fixture"
  "total_to_works region_factors_expected + unallocated region_factors_expected = total_fees region_factors_fixture"
  "total_to_works single_work_expected + unallocated single_work_expected = total_fees single_work_fixture"
  "total_to_works zero_value_expected + unallocated zero_value_expected = total_fees zero_value_fixture"
  by code_simp+

lemma used_works:
  "list_all (\<lambda>work. work \<in> set (map ur_work (ds_usage basic_fixture))) (map fst (per_work basic_expected))"
  "list_all (\<lambda>work. work \<in> set (map ur_work (ds_usage multi_user_fixture))) (map fst (per_work multi_user_expected))"
  "list_all (\<lambda>work. work \<in> set (map ur_work (ds_usage region_factors_fixture))) (map fst (per_work region_factors_expected))"
  "list_all (\<lambda>work. work \<in> set (map ur_work (ds_usage single_work_fixture))) (map fst (per_work single_work_expected))"
  "list_all (\<lambda>work. work \<in> set (map ur_work (ds_usage zero_value_fixture))) (map fst (per_work zero_value_expected))"
  by code_simp+

text \<open>The model agrees with the repository's oracles. The three tests over the committed fixture
  directory pass on the model: it finds five inputs, allocates each, conserves the fees, pays only
  works that were used, and computes exactly the committed payouts, unallocated amounts and
  reputations.\<close>

theorem fixture_tests_pass:
  "length (input_fixtures committed_fixtures) = 5 \<and> every_fixture_conserves_fees committed_fixtures
   \<and> committed_oracles_match committed_fixtures \<and> payout_maps_are_well_formed committed_fixtures"
proof (intro conjI)
  show "length (input_fixtures committed_fixtures) = 5" by (simp add: inputs)
  show "every_fixture_conserves_fees committed_fixtures"
    unfolding every_fixture_conserves_fees_def inputs by (simp add: fixture_loads oracles conserves)
  show "committed_oracles_match committed_fixtures"
    unfolding committed_oracles_match_def inputs by (simp add: fixture_loads oracles stems)
  show "payout_maps_are_well_formed committed_fixtures"
    unfolding payout_maps_are_well_formed_def inputs
    using used_works by (simp add: fixture_loads oracles)
qed

end
