(* ===== verification/Browser.thy ===== *)
theory Browser
  imports Wallet Fingerprint "HOL-Library.Countable"
begin

text \<open>
  The WebAssembly core of the browser extension, \<open>clients/browser-ext/core/src/lib.rs\<close>: the functions
  JavaScript calls, over the session store and the commitments of the theory \<open>Wallet\<close>. A JavaScript
  number arrives as an \<open>f64\<close>. The JSON codec, the hash, the fingerprint of samples and the hexadecimal
  coder are parameters. The JavaScript shell that makes the calls is the theory \<open>Shell\<close>.
\<close>

section \<open>Numbers\<close>

datatype f64 = NaN | Infinite bool | Finite rat

text \<open>The cast \<open>as u64\<close> truncates towards zero, saturates at the bounds and sends NaN to zero.\<close>

definition f64_as_u64 :: "f64 \<Rightarrow> u64" where
  "f64_as_u64 x =
     (case x of
        NaN \<Rightarrow> 0
      | Infinite negative \<Rightarrow> (if negative then 0 else - 1)
      | Finite r \<Rightarrow> if r \<le> 0 then 0 else if 2 ^ 64 \<le> r then - 1 else of_int \<lfloor>r\<rfloor>)"

section \<open>The exported functions\<close>

record 's wasm_env =
  wz_compute :: "'s list \<Rightarrow> u32 \<Rightarrow> fingerprint"
  wz_keccak256 :: "u8 list \<Rightarrow> u8 list"
  wz_hex_encode :: "u8 list \<Rightarrow> string"
  wz_hex_decode :: "string \<Rightarrow> u8 list option"
  wz_modulus :: int
  wz_poseidon :: "fr list \<Rightarrow> fr"
  wz_state_from_json :: "string \<Rightarrow> session_state option"
  wz_state_to_json :: "session_state \<Rightarrow> string option"
  wz_usage_to_json :: "usage_entry list \<Rightarrow> string option"

text \<open>What a failing function hands to JavaScript.\<close>

datatype js_error = BadBytes32 bytes32_error | BadSnapshot

definition content_hash :: "'s wasm_env \<Rightarrow> u8 list \<Rightarrow> string" where
  "content_hash env bytes = bytes32_to_string (wz_hex_encode env) (Bytes32 (wz_keccak256 env bytes))"

definition wasm_fingerprint :: "'s wasm_env \<Rightarrow> 's list \<Rightarrow> u32 \<Rightarrow> string" where
  "wasm_fingerprint env samples sample_rate = fp_to_string (wz_hex_encode env) (wz_compute env samples sample_rate)"

definition wasm_commitment :: "'s wasm_env \<Rightarrow> string \<Rightarrow> u32 \<Rightarrow> u32 \<Rightarrow> string \<Rightarrow> js_error + string" where
  "wasm_commitment env work_id_hex minutes plays salt_hex =
     res_bind (map_err BadBytes32 (bytes32_from_str (wz_hex_decode env) work_id_hex)) (\<lambda>work.
     res_bind (map_err BadBytes32 (bytes32_from_str (wz_hex_decode env) salt_hex)) (\<lambda>salt.
     Inr (bytes32_to_string (wz_hex_encode env) (commitment_bytes (opening_commit (wz_modulus env) (wz_poseidon env)
       \<lparr>op_work_id = work, op_minutes = ucast minutes, op_plays = ucast plays, op_salt = salt\<rparr>)))))"

text \<open>The methods of \<open>WasmSession\<close>, on the store it wraps. The two serialisations fall back to an empty
  object and an empty array.\<close>

definition wasm_new :: "f64 \<Rightarrow> session_state" where
  "wasm_new now_secs = session_new (f64_as_u64 now_secs)"

definition wasm_restore :: "'s wasm_env \<Rightarrow> string \<Rightarrow> js_error + session_state" where
  "wasm_restore env json = ok_or BadSnapshot (wz_state_from_json env json)"

definition wasm_snapshot :: "'s wasm_env \<Rightarrow> session_state \<Rightarrow> string" where
  "wasm_snapshot env s = or_default ''{}'' (wz_state_to_json env s)"

definition wasm_start :: "'s wasm_env \<Rightarrow> string \<Rightarrow> string \<Rightarrow> session_state \<Rightarrow> (js_error + unit) \<times> session_state" where
  "wasm_start env session_id work_id_hex s =
     (case map_err BadBytes32 (bytes32_from_str (wz_hex_decode env) work_id_hex) of
        Inl e \<Rightarrow> (Inl e, s)
      | Inr work \<Rightarrow> (Inr (), session_start session_id work s))"

definition wasm_add_time :: "string \<Rightarrow> u32 \<Rightarrow> session_state \<Rightarrow> bool \<times> session_state" where
  "wasm_add_time session_id dt_secs s = session_add_time session_id (ucast dt_secs) s"

definition wasm_stop :: "string \<Rightarrow> session_state \<Rightarrow> bool \<times> session_state" where
  "wasm_stop session_id s = session_stop session_id s"

definition wasm_flush :: "'s wasm_env \<Rightarrow> session_state \<Rightarrow> string \<times> session_state" where
  "wasm_flush env s = (case session_flush s of (usage, s') \<Rightarrow> (or_default ''[]'' (wz_usage_to_json env usage), s'))"

section \<open>Snapshots\<close>

text \<open>The snapshots are faithful: writing the state succeeds with a non-empty text and reading it back returns
  the state.\<close>

definition snapshots_ok :: "'s wasm_env \<Rightarrow> bool" where
  "snapshots_ok env \<longleftrightarrow> (\<forall>s. \<exists>json. wz_state_to_json env s = Some json \<and> json \<noteq> [] \<and> wz_state_from_json env json = Some s)"

lemma snapshot_text:
  assumes "snapshots_ok env"
  shows "wasm_restore env (wasm_snapshot env s) = Inr s" "wasm_snapshot env s \<noteq> []"
proof -
  obtain json where "wz_state_to_json env s = Some json" "json \<noteq> []" "wz_state_from_json env json = Some s"
    using assms unfolding snapshots_ok_def by blast
  then show "wasm_restore env (wasm_snapshot env s) = Inr s" "wasm_snapshot env s \<noteq> []"
    by (simp_all add: wasm_restore_def wasm_snapshot_def or_default_def)
qed

lemma session_run_epoch: "ss_epoch (session_run es s) = ss_epoch s"
proof (induction es arbitrary: s)
  case (Cons e es)
  have "ss_epoch (session_step s e) = ss_epoch s"
    by (cases e) (simp_all add: session_step_def session_ops split: option.split)
  with Cons show ?case by simp
qed simp

section \<open>Properties\<close>

instance bytes32 :: countable
  by countable_datatype

text \<open>A codec for the examples: the number of the state, in unary.\<close>

definition demo_to_json :: "session_state \<Rightarrow> string option" where
  "demo_to_json s =
     Some (replicate (Suc (to_nat (ss_epoch s, per_work_secs s, per_work_plays s, ss_active s))) (CHR ''1''))"

definition demo_from_json :: "string \<Rightarrow> session_state option" where
  "demo_from_json json =
     (case from_nat (length json - 1) of (epoch, secs, plays, act) \<Rightarrow>
        Some \<lparr>ss_epoch = epoch, per_work_secs = secs, per_work_plays = plays, ss_active = act\<rparr>)"

definition demo_wasm_env :: "u8 wasm_env" where
  "demo_wasm_env = \<lparr>wz_compute = (\<lambda>_ _. Fingerprint (replicate 32 0)), wz_keccak256 = (\<lambda>_. replicate 32 0),
     wz_hex_encode = hex_string, wz_hex_decode = decode_hex, wz_modulus = 101,
     wz_poseidon = (\<lambda>xs. sum_list xs mod 101), wz_state_from_json = demo_from_json, wz_state_to_json = demo_to_json,
     wz_usage_to_json = (\<lambda>us. Some (concat (map (\<lambda>u. hex_string (as_bytes (ue_work_id u))) us)))\<rparr>"

lemma demo_snapshots: "snapshots_ok demo_wasm_env"
  by (simp add: snapshots_ok_def demo_wasm_env_def demo_to_json_def demo_from_json_def)

text \<open>The commitment the extension submits opens to what it discloses. On well-formed hexadecimal
  ids and salts the call returns the \<open>0x\<close> text of a commitment that the shared library's \<open>verify\<close>
  accepts for the opening with the counts widened to \<open>u64\<close>; it throws exactly when an input is
  malformed.\<close>

theorem browser_commitment_opens:
  assumes "hex_codec (wz_hex_encode env) (wz_hex_decode env)"
  shows "case wasm_commitment env work_id_hex minutes plays salt_hex of
       Inl e \<Rightarrow> \<not> is_ok (bytes32_from_str (wz_hex_decode env) work_id_hex)
           \<or> \<not> is_ok (bytes32_from_str (wz_hex_decode env) salt_hex)
     | Inr result \<Rightarrow> \<exists>work salt c. bytes32_from_str (wz_hex_decode env) work_id_hex = Inr work
         \<and> bytes32_from_str (wz_hex_decode env) salt_hex = Inr salt
         \<and> bytes32_from_str (wz_hex_decode env) result = Inr c
         \<and> opening_verify (wz_modulus env) (wz_poseidon env)
             \<lparr>op_work_id = work, op_minutes = ucast minutes, op_plays = ucast plays, op_salt = salt\<rparr> (Commitment c)"
proof -
  have ok: "b32_ok (commitment_bytes (opening_commit p h opn))" for p h opn
    by (simp add: opening_commit_def b32_ok_def commitment_def fr_to_bytes32_def)
  note from_to = hex_codec.from_str_to_string [OF assms ok]
  have eta: "Commitment (commitment_bytes c) = c" for c by (cases c) simp
  show ?thesis
    by (cases "bytes32_from_str (wz_hex_decode env) work_id_hex"; cases "bytes32_from_str (wz_hex_decode env) salt_hex")
      (simp_all add: wasm_commitment_def from_to opening_verify_def eta)
qed

theorem browser_commitment_opens_witness:
  "\<exists>result c. wasm_commitment demo_wasm_env (bytes32_to_string hex_string (Bytes32 (replicate 32 171))) 3 2
        (bytes32_to_string hex_string (Bytes32 (replicate 32 9))) = Inr result
     \<and> bytes32_from_str decode_hex result = Inr c
     \<and> opening_verify 101 (\<lambda>xs. sum_list xs mod 101)
         \<lparr>op_work_id = Bytes32 (replicate 32 171), op_minutes = 3, op_plays = 2, op_salt = Bytes32 (replicate 32 9)\<rparr>
         (Commitment c)"
proof -
  have id: "bytes32_from_str decode_hex (bytes32_to_string hex_string (Bytes32 (replicate 32 b))) = Inr (Bytes32 (replicate 32 b))"
    for b by (rule hex.from_str_to_string) (simp add: b32_ok_def)
  have "hex_codec (wz_hex_encode demo_wasm_env) (wz_hex_decode demo_wasm_env)"
    using hex.hex_codec_axioms by (simp add: demo_wasm_env_def)
  from browser_commitment_opens [OF this, where work_id_hex = "bytes32_to_string hex_string (Bytes32 (replicate 32 171))"
      and salt_hex = "bytes32_to_string hex_string (Bytes32 (replicate 32 9))" and minutes = 3 and plays = 2]
  show ?thesis by (auto simp: id demo_wasm_env_def split: sum.splits)
qed

text \<open>The clock. A finite number of seconds is truncated to whole seconds and clamped to the range of
  \<open>u64\<close>; a clock that is not a number counts as the first epoch.\<close>

theorem f64_as_u64_clamps:
  "unat (f64_as_u64 (Finite r)) = min (nat \<lfloor>r\<rfloor>) U64_MAX
   \<and> wasm_new NaN = wasm_new (Finite 0) \<and> f64_as_u64 (Infinite True) = 0 \<and> unat (f64_as_u64 (Infinite False)) = U64_MAX"
proof -
  have "unat (of_int \<lfloor>r\<rfloor> :: u64) = nat \<lfloor>r\<rfloor>" "nat \<lfloor>r\<rfloor> \<le> U64_MAX" if "0 < r" "r < 2 ^ 64"
  proof -
    have l: "\<lfloor>r\<rfloor> < 2 ^ 64" "0 \<le> \<lfloor>r\<rfloor>" using that by (simp_all add: floor_less_iff)
    then show "unat (of_int \<lfloor>r\<rfloor> :: u64) = nat \<lfloor>r\<rfloor>"
      by (simp add: unat_eq_nat_uint uint_word_of_int_eq take_bit_int_eq_self)
    have "nat \<lfloor>r\<rfloor> < 2 ^ 64" using l by (simp add: nat_less_iff)
    then show "nat \<lfloor>r\<rfloor> \<le> U64_MAX" by (simp add: U64_MAX_def)
  qed
  moreover have "U64_MAX \<le> nat \<lfloor>r\<rfloor>" if "2 ^ 64 \<le> r"
  proof -
    have "(2 :: int) ^ 64 \<le> \<lfloor>r\<rfloor>" using that by (simp add: le_floor_iff)
    then have "nat (2 ^ 64) \<le> nat \<lfloor>r\<rfloor>" by (rule nat_mono)
    then show ?thesis by (simp add: U64_MAX_def)
  qed
  moreover have "\<lfloor>r\<rfloor> \<le> 0" if "r \<le> 0" using that by (simp add: floor_le_iff)
  moreover have "unat (- 1 :: u64) = U64_MAX" by (simp add: unat_max_word U64_MAX_def)
  ultimately show ?thesis by (simp add: f64_as_u64_def wasm_new_def)
qed

end
