(* ===== verification/Shell.thy ===== *)
theory Shell
  imports Browser
begin

text \<open>
  The service worker of the browser extension, \<open>clients/browser-ext/src/background.js\<close>, and the price cap
  \<open>policy.js\<close>. The worker handles one message at a time: it opens the session store on the first one,
  makes its calls to the WebAssembly core and then stores the snapshot. The browser may stop the
  worker between two messages, or in the middle of one after any number of the writes it makes; its memory
  is lost then and only \<open>chrome.storage\<close> survives. The recognition of a work (the hub), the transaction of
  a settle, \<open>JSON.parse\<close> and the salts are inputs. A reference run of the session store over the messages
  that took effect says what every answer and every snapshot is.
\<close>

section \<open>Data\<close>

datatype work_tier = SignedContent | FingerprintMatch

record recognised =
  rg_work_id :: string
  rg_price_per_min :: rat
  rg_tier :: work_tier

record opening_json =
  oj_work_id :: string
  oj_minutes :: u64
  oj_plays :: u64
  oj_salt :: string

text \<open>The messages with what the outside gives while they are handled: the recognised work and the
  configured threshold; the salts and the outcome of the transaction.\<close>

datatype request =
    PlayMsg string "recognised option" "rat option"
  | ProgressMsg string u32
  | StopMsg string
  | SettleMsg "nat \<Rightarrow> u8 list" "string + string"

datatype shell_error = CoreError js_error | UsageJson | TxError string

datatype answer =
    Unresolved
  | OverCap
  | Playing string work_tier
  | Acknowledged
  | NoUsage
  | Submitted string "string list" "opening_json list"
  | Failed shell_error

text \<open>What handling a message does outside the worker, in order. \<open>Submit\<close> is the attempt to send the
  transaction, from making the signer on.\<close>

datatype shell_effect =
    SaveSession string
  | RecordEscrow string
  | SaveOpenings "opening_json list"
  | Submit "string list"

record 's shell_env =
  sv_wasm :: "'s wasm_env"
  sv_parse_usage :: "string \<Rightarrow> (string \<times> u64 \<times> u64) list option"

record browser_state =
  ch_snapshot :: "string option"
  ch_escrow_works :: "string list"
  ch_last_openings :: "opening_json list"
  ch_submitted :: "string list list"

section \<open>Handlers\<close>

definition allows :: "rat \<Rightarrow> rat option \<Rightarrow> bool" where
  "allows price threshold = (case threshold of None \<Rightarrow> True | Some cap \<Rightarrow> cap \<le> 0 \<or> price \<le> cap)"

text \<open>\<open>ensureReady\<close>: the store of a running worker, or the last snapshot, or a new store. An empty text is
  falsy.\<close>

definition ensure_ready ::
    "'s wasm_env \<Rightarrow> f64 \<Rightarrow> string option \<Rightarrow> (js_error + session_state) option \<Rightarrow> js_error + session_state" where
  "ensure_ready env now saved ready =
     (case ready of
        Some r \<Rightarrow> r
      | None \<Rightarrow>
          (case saved of
             None \<Rightarrow> Inr (wasm_new now)
           | Some json \<Rightarrow> if json = [] then Inr (wasm_new now) else wasm_restore env json))"

definition handle_play ::
    "'s shell_env \<Rightarrow> string \<Rightarrow> recognised option \<Rightarrow> rat option \<Rightarrow> session_state
     \<Rightarrow> answer \<times> session_state \<times> shell_effect list" where
  "handle_play env session_id work threshold s =
     (case work of
        None \<Rightarrow> (Unresolved, s, [])
      | Some w \<Rightarrow>
          if \<not> allows (rg_price_per_min w) threshold then (OverCap, s, [])
          else
            (case wasm_start (sv_wasm env) session_id (rg_work_id w) s of
               (Inl e, s') \<Rightarrow> (Failed (CoreError e), s', [])
             | (Inr _, s') \<Rightarrow>
                 (Playing (rg_work_id w) (rg_tier w), s',
                  (if rg_tier w = FingerprintMatch then [RecordEscrow (rg_work_id w)] else [])
                  @ [SaveSession (wasm_snapshot (sv_wasm env) s')])))"

definition handle_progress ::
    "'s shell_env \<Rightarrow> string \<Rightarrow> u32 \<Rightarrow> session_state \<Rightarrow> answer \<times> session_state \<times> shell_effect list" where
  "handle_progress env session_id dt s =
     (let s' = snd (wasm_add_time session_id dt s)
      in (Acknowledged, s', [SaveSession (wasm_snapshot (sv_wasm env) s')]))"

definition handle_stop ::
    "'s shell_env \<Rightarrow> string \<Rightarrow> session_state \<Rightarrow> answer \<times> session_state \<times> shell_effect list" where
  "handle_stop env session_id s =
     (let s' = snd (wasm_stop session_id s)
      in (Acknowledged, s', [SaveSession (wasm_snapshot (sv_wasm env) s')]))"

text \<open>The commitments of a settle with their openings; the first malformed id ends the loop.\<close>

fun settle_openings ::
    "'s wasm_env \<Rightarrow> (nat \<Rightarrow> u8 list) \<Rightarrow> nat \<Rightarrow> (string \<times> u64 \<times> u64) list \<Rightarrow> js_error + (string \<times> opening_json) list" where
  "settle_openings env salts i [] = Inr []"
| "settle_openings env salts i ((work_id, minutes, plays) # us) =
     (let salt = ''0x'' @ hex_string (salts i) in
      res_bind (wasm_commitment env work_id (ucast minutes) (ucast plays) salt) (\<lambda>c.
      res_bind (settle_openings env salts (Suc i) us) (\<lambda>rest.
      Inr ((c, \<lparr>oj_work_id = work_id, oj_minutes = minutes, oj_plays = plays, oj_salt = salt\<rparr>) # rest))))"

definition handle_settle ::
    "'s shell_env \<Rightarrow> (nat \<Rightarrow> u8 list) \<Rightarrow> string + string \<Rightarrow> session_state \<Rightarrow> answer \<times> session_state \<times> shell_effect list" where
  "handle_settle env salts transaction s =
     (case wasm_flush (sv_wasm env) s of
        (json, s') \<Rightarrow>
          (case sv_parse_usage env json of
             None \<Rightarrow> (Failed UsageJson, s', [])
           | Some usage \<Rightarrow>
               if usage = [] then (NoUsage, s', [])
               else
                 (case settle_openings (sv_wasm env) salts 0 usage of
                    Inl e \<Rightarrow> (Failed (CoreError e), s', [])
                  | Inr built \<Rightarrow>
                      (case transaction of
                         Inl e \<Rightarrow> Failed (TxError e)
                       | Inr tx_hash \<Rightarrow> Submitted tx_hash (map fst built) (map snd built),
                       s',
                       [SaveSession (wasm_snapshot (sv_wasm env) s'), SaveOpenings (map snd built),
                        Submit (map fst built)]))))"

definition handle_request ::
    "'s shell_env \<Rightarrow> request \<Rightarrow> session_state \<Rightarrow> answer \<times> session_state \<times> shell_effect list" where
  "handle_request env r s =
     (case r of
        PlayMsg i w threshold \<Rightarrow> handle_play env i w threshold s
      | ProgressMsg i dt \<Rightarrow> handle_progress env i dt s
      | StopMsg i \<Rightarrow> handle_stop env i s
      | SettleMsg salts transaction \<Rightarrow> handle_settle env salts transaction s)"

section \<open>The worker and the browser\<close>

fun apply_effect :: "shell_effect \<Rightarrow> browser_state \<Rightarrow> browser_state" where
  "apply_effect (SaveSession json) ch = ch\<lparr>ch_snapshot := Some json\<rparr>"
| "apply_effect (RecordEscrow w) ch =
     (if w \<in> set (ch_escrow_works ch) then ch else ch\<lparr>ch_escrow_works := ch_escrow_works ch @ [w]\<rparr>)"
| "apply_effect (SaveOpenings os) ch = ch\<lparr>ch_last_openings := os\<rparr>"
| "apply_effect (Submit cs) ch = ch\<lparr>ch_submitted := ch_submitted ch @ [cs]\<rparr>"

type_synonym message = "f64 \<times> request"

text \<open>What can happen: a message is handled to its answer; the worker is stopped after some of the effects of
  a message; the idle worker is stopped.\<close>

datatype shell_event = Arrives message | CutShort message nat | Terminates

text \<open>What happened: a message with its answer, a message without one, each with whether its snapshot was
  stored, and a stop.\<close>

datatype entry = Served message answer bool | Unanswered message bool | Stopped

definition saves :: "shell_effect list \<Rightarrow> bool" where
  "saves fx = list_ex (\<lambda>f. case f of SaveSession _ \<Rightarrow> True | _ \<Rightarrow> False) fx"

type_synonym worker = "(js_error + session_state) option"

definition shell_step ::
    "'s shell_env \<Rightarrow> shell_event \<Rightarrow> worker \<times> browser_state \<Rightarrow> entry \<times> worker \<times> browser_state" where
  "shell_step env ev st =
     (case ev of
        Terminates \<Rightarrow> (Stopped, None, snd st)
      | Arrives m \<Rightarrow>
          (case ensure_ready (sv_wasm env) (fst m) (ch_snapshot (snd st)) (fst st) of
             Inl e \<Rightarrow> (Served m (Failed (CoreError e)) False, Some (Inl e), snd st)
           | Inr s \<Rightarrow>
               (case handle_request env (snd m) s of
                  (a, s', fx) \<Rightarrow> (Served m a (saves fx), Some (Inr s'), fold apply_effect fx (snd st))))
      | CutShort m n \<Rightarrow>
          (case ensure_ready (sv_wasm env) (fst m) (ch_snapshot (snd st)) (fst st) of
             Inl e \<Rightarrow> (Unanswered m False, None, snd st)
           | Inr s \<Rightarrow>
               (case handle_request env (snd m) s of
                  (a, s', fx) \<Rightarrow> (Unanswered m (saves (take n fx)), None, fold apply_effect (take n fx) (snd st)))))"

fun shell_run ::
    "'s shell_env \<Rightarrow> shell_event list \<Rightarrow> worker \<times> browser_state \<Rightarrow> entry list \<times> worker \<times> browser_state" where
  "shell_run env [] st = ([], st)"
| "shell_run env (ev # evs) st =
     (case shell_step env ev st of (en, st') \<Rightarrow> (case shell_run env evs st' of (trace, st'') \<Rightarrow> (en # trace, st'')))"

definition installed :: "worker \<times> browser_state" where
  "installed = (None, \<lparr>ch_snapshot = None, ch_escrow_works = [], ch_last_openings = [], ch_submitted = []\<rparr>)"

section \<open>The reference run\<close>

text \<open>The messages that took effect: those up to the last stored snapshot for good, the later ones as long as
  the worker runs.\<close>

fun survive :: "entry \<Rightarrow> message list \<times> message list \<Rightarrow> message list \<times> message list" where
  "survive (Served m a saved) (kept, pending) = (if saved then (kept @ pending @ [m], []) else (kept, pending @ [m]))"
| "survive (Unanswered m saved) (kept, pending) = (if saved then (kept @ pending @ [m], []) else (kept, []))"
| "survive Stopped (kept, pending) = (kept, [])"

definition survivors :: "entry list \<Rightarrow> message list \<times> message list" where
  "survivors trace = fold survive trace ([], [])"

definition in_effect :: "entry list \<Rightarrow> message list" where
  "in_effect trace = (case survivors trace of (kept, pending) \<Rightarrow> kept @ pending)"

text \<open>The session events a message stands for; a settle is a flush.\<close>

definition request_events :: "'s shell_env \<Rightarrow> request \<Rightarrow> session_event list" where
  "request_events env r =
     (case r of
        PlayMsg i (Some w) threshold \<Rightarrow>
          (if allows (rg_price_per_min w) threshold then
             (case bytes32_from_str (wz_hex_decode (sv_wasm env)) (rg_work_id w) of Inr b \<Rightarrow> [Start i b] | Inl _ \<Rightarrow> [])
           else [])
      | ProgressMsg i dt \<Rightarrow> [AddTime i (ucast dt)]
      | StopMsg i \<Rightarrow> [Stop i]
      | _ \<Rightarrow> [])"

definition is_settle :: "request \<Rightarrow> bool" where
  "is_settle r = (case r of SettleMsg _ _ \<Rightarrow> True | _ \<Rightarrow> False)"

definition opened :: "f64 \<Rightarrow> session_state option \<Rightarrow> session_state" where
  "opened now st = or_default (session_new (f64_as_u64 now)) st"

definition serve_step :: "'s shell_env \<Rightarrow> session_state option \<Rightarrow> message \<Rightarrow> session_state option" where
  "serve_step env st m =
     Some (if is_settle (snd m) then snd (session_flush (opened (fst m) st))
           else session_run (request_events env (snd m)) (opened (fst m) st))"

definition serve :: "'s shell_env \<Rightarrow> message list \<Rightarrow> session_state option" where
  "serve env ms = foldl (serve_step env) None ms"

lemma serve_simps [simp]:
  "serve env [] = None" "serve env (ms @ [m]) = serve_step env (serve env ms) m"
  by (simp_all add: serve_def)

section \<open>The shell implements the reference run\<close>

lemma handle_state:
  "fst (snd (handle_request env r s))
     = (if is_settle r then snd (session_flush s) else session_run (request_events env r) s)"
  by (cases r) (auto simp: handle_request_def handle_play_def handle_progress_def handle_stop_def handle_settle_def
      is_settle_def request_events_def wasm_start_def wasm_add_time_def wasm_stop_def wasm_flush_def session_step_def Let_def
      split: option.splits sum.splits prod.splits)

lemma handle_saves:
  "SaveSession json \<in> set (snd (snd (handle_request env r s)))
     \<Longrightarrow> json = wasm_snapshot (sv_wasm env) (fst (snd (handle_request env r s)))"
  by (cases r) (auto simp: handle_request_def handle_play_def handle_progress_def handle_stop_def handle_settle_def Let_def
      split: option.splits sum.splits prod.splits if_splits)

lemma unsaved_message:
  "\<not> saves (snd (snd (handle_request env r s))) \<Longrightarrow> is_settle r \<or> request_events env r = []"
  by (cases r) (auto simp: handle_request_def handle_play_def handle_progress_def handle_stop_def saves_def is_settle_def
      request_events_def wasm_start_def Let_def split: option.splits sum.splits prod.splits)

lemma saves_simps [simp]:
  "saves [] = False" "saves (SaveSession json # fx) = True" "saves (RecordEscrow w # fx) = saves fx"
  "saves (SaveOpenings os # fx) = saves fx" "saves (Submit cs # fx) = saves fx"
  by (simp_all add: saves_def)

lemma snapshot_after:
  assumes "\<And>j. SaveSession j \<in> set fx \<Longrightarrow> j = json"
  shows "ch_snapshot (fold apply_effect fx ch) = (if saves fx then Some json else ch_snapshot ch)"
  using assms
proof (induction fx arbitrary: ch)
  case (Cons f fx)
  then show ?case by (cases f) simp_all
qed simp

definition shell_inv :: "'s shell_env \<Rightarrow> message list \<times> message list \<Rightarrow> worker \<times> browser_state \<Rightarrow> bool" where
  "shell_inv env kp st \<longleftrightarrow>
     ch_snapshot (snd st) = map_option (wasm_snapshot (sv_wasm env)) (serve env (fst kp))
   \<and> (case fst st of
        None \<Rightarrow> snd kp = []
      | Some r \<Rightarrow> \<exists>s. r = Inr s \<and> serve env (fst kp @ snd kp) = Some s)"

lemma ready_store:
  assumes "snapshots_ok (sv_wasm env)" and "shell_inv env kp st"
  shows "ensure_ready (sv_wasm env) now (ch_snapshot (snd st)) (fst st) = Inr (opened now (serve env (fst kp @ snd kp)))"
  using assms(2) snapshot_text [OF assms(1)]
  by (auto simp: shell_inv_def ensure_ready_def opened_def or_default_def wasm_new_def split: option.splits)

lemma inv_after:
  assumes "shell_inv env kp st"
    and s': "serve env (fst kp @ snd kp @ [m]) = Some s'"
    and fx: "\<And>j. SaveSession j \<in> set fx \<Longrightarrow> j = wasm_snapshot (sv_wasm env) s'"
  shows "shell_inv env (if saves fx then (fst kp @ snd kp @ [m], []) else (fst kp, snd kp @ [m]))
           (Some (Inr s'), fold apply_effect fx (snd st))"
    and "shell_inv env (if saves fx then (fst kp @ snd kp @ [m], []) else (fst kp, [])) (None, fold apply_effect fx (snd st))"
  using assms(1) s' snapshot_after [OF fx, of fx "snd st"] by (auto simp: shell_inv_def)

lemma shell_step_inv:
  assumes ok: "snapshots_ok (sv_wasm env)" and inv: "shell_inv env kp st" and step: "shell_step env ev st = (en, st')"
  shows "shell_inv env (survive en kp) st'"
    and "en = Served m a saved \<Longrightarrow>
      a = fst (handle_request env (snd m) (opened (fst m) (serve env (fst kp @ snd kp))))
      \<and> (saved \<or> is_settle (snd m) \<or> request_events env (snd m) = [])"
proof -
  obtain kept pending where kp: "kp = (kept, pending)" by (cases kp)
  note ready = ready_store [OF ok inv]
  have served: "serve env (fst kp @ snd kp @ [m])
      = Some (fst (snd (handle_request env (snd m) (opened (fst m) (serve env (fst kp @ snd kp))))))" for m
    using serve_simps(2) [of env "fst kp @ snd kp" m] by (simp add: serve_step_def handle_state)
  note sv = handle_saves
  have "shell_inv env (survive en kp) st'
      \<and> (\<forall>m a saved. en = Served m a saved \<longrightarrow>
          a = fst (handle_request env (snd m) (opened (fst m) (serve env (fst kp @ snd kp))))
          \<and> (saved \<or> is_settle (snd m) \<or> request_events env (snd m) = []))"
  proof (cases ev)
    case (Arrives m)
    obtain a s' fx where h: "handle_request env (snd m) (opened (fst m) (serve env (fst kp @ snd kp))) = (a, s', fx)"
      by (cases "handle_request env (snd m) (opened (fst m) (serve env (fst kp @ snd kp)))")
    have "j = wasm_snapshot (sv_wasm env) s'" if "SaveSession j \<in> set fx" for j
      using handle_saves [of j env "snd m"] that h by (metis fst_conv snd_conv)
    note saved_text = this
    have "serve env (fst kp @ snd kp @ [m]) = Some s'" using served [of m] h by simp
    from inv_after(1) [OF inv this, where fx = "fx", OF saved_text]
    have "shell_inv env (survive (Served m a (saves fx)) kp) (Some (Inr s'), fold apply_effect fx (snd st))"
      by (cases "saves fx") (simp_all add: kp)
    moreover have "en = Served m a (saves fx)" "st' = (Some (Inr s'), fold apply_effect fx (snd st))"
      using step by (simp_all add: shell_step_def Arrives ready h)
    moreover have "saves fx \<or> is_settle (snd m) \<or> request_events env (snd m) = []"
      using unsaved_message [of env "snd m" "opened (fst m) (serve env (fst kp @ snd kp))"] h by auto
    ultimately show ?thesis using h by simp
  next
    case (CutShort m n)
    obtain a s' fx where h: "handle_request env (snd m) (opened (fst m) (serve env (fst kp @ snd kp))) = (a, s', fx)"
      by (cases "handle_request env (snd m) (opened (fst m) (serve env (fst kp @ snd kp)))")
    have "j = wasm_snapshot (sv_wasm env) s'" if "SaveSession j \<in> set (take n fx)" for j
      using handle_saves [of j env "snd m"] in_set_takeD [OF that] h by (metis fst_conv snd_conv)
    note saved_text = this
    have "serve env (fst kp @ snd kp @ [m]) = Some s'" using served [of m] h by simp
    from inv_after(2) [OF inv this, where fx = "take n fx", OF saved_text]
    have "shell_inv env (survive (Unanswered m (saves (take n fx))) kp) (None, fold apply_effect (take n fx) (snd st))"
      by (cases "saves (take n fx)") (simp_all add: kp)
    moreover have "en = Unanswered m (saves (take n fx))" "st' = (None, fold apply_effect (take n fx) (snd st))"
      using step by (simp_all add: shell_step_def CutShort ready h)
    ultimately show ?thesis by simp
  next
    case Terminates
    with step inv show ?thesis by (auto simp: shell_step_def shell_inv_def kp)
  qed
  then show "shell_inv env (survive en kp) st'"
    and "en = Served m a saved \<Longrightarrow>
      a = fst (handle_request env (snd m) (opened (fst m) (serve env (fst kp @ snd kp))))
      \<and> (saved \<or> is_settle (snd m) \<or> request_events env (snd m) = [])"
    by blast+
qed

lemma shell_run_inv:
  assumes ok: "snapshots_ok (sv_wasm env)" and "shell_inv env kp st" and "shell_run env evs st = (trace, st')"
  shows "shell_inv env (fold survive trace kp) st'
     \<and> (\<forall>pre m a saved post. trace = pre @ Served m a saved # post \<longrightarrow>
          a = fst (handle_request env (snd m) (opened (fst m)
                (serve env (case fold survive pre kp of (kept, pending) \<Rightarrow> kept @ pending))))
          \<and> (saved \<or> is_settle (snd m) \<or> request_events env (snd m) = []))"
  using assms(2,3)
proof (induction evs arbitrary: kp st trace)
  case (Cons ev evs)
  obtain en st1 where step: "shell_step env ev st = (en, st1)" by (cases "shell_step env ev st")
  obtain tr where run: "shell_run env evs st1 = (tr, st')" and trace: "trace = en # tr"
    using Cons.prems(2) step by (auto split: prod.splits)
  note here = shell_step_inv [OF ok Cons.prems(1) step]
  note IH = Cons.IH [OF here(1) run]
  have "a = fst (handle_request env (snd m) (opened (fst m)
                (serve env (case fold survive pre kp of (kept, pending) \<Rightarrow> kept @ pending))))
          \<and> (saved \<or> is_settle (snd m) \<or> request_events env (snd m) = [])"
    if "trace = pre @ Served m a saved # post" for pre m a saved post
  proof (cases pre)
    case Nil
    with that trace here(2) show ?thesis by (simp add: case_prod_unfold)
  next
    case (Cons en' pre')
    with that trace have eq: "tr = pre' @ Served m a saved # post"
      and same: "fold survive pre kp = fold survive pre' (survive en kp)"
      by simp_all
    from conjunct2 [OF IH, rule_format, OF eq] show ?thesis unfolding same .
  qed
  with IH show ?case by (simp add: trace)
qed simp

section \<open>What the reference run accounts\<close>

text \<open>The sessions open at the last settle in effect, and the events since.\<close>

definition accrue ::
    "'s shell_env \<Rightarrow> (string \<Rightarrow> bytes32 option) \<times> session_event list \<Rightarrow> message
     \<Rightarrow> (string \<Rightarrow> bytes32 option) \<times> session_event list" where
  "accrue env ae m =
     (if is_settle (snd m) then (open_sessions (fst ae) (snd ae), [])
      else (fst ae, snd ae @ request_events env (snd m)))"

definition accrued :: "'s shell_env \<Rightarrow> message list \<Rightarrow> (string \<Rightarrow> bytes32 option) \<times> session_event list" where
  "accrued env ms = foldl (accrue env) (\<lambda>_. None, []) ms"

text \<open>An entry is due when it has a full minute: the seconds and the starts of its work since the last
  settle in effect.\<close>

definition due :: "'s shell_env \<Rightarrow> message list \<Rightarrow> usage_entry \<Rightarrow> bool" where
  "due env ms e \<longleftrightarrow>
     (case accrued env ms of (act, es) \<Rightarrow>
        unat (ue_minutes e) = min (spec_secs act es (ue_work_id e)) U64_MAX div 60
      \<and> ue_minutes e \<noteq> 0
      \<and> unat (ue_plays e) = min (spec_plays es (ue_work_id e)) U64_MAX)"

lemma run_active:
  "session_wf s \<Longrightarrow> bt_get (ss_active (session_run es s)) = open_sessions (bt_get (ss_active s)) es"
proof (induction es arbitrary: s)
  case (Cons e es)
  have "open_sessions (open_sessions (bt_get (ss_active s)) [e]) es = open_sessions (bt_get (ss_active s)) (e # es)"
    by (cases e) simp_all
  with Cons.IH [OF session_step_wf [OF Cons.prems, of e]] step_active [OF Cons.prems, of e] show ?case by simp
qed simp

lemma serve_accrued:
  "\<exists>s0. session_wf s0 \<and> per_work_secs s0 = [] \<and> per_work_plays s0 = []
     \<and> bt_get (ss_active s0) = fst (accrued env ms)
     \<and> opened now (serve env ms) = session_run (snd (accrued env ms)) s0"
proof (induction ms arbitrary: now rule: rev_induct)
  case Nil
  have "bt_get [] = (\<lambda>_. None :: bytes32 option)" for k :: string by (rule ext) simp
  then show ?case
    by (intro exI [of _ "session_new (f64_as_u64 now)"])
      (simp add: session_new_wf accrued_def opened_def or_default_def, simp add: session_new_def)
next
  case (snoc m ms)
  obtain s0 where s0: "session_wf s0" "per_work_secs s0 = []" "per_work_plays s0 = []"
    "bt_get (ss_active s0) = fst (accrued env ms)"
    "opened (fst m) (serve env ms) = session_run (snd (accrued env ms)) s0"
    using snoc [of "fst m"] by blast
  have acc: "accrued env (ms @ [m]) = accrue env (accrued env ms) m" by (simp add: accrued_def)
  let ?s = "session_run (snd (accrued env ms)) s0"
  show ?case
  proof (cases "is_settle (snd m)")
    case True
    have "session_wf (snd (session_flush ?s))" using session_run_wf [OF s0(1)]
      by (simp add: session_flush_def session_wf_def bt_wf_def)
    with True s0 run_active [OF s0(1), of "snd (accrued env ms)"] show ?thesis
      by (intro exI [of _ "snd (session_flush ?s)"])
        (simp add: acc accrue_def serve_step_def opened_def or_default_def session_flush_def)
  next
    case False
    with s0 show ?thesis
      by (intro exI [of _ s0]) (simp add: acc accrue_def serve_step_def opened_def or_default_def session_run_append)
  qed
qed

lemma flush_members:
  assumes "session_wf s"
  shows "e \<in> set (fst (session_flush s)) \<longleftrightarrow>
     ue_minutes e = bt_get_or 0 (per_work_secs s) (ue_work_id e) div 60 \<and> ue_minutes e \<noteq> 0
   \<and> ue_plays e = bt_get_or 0 (per_work_plays s) (ue_work_id e)"
proof -
  have wf: "bt_wf (per_work_secs s)" using assms by (simp add: session_wf_def)
  have "e \<in> set (fst (session_flush s)) \<longleftrightarrow>
      (\<exists>w x. bt_get (per_work_secs s) w = Some x \<and> x div 60 \<noteq> 0 \<and> e = entry_of (per_work_plays s) (w, x))"
    using bt_entries_get [OF wf] by (auto simp: flush_entries [OF assms] image_iff)
  also have "\<dots> \<longleftrightarrow> ue_minutes e = bt_get_or 0 (per_work_secs s) (ue_work_id e) div 60 \<and> ue_minutes e \<noteq> 0
      \<and> ue_plays e = bt_get_or 0 (per_work_plays s) (ue_work_id e)"
    by (cases e; cases "bt_get (per_work_secs s) (ue_work_id e)") (auto simp: entry_of_def bt_get_or_def)
  finally show ?thesis .
qed

lemma usage_due:
  "e \<in> set (fst (session_flush (opened now (serve env ms)))) \<longleftrightarrow> due env ms e"
  "sorted_wrt (<) (map ue_work_id (fst (session_flush (opened now (serve env ms)))))"
proof -
  obtain s0 where s0: "session_wf s0" "per_work_secs s0 = []" "per_work_plays s0 = []"
    "bt_get (ss_active s0) = fst (accrued env ms)"
    "opened now (serve env ms) = session_run (snd (accrued env ms)) s0"
    using serve_accrued by blast
  let ?s = "session_run (snd (accrued env ms)) s0"
  have wf: "session_wf ?s" by (rule session_run_wf [OF s0(1)])
  have secs: "unat (bt_get_or 0 (per_work_secs ?s) w) = min (spec_secs (fst (accrued env ms)) (snd (accrued env ms)) w) U64_MAX"
    and plays: "unat (bt_get_or 0 (per_work_plays ?s) w) = min (spec_plays (snd (accrued env ms)) w) U64_MAX" for w
    using run_secs [OF s0(1), of "snd (accrued env ms)" w] run_plays [OF s0(1), of "snd (accrued env ms)" w]
    by (simp_all add: s0 bt_get_or_def)
  show "e \<in> set (fst (session_flush (opened now (serve env ms)))) \<longleftrightarrow> due env ms e"
    unfolding s0(5) flush_members [OF wf] due_def
    by (auto simp: word_unat_eq_iff unat_div_distrib secs plays case_prod_unfold)
  have "sorted_wrt (<) (map fst (per_work_secs ?s))" using wf by (simp add: session_wf_def bt_wf_def)
  then show "sorted_wrt (<) (map ue_work_id (fst (session_flush (opened now (serve env ms)))))"
    by (simp add: s0(5) flush_entries [OF wf] comp_def entry_of_def sorted_map_filter)
qed

text \<open>The answer to a settle of some usage.\<close>

definition settle_answer ::
    "'s shell_env \<Rightarrow> (nat \<Rightarrow> u8 list) \<Rightarrow> string + string \<Rightarrow> usage_entry list \<Rightarrow> answer" where
  "settle_answer env salts transaction usage =
     (case sv_parse_usage env (or_default ''[]'' (wz_usage_to_json (sv_wasm env) usage)) of
        None \<Rightarrow> Failed UsageJson
      | Some [] \<Rightarrow> NoUsage
      | Some us \<Rightarrow>
          (case settle_openings (sv_wasm env) salts 0 us of
             Inl e \<Rightarrow> Failed (CoreError e)
           | Inr built \<Rightarrow>
               (case transaction of
                  Inl e \<Rightarrow> Failed (TxError e)
                | Inr tx_hash \<Rightarrow> Submitted tx_hash (map fst built) (map snd built))))"

lemma settle_answers:
  "fst (handle_request env (SettleMsg salts transaction) s) = settle_answer env salts transaction (fst (session_flush s))"
  by (auto simp: handle_request_def handle_settle_def settle_answer_def wasm_flush_def
      split: prod.split option.split list.split sum.split)

section \<open>Properties\<close>

text \<open>C27: stops of the service worker lose nothing that was stored. For every sequence of messages, with
  the browser stopping the worker between messages or in the middle of one, after any of its writes: the
  messages in effect are those up to the last stored snapshot and, while the worker lives, those since.
  The stored snapshot is that of the reference run of the session store over the messages kept; a running
  worker holds its state after all in effect; every settle, not only the first, discloses exactly the
  entries due, in order of work id: the full minutes and the starts of each work since the last settle
  in effect, sessions left open included. A message that was answered without its snapshot stored is a
  settle, or changes nothing.\<close>

theorem browser_restarts_lose_nothing:
  assumes "snapshots_ok (sv_wasm env)"
    and "shell_run env evs installed = (trace, ready, ch)"
    and "survivors trace = (kept, pending)"
  shows "ch_snapshot ch = map_option (wasm_snapshot (sv_wasm env)) (serve env kept)
     \<and> (case ready of None \<Rightarrow> pending = [] | Some r \<Rightarrow> \<exists>s. r = Inr s \<and> serve env (kept @ pending) = Some s)
     \<and> (\<forall>pre now salts transaction a saved post.
          trace = pre @ Served (now, SettleMsg salts transaction) a saved # post \<longrightarrow>
          (\<exists>usage. a = settle_answer env salts transaction usage
             \<and> (\<forall>e. e \<in> set usage \<longleftrightarrow> due env (in_effect pre) e) \<and> sorted_wrt (<) (map ue_work_id usage)))
     \<and> (\<forall>m a. Served m a False \<in> set trace \<longrightarrow> is_settle (snd m) \<or> request_events env (snd m) = [])"
proof -
  have "shell_inv env ([], []) installed" by (simp add: shell_inv_def installed_def)
  note run = shell_run_inv [OF assms(1) this assms(2)]
  from conjunct1 [OF run] assms(3)
  have final: "shell_inv env (kept, pending) (ready, ch)" by (simp add: survivors_def)
  have settles: "\<exists>usage. a = settle_answer env salts transaction usage
        \<and> (\<forall>e. e \<in> set usage \<longleftrightarrow> due env (in_effect pre) e) \<and> sorted_wrt (<) (map ue_work_id usage)"
    if "trace = pre @ Served (now, SettleMsg salts transaction) a saved # post" for pre now salts transaction a saved post
  proof -
    have "a = settle_answer env salts transaction (fst (session_flush (opened now (serve env (in_effect pre)))))"
      using conjunct2 [OF run, rule_format, OF that]
      by (simp add: settle_answers in_effect_def survivors_def)
    with usage_due(1) [where now = now and env = env and ms = "in_effect pre"]
      usage_due(2) [where now = now and env = env and ms = "in_effect pre"] show ?thesis by blast
  qed
  have "is_settle (snd m) \<or> request_events env (snd m) = []" if "Served m a False \<in> set trace" for m a
  proof -
    from split_list [OF that] obtain pre post where "trace = pre @ Served m a False # post" by blast
    from conjunct2 [OF run, rule_format, OF this] show ?thesis by simp
  qed
  with final settles show ?thesis unfolding shell_inv_def fst_conv snd_conv by blast
qed

text \<open>The browser of the witness: usage travels as a number in unary.\<close>

definition demo_usage_to_json :: "usage_entry list \<Rightarrow> string option" where
  "demo_usage_to_json us =
     Some (replicate (Suc (to_nat (map (\<lambda>u. (ue_work_id u, ue_minutes u, ue_plays u)) us))) (CHR ''1''))"

definition demo_parse_usage :: "string \<Rightarrow> (string \<times> u64 \<times> u64) list option" where
  "demo_parse_usage json =
     Some (map (\<lambda>(w, minutes, plays). (bytes32_to_string hex_string w, minutes, plays)) (from_nat (length json - 1)))"

definition demo_shell :: "u8 shell_env" where
  "demo_shell = \<lparr>sv_wasm = demo_wasm_env\<lparr>wz_usage_to_json := demo_usage_to_json\<rparr>, sv_parse_usage = demo_parse_usage\<rparr>"

lemma demo_shell_snapshots: "snapshots_ok (sv_wasm demo_shell)"
  using demo_snapshots by (simp add: demo_shell_def snapshots_ok_def)

lemma demo_usage_parses:
  "sv_parse_usage demo_shell (or_default ''[]'' (wz_usage_to_json (sv_wasm demo_shell) us))
     = Some (map (\<lambda>u. (bytes32_to_string hex_string (ue_work_id u), ue_minutes u, ue_plays u)) us)"
  by (simp add: demo_shell_def demo_usage_to_json_def demo_parse_usage_def or_default_def comp_def del: replicate_Suc)

abbreviation "ex_id32 \<equiv> Bytes32 (replicate 32 171)"

text \<open>A play of a work known by its fingerprint; a progress the stop of the worker cuts short before its
  snapshot is stored; progress; a stop; a progress cut short after its snapshot is stored; a settle; a
  progress again cut short late; and a second settle.\<close>

definition ex_shell_events :: "shell_event list" where
  "ex_shell_events =
     [Arrives (Finite 5184000, PlayMsg ''s''
        (Some \<lparr>rg_work_id = bytes32_to_string hex_string ex_id32, rg_price_per_min = 5, rg_tier = FingerprintMatch\<rparr>) (Some 10)),
      CutShort (Finite 5184010, ProgressMsg ''s'' 600) 0,
      Arrives (Finite 5184020, ProgressMsg ''s'' 100),
      Terminates,
      CutShort (Finite 5184030, ProgressMsg ''s'' 65) 1,
      Arrives (Finite 5184040, SettleMsg (\<lambda>_. replicate 32 9) (Inr ''0xab'')),
      CutShort (Finite 5184050, ProgressMsg ''s'' 70) 1,
      Arrives (Finite 5184060, SettleMsg (\<lambda>_. replicate 32 9) (Inl ''unreachable''))]"

lemma demo_id: "b32_ok b \<Longrightarrow> bytes32_from_str (wz_hex_decode (sv_wasm demo_shell)) (bytes32_to_string hex_string b) = Inr b"
  by (simp add: demo_shell_def demo_wasm_env_def hex.from_str_to_string)

lemma demo_commitment:
  assumes "b32_ok w"
  shows "is_ok (wasm_commitment (sv_wasm demo_shell) (bytes32_to_string hex_string w) minutes plays (''0x'' @ hex_string (replicate 32 9)))"
  using demo_id [OF assms] demo_id [of "Bytes32 (replicate 32 9)"]
  by (simp add: wasm_commitment_def bytes32_to_string_def b32_ok_def)

lemma demo_settle:
  assumes "session_flush s = (u # us, s')" and "list_all (\<lambda>u. b32_ok (ue_work_id u)) (u # us)"
  shows "\<exists>a cs os. handle_request demo_shell (SettleMsg (\<lambda>_. replicate 32 9) transaction) s
     = (a, s', [SaveSession (wasm_snapshot (sv_wasm demo_shell) s'), SaveOpenings os, Submit cs])"
proof -
  let ?f = "\<lambda>u. (bytes32_to_string hex_string (ue_work_id u), ue_minutes u, ue_plays u)"
  have "is_ok (settle_openings (sv_wasm demo_shell) (\<lambda>_. replicate 32 9) i (map ?f vs))"
    if "list_all (\<lambda>u. b32_ok (ue_work_id u)) vs" for i vs
    using that
  proof (induction vs arbitrary: i)
    case (Cons v vs)
    from Cons.prems Cons.IH [of "Suc i"] obtain rest
      where "settle_openings (sv_wasm demo_shell) (\<lambda>_. replicate 32 9) (Suc i) (map ?f vs) = Inr rest"
      unfolding is_ok_iff by auto
    moreover from Cons.prems demo_commitment [of "ue_work_id v" "ucast (ue_minutes v)" "ucast (ue_plays v)"] obtain c
      where "wasm_commitment (sv_wasm demo_shell) (bytes32_to_string hex_string (ue_work_id v)) (ucast (ue_minutes v))
          (ucast (ue_plays v)) (''0x'' @ hex_string (replicate 32 9)) = Inr c"
      unfolding is_ok_iff by auto
    ultimately show ?case by (simp add: is_ok_iff)
  qed simp
  from this [OF assms(2), of 0] obtain built
    where "settle_openings (sv_wasm demo_shell) (\<lambda>_. replicate 32 9) 0 (map ?f (u # us)) = Inr built"
    unfolding is_ok_iff by blast
  then show ?thesis
    by (simp add: handle_request_def handle_settle_def wasm_flush_def assms(1) demo_usage_parses del: settle_openings.simps)
qed


definition ex_messages :: "message list" where
  "ex_messages = map (\<lambda>e. case e of Arrives m \<Rightarrow> m | CutShort m _ \<Rightarrow> m | Terminates \<Rightarrow> (NaN, StopMsg []))
     (List.filter (\<lambda>e. e \<noteq> Terminates) ex_shell_events)"

lemma ready_after [simp]:
  "ensure_ready (sv_wasm demo_shell) now (Some (wasm_snapshot (sv_wasm demo_shell) s)) None = Inr s"
  using snapshot_text [OF demo_shell_snapshots] by (simp add: ensure_ready_def)

lemma ready_running [simp]: "ensure_ready env now saved (Some (Inr s)) = Inr s"
  by (simp add: ensure_ready_def)

lemma ex_run:
  "\<exists>a0 a3 a5 a7 ready ch. shell_run demo_shell ex_shell_events installed =
     ([Served (ex_messages ! 0) a0 True, Unanswered (ex_messages ! 1) False, Served (ex_messages ! 2) a3 True, Stopped,
       Unanswered (ex_messages ! 3) True, Served (ex_messages ! 4) a5 True, Unanswered (ex_messages ! 5) True,
       Served (ex_messages ! 6) a7 True], ready, ch)"
proof -
  define s1 where "s1 = session_start ''s'' ex_id32 (wasm_new (Finite 5184000))"
  define s2 where "s2 = snd (wasm_add_time ''s'' 100 s1)"
  define s3 where "s3 = snd (wasm_add_time ''s'' 65 s2)"
  define s4 where "s4 = snd (session_flush s3)"
  define s5 where "s5 = snd (wasm_add_time ''s'' 70 s4)"
  note states = s1_def s2_def s3_def s4_def s5_def wasm_add_time_def session_ops wasm_new_def session_new_def session_flush_def
  have f3: "session_flush s3 = ([\<lparr>ue_work_id = ex_id32, ue_minutes = 2, ue_plays = 1\<rparr>], s4)"
    by (simp add: states bt_get_or_def bt_update_def Let_def saturating_add_def)
  have f5: "session_flush s5 = ([\<lparr>ue_work_id = ex_id32, ue_minutes = 1, ue_plays = 0\<rparr>], snd (session_flush s5))"
    by (simp add: states bt_get_or_def bt_update_def Let_def saturating_add_def)
  have w: "b32_ok ex_id32" by (simp add: b32_ok_def)
  obtain a5 cs5 os5 where h5: "handle_request demo_shell (SettleMsg (\<lambda>_. replicate 32 9) (Inr ''0xab'')) s3
      = (a5, s4, [SaveSession (wasm_snapshot (sv_wasm demo_shell) s4), SaveOpenings os5, Submit cs5])"
    using demo_settle [OF f3, of "Inr ''0xab''"] w by auto
  obtain a7 cs7 os7 where h7: "handle_request demo_shell (SettleMsg (\<lambda>_. replicate 32 9) (Inl ''unreachable'')) s5
      = (a7, snd (session_flush s5),
         [SaveSession (wasm_snapshot (sv_wasm demo_shell) (snd (session_flush s5))), SaveOpenings os7, Submit cs7])"
    using demo_settle [OF f5, of "Inl ''unreachable''"] w by auto
  have h0: "handle_request demo_shell (snd (ex_messages ! 0)) (wasm_new (Finite 5184000))
      = (Playing (bytes32_to_string hex_string ex_id32) FingerprintMatch, s1,
         [RecordEscrow (bytes32_to_string hex_string ex_id32), SaveSession (wasm_snapshot (sv_wasm demo_shell) s1)])"
    by (simp add: ex_messages_def ex_shell_events_def handle_request_def handle_play_def allows_def wasm_start_def demo_id [OF w] s1_def)
  have progress: "handle_request demo_shell (ProgressMsg i dt) s
      = (Acknowledged, snd (wasm_add_time i dt s), [SaveSession (wasm_snapshot (sv_wasm demo_shell) (snd (wasm_add_time i dt s)))])"
    for i dt s by (simp add: handle_request_def handle_progress_def Let_def)
  show ?thesis
    using h0 by (simp add: ex_messages_def ex_shell_events_def installed_def shell_step_def ensure_ready_def [of _ _ None] h5 h7 progress
        flip: s2_def s3_def s4_def s5_def)
qed

lemma ex_due:
  "due demo_shell (map ((!) ex_messages) [0, 2, 3]) \<lparr>ue_work_id = ex_id32, ue_minutes = 2, ue_plays = 1\<rparr>"
  "due demo_shell (map ((!) ex_messages) [0, 2, 3, 4, 5]) \<lparr>ue_work_id = ex_id32, ue_minutes = 1, ue_plays = 0\<rparr>"
proof -
  have events: "request_events demo_shell (PlayMsg ''s'' (Some \<lparr>rg_work_id = bytes32_to_string hex_string ex_id32,
        rg_price_per_min = 5, rg_tier = FingerprintMatch\<rparr>) (Some 10)) = [Start ''s'' ex_id32]"
    using demo_id [of ex_id32] by (simp add: request_events_def allows_def b32_ok_def)
  show "due demo_shell (map ((!) ex_messages) [0, 2, 3]) \<lparr>ue_work_id = ex_id32, ue_minutes = 2, ue_plays = 1\<rparr>"
    "due demo_shell (map ((!) ex_messages) [0, 2, 3, 4, 5]) \<lparr>ue_work_id = ex_id32, ue_minutes = 1, ue_plays = 0\<rparr>"
    by (simp_all add: due_def accrued_def accrue_def is_settle_def ex_messages_def ex_shell_events_def events U64_MAX_def
        request_events_def [of _ "ProgressMsg _ _"])
qed

theorem browser_restarts_lose_nothing_witness:
  "\<exists>trace ready ch usage1 usage2. shell_run demo_shell ex_shell_events installed = (trace, ready, ch)
     \<and> trace ! 5 = Served (ex_messages ! 4) (settle_answer demo_shell (\<lambda>_. replicate 32 9) (Inr ''0xab'') usage1) True
     \<and> \<lparr>ue_work_id = ex_id32, ue_minutes = 2, ue_plays = 1\<rparr> \<in> set usage1
     \<and> trace ! 7 = Served (ex_messages ! 6) (settle_answer demo_shell (\<lambda>_. replicate 32 9) (Inl ''unreachable'') usage2) True
     \<and> \<lparr>ue_work_id = ex_id32, ue_minutes = 1, ue_plays = 0\<rparr> \<in> set usage2"
proof -
  obtain a0 a3 a5 a7 ready ch where run: "shell_run demo_shell ex_shell_events installed =
     ([Served (ex_messages ! 0) a0 True, Unanswered (ex_messages ! 1) False, Served (ex_messages ! 2) a3 True, Stopped,
       Unanswered (ex_messages ! 3) True, Served (ex_messages ! 4) a5 True, Unanswered (ex_messages ! 5) True,
       Served (ex_messages ! 6) a7 True], ready, ch)" using ex_run by blast
  let ?pre = "[Served (ex_messages ! 0) a0 True, Unanswered (ex_messages ! 1) False, Served (ex_messages ! 2) a3 True,
      Stopped, Unanswered (ex_messages ! 3) True]"
  let ?trace = "?pre @ Served (ex_messages ! 4) a5 True # [Unanswered (ex_messages ! 5) True, Served (ex_messages ! 6) a7 True]"
  have m: "ex_messages ! 4 = (Finite 5184040, SettleMsg (\<lambda>_. replicate 32 9) (Inr ''0xab''))"
    "ex_messages ! 6 = (Finite 5184060, SettleMsg (\<lambda>_. replicate 32 9) (Inl ''unreachable''))"
    by (simp_all add: ex_messages_def ex_shell_events_def)
  have run': "shell_run demo_shell ex_shell_events installed = (?trace, ready, ch)" using run by simp
  obtain kept pending where kp: "survivors ?trace = (kept, pending)" by (cases "survivors ?trace")
  have settles: "\<exists>usage. a = settle_answer demo_shell salts transaction usage \<and> (\<forall>e. e \<in> set usage \<longleftrightarrow> due demo_shell (in_effect pre) e)"
    if "?trace = pre @ Served (now, SettleMsg salts transaction) a saved # post" for pre now salts transaction a saved post
    using browser_restarts_lose_nothing [OF demo_shell_snapshots run' kp] that by blast
  have "in_effect ?pre = map ((!) ex_messages) [0, 2, 3]"
    and "in_effect (?pre @ [Served (ex_messages ! 4) a5 True, Unanswered (ex_messages ! 5) True])
      = map ((!) ex_messages) [0, 2, 3, 4, 5]"
    by (simp_all add: in_effect_def survivors_def)
  then obtain u1 u2 where "a5 = settle_answer demo_shell (\<lambda>_. replicate 32 9) (Inr ''0xab'') u1"
      "\<lparr>ue_work_id = ex_id32, ue_minutes = 2, ue_plays = 1\<rparr> \<in> set u1"
      "a7 = settle_answer demo_shell (\<lambda>_. replicate 32 9) (Inl ''unreachable'') u2"
      "\<lparr>ue_work_id = ex_id32, ue_minutes = 1, ue_plays = 0\<rparr> \<in> set u2"
    using settles [of ?pre "Finite 5184040" "\<lambda>_. replicate 32 9" "Inr ''0xab''" a5 True
          "[Unanswered (ex_messages ! 5) True, Served (ex_messages ! 6) a7 True]"]
      settles [of "?pre @ [Served (ex_messages ! 4) a5 True, Unanswered (ex_messages ! 5) True]" "Finite 5184060"
          "\<lambda>_. replicate 32 9" "Inl ''unreachable''" a7 True "[]"] ex_due m by auto
  with run show ?thesis by (intro exI conjI) (assumption | simp)+
qed

lemma settle_openings_length: "settle_openings env salts i us = Inr built \<Longrightarrow> length built = length us"
  by (induction env salts i us arbitrary: built rule: settle_openings.induct) (auto simp: Let_def res_bind_eq_Inr)

lemma failed_settle_state:
  assumes "handle_settle env salts transaction s = (Failed (TxError e), s', fx)"
  shows "s' = snd (session_flush s)
     \<and> (\<exists>os cs. fx = [SaveSession (wasm_snapshot (sv_wasm env) s'), SaveOpenings os, Submit cs] \<and> os \<noteq> [])"
proof -
  obtain us where u: "session_flush s = (us, snd (session_flush s))" by (cases "session_flush s") simp
  from assms u show ?thesis
    by (auto simp: handle_settle_def wasm_flush_def split: prod.splits option.splits if_splits sum.splits
        dest!: settle_openings_length)
qed

text \<open>C34: A settle whose transaction fails is not retried. The snapshot of the drained store is stored before the
  transaction is sent, so when making, sending or awaiting it fails, the usage that had openings is gone from
  the store: the next settle finds nothing to disclose and submits nothing, whether the worker goes on or is
  stopped any number of times before.\<close>

theorem failed_settle_not_retried:
  assumes "snapshots_ok (sv_wasm env)"
    and "sv_parse_usage env (or_default ''[]'' (wz_usage_to_json (sv_wasm env) [])) = Some []"
    and "shell_step env (Arrives (now, SettleMsg salts transaction)) st = (Served m (Failed (TxError e)) saved, st')"
    and "list_all (\<lambda>ev. ev = Terminates) stops"
  shows "ch_last_openings (snd st') \<noteq> []
     \<and> fst (shell_run env (stops @ [Arrives (now', SettleMsg salts' transaction')]) st')
       = replicate (length stops) Stopped @ [Served (now', SettleMsg salts' transaction') NoUsage False]"
proof -
  obtain s where s: "ensure_ready (sv_wasm env) now (ch_snapshot (snd st)) (fst st) = Inr s"
    using assms(3) by (cases "ensure_ready (sv_wasm env) now (ch_snapshot (snd st)) (fst st)") (auto simp: shell_step_def)
  obtain a s' fx where h: "handle_settle env salts transaction s = (a, s', fx)"
    by (cases "handle_settle env salts transaction s")
  with assms(3) s have a: "a = Failed (TxError e)" and st': "st' = (Some (Inr s'), fold apply_effect fx (snd st))"
    by (auto simp: shell_step_def handle_request_def)
  from failed_settle_state [OF h [unfolded a]] obtain os cs where s': "s' = snd (session_flush s)"
    and fx: "fx = [SaveSession (wasm_snapshot (sv_wasm env) s'), SaveOpenings os, Submit cs]" and os: "os \<noteq> []"
    by blast
  have "session_flush s' = ([], s')" by (simp add: s' session_flush_def)
  then have none: "handle_settle env salts' transaction' s' = (NoUsage, s', [])"
    by (simp add: handle_settle_def wasm_flush_def assms(2))
  have ready: "ensure_ready (sv_wasm env) now' (ch_snapshot ch) wk = Inr s'"
    if "ch_snapshot ch = Some (wasm_snapshot (sv_wasm env) s')" "wk = None \<or> wk = Some (Inr s')" for ch wk
    using that snapshot_text [OF assms(1), of s'] by (auto simp: ensure_ready_def)
  have "fst (shell_run env (stops @ [Arrives (now', SettleMsg salts' transaction')]) (wk, ch))
      = replicate (length stops) Stopped @ [Served (now', SettleMsg salts' transaction') NoUsage False]"
    if "ch_snapshot ch = Some (wasm_snapshot (sv_wasm env) s')" "wk = None \<or> wk = Some (Inr s')" for wk ch
    using assms(4) that
  proof (induction stops arbitrary: wk)
    case Nil
    from ready [OF Nil.prems(2,3)] show ?case
      by (simp add: shell_step_def handle_request_def none)
  next
    case (Cons ev stops)
    then show ?case by (simp add: shell_step_def case_prod_unfold)
  qed
  then show ?thesis using os by (simp add: st' fx)
qed

theorem failed_settle_not_retried_witness:
  "\<exists>m saved st'. shell_step demo_shell (Arrives (Finite 5184040, SettleMsg (\<lambda>_. replicate 32 9) (Inl ''unreachable'')))
        (Some (Inr \<lparr>ss_epoch = 2, per_work_secs = [(ex_id32, 120)], per_work_plays = [(ex_id32, 1)], ss_active = []\<rparr>), snd installed)
      = (Served m (Failed (TxError ''unreachable'')) saved, st')
     \<and> fst (shell_run demo_shell ([Terminates] @ [Arrives (Finite 5184050, SettleMsg (\<lambda>_. replicate 32 9) (Inr ''0xab''))]) st')
       = [Stopped, Served (Finite 5184050, SettleMsg (\<lambda>_. replicate 32 9) (Inr ''0xab'')) NoUsage False]"
proof -
  let ?s = "\<lparr>ss_epoch = 2, per_work_secs = [(ex_id32, 120)], per_work_plays = [(ex_id32, 1)], ss_active = []\<rparr>"
  let ?m = "(Finite 5184040, SettleMsg (\<lambda>_. replicate 32 9) (Inl ''unreachable''))"
  have f: "session_flush ?s = ([\<lparr>ue_work_id = ex_id32, ue_minutes = 2, ue_plays = 1\<rparr>], snd (session_flush ?s))"
    by (simp add: session_flush_def bt_get_or_def Let_def)
  obtain a cs os where h: "handle_request demo_shell (snd ?m) ?s = (a, snd (session_flush ?s),
      [SaveSession (wasm_snapshot (sv_wasm demo_shell) (snd (session_flush ?s))), SaveOpenings os, Submit cs])"
    using demo_settle [OF f, of "Inl ''unreachable''"] by (auto simp: b32_ok_def)
  have "a = Failed (TxError ''unreachable'')"
    using h by (auto simp: handle_request_def handle_settle_def split: prod.splits option.splits if_splits sum.splits)
  then have "\<exists>st'. shell_step demo_shell (Arrives ?m) (Some (Inr ?s), snd installed)
      = (Served ?m (Failed (TxError ''unreachable'')) True, st')"
    using h by (simp add: shell_step_def)
  then obtain st' where st': "shell_step demo_shell (Arrives ?m) (Some (Inr ?s), snd installed)
      = (Served ?m (Failed (TxError ''unreachable'')) True, st')" by blast
  have empty: "sv_parse_usage demo_shell (or_default ''[]'' (wz_usage_to_json (sv_wasm demo_shell) [])) = Some []"
    by (simp only: demo_usage_parses list.map)
  have "list_all (\<lambda>ev. ev = Terminates) [Terminates]" by simp
  from failed_settle_not_retried [OF demo_shell_snapshots empty st' this, of "Finite 5184050" "\<lambda>_. replicate 32 9" "Inr ''0xab''"] st'
  show ?thesis by (intro exI conjI) (assumption, simp)
qed

end
