(* ===== verification/KeyTools.thy ===== *)
theory KeyTools
  imports ZkSubmit
begin

text \<open>
  The tools that make the devnet keys and the verifier contract: key generation and key files
  (\<open>libs/zk-circuits/src/setup.rs\<close>), the fixture exporter (\<open>bin/export_keys.rs\<close>) and the generator of
  \<open>Groth16Verifier.sol\<close> (\<open>bin/gen_verifier.rs\<close>). The generated source is modelled by what it
  computes: the constants the generator fills in, and the function \<open>verify\<close> of the template, over the
  EVM's three curve precompiles. Groth16, the serializations and the coder of crate \<open>hex\<close> are fields
  of \<open>key_env\<close>. A failing \<open>expect\<close> or \<open>assert\<close> ends a tool; printed lines are not modelled.
\<close>

section \<open>Keys and their files\<close>

record verifying_key =
  alpha_g1 :: g1
  beta_g2 :: g2
  gamma_g2 :: g2
  delta_g2 :: g2
  gamma_abc_g1 :: "g1 list"

record ('pk, 'pf) key_env =
  ke_modulus :: int
  ke_poseidon :: "fr list \<Rightarrow> fr"
  ke_setup :: "usage_circuit \<Rightarrow> ('pk \<times> verifying_key) option"
  ke_prove :: "'pk \<Rightarrow> usage_circuit \<Rightarrow> string + 'pf"
  ke_serialize :: "'pf \<Rightarrow> string + u8 list"
  ke_deserialize :: "u8 list \<Rightarrow> 'pf option"
  ke_groth16_verify :: "verifying_key \<Rightarrow> fr list \<Rightarrow> 'pf \<Rightarrow> bool option"
  ke_points :: "u8 list \<Rightarrow> (g1 \<times> g2 \<times> g1) option"
  ke_pk_bytes :: "'pk \<Rightarrow> u8 list option"
  ke_vk_bytes :: "verifying_key \<Rightarrow> u8 list option"
  ke_vk_of :: "u8 list \<Rightarrow> verifying_key option"
  ke_hex_encode :: "u8 list \<Rightarrow> string"
  ke_writable :: "string \<Rightarrow> bool"

text \<open>The constants of the generated contract, as its source text spells them.\<close>

record verifier_constants =
  ALPHA_X :: string
  ALPHA_Y :: string
  BETA_X1 :: string
  BETA_X0 :: string
  BETA_Y1 :: string
  BETA_Y0 :: string
  GAMMA_X1 :: string
  GAMMA_X0 :: string
  GAMMA_Y1 :: string
  GAMMA_Y0 :: string
  DELTA_X1 :: string
  DELTA_X0 :: string
  DELTA_Y1 :: string
  DELTA_Y0 :: string
  IC0_X :: string
  IC0_Y :: string
  IC1_X :: string
  IC1_Y :: string

text \<open>The files the tools read and write.\<close>

record tool_files =
  key_files :: "string \<Rightarrow> u8 list option"
  fixture_file :: "string option"
  verifier_file :: "verifier_constants option"

datatype tool_panic =
  Unsatisfiable | Saving string | LoadingKey string | Proving prove_error | NotVerified | NotDecoded
| InputCount nat | WritingFile string

definition devnet_setup :: "('pk, 'pf) key_env \<Rightarrow> tool_panic + ('pk \<times> verifying_key)" where
  "devnet_setup env = ok_or Unsatisfiable (ke_setup env (empty_circuit (ke_modulus env) (ke_poseidon env)))"

definition save_key ::
    "('pk, 'pf) key_env \<Rightarrow> u8 list option \<Rightarrow> string \<Rightarrow> (tool_files, tool_panic, unit) proc" where
  "save_key env o_buf path fs =
     (case o_buf of
        None \<Rightarrow> (fs, Inl (Saving path))
      | Some buf \<Rightarrow>
          if ke_writable env path then (fs\<lparr>key_files := (key_files fs)(path \<mapsto> buf)\<rparr>, Inr ())
          else (fs, Inl (Saving path)))"

definition save_pk :: "('pk, 'pf) key_env \<Rightarrow> 'pk \<Rightarrow> string \<Rightarrow> (tool_files, tool_panic, unit) proc" where
  "save_pk env pk path = save_key env (ke_pk_bytes env pk) path"

definition save_vk :: "('pk, 'pf) key_env \<Rightarrow> verifying_key \<Rightarrow> string \<Rightarrow> (tool_files, tool_panic, unit) proc" where
  "save_vk env vk path = save_key env (ke_vk_bytes env vk) path"

definition load_vk :: "('pk, 'pf) key_env \<Rightarrow> string \<Rightarrow> (tool_files, tool_panic, verifying_key) proc" where
  "load_vk env path fs =
     (fs, ok_or (LoadingKey path) (Option.bind (key_files fs path) (ke_vk_of env)))"

section \<open>The fixture exporter\<close>

definition fq_hex :: "(u8 list \<Rightarrow> string) \<Rightarrow> int \<Rightarrow> string" where
  "fq_hex hex_encode f = ''0x'' @ hex_encode (fq_word f)"

definition g1_hex :: "(u8 list \<Rightarrow> string) \<Rightarrow> g1 \<Rightarrow> string \<times> string" where
  "g1_hex hex_encode pt = (fq_hex hex_encode (fst pt), fq_hex hex_encode (snd pt))"

definition g2_hex :: "(u8 list \<Rightarrow> string) \<Rightarrow> g2 \<Rightarrow> (string \<times> string) \<times> (string \<times> string)" where
  "g2_hex hex_encode pt =
     (case pt of ((x0, x1), (y0, y1)) \<Rightarrow>
        ((fq_hex hex_encode x1, fq_hex hex_encode x0), (fq_hex hex_encode y1, fq_hex hex_encode y0)))"

record zk_fixture =
  fx_digest :: string
  fx_bad_digest :: string
  fx_weight0 :: string
  fx_a :: "string \<times> string"
  fx_b :: "(string \<times> string) \<times> (string \<times> string)"
  fx_c :: "string \<times> string"

definition quoted :: "string \<Rightarrow> string" where
  "quoted s = [CHR 0x22] @ s @ [CHR 0x22]"

definition json_pair :: "string \<Rightarrow> string \<Rightarrow> string" where
  "json_pair s t = ''['' @ s @ '', '' @ t @ '']''"

definition fixture_json :: "zk_fixture \<Rightarrow> string" where
  "fixture_json fx =
     (let nl = [CHR 0x0A]; field = (\<lambda>name v. ''  '' @ quoted name @ '': '' @ v);
          words = (\<lambda>(x, y). json_pair (quoted x) (quoted y)) in
      ''{'' @ nl @ field ''digest'' (quoted (fx_digest fx)) @ '','' @ nl
      @ field ''bad_digest'' (quoted (fx_bad_digest fx)) @ '','' @ nl
      @ field ''weight0'' (quoted (fx_weight0 fx)) @ '','' @ nl
      @ field ''a'' (words (fx_a fx)) @ '','' @ nl
      @ field ''b'' (json_pair (words (fst (fx_b fx))) (words (snd (fx_b fx)))) @ '','' @ nl
      @ field ''c'' (words (fx_c fx)) @ nl @ ''}'' @ nl)"

definition fixture_of :: "(u8 list \<Rightarrow> string) \<Rightarrow> proof_bundle \<Rightarrow> g1 \<times> g2 \<times> g1 \<Rightarrow> zk_fixture" where
  "fixture_of hex_encode bundle pts =
     (case pts of (a, b, c) \<Rightarrow>
        \<lparr>fx_digest = ''0x'' @ hex_encode (pb_digest bundle),
         fx_bad_digest = ''0x'' @ hex_encode (tampered (pb_digest bundle)),
         fx_weight0 = u128_to_string (pr_weight (hd (pb_rows bundle))),
         fx_a = g1_hex hex_encode a, fx_b = g2_hex hex_encode b, fx_c = g1_hex hex_encode c\<rparr>)"

definition FIXTURE_PATH :: string where "FIXTURE_PATH = ''chain/test/fixtures/zk_proof.json''"

definition write_fixture :: "('pk, 'pf) key_env \<Rightarrow> string \<Rightarrow> (tool_files, tool_panic, unit) proc" where
  "write_fixture env json fs =
     (if ke_writable env FIXTURE_PATH then (fs\<lparr>fixture_file := Some json\<rparr>, Inr ())
      else (fs, Inl (WritingFile FIXTURE_PATH)))"

definition export_main :: "('pk, 'pf) key_env \<Rightarrow> (tool_files, tool_panic, unit) proc" where
  "export_main env =
     job_bind (job_lift (devnet_setup env)) (\<lambda>(pk, vk).
     job_bind (save_pk env pk PK_PATH) (\<lambda>_.
     job_bind (save_vk env vk VK_PATH) (\<lambda>_.
     let input = sample_row (replicate 32 1); epoch = 7; tier = replicate 32 171; k_epoch = replicate 32 92 in
     job_bind (job_lift (map_err Proving (prove (ke_modulus env) (ke_poseidon env) (ke_prove env) (ke_serialize env)
                  pk epoch tier k_epoch 1000000 [input]))) (\<lambda>bundle.
     job_bind (job_lift (if verify (ke_modulus env) (ke_deserialize env) (ke_groth16_verify env) vk
                  (pb_digest bundle) (pb_proof bundle) then Inr () else Inl NotVerified)) (\<lambda>_.
     job_bind (job_lift (ok_or NotDecoded (ke_points env (pb_proof bundle)))) (\<lambda>pts.
     write_fixture env (fixture_json (fixture_of (ke_hex_encode env) bundle pts))))))))"

section \<open>The generator\<close>

definition g2_literals :: "(u8 list \<Rightarrow> string) \<Rightarrow> g2 \<Rightarrow> string \<times> string \<times> string \<times> string" where
  "g2_literals hex_encode pt =
     (case pt of ((x0, x1), (y0, y1)) \<Rightarrow>
        (fq_hex hex_encode x1, fq_hex hex_encode x0, fq_hex hex_encode y1, fq_hex hex_encode y0))"

definition render ::
    "string \<times> string \<Rightarrow> string \<times> string \<times> string \<times> string \<Rightarrow> string \<times> string \<times> string \<times> string
     \<Rightarrow> string \<times> string \<times> string \<times> string \<Rightarrow> string \<times> string \<Rightarrow> string \<times> string \<Rightarrow> verifier_constants" where
  "render alpha beta gamma delta ic0 ic1 =
     (case (alpha, beta, gamma, delta, ic0, ic1) of
        ((ax, ay), (bx1, bx0, by1, by0), (gx1, gx0, gy1, gy0), (dx1, dx0, dy1, dy0), (i0x, i0y), (i1x, i1y)) \<Rightarrow>
        \<lparr>ALPHA_X = ax, ALPHA_Y = ay, BETA_X1 = bx1, BETA_X0 = bx0, BETA_Y1 = by1, BETA_Y0 = by0,
         GAMMA_X1 = gx1, GAMMA_X0 = gx0, GAMMA_Y1 = gy1, GAMMA_Y0 = gy0,
         DELTA_X1 = dx1, DELTA_X0 = dx0, DELTA_Y1 = dy1, DELTA_Y0 = dy0,
         IC0_X = i0x, IC0_Y = i0y, IC1_X = i1x, IC1_Y = i1y\<rparr>)"

definition VERIFIER_PATH :: string where "VERIFIER_PATH = ''chain/contracts/Groth16Verifier.sol''"

definition write_verifier :: "('pk, 'pf) key_env \<Rightarrow> verifier_constants \<Rightarrow> (tool_files, tool_panic, unit) proc" where
  "write_verifier env sol fs =
     (if ke_writable env VERIFIER_PATH then (fs\<lparr>verifier_file := Some sol\<rparr>, Inr ())
      else (fs, Inl (WritingFile VERIFIER_PATH)))"

definition gen_main :: "('pk, 'pf) key_env \<Rightarrow> (tool_files, tool_panic, unit) proc" where
  "gen_main env =
     job_bind (load_vk env VK_PATH) (\<lambda>vk.
     job_bind (job_lift (if length (gamma_abc_g1 vk) = 2 then Inr () else Inl (InputCount (length (gamma_abc_g1 vk))))) (\<lambda>_.
     let g1 = g1_hex (ke_hex_encode env); g2 = g2_literals (ke_hex_encode env) in
     write_verifier env (render (g1 (alpha_g1 vk)) (g2 (beta_g2 vk)) (g2 (gamma_g2 vk)) (g2 (delta_g2 vk))
       (g1 (gamma_abc_g1 vk ! 0)) (g1 (gamma_abc_g1 vk ! 1)))))"

section \<open>The generated contract\<close>

text \<open>
  The precompiles read and write 256-bit words; a failing call reverts, which is \<open>None\<close>.
\<close>

record precompiles =
  ec_add :: "int \<Rightarrow> int \<Rightarrow> int \<Rightarrow> int \<Rightarrow> (int \<times> int) option"
  ec_mul :: "int \<Rightarrow> int \<Rightarrow> int \<Rightarrow> (int \<times> int) option"
  ec_pairing :: "int list \<Rightarrow> int option"

definition base_field :: int where
  "base_field = 21888242871839275222246405745257275088696311157297823662689037894645226208583"

text \<open>\<open>abi.decode\<close> of eight static words: too few bytes revert, bytes after the eighth are ignored.\<close>

definition abi_word :: "u8 list \<Rightarrow> nat \<Rightarrow> int" where
  "abi_word bytes i = be_int (take 32 (drop (32 * i) bytes))"

definition generated_verify ::
    "precompiles \<Rightarrow> (string \<Rightarrow> int) \<Rightarrow> verifier_constants \<Rightarrow> b32 \<Rightarrow> u8 list \<Rightarrow> bool option" where
  "generated_verify pre literal vc dg bytes =
     (if length bytes < 256 then None
      else
        let w = abi_word bytes in
        Option.bind (ec_mul pre (literal (IC1_X vc)) (literal (IC1_Y vc)) (be_int dg)) (\<lambda>(mx, my).
        Option.bind (ec_add pre mx my (literal (IC0_X vc)) (literal (IC0_Y vc))) (\<lambda>(vx, vy).
        let neg_ay = (if w 1 = 0 then 0 else base_field - w 1 mod base_field) in
        Option.bind (ec_pairing pre
          [w 0, neg_ay, w 2, w 3, w 4, w 5,
           literal (ALPHA_X vc), literal (ALPHA_Y vc), literal (BETA_X1 vc), literal (BETA_X0 vc),
           literal (BETA_Y1 vc), literal (BETA_Y0 vc),
           vx, vy, literal (GAMMA_X1 vc), literal (GAMMA_X0 vc), literal (GAMMA_Y1 vc), literal (GAMMA_Y0 vc),
           w 6, w 7, literal (DELTA_X1 vc), literal (DELTA_X0 vc), literal (DELTA_Y1 vc), literal (DELTA_Y0 vc)])
          (\<lambda>out. Some (out = 1)))))"

section \<open>What the contract checks\<close>

text \<open>The curve groups, as the precompiles are documented to compute in them: which coordinates are
  points, addition and multiplication in the first group, and whether a product of pairings is one.\<close>

record curve =
  on1 :: "g1 \<Rightarrow> bool"
  on2 :: "g2 \<Rightarrow> bool"
  gadd :: "g1 \<Rightarrow> g1 \<Rightarrow> g1"
  gmul :: "int \<Rightarrow> g1 \<Rightarrow> g1"
  gprod :: "(g1 \<times> g2) list \<Rightarrow> bool"

definition in_q :: "int \<Rightarrow> bool" where
  "in_q x \<longleftrightarrow> 0 \<le> x \<and> x < base_field"

definition g1_neg :: "g1 \<Rightarrow> g1" where
  "g1_neg pt = (fst pt, if snd pt = 0 then 0 else base_field - snd pt)"

text \<open>The layout of a pair: both coordinates of the first point, then the second point with the
  imaginary limbs first.\<close>

definition pair_words :: "g1 \<times> g2 \<Rightarrow> int list" where
  "pair_words pr = (case pr of ((x, y), ((x0, x1), (y0, y1))) \<Rightarrow> [x, y, x1, x0, y1, y0])"

definition g1_points :: "curve \<Rightarrow> g1 \<Rightarrow> bool" where
  "g1_points g pt \<longleftrightarrow> on1 g pt \<and> in_q (fst pt) \<and> in_q (snd pt)"

definition g2_points :: "curve \<Rightarrow> g2 \<Rightarrow> bool" where
  "g2_points g pt \<longleftrightarrow> on2 g pt \<and> in_q (fst (fst pt)) \<and> in_q (snd (fst pt)) \<and> in_q (fst (snd pt)) \<and> in_q (snd (snd pt))"

definition precompiles_ok :: "precompiles \<Rightarrow> curve \<Rightarrow> bool" where
  "precompiles_ok pre g \<longleftrightarrow>
     (\<forall>pt s. g1_points g pt \<longrightarrow> 0 \<le> s \<longrightarrow> s < 2 ^ 256 \<longrightarrow>
        ec_mul pre (fst pt) (snd pt) s = Some (gmul g s pt) \<and> g1_points g (gmul g s pt))
     \<and> (\<forall>pt pt'. g1_points g pt \<longrightarrow> g1_points g pt' \<longrightarrow>
        ec_add pre (fst pt) (snd pt) (fst pt') (snd pt') = Some (gadd g pt pt') \<and> g1_points g (gadd g pt pt'))
     \<and> (\<forall>pt. g1_points g pt \<longrightarrow> g1_points g (g1_neg pt))
     \<and> (\<forall>prs. length prs = 4 \<longrightarrow> (\<forall>pr \<in> set prs. g1_points g (fst pr) \<and> g2_points g (snd pr)) \<longrightarrow>
        ec_pairing pre (concat (map pair_words prs)) = Some (if gprod g prs then 1 else 0))"

text \<open>The equation of Groth16 for one public input.\<close>

definition groth16_equation :: "curve \<Rightarrow> verifying_key \<Rightarrow> int \<Rightarrow> g1 \<times> g2 \<times> g1 \<Rightarrow> bool" where
  "groth16_equation g vk x pts =
     (case pts of (a, b, c) \<Rightarrow>
        gprod g [(g1_neg a, b), (alpha_g1 vk, beta_g2 vk),
          (gadd g (gmul g x (gamma_abc_g1 vk ! 1)) (gamma_abc_g1 vk ! 0), gamma_g2 vk), (c, delta_g2 vk)])"

definition key_points :: "curve \<Rightarrow> verifying_key \<Rightarrow> bool" where
  "key_points g vk \<longleftrightarrow> g1_points g (alpha_g1 vk) \<and> g2_points g (beta_g2 vk) \<and> g2_points g (gamma_g2 vk)
     \<and> g2_points g (delta_g2 vk) \<and> length (gamma_abc_g1 vk) = 2 \<and> list_all (g1_points g) (gamma_abc_g1 vk)"

definition proof_points :: "curve \<Rightarrow> g1 \<times> g2 \<times> g1 \<Rightarrow> bool" where
  "proof_points g pts \<longleftrightarrow> (case pts of (a, b, c) \<Rightarrow> g1_points g a \<and> g2_points g b \<and> g1_points g c)"

definition constants_of :: "(u8 list \<Rightarrow> string) \<Rightarrow> verifying_key \<Rightarrow> verifier_constants" where
  "constants_of hex_encode vk =
     render (g1_hex hex_encode (alpha_g1 vk)) (g2_literals hex_encode (beta_g2 vk))
       (g2_literals hex_encode (gamma_g2 vk)) (g2_literals hex_encode (delta_g2 vk))
       (g1_hex hex_encode (gamma_abc_g1 vk ! 0)) (g1_hex hex_encode (gamma_abc_g1 vk ! 1))"

lemma base_field_small: "in_q x \<Longrightarrow> 0 \<le> x \<and> x < 256 ^ 32"
  by (simp add: in_q_def base_field_def)

lemma be_fq_word: "in_q x \<Longrightarrow> be_int (fq_word x) = x"
  unfolding fq_word_def using base_field_small by (intro be_int_be) simp_all

lemma fq_word_chunk:
  "i < length xs \<Longrightarrow> take 32 (drop (32 * i) (concat (map fq_word xs))) = fq_word (xs ! i)"
proof (induction xs arbitrary: i)
  case (Cons x xs)
  have l: "length (fq_word x) = 32" by (simp add: fq_word_def)
  show ?case
  proof (cases i)
    case (Suc j)
    with Cons.prems have "take 32 (drop (32 * j) (concat (map fq_word xs))) = fq_word (xs ! j)" by (intro Cons.IH) simp
    then show ?thesis by (simp add: Suc l)
  qed (simp add: l)
qed simp

lemma abi_words:
  assumes "list_all in_q xs" and "i < length xs"
  shows "abi_word (concat (map fq_word xs)) i = xs ! i"
  using assms by (simp add: abi_word_def fq_word_chunk be_fq_word list_all_length)

lemma length_words: "length (concat (map fq_word xs)) = 32 * length xs"
  by (induction xs) (simp_all add: fq_word_def)

lemma calldata_words:
  "push_g1 a @ push_g2 b @ push_g1 c
     = concat (map fq_word [fst a, snd a, snd (fst b), fst (fst b), snd (snd b), fst (snd b), fst c, snd c])"
  by (simp add: push_g1_def push_g2_def split: prod.split)

lemma constants_fields:
  "ALPHA_X (constants_of he vk) = fq_hex he (fst (alpha_g1 vk))" "ALPHA_Y (constants_of he vk) = fq_hex he (snd (alpha_g1 vk))"
  "BETA_X1 (constants_of he vk) = fq_hex he (snd (fst (beta_g2 vk)))" "BETA_X0 (constants_of he vk) = fq_hex he (fst (fst (beta_g2 vk)))"
  "BETA_Y1 (constants_of he vk) = fq_hex he (snd (snd (beta_g2 vk)))" "BETA_Y0 (constants_of he vk) = fq_hex he (fst (snd (beta_g2 vk)))"
  "GAMMA_X1 (constants_of he vk) = fq_hex he (snd (fst (gamma_g2 vk)))" "GAMMA_X0 (constants_of he vk) = fq_hex he (fst (fst (gamma_g2 vk)))"
  "GAMMA_Y1 (constants_of he vk) = fq_hex he (snd (snd (gamma_g2 vk)))" "GAMMA_Y0 (constants_of he vk) = fq_hex he (fst (snd (gamma_g2 vk)))"
  "DELTA_X1 (constants_of he vk) = fq_hex he (snd (fst (delta_g2 vk)))" "DELTA_X0 (constants_of he vk) = fq_hex he (fst (fst (delta_g2 vk)))"
  "DELTA_Y1 (constants_of he vk) = fq_hex he (snd (snd (delta_g2 vk)))" "DELTA_Y0 (constants_of he vk) = fq_hex he (fst (snd (delta_g2 vk)))"
  "IC0_X (constants_of he vk) = fq_hex he (fst (gamma_abc_g1 vk ! 0))" "IC0_Y (constants_of he vk) = fq_hex he (snd (gamma_abc_g1 vk ! 0))"
  "IC1_X (constants_of he vk) = fq_hex he (fst (gamma_abc_g1 vk ! 1))" "IC1_Y (constants_of he vk) = fq_hex he (snd (gamma_abc_g1 vk ! 1))"
  by (simp_all add: constants_of_def render_def g1_hex_def g2_literals_def split: prod.split)

lemma pair_words_pair:
  "pair_words (pt, r) = [fst pt, snd pt, snd (fst r), fst (fst r), snd (snd r), fst (snd r)]"
  by (simp add: pair_words_def split: prod.split)

lemma pairing_of:
  "\<lbrakk>precompiles_ok pre g; length prs = 4; \<forall>pr \<in> set prs. g1_points g (fst pr) \<and> g2_points g (snd pr)\<rbrakk>
     \<Longrightarrow> ec_pairing pre (concat (map pair_words prs)) = Some (if gprod g prs then 1 else 0)"
  unfolding precompiles_ok_def by blast

lemma generated_verify_equation:
  assumes pre: "precompiles_ok pre g" and vk: "key_points g vk" and pts: "proof_points g (a, b, c)"
    and lit: "\<And>x. in_q x \<Longrightarrow> literal (fq_hex hex_encode x) = x" and dg: "length dg = 32"
  shows "generated_verify pre literal (constants_of hex_encode vk) dg (push_g1 a @ push_g2 b @ push_g1 c)
     = Some (groth16_equation g vk (be_int dg) (a, b, c))"
proof -
  let ?xs = "[fst a, snd a, snd (fst b), fst (fst b), snd (snd b), fst (snd b), fst c, snd c]"
  let ?ic0 = "gamma_abc_g1 vk ! 0" and ?ic1 = "gamma_abc_g1 vk ! 1"
  have xs: "list_all in_q ?xs" using pts by (simp add: proof_points_def g1_points_def g2_points_def)
  have w: "abi_word (concat (map fq_word ?xs)) i = ?xs ! i" if "i < 8" for i
    by (rule abi_words [OF xs]) (use that in simp)
  have ws: "abi_word (concat (map fq_word ?xs)) 0 = fst a" "abi_word (concat (map fq_word ?xs)) 1 = snd a"
    "abi_word (concat (map fq_word ?xs)) 2 = snd (fst b)" "abi_word (concat (map fq_word ?xs)) 3 = fst (fst b)"
    "abi_word (concat (map fq_word ?xs)) 4 = snd (snd b)" "abi_word (concat (map fq_word ?xs)) 5 = fst (snd b)"
    "abi_word (concat (map fq_word ?xs)) 6 = fst c" "abi_word (concat (map fq_word ?xs)) 7 = snd c"
    using w [of 0] w [of 1] w [of 2] w [of 3] w [of 4] w [of 5] w [of 6] w [of 7] by simp_all
  have ics: "g1_points g ?ic0" "g1_points g ?ic1" using vk by (simp_all add: key_points_def list_all_length)
  have scalar: "0 \<le> be_int dg" "be_int dg < 2 ^ 256"
    using be_int_nonneg be_int_less [of dg] by (simp_all add: dg)
  let ?m = "gmul g (be_int dg) ?ic1"
  have mul: "ec_mul pre (fst ?ic1) (snd ?ic1) (be_int dg) = Some ?m" "g1_points g ?m"
    using pre ics(2) scalar unfolding precompiles_ok_def by blast+
  let ?v = "gadd g ?m ?ic0"
  have add: "ec_add pre (fst ?m) (snd ?m) (fst ?ic0) (snd ?ic0) = Some ?v" "g1_points g ?v"
    using pre ics(1) mul(2) unfolding precompiles_ok_def by blast+
  have a: "g1_points g a" using pts by (simp add: proof_points_def)
  have neg1: "g1_points g (g1_neg a)" using pre a unfolding precompiles_ok_def by blast
  have neg2: "snd a mod base_field = snd a" using a by (simp add: g1_points_def in_q_def)
  let ?prs = "[(g1_neg a, b), (alpha_g1 vk, beta_g2 vk), (?v, gamma_g2 vk), (c, delta_g2 vk)]"
  have points: "\<forall>pr \<in> set ?prs. g1_points g (fst pr) \<and> g2_points g (snd pr)"
    using neg1 add(2) vk pts by (simp add: key_points_def proof_points_def)
  have "length ?prs = 4" by simp
  then have pairing: "ec_pairing pre (concat (map pair_words ?prs)) = Some (if gprod g ?prs then 1 else 0)"
    using points by (rule pairing_of [OF pre])
  have lits: "literal (fq_hex hex_encode (fst pt)) = fst pt \<and> literal (fq_hex hex_encode (snd pt)) = snd pt"
    if "g1_points g pt" for pt using lit that by (simp add: g1_points_def)
  have lits2: "literal (fq_hex hex_encode (fst (fst pt))) = fst (fst pt) \<and> literal (fq_hex hex_encode (snd (fst pt))) = snd (fst pt)
     \<and> literal (fq_hex hex_encode (fst (snd pt))) = fst (snd pt) \<and> literal (fq_hex hex_encode (snd (snd pt))) = snd (snd pt)"
    if "g2_points g pt" for pt using lit that by (simp add: g2_points_def)
  note keys = vk [unfolded key_points_def]
  have neg_y: "snd (g1_neg a) = (if snd a = 0 then 0 else base_field - snd a)" "fst (g1_neg a) = fst a"
    by (simp_all add: g1_neg_def)
  have input: "concat (map pair_words ?prs) =
      [fst a, if snd a = 0 then 0 else base_field - snd a, snd (fst b), fst (fst b), snd (snd b), fst (snd b),
       fst (alpha_g1 vk), snd (alpha_g1 vk), snd (fst (beta_g2 vk)), fst (fst (beta_g2 vk)),
       snd (snd (beta_g2 vk)), fst (snd (beta_g2 vk)),
       fst ?v, snd ?v, snd (fst (gamma_g2 vk)), fst (fst (gamma_g2 vk)), snd (snd (gamma_g2 vk)), fst (snd (gamma_g2 vk)),
       fst c, snd c, snd (fst (delta_g2 vk)), fst (fst (delta_g2 vk)), snd (snd (delta_g2 vk)), fst (snd (delta_g2 vk))]"
    by (simp add: pair_words_pair neg_y)
  have long: "\<not> length (concat (map fq_word ?xs)) < 256" unfolding length_words by simp
  show ?thesis
    unfolding generated_verify_def calldata_words Let_def ws neg2 if_not_P [OF long] constants_fields
    using mul(1) add(1) pairing [unfolded input] lits [OF ics(1)] lits [OF ics(2)] lits [of "alpha_g1 vk"]
      lits2 [of "beta_g2 vk"] lits2 [of "gamma_g2 vk"] lits2 [of "delta_g2 vk"] keys
    by (simp add: groth16_equation_def case_prod_beta)
qed

section \<open>A run of the tools\<close>

lemma save_key_Inr [result_simps]:
  "save_key env o_buf path fs = (fs', Inr u) \<longleftrightarrow>
     (\<exists>buf. o_buf = Some buf \<and> ke_writable env path \<and> fs' = fs\<lparr>key_files := (key_files fs)(path \<mapsto> buf)\<rparr>)"
  by (auto simp: save_key_def split: option.splits)

lemma write_fixture_Inr [result_simps]:
  "write_fixture env json fs = (fs', Inr u) \<longleftrightarrow> ke_writable env FIXTURE_PATH \<and> fs' = fs\<lparr>fixture_file := Some json\<rparr>"
  by (auto simp: write_fixture_def)

lemma write_verifier_Inr [result_simps]:
  "write_verifier env sol fs = (fs', Inr u) \<longleftrightarrow> ke_writable env VERIFIER_PATH \<and> fs' = fs\<lparr>verifier_file := Some sol\<rparr>"
  by (auto simp: write_verifier_def)

lemma load_vk_Inr [result_simps]:
  "load_vk env path fs = (fs', Inr vk) \<longleftrightarrow> fs' = fs \<and> Option.bind (key_files fs path) (ke_vk_of env) = Some vk"
  by (auto simp: load_vk_def ok_or_eq_Inr)

lemma gen_main_Inr:
  "gen_main env fs = (fs', Inr u) \<longleftrightarrow>
     (\<exists>vk. Option.bind (key_files fs VK_PATH) (ke_vk_of env) = Some vk \<and> length (gamma_abc_g1 vk) = 2
       \<and> ke_writable env VERIFIER_PATH \<and> fs' = fs\<lparr>verifier_file := Some (constants_of (ke_hex_encode env) vk)\<rparr>)"
  by (auto simp: gen_main_def Let_def result_simps constants_of_def split: if_splits)

definition fixture_circuit :: "('pk, 'pf) key_env \<Rightarrow> usage_circuit" where
  "fixture_circuit env = prove_circuit (ke_modulus env) (ke_poseidon env) 7 (replicate 32 171) (replicate 32 92) 1000000
     [sample_row (replicate 32 1)]"

lemma export_main_Inr:
  assumes "ke_setup env (empty_circuit (ke_modulus env) (ke_poseidon env)) = Some (pk, vk)"
    and "export_main env fs = (fs', Inr u)"
  obtains bd pts buf where "ke_vk_bytes env vk = Some buf" and "key_files fs' VK_PATH = Some buf"
    and "prove (ke_modulus env) (ke_poseidon env) (ke_prove env) (ke_serialize env) pk 7 (replicate 32 171)
        (replicate 32 92) 1000000 [sample_row (replicate 32 1)] = Inr bd"
    and "verify (ke_modulus env) (ke_deserialize env) (ke_groth16_verify env) vk (pb_digest bd) (pb_proof bd)"
    and "ke_points env (pb_proof bd) = Some pts"
    and "fixture_file fs' = Some (fixture_json (fixture_of (ke_hex_encode env) bd pts))"
proof -
  from assms(2) obtain bd pts buf pbuf where
      "ke_vk_bytes env vk = Some buf" "fs' = fs\<lparr>key_files := (key_files fs)(PK_PATH \<mapsto> pbuf, VK_PATH \<mapsto> buf),
         fixture_file := Some (fixture_json (fixture_of (ke_hex_encode env) bd pts))\<rparr>"
      "prove (ke_modulus env) (ke_poseidon env) (ke_prove env) (ke_serialize env) pk 7 (replicate 32 171)
        (replicate 32 92) 1000000 [sample_row (replicate 32 1)] = Inr bd"
      "verify (ke_modulus env) (ke_deserialize env) (ke_groth16_verify env) vk (pb_digest bd) (pb_proof bd)"
      "ke_points env (pb_proof bd) = Some pts"
    unfolding export_main_def devnet_setup_def assms(1) ok_or_simps job_lift_ok prod.case Let_def save_pk_def save_vk_def
    by (auto simp add: job_bind_Inr job_lift_Inr save_key_Inr map_err_eq_Inr ok_or_eq_Inr write_fixture_Inr split: if_splits)
  then show thesis by (intro that) simp_all
qed

lemma proved_sample:
  assumes "prove p h gp ser pk epoch tier k_epoch K_PPM [sample_row work] = Inr bd"
  shows "pb_digest bd = uc_digest (prove_circuit p h epoch tier k_epoch K_PPM [sample_row work])"
    and "length (pb_digest bd) = 32" and "pr_weight (hd (pb_rows bd)) = weight_of 60 2 1000000 1000000 1000000"
proof -
  let ?c = "prove_circuit p h epoch tier k_epoch K_PPM [sample_row work]"
  have "\<not> length [sample_row work] > MAX_WORKS" by (simp add: MAX_WORKS_def)
  with assms have bd: "pb_digest bd = uc_digest ?c" "pb_rows bd = map public_row_of (uc_rows ?c)"
    unfolding prove_def Let_def by (auto simp: res_bind_eq_Inr)
  show "pb_digest bd = uc_digest ?c" by (rule bd(1))
  have "length (digest p h e t k rows) = 32" for e t k rows by (simp add: digest_def fr_to_bytes32_def)
  then show "length (pb_digest bd) = 32" unfolding bd prove_circuit_def Let_def by simp
  show "pr_weight (hd (pb_rows bd)) = weight_of 60 2 1000000 1000000 1000000"
    unfolding bd prove_circuit_def Let_def pad_to_def
    by (simp add: public_row_of_def active_row_def sample_row_def K_PPM_def Let_def)
qed

lemma sample_weight: "u128_to_string (weight_of 60 2 1000000 1000000 1000000) = ''45000000000000''"
proof -
  have "d_sum 1000000 (Suc (Suc 0)) = 1500000" by (simp add: d_sum_def)
  then have "d_sum 1000000 2 = 1500000" by (simp only: numeral_2_eq_2 [symmetric])
  moreover have "unat (circuit_plays 2) = 2" by (simp add: circuit_plays_def MAX_PLAYS_CIRCUIT_def unat_min unat_max)
  ultimately have D: "unat (d_ppm (circuit_plays 2) 1000000) = 750000" by (simp add: d_ppm_unat d_nat_def flip: numeral_2_eq_2)
  have "unat (weight_of 60 2 1000000 1000000 1000000) = 45000000000000"
    by (subst weight_of_nat) (simp_all add: D)
  moreover have "char_of (52 :: nat) = CHR ''4''" "char_of (53 :: nat) = CHR ''5''" "char_of (48 :: nat) = CHR ''0''"
    by code_simp+
  ultimately show ?thesis by (simp add: u128_to_string_def digits_of.simps)
qed

section \<open>Properties\<close>

text \<open>C11: the generated contract checks the Groth16 equation of the saved key. Let the generator run on
  a saved verifying key, and let the proof bytes decode to points. When the precompiles compute in
  the curve groups as documented and the compiler reads a hexadecimal literal as the integer it
  spells, the contract's answer for the encoded proof is the Groth16 equation over these very points
  and this key: every limb of the key's literals and of the proof's words is in the place the
  pairing expects. It also gives the same answer for every digest with the same residue, so a
  digest need not be canonical.\<close>

theorem generated_contract_checks_groth16:
  assumes "gen_main env fs = (fs', Inr ())" and "Option.bind (key_files fs VK_PATH) (ke_vk_of env) = Some vk"
    and "ke_points env bytes = Some pts" and "precompiles_ok pre g" and "key_points g vk" and "proof_points g pts"
    and "\<And>x. in_q x \<Longrightarrow> literal (fq_hex (ke_hex_encode env) x) = x" and "length dg = 32"
    and "\<And>s s' pt. s mod p = s' mod p \<Longrightarrow> gmul g s pt = gmul g s' pt"
    and "length dg' = 32" and "be_int dg' mod p = be_int dg mod p"
  shows "\<exists>vc calldata. verifier_file fs' = Some vc \<and> proof_to_evm_calldata (ke_points env) bytes = Some calldata
     \<and> generated_verify pre literal vc dg calldata = Some (groth16_equation g vk (be_int dg) pts)
     \<and> generated_verify pre literal vc dg' calldata = generated_verify pre literal vc dg calldata"
proof -
  obtain a b c where pts: "pts = (a, b, c)" by (cases pts)
  have v: "verifier_file fs' = Some (constants_of (ke_hex_encode env) vk)"
    using assms(1,2) by (auto simp: gen_main_Inr)
  have enc: "proof_to_evm_calldata (ke_points env) bytes = Some (push_g1 a @ push_g2 b @ push_g1 c)"
    using assms(3) by (simp add: proof_to_evm_calldata_def pts)
  note eq = generated_verify_equation [OF assms(4,5) assms(6) [unfolded pts] assms(7)]
  have "gmul g (be_int dg') pt = gmul g (be_int dg) pt" for pt by (rule assms(9) [OF assms(11)])
  then have "groth16_equation g vk (be_int dg') pts = groth16_equation g vk (be_int dg) pts"
    by (simp add: groth16_equation_def)
  then show ?thesis using v enc eq [OF _ assms(8)] eq [OF _ assms(10)] unfolding pts by auto
qed

text \<open>C29: the two tools agree. When the exporter and then the generator succeed, the contract's
  constants are those of the key that setup returned and that the exporter's proof verifies under;
  the fixture file spells the digest of the sample's circuit, the points the calldata encoder would
  send, and the weight 45000000000000; and its bad digest is another public input of the circuit.\<close>

theorem key_tools_agree:
  assumes "ke_setup env (empty_circuit (ke_modulus env) (ke_poseidon env)) = Some (pk, vk)"
    and "Option.bind (ke_vk_bytes env vk) (ke_vk_of env) = Some vk"
    and "export_main env fs = (fs1, Inr ())" and "gen_main env fs1 = (fs2, Inr ())"
    and "odd (ke_modulus env)" and "255 < ke_modulus env"
  shows "\<exists>bd pts. verifier_file fs2 = Some (constants_of (ke_hex_encode env) vk)
     \<and> fixture_file fs2 = Some (fixture_json (fixture_of (ke_hex_encode env) bd pts))
     \<and> ke_points env (pb_proof bd) = Some pts
     \<and> verify (ke_modulus env) (ke_deserialize env) (ke_groth16_verify env) vk (pb_digest bd) (pb_proof bd)
     \<and> pb_digest bd = uc_digest (fixture_circuit env)
     \<and> fx_weight0 (fixture_of (ke_hex_encode env) bd pts) = ''45000000000000''
     \<and> fr_from_bytes32 (ke_modulus env) (tampered (pb_digest bd)) \<noteq> fr_from_bytes32 (ke_modulus env) (pb_digest bd)"
proof -
  from export_main_Inr [OF assms(1,3)] obtain bd pts buf where
      buf: "ke_vk_bytes env vk = Some buf" "key_files fs1 VK_PATH = Some buf"
    and proved: "prove (ke_modulus env) (ke_poseidon env) (ke_prove env) (ke_serialize env) pk 7 (replicate 32 171)
        (replicate 32 92) 1000000 [sample_row (replicate 32 1)] = Inr bd"
    and ver: "verify (ke_modulus env) (ke_deserialize env) (ke_groth16_verify env) vk (pb_digest bd) (pb_proof bd)"
    and pts: "ke_points env (pb_proof bd) = Some pts"
    and fx: "fixture_file fs1 = Some (fixture_json (fixture_of (ke_hex_encode env) bd pts))" by blast
  note sample = proved_sample [OF proved [folded K_PPM_def]]
  have "verifier_file fs2 = Some (constants_of (ke_hex_encode env) vk)" "fixture_file fs2 = fixture_file fs1"
    using assms(2,4) buf by (auto simp: gen_main_Inr)
  moreover have "fx_weight0 (fixture_of (ke_hex_encode env) bd pts) = ''45000000000000''"
    using sample(3) sample_weight by (simp add: fixture_of_def split: prod.split)
  moreover have "pb_digest bd = uc_digest (fixture_circuit env)"
    using sample(1) by (simp add: fixture_circuit_def K_PPM_def)
  ultimately show ?thesis using fx pts ver tampered_differs [OF sample(2) assms(5,6)]
    by (intro exI [of _ bd] exI [of _ pts]) simp
qed

section \<open>Witnesses\<close>

text \<open>A group the precompiles can compute in: the coordinates modulo the base field, with the sum of the
  products of one coordinate each as the pairing.\<close>

definition ex_curve :: curve where
  "ex_curve = \<lparr>on1 = (\<lambda>_. True), on2 = (\<lambda>_. True),
     gadd = (\<lambda>a b. ((fst a + fst b) mod base_field, (snd a + snd b) mod base_field)),
     gmul = (\<lambda>s a. (s * fst a mod base_field, s * snd a mod base_field)),
     gprod = (\<lambda>prs. (\<Sum>pr\<leftarrow>prs. snd (fst pr) * fst (fst (snd pr))) mod base_field = 0)\<rparr>"

definition ex_precompiles :: precompiles where
  "ex_precompiles = \<lparr>ec_add = (\<lambda>ax ay bx by'. Some ((ax + bx) mod base_field, (ay + by') mod base_field)),
     ec_mul = (\<lambda>px py s. Some (s * px mod base_field, s * py mod base_field)),
     ec_pairing = (\<lambda>ws. Some (if (ws ! 1 * ws ! 3 + ws ! 7 * ws ! 9 + ws ! 13 * ws ! 15 + ws ! 19 * ws ! 21) mod base_field = 0
                     then 1 else 0))\<rparr>"

lemma ex_precompiles_ok: "precompiles_ok ex_precompiles ex_curve"
proof -
  have pos: "0 < base_field" by (simp add: base_field_def)
  have "ec_pairing ex_precompiles (concat (map pair_words prs)) = Some (if gprod ex_curve prs then 1 else 0)"
    if "length prs = 4" for prs
  proof -
    from that obtain p0 p1 p2 p3 where "prs = [p0, p1, p2, p3]" by (auto simp: length_Suc_conv numeral_eq_Suc)
    then show ?thesis
      by (cases p0; cases p1; cases p2; cases p3)
        (simp add: ex_precompiles_def ex_curve_def pair_words_pair add.assoc)
  qed
  moreover have "in_q (x mod base_field)" for x using pos by (simp add: in_q_def)
  moreover have "in_q (base_field - y)" if "in_q y" "y \<noteq> 0" for y using that by (auto simp: in_q_def)
  moreover have "in_q 0" using pos by (simp add: in_q_def)
  ultimately show ?thesis
    unfolding precompiles_ok_def
    by (simp add: g1_points_def g1_neg_def ex_curve_def) (simp add: ex_precompiles_def)
qed

definition ex_vk :: verifying_key where
  "ex_vk = \<lparr>alpha_g1 = (1, 5), beta_g2 = ((1, 0), (2, 3)), gamma_g2 = ((0, 4), (1, 1)), delta_g2 = ((7, 7), (0, 0)),
            gamma_abc_g1 = [(3, 3), (2, 9)]\<rparr>"

definition ex_points :: "g1 \<times> g2 \<times> g1" where
  "ex_points = ((6, 5), ((1, 8), (9, 0)), (4, 0))"

definition ex_key_env :: "(unit, unit) key_env" where
  "ex_key_env = \<lparr>ke_modulus = bn254_modulus, ke_poseidon = (\<lambda>_. 7), ke_setup = (\<lambda>_. Some ((), ex_vk)),
     ke_prove = (\<lambda>_ _. Inr ()), ke_serialize = (\<lambda>_. Inr [1]), ke_deserialize = (\<lambda>_. Some ()),
     ke_groth16_verify = (\<lambda>_ _ _. Some True), ke_points = (\<lambda>_. Some ex_points), ke_pk_bytes = (\<lambda>_. Some [2]),
     ke_vk_bytes = (\<lambda>_. Some [3]), ke_vk_of = (\<lambda>b. if b = [3] then Some ex_vk else None),
     ke_hex_encode = hex_string, ke_writable = (\<lambda>_. True)\<rparr>"

definition ex_literal :: "string \<Rightarrow> int" where
  "ex_literal s = (case decode_hex (drop 2 s) of Some bs \<Rightarrow> be_int bs | None \<Rightarrow> 0)"

lemma ex_literal_word: "in_q x \<Longrightarrow> ex_literal (fq_hex hex_string x) = x"
  by (simp add: ex_literal_def fq_hex_def hex.decode_encode be_fq_word)

lemma ex_key_points: "key_points ex_curve ex_vk" "proof_points ex_curve ex_points"
  by (simp_all add: key_points_def proof_points_def ex_vk_def ex_points_def ex_curve_def g1_points_def g2_points_def
      in_q_def base_field_def)

theorem generated_contract_checks_groth16_witness:
  "\<exists>fs' vc calldata. gen_main ex_key_env \<lparr>key_files = [VK_PATH \<mapsto> [3]], fixture_file = None, verifier_file = None\<rparr> = (fs', Inr ())
     \<and> verifier_file fs' = Some vc \<and> proof_to_evm_calldata (ke_points ex_key_env) [1] = Some calldata
     \<and> generated_verify ex_precompiles ex_literal vc (replicate 31 0 @ [77]) calldata = Some True"
proof -
  let ?fs = "\<lparr>key_files = [VK_PATH \<mapsto> [3]], fixture_file = None, verifier_file = None\<rparr>"
  obtain fs' where run: "gen_main ex_key_env ?fs = (fs', Inr ())"
    using gen_main_Inr [of ex_key_env ?fs _ "()"] by (auto simp: ex_key_env_def ex_vk_def)
  have saved: "Option.bind (key_files ?fs VK_PATH) (ke_vk_of ex_key_env) = Some ex_vk"
    "ke_points ex_key_env [1] = Some ex_points" by (simp_all add: ex_key_env_def)
  have lit: "ex_literal (fq_hex (ke_hex_encode ex_key_env) x) = x" if "in_q x" for x
    using ex_literal_word [OF that] by (simp add: ex_key_env_def)
  have mul: "gmul ex_curve s pt = gmul ex_curve s' pt" if "s mod base_field = s' mod base_field" for s s' pt
    using that by (simp add: ex_curve_def) (metis mod_mult_left_eq)
  have "groth16_equation ex_curve ex_vk 77 ex_points"
    by (simp add: groth16_equation_def ex_points_def ex_curve_def ex_vk_def g1_neg_def base_field_def)
  moreover have "be_int (replicate 31 0 @ [77]) = 77" by code_simp
  ultimately show ?thesis
    using run generated_contract_checks_groth16 [where literal = ex_literal and p = base_field
        and dg = "replicate 31 0 @ [77]" and dg' = "replicate 31 0 @ [77]",
        OF run saved ex_precompiles_ok ex_key_points lit _ mul] by auto
qed

theorem key_tools_agree_witness:
  "\<exists>fs1 fs2 bd pts. export_main ex_key_env \<lparr>key_files = (\<lambda>_. None), fixture_file = None, verifier_file = None\<rparr> = (fs1, Inr ())
     \<and> gen_main ex_key_env fs1 = (fs2, Inr ()) \<and> verifier_file fs2 = Some (constants_of hex_string ex_vk)
     \<and> fixture_file fs2 = Some (fixture_json (fixture_of hex_string bd pts))
     \<and> fx_weight0 (fixture_of hex_string bd pts) = ''45000000000000''"
proof -
  let ?fs = "\<lparr>key_files = (\<lambda>_. None), fixture_file = None, verifier_file = None\<rparr>"
  have small: "\<not> length [sample_row (replicate 32 1)] > MAX_WORKS" by (simp add: MAX_WORKS_def)
  obtain fs1 where run: "export_main ex_key_env ?fs = (fs1, Inr ())" and saved: "key_files fs1 VK_PATH = Some [3]"
    unfolding export_main_def Let_def prove_def if_not_P [OF small]
    by (simp add: devnet_setup_def job_bind_def job_lift_def save_pk_def save_vk_def save_key_def verify_def
        write_fixture_def ex_key_env_def)
  obtain fs2 where gen: "gen_main ex_key_env fs1 = (fs2, Inr ())"
    using gen_main_Inr [of ex_key_env fs1 _ "()"] saved by (auto simp: ex_key_env_def ex_vk_def)
  have "ke_setup ex_key_env (empty_circuit (ke_modulus ex_key_env) (ke_poseidon ex_key_env)) = Some ((), ex_vk)"
    "Option.bind (ke_vk_bytes ex_key_env ex_vk) (ke_vk_of ex_key_env) = Some ex_vk"
    "odd (ke_modulus ex_key_env)" "255 < ke_modulus ex_key_env" "ke_hex_encode ex_key_env = hex_string"
    by (simp_all add: ex_key_env_def bn254_modulus_def)
  with key_tools_agree [OF _ _ run gen, of "()" ex_vk] run gen show ?thesis by metis
qed

end
