(* ===== verification/Acoustic.thy ===== *)
theory Acoustic
  imports Fingerprint Hub
begin

text \<open>
  How \<open>libs/fingerprint\<close> computes a fingerprint from samples: resampling, frames, the energies of 33
  logarithmic bands, and one bit per band and frame. The floating-point operations, and the squared
  magnitudes of the Fourier transform of a frame (crate \<open>rustfft\<close>), are the fields of \<open>float_ops\<close>:
  every operation the code applies is applied in the code's order, whatever its rounding. The types
  \<open>'f\<close> and \<open>'d\<close> stand for \<open>f32\<close> and \<open>f64\<close>.
\<close>

section \<open>Floating-point operations\<close>

record ('f, 'd) float_ops =
  f32_add :: "'f \<Rightarrow> 'f \<Rightarrow> 'f"
  f32_sub :: "'f \<Rightarrow> 'f \<Rightarrow> 'f"
  f32_mul :: "'f \<Rightarrow> 'f \<Rightarrow> 'f"
  f32_div :: "'f \<Rightarrow> 'f \<Rightarrow> 'f"
  f32_powf :: "'f \<Rightarrow> 'f \<Rightarrow> 'f"
  f32_positive :: "'f \<Rightarrow> bool"
  f32_of_nat :: "nat \<Rightarrow> 'f"
  f32_to_usize :: "'f \<Rightarrow> nat"
  f32_of_f64 :: "'d \<Rightarrow> 'f"
  f64_sub :: "'d \<Rightarrow> 'd \<Rightarrow> 'd"
  f64_mul :: "'d \<Rightarrow> 'd \<Rightarrow> 'd"
  f64_div :: "'d \<Rightarrow> 'd \<Rightarrow> 'd"
  f64_of_nat :: "nat \<Rightarrow> 'd"
  f64_to_usize :: "'d \<Rightarrow> nat"
  fft_norms :: "'f list \<Rightarrow> 'f list"

definition CANONICAL_SR :: u32 where "CANONICAL_SR = 11025"
definition FRAME :: nat where "FRAME = 2048"
definition HOP :: nat where "HOP = FRAME div 2"
definition BANDS :: nat where "BANDS = BITS_PER_FRAME + 1"
definition F_LO :: nat where "F_LO = 300"
definition F_HI :: nat where "F_HI = 2000"

section \<open>The computation\<close>

text \<open>An index out of range panics, which is \<open>None\<close>.\<close>

definition index_opt :: "'a list \<Rightarrow> nat \<Rightarrow> 'a option" where
  "index_opt xs i = (if i < length xs then Some (xs ! i) else None)"

fun opt_map :: "('a \<Rightarrow> 'b option) \<Rightarrow> 'a list \<Rightarrow> 'b list option" where
  "opt_map f [] = Some []"
| "opt_map f (x # xs) = Option.bind (f x) (\<lambda>y. Option.bind (opt_map f xs) (\<lambda>ys. Some (y # ys)))"

definition interpolate :: "('f, 'd) float_ops \<Rightarrow> 'f list \<Rightarrow> 'd \<Rightarrow> nat \<Rightarrow> 'f option" where
  "interpolate ops samples ratio i =
     (let src = f64_mul ops (f64_of_nat ops i) ratio;
          idx = f64_to_usize ops src;
          frac = f32_of_f64 ops (f64_sub ops src (f64_of_nat ops idx))
      in Option.bind (index_opt samples idx) (\<lambda>a.
         let b = or_default a (index_opt samples (idx + 1)) in
         Some (f32_add ops a (f32_mul ops (f32_sub ops b a) frac))))"

definition resample :: "('f, 'd) float_ops \<Rightarrow> 'f list \<Rightarrow> u32 \<Rightarrow> u32 \<Rightarrow> 'f list option" where
  "resample ops samples rate_from rate_to =
     (if rate_from = 0 \<or> rate_from = rate_to \<or> samples = [] then Some samples
      else
        let ratio = f64_div ops (f64_of_nat ops (unat rate_from)) (f64_of_nat ops (unat rate_to));
            out_len = f64_to_usize ops (f64_div ops (f64_of_nat ops (length samples)) ratio)
        in opt_map (interpolate ops samples ratio) [0..<out_len])"

definition freq_bin :: "('f, 'd) float_ops \<Rightarrow> 'f \<Rightarrow> nat" where
  "freq_bin ops hz =
     f32_to_usize ops (f32_mul ops (f32_div ops hz (f32_of_nat ops (unat CANONICAL_SR))) (f32_of_nat ops FRAME))"

definition band_edge :: "('f, 'd) float_ops \<Rightarrow> nat \<Rightarrow> 'f" where
  "band_edge ops b =
     f32_mul ops (f32_of_nat ops F_LO)
       (f32_powf ops (f32_div ops (f32_of_nat ops F_HI) (f32_of_nat ops F_LO))
         (f32_div ops (f32_of_nat ops b) (f32_of_nat ops BANDS)))"

definition band_range :: "('f, 'd) float_ops \<Rightarrow> nat \<Rightarrow> nat \<times> nat" where
  "band_range ops b =
     (let lo = band_edge ops b; hi = band_edge ops (b + 1);
          a = freq_bin ops lo; c = max (freq_bin ops hi) (freq_bin ops lo + 1);
          c = min c (FRAME div 2); a = min a (c - 1)
      in (a, c))"

definition band_ranges :: "('f, 'd) float_ops \<Rightarrow> (nat \<times> nat) list" where
  "band_ranges ops = map (band_range ops) [0..<BANDS]"

definition frame_energy :: "('f, 'd) float_ops \<Rightarrow> 'f list \<Rightarrow> 'f list" where
  "frame_energy ops frame =
     (let buf = fft_norms ops frame in
      map (\<lambda>(lo, hi). foldl (f32_add ops) (f32_of_nat ops 0) (drop lo (take hi buf))) (band_ranges ops))"

function energies_from :: "('f, 'd) float_ops \<Rightarrow> 'f list \<Rightarrow> nat \<Rightarrow> 'f list list" where
  "energies_from ops audio pos =
     (if pos + FRAME \<le> length audio
      then frame_energy ops (take FRAME (drop pos audio)) # energies_from ops audio (pos + HOP)
      else [])"
  by pat_completeness auto
termination
  by (relation "measure (\<lambda>(ops, audio, pos). length audio - pos)") (auto simp: FRAME_def HOP_def)

declare energies_from.simps [simp del]

definition frame_at :: "('f, 'd) float_ops \<Rightarrow> 'f list list \<Rightarrow> nat \<Rightarrow> 'f list" where
  "frame_at ops energies f =
     (if f < length energies then energies ! f
      else if energies \<noteq> [] then last energies
      else replicate BANDS (f32_of_nat ops 0))"

definition frame_bits :: "('f, 'd) float_ops \<Rightarrow> 'f list \<Rightarrow> 'f list \<Rightarrow> u32" where
  "frame_bits ops cur prev =
     foldl (\<lambda>bits m.
         let d = f32_sub ops (f32_sub ops (cur ! m) (cur ! (m + 1))) (f32_sub ops (prev ! m) (prev ! (m + 1)))
         in if f32_positive ops d then or bits (push_bit m 1) else bits)
       0 [0..<BITS_PER_FRAME]"

definition compute :: "('f, 'd) float_ops \<Rightarrow> 'f list \<Rightarrow> u32 \<Rightarrow> fingerprint option" where
  "compute ops samples sample_rate =
     Option.bind (resample ops samples sample_rate CANONICAL_SR) (\<lambda>audio.
       let energies = energies_from ops audio 0 in
       Some (Fingerprint (map (\<lambda>f. frame_bits ops (frame_at ops energies (f + 1)) (frame_at ops energies f)) [0..<FRAMES])))"

section \<open>The bands and the frames\<close>

text \<open>Whatever the rounding of the logarithmic edges, a band has at least one bin below the half frame.\<close>

lemma band_range_bounds:
  assumes "band_range ops b = (a, c)"
  shows "a < c \<and> c \<le> 1024"
proof -
  have "min l (min (max h (l + 1)) 1024 - 1) < min (max h (l + 1)) 1024" for l h :: nat by arith
  with assms show ?thesis by (auto simp: band_range_def Let_def FRAME_def)
qed

lemma length_energies:
  "length (energies_from ops audio pos)
     = (if pos + FRAME \<le> length audio then (length audio - pos - FRAME) div HOP + 1 else 0)"
proof (induction ops audio pos rule: energies_from.induct)
  case (1 ops audio pos)
  show ?case
  proof (cases "pos + FRAME \<le> length audio")
    case True
    have "length (energies_from ops audio (pos + HOP))
        = (if pos + HOP + FRAME \<le> length audio then (length audio - (pos + HOP) - FRAME) div HOP + 1 else 0)"
      by (rule 1) (rule True)
    moreover have "(length audio - pos - FRAME) div HOP
        = (if pos + HOP + FRAME \<le> length audio then (length audio - (pos + HOP) - FRAME) div HOP + 1 else 0)"
    proof (cases "pos + HOP + FRAME \<le> length audio")
      case True
      then have "length audio - pos - FRAME = (length audio - (pos + HOP) - FRAME) + HOP" by simp
      moreover have "0 < HOP" by (simp add: HOP_def FRAME_def)
      ultimately have "(length audio - pos - FRAME) div HOP = (length audio - (pos + HOP) - FRAME) div HOP + 1"
        by (simp only: div_add_self2)
      with True show ?thesis by simp
    next
      case False
      then have "length audio - pos - FRAME < HOP" using True by simp
      then show ?thesis using False by simp
    qed
    ultimately show ?thesis using True by (simp add: energies_from.simps [of ops audio pos])
  qed (simp add: energies_from.simps)
qed

lemma length_energy: "length (frame_energy ops frame) = BANDS"
  by (simp add: frame_energy_def Let_def band_ranges_def)

lemma energies_bands: "e \<in> set (energies_from ops audio pos) \<Longrightarrow> length e = BANDS"
  by (induction ops audio pos rule: energies_from.induct)
    (subst (asm) (2) energies_from.simps, auto simp: length_energy split: if_splits)

section \<open>The bits\<close>

text \<open>A difference of a number with itself is not positive: it is zero, or not a number.\<close>

definition float_laws :: "('f, 'd) float_ops \<Rightarrow> bool" where
  "float_laws ops \<longleftrightarrow> (\<forall>x. \<not> f32_positive ops (f32_sub ops x x))"

lemma still_frame: "float_laws ops \<Longrightarrow> frame_bits ops e e = 0"
proof -
  assume l: "float_laws ops"
  have "foldl (\<lambda>bits m.
         let d = f32_sub ops (f32_sub ops (e ! m) (e ! (m + 1))) (f32_sub ops (e ! m) (e ! (m + 1)))
         in if f32_positive ops d then or bits (push_bit m 1) else bits) (0 :: u32) ms = 0" for ms
    by (induction ms) (use l in \<open>simp_all add: float_laws_def\<close>)
  then show ?thesis by (simp add: frame_bits_def)
qed

lemma frame_at_end: "length es \<le> f + 1 \<Longrightarrow> frame_at ops es (f + 1) = frame_at ops es f"
  by (cases "f < length es") (auto simp: frame_at_def last_conv_nth not_less_eq_eq Suc_le_eq intro!: arg_cong [of _ _ "(!) es"])

lemma compute_Some:
  "compute ops samples rate = Some fp \<longleftrightarrow> (\<exists>audio. resample ops samples rate CANONICAL_SR = Some audio
     \<and> sub fp = map (\<lambda>f. frame_bits ops (frame_at ops (energies_from ops audio 0) (f + 1))
         (frame_at ops (energies_from ops audio 0) f)) [0..<FRAMES])"
  by (cases fp) (auto simp: compute_def Let_def bind_eq_Some_conv)

lemma compute_tail:
  assumes "compute ops samples rate = Some fp" and "resample ops samples rate CANONICAL_SR = Some audio"
    and "float_laws ops" and "length audio < FRAME + n * HOP" and "n \<le> f + 1" and "f < FRAMES"
  shows "sub fp ! f = 0"
proof -
  let ?es = "energies_from ops audio 0"
  have "length ?es \<le> n"
  proof (cases "FRAME \<le> length audio")
    case True
    then have "(length audio - FRAME) div HOP < n" using assms(4) by (simp add: div_less_iff_less_mult HOP_def FRAME_def)
    with True show ?thesis by (simp add: length_energies)
  qed (simp add: length_energies)
  then have "frame_at ops ?es (f + 1) = frame_at ops ?es f" using assms(5) by (intro frame_at_end) simp
  moreover have "sub fp ! f = frame_bits ops (frame_at ops ?es (f + 1)) (frame_at ops ?es f)"
    using assms(1,2,6) by (auto simp: compute_Some)
  ultimately show ?thesis using still_frame [OF assms(3)] by simp
qed

lemma differing_prefix:
  assumes "\<And>i. \<lbrakk>n \<le> i; i < FRAMES\<rbrakk> \<Longrightarrow> sub a ! i = sub b ! i" and "n \<le> FRAMES"
  shows "unat (differing a b) \<le> 32 * n"
proof -
  have "(\<Sum>i<FRAMES. unat (count_ones ((sub a ! i) XOR (sub b ! i)))) \<le> (\<Sum>i<FRAMES. if i < n then 32 else 0)"
    by (rule sum_mono) (use count_ones_le assms(1) count_ones_eq_0 in \<open>auto simp: not_less\<close>)
  also have "\<dots> = (\<Sum>i<n. 32)"
    by (rule sum.mono_neutral_cong_right) (use assms(2) in auto)
  finally show ?thesis by (simp add: differing_unat)
qed

section \<open>Properties\<close>

text \<open>A computed fingerprint has 32 words for every input, and its text parses back to it; each word
  after the last full frame of the audio is zero.\<close>

theorem computed_fingerprint_ok:
  assumes "compute ops samples rate = Some fp" and "sized_hex_codec hex_encode hex_decode"
  shows "fp_ok fp \<and> fp_parse hex_decode (fp_to_string hex_encode fp) = Inr fp"
proof -
  have "fp_ok fp" using assms(1) by (auto simp: compute_Some fp_ok_def)
  then show ?thesis using sized_hex_codec.parse_to_string [OF assms(2)] by simp
qed

text \<open>C33: Short clips always match. Any two clips with fewer than 7168 samples at the canonical rate,
  which is 0.65 seconds, have a similarity of at least 0.875, whatever they contain: the frames past
  the end repeat the last one and give zero bits in both. The hub's default threshold is 0.85, so it
  takes any such clip for any other.\<close>

theorem short_clips_match:
  assumes "compute ops samples rate = Some a" and "compute ops samples' rate' = Some b" and "float_laws ops"
    and "resample ops samples rate CANONICAL_SR = Some audio" and "length audio < 7168"
    and "resample ops samples' rate' CANONICAL_SR = Some audio'" and "length audio' < 7168"
  shows "compare_fp a b \<ge> 7 / 8 \<and> compare_fp a b > FP_MATCH_THRESHOLD"
proof -
  have short: "length audio < FRAME + 5 * HOP" "length audio' < FRAME + 5 * HOP"
    using assms(5,7) by (simp_all add: FRAME_def HOP_def)
  have "unat (differing a b) \<le> 32 * 4"
  proof (rule differing_prefix)
    fix i assume "4 \<le> i" "i < FRAMES"
    with compute_tail [OF assms(1,4,3) short(1), of i] compute_tail [OF assms(2,6,3) short(2), of i]
    show "sub a ! i = sub b ! i" by simp
  qed (simp add: FRAMES_def)
  then have d: "unat (differing a b) \<le> 128" by simp
  have "1 - (of_nat n :: rat) / 1024 \<ge> 7 / 8" if "n \<le> 128" for n
    using of_nat_mono [OF that, where 'a = rat] by (simp add: field_simps)
  from this [OF d] have "compare_fp a b \<ge> 7 / 8" by (simp add: compare_fp_def FRAMES_def BITS_PER_FRAME_def)
  then show ?thesis by (simp add: FP_MATCH_THRESHOLD_def)
qed

text \<open>Exact rational arithmetic, with the squares of the samples in place of a spectrum.\<close>

definition ex_float_ops :: "(rat, rat) float_ops" where
  "ex_float_ops = \<lparr>f32_add = (+), f32_sub = (-), f32_mul = (*), f32_div = (/), f32_powf = (\<lambda>x y. x),
     f32_positive = (\<lambda>x. 0 < x), f32_of_nat = of_nat, f32_to_usize = (\<lambda>x. nat \<lfloor>x\<rfloor>), f32_of_f64 = id,
     f64_sub = (-), f64_mul = (*), f64_div = (/), f64_of_nat = of_nat, f64_to_usize = (\<lambda>x. nat \<lfloor>x\<rfloor>),
     fft_norms = map (\<lambda>x. x * x)\<rparr>"

lemma ex_float_laws: "float_laws ex_float_ops"
  by (simp add: float_laws_def ex_float_ops_def)

lemma ex_compute: "\<exists>fp. compute ex_float_ops samples 11025 = Some fp"
  by (simp add: compute_def resample_def CANONICAL_SR_def Let_def)

theorem computed_fingerprint_ok_witness:
  "\<exists>fp. compute ex_float_ops (replicate 5000 (1 / 2)) 11025 = Some fp \<and> fp_parse decode_hex (fp_to_string hex_string fp) = Inr fp"
  using computed_fingerprint_ok [OF _ sized_hex.sized_hex_codec_axioms] ex_compute by blast

theorem short_clips_match_witness:
  "\<exists>a b. compute ex_float_ops (replicate 3000 (1 / 2)) 11025 = Some a
     \<and> compute ex_float_ops (map of_nat [0..<7000]) 11025 = Some b \<and> compare_fp a b > FP_MATCH_THRESHOLD"
proof -
  have same: "resample ex_float_ops xs 11025 CANONICAL_SR = Some xs" for xs
    by (simp add: resample_def CANONICAL_SR_def)
  obtain a b where "compute ex_float_ops (replicate 3000 (1 / 2)) 11025 = Some a"
      "compute ex_float_ops (map of_nat [0..<7000]) 11025 = Some b" using ex_compute by blast
  with short_clips_match [OF this ex_float_laws same _ same] show ?thesis by simp
qed

end
