(* ===== verification/HubApi.thy ===== *)
theory HubApi
  imports Hub "HOL-Library.AList"
begin

text \<open>
  The routes of the Discovery Hub and its OpenAPI document (\<open>services/discovery-hub/src/api.rs\<close>): the
  router as a table, the dispatch of a typed request to its handler of the theory \<open>Hub\<close>, and the
  hand-written \<open>paths\<close> object as a JSON value. The schemas \<open>utoipa\<close> derives and the pretty-printer of
  \<open>serde_json\<close> are parameters; the answers axum gives itself, to a body or a query that does not
  deserialize or to an unknown path, are not modelled.
\<close>

section \<open>Requests\<close>

datatype hub_request =
  PostManifest manifest string
| GetContent string
| GetFingerprint string "rat option"
| GetSearch "string option" "work_type option" "u64 option"
| GetTrending "work_type option"
| GetManifest string
| GetCreator string
| GetHealthz
| GetOpenapi

text \<open>The router, as pairs of a path template and a method.\<close>

definition router_generic :: "(string \<times> string) list" where
  "router_generic =
     [(''/manifests'', ''post''), (''/resolve/content/{content_id}'', ''get''),
      (''/resolve/fingerprint/{fp}'', ''get''), (''/search'', ''get''), (''/trending'', ''get''),
      (''/manifest/{work_id}'', ''get''), (''/creator/{address}'', ''get''), (''/healthz'', ''get''),
      (''/openapi.json'', ''get'')]"

definition route_of :: "hub_request \<Rightarrow> string \<times> string" where
  "route_of req = router_generic !
     (case req of PostManifest _ _ \<Rightarrow> 0 | GetContent _ \<Rightarrow> 1 | GetFingerprint _ _ \<Rightarrow> 2 | GetSearch _ _ _ \<Rightarrow> 3
      | GetTrending _ \<Rightarrow> 4 | GetManifest _ \<Rightarrow> 5 | GetCreator _ \<Rightarrow> 6 | GetHealthz \<Rightarrow> 7 | GetOpenapi \<Rightarrow> 8)"

fun status_of :: "'a response \<Rightarrow> nat" where
  "status_of (Reply status _) = status"
| "status_of (Fail status _) = status"

text \<open>The state after a request and the status of its answer.\<close>

definition hub_dispatch ::
    "('sig, 'f) hub_env \<Rightarrow> registry_view \<Rightarrow> ('f \<Rightarrow> 'f write_outcome) \<Rightarrow> (string \<Rightarrow> address option) \<Rightarrow> u64
     \<Rightarrow> hub_request \<Rightarrow> 'f hub_state \<Rightarrow> 'f hub_state \<times> nat" where
  "hub_dispatch env lookup write_to parse_address now req st =
     (case req of
        PostManifest m signature \<Rightarrow>
          (case hub_ingest env lookup write_to now m signature st of (st', resp) \<Rightarrow> (st', status_of resp))
      | GetContent text \<Rightarrow> (st, status_of (resolve_content_handler env (hb_index st) text))
      | GetFingerprint text threshold \<Rightarrow> (st, status_of (resolve_fingerprint_handler env (hb_index st) text threshold))
      | GetSearch q wt page \<Rightarrow> (st, status_of (search_handler (hb_index st) q wt page))
      | GetTrending wt \<Rightarrow> (st, status_of (trending_handler (hb_index st) now wt))
      | GetManifest text \<Rightarrow> (st, status_of (manifest_handler env (hb_index st) text))
      | GetCreator text \<Rightarrow> (st, status_of (creator_handler parse_address (hb_index st) text))
      | GetHealthz \<Rightarrow> (st, status_of (healthz (hb_index st)))
      | GetOpenapi \<Rightarrow> (st, 200))"

section \<open>The document\<close>

datatype json_value =
  JStr string | JNum nat | JBool bool | JArr "json_value list" | JObj "(string \<times> json_value) list"

definition work_type_schema :: json_value where
  "work_type_schema =
     JObj [(''type'', JStr ''string''), (''enum'', JArr [JStr ''audio'', JStr ''video'', JStr ''text''])]"

definition paths_json :: json_value where
  "paths_json = JObj [
      (''/manifests'', JObj [
        (''post'', JObj [
          (''summary'', JStr ''Ingest a signed work manifest''),
          (''operationId'', JStr ''ingestManifest''),
          (''requestBody'', JObj [
            (''required'', JBool True),
            (''content'', JObj [
              (''application/json'', JObj [(''schema'', JObj [(''$ref'', JStr ''#/components/schemas/IngestBody'')])])])]),
          (''responses'', JObj [
            (''201'', JObj [
              (''description'', JStr ''Manifest indexed''),
              (''content'', JObj [
                (''application/json'', JObj [
                  (''schema'', JObj [
                    (''type'', JStr ''object''),
                    (''properties'', JObj [(''work_id'', JObj [(''type'', JStr ''string'')])])])])])]),
            (''400'', JObj [(''description'', JStr ''Invalid signature, failed chain validation, or malformed fingerprint'')]),
            (''409'', JObj [(''description'', JStr ''Fingerprint or content id already claimed by another work'')])])])]),
      (''/resolve/content/{content_id}'', JObj [
        (''get'', JObj [
          (''summary'', JStr ''Tier 1: resolve a content id to its signed-exact owner''),
          (''operationId'', JStr ''resolveContent''),
          (''parameters'', JArr [JObj [
              (''name'', JStr ''content_id''),
              (''in'', JStr ''path''),
              (''required'', JBool True),
              (''schema'', JObj [(''type'', JStr ''string'')])]]),
          (''responses'', JObj [
            (''200'', JObj [
              (''description'', JStr ''Resolved''),
              (''content'', JObj [(''application/json'', JObj [(''schema'', JObj [(''$ref'', JStr ''#/components/schemas/Resolved'')])])])]),
            (''400'', JObj [(''description'', JStr ''Malformed content id'')]),
            (''404'', JObj [(''description'', JStr ''Content id not found'')])])])]),
      (''/resolve/fingerprint/{fp}'', JObj [
        (''get'', JObj [
          (''summary'', JStr ''Tier 2: nearest registered fingerprint above a similarity threshold''),
          (''operationId'', JStr ''resolveFingerprint''),
          (''parameters'', JArr [JObj [
              (''name'', JStr ''fp''),
              (''in'', JStr ''path''),
              (''required'', JBool True),
              (''schema'', JObj [(''type'', JStr ''string'')])], JObj [
              (''name'', JStr ''threshold''),
              (''in'', JStr ''query''),
              (''schema'', JObj [(''type'', JStr ''number'')])]]),
          (''responses'', JObj [
            (''200'', JObj [
              (''description'', JStr ''Best-matching candidate and its similarity''),
              (''content'', JObj [
                (''application/json'', JObj [
                  (''schema'', JObj [
                    (''type'', JStr ''object''),
                    (''properties'', JObj [
                      (''candidate'', JObj [(''$ref'', JStr ''#/components/schemas/Summary'')]),
                      (''similarity'', JObj [(''type'', JStr ''number'')])])])])])]),
            (''400'', JObj [(''description'', JStr ''Malformed fingerprint'')]),
            (''404'', JObj [(''description'', JStr ''No match above threshold'')])])])]),
      (''/search'', JObj [
        (''get'', JObj [
          (''summary'', JStr ''Ranked text search over indexed works''),
          (''operationId'', JStr ''searchWorks''),
          (''parameters'', JArr [JObj [(''name'', JStr ''q''), (''in'', JStr ''query''), (''schema'', JObj [(''type'', JStr ''string'')])], JObj [(''name'', JStr ''type''), (''in'', JStr ''query''), (''schema'', work_type_schema)], JObj [
              (''name'', JStr ''page''),
              (''in'', JStr ''query''),
              (''schema'', JObj [(''type'', JStr ''integer''), (''minimum'', JNum 1)])]]),
          (''responses'', JObj [
            (''200'', JObj [
              (''description'', JStr ''Search results''),
              (''content'', JObj [
                (''application/json'', JObj [
                  (''schema'', JObj [
                    (''type'', JStr ''object''),
                    (''properties'', JObj [
                      (''results'', JObj [(''type'', JStr ''array''), (''items'', JObj [(''$ref'', JStr ''#/components/schemas/Summary'')])]),
                      (''page'', JObj [(''type'', JStr ''integer'')]),
                      (''total'', JObj [(''type'', JStr ''integer'')])])])])])])])])]),
      (''/trending'', JObj [
        (''get'', JObj [
          (''summary'', JStr ''Recency-ranked list of works''),
          (''operationId'', JStr ''trendingWorks''),
          (''parameters'', JArr [JObj [(''name'', JStr ''type''), (''in'', JStr ''query''), (''schema'', work_type_schema)]]),
          (''responses'', JObj [
            (''200'', JObj [
              (''description'', JStr ''Trending results''),
              (''content'', JObj [
                (''application/json'', JObj [
                  (''schema'', JObj [
                    (''type'', JStr ''object''),
                    (''properties'', JObj [
                      (''results'', JObj [(''type'', JStr ''array''), (''items'', JObj [(''$ref'', JStr ''#/components/schemas/Summary'')])])])])])])])])])]),
      (''/manifest/{work_id}'', JObj [
        (''get'', JObj [
          (''summary'', JStr ''Fetch a work's full manifest''),
          (''operationId'', JStr ''getManifest''),
          (''parameters'', JArr [JObj [
              (''name'', JStr ''work_id''),
              (''in'', JStr ''path''),
              (''required'', JBool True),
              (''schema'', JObj [(''type'', JStr ''string'')])]]),
          (''responses'', JObj [
            (''200'', JObj [
              (''description'', JStr ''Manifest''),
              (''content'', JObj [
                (''application/json'', JObj [(''schema'', JObj [(''$ref'', JStr ''#/components/schemas/WorkManifest'')])])])]),
            (''400'', JObj [(''description'', JStr ''Malformed work id'')]),
            (''404'', JObj [(''description'', JStr ''Work not found'')])])])]),
      (''/creator/{address}'', JObj [
        (''get'', JObj [
          (''summary'', JStr ''A creator's works and their count''),
          (''operationId'', JStr ''getCreatorWorks''),
          (''parameters'', JArr [JObj [
              (''name'', JStr ''address''),
              (''in'', JStr ''path''),
              (''required'', JBool True),
              (''schema'', JObj [(''type'', JStr ''string'')])]]),
          (''responses'', JObj [
            (''200'', JObj [
              (''description'', JStr ''Creator works''),
              (''content'', JObj [
                (''application/json'', JObj [
                  (''schema'', JObj [
                    (''type'', JStr ''object''),
                    (''properties'', JObj [
                      (''creator_id'', JObj [(''type'', JStr ''string'')]),
                      (''works'', JObj [(''type'', JStr ''array''), (''items'', JObj [(''$ref'', JStr ''#/components/schemas/Summary'')])]),
                      (''count'', JObj [(''type'', JStr ''integer'')])])])])])]),
            (''400'', JObj [(''description'', JStr ''Malformed address'')])])])]),
      (''/healthz'', JObj [
        (''get'', JObj [
          (''summary'', JStr ''Liveness probe''),
          (''operationId'', JStr ''healthz''),
          (''responses'', JObj [
            (''200'', JObj [
              (''description'', JStr ''OK''),
              (''content'', JObj [
                (''application/json'', JObj [
                  (''schema'', JObj [
                    (''type'', JStr ''object''),
                    (''properties'', JObj [(''status'', JObj [(''type'', JStr ''string'')]), (''indexed'', JObj [(''type'', JStr ''integer'')])])])])])])])])])]"

text \<open>\<open>Index\<close> and \<open>IndexMut\<close> of a JSON value; writing into anything but an object panics.\<close>

fun json_get :: "json_value \<Rightarrow> string \<Rightarrow> json_value option" where
  "json_get (JObj kvs) key = map_of kvs key"
| "json_get _ key = None"

fun json_put :: "string \<Rightarrow> json_value \<Rightarrow> json_value \<Rightarrow> json_value option" where
  "json_put key v (JObj kvs) = Some (JObj (AList.update key v kvs))"
| "json_put key v _ = None"

definition openapi_json :: "json_value \<Rightarrow> string \<Rightarrow> json_value option" where
  "openapi_json generated version =
     Option.bind (json_put ''title'' (JStr ''Discovery Hub API'') (or_default (JObj []) (json_get generated ''info''))) (\<lambda>info.
     Option.bind (json_put ''version'' (JStr version) info) (\<lambda>info.
     Option.bind (json_put ''info'' info generated) (\<lambda>doc.
     json_put ''paths'' paths_json doc)))"

section \<open>What the document says\<close>

definition documented_routes :: "(string \<times> string) list" where
  "documented_routes =
     (case paths_json of JObj paths \<Rightarrow>
        concat (map (\<lambda>(path, item). case item of JObj ops \<Rightarrow> map (\<lambda>(verb, _). (path, verb)) ops | _ \<Rightarrow> []) paths) | _ \<Rightarrow> [])"

definition operation :: "string \<times> string \<Rightarrow> json_value option" where
  "operation route = Option.bind (json_get paths_json (fst route)) (\<lambda>item. json_get item (snd route))"

definition documented_statuses :: "string \<times> string \<Rightarrow> string list" where
  "documented_statuses route =
     (case Option.bind (operation route) (\<lambda>op. json_get op ''responses'') of Some (JObj rs) \<Rightarrow> map fst rs | _ \<Rightarrow> [])"

text \<open>The names of the required path parameters an operation declares, and those of its template.\<close>

definition path_parameters :: "string \<times> string \<Rightarrow> string list" where
  "path_parameters route =
     (case Option.bind (operation route) (\<lambda>op. json_get op ''parameters'') of
        Some (JArr ps) \<Rightarrow> concat (map (\<lambda>p. case (json_get p ''name'', json_get p ''in'', json_get p ''required'') of
            (Some (JStr name), Some (JStr place), Some (JBool True)) \<Rightarrow> (if place = ''path'' then [name] else [])
          | _ \<Rightarrow> []) ps)
      | _ \<Rightarrow> [])"

definition template_parameters :: "string \<Rightarrow> string list" where
  "template_parameters path =
     concat (map (\<lambda>seg. if seg \<noteq> [] \<and> hd seg = CHR ''{'' then [butlast (tl seg)] else []) (split_on (\<lambda>c. c = CHR ''/'') path))"

fun schema_refs :: "json_value \<Rightarrow> string list" where
  "schema_refs (JObj kvs) = concat (map (\<lambda>(key, v). case (key = ''$ref'', v) of (True, JStr r) \<Rightarrow> [r] | _ \<Rightarrow> schema_refs v) kvs)"
| "schema_refs (JArr vs) = concat (map schema_refs vs)"
| "schema_refs _ = []"

text \<open>The schemas the document's components list.\<close>

definition component_refs :: "string list" where
  "component_refs = map (\<lambda>name. ''#/components/schemas/'' @ name)
     [''WorkManifest'', ''WorkType'', ''Summary'', ''Resolved'', ''IngestBody'']"

section \<open>Properties\<close>

lemma documented:
  "documented_statuses (''/manifests'', ''post'') = [''201'', ''400'', ''409'']"
  "documented_statuses (''/resolve/content/{content_id}'', ''get'') = [''200'', ''400'', ''404'']"
  "documented_statuses (''/resolve/fingerprint/{fp}'', ''get'') = [''200'', ''400'', ''404'']"
  "documented_statuses (''/search'', ''get'') = [''200'']" "documented_statuses (''/trending'', ''get'') = [''200'']"
  "documented_statuses (''/manifest/{work_id}'', ''get'') = [''200'', ''400'', ''404'']"
  "documented_statuses (''/creator/{address}'', ''get'') = [''200'', ''400'']"
  "documented_statuses (''/healthz'', ''get'') = [''200'']"
  by code_simp+

lemma status_texts:
  "digits_of 200 [] = ''200''" "digits_of 201 [] = ''201''" "digits_of 400 [] = ''400''" "digits_of 404 [] = ''404''"
  "digits_of 409 [] = ''409''"
  by code_simp+

lemma ingest_status: "status_of (snd (hub_ingest env lookup write_to now m signature st)) \<in> {201, 400, 409, 500}"
proof -
  obtain st' resp where eq: "hub_ingest env lookup write_to now m signature st = (st', resp)" by fastforce
  show ?thesis by (cases rule: hub_ingest_cases [OF eq]) (auto simp: eq)
qed

text \<open>The document describes the service. Every route of the document is a route of the router with
  the same method; its required path parameters are those of its template; every schema it refers to
  is among the components; and every status a handler answers is documented for its route, except
  that a post can also fail with 500, and the document leaves out its own route.\<close>

theorem openapi_describes_router:
  "set documented_routes = set router_generic - {(''/openapi.json'', ''get'')}
   \<and> list_all (\<lambda>r. path_parameters r = template_parameters (fst r)) documented_routes
   \<and> set (schema_refs paths_json) \<subseteq> set component_refs
   \<and> (case hub_dispatch env lookup write_to parse_address now req st of (st', status) \<Rightarrow>
        if route_of req = (''/openapi.json'', ''get'') then status = 200
        else digits_of status [] \<in> set (documented_statuses (route_of req))
          \<or> (route_of req = (''/manifests'', ''post'') \<and> status = 500))"
proof (intro conjI)
  show "set documented_routes = set router_generic - {(''/openapi.json'', ''get'')}" by code_simp
  show "list_all (\<lambda>r. path_parameters r = template_parameters (fst r)) documented_routes" by code_simp
  show "set (schema_refs paths_json) \<subseteq> set component_refs" by code_simp
  have route: "route_of (PostManifest m s) = (''/manifests'', ''post'')"
    "route_of (GetContent t) = (''/resolve/content/{content_id}'', ''get'')"
    "route_of (GetFingerprint t th) = (''/resolve/fingerprint/{fp}'', ''get'')" "route_of (GetSearch q w p) = (''/search'', ''get'')"
    "route_of (GetTrending w) = (''/trending'', ''get'')" "route_of (GetManifest t) = (''/manifest/{work_id}'', ''get'')"
    "route_of (GetCreator t) = (''/creator/{address}'', ''get'')" "route_of GetHealthz = (''/healthz'', ''get'')"
    "route_of GetOpenapi = (''/openapi.json'', ''get'')" for m s t th q w p
    by (simp_all add: route_of_def router_generic_def)
  show "case hub_dispatch env lookup write_to parse_address now req st of (st', status) \<Rightarrow>
        if route_of req = (''/openapi.json'', ''get'') then status = 200
        else digits_of status [] \<in> set (documented_statuses (route_of req))
          \<or> (route_of req = (''/manifests'', ''post'') \<and> status = 500)"
  proof (cases req)
    case (PostManifest m s)
    then show ?thesis using ingest_status [of env lookup write_to now m s st]
      by (auto simp: hub_dispatch_def route documented status_texts split: prod.split)
  qed (auto simp: hub_dispatch_def route documented status_texts resolve_content_handler_def resolve_fingerprint_handler_def
      search_handler_def trending_handler_def manifest_handler_def creator_handler_def healthz_def Let_def
      split: sum.split option.split prod.split)
qed

text \<open>Merging the paths into a generated document sets the title, the version and the paths, and keeps
  every other entry.\<close>

theorem openapi_json_merges:
  assumes "openapi_json generated version = Some doc"
  shows "json_get doc ''paths'' = Some paths_json
     \<and> Option.bind (json_get doc ''info'') (\<lambda>i. json_get i ''title'') = Some (JStr ''Discovery Hub API'')
     \<and> Option.bind (json_get doc ''info'') (\<lambda>i. json_get i ''version'') = Some (JStr version)
     \<and> (key = ''paths'' \<or> key = ''info'' \<or> json_get doc key = json_get generated key)"
proof -
  have put: "json_put k v j = Some j' \<Longrightarrow> json_get j' k' = (if k' = k then Some v else json_get j k')" for k v j j' k'
    by (cases j) (auto simp: update_conv')
  from assms obtain i1 i2 d1 where
    "json_put ''title'' (JStr ''Discovery Hub API'') (or_default (JObj []) (json_get generated ''info'')) = Some i1"
    "json_put ''version'' (JStr version) i1 = Some i2" "json_put ''info'' i2 generated = Some d1"
    "json_put ''paths'' paths_json d1 = Some doc"
    by (auto simp: openapi_json_def bind_eq_Some_conv)
  from put [OF this(1)] put [OF this(2)] put [OF this(3)] put [OF this(4)] show ?thesis by simp
qed

theorem openapi_json_merges_witness:
  "\<exists>doc. openapi_json (JObj [(''openapi'', JStr ''3.1.0''), (''info'', JObj [(''title'', JStr ''x'')])]) ''0.1.0'' = Some doc
     \<and> json_get doc ''openapi'' = Some (JStr ''3.1.0'')"
proof -
  obtain doc where "openapi_json (JObj [(''openapi'', JStr ''3.1.0''), (''info'', JObj [(''title'', JStr ''x'')])]) ''0.1.0'' = Some doc"
    by (simp add: openapi_json_def or_default_def)
  with openapi_json_merges [OF this, of "''openapi''"] show ?thesis by auto
qed

end
