(* ===== verification/Media.thy ===== *)
theory Media
  imports Player
begin

text \<open>
  The player's media files: decoding to mono samples (\<open>clients/player-plugin/src/decode.rs\<close>) and the
  generator of test files (\<open>bin/gen_wav.rs\<close>). What crate \<open>symphonia\<close> does with a container is a
  parameter: it names a default track and yields packets, each with the outcome of decoding it. The
  conversions of integer samples are the floating-point operations of \<open>sample_ops\<close>, in the code's
  order. The sine of the generator is a parameter.
\<close>

section \<open>Decoding\<close>

text \<open>A decoded buffer, by sample format, as its first channel and the others.\<close>

datatype 's audio_buffer =
  F32 "'s list" "'s list list"
| S16 "16 word list" "16 word list list"
| S32 "32 word list" "32 word list list"
| U8 "8 word list" "8 word list list"
| OtherFormat

record 's sample_ops =
  so_of_int :: "int \<Rightarrow> 's"
  so_sub :: "'s \<Rightarrow> 's \<Rightarrow> 's"
  so_div :: "'s \<Rightarrow> 's \<Rightarrow> 's"

datatype 's packet_outcome = Decoded "'s audio_buffer" | BadFrame | Fatal string

record 's container =
  default_track :: "(nat \<times> u32 option) option"
  make_decoder :: "string + unit"
  packets :: "(nat \<times> 's packet_outcome) list"

datatype decode_error = Io string | Decode string

definition append_channel0 :: "'s sample_ops \<Rightarrow> 's audio_buffer \<Rightarrow> 's list \<Rightarrow> 's list" where
  "append_channel0 ops buf out =
     (case buf of
        F32 ch _ \<Rightarrow> out @ ch
      | S16 ch _ \<Rightarrow> out @ map (\<lambda>s. so_div ops (so_of_int ops (sint s)) (so_of_int ops 32768)) ch
      | S32 ch _ \<Rightarrow> out @ map (\<lambda>s. so_div ops (so_of_int ops (sint s)) (so_of_int ops 2147483648)) ch
      | U8 ch _ \<Rightarrow> out @ map (\<lambda>s. so_div ops (so_sub ops (so_of_int ops (uint s)) (so_of_int ops 128)) (so_of_int ops 128)) ch
      | OtherFormat \<Rightarrow> out)"

fun decode_packets ::
    "'s sample_ops \<Rightarrow> nat \<Rightarrow> (nat \<times> 's packet_outcome) list \<Rightarrow> 's list \<Rightarrow> decode_error + 's list" where
  "decode_packets ops track_id [] samples = Inr samples"
| "decode_packets ops track_id ((pid, outcome) # rest) samples =
     (if pid \<noteq> track_id then decode_packets ops track_id rest samples
      else case outcome of
        Decoded buf \<Rightarrow> decode_packets ops track_id rest (append_channel0 ops buf samples)
      | BadFrame \<Rightarrow> decode_packets ops track_id rest samples
      | Fatal e \<Rightarrow> Inl (Decode e))"

text \<open>The container is probed from the bytes that were read, with the extension as a hint.\<close>

definition decode_media ::
    "'s sample_ops \<Rightarrow> (string \<Rightarrow> string + u8 list) \<Rightarrow> (string \<Rightarrow> string option)
     \<Rightarrow> (string option \<Rightarrow> u8 list \<Rightarrow> string + 's container) \<Rightarrow> string \<Rightarrow> decode_error + 's decoded_audio" where
  "decode_media ops read extension probe path =
     res_bind (map_err Io (read path)) (\<lambda>bytes.
     res_bind (map_err Decode (probe (extension path) bytes)) (\<lambda>format.
     res_bind (ok_or (Decode ''no audio track'') (default_track format)) (\<lambda>(track_id, rate).
     let sample_rate = or_default 0 rate in
     res_bind (map_err Decode (make_decoder format)) (\<lambda>_.
     res_bind (decode_packets ops track_id (packets format) []) (\<lambda>samples.
     if samples = [] then Inl (Decode ''no samples decoded'')
     else Inr \<lparr>da_bytes = bytes, da_samples = samples, da_sample_rate = sample_rate\<rparr>)))))"

section \<open>The test files\<close>

definition u16_to_le_bytes :: "16 word \<Rightarrow> u8 list" where
  "u16_to_le_bytes w = [ucast w, ucast (drop_bit 8 w)]"

definition u32_to_le_bytes :: "u32 \<Rightarrow> u8 list" where
  "u32_to_le_bytes w = rev (u32_to_be_bytes w)"

definition ascii :: "string \<Rightarrow> u8 list" where
  "ascii s = map of_char s"

text \<open>In a release build the products wrap; \<open>tone\<close> is the sample of a frequency at an index.\<close>

definition wav_bytes :: "(nat \<Rightarrow> 16 word) \<Rightarrow> u32 \<Rightarrow> u8 list" where
  "wav_bytes tone seconds =
     (let rate = (44100 :: u32); n = rate * seconds; data_len = n * 2 in
      ascii ''RIFF'' @ u32_to_le_bytes (36 + data_len) @ ascii ''WAVE'' @ ascii ''fmt '' @ u32_to_le_bytes 16
      @ u16_to_le_bytes 1 @ u16_to_le_bytes 1 @ u32_to_le_bytes rate @ u32_to_le_bytes (rate * 2)
      @ u16_to_le_bytes 2 @ u16_to_le_bytes 16 @ ascii ''data'' @ u32_to_le_bytes data_len
      @ concat (map (\<lambda>i. u16_to_le_bytes (tone i)) [0..<unat n]))"

definition parse_u32 :: "string \<Rightarrow> u32 option" where
  "parse_u32 s = Option.bind (parse_u128 s) (\<lambda>v. if uint v < 2 ^ 32 then Some (ucast v) else None)"

text \<open>The file that is written, and the exit status; the arguments include the program's name.\<close>

definition gen_wav_main ::
    "(string option \<Rightarrow> nat \<Rightarrow> 16 word) \<Rightarrow> (string \<Rightarrow> bool) \<Rightarrow> string list \<Rightarrow> (string \<times> u8 list) option \<times> bool" where
  "gen_wav_main tone writable args =
     (if length args < 3 then (None, False)
      else
        let out = args ! 1; seconds = or_default 0 (parse_u32 (args ! 2));
            freq = (if length args > 3 then Some (args ! 3) else None);
            bytes = wav_bytes (tone freq) seconds
        in if writable out then (Some (out, bytes), True) else (None, False))"

section \<open>The samples of a media file\<close>

definition channel0 :: "'s sample_ops \<Rightarrow> 's audio_buffer \<Rightarrow> 's list" where
  "channel0 ops buf = append_channel0 ops buf []"

definition track_buffers :: "nat \<Rightarrow> (nat \<times> 's packet_outcome) list \<Rightarrow> 's audio_buffer list" where
  "track_buffers track_id pks =
     concat (map (\<lambda>(pid, outcome). case outcome of Decoded buf \<Rightarrow> if pid = track_id then [buf] else [] | _ \<Rightarrow> []) pks)"

definition fatal_packet :: "nat \<Rightarrow> (nat \<times> 's packet_outcome) list \<Rightarrow> bool" where
  "fatal_packet track_id pks \<longleftrightarrow> (\<exists>e. (track_id, Fatal e) \<in> set pks)"

lemma append_channel0: "append_channel0 ops buf out = out @ channel0 ops buf"
  by (cases buf) (simp_all add: append_channel0_def channel0_def)

lemma decode_packets_eq:
  "if fatal_packet track_id pks then \<not> is_ok (decode_packets ops track_id pks samples)
   else decode_packets ops track_id pks samples
       = Inr (samples @ concat (map (channel0 ops) (track_buffers track_id pks)))"
proof (induction ops track_id pks samples rule: decode_packets.induct)
  case (2 ops track_id pid outcome rest samples)
  then show ?case
    by (cases outcome) (auto simp: fatal_packet_def track_buffers_def append_channel0 split: if_splits)
qed (simp add: fatal_packet_def track_buffers_def)

section \<open>Properties\<close>

text \<open>What the player hears. A media file decodes exactly when it can be read and probed, has a
  default track with a decoder, and no packet of that track fails fatally; the samples are the first
  channels of that track's good packets, in order, and there is at least one; the bytes are the very
  bytes that were read, so the content id and the fingerprint describe the same file.\<close>

theorem decode_hears_first_channel:
  "decode_media ops read extension probe path = Inr audio \<longleftrightarrow>
     (\<exists>format track_id rate. read path = Inr (da_bytes audio) \<and> probe (extension path) (da_bytes audio) = Inr format
       \<and> default_track format = Some (track_id, rate) \<and> make_decoder format = Inr ()
       \<and> \<not> fatal_packet track_id (packets format)
       \<and> da_samples audio = concat (map (channel0 ops) (track_buffers track_id (packets format)))
       \<and> da_samples audio \<noteq> [] \<and> da_sample_rate audio = or_default 0 rate)"
proof -
  have packets: "decode_packets ops track_id pks [] = Inr samples \<longleftrightarrow>
      \<not> fatal_packet track_id pks \<and> samples = concat (map (channel0 ops) (track_buffers track_id pks))" for track_id pks samples
    using decode_packets_eq [of track_id pks ops "[]"] by (auto split: if_splits)
  show ?thesis
    by (cases audio) (auto simp: decode_media_def Let_def res_bind_eq_Inr map_err_eq_Inr ok_or_eq_Inr packets
        simp del: concat_eq_Nil_conv split: if_splits)
qed

text \<open>A file whose samples come in any other format than the four handled ones is refused for want of
  samples, although the comment at that arm speaks of copying channel 0.\<close>

theorem other_formats_are_silent:
  assumes "read path = Inr bytes" and "probe (extension path) bytes = Inr format"
    and "default_track format = Some (track_id, rate)" and "make_decoder format = Inr ()"
    and "\<not> fatal_packet track_id (packets format)"
    and "\<And>buf. buf \<in> set (track_buffers track_id (packets format)) \<Longrightarrow> buf = OtherFormat"
  shows "decode_media ops read extension probe path = Inl (Decode ''no samples decoded'')"
proof -
  have "concat (map (channel0 ops) (track_buffers track_id (packets format))) = []"
    using assms(6) by (fastforce simp: channel0_def append_channel0_def)
  then have "decode_packets ops track_id (packets format) [] = Inr []"
    using decode_packets_eq [of track_id "packets format" ops "[]"] assms(5) by simp
  then show ?thesis using assms by (simp add: decode_media_def)
qed

theorem other_formats_are_silent_witness:
  "decode_media \<lparr>so_of_int = (\<lambda>i. i), so_sub = (-), so_div = (div)\<rparr> (\<lambda>_. Inr [1, 2]) (\<lambda>_. None)
     (\<lambda>_ _. Inr \<lparr>default_track = Some (0, Some 44100), make_decoder = Inr (), packets = [(0, Decoded OtherFormat), (1, Fatal ''x'')]\<rparr>)
     ''a.flac'' = Inl (Decode ''no samples decoded'')"
proof -
  let ?format = "\<lparr>default_track = Some (0, Some 44100), make_decoder = Inr (),
      packets = [(0, Decoded OtherFormat), (1, Fatal ''x'')]\<rparr> :: int container"
  have "default_track ?format = Some (0, Some 44100)" "make_decoder ?format = Inr ()" "\<not> fatal_packet 0 (packets ?format)"
    "\<And>buf. buf \<in> set (track_buffers 0 (packets ?format)) \<Longrightarrow> buf = OtherFormat"
    by (simp_all add: fatal_packet_def track_buffers_def)
  from other_formats_are_silent [OF refl refl this] show ?thesis by simp
qed

text \<open>The test file is well formed up to 48695 seconds. Then nothing wraps: the file is the 44-byte
  header and two bytes per sample, the RIFF size is the file's length less 8, and the data size is
  the rest. One second more and the sizes in the header no longer fit 32 bits.\<close>

theorem wav_sizes:
  assumes "unat seconds \<le> 48695"
  shows "length (wav_bytes tone seconds) = 44 + 88200 * unat seconds
     \<and> take 4 (drop 4 (wav_bytes tone seconds)) = u32_to_le_bytes (of_nat (length (wav_bytes tone seconds) - 8))
     \<and> take 4 (drop 40 (wav_bytes tone seconds)) = u32_to_le_bytes (of_nat (88200 * unat seconds))
     \<and> length (wav_bytes tone seconds) - 8 < 2 ^ 32 \<and> \<not> 36 + 88200 * (48695 + 1) < (2 :: nat) ^ 32"
proof -
  have n: "unat (44100 * seconds) = 44100 * unat seconds"
    using assms by (subst unat_mult_exact) simp_all
  have d: "unat (44100 * seconds * 2) = 88200 * unat seconds"
    using assms n by (subst unat_mult_exact) simp_all
  have w: "44100 * seconds * 2 = of_nat (88200 * unat seconds)" by (metis d of_nat_unat ucast_id)
  have le: "length (u32_to_le_bytes x) = 4" "length (u16_to_le_bytes y) = 2" for x y
    by (simp_all add: u32_to_le_bytes_def u32_to_be_bytes_def u16_to_le_bytes_def)
  have body: "length (concat (map (\<lambda>i. u16_to_le_bytes (tone i)) [0..<k])) = 2 * k" for k
    by (induction k) (simp_all add: le)
  have tags: "length (ascii ''RIFF'') = 4" "length (ascii ''WAVE'') = 4" "length (ascii ''fmt '') = 4" "length (ascii ''data'') = 4"
    by (simp_all add: ascii_def)
  have len: "length (wav_bytes tone seconds) = 44 + 88200 * unat seconds"
    by (simp add: wav_bytes_def Let_def le body tags n)
  moreover have "take 4 (drop 4 (wav_bytes tone seconds)) = u32_to_le_bytes (36 + 44100 * seconds * 2)"
    by (simp add: wav_bytes_def Let_def le tags)
  moreover have "take 4 (drop 40 (wav_bytes tone seconds)) = u32_to_le_bytes (44100 * seconds * 2)"
    by (simp add: wav_bytes_def Let_def le tags)
  ultimately show ?thesis using assms by (simp add: w)
qed

theorem wav_sizes_witness:
  "length (wav_bytes (\<lambda>_. 0) 2) = 176444 \<and> take 4 (drop 40 (wav_bytes (\<lambda>_. 0) 2)) = u32_to_le_bytes 176400"
  using wav_sizes [of 2 "\<lambda>_. 0"] by simp

end
