(* ===== verification/Services.thy ===== *)
theory Services
  imports Storage Epoch Hub
begin

text \<open>
  The entry points of the three services, \<open>main.rs\<close> of \<open>src/services/storage\<close>,
  \<open>src/services/settlement\<close> and \<open>src/services/discovery-hub\<close>: the environment they
  read, in the order they read it, the state they start with, the process exit status. Binding a
  socket, the key parser and the file system are parameters; serving is the request handlers of the
  theories \<open>Storage\<close> and \<open>Hub\<close>. The hub restarts from its snapshot with nothing lost as
  long as no post was answered with status 500, and the settlement job exits with success exactly when
  its whole plan was carried out.
\<close>

section \<open>The storage node\<close>

type_synonym u16 = "16 word"

datatype storage_main_error =
  VariableMissing string | KeyInvalid | EpochInvalid | PortInvalid | BindFailed string

record storage_service =
  ss_content_dir :: string
  ss_node :: node
  ss_listener :: "string \<times> u16"

definition storage_req_env :: "(string \<Rightarrow> string option) \<Rightarrow> string \<Rightarrow> storage_main_error + string" where
  "storage_req_env var name = ok_or (VariableMissing name) (var name)"

definition parse_u16 :: "string \<Rightarrow> u16 option" where
  "parse_u16 s = Option.bind (parse_u128 s) (\<lambda>v. if uint v < 2 ^ 16 then Some (ucast v) else None)"

text \<open>\<open>signer_of\<close> parses the key and gives the signer's address as lower-case hexadecimal text.\<close>

definition storage_main ::
    "(string \<Rightarrow> string option) \<Rightarrow> (string \<Rightarrow> string option) \<Rightarrow> (string \<times> u16 \<Rightarrow> string + unit)
     \<Rightarrow> storage_main_error + storage_service" where
  "storage_main var signer_of bind_to =
     res_bind (storage_req_env var ''CONTENT_DIR'') (\<lambda>dir.
     res_bind (storage_req_env var ''PRIVATE_KEY'') (\<lambda>key.
     res_bind (ok_or KeyInvalid (signer_of key)) (\<lambda>addr.
     res_bind (storage_req_env var ''EPOCH'') (\<lambda>epoch_text.
     res_bind (ok_or EpochInvalid (parse_u64 epoch_text)) (\<lambda>epoch.
     res_bind (ok_or PortInvalid (parse_u16 (or_default ''8546'' (var ''PORT'')))) (\<lambda>port.
     res_bind (map_err BindFailed (bind_to (''127.0.0.1'', port))) (\<lambda>_.
     Inr \<lparr>ss_content_dir = dir, ss_node = node_start addr epoch, ss_listener = (''127.0.0.1'', port)\<rparr>)))))))"

section \<open>The settlement job\<close>

datatype exit_code = ExitSuccess | ExitFailure

datatype settlement_line =
    SettledLine u64 nat u128
  | FailedLine run_error
  | ConfigurationLine config_error

definition settlement_main ::
    "(string \<Rightarrow> string option) \<Rightarrow> (string \<Rightarrow> string + string) \<Rightarrow> (string \<Rightarrow> string + deployments)
     \<Rightarrow> primitives \<Rightarrow> ('sig, 'addr) receipt_env \<Rightarrow> chain_view \<Rightarrow> files \<Rightarrow> (string \<Rightarrow> bool) \<Rightarrow> (string \<Rightarrow> bool)
     \<Rightarrow> (outcome \<Rightarrow> run_error + unit) \<Rightarrow> outcome list \<times> settlement_line \<times> exit_code" where
  "settlement_main var read_to_string parse_deployments pm env ch fs is_key is_url send =
     (case config_from_env var read_to_string parse_deployments of
        Inr cfg \<Rightarrow>
          (case run pm env ch fs is_key is_url send cfg [] of
             (effects, Inr s) \<Rightarrow> (effects, SettledLine (sm_epoch s) (length (entries s)) (total_credits s), ExitSuccess)
           | (effects, Inl e) \<Rightarrow> (effects, FailedLine e, ExitFailure))
      | Inl e \<Rightarrow> ([], ConfigurationLine e, ExitFailure))"

text \<open>The exit status of the settlement job. It is success exactly when the configuration was
  complete, the settlement was computed, and the root, the escrow funding, every escrowed work and the
  proofs file were all committed, in that order and after nothing but an optional sidecar file; the
  line printed then counts the works of that settlement. A failed configuration has no effect at all.\<close>
theorem settlement_exit_status:
  "(case settlement_main var read_to_string parse_deployments pm env ch fs is_key is_url send of
      (effects, line, status) \<Rightarrow>
        (status = ExitSuccess) =
          (\<exists>cfg s side. config_from_env var read_to_string parse_deployments = Inr cfg
             \<and> compute_settlement pm env ch fs send cfg [] = (side, Inr s) \<and> list_all is_sidecar side
             \<and> effects = side @ plan cfg s
             \<and> line = SettledLine (sm_epoch s) (length (entries s)) (total_credits s))
        \<and> (is_ok (config_from_env var read_to_string parse_deployments) \<or> effects = []))"
proof (cases "config_from_env var read_to_string parse_deployments")
  case (Inl e)
  then show ?thesis by (simp add: settlement_main_def)
next
  case (Inr cfg)
  from run_shape [of pm env ch fs is_key is_url send cfg] show ?thesis
    by (cases "run pm env ch fs is_key is_url send cfg []"; cases "snd (run pm env ch fs is_key is_url send cfg [])")
      (auto simp: settlement_main_def Inr)
qed

section \<open>The discovery hub\<close>

datatype hub_main_error = HubConfig hub_config_error | HubSnapshot string | HubBind string

record 'f hub_service =
  hs_state :: "'f hub_state"
  hs_chain :: "string \<times> address"
  hs_snapshot_path :: string
  hs_listener :: string

definition hub_main ::
    "('sig, 'f) hub_env \<Rightarrow> (string \<Rightarrow> string option) \<Rightarrow> (string \<Rightarrow> address option) \<Rightarrow> (string \<Rightarrow> 'f file_read)
     \<Rightarrow> (string \<Rightarrow> string + unit) \<Rightarrow> hub_main_error + 'f hub_service" where
  "hub_main env var parse_address read_file bind_to =
     res_bind (map_err HubConfig (hub_config_from_env var parse_address)) (\<lambda>cfg.
     res_bind (map_err HubSnapshot (load_snapshot (he_from_json env) (read_file (hc_snapshot cfg)))) (\<lambda>index.
     res_bind (map_err HubBind (bind_to (hc_bind cfg))) (\<lambda>_.
     Inr \<lparr>hs_state = \<lparr>hb_index = index, hb_snapshot = read_file (hc_snapshot cfg)\<rparr>,
          hs_chain = (hc_rpc_url cfg, hc_registry cfg), hs_snapshot_path = hc_snapshot cfg, hs_listener = hc_bind cfg\<rparr>)))"

definition write_failed :: "hub_event \<Rightarrow> bool" where
  "write_failed e = (case e of Posted _ _ _ _ (Fail status _) \<Rightarrow> status = 500 | _ \<Rightarrow> False)"

lemma write_failed_Posted: "write_failed (Posted m g now lookup resp) \<longleftrightarrow> (\<exists>t. resp = Fail 500 t)"
  by (auto simp: write_failed_def split: response.splits)

lemma ingest_in_step:
  assumes "hub_ingest env lookup write_to now m signature st = (st', resp)" and "\<nexists>t. resp = Fail 500 t"
    and codec: "\<And>ix json. he_to_json env ix = Inr json \<Longrightarrow> he_from_json env json = Inr ix"
    and "load_snapshot (he_from_json env) (hb_snapshot st) = Inr (hb_index st)"
  shows "load_snapshot (he_from_json env) (hb_snapshot st') = Inr (hb_index st')"
  using assms(1,2,4)
  by (auto simp: hub_ingest_def Let_def save_snapshot_def load_snapshot_def codec
      split: option.splits sum.splits write_outcome.splits prod.splits)

lemma snapshot_in_step:
  assumes "hub_run env tr st" and "list_all (\<lambda>e. \<not> write_failed e) tr"
    and codec: "\<And>ix json. he_to_json env ix = Inr json \<Longrightarrow> he_from_json env json = Inr ix"
  shows "load_snapshot (he_from_json env) (hb_snapshot st) = Inr (hb_index st)"
  using assms(1,2)
proof (induction rule: hub_run.induct)
  case boot
  then show ?case by (simp add: load_snapshot_def)
next
  case (step tr st e st')
  from step.hyps(2) show ?case
  proof (cases rule: hub_step.cases)
    case (ingest lookup wr now m signature resp)
    with step show ?thesis by (auto simp: write_failed_Posted intro: ingest_in_step [OF _ _ codec])
  qed simp
qed

text \<open>C28: a restart loses nothing. Let the hub have run from its start, through posts and restarts, with
  no post answered by status 500, and let the file at the configured path be the snapshot it left. Then
  the binary starts, under any environment with a valid registry address and a free socket, with exactly
  the index the hub was serving, and with the chain, path and socket of its configuration.\<close>
theorem hub_restart_loses_nothing:
  assumes "\<And>ix json. he_to_json env ix = Inr json \<Longrightarrow> he_from_json env json = Inr ix"
    and "hub_run env tr st" and "list_all (\<lambda>e. \<not> write_failed e) tr"
    and "hub_config_from_env var parse_address = Inr cfg" and "bind_to (hc_bind cfg) = Inr ()"
    and "read_file (hc_snapshot cfg) = hb_snapshot st"
  shows "hub_main env var parse_address read_file bind_to
     = Inr \<lparr>hs_state = st, hs_chain = (hc_rpc_url cfg, hc_registry cfg), hs_snapshot_path = hc_snapshot cfg,
            hs_listener = hc_bind cfg\<rparr>"
  using snapshot_in_step [OF assms(2,3,1)] assms(4-6)
  by (simp add: hub_main_def)

theorem hub_restart_loses_nothing_witness:
  "\<exists>st sv. hub_main ex_hub_env (\<lambda>n. if n = ''REGISTRY'' then Some ''0x01'' else None) (\<lambda>_. Some (replicate 20 1))
       (\<lambda>_. hb_snapshot (st :: hub_index hub_state)) (\<lambda>_. Inr ()) = Inr sv
     \<and> index_manifest (hb_index (hs_state sv)) (Bytes32 (replicate 32 1)) = Some (clamped 4 (ex_manifest 1 ''t''))"
proof -
  obtain st where st: "hub_run ex_hub_env [Posted (ex_manifest 1 ''t'') (hex_string (replicate 20 1)) 4 ex_registry
        (Reply 201 (wm_work_id (ex_manifest 1 ''t'')))] st"
      "index_manifest (hb_index st) (Bytes32 (replicate 32 1)) = Some (clamped 4 (ex_manifest 1 ''t''))"
    using ex_posted by blast
  let ?cfg = "\<lparr>hc_bind = ''127.0.0.1:8080'', hc_rpc_url = ''http://127.0.0.1:8545'', hc_registry = replicate 20 1,
      hc_snapshot = ''hub-index.json''\<rparr>"
  have cfg: "hub_config_from_env (\<lambda>n. if n = ''REGISTRY'' then Some ''0x01'' else None) (\<lambda>_. Some (replicate 20 1)) = Inr ?cfg"
    by (simp add: hub_config_from_env_def or_default_def)
  have no: "list_all (\<lambda>e. \<not> write_failed e) [Posted (ex_manifest 1 ''t'') (hex_string (replicate 20 1)) 4 ex_registry
        (Reply 201 (wm_work_id (ex_manifest 1 ''t'')))]"
    by (simp add: write_failed_def)
  have "hub_main ex_hub_env (\<lambda>n. if n = ''REGISTRY'' then Some ''0x01'' else None) (\<lambda>_. Some (replicate 20 1))
       (\<lambda>_. hb_snapshot st) (\<lambda>_. Inr ()) = Inr \<lparr>hs_state = st, hs_chain = (hc_rpc_url ?cfg, hc_registry ?cfg),
         hs_snapshot_path = hc_snapshot ?cfg, hs_listener = hc_bind ?cfg\<rparr>"
    by (rule hub_restart_loses_nothing [OF _ st(1) no cfg]) (simp_all add: ex_hub_env_def)
  then show ?thesis by (intro exI [of _ st] exI conjI) (assumption, simp add: st(2))
qed

end
