(* ===== verification/Journey.thy ===== *)
theory Journey
  imports Player
begin

text \<open>
  From a play to a payment, across the crates: the desktop player accrues, flushes and discloses
  (theory \<open>Player\<close>), the settlement job reads the disclosure beside the chain's events (theory
  \<open>Epoch\<close>), the payout library splits the fee (theory \<open>Dapr\<close>), and the settlement routes it to
  entries or escrow (theory \<open>Settle\<close>). The lemmas follow the data through each stage; the property
  states the whole way in terms of the plays alone.
\<close>

section \<open>One listener's share of the payouts\<close>

lemma sum_list_one_index:
  assumes "distinct ks" and "i < length ks"
  shows "(\<Sum>j\<leftarrow>[0..<length ks]. if ks ! j = ks ! i then h j else 0) = (h i :: nat)"
proof -
  have "(\<Sum>j\<leftarrow>[0..<length ks]. if ks ! j = ks ! i then h j else 0) = (\<Sum>j\<in>{0..<length ks}. if j = i then h j else 0)"
    unfolding interv_sum_list_conv_sum_set_nat
    by (rule sum.cong) (use assms in \<open>auto simp: nth_eq_iff_index_eq\<close>)
  with assms(2) show ?thesis by simp
qed

lemma hamilton_quota:
  "amount * ws ! i div sum_list ws \<le> hamilton amount ws i \<and> hamilton amount ws i \<le> amount * ws ! i div sum_list ws + 1"
  by (simp add: hamilton_def)

lemma listener_credit:
  assumes al: "allocate_from_raw_with_row_credibility fees rows (replicate (length rows) 1000000) = Inr p"
    and "length rows < 2 ^ 64" and "bt_wf fees" and "bt_get fees u = Some fee"
    and "\<forall>r \<in> set rows. rr_user r = u" and "distinct (map rr_work rows)"
  defines "T \<equiv> \<Sum>r\<leftarrow>rows. unat (rr_raw r)"
  shows "w \<notin> rr_work ` set rows \<or> T = 0 \<Longrightarrow> bt_get_or 0 (per_work p) w = 0"
    and "\<lbrakk>r \<in> set rows; T \<noteq> 0\<rbrakk> \<Longrightarrow>
      unat fee * unat (rr_raw r) div T \<le> unat (bt_get_or 0 (per_work p) (rr_work r))
      \<and> unat (bt_get_or 0 (per_work p) (rr_work r)) \<le> unat fee * unat (rr_raw r) div T + 1"
    and "map_total (per_work p) = (if T = 0 then 0 else unat fee)"
proof -
  let ?creds = "replicate (length rows) 1000000 :: u64 list" and ?R = "map (\<lambda>r. (r, 1000000 :: u64)) rows"
  have zip: "zip rs (replicate (length rs) 1000000) = map (\<lambda>r. (r, 1000000 :: u64)) rs" for rs :: "raw_row list"
    by (induction rs) simp_all
  have R: "user_rows_of rows ?creds v = (if v = u then ?R else [])" for v
    using assms(5) unfolding user_rows_of_def zip by (auto simp: filter_map comp_def filter_empty_conv cong: filter_cong)
  have full: "cred_nat (r, 1000000) = unat (rr_raw r)" for r by (simp add: cred_nat_def)
  then have raws: "map cred_nat ?R = map (\<lambda>r. unat (rr_raw r)) rows" by simp
  have totals: "raw_total ?R = T" "cred_total ?R = T"
    by (simp_all add: raw_total_def cred_total_def T_def comp_def full)
  have target: "fee_target (unat fee) ?R = (if T = 0 then 0 else unat fee)" by (simp add: fee_target_def totals)
  have none: "user_credit n [] w = 0" "fee_target n [] = 0" for n w by (simp_all add: user_credit_def fee_target_def)
  have only: "(\<Sum>(v, f)\<leftarrow>fees. h f (user_rows_of rows ?creds v)) = h fee ?R"
    if "\<And>f. h f [] = 0" for h :: "u128 \<Rightarrow> (raw_row \<times> u64) list \<Rightarrow> nat"
    using sum_one_key [OF assms(3,4), of "\<lambda>v f. h f (user_rows_of rows ?creds v)" "\<lambda>_ _. 0"] that
    by (simp add: R case_prod_unfold sum_list_0)
  have credit: "unat (bt_get_or 0 (per_work p) w) = user_credit (unat fee) ?R w" for w
    using allocation_credit [OF al assms(2), of w] only [of "\<lambda>f rs. user_credit (unat f) rs w"] none by simp
  have sum: "sum_list (map cred_nat ?R) = T" unfolding raws T_def ..
  have spread: "user_credit (unat fee) ?R w = (\<Sum>j\<leftarrow>[0..<length (map rr_work rows)].
      if map rr_work rows ! j = w then hamilton (if T = 0 then 0 else unat fee) (map cred_nat ?R) j else 0)" for w
    unfolding user_credit_def target by (rule arg_cong [of _ _ sum_list], rule map_cong) auto
  have at: "user_credit (unat fee) ?R (rr_work (rows ! i)) = hamilton (if T = 0 then 0 else unat fee) (map cred_nat ?R) i"
    if "i < length rows" for i
    using sum_list_one_index [OF assms(6), of i "hamilton (if T = 0 then 0 else unat fee) (map cred_nat ?R)"] that
    by (simp only: spread length_map nth_map)
  show "w \<notin> rr_work ` set rows \<or> T = 0 \<Longrightarrow> bt_get_or 0 (per_work p) w = 0"
  proof -
    assume "w \<notin> rr_work ` set rows \<or> T = 0"
    then have "user_credit (unat fee) ?R w = 0"
    proof
      assume "T = 0"
      with target show ?thesis by (intro user_credit_no_target) simp
    next
      assume "w \<notin> rr_work ` set rows"
      then have "rr_work (rows ! j) \<noteq> w" if "j < length rows" for j using nth_mem [OF that] by blast
      then show ?thesis by (auto simp: user_credit_def sum_list_0 cong: map_cong)
    qed
    with credit [of w] show ?thesis by (simp add: unat_eq_0)
  qed
  show "\<lbrakk>r \<in> set rows; T \<noteq> 0\<rbrakk> \<Longrightarrow>
      unat fee * unat (rr_raw r) div T \<le> unat (bt_get_or 0 (per_work p) (rr_work r))
      \<and> unat (bt_get_or 0 (per_work p) (rr_work r)) \<le> unat fee * unat (rr_raw r) div T + 1"
  proof -
    assume "r \<in> set rows" and T: "T \<noteq> 0"
    then obtain i where i: "i < length rows" "r = rows ! i" by (metis in_set_conv_nth)
    from hamilton_quota [of "unat fee" "map cred_nat ?R" i] at [OF i(1)] T i raws
    show ?thesis unfolding sum by (simp add: credit)
  qed
  show "map_total (per_work p) = (if T = 0 then 0 else unat fee)"
    using allocation_Inr [OF al assms(2)] only [of "\<lambda>f. fee_target (unat f)"] none target by simp
qed

section \<open>What the settlement routes where\<close>

definition direct_amount :: "settlement \<Rightarrow> bytes32 \<Rightarrow> nat" where
  "direct_amount s w = (\<Sum>e\<leftarrow>entries s. if se_work_id e = w then unat (se_amount e) else 0)"

definition escrow_amount :: "settlement \<Rightarrow> bytes32 \<Rightarrow> nat" where
  "escrow_amount s w = (\<Sum>e\<leftarrow>escrow s. if ee_work_id e = w then unat (ee_amount e) else 0)"

lemma routed_amounts:
  assumes "finalize keccak256 dec epoch p esc = Inr s"
  shows "direct_amount s w = (\<Sum>(k, a)\<leftarrow>per_work p. if k \<notin> set esc \<and> work_of dec k = w then unat a else 0)"
    and "escrow_amount s w = (\<Sum>(k, a)\<leftarrow>per_work p. if k \<in> set esc \<and> work_of dec k = w then unat a else 0)"
proof -
  let ?g = "\<lambda>(w', a). if w' = w then unat (a :: u128) else 0"
  have pick: "(\<Sum>(k, a)\<leftarrow>List.filter (\<lambda>wa. P (fst wa)) ws. if work_of dec k = w then unat (a :: u128) else 0)
      = (\<Sum>(k, a)\<leftarrow>ws. if P k \<and> work_of dec k = w then unat a else 0)" for P ws
    by (induction ws) auto
  note f = finalize_Inr [OF assms]
  have "direct_amount s w = sum_list (map ?g (map (\<lambda>e. (se_work_id e, se_amount e)) (entries s)))"
    by (simp add: direct_amount_def comp_def)
  also have "\<dots> = (\<Sum>(k, a)\<leftarrow>direct_part esc (per_work p). if work_of dec k = w then unat a else 0)"
    using f by (simp add: comp_def case_prod_unfold cong: if_cong)
  finally show "direct_amount s w = (\<Sum>(k, a)\<leftarrow>per_work p. if k \<notin> set esc \<and> work_of dec k = w then unat a else 0)"
    by (simp add: direct_part_def bs_contains_def pick [of "\<lambda>k. k \<notin> set esc"])
  have "escrow_amount s w = sum_list (map ?g (map (\<lambda>e. (ee_work_id e, ee_amount e)) (escrow s)))"
    by (simp add: escrow_amount_def comp_def)
  also have "\<dots> = (\<Sum>(k, a)\<leftarrow>escrow_part esc (per_work p). if work_of dec k = w then unat a else 0)"
    using f by (simp add: comp_def case_prod_unfold cong: if_cong)
  finally show "escrow_amount s w = (\<Sum>(k, a)\<leftarrow>per_work p. if k \<in> set esc \<and> work_of dec k = w then unat a else 0)"
    by (simp add: escrow_part_def bs_contains_def pick [of "\<lambda>k. k \<in> set esc"])
qed

text \<open>When only canonical names of known works carry amounts, each work's amount goes one way.\<close>

lemma routed_by_name:
  assumes "finalize keccak256 dec epoch p esc = Inr s" and "hex_codec enc dec" and "bt_wf (per_work p)"
    and "\<And>w. w \<in> K \<Longrightarrow> b32_ok w" and "\<And>k. k \<notin> bytes32_to_string enc ` K \<Longrightarrow> bt_get_or 0 (per_work p) k = 0"
  defines "share \<equiv> \<lambda>w. if w \<in> K then unat (bt_get_or 0 (per_work p) (bytes32_to_string enc w)) else 0"
  shows "direct_amount s w = (if bytes32_to_string enc w \<in> set esc then 0 else share w)"
    and "escrow_amount s w = (if bytes32_to_string enc w \<in> set esc then share w else 0)"
proof -
  let ?k = "bytes32_to_string enc w"
  have zero: "unat a = 0 \<or> (k = bytes32_to_string enc (work_of dec k) \<and> work_of dec k \<in> K)" if "(k, a) \<in> set (per_work p)" for k a
  proof (cases "k \<in> bytes32_to_string enc ` K")
    case True
    then show ?thesis
      using hex_codec.from_str_to_string [OF assms(2)] assms(4) by (auto simp: work_of_def)
  next
    case False
    from assms(5) [OF this] that bt_entries_get [OF assms(3), of k a] show ?thesis by (simp add: bt_get_or_def)
  qed
  have one: "(\<Sum>(k, a)\<leftarrow>per_work p. if P k \<and> work_of dec k = w then unat a else 0) = (if P ?k then share w else 0)" for P
  proof -
    have "(\<Sum>(k, a)\<leftarrow>per_work p. if P k \<and> work_of dec k = w then unat a else 0)
        = (\<Sum>(k, a)\<leftarrow>per_work p. if k = ?k then (if P ?k \<and> w \<in> K then unat a else 0) else 0)"
      using zero hex_codec.from_str_to_string [OF assms(2)] assms(4)
      by (intro arg_cong [of _ _ sum_list] map_cong refl) (fastforce simp: work_of_def)
    also have "\<dots> = (if P ?k then share w else 0)"
    proof (cases "bt_get (per_work p) ?k")
      case None
      then have "?k \<notin> fst ` set (per_work p)" using bt_entries_get [OF assms(3)] by force
      then have "(\<Sum>(k, a)\<leftarrow>per_work p. if k = ?k then (if P ?k \<and> w \<in> K then unat a else 0) else 0) = 0"
        by (force simp: sum_list_0 intro: sum_list_0)
      with None show ?thesis by (simp add: share_def bt_get_or_def)
    next
      case (Some a)
      from sum_one_key [OF assms(3) Some, of "\<lambda>k a. if k = ?k then (if P ?k \<and> w \<in> K then unat a else 0) else 0" "\<lambda>_ _. 0"]
      show ?thesis using Some by (simp add: share_def bt_get_or_def case_prod_unfold sum_list_0)
    qed
    finally show ?thesis .
  qed
  show "direct_amount s w = (if ?k \<in> set esc then 0 else share w)"
    using routed_amounts(1) [OF assms(1), of w] one [of "\<lambda>k. k \<notin> set esc"] by simp
  show "escrow_amount s w = (if ?k \<in> set esc then share w else 0)"
    using routed_amounts(2) [OF assms(1), of w] one [of "\<lambda>k. k \<in> set esc"] by simp
qed

section \<open>What the job reads\<close>

definition price_at :: "chain_view \<Rightarrow> bytes32 \<Rightarrow> u64" where
  "price_at ch w = (case price_per_min_of ch (as_bytes w) of Inr v \<Rightarrow> ucast v | Inl _ \<Rightarrow> 0)"

definition row_at :: "primitives \<Rightarrow> chain_view \<Rightarrow> string \<Rightarrow> usage_opening \<Rightarrow> usage_row" where
  "row_at pm ch user op =
     \<lparr>ur_user = user, ur_work = bytes32_to_string (pm_hex_encode pm) (op_work_id op), ur_minutes = op_minutes op,
      ur_price_ppm = price_at ch (op_work_id op), ur_region_ppm = 1000000, ur_plays = op_plays op\<rparr>"

lemma disclosed_rows: "res_map (disclosed_row pm ch user) ops = Inr rows \<Longrightarrow> rows = map (row_at pm ch user) ops"
  unfolding res_map_Inr_list_all2
  by (induction rule: list_all2_induct)
    (auto simp: disclosed_row_def row_at_def price_at_def result_simps u64_of_u256_def split: if_splits)

definition openings_of :: "disclosure \<Rightarrow> submission \<Rightarrow> usage_opening list" where
  "openings_of d ev = or_default [] (for_user d (ev_user ev))"

lemma disclose_event_Inr:
  assumes "disclose_event pm ch d (fees, usage) (Inr ev) = Inr (fees', usage')"
  shows "\<exists>fee fee128. fee_of ch (ev_tier ev) = Inr fee \<and> u128_of_u256 fee = Some fee128
     \<and> fees' = bt_insert (ev_user ev) fee128 fees \<and> usage' = usage @ map (row_at pm ch (ev_user ev)) (openings_of d ev)"
  using assms
  by (auto simp: disclose_event_def result_simps openings_of_def or_default_def Let_def
      dest: disclosed_rows split: option.splits)

lemma disclose_fold_Inr:
  assumes "res_fold (disclose_event pm ch d) (fees, usage) (map Inr evs) = Inr (fees', usage')" and "bt_wf fees"
  shows "bt_wf fees' \<and> usage' = usage @ concat (map (\<lambda>ev. map (row_at pm ch (ev_user ev)) (openings_of d ev)) evs)
     \<and> (\<forall>k. k \<notin> ev_user ` set evs \<longrightarrow> bt_get fees' k = bt_get fees k)"
  using assms
proof (induction evs arbitrary: fees usage)
  case (Cons ev evs)
  from Cons.prems(1) obtain fees1 usage1 where one: "disclose_event pm ch d (fees, usage) (Inr ev) = Inr (fees1, usage1)"
    and rest: "res_fold (disclose_event pm ch d) (fees1, usage1) (map Inr evs) = Inr (fees', usage')"
    by (auto simp: res_bind_eq_Inr)
  from disclose_event_Inr [OF one] Cons.prems(2) have wf: "bt_wf fees1" by (auto intro: bt_wf_insert)
  from Cons.IH [OF rest wf] disclose_event_Inr [OF one] Cons.prems(2) show ?case by (auto simp: bt_get_insert)
qed simp

text \<open>When the disclosure concerns one submission only, its rows are all the rows.\<close>

lemma one_listener:
  assumes "res_fold (disclose_event pm ch d) ([], []) (map Inr evs) = Inr (fees, usage)"
    and "List.filter (\<lambda>e. for_user d (ev_user e) \<noteq> None) evs = [ev]"
  shows "\<exists>fee fee128. bt_wf fees \<and> fee_of ch (ev_tier ev) = Inr fee \<and> u128_of_u256 fee = Some fee128
     \<and> bt_get fees (ev_user ev) = Some fee128 \<and> usage = map (row_at pm ch (ev_user ev)) (openings_of d ev)"
proof -
  from assms(2) obtain us vs where evs: "evs = us @ ev # vs" and ev: "for_user d (ev_user ev) \<noteq> None"
    and none: "\<forall>e \<in> set us. for_user d (ev_user e) = None" "List.filter (\<lambda>e. for_user d (ev_user e) \<noteq> None) vs = []"
    by (auto simp: filter_eq_Cons_iff)
  then have quiet: "openings_of d e = []" "ev_user e \<noteq> ev_user ev" if "e \<in> set us \<union> set vs" for e
    using that by (auto simp: openings_of_def or_default_def filter_empty_conv)
  from assms(1) obtain f1 u1 f2 u2 where a: "res_fold (disclose_event pm ch d) ([], []) (map Inr us) = Inr (f1, u1)"
    and b: "disclose_event pm ch d (f1, u1) (Inr ev) = Inr (f2, u2)"
    and c: "res_fold (disclose_event pm ch d) (f2, u2) (map Inr vs) = Inr (fees, usage)"
    by (auto simp: evs res_fold_append res_bind_eq_Inr)
  have silent: "concat (map (\<lambda>e. map (row_at pm ch (ev_user e)) (openings_of d e)) us) = []"
    "concat (map (\<lambda>e. map (row_at pm ch (ev_user e)) (openings_of d e)) vs) = []"
    using quiet(1) by auto
  note A = disclose_fold_Inr [OF a, unfolded silent] and B = disclose_event_Inr [OF b]
  have wf: "bt_wf f2" using A B by (auto intro: bt_wf_insert)
  note C = disclose_fold_Inr [OF c wf, unfolded silent]
  have "ev_user ev \<notin> ev_user ` set vs" using quiet(2) by force
  with A B C show ?thesis by (auto simp: bt_get_insert)
qed

section \<open>From the plays to the payment\<close>

text \<open>The weight of a work after the plays: floored minutes, the registry's price, diminishing returns.\<close>

definition listening_weight :: "chain_view \<Rightarrow> play list \<Rightarrow> bytes32 \<Rightarrow> nat" where
  "listening_weight ch plays w =
     min (seconds_of plays w) U64_MAX div 60 * unat (price_at ch w)
       * unat (d_ppm (of_nat (min (plays_of plays w) U64_MAX)) 1000000)"

lemma settle_disclosure:
  assumes "load_config w = Inr cfg" and "load_session w cfg = Inr st"
    and "DiscloseTo path d \<in> set (fst (cmd_settle w send []))"
  shows "\<exists>addr. d = player_disclosure addr (build_openings (fst (flush_usage st)) (pw_salt w)) (ps_escrow st)"
proof -
  obtain usage st1 where f: "flush_usage st = (usage, st1)" by fastforce
  from flush_then_take [OF f] show ?thesis using assms
    by (auto simp: cmd_settle_def submit_consumption_def job_fst_cases perform_def Let_def f
        split: sum.splits option.splits prod.splits if_splits)
qed

lemma disclosed_openings:
  "openings_of (player_disclosure addr ops esc) ev = (if for_user (player_disclosure addr ops esc) (ev_user ev) = None then [] else ops)"
  by (simp add: openings_of_def or_default_def for_user_def player_disclosure_def)

lemma raw_of_opening:
  assumes "raw_of_usage 1000000 (row_at pm ch u op) = Inr r"
  shows "rr_user r = u" and "rr_work r = bytes32_to_string (pm_hex_encode pm) (op_work_id op)"
    and "unat (rr_raw r) = unat (op_minutes op) * unat (price_at ch (op_work_id op)) * unat (d_ppm (op_plays op) 1000000)"
proof -
  from assms show "rr_user r = u" "rr_work r = bytes32_to_string (pm_hex_encode pm) (op_work_id op)"
    by (auto simp: raw_of_usage_def res_bind_eq_Inr row_at_def)
  have "a * b * 1000000 * c div 1000000 = a * b * c" for a b c :: nat
    by (simp add: mult.assoc mult.left_commute [of _ 1000000])
  with raw_of_usage_nat [OF assms] show "unat (rr_raw r)
      = unat (op_minutes op) * unat (price_at ch (op_work_id op)) * unat (d_ppm (op_plays op) 1000000)"
    by (simp add: row_at_def)
qed

text \<open>The allocation of a job that reads one listener's openings.\<close>

lemma disclosed_allocation:
  assumes "run_disclosure pm ch fs jcfg file = Inr s" and "disclosure_load (read_text fs) (parse_disclosure fs) file = Inr d"
    and "get_logs ch (dp_consumption (cf_deployments jcfg)) (cf_epoch jcfg) = Inr (map Inr evs)"
    and "List.filter (\<lambda>e. for_user d (ev_user e) \<noteq> None) evs = [ev]"
  shows "\<exists>fee fee128 fees p raws. fee_of ch (ev_tier ev) = Inr fee \<and> unat fee = unat fee128 \<and> bt_wf fees
     \<and> bt_get fees (ev_user ev) = Some fee128
     \<and> list_all2 (\<lambda>op r. raw_of_usage 1000000 (row_at pm ch (ev_user ev) op) = Inr r) (openings_of d ev) raws
     \<and> allocate_from_raw_with_row_credibility fees raws (replicate (length raws) 1000000) = Inr p
     \<and> finalize (pm_keccak256 pm) (pm_hex_decode pm) (cf_epoch jcfg) p
         (bs_of_list (map (bytes32_to_string (pm_hex_encode pm)) (dc_escrow_works d))) = Inr s"
proof -
  let ?c = "\<lambda>fees usage. \<lparr>ds_tier_fees = fees, ds_usage = usage, ds_bandwidth_ppm = []\<rparr>"
  from assms(1-3) obtain fees usage p where fold: "res_fold (disclose_event pm ch d) ([], []) (map Inr evs) = Inr (fees, usage)"
    and p: "allocate (?c fees usage) default_params = Inr p"
    and f: "finalize (pm_keccak256 pm) (pm_hex_decode pm) (cf_epoch jcfg) p
         (bs_of_list (map (bytes32_to_string (pm_hex_encode pm)) (dc_escrow_works d))) = Inr s"
    by (auto simp: run_disclosure_def result_simps epoch_logs_def settle_def Let_def split: prod.splits)
  from one_listener [OF fold assms(4)] obtain fee fee128 where one: "bt_wf fees" "fee_of ch (ev_tier ev) = Inr fee"
      "u128_of_u256 fee = Some fee128" "bt_get fees (ev_user ev) = Some fee128"
      "usage = map (row_at pm ch (ev_user ev)) (openings_of d ev)" by blast
  have fee: "unat fee = unat fee128"
    using one(3) by (auto simp: u128_of_u256_Some unat_ucast_exact)
  have neutral: "map (\<lambda>r. bw_ppm [] (rr_work r)) rows = replicate (length rows) 1000000" for rows
    by (induction rows) (simp_all add: bw_ppm_def bt_get_or_def)
  from p one(5) obtain raws where
      "list_all2 (\<lambda>op r. raw_of_usage 1000000 (row_at pm ch (ev_user ev) op) = Inr r) (openings_of d ev) raws"
      "allocate_from_raw_with_row_credibility fees raws (replicate (length raws) 1000000) = Inr p"
    by (auto simp: allocate_def allocate_from_raw_def default_params_def result_simps neutral res_map_Inr_list_all2
        list_all2_map1)
  with one fee f show ?thesis by blast
qed

lemma total_over_names:
  assumes "bt_wf m" and "finite K" and "inj_on f K" and "\<And>k. k \<notin> f ` K \<Longrightarrow> bt_get_or 0 m k = 0"
  shows "(\<Sum>w\<in>K. unat (bt_get_or 0 m (f w))) = map_total m"
proof -
  let ?g = "\<lambda>k. unat (bt_get_or 0 m k)" and ?A = "fst ` set m"
  have "map_total m = (\<Sum>kv\<leftarrow>m. ?g (fst kv))"
    using bt_entries_get [OF assms(1)] unfolding map_total_def
    by (intro arg_cong [of _ _ sum_list] map_cong refl) (auto simp: bt_get_or_def)
  also have "\<dots> = (\<Sum>k\<leftarrow>map fst m. ?g k)" by (simp add: comp_def)
  also have "\<dots> = (\<Sum>k\<in>?A. ?g k)"
    using bt.distinct_keys [OF assms(1)] by (simp only: sum_list_distinct_conv_sum_set set_map)
  also have "\<dots> = (\<Sum>k\<in>?A \<union> f ` K. ?g k)"
    using assms(2) bt_entries_get [OF assms(1)]
    by (intro sum.mono_neutral_left) (force simp: bt_get_or_def split: option.splits)+
  also have "\<dots> = (\<Sum>k\<in>f ` K. ?g k)"
    using assms(2,4) by (intro sum.mono_neutral_right) auto
  also have "\<dots> = (\<Sum>w\<in>K. ?g (f w))" using assms(3) by (simp add: sum.reindex)
  finally show ?thesis ..
qed

text \<open>The plays as the disclosed rows show them.\<close>

lemma played_entries:
  fixes plays :: "play list" and enc :: "u8 list \<Rightarrow> string" and now :: u64
  defines "U \<equiv> fst (flush_usage (accrue_all enc plays (fresh_state now)))"
  shows "distinct (map ue_work_id U)"
    and "e \<in> set U \<Longrightarrow> unat (ue_minutes e) * unat (price_at ch (ue_work_id e)) * unat (d_ppm (ue_plays e) 1000000)
           = listening_weight ch plays (ue_work_id e)"
    and "listening_weight ch plays w \<noteq> 0 \<Longrightarrow> w \<in> ue_work_id ` set U"
    and "ue_work_id ` set U \<subseteq> fst ` set plays"
proof -
  note acc = plays_accounted [of enc plays now, unfolded Let_def, folded U_def]
  show "distinct (map ue_work_id U)" using acc by (simp add: strict_sorted_iff)
  show "e \<in> set U \<Longrightarrow> unat (ue_minutes e) * unat (price_at ch (ue_work_id e)) * unat (d_ppm (ue_plays e) 1000000)
      = listening_weight ch plays (ue_work_id e)"
    using acc [of e] by (metis listening_weight_def of_nat_unat ucast_id)
  have exact: "unat (of_nat n :: u64) = n" if "n \<le> U64_MAX" for n
    using that by (simp add: U64_MAX_def unat_of_nat take_bit_nat_eq_self)
  show "listening_weight ch plays w \<noteq> 0 \<Longrightarrow> w \<in> ue_work_id ` set U"
  proof -
    let ?m = "min (seconds_of plays w) U64_MAX div 60" and ?n = "min (plays_of plays w) U64_MAX"
    let ?e = "\<lparr>ue_work_id = w, ue_minutes = of_nat ?m, ue_plays = of_nat ?n\<rparr>"
    assume "listening_weight ch plays w \<noteq> 0"
    then have "?m \<noteq> 0" by (auto simp: listening_weight_def)
    moreover have m: "unat (of_nat ?m :: u64) = ?m" by (intro exact) (simp add: div_le_dividend le_trans [OF div_le_dividend])
    moreover have "unat (of_nat ?n :: u64) = ?n" by (intro exact) simp
    ultimately have "?e \<in> set U" using acc [of ?e] by (metis unat_0 usage_entry.select_convs)
    then show ?thesis by force
  qed
  show "ue_work_id ` set U \<subseteq> fst ` set plays"
  proof
    fix w assume "w \<in> ue_work_id ` set U"
    then obtain e where e: "e \<in> set U" "ue_work_id e = w" by blast
    have "seconds_of plays w \<noteq> 0" using acc [of e] e by (metis div_0 min_0L unat_eq_0)
    moreover have "seconds_of plays w = 0" if "w \<notin> fst ` set plays"
      using that unfolding seconds_of_def by (force intro: sum_list_0 simp: case_prod_unfold sum_list_0)
    ultimately show "w \<in> fst ` set plays" by metis
  qed
qed

lemma opening_fields:
  "map (\<lambda>op. (op_work_id op, op_minutes op, op_plays op)) (build_openings U salt)
     = map (\<lambda>e. (ue_work_id e, ue_minutes e, ue_plays e)) U"
proof -
  have "map (\<lambda>(i, u). f u) (enumerate n U) = map f U" for f :: "usage_entry \<Rightarrow> 'b" and n
    by (induction U arbitrary: n) simp_all
  from this [of "\<lambda>e. (ue_work_id e, ue_minutes e, ue_plays e)" 0] show ?thesis
    by (simp add: build_openings_def comp_def case_prod_unfold)
qed

lemma disclosed_raws:
  assumes "list_all2 (\<lambda>op r. raw_of_usage 1000000 (row_at pm ch u op) = Inr r) (build_openings U salt) raws"
  shows "\<forall>r \<in> set raws. rr_user r = u"
    and "map (\<lambda>r. (rr_work r, unat (rr_raw r))) raws
      = map (\<lambda>e. (bytes32_to_string (pm_hex_encode pm) (ue_work_id e),
          unat (ue_minutes e) * unat (price_at ch (ue_work_id e)) * unat (d_ppm (ue_plays e) 1000000))) U"
proof -
  let ?g = "\<lambda>(w, m, n). (bytes32_to_string (pm_hex_encode pm) w, unat m * unat (price_at ch w) * unat (d_ppm n 1000000))"
  from assms show "\<forall>r \<in> set raws. rr_user r = u"
    by (induction rule: list_all2_induct) (auto dest: raw_of_opening(1))
  from assms have "map (\<lambda>r. (rr_work r, unat (rr_raw r))) raws
      = map ?g (map (\<lambda>op. (op_work_id op, op_minutes op, op_plays op)) (build_openings U salt))"
    by (induction rule: list_all2_induct) (auto dest: raw_of_opening(2,3))
  then show "map (\<lambda>r. (rr_work r, unat (rr_raw r))) raws
      = map (\<lambda>e. (bytes32_to_string (pm_hex_encode pm) (ue_work_id e),
          unat (ue_minutes e) * unat (price_at ch (ue_work_id e)) * unat (d_ppm (ue_plays e) 1000000))) U"
    unfolding opening_fields by simp
qed

text \<open>What a listener's plays are worth to each work: the amounts the settlement may hand out.\<close>

definition fair_shares :: "nat \<Rightarrow> (bytes32 \<Rightarrow> nat) \<Rightarrow> bytes32 set \<Rightarrow> (bytes32 \<Rightarrow> nat) \<Rightarrow> bool" where
  "fair_shares fee weight works share \<longleftrightarrow>
     (let T = (\<Sum>w\<in>works. weight w) in
       (\<forall>w. w \<notin> works \<or> T = 0 \<longrightarrow> share w = 0)
     \<and> (T \<noteq> 0 \<longrightarrow> (\<forall>w\<in>works. fee * weight w div T \<le> share w \<and> share w \<le> fee * weight w div T + 1)
         \<and> (\<Sum>w\<in>works. share w) = fee))"

lemma listening_payouts:
  assumes "load_config w = Inr cfg" and "load_session w cfg = Inr (accrue_all enc plays (fresh_state now))"
    and "DiscloseTo path d \<in> set (fst (cmd_settle w send []))"
    and "run_disclosure pm ch fs jcfg file = Inr s" and "disclosure_load (read_text fs) (parse_disclosure fs) file = Inr d"
    and "get_logs ch (dp_consumption (cf_deployments jcfg)) (cf_epoch jcfg) = Inr (map Inr evs)"
    and "List.filter (\<lambda>e. for_user d (ev_user e) \<noteq> None) evs = [ev]"
    and codec: "hex_codec (pm_hex_encode pm) (pm_hex_decode pm)"
    and "length plays < 2 ^ 64"
  defines "K \<equiv> ue_work_id ` set (fst (flush_usage (accrue_all enc plays (fresh_state now))))"
    and "T \<equiv> \<Sum>x\<in>fst ` set plays. listening_weight ch plays x"
    and "name \<equiv> bytes32_to_string (pm_hex_encode pm)"
  obtains fee p where "fee_of ch (ev_tier ev) = Inr fee" and "bt_wf (per_work p)"
    and "finalize (pm_keccak256 pm) (pm_hex_decode pm) (cf_epoch jcfg) p
           (bs_of_list (map name (ps_escrow (accrue_all enc plays (fresh_state now))))) = Inr s"
    and "\<And>k. k \<notin> name ` K \<or> T = 0 \<Longrightarrow> bt_get_or 0 (per_work p) k = 0"
    and "\<And>x. \<lbrakk>x \<in> K; T \<noteq> 0\<rbrakk> \<Longrightarrow> unat fee * listening_weight ch plays x div T \<le> unat (bt_get_or 0 (per_work p) (name x))
           \<and> unat (bt_get_or 0 (per_work p) (name x)) \<le> unat fee * listening_weight ch plays x div T + 1"
    and "map_total (per_work p) = (if T = 0 then 0 else unat fee)"
proof -
  let ?st = "accrue_all enc plays (fresh_state now)"
  let ?U = "fst (flush_usage ?st)" and ?W = "listening_weight ch plays"
  note U = played_entries [where enc = enc and plays = plays and now = now, folded K_def]
  obtain addr where d: "d = player_disclosure addr (build_openings ?U (pw_salt w)) (ps_escrow ?st)"
    using settle_disclosure [OF assms(1-3)] by blast
  have "for_user d (ev_user ev) \<noteq> None" using assms(7) by (auto simp: filter_eq_Cons_iff)
  then have ops: "openings_of d ev = build_openings ?U (pw_salt w)" unfolding d disclosed_openings by auto
  obtain fee fee128 fees p raws where job: "fee_of ch (ev_tier ev) = Inr fee" "unat fee = unat fee128" "bt_wf fees"
      "bt_get fees (ev_user ev) = Some fee128"
      "list_all2 (\<lambda>op r. raw_of_usage 1000000 (row_at pm ch (ev_user ev) op) = Inr r) (build_openings ?U (pw_salt w)) raws"
      "allocate_from_raw_with_row_credibility fees raws (replicate (length raws) 1000000) = Inr p"
      "finalize (pm_keccak256 pm) (pm_hex_decode pm) (cf_epoch jcfg) p (bs_of_list (map name (ps_escrow ?st))) = Inr s"
    using disclosed_allocation [OF assms(4-7)] unfolding ops name_def by (auto simp: d player_disclosure_def)
  have rows: "map (\<lambda>r. (rr_work r, unat (rr_raw r))) raws = map (\<lambda>e. (name (ue_work_id e), ?W (ue_work_id e))) ?U"
    unfolding disclosed_raws(2) [OF job(5)] name_def by (rule map_cong [OF refl]) (simp add: U(2))
  have works: "map rr_work raws = map name (map ue_work_id ?U)"
    and weights: "map (\<lambda>r. unat (rr_raw r)) raws = map ?W (map ue_work_id ?U)"
    using arg_cong [OF rows, of "map fst"] arg_cong [OF rows, of "map snd"] by (simp_all add: comp_def)
  have inj: "name x = name y \<longleftrightarrow> x = y" for x y unfolding name_def by (rule hex_codec.to_string_inj [OF codec])
  have "(\<Sum>r\<leftarrow>raws. unat (rr_raw r)) = (\<Sum>x\<in>K. ?W x)"
    unfolding weights K_def using U(1) by (simp only: sum_list_distinct_conv_sum_set set_map)
  also have "\<dots> = T" unfolding T_def using U(3,4) by (intro sum.mono_neutral_left) auto
  finally have total: "(\<Sum>r\<leftarrow>raws. unat (rr_raw r)) = T" .
  have "length raws \<le> length plays"
    using arg_cong [OF works, of length] distinct_card [OF U(1)] card_mono [OF _ U(4)] card_image_le [of "set plays" fst]
      card_length [of plays] by (simp add: K_def)
  with assms(9) have short: "length raws < 2 ^ 64" by simp
  have distinct: "distinct (map rr_work raws)" unfolding works using U(1) inj by (simp add: distinct_map inj_on_def)
  note credit = listener_credit [OF job(6) short job(3,4) disclosed_raws(1) [OF job(5)] distinct, unfolded total]
  have names: "rr_work ` set raws = name ` K" using arg_cong [OF works, of set] by (simp add: image_image K_def)
  have bounds: "unat fee * ?W x div T \<le> unat (bt_get_or 0 (per_work p) (name x))
        \<and> unat (bt_get_or 0 (per_work p) (name x)) \<le> unat fee * ?W x div T + 1" if "x \<in> K" "T \<noteq> 0" for x
  proof -
    from that(1) have "(name x, ?W x) \<in> set (map (\<lambda>r. (rr_work r, unat (rr_raw r))) raws)" unfolding rows K_def by auto
    then obtain r where r: "r \<in> set raws" "name x = rr_work r" "?W x = unat (rr_raw r)" by auto
    from credit(2) [OF r(1) that(2)] show ?thesis by (simp add: r(2,3) job(2))
  qed
  show thesis
    by (rule that [OF job(1) _ job(7) credit(1) bounds credit(3) [folded job(2)]])
      (use allocation_Inr [OF job(6) short] names in auto)
qed

text \<open>C4: listening is paid. Let a listener play any files since the last settlement, disclose them with
  the settle command, and let a settlement job read that disclosure and succeed over events of which
  one is the listener's. Then the works played share the listener's whole fee in proportion to floored
  minutes, the registry's price and diminishing returns, each within one unit of its exact share (if
  no play has weight, nothing is paid); a work's share is a direct, provable credit, or lies in escrow
  when some play recognised the work only by fingerprint; and no other work receives anything.\<close>
theorem listening_is_paid:
  assumes "load_config w = Inr cfg" and "load_session w cfg = Inr (accrue_all enc plays (fresh_state now))"
    and "DiscloseTo path d \<in> set (fst (cmd_settle w send []))"
    and "run_disclosure pm ch fs jcfg file = Inr s" and "disclosure_load (read_text fs) (parse_disclosure fs) file = Inr d"
    and "get_logs ch (dp_consumption (cf_deployments jcfg)) (cf_epoch jcfg) = Inr (map Inr evs)"
    and "List.filter (\<lambda>e. for_user d (ev_user e) \<noteq> None) evs = [ev]"
    and codec: "hex_codec (pm_hex_encode pm) (pm_hex_decode pm)"
    and ids: "\<And>x. x \<in> fst ` set plays \<Longrightarrow> b32_ok x" and "length plays < 2 ^ 64"
  shows "\<exists>fee share. fee_of ch (ev_tier ev) = Inr fee
     \<and> fair_shares (unat fee) (listening_weight ch plays) (fst ` set plays) share
     \<and> (\<forall>x. direct_amount s x = (if \<exists>secs. (x, secs, True) \<in> set plays then 0 else share x)
          \<and> escrow_amount s x = (if \<exists>secs. (x, secs, True) \<in> set plays then share x else 0))"
proof -
  let ?st = "accrue_all enc plays (fresh_state now)" and ?name = "bytes32_to_string (pm_hex_encode pm)"
  let ?W = "listening_weight ch plays" and ?P = "fst ` set plays" and ?K = "ue_work_id ` set (fst (flush_usage ?st))"
  let ?T = "\<Sum>x\<in>?P. ?W x"
  note U = played_entries [where enc = enc and plays = plays and now = now]
  obtain fee p where job: "fee_of ch (ev_tier ev) = Inr fee" "bt_wf (per_work p)"
      "finalize (pm_keccak256 pm) (pm_hex_decode pm) (cf_epoch jcfg) p (bs_of_list (map ?name (ps_escrow ?st))) = Inr s"
    and zero: "\<And>k. k \<notin> ?name ` ?K \<or> ?T = 0 \<Longrightarrow> bt_get_or 0 (per_work p) k = 0"
    and bounds: "\<And>x. \<lbrakk>x \<in> ?K; ?T \<noteq> 0\<rbrakk> \<Longrightarrow> unat fee * ?W x div ?T \<le> unat (bt_get_or 0 (per_work p) (?name x))
           \<and> unat (bt_get_or 0 (per_work p) (?name x)) \<le> unat fee * ?W x div ?T + 1"
    and total: "map_total (per_work p) = (if ?T = 0 then 0 else unat fee)"
    using listening_payouts [OF assms(1-8,10)] by blast
  have inj: "?name x = ?name y \<longleftrightarrow> x = y" for x y by (rule hex_codec.to_string_inj [OF codec])
  let ?share = "\<lambda>x. if x \<in> ?K then unat (bt_get_or 0 (per_work p) (?name x)) else 0"
  note routed = routed_by_name [OF job(3) codec job(2) ids [OF subsetD [OF U(4)]] zero [OF disjI1]]
  have fp: "?name x \<in> set (bs_of_list (map ?name (ps_escrow ?st))) \<longleftrightarrow> (\<exists>secs. (x, secs, True) \<in> set plays)" for x
    using plays_accounted [of enc plays now] inj by (auto simp: Let_def take_escrow_works_def)
  have "unat fee * ?W x div ?T \<le> ?share x \<and> ?share x \<le> unat fee * ?W x div ?T + 1" if "?T \<noteq> 0" for x
  proof (cases "x \<in> ?K")
    case False
    then have "?W x = 0" using U(3) [where ch = ch and w = x] by metis
    with False show ?thesis by simp
  qed (use bounds that in simp)
  moreover have "?share x = 0" if "x \<notin> ?P \<or> ?T = 0" for x using that U(4) zero [of "?name x"] by auto
  moreover have "(\<Sum>x\<in>?P. ?share x) = map_total (per_work p)"
  proof -
    have "(\<Sum>x\<in>?P. ?share x) = (\<Sum>x\<in>?K. unat (bt_get_or 0 (per_work p) (?name x)))"
      using U(4) by (intro sum.mono_neutral_cong_right) auto
    also have "\<dots> = map_total (per_work p)"
      by (rule total_over_names [OF job(2) _ _ zero [OF disjI1]]) (simp_all add: inj_on_def inj)
    finally show ?thesis .
  qed
  ultimately have "fair_shares (unat fee) ?W ?P ?share" unfolding fair_shares_def Let_def total by auto
  with routed job(1) show ?thesis unfolding fp by blast
qed

section \<open>A concrete listener\<close>

definition trip_plays :: "play list" where
  "trip_plays = [(demo_work_id, 150, False), (Bytes32 (replicate 32 2), 60, True)]"

definition trip_state :: player_state where
  "trip_state = accrue_all hex_string trip_plays (fresh_state 0)"

definition trip_disclosure :: disclosure where
  "trip_disclosure = player_disclosure ''PRIVATE_KEY'' (build_openings (fst (flush_usage trip_state)) (\<lambda>_. Bytes32 (replicate 32 3)))
     (ps_escrow trip_state)"

definition trip_player :: "(nat, nat, player_state) player_world" where
  "trip_player = demo_player\<lparr>pw_read := (\<lambda>_. Content trip_state)\<rparr>"

definition trip_events :: "submission list" where
  "trip_events = [ex_submission ''0xbb'' [0], ex_submission ''private_key'' [0]]"

definition trip_chain :: chain_view where
  "trip_chain = (ex_chain trip_events)\<lparr>price_per_min_of := (\<lambda>_. Inr 5)\<rparr>"

definition trip_files :: files where
  "trip_files = ex_files\<lparr>read_text := (\<lambda>_. Inr ''''), parse_disclosure := (\<lambda>_. Inr trip_disclosure)\<rparr>"

lemma trip_usage:
  "fst (flush_usage trip_state) = [\<lparr>ue_work_id = demo_work_id, ue_minutes = 2, ue_plays = 1\<rparr>,
     \<lparr>ue_work_id = Bytes32 (replicate 32 2), ue_minutes = 1, ue_plays = 1\<rparr>]"
  by code_simp

lemma trip_escrow: "ps_escrow trip_state = [Bytes32 (replicate 32 2)]"
  by code_simp

lemma trip_settled: "is_ok (run_disclosure ex_prims trip_chain trip_files ex_config ''f'')"
  by code_simp

lemma trip_player_facts:
  "load_config trip_player = Inr demo_cfg" "load_session trip_player demo_cfg = Inr trip_state"
  "pw_salt trip_player = (\<lambda>_. Bytes32 (replicate 32 3))" "pw_address_of trip_player = Inr"
proof -
  have "load_config trip_player = load_config demo_player" by (simp add: load_config_def trip_player_def)
  then show "load_config trip_player = Inr demo_cfg" by (simp add: demo_player_def demo_config)
qed (simp_all add: load_session_def session_load_def trip_player_def demo_player_def demo_world_def)

lemma trip_disclosed:
  "DiscloseTo ''DISCLOSURE'' trip_disclosure \<in> set (fst (cmd_settle trip_player (\<lambda>_. Inr ()) []))"
proof -
  obtain d put sv where plan: "\<And>tier. settle_plan trip_player demo_cfg trip_state ''PRIVATE_KEY'' ''CONSUMPTION'' tier = [d, put tier, sv]"
    by (simp add: settle_plan_def Let_def)
  have chain: "require_chain demo_cfg = Inr (''PRIVATE_KEY'', ''CONSUMPTION'', ''TIER_ID'')"
    by (simp add: require_chain_def demo_cfg_def)
  have path: "pc_disclosure_path demo_cfg = ''DISCLOSURE''" by (simp add: demo_cfg_def)
  have ne: "fst (flush_usage trip_state) \<noteq> []" and addr: "pw_address_of trip_player ''PRIVATE_KEY'' = Inr ''PRIVATE_KEY''"
    by (simp_all add: trip_usage trip_player_facts(4))
  have "d \<in> set (fst (cmd_settle trip_player (\<lambda>_. Inr ()) []))"
    unfolding settle_shape [OF trip_player_facts(1,2) ne chain addr plan]
    by (auto simp: job_fst_cases perform_def split: sum.splits)
  moreover have "d = DiscloseTo ''DISCLOSURE'' trip_disclosure"
    using plan [of "[]"] by (simp add: settle_plan_def Let_def path trip_player_facts(3) trip_disclosure_def)
  ultimately show ?thesis by simp
qed

theorem listening_is_paid_witness:
  "\<exists>s. run_disclosure ex_prims trip_chain trip_files ex_config ''f'' = Inr s
     \<and> direct_amount s demo_work_id + escrow_amount s (Bytes32 (replicate 32 2)) = 1000
     \<and> 666 \<le> direct_amount s demo_work_id \<and> direct_amount s demo_work_id \<le> 667"
proof -
  let ?w = "Bytes32 (replicate 32 2)"
  obtain s where s: "run_disclosure ex_prims trip_chain trip_files ex_config ''f'' = Inr s"
    using trip_settled by (auto simp: is_ok_iff)
  have load: "disclosure_load (read_text trip_files) (parse_disclosure trip_files) ''f'' = Inr trip_disclosure"
    by (simp add: disclosure_load_def trip_files_def)
  have logs: "get_logs trip_chain c e = Inr (map Inr trip_events)" for c e by (simp add: trip_chain_def ex_chain_def)
  have one: "List.filter (\<lambda>e. for_user trip_disclosure (ev_user e) \<noteq> None) trip_events = [ex_submission ''private_key'' [0]]"
    by code_simp
  have codec: "hex_codec (pm_hex_encode ex_prims) (pm_hex_decode ex_prims)"
    using hex.hex_codec_axioms by (simp add: ex_prims_def)
  have ids: "x \<in> fst ` set trip_plays \<Longrightarrow> b32_ok x" for x by (auto simp: trip_plays_def demo_work_id_def b32_ok_def)
  have short: "length trip_plays < 2 ^ 64" by (simp add: trip_plays_def)
  from listening_is_paid [OF trip_player_facts(1) trip_player_facts(2) [unfolded trip_state_def] trip_disclosed s load logs one codec ids short]
  obtain fee share where r: "fee_of trip_chain (ev_tier (ex_submission ''private_key'' [0])) = Inr fee"
      "fair_shares (unat fee) (listening_weight trip_chain trip_plays) (fst ` set trip_plays) share"
      "direct_amount s demo_work_id = share demo_work_id" "escrow_amount s ?w = share ?w"
    by (auto simp: trip_plays_def demo_work_id_def)
  have fee: "fee = 1000" using r(1) by (simp add: trip_chain_def ex_chain_def)
  have weights: "listening_weight trip_chain trip_plays demo_work_id = 10000000"
    "listening_weight trip_chain trip_plays ?w = 5000000"
  proof -
    have "d_ppm 1 1000000 = 1000000" by code_simp
    then show "listening_weight trip_chain trip_plays demo_work_id = 10000000"
      "listening_weight trip_chain trip_plays ?w = 5000000"
      by (simp_all add: listening_weight_def trip_plays_def seconds_of_def plays_of_def demo_work_id_def U64_MAX_def
          price_at_def trip_chain_def)
  qed
  have works: "fst ` set trip_plays = {demo_work_id, ?w}" "demo_work_id \<noteq> ?w" by (auto simp: trip_plays_def demo_work_id_def)
  have "666 \<le> share demo_work_id \<and> share demo_work_id \<le> 667 \<and> share demo_work_id + share ?w = 1000"
    using r(2) works(2) by (simp add: fair_shares_def Let_def works(1) weights fee)
  with s r(3,4) show ?thesis by (intro exI [of _ s]) simp
qed

end
