(* ===== verification/Registry.thy ===== *)
theory Registry
  imports Hub Zk
begin

text \<open>
  The work registry on chain, \<open>chain/contracts/CWERegistry.sol\<close>: who may register a work, the checks of
  payees, splits and consents, and the bandwidth rate. The hub's tool \<open>bin/sign_consent.rs\<close> and the
  settlement job meet it here. The precompile \<open>ecrecover\<close>, keccak256 and the credential registry are
  parameters; a revert leaves the state as it was.
\<close>

section \<open>State\<close>

record chain_work =
  wk_payees :: "address list"
  wk_splits :: "96 word list"
  wk_price_per_min :: u256
  wk_region_rule :: "u8 list"
  wk_registrant :: address
  wk_exists :: bool
  wk_content_id :: "u8 list"
  wk_registered_at :: u256
  wk_bandwidth_rate :: u256

type_synonym registry = "u8 list \<Rightarrow> chain_work"

definition zero_address :: address where
  "zero_address = replicate 20 0"

definition blank_work :: chain_work where
  "blank_work = \<lparr>wk_payees = [], wk_splits = [], wk_price_per_min = 0, wk_region_rule = replicate 32 0,
     wk_registrant = zero_address, wk_exists = False, wk_content_id = replicate 32 0, wk_registered_at = 0,
     wk_bandwidth_rate = 0\<rparr>"

definition PPM_TOTAL :: u256 where
  "PPM_TOTAL = 1000000"

definition MIN_BANDWIDTH_RATE :: u256 where
  "MIN_BANDWIDTH_RATE = 60000"

definition MAX_BANDWIDTH_RATE :: u256 where
  "MAX_BANDWIDTH_RATE = 2000000000"

datatype registry_revert =
  NotVerifiedCreator | BadArrayLengths | ZeroPayee | ZeroSplit | SplitsNotFull u256 | NotRegistrant
| BadConsent | BadBandwidthRate | SplitsOverflow

datatype registry_event =
  WorkRegistered "u8 list" address | WorkUpdated "u8 list" address | BandwidthRateSet "u8 list" u256

section \<open>Validation\<close>

definition check_share :: "u256 \<Rightarrow> address \<times> 96 word \<Rightarrow> registry_revert + u256" where
  "check_share summed s =
     (case s of (payee, split) \<Rightarrow>
        if payee = zero_address then Inl ZeroPayee
        else if split = 0 then Inl ZeroSplit
        else ok_or SplitsOverflow (checked_add summed (ucast split)))"

definition validate_splits :: "address list \<Rightarrow> 96 word list \<Rightarrow> registry_revert + unit" where
  "validate_splits payees splits =
     (if payees = [] \<or> length payees \<noteq> length splits then Inl BadArrayLengths
      else
        res_bind (res_fold check_share 0 (zip payees splits)) (\<lambda>summed.
        if summed \<noteq> PPM_TOTAL then Inl (SplitsNotFull summed) else Inr ()))"

definition chain_consent_digest ::
    "(u8 list \<Rightarrow> u8 list) \<Rightarrow> u8 list \<Rightarrow> u8 list \<Rightarrow> address \<Rightarrow> 96 word \<Rightarrow> u8 list" where
  "chain_consent_digest keccak256 work_id content_id payee share =
     keccak256 (work_id @ content_id @ (replicate 12 0 @ payee) @ int_be 32 (uint share))"

text \<open>The EIP-191 prefix of a signed 32-byte message.\<close>

definition personal_message :: "u8 list \<Rightarrow> u8 list" where
  "personal_message msg = 0x19 # map of_char ''Ethereum Signed Message:'' @ [0x0A] @ map of_char ''32'' @ msg"

definition recover_payee ::
    "(u8 list \<Rightarrow> u8 \<Rightarrow> u8 list \<Rightarrow> u8 list \<Rightarrow> address) \<Rightarrow> u8 list \<Rightarrow> u8 list \<Rightarrow> registry_revert + address" where
  "recover_payee ecrecover hash sig =
     (if length sig \<noteq> 65 then Inl BadConsent
      else Inr (ecrecover hash (sig ! 64) (take 32 sig) (take 32 (drop 32 sig))))"

record registry_env =
  rv_keccak256 :: "u8 list \<Rightarrow> u8 list"
  rv_ecrecover :: "u8 list \<Rightarrow> u8 \<Rightarrow> u8 list \<Rightarrow> u8 list \<Rightarrow> address"

definition check_consent ::
    "registry_env \<Rightarrow> u8 list \<Rightarrow> u8 list \<Rightarrow> address \<times> 96 word \<times> u8 list \<Rightarrow> registry_revert + unit" where
  "check_consent env work_id content_id c =
     (case c of (payee, split, sig) \<Rightarrow>
        let dg = chain_consent_digest (rv_keccak256 env) work_id content_id payee split in
        res_bind (recover_payee (rv_ecrecover env) (rv_keccak256 env (personal_message dg)) sig) (\<lambda>signer.
        if signer \<noteq> payee then Inl BadConsent else Inr ()))"

section \<open>Transactions\<close>

record work_call =
  wc_work_id :: "u8 list"
  wc_content_id :: "u8 list"
  wc_payees :: "address list"
  wc_splits :: "96 word list"
  wc_consent_sigs :: "u8 list list"
  wc_price_per_min :: u256
  wc_region_rule :: "u8 list"

definition register_work ::
    "registry_env \<Rightarrow> (address \<Rightarrow> bool) \<Rightarrow> address \<Rightarrow> u256 \<Rightarrow> work_call \<Rightarrow> registry
     \<Rightarrow> registry_revert + registry_event \<times> registry" where
  "register_work env is_creator sender timestamp call r =
     (if \<not> is_creator sender then Inl NotVerifiedCreator
      else
        res_bind (validate_splits (wc_payees call) (wc_splits call)) (\<lambda>_.
        if length (wc_consent_sigs call) \<noteq> length (wc_payees call) then Inl BadArrayLengths
        else
          res_bind (res_fold (\<lambda>_. check_consent env (wc_work_id call) (wc_content_id call)) ()
              (zip (wc_payees call) (zip (wc_splits call) (wc_consent_sigs call)))) (\<lambda>_.
          let work = r (wc_work_id call); is_new = \<not> wk_exists work in
          if \<not> is_new \<and> wk_registrant work \<noteq> sender then Inl NotRegistrant
          else
            let owned = (if is_new then work\<lparr>wk_registrant := sender, wk_exists := True, wk_registered_at := timestamp\<rparr>
                         else work);
                stored = owned\<lparr>wk_payees := wc_payees call, wk_splits := wc_splits call,
                               wk_price_per_min := wc_price_per_min call, wk_region_rule := wc_region_rule call,
                               wk_content_id := wc_content_id call\<rparr>
            in Inr (if is_new then WorkRegistered (wc_work_id call) sender else WorkUpdated (wc_work_id call) sender,
                    r(wc_work_id call := stored)))))"

definition set_bandwidth_rate ::
    "address \<Rightarrow> u8 list \<Rightarrow> u256 \<Rightarrow> registry \<Rightarrow> registry_revert + registry_event \<times> registry" where
  "set_bandwidth_rate sender work_id rate r =
     (if sender \<noteq> wk_registrant (r work_id) then Inl NotRegistrant
      else if rate < MIN_BANDWIDTH_RATE \<or> rate > MAX_BANDWIDTH_RATE then Inl BadBandwidthRate
      else Inr (BandwidthRateSet work_id rate, r(work_id := (r work_id)\<lparr>wk_bandwidth_rate := rate\<rparr>)))"

text \<open>A history of the deployed contract: the transactions that went through, each sent from an account,
  never from the zero address.\<close>

datatype registry_tx = RegisterTx address u256 work_call | RateTx address "u8 list" u256

inductive registry_run :: "registry_env \<Rightarrow> registry_tx list \<Rightarrow> registry \<Rightarrow> bool" for env where
  deployed: "registry_run env [] (\<lambda>_. blank_work)"
| registered: "\<lbrakk>registry_run env txs r; sender \<noteq> zero_address; register_work env is_creator sender timestamp call r = Inr (ev, r')\<rbrakk>
    \<Longrightarrow> registry_run env (txs @ [RegisterTx sender timestamp call]) r'"
| rated: "\<lbrakk>registry_run env txs r; sender \<noteq> zero_address; set_bandwidth_rate sender work_id rate r = Inr (ev, r')\<rbrakk>
    \<Longrightarrow> registry_run env (txs @ [RateTx sender work_id rate]) r'"

section \<open>What validation guarantees\<close>

definition payable_splits :: "address list \<Rightarrow> 96 word list \<Rightarrow> bool" where
  "payable_splits payees splits \<longleftrightarrow>
     payees \<noteq> [] \<and> length payees = length splits \<and> zero_address \<notin> set payees \<and> 0 \<notin> set splits
     \<and> (\<Sum>s\<leftarrow>splits. unat s) = 1000000"

lemma unat_u96_u256 [unat_arith_simps]: "unat (ucast (a :: 96 word) :: u256) = unat a"
proof (rule unat_ucast_exact)
  have "unat a < 2 ^ 96" using unsigned_less [of a] by simp
  also have "\<dots> \<le> (2::nat) ^ LENGTH(256)" by simp
  finally show "unat a < 2 ^ LENGTH(256)" .
qed

lemma u256_bound: "unat (a :: u256) < 2 ^ LENGTH(256)"
  by (rule unsigned_less)

lemma check_share_Inr:
  "check_share a (payee, split) = Inr b \<longleftrightarrow> payee \<noteq> zero_address \<and> split \<noteq> 0 \<and> unat b = unat a + unat split"
  by (simp add: check_share_def result_simps unat_arith_simps)

lemma check_shares_Inr:
  "length payees = length splits \<Longrightarrow>
     res_fold check_share a (zip payees splits) = Inr summed \<longleftrightarrow>
       zero_address \<notin> set payees \<and> 0 \<notin> set splits \<and> unat summed = unat a + (\<Sum>s\<leftarrow>splits. unat s)"
proof (induction payees splits arbitrary: a rule: list_induct2)
  case Nil
  then show ?case by (auto simp: word_unat_eq_iff)
next
  case (Cons p ps s ss)
  have ex: "\<exists>b :: u256. unat b = n" if "n \<le> unat summed" for n
    using that u256_bound [of summed] by (intro exI [of _ "of_nat n"]) (simp add: unsigned_of_nat take_bit_nat_eq_self)
  have "res_fold check_share a (zip (p # ps) (s # ss)) = Inr summed \<longleftrightarrow>
      p \<noteq> zero_address \<and> s \<noteq> 0 \<and> (\<exists>b :: u256. unat b = unat a + unat s \<and> zero_address \<notin> set ps \<and> 0 \<notin> set ss
        \<and> unat summed = unat b + (\<Sum>s\<leftarrow>ss. unat s))"
    by (simp add: res_bind_eq_Inr check_share_Inr Cons.IH)
  also have "\<dots> \<longleftrightarrow> zero_address \<notin> set (p # ps) \<and> 0 \<notin> set (s # ss) \<and> unat summed = unat a + (\<Sum>s\<leftarrow>s # ss. unat s)"
    using ex [of "unat a + unat s"] by (simp add: add.assoc [symmetric]) (metis le_add1)
  finally show ?case .
qed

lemma validate_splits_Inr: "validate_splits payees splits = Inr u \<longleftrightarrow> payable_splits payees splits"
proof (cases "length payees = length splits")
  case True
  have "(\<Sum>s\<leftarrow>splits. unat s) = 1000000 \<Longrightarrow> unat PPM_TOTAL = 0 + (\<Sum>s\<leftarrow>splits. unat s)" by (simp add: PPM_TOTAL_def)
  moreover have "unat summed = (\<Sum>s\<leftarrow>splits. unat s) \<Longrightarrow> (\<Sum>s\<leftarrow>splits. unat s) = 1000000 \<longleftrightarrow> summed = PPM_TOTAL" for summed :: u256
    by (auto simp: PPM_TOTAL_def word_unat_eq_iff)
  ultimately show ?thesis
    using True check_shares_Inr [OF True, of 0]
    by (auto simp: validate_splits_def payable_splits_def result_simps)
qed (auto simp: validate_splits_def payable_splits_def)

definition consented :: "registry_env \<Rightarrow> u8 list \<Rightarrow> u8 list \<Rightarrow> address \<Rightarrow> 96 word \<Rightarrow> bool" where
  "consented env work_id content_id payee split \<longleftrightarrow>
     (\<exists>sig. recover_payee (rv_ecrecover env)
        (rv_keccak256 env (personal_message (chain_consent_digest (rv_keccak256 env) work_id content_id payee split))) sig
        = Inr payee)"

lemma check_consent_Inr:
  "check_consent env w c (payee, split, sig) = Inr u \<longleftrightarrow>
     recover_payee (rv_ecrecover env)
       (rv_keccak256 env (personal_message (chain_consent_digest (rv_keccak256 env) w c payee split))) sig = Inr payee"
  by (auto simp: check_consent_def Let_def result_simps)

lemma check_consents_Inr:
  "res_fold (\<lambda>_. check_consent env w c) () xs = Inr () \<longleftrightarrow> (\<forall>x \<in> set xs. check_consent env w c x = Inr ())"
  by (induction xs) (auto simp: result_simps)

lemma register_work_Inr:
  assumes "register_work env is_creator sender timestamp call r = Inr (ev, r')"
  defines "w \<equiv> wc_work_id call"
  shows "is_creator sender \<and> payable_splits (wc_payees call) (wc_splits call)
       \<and> list_all2 (consented env w (wc_content_id call)) (wc_payees call) (wc_splits call)
       \<and> (wk_exists (r w) \<longrightarrow> wk_registrant (r w) = sender)
       \<and> (\<forall>w'. w' \<noteq> w \<longrightarrow> r' w' = r w')
       \<and> r' w = \<lparr>wk_payees = wc_payees call, wk_splits = wc_splits call, wk_price_per_min = wc_price_per_min call,
                 wk_region_rule = wc_region_rule call, wk_registrant = sender, wk_exists = True,
                 wk_content_id = wc_content_id call,
                 wk_registered_at = (if wk_exists (r w) then wk_registered_at (r w) else timestamp),
                 wk_bandwidth_rate = wk_bandwidth_rate (r w)\<rparr>"
proof -
  from assms(1) have c: "is_creator sender" and v: "payable_splits (wc_payees call) (wc_splits call)"
    and l: "length (wc_consent_sigs call) = length (wc_payees call)"
    and f: "res_fold (\<lambda>_. check_consent env w (wc_content_id call)) ()
        (zip (wc_payees call) (zip (wc_splits call) (wc_consent_sigs call))) = Inr ()"
    and n: "wk_exists (r w) \<longrightarrow> wk_registrant (r w) = sender"
    unfolding w_def by (auto simp: register_work_def Let_def res_bind_eq_Inr validate_splits_Inr split: if_splits)
  from assms(1) have r': "r' = r(w := (if wk_exists (r w) then r w else (r w)\<lparr>wk_registrant := sender, wk_exists := True,
        wk_registered_at := timestamp\<rparr>)\<lparr>wk_payees := wc_payees call, wk_splits := wc_splits call,
        wk_price_per_min := wc_price_per_min call, wk_region_rule := wc_region_rule call, wk_content_id := wc_content_id call\<rparr>)"
    unfolding w_def by (auto simp: register_work_def Let_def res_bind_eq_Inr split: if_splits)
  have "list_all2 (consented env w (wc_content_id call)) (wc_payees call) (wc_splits call)"
    unfolding list_all2_conv_all_nth
  proof (intro conjI allI impI)
    show ls: "length (wc_payees call) = length (wc_splits call)" using v by (simp add: payable_splits_def)
    fix i assume i: "i < length (wc_payees call)"
    then have "(wc_payees call ! i, wc_splits call ! i, wc_consent_sigs call ! i)
        \<in> set (zip (wc_payees call) (zip (wc_splits call) (wc_consent_sigs call)))"
      using l ls by (auto simp: set_zip)
    with f show "consented env w (wc_content_id call) (wc_payees call ! i) (wc_splits call ! i)"
      unfolding check_consents_Inr consented_def by (blast dest: check_consent_Inr [THEN iffD1])
  qed
  with c v n show ?thesis unfolding r' by (cases "r w") auto
qed

lemma set_rate_Inr:
  "set_bandwidth_rate sender w rate r = Inr (ev, r') \<longleftrightarrow>
     sender = wk_registrant (r w) \<and> 60000 \<le> unat rate \<and> unat rate \<le> 2000000000
     \<and> ev = BandwidthRateSet w rate \<and> r' = r(w := (r w)\<lparr>wk_bandwidth_rate := rate\<rparr>)"
  by (auto simp: set_bandwidth_rate_def MIN_BANDWIDTH_RATE_def MAX_BANDWIDTH_RATE_def word_less_nat_alt)

section \<open>Histories of the registry\<close>

definition sound_work :: "registry_env \<Rightarrow> u8 list \<Rightarrow> chain_work \<Rightarrow> bool" where
  "sound_work env w k \<longleftrightarrow>
     (if wk_exists k
      then payable_splits (wk_payees k) (wk_splits k)
         \<and> list_all2 (consented env w (wk_content_id k)) (wk_payees k) (wk_splits k)
         \<and> wk_registrant k \<noteq> zero_address
         \<and> (wk_bandwidth_rate k = 0 \<or> 60000 \<le> unat (wk_bandwidth_rate k) \<and> unat (wk_bandwidth_rate k) \<le> 2000000000)
      else k = blank_work)"

lemma registry_run_sound: "registry_run env txs r \<Longrightarrow> sound_work env w (r w)"
proof (induction rule: registry_run.induct)
  case deployed
  then show ?case by (simp add: sound_work_def blank_work_def)
next
  case (registered txs r sender is_creator timestamp call ev r')
  note reg = register_work_Inr [OF registered.hyps(3)]
  then show ?case
    using registered.hyps(2) registered.IH
    by (cases "w = wc_work_id call") (auto simp: sound_work_def blank_work_def split: if_splits)
next
  case (rated txs r sender work_id rate ev r')
  then show ?case
    by (auto simp: sound_work_def set_rate_Inr blank_work_def split: if_splits)
qed

text \<open>The registrations of one work in a history: who sent them, and when.\<close>

definition registrations :: "u8 list \<Rightarrow> registry_tx list \<Rightarrow> (address \<times> u256) list" where
  "registrations w txs =
     concat (map (\<lambda>tx. case tx of RegisterTx sender timestamp call \<Rightarrow>
                          if wc_work_id call = w then [(sender, timestamp)] else [] | RateTx _ _ _ \<Rightarrow> []) txs)"

lemma registrations_snoc [simp]:
  "registrations w [] = []"
  "registrations w (txs @ [RegisterTx sender timestamp call])
     = registrations w txs @ (if wc_work_id call = w then [(sender, timestamp)] else [])"
  "registrations w (txs @ [RateTx sender v rate]) = registrations w txs"
  by (simp_all add: registrations_def)

lemma registry_run_first:
  assumes "registry_run env txs r"
  shows "(wk_exists (r w) \<longleftrightarrow> registrations w txs \<noteq> [])
       \<and> (wk_exists (r w) \<longrightarrow> hd (registrations w txs) = (wk_registrant (r w), wk_registered_at (r w))
            \<and> (\<forall>(s, t) \<in> set (registrations w txs). s = wk_registrant (r w)))"
  using assms
proof (induction rule: registry_run.induct)
  case deployed
  then show ?case by (simp add: blank_work_def)
next
  case (registered txs r sender is_creator timestamp call ev r')
  note reg = register_work_Inr [OF registered.hyps(3)]
  show ?case
  proof (cases "w = wc_work_id call")
    case True
    then show ?thesis using reg registered.IH by (cases "wk_exists (r w)") (auto simp: hd_append)
  qed (use reg registered.IH in auto)
next
  case (rated txs r sender work_id rate ev r')
  then show ?case by (auto simp: set_rate_Inr)
qed

text \<open>C21: every registered work can be paid. In every history of the registry, a registered work has
  payees, none of them the zero address, with as many non-zero shares that sum to exactly one million;
  for every payee a signature was accepted over exactly this work, content, payee and share; its rate is
  unset or within the clamps, so that it fits the 64 bits the settlement job reads; its registrant and
  registration time are those of the first registration, and every later one came from the same sender.
  A work nobody registered has neither payees nor a rate.\<close>
theorem registered_works_are_payable:
  assumes "registry_run env txs r"
  shows "if registrations w txs = [] then r w = blank_work
         else payable_splits (wk_payees (r w)) (wk_splits (r w))
            \<and> list_all2 (consented env w (wk_content_id (r w))) (wk_payees (r w)) (wk_splits (r w))
            \<and> (wk_bandwidth_rate (r w) = 0
               \<or> 60000 \<le> unat (wk_bandwidth_rate (r w)) \<and> unat (wk_bandwidth_rate (r w)) \<le> 2000000000)
            \<and> hd (registrations w txs) = (wk_registrant (r w), wk_registered_at (r w))
            \<and> (\<forall>(s, t) \<in> set (registrations w txs). s = wk_registrant (r w))"
  using registry_run_sound [OF assms, of w] registry_run_first [OF assms, of w] by (auto simp: sound_work_def)

section \<open>Consents signed by the tool\<close>

lemma int_be_pad:
  assumes "0 \<le> v" and "v < 256 ^ n"
  shows "int_be (m + n) v = replicate m 0 @ int_be n v"
proof -
  have high: "v div 256 ^ (n + m - Suc i) = 0" if "i < m" for i
  proof -
    have "v < 256 ^ (n + m - Suc i)"
      using assms(2) power_increasing [of n "n + m - Suc i" "256 :: int"] that by linarith
    then show ?thesis using assms(1) by (simp add: div_pos_pos_trivial)
  qed
  show ?thesis
    by (rule nth_equalityI) (auto simp: int_be_def nth_append high add.commute [of m n])
qed

lemma u64_bytes_int_be: "u64_to_be_bytes v = int_be 8 (uint v)"
proof -
  have "(of_nat (unat v div 256 ^ n mod 256) :: u8) = word_of_int (uint v div 256 ^ n)" for n
  proof -
    have "(of_nat (unat v div 256 ^ n mod 256) :: u8) = word_of_int (int (unat v div 256 ^ n mod 256))" by simp
    also have "\<dots> = word_of_int (uint v div 256 ^ n mod 2 ^ LENGTH(8))" by (simp add: zdiv_int zmod_int)
    finally show ?thesis by (simp add: word_of_int_eq_iff take_bit_eq_mod)
  qed
  then show ?thesis by (simp add: u64_to_be_bytes_def int_be_def)
qed

lemma consent_digests_agree:
  "chain_consent_digest keccak256 w c payee (ucast share) = consent_digest keccak256 (Bytes32 w) (Bytes32 c) payee share"
proof -
  have "uint (ucast share :: 96 word) = uint share" by (simp add: uint_up_ucast is_up)
  moreover have "int_be (24 + 8) (uint share) = replicate 24 0 @ int_be 8 (uint share)"
    using uint_lt2p [of share] by (intro int_be_pad) simp_all
  ultimately show ?thesis by (simp add: chain_consent_digest_def consent_digest_def u64_bytes_int_be)
qed

text \<open>C25: a consent signed with the tool is accepted by the contract. When every payee signs its share with
  \<open>sign-consent\<close>, and the key signs for that payee's account, a verified creator's registration with
  valid splits and these signatures goes through and stores the payees, for a new work and for one the
  sender already owns: the digest of the tool, with its 64-bit share, is the contract's.\<close>
theorem signed_consents_register:
  assumes "\<And>bs. length (rv_keccak256 env bs) = 32"
    and "\<And>a b. hex_encode a = hex_encode b \<Longrightarrow> a = b"
    and "\<And>s msg sig. length msg = 32 \<Longrightarrow> sign s msg = Inr sig \<Longrightarrow>
           recover_payee (rv_ecrecover env) (rv_keccak256 env (personal_message msg)) sig = Inr (account s)"
    and "bytes32_from_str hex_decode work_text = Inr (Bytes32 (wc_work_id call))"
    and "bytes32_from_str hex_decode content_text = Inr (Bytes32 (wc_content_id call))"
    and "length (wc_consent_sigs call) = length (wc_payees call)"
    and "\<And>i. i < length (wc_payees call) \<Longrightarrow>
           var i ''PRIVATE_KEY'' = Some (key i) \<and> parse_key (key i) = Some (signer i) \<and> account (signer i) = wc_payees call ! i
         \<and> parse_address (payee_text i) = Some (wc_payees call ! i)
         \<and> parse_u64 (share_text i) = Some (share i) \<and> wc_splits call ! i = ucast (share i)
         \<and> sign_consent_run (rv_keccak256 env) (var i) parse_key sign hex_encode hex_decode parse_address
             [work_text, content_text, payee_text i, share_text i] = Inr (''0x'' @ hex_encode (wc_consent_sigs call ! i))"
    and "payable_splits (wc_payees call) (wc_splits call)" and "is_creator sender"
    and "wk_exists (r (wc_work_id call)) \<Longrightarrow> wk_registrant (r (wc_work_id call)) = sender"
  shows "\<exists>ev r'. register_work env is_creator sender timestamp call r = Inr (ev, r')
       \<and> wk_exists (r' (wc_work_id call)) \<and> wk_payees (r' (wc_work_id call)) = wc_payees call
       \<and> wk_splits (r' (wc_work_id call)) = wc_splits call"
proof -
  have lens: "length (wc_payees call) = length (wc_splits call)" using assms(8) by (simp add: payable_splits_def)
  have "check_consent env (wc_work_id call) (wc_content_id call)
      (wc_payees call ! i, wc_splits call ! i, wc_consent_sigs call ! i) = Inr ()" if i: "i < length (wc_payees call)" for i
  proof -
    let ?d = "consent_digest (rv_keccak256 env) (Bytes32 (wc_work_id call)) (Bytes32 (wc_content_id call)) (wc_payees call ! i) (share i)"
    from assms(7) [OF i] obtain sig where sig: "sign (signer i) ?d = Inr sig"
        "hex_encode sig = hex_encode (wc_consent_sigs call ! i)"
      by (auto simp: sign_consent_run_def consent_field_def result_simps assms(4,5))
    have "length ?d = 32" by (simp add: consent_digest_def assms(1))
    from assms(3) [OF this sig(1)] assms(2) [OF sig(2)] assms(7) [OF i]
    show ?thesis by (simp add: check_consent_Inr consent_digests_agree)
  qed
  then have "res_fold (\<lambda>_. check_consent env (wc_work_id call) (wc_content_id call)) ()
      (zip (wc_payees call) (zip (wc_splits call) (wc_consent_sigs call))) = Inr ()"
    unfolding check_consents_Inr by (auto simp: set_zip)
  moreover have "validate_splits (wc_payees call) (wc_splits call) = Inr ()" using assms(8) by (simp add: validate_splits_Inr)
  ultimately show ?thesis using assms(6,9,10) by (auto simp: register_work_def Let_def res_bind_def)
qed

definition demo_registry_env :: registry_env where
  "demo_registry_env = \<lparr>rv_keccak256 = (\<lambda>bs. take 32 (bs @ replicate 32 0)), rv_ecrecover = (\<lambda>_ _ r _. take 20 r)\<rparr>"

definition demo_account :: "u8 list \<Rightarrow> address" where
  "demo_account s = take 20 (s @ replicate 20 0)"

definition demo_sign :: "u8 list \<Rightarrow> u8 list \<Rightarrow> string + u8 list" where
  "demo_sign s msg = Inr (demo_account s @ replicate 45 0)"

definition demo_work_call :: work_call where
  "demo_work_call = \<lparr>wc_work_id = replicate 32 1, wc_content_id = replicate 32 2,
     wc_payees = [replicate 20 7, replicate 20 8], wc_splits = [300000, 700000],
     wc_consent_sigs = [demo_account (replicate 20 7) @ replicate 45 0, demo_account (replicate 20 8) @ replicate 45 0],
     wc_price_per_min = 5, wc_region_rule = replicate 32 0\<rparr>"

lemma demo_payable: "payable_splits (wc_payees demo_work_call) (wc_splits demo_work_call)"
  by (simp add: payable_splits_def demo_work_call_def zero_address_def)

lemma demo_recovers:
  "recover_payee (rv_ecrecover demo_registry_env) hash (demo_account s @ replicate 45 0) = Inr (demo_account s)"
  by (auto simp: recover_payee_def demo_registry_env_def demo_account_def min_def)

lemma demo_accounts: "demo_account (replicate 20 b) = replicate 20 b"
  by (simp add: demo_account_def)

lemmas demo_seats = demo_accounts demo_recovers [of _ "replicate 20 b" for b, unfolded demo_accounts]

lemma demo_registers:
  "\<exists>ev r'. register_work demo_registry_env (\<lambda>_. True) (replicate 20 9) 100 demo_work_call (\<lambda>_. blank_work) = Inr (ev, r')
       \<and> r' (replicate 32 1) = \<lparr>wk_payees = [replicate 20 7, replicate 20 8], wk_splits = [300000, 700000],
            wk_price_per_min = 5, wk_region_rule = replicate 32 0, wk_registrant = replicate 20 9, wk_exists = True,
            wk_content_id = replicate 32 2, wk_registered_at = 100, wk_bandwidth_rate = 0\<rparr>"
proof -
  have "validate_splits (wc_payees demo_work_call) (wc_splits demo_work_call) = Inr ()"
    using demo_payable by (simp add: validate_splits_Inr)
  moreover have "res_fold (\<lambda>_. check_consent demo_registry_env (wc_work_id demo_work_call) (wc_content_id demo_work_call)) ()
      (zip (wc_payees demo_work_call) (zip (wc_splits demo_work_call) (wc_consent_sigs demo_work_call))) = Inr ()"
    unfolding check_consents_Inr by (auto simp: demo_work_call_def check_consent_Inr demo_seats)
  ultimately show ?thesis
    by (simp add: register_work_def Let_def res_bind_def blank_work_def) (simp add: demo_work_call_def)
qed

lemma demo_registry_run:
  "\<exists>r. registry_run demo_registry_env [RegisterTx (replicate 20 9) 100 demo_work_call] r
     \<and> wk_exists (r (replicate 32 1)) \<and> wk_payees (r (replicate 32 1)) = [replicate 20 7, replicate 20 8]
     \<and> wk_splits (r (replicate 32 1)) = [300000, 700000]"
proof -
  from demo_registers obtain ev r' where r: "register_work demo_registry_env (\<lambda>_. True) (replicate 20 9) 100 demo_work_call
      (\<lambda>_. blank_work) = Inr (ev, r')"
    and k: "wk_exists (r' (replicate 32 1)) \<and> wk_payees (r' (replicate 32 1)) = [replicate 20 7, replicate 20 8]
     \<and> wk_splits (r' (replicate 32 1)) = [300000, 700000]" by auto
  have "replicate 20 9 \<noteq> zero_address" by (simp add: zero_address_def)
  from registry_run.registered [OF registry_run.deployed this r] k show ?thesis by auto
qed

theorem registered_works_are_payable_witness:
  "\<exists>r. registry_run demo_registry_env [RegisterTx (replicate 20 9) 100 demo_work_call] r
     \<and> wk_registrant (r (replicate 32 1)) = replicate 20 9 \<and> payable_splits (wk_payees (r (replicate 32 1))) [300000, 700000]"
proof -
  from demo_registry_run obtain r where r: "registry_run demo_registry_env [RegisterTx (replicate 20 9) 100 demo_work_call] r"
    and s: "wk_splits (r (replicate 32 1)) = [300000, 700000]" by blast
  have "registrations (replicate 32 1) [RegisterTx (replicate 20 9) 100 demo_work_call] = [(replicate 20 9, 100)]"
    by (simp add: registrations_def demo_work_call_def)
  with registered_works_are_payable [OF r, of "replicate 32 1"] r s show ?thesis by auto
qed

theorem signed_consents_register_witness:
  "\<exists>ev r'. register_work demo_registry_env (\<lambda>_. True) (replicate 20 9) 100 demo_work_call (\<lambda>_. blank_work) = Inr (ev, r')
       \<and> wk_exists (r' (wc_work_id demo_work_call)) \<and> wk_payees (r' (wc_work_id demo_work_call)) = wc_payees demo_work_call
       \<and> wk_splits (r' (wc_work_id demo_work_call)) = wc_splits demo_work_call"
proof -
  let ?text = "\<lambda>i. if i = (0 :: nat) then ''a'' else ''b''"
  let ?parse = "\<lambda>t. Some (if t = ''a'' then replicate 20 7 else replicate 20 (8 :: u8))"
  let ?share = "\<lambda>i. if i = (0 :: nat) then 300000 else (700000 :: u64)"
  let ?id = "\<lambda>b. bytes32_to_string hex_string (Bytes32 (replicate 32 b))"
  have id: "bytes32_from_str decode_hex (?id b) = Inr (Bytes32 (replicate 32 b))" for b
    by (rule hex.from_str_to_string) (simp add: b32_ok_def)
  have n: "parse_u64 ''300000'' = Some 300000" "parse_u64 ''700000'' = Some 700000" by code_simp+
  have two: "i < length (wc_payees demo_work_call) \<Longrightarrow> i = 0 \<or> i = 1" for i by (auto simp: demo_work_call_def)
  show ?thesis
  proof (rule signed_consents_register [where hex_encode = hex_string and sign = demo_sign and account = demo_account
        and hex_decode = decode_hex and work_text = "?id 1" and content_text = "?id 2"
        and var = "\<lambda>i _. Some (?text i)" and key = ?text and signer = "\<lambda>i. the (?parse (?text i))" and parse_key = ?parse
        and payee_text = ?text and parse_address = ?parse and share_text = "\<lambda>i. if i = 0 then ''300000'' else ''700000''"
        and share = ?share], goal_cases)
    case (3 s msg sig)
    then show ?case by (auto simp: demo_sign_def demo_recovers)
  next
    case (7 i)
    from two [OF 7] id n show ?case
      by (auto simp: sign_consent_run_def consent_field_def result_simps demo_sign_def) (simp_all add: demo_work_call_def demo_accounts)
  qed (simp_all add: demo_payable id hex.encode_inj, simp_all add: demo_registry_env_def demo_work_call_def blank_work_def id)
qed

end
