(* ===== verification/Payouts.thy ===== *)
theory Payouts
  imports Epoch Registry
begin

text \<open>
  The payout ledger on chain, \<open>chain/contracts/CWEPayouts.sol\<close> with \<open>utils/MerkleProof.sol\<close>: the
  contract the settlement job commits its root to. Amounts are 256-bit words with the checked
  arithmetic of Solidity 0.8; a revert leaves the state as it was. The contract's own leaf and pair
  hashes are modelled beside those of the Rust crate and proved equal on what the job commits. Whether
  a payee accepts a transfer is a parameter; the guard against reentrancy makes a withdrawal one step.
\<close>

section \<open>Inclusion proofs on chain\<close>

definition uint256_bytes :: "u256 \<Rightarrow> b32" where
  "uint256_bytes v = int_be 32 (uint v)"

definition contract_leaf :: "(u8 list \<Rightarrow> hash) \<Rightarrow> b32 \<Rightarrow> u256 \<Rightarrow> hash" where
  "contract_leaf keccak256 work_id amount = keccak256 (work_id @ uint256_bytes amount)"

text \<open>Solidity compares 32-byte words as numbers.\<close>

definition contract_pair :: "(u8 list \<Rightarrow> hash) \<Rightarrow> hash \<Rightarrow> hash \<Rightarrow> hash" where
  "contract_pair keccak256 a b = (if be_int a < be_int b then keccak256 (a @ b) else keccak256 (b @ a))"

definition contract_verify :: "(u8 list \<Rightarrow> hash) \<Rightarrow> hash list \<Rightarrow> hash \<Rightarrow> hash \<Rightarrow> bool" where
  "contract_verify keccak256 path rt leaf \<longleftrightarrow> foldl (contract_pair keccak256) leaf path = rt"

section \<open>The ledger\<close>

record pool =
  epoch_root :: "u256 \<Rightarrow> b32"
  epoch_total :: "u256 \<Rightarrow> u256"
  epoch_committed :: "u256 \<Rightarrow> bool"
  pool_withdrawn :: "u256 \<Rightarrow> b32 \<Rightarrow> bool"
  liability :: u256
  pool_balance :: u256

datatype pool_revert =
  NotAggregator | EpochAlreadyCommitted u256 | Insolvent u256 u256 | EpochNotCommitted u256
| AlreadyWithdrawn u256 b32 | BadProof | WorkNotRegistered b32 | PayoutFailed address | Panic

definition pool_empty :: pool where
  "pool_empty = \<lparr>epoch_root = (\<lambda>_. replicate 32 0), epoch_total = (\<lambda>_. 0), epoch_committed = (\<lambda>_. False),
     pool_withdrawn = (\<lambda>_ _. False), liability = 0, pool_balance = 0\<rparr>"

definition pool_receive :: "u256 \<Rightarrow> pool \<Rightarrow> pool_revert + pool" where
  "pool_receive value p = res_bind (ok_or Panic (checked_add (pool_balance p) value)) (\<lambda>b. Inr (p\<lparr>pool_balance := b\<rparr>))"

definition commit_epoch :: "address \<Rightarrow> address \<Rightarrow> u256 \<Rightarrow> b32 \<Rightarrow> u256 \<Rightarrow> pool \<Rightarrow> pool_revert + pool" where
  "commit_epoch aggregator sender epoch rt credits p =
     (if sender \<noteq> aggregator then Inl NotAggregator
      else if epoch_committed p epoch then Inl (EpochAlreadyCommitted epoch)
      else
        res_bind (ok_or Panic (checked_add (liability p) credits)) (\<lambda>owed.
        if pool_balance p < owed then Inl (Insolvent (pool_balance p) owed)
        else Inr (p\<lparr>epoch_root := (epoch_root p)(epoch := rt), epoch_total := (epoch_total p)(epoch := credits),
                    epoch_committed := (epoch_committed p)(epoch := True), liability := owed\<rparr>)))"

text \<open>One transfer, and the loop over the payees: the last one gets what is not yet distributed.\<close>

definition transfer :: "(address \<Rightarrow> u256 \<Rightarrow> bool) \<Rightarrow> address \<Rightarrow> u256 \<Rightarrow> u256 \<Rightarrow> pool_revert + u256" where
  "transfer accepts payee share balance =
     (if share \<le> balance \<and> accepts payee share then Inr (balance - share) else Inl (PayoutFailed payee))"

fun split_pay ::
    "(address \<Rightarrow> u256 \<Rightarrow> bool) \<Rightarrow> u256 \<Rightarrow> address list \<Rightarrow> 96 word list \<Rightarrow> u256 \<Rightarrow> u256
     \<Rightarrow> pool_revert + (address \<times> u256) list \<times> u256" where
  "split_pay accepts amount [] splits distributed balance = Inr ([], balance)"
| "split_pay accepts amount [payee] splits distributed balance =
     res_bind (ok_or Panic (checked_sub amount distributed)) (\<lambda>share.
     res_bind (transfer accepts payee share balance) (\<lambda>b. Inr ([(payee, share)], b)))"
| "split_pay accepts amount (payee # next_payee # payees) splits distributed balance =
     (case splits of
        [] \<Rightarrow> Inl Panic
      | ppm # splits' \<Rightarrow>
          res_bind (ok_or Panic (checked_mul amount (ucast ppm))) (\<lambda>scaled.
          let share = scaled div 1000000 in
          res_bind (ok_or Panic (checked_add distributed share)) (\<lambda>distributed'.
          res_bind (transfer accepts payee share balance) (\<lambda>b.
          res_bind (split_pay accepts amount (next_payee # payees) splits' distributed' b) (\<lambda>(paid, b').
          Inr ((payee, share) # paid, b'))))))"

definition withdraw ::
    "(u8 list \<Rightarrow> hash) \<Rightarrow> registry \<Rightarrow> (address \<Rightarrow> u256 \<Rightarrow> bool)
     \<Rightarrow> u256 \<Rightarrow> b32 \<Rightarrow> u256 \<Rightarrow> hash list \<Rightarrow> pool \<Rightarrow> pool_revert + (address \<times> u256) list \<times> pool" where
  "withdraw keccak256 r accepts epoch work_id amount proof_path p =
     (if \<not> epoch_committed p epoch then Inl (EpochNotCommitted epoch)
      else if pool_withdrawn p epoch work_id then Inl (AlreadyWithdrawn epoch work_id)
      else if \<not> contract_verify keccak256 proof_path (epoch_root p epoch) (contract_leaf keccak256 work_id amount)
      then Inl BadProof
      else if wk_payees (r work_id) = [] then Inl (WorkNotRegistered work_id)
      else
        res_bind (ok_or Panic (checked_sub (liability p) amount)) (\<lambda>owed.
        res_bind (split_pay accepts amount (wk_payees (r work_id)) (wk_splits (r work_id)) 0 (pool_balance p)) (\<lambda>(paid, b).
        Inr (paid, p\<lparr>pool_withdrawn := (pool_withdrawn p)(epoch := (pool_withdrawn p epoch)(work_id := True)),
                     liability := owed, pool_balance := b\<rparr>))))"

section \<open>The encodings agree with the settlement job\<close>

lemma be_int_Cons: "be_int (x # xs) = uint x * 256 ^ length xs + be_int xs"
  using be_int_concat [of "[x]" xs] by (simp add: be_int_def)

lemma be_int_order:
  assumes "length a = length b"
  shows "a < b \<longleftrightarrow> be_int a < be_int b"
  using assms
proof (induction a b rule: list_induct2)
  case (Cons x xs y ys)
  let ?B = "256 ^ length ys :: int"
  have bounds: "0 \<le> be_int xs" "be_int xs < ?B" "0 \<le> be_int ys" "be_int ys < ?B"
    using be_int_nonneg be_int_less [of xs] be_int_less [of ys] Cons.hyps by simp_all
  have jump: "u * ?B + r < v * ?B + t" if "u < v" "r < ?B" "0 \<le> t" for u v r t :: int
  proof -
    have "(u + 1) * ?B \<le> v * ?B" using that(1) by (intro mult_right_mono) simp_all
    then show ?thesis using that by (simp add: algebra_simps)
  qed
  have "x < y \<Longrightarrow> uint x < uint y" "y < x \<Longrightarrow> uint y < uint x" by (simp_all add: word_less_alt)
  then show ?case
    using Cons.IH Cons.hyps jump [of "uint x" "uint y" "be_int xs" "be_int ys"] jump [of "uint y" "uint x" "be_int ys" "be_int xs"] bounds
    by (cases x y rule: linorder_cases) (auto simp: be_int_Cons)
qed (simp add: be_int_def)

lemma be_int_inj: "\<lbrakk>length a = length b; be_int a = be_int b\<rbrakk> \<Longrightarrow> a = b"
  using be_int_order [of a b] be_int_order [of b a] by (metis less_irrefl linorder_neqE)

lemma contract_pair_eq: "length a = length b \<Longrightarrow> contract_pair keccak256 a b = hash_pair keccak256 a b"
  using be_int_order [of a b] be_int_inj [of a b] by (auto simp: contract_pair_def hash_pair_def Let_def not_le not_less le_less)

lemma u128_bytes_int_be: "u128_to_be_bytes a = int_be 16 (uint a)"
proof -
  have "uint (drop_bit (8 * n) a) = drop_bit (8 * n) (uint a)" for n
    using uint_lt2p [of a] by (simp add: unsigned_drop_bit_eq take_bit_int_eq_self)
  then have "ucast (drop_bit (8 * n) a) = (word_of_int (drop_bit (8 * n) (uint a)) :: u8)" for n by (simp only: ucast_eq)
  then have "ucast (drop_bit (8 * n) a) = (word_of_int (uint a div 256 ^ n) :: u8)" for n
    by (simp only: drop_bit_eq_div power_mult) simp
  then show ?thesis unfolding u128_to_be_bytes_def int_be_def by (intro map_cong refl) simp
qed

lemma contract_leaf_eq: "contract_leaf keccak256 w (ucast a) = leaf_hash keccak256 w a"
proof -
  have "uint (ucast a :: u256) = uint a" by (simp add: uint_up_ucast is_up)
  moreover have "int_be (16 + 16) (uint a) = replicate 16 0 @ int_be 16 (uint a)"
    using uint_lt2p [of a] by (intro int_be_pad) simp_all
  ultimately have "replicate 16 0 @ int_be 16 (uint a) = int_be 32 (uint (ucast a :: u256))" by simp
  then show ?thesis by (simp add: contract_leaf_def leaf_hash_def uint256_bytes_def u128_bytes_int_be)
qed

lemma contract_verify_eq:
  assumes "\<And>bs. length (keccak256 bs) = 32" and "length leaf = 32" and "list_all (\<lambda>h. length h = 32) path"
  shows "contract_verify keccak256 path rt leaf \<longleftrightarrow> merkle_verify keccak256 path rt leaf"
proof -
  have "foldl (contract_pair keccak256) leaf path = foldl (hash_pair keccak256) leaf path"
    using assms(2,3)
  proof (induction path arbitrary: leaf)
    case (Cons h path)
    have "length (hash_pair keccak256 leaf h) = 32" by (simp add: hash_pair_def Let_def assms(1))
    with Cons show ?case by (simp add: contract_pair_eq)
  qed simp
  then show ?thesis by (simp add: contract_verify_def merkle_verify_def)
qed

lemma set_proof_walk: "set (proof_walk lvls i) \<subseteq> tree_nodes lvls"
proof (induction lvls i rule: proof_walk.induct)
  case (2 level rest idx)
  then show ?case by (auto simp: tree_nodes_def Let_def)
qed simp

lemma proof_hashes:
  assumes "merkle_build keccak256 ls = Some t" and "h \<in> set (merkle_proof t i)"
    and "\<And>bs. length (keccak256 bs) = 32" and "\<And>l. l \<in> set ls \<Longrightarrow> length l = 32"
  shows "length h = 32"
proof -
  have "levels t = levels_from (hash_pair keccak256) ls" using assms(1) by (auto simp: merkle_build_def split: if_splits)
  then have "h \<in> tree_nodes (levels_from (hash_pair keccak256) ls)"
    using assms(2) set_proof_walk [of "butlast (levels t)" i]
    by (auto simp: merkle_proof_def tree_nodes_def dest: in_set_butlastD)
  from tree_node_cases [OF this] assms(3,4) show ?thesis by (auto simp: hash_pair_def Let_def)
qed

text \<open>Every entry the settlement job publishes verifies in the contract.\<close>

lemma entry_verifies:
  assumes "finalize keccak256 dec epoch p esc = Inr s" and "e \<in> set (entries s)" and k: "\<And>bs. length (keccak256 bs) = 32"
  shows "contract_verify keccak256 (map as_bytes (se_proof e)) (as_bytes (merkle_root_of s))
           (contract_leaf keccak256 (as_bytes (se_work_id e)) (ucast (se_amount e)))"
proof -
  let ?D = "direct_part esc (per_work p)"
  let ?ls = "map (\<lambda>wa. leaf_hash keccak256 (as_bytes (work_of dec (fst wa))) (snd wa)) ?D"
  note f = finalize_Inr [OF assms(1)]
  from assms(2) obtain i where i: "i < length (entries s)" "e = entries s ! i" by (metis in_set_conv_nth)
  have routed: "map (\<lambda>e. (se_work_id e, se_amount e)) (entries s) = map (\<lambda>wa. (work_of dec (fst wa), snd wa)) ?D"
    using f by blast
  have len: "length (entries s) = length ?D" using arg_cong [OF routed, of length] by simp
  with f i obtain tree where tree: "merkle_build keccak256 ?ls = Some tree" "merkle_root_of s = Bytes32 (merkle_root tree)"
      "se_proof e = map Bytes32 (merkle_proof tree i)" by auto
  have "(se_work_id e, se_amount e) = (work_of dec (fst (?D ! i)), snd (?D ! i))"
    using arg_cong [OF routed, of "\<lambda>xs. xs ! i"] i len by simp
  then have leaf: "?ls ! i = leaf_hash keccak256 (as_bytes (se_work_id e)) (se_amount e)" "i < length ?ls"
    using i(1) len by simp_all
  have "length l = 32" if "l \<in> set ?ls" for l using that by (auto simp: leaf_hash_def k)
  from proof_hashes [OF tree(1) _ k this] have path: "list_all (\<lambda>h. length h = 32) (merkle_proof tree i)"
    by (simp add: list_all_iff)
  have "merkle_verify keccak256 (merkle_proof tree i) (merkle_root tree) (?ls ! i)"
    by (rule merkle_walk_verifies [OF tree(1) leaf(2)])
  moreover have "length (?ls ! i) = 32" unfolding leaf(1) by (simp add: leaf_hash_def k)
  ultimately have "contract_verify keccak256 (merkle_proof tree i) (merkle_root tree) (?ls ! i)"
    using contract_verify_eq [of keccak256, OF k _ path] by blast
  then show ?thesis unfolding leaf(1) by (simp add: tree(2,3) contract_leaf_eq comp_def)
qed

section \<open>Splitting an amount among payees\<close>

lemma transfer_Inr:
  "transfer accepts payee share balance = Inr b \<longleftrightarrow> accepts payee share \<and> unat share \<le> unat balance \<and> unat b = unat balance - unat share"
  by (auto simp: transfer_def word_le_nat_alt unat_sub_exact)
    (metis unat_sub_exact word_le_nat_alt word_unat_eq_iff)

lemma u96_lt: "unat (a :: 96 word) < 2 ^ 96"
  using unsigned_less [of a] by simp

lemma split_pay_exact:
  assumes "split_pay accepts amount payees splits distributed balance = Inr (paid, b)" and "payees \<noteq> []"
  shows "map fst paid = payees \<and> unat distributed + (\<Sum>(_, v)\<leftarrow>paid. unat v) = unat amount
       \<and> unat b + (\<Sum>(_, v)\<leftarrow>paid. unat v) = unat balance"
  using assms
proof (induction accepts amount payees splits distributed balance arbitrary: paid b rule: split_pay.induct)
  case (2 accepts amount payee splits distributed balance)
  then show ?case by (auto simp: result_simps transfer_Inr)
next
  case (3 accepts amount payee next_payee payees splits distributed balance)
  from 3(2) obtain ppm splits' scaled d' b1 paid' where s: "splits = ppm # splits'"
      and r: "checked_mul amount (ucast ppm) = Some scaled" "checked_add distributed (scaled div 1000000) = Some d'"
        "transfer accepts payee (scaled div 1000000) balance = Inr b1"
        "split_pay accepts amount (next_payee # payees) splits' d' b1 = Inr (paid', b)"
        "paid = (payee, scaled div 1000000) # paid'"
    by (auto simp: result_simps Let_def split: list.splits prod.splits)
  from 3(1) [OF s refl r(4)] r show ?case by (auto simp: result_simps transfer_Inr)
qed simp

lemma split_pay_succeeds:
  assumes "payees \<noteq> []" and "length splits = length payees" and "\<And>payee share. accepts payee share"
    and "unat amount < 2 ^ 128" and "unat distributed + (\<Sum>ppm\<leftarrow>butlast splits. unat amount * unat ppm div 1000000) \<le> unat amount"
    and "unat amount \<le> unat distributed + unat balance"
  shows "\<exists>paid b. split_pay accepts amount payees splits distributed balance = Inr (paid, b)
       \<and> map (\<lambda>(_, v). unat v) (butlast paid) = map (\<lambda>ppm. unat amount * unat ppm div 1000000) (butlast splits)"
  using assms
proof (induction accepts amount payees splits distributed balance rule: split_pay.induct)
  case (2 accepts amount payee splits distributed balance)
  then obtain ppm where "splits = [ppm]" by (auto simp: length_Suc_conv)
  with 2 show ?case
    by (auto simp: checked_sub_def transfer_def word_le_nat_alt unat_sub_exact)
next
  case (3 accepts amount payee next_payee payees splits distributed balance)
  from 3(3) obtain ppm ppm' splits' where s: "splits = ppm # ppm' # splits'" by (cases splits; cases "tl splits") auto
  let ?rest = "ppm' # splits'"
  note ppm = unat_u96_u256 [of ppm]
  have "unat amount * unat ppm < 2 ^ 128 * 2 ^ 96"
    using 3(5) u96_lt [of ppm] by (intro mult_strict_mono) simp_all
  then have "unat amount * unat (ucast ppm :: u256) < 2 ^ LENGTH(256)" unfolding ppm by simp
  then obtain scaled :: u256 where scaled: "checked_mul amount (ucast ppm) = Some scaled"
    unfolding checked_mul_unat by auto
  then have share: "unat (scaled div 1000000) = unat amount * unat ppm div 1000000"
    by (simp add: checked_mul_Some ppm unat_div_distrib)
  have fits: "unat distributed + unat (scaled div 1000000) + (\<Sum>ppm\<leftarrow>butlast ?rest. unat amount * unat ppm div 1000000) \<le> unat amount"
    using 3(6) by (simp add: s share)
  moreover have "unat amount < 2 ^ LENGTH(256)" using 3(5) by simp
  ultimately have "unat distributed + unat (scaled div 1000000) < 2 ^ LENGTH(256)" by linarith
  then obtain d' where d': "checked_add distributed (scaled div 1000000) = Some d'"
    unfolding checked_add_unat by auto
  then have d'_nat: "unat d' = unat distributed + unat (scaled div 1000000)" by (simp add: checked_add_Some)
  have room: "unat (scaled div 1000000) \<le> unat balance" using fits 3(7) by linarith
  then obtain b1 where b1: "transfer accepts payee (scaled div 1000000) balance = Inr b1" "unat b1 = unat balance - unat (scaled div 1000000)"
    using 3(4) by (simp add: transfer_def word_le_nat_alt unat_sub_exact)
  have "\<exists>paid b. split_pay accepts amount (next_payee # payees) ?rest d' b1 = Inr (paid, b)
      \<and> map (\<lambda>(_, v). unat v) (butlast paid) = map (\<lambda>ppm. unat amount * unat ppm div 1000000) (butlast ?rest)"
  proof (rule 3(1) [OF s refl])
    show "length ?rest = length (next_payee # payees)" using 3(3) by (simp add: s)
    show "unat d' + (\<Sum>ppm\<leftarrow>butlast ?rest. unat amount * unat ppm div 1000000) \<le> unat amount"
      using fits by (simp only: d'_nat)
    show "unat amount \<le> unat d' + unat b1" using 3(7) room b1(2) by (simp add: d'_nat)
  qed (use 3(4,5) in simp_all)
  then obtain paid b where "split_pay accepts amount (next_payee # payees) ?rest d' b1 = Inr (paid, b)"
      "map (\<lambda>(_, v). unat v) (butlast paid) = map (\<lambda>ppm. unat amount * unat ppm div 1000000) (butlast ?rest)" by blast
  moreover have "paid \<noteq> []" using split_pay_exact [OF calculation(1)] by auto
  ultimately show ?case by (simp add: s scaled d' b1(1) Let_def share)
qed simp

section \<open>Histories of the pool\<close>

text \<open>The transactions that went through. The registry at a withdrawal may be any: its works change between
  transactions. A payee that sends ether back during the transfers is not modelled.\<close>

datatype pool_tx =
  ReceiveTx u256 | CommitTx u256 b32 u256 | WithdrawTx u256 b32 u256 "(address \<times> u256) list"

inductive pool_run :: "(u8 list \<Rightarrow> hash) \<Rightarrow> address \<Rightarrow> pool_tx list \<Rightarrow> pool \<Rightarrow> bool" for keccak256 aggregator where
  opened: "pool_run keccak256 aggregator [] pool_empty"
| received: "\<lbrakk>pool_run keccak256 aggregator txs p; pool_receive v p = Inr p'\<rbrakk>
    \<Longrightarrow> pool_run keccak256 aggregator (txs @ [ReceiveTx v]) p'"
| committed: "\<lbrakk>pool_run keccak256 aggregator txs p; commit_epoch aggregator sender ep rt c p = Inr p'\<rbrakk>
    \<Longrightarrow> pool_run keccak256 aggregator (txs @ [CommitTx ep rt c]) p'"
| withdrew: "\<lbrakk>pool_run keccak256 aggregator txs p; withdraw keccak256 r accepts ep w a path p = Inr (paid, p')\<rbrakk>
    \<Longrightarrow> pool_run keccak256 aggregator (txs @ [WithdrawTx ep w a paid]) p'"

definition receipts_of :: "pool_tx list \<Rightarrow> u256 list" where
  "receipts_of txs = concat (map (\<lambda>t. case t of ReceiveTx v \<Rightarrow> [v] | _ \<Rightarrow> []) txs)"

definition commits_of :: "pool_tx list \<Rightarrow> (u256 \<times> b32 \<times> u256) list" where
  "commits_of txs = concat (map (\<lambda>t. case t of CommitTx ep rt c \<Rightarrow> [(ep, rt, c)] | _ \<Rightarrow> []) txs)"

definition withdrawals_of :: "pool_tx list \<Rightarrow> ((u256 \<times> b32) \<times> u256) list" where
  "withdrawals_of txs = concat (map (\<lambda>t. case t of WithdrawTx ep w a paid \<Rightarrow> [((ep, w), a)] | _ \<Rightarrow> []) txs)"

lemma ledger_lists [simp]:
  "receipts_of [] = []" "commits_of [] = []" "withdrawals_of [] = []"
  "receipts_of (txs @ [ReceiveTx v]) = receipts_of txs @ [v]"
  "commits_of (txs @ [ReceiveTx v]) = commits_of txs"
  "withdrawals_of (txs @ [ReceiveTx v]) = withdrawals_of txs"
  "receipts_of (txs @ [CommitTx ep rt c]) = receipts_of txs"
  "commits_of (txs @ [CommitTx ep rt c]) = commits_of txs @ [(ep, rt, c)]"
  "withdrawals_of (txs @ [CommitTx ep rt c]) = withdrawals_of txs"
  "receipts_of (txs @ [WithdrawTx ep w a paid]) = receipts_of txs"
  "commits_of (txs @ [WithdrawTx ep w a paid]) = commits_of txs"
  "withdrawals_of (txs @ [WithdrawTx ep w a paid]) = withdrawals_of txs @ [((ep, w), a)]"
  by (simp_all add: receipts_of_def commits_of_def withdrawals_of_def)

abbreviation amounts :: "('a \<times> u256) list \<Rightarrow> nat" where
  "amounts xs \<equiv> (\<Sum>x\<leftarrow>xs. unat (snd x))"

abbreviation committed_total :: "pool_tx list \<Rightarrow> nat" where
  "committed_total txs \<equiv> (\<Sum>(ep, rt, c)\<leftarrow>commits_of txs. unat c)"

lemma pool_receive_Inr:
  "pool_receive v p = Inr p' \<longleftrightarrow> (\<exists>b. unat b = unat (pool_balance p) + unat v \<and> p' = p\<lparr>pool_balance := b\<rparr>)"
  by (auto simp: pool_receive_def result_simps)

lemma commit_epoch_Inr:
  "commit_epoch aggregator sender ep rt c p = Inr p' \<longleftrightarrow>
     sender = aggregator \<and> \<not> epoch_committed p ep
     \<and> (\<exists>l. unat l = unat (liability p) + unat c \<and> unat l \<le> unat (pool_balance p)
          \<and> p' = p\<lparr>epoch_root := (epoch_root p)(ep := rt), epoch_total := (epoch_total p)(ep := c),
                   epoch_committed := (epoch_committed p)(ep := True), liability := l\<rparr>)"
  by (auto simp: commit_epoch_def result_simps word_less_nat_alt not_less)

lemma withdraw_Inr:
  assumes "withdraw keccak256 r accepts ep w a path p = Inr (paid, p')"
  shows "epoch_committed p ep \<and> \<not> pool_withdrawn p ep w
       \<and> contract_verify keccak256 path (epoch_root p ep) (contract_leaf keccak256 w a)
       \<and> map fst paid = wk_payees (r w) \<and> amounts paid = unat a
       \<and> (\<exists>l b. unat a + unat l = unat (liability p) \<and> unat b + unat a = unat (pool_balance p)
            \<and> p' = p\<lparr>pool_withdrawn := (pool_withdrawn p)(ep := (pool_withdrawn p ep)(w := True)),
                     liability := l, pool_balance := b\<rparr>)"
proof -
  from assms obtain l b where s: "split_pay accepts a (wk_payees (r w)) (wk_splits (r w)) 0 (pool_balance p) = Inr (paid, b)"
      and ne: "wk_payees (r w) \<noteq> []"
      and rest: "epoch_committed p ep" "\<not> pool_withdrawn p ep w"
        "contract_verify keccak256 path (epoch_root p ep) (contract_leaf keccak256 w a)"
        "unat a \<le> unat (liability p)" "unat l = unat (liability p) - unat a"
        "p' = p\<lparr>pool_withdrawn := (pool_withdrawn p)(ep := (pool_withdrawn p ep)(w := True)), liability := l, pool_balance := b\<rparr>"
    by (auto simp: withdraw_def result_simps split: if_splits prod.splits)
  from split_pay_exact [OF s ne] have "map fst paid = wk_payees (r w)" "amounts paid = unat a"
      "unat b + unat a = unat (pool_balance p)" by (auto simp: case_prod_unfold)
  moreover have "unat a + unat l = unat (liability p)" using rest(4,5) by simp
  ultimately show ?thesis using rest by blast
qed

lemma withdraw_marks:
  assumes "withdraw keccak256 r accepts ep w a path p = Inr (paid, p')"
  shows "pool_withdrawn p' e u \<longleftrightarrow> pool_withdrawn p e u \<or> (e, u) = (ep, w)"
    and "epoch_committed p' = epoch_committed p" and "epoch_root p' = epoch_root p" and "epoch_total p' = epoch_total p"
  using withdraw_Inr [OF assms] by (auto split: if_splits)

lemma commit_marks:
  assumes "commit_epoch aggregator sender ep rt c p = Inr p'"
  shows "epoch_committed p' e \<longleftrightarrow> epoch_committed p e \<or> e = ep" and "pool_withdrawn p' = pool_withdrawn p"
    and "epoch_root p' e = (if e = ep then rt else epoch_root p e)"
    and "epoch_total p' e = (if e = ep then c else epoch_total p e)"
  using assms by (auto simp: commit_epoch_Inr)

lemma receive_marks:
  assumes "pool_receive v p = Inr p'"
  shows "epoch_committed p' = epoch_committed p" and "pool_withdrawn p' = pool_withdrawn p"
    and "epoch_root p' = epoch_root p" and "epoch_total p' = epoch_total p"
  using assms by (auto simp: pool_receive_Inr)

lemmas pool_marks = withdraw_marks commit_marks receive_marks

lemma pool_run_money:
  assumes "pool_run keccak256 aggregator txs p"
  shows "unat (liability p) \<le> unat (pool_balance p)
       \<and> committed_total txs = unat (liability p) + amounts (withdrawals_of txs)
       \<and> (\<Sum>v\<leftarrow>receipts_of txs. unat v) = unat (pool_balance p) + amounts (withdrawals_of txs)"
  using assms
proof (induction rule: pool_run.induct)
  case opened
  then show ?case by (simp add: pool_empty_def)
next
  case (received txs p v p')
  then show ?case by (auto simp: pool_receive_Inr)
next
  case (committed txs p sender ep rt c p')
  then show ?case by (auto simp: commit_epoch_Inr)
next
  case (withdrew txs p r accepts ep w a path paid p')
  with withdraw_Inr [OF withdrew.hyps(2)] show ?case by auto
qed

lemma withdrawn_iff:
  "pool_run keccak256 aggregator txs p \<Longrightarrow> pool_withdrawn p ep w \<longleftrightarrow> (ep, w) \<in> set (map fst (withdrawals_of txs))"
  by (induction arbitrary: ep w rule: pool_run.induct) (auto simp: pool_marks pool_empty_def simp del: set_map)

lemma committed_iff:
  "pool_run keccak256 aggregator txs p \<Longrightarrow> epoch_committed p ep \<longleftrightarrow> ep \<in> set (map fst (commits_of txs))"
  by (induction arbitrary: ep rule: pool_run.induct) (auto simp: pool_marks pool_empty_def simp del: set_map)

lemma committed_root:
  "\<lbrakk>pool_run keccak256 aggregator txs p; (ep, rt, c) \<in> set (commits_of txs)\<rbrakk> \<Longrightarrow> epoch_root p ep = rt \<and> epoch_total p ep = c"
proof (induction arbitrary: ep rt c rule: pool_run.induct)
  case (committed txs p sender ep' rt' c' p')
  have "ep \<in> set (map fst (commits_of txs))" if "(ep, rt, c) \<in> set (commits_of txs)" using that by force
  then have "(ep, rt, c) \<in> set (commits_of txs) \<Longrightarrow> ep \<noteq> ep'"
    using committed_iff [OF committed.hyps(1), of ep'] committed.hyps(2) by (auto simp: commit_epoch_Inr simp del: set_map)
  with committed.IH [of ep rt c] committed.prems commit_marks(3,4) [OF committed.hyps(2), of ep] show ?case
    by (auto split: if_splits)
qed (simp_all add: pool_marks)

lemma ledger_distinct:
  "pool_run keccak256 aggregator txs p \<Longrightarrow> distinct (map fst (withdrawals_of txs)) \<and> distinct (map fst (commits_of txs))"
proof (induction rule: pool_run.induct)
  case (committed txs p sender ep rt c p')
  then have "ep \<notin> set (map fst (commits_of txs))" using committed_iff [OF committed.hyps(1)] by (simp add: commit_epoch_Inr)
  with committed.IH show ?case by simp
next
  case (withdrew txs p r accepts ep w a path paid p')
  have "(ep, w) \<notin> set (map fst (withdrawals_of txs))"
    using withdrawn_iff [OF withdrew.hyps(1)] withdraw_Inr [OF withdrew.hyps(2)] by simp
  with withdrew.IH show ?case by simp
qed simp_all

lemma withdrawn_committed:
  "\<lbrakk>pool_run keccak256 aggregator txs p; (ep, w) \<in> set (map fst (withdrawals_of txs))\<rbrakk> \<Longrightarrow> ep \<in> set (map fst (commits_of txs))"
proof (induction rule: pool_run.induct)
  case (withdrew txs p r accepts ep' w' a path paid p')
  have "ep' \<in> set (map fst (commits_of txs))"
    using committed_iff [OF withdrew.hyps(1)] withdraw_Inr [OF withdrew.hyps(2)] by simp
  with withdrew show ?case by (auto simp del: set_map)
qed (auto simp del: set_map)

lemma withdrawal_pays:
  "\<lbrakk>pool_run keccak256 aggregator txs p; WithdrawTx ep w a paid \<in> set txs\<rbrakk> \<Longrightarrow> amounts paid = unat a"
  by (induction rule: pool_run.induct) (auto dest: withdraw_Inr)

text \<open>C6: the pool stays solvent. In every history of the payout contract the balance covers the
  liability; what was committed is the liability and what was withdrawn; what was received is the
  balance and what was withdrawn; no work of an epoch is withdrawn twice and no epoch is committed
  twice; and every withdrawal paid its work's payees exactly its amount.\<close>
theorem pool_stays_solvent:
  assumes "pool_run keccak256 aggregator txs p"
  shows "unat (liability p) \<le> unat (pool_balance p)
       \<and> committed_total txs = unat (liability p) + amounts (withdrawals_of txs)
       \<and> (\<Sum>v\<leftarrow>receipts_of txs. unat v) = unat (pool_balance p) + amounts (withdrawals_of txs)
       \<and> distinct (map fst (withdrawals_of txs)) \<and> distinct (map fst (commits_of txs))
       \<and> (\<forall>ep w a paid. WithdrawTx ep w a paid \<in> set txs \<longrightarrow> amounts paid = unat a)"
  using pool_run_money [OF assms] ledger_distinct [OF assms] withdrawal_pays [OF assms] by blast

section \<open>From the settlement to the payees\<close>

lemma sum_set_le_sum_list: "(\<Sum>x\<in>set xs. f x :: nat) \<le> (\<Sum>x\<leftarrow>xs. f x)"
  by (induction xs) (auto simp: sum.insert_if intro: le_trans)

lemma amounts_concat: "amounts (concat xss) = (\<Sum>xs\<leftarrow>xss. amounts xs)"
  by (induction xss) simp_all

lemma shares_within:
  fixes a :: nat
  assumes "sum_list ns \<le> 1000000"
  shows "(\<Sum>n\<leftarrow>ns. a * n div 1000000) \<le> a"
proof -
  have "(\<Sum>n\<leftarrow>ns. a * n div 1000000) \<le> a * sum_list ns div 1000000"
  proof (induction ns)
    case (Cons n ns)
    have "a * n div 1000000 + a * sum_list ns div 1000000 \<le> (a * n + a * sum_list ns) div 1000000"
      using div_add1_eq [of "a * n" "a * sum_list ns" 1000000] by linarith
    with Cons show ?case by (simp add: distrib_left)
  qed simp
  also have "\<dots> \<le> a * 1000000 div 1000000" by (intro div_le_mono mult_le_mono2 assms)
  finally show ?thesis by simp
qed

lemma butlast_total: "(\<Sum>x\<leftarrow>butlast xs. f x :: nat) \<le> (\<Sum>x\<leftarrow>xs. f x)"
  by (induction xs) auto

text \<open>The credits of a settlement, as the leaves of an epoch.\<close>

definition credits_of :: "u256 \<Rightarrow> settlement \<Rightarrow> ((u256 \<times> b32) \<times> u256) list" where
  "credits_of ep s = map (\<lambda>e. ((ep, as_bytes (se_work_id e)), ucast (se_amount e))) (entries s)"

lemma credits_total:
  assumes "finalize keccak256 dec n po esc = Inr s" and "map_total (per_work po) < 2 ^ 128"
  shows "amounts (credits_of ep s) = unat (total_credits s)"
proof -
  let ?D = "direct_part esc (per_work po)"
  note f = finalize_Inr [OF assms(1)]
  have "sum_unat (map snd ?D) \<le> map_total (per_work po)"
    using parts_total [of esc "per_work po"] by (simp add: map_total_sum_unat)
  then have "unat (sum_list (map snd ?D)) = sum_unat (map snd ?D)"
    using assms(2) by (intro sum_list_unat) simp
  moreover have "map se_amount (entries s) = map snd ?D"
    using f [THEN conjunct2, THEN conjunct2, THEN conjunct2, THEN conjunct2, THEN conjunct1] 
    by (metis (no_types, lifting) comp_def list.map_comp list.map_cong snd_conv)
  then have "sum_unat (map snd ?D) = sum_unat (map se_amount (entries s))" by simp
  ultimately show ?thesis using f by (simp add: credits_of_def comp_def unat_u128_u256 sum_unat_def)
qed

lemma unpaid_is_owed:
  assumes run: "pool_run keccak256 aggregator txs p"
    and commits: "\<And>ep rt c. (ep, rt, c) \<in> set (commits_of txs) \<Longrightarrow> amounts (credits_of ep (S ep)) = unat c"
    and withdrawals: "\<And>x. x \<in> set (withdrawals_of txs) \<Longrightarrow> x \<in> set (credits_of (fst (fst x)) (S (fst (fst x))))"
    and "ep \<in> fst ` set (commits_of txs)" and "((ep, w), a) \<in> set (credits_of ep (S ep))"
    and "(ep, w) \<notin> fst ` set (withdrawals_of txs)"
  shows "unat a \<le> unat (liability p)"
proof -
  let ?W = "((ep, w), a) # withdrawals_of txs" and ?all = "concat (map (\<lambda>(ep, rt, c). credits_of ep (S ep)) (commits_of txs))"
  have "distinct ?W" using ledger_distinct [OF run] assms(6) by (auto simp: distinct_map image_iff)
  then have "amounts ?W = (\<Sum>x\<in>set ?W. unat (snd x))" by (rule sum_list_distinct_conv_sum_set)
  also have "\<dots> \<le> (\<Sum>x\<in>set ?all. unat (snd x))"
  proof (rule sum_mono2 [OF finite_set])
    have "x \<in> set ?all" if "x \<in> set (withdrawals_of txs)" for x
    proof -
      have "fst x \<in> set (map fst (withdrawals_of txs))" using that by simp
      from withdrawn_committed [OF run, of "fst (fst x)" "snd (fst x)"] this
      have "fst (fst x) \<in> fst ` set (commits_of txs)" by simp
      with withdrawals [OF that] show ?thesis by force
    qed
    then show "set ?W \<subseteq> set ?all" using assms(4,5) by force
  qed simp_all
  also have "\<dots> \<le> amounts ?all" by (rule sum_set_le_sum_list)
  also have "\<dots> = (\<Sum>(ep, rt, c)\<leftarrow>commits_of txs. amounts (credits_of ep (S ep)))"
    by (simp add: amounts_concat comp_def case_prod_unfold)
  also have "\<dots> = committed_total txs"
    using commits by (intro arg_cong [where f = sum_list] map_cong) auto
  finally show ?thesis using pool_run_money [OF run] by simp
qed

text \<open>C5: every published credit can be withdrawn. Take a history of the payout contract in which each
  committed epoch is a settlement of the job, its root and its total, and each withdrawal was of a
  published entry, and a history of the registry. Then any entry of a committed epoch that was not
  withdrawn yet, whose work is registered, can be: the entry's own proof passes the contract's check, the
  pool holds the amount, and the payees of the registry are paid exactly the amount, each but the last
  the floor of its share of one million. This needs hashes of 32 bytes and payees that accept ether.\<close>
theorem entries_are_withdrawable:
  assumes "\<And>bs. length (keccak256 bs) = 32"
    and "pool_run keccak256 aggregator txs p" and "registry_run env rtxs r"
    and "\<And>ep rt c. (ep, rt, c) \<in> set (commits_of txs) \<Longrightarrow>
           (\<exists>dec n po esc. finalize keccak256 dec n po esc = Inr (S ep) \<and> map_total (per_work po) < 2 ^ 128)
         \<and> rt = as_bytes (merkle_root_of (S ep)) \<and> c = ucast (total_credits (S ep))"
    and "\<And>x. x \<in> set (withdrawals_of txs) \<Longrightarrow> x \<in> set (credits_of (fst (fst x)) (S (fst (fst x))))"
    and "ep \<in> fst ` set (commits_of txs)" and "e \<in> set (entries (S ep))" and "w = as_bytes (se_work_id e)"
    and "(ep, w) \<notin> fst ` set (withdrawals_of txs)" and "registrations w rtxs \<noteq> []"
    and "\<And>payee share. accepts payee share"
  shows "\<exists>paid p'. withdraw keccak256 r accepts ep w (ucast (se_amount e)) (map as_bytes (se_proof e)) p = Inr (paid, p')
       \<and> map fst paid = wk_payees (r w) \<and> amounts paid = unat (se_amount e)
       \<and> map (\<lambda>(_, v). unat v) (butlast paid)
           = map (\<lambda>ppm. unat (se_amount e) * unat ppm div 1000000) (butlast (wk_splits (r w)))"
proof -
  let ?a = "ucast (se_amount e) :: u256"
  from assms(6) obtain rt c where c: "(ep, rt, c) \<in> set (commits_of txs)" by force
  from assms(4) [OF c] obtain dec n po esc where fin: "finalize keccak256 dec n po esc = Inr (S ep)"
    and rt: "rt = as_bytes (merkle_root_of (S ep))" by blast
  have root: "epoch_root p ep = as_bytes (merkle_root_of (S ep))" using committed_root [OF assms(2) c] rt by simp
  have open_: "epoch_committed p ep" "\<not> pool_withdrawn p ep w"
    using committed_iff [OF assms(2), of ep] withdrawn_iff [OF assms(2), of ep w] assms(6,9) by simp_all
  have verified: "contract_verify keccak256 (map as_bytes (se_proof e)) (epoch_root p ep) (contract_leaf keccak256 w ?a)"
    unfolding root assms(8) by (rule entry_verifies [OF fin assms(7,1)])
  have owed: "unat ?a \<le> unat (liability p)"
  proof (rule unpaid_is_owed [OF assms(2) _ assms(5,6) _ assms(9)])
    show "amounts (credits_of ep' (S ep')) = unat c'" if "(ep', rt', c') \<in> set (commits_of txs)" for ep' rt' c'
      using assms(4) [OF that] credits_total [of keccak256] by (auto simp: unat_u128_u256)
    show "((ep, w), ?a) \<in> set (credits_of ep (S ep))" using assms(7,8) by (auto simp: credits_of_def)
  qed
  have reg: "payable_splits (wk_payees (r w)) (wk_splits (r w))"
    using registry_run_sound [OF assms(3), of w] registry_run_first [OF assms(3), of w] assms(10) by (auto simp: sound_work_def)
  then have ne: "wk_payees (r w) \<noteq> []" and len: "length (wk_splits (r w)) = length (wk_payees (r w))"
    and sum: "sum_list (map unat (wk_splits (r w))) = 1000000" by (auto simp: payable_splits_def)
  have part: "(\<Sum>ppm\<leftarrow>butlast (wk_splits (r w)). unat ?a * unat ppm div 1000000) \<le> unat ?a"
    using shares_within [of "map unat (butlast (wk_splits (r w)))" "unat ?a"] butlast_total [of unat "wk_splits (r w)"] sum
    by (simp add: comp_def)
  have "\<exists>paid b. split_pay accepts ?a (wk_payees (r w)) (wk_splits (r w)) 0 (pool_balance p) = Inr (paid, b)
       \<and> map (\<lambda>(_, v). unat v) (butlast paid) = map (\<lambda>ppm. unat ?a * unat ppm div 1000000) (butlast (wk_splits (r w)))"
    using ne len assms(11) part owed pool_run_money [OF assms(2)] u128_lt [of "se_amount e"]
    by (intro split_pay_succeeds) (simp_all add: unat_u128_u256)
  then obtain paid b where pay: "split_pay accepts ?a (wk_payees (r w)) (wk_splits (r w)) 0 (pool_balance p) = Inr (paid, b)"
    and floors: "map (\<lambda>(_, v). unat v) (butlast paid) = map (\<lambda>ppm. unat ?a * unat ppm div 1000000) (butlast (wk_splits (r w)))"
    by blast
  from split_pay_exact [OF pay ne] have exact: "map fst paid = wk_payees (r w)" "amounts paid = unat ?a"
    by (auto simp: case_prod_unfold)
  have "?a \<le> liability p" using owed by (simp add: word_le_nat_alt)
  with open_ verified ne pay have "\<exists>p'. withdraw keccak256 r accepts ep w ?a (map as_bytes (se_proof e)) p = Inr (paid, p')"
    by (simp add: withdraw_def checked_sub_def res_bind_def ok_or_def)
  with exact floors show ?thesis by (auto simp: unat_u128_u256)
qed

lemma uint256_bytes_be_int:
  assumes "length h = 32"
  shows "uint256_bytes (word_of_int (be_int h)) = h"
proof -
  have b: "0 \<le> be_int h" "be_int h < 256 ^ 32" using be_int_nonneg [of h] be_int_less [of h] assms by simp_all
  then have "be_int (int_be 32 (be_int h)) = be_int h" by (intro be_int_be)
  then have "int_be 32 (be_int h) = h" using assms by (intro be_int_inj) simp_all
  moreover have "uint (word_of_int (be_int h) :: u256) = be_int h"
    using b by (simp add: unsigned_of_int take_bit_int_eq_self)
  ultimately show ?thesis by (simp add: uint256_bytes_def)
qed

text \<open>C39: leaves and inner nodes are not told apart. Whenever a proof verifies a leaf and is not empty, the
  contract's check also passes for the leaf's parent as a credit of its own: the smaller child as the work,
  the larger one, read as a number, as the amount, and the rest of the proof. What stops such a withdrawal
  is that no such work is registered and that the pool does not owe an amount of that size.\<close>
theorem inner_nodes_pass_as_leaves:
  assumes "\<And>bs. length (keccak256 bs) = 32" and "length sibling = 32"
    and "contract_verify keccak256 (sibling # path) rt (contract_leaf keccak256 w a)"
  shows "\<exists>w' h. {w', h} = {contract_leaf keccak256 w a, sibling}
       \<and> contract_verify keccak256 path rt (contract_leaf keccak256 w' (word_of_int (be_int h)))"
proof -
  let ?l = "contract_leaf keccak256 w a"
  have "length ?l = 32" by (simp add: contract_leaf_def assms(1))
  then have "contract_pair keccak256 ?l sibling = contract_leaf keccak256 ?l (word_of_int (be_int sibling))
      \<or> contract_pair keccak256 ?l sibling = contract_leaf keccak256 sibling (word_of_int (be_int ?l))"
    using assms(2) by (simp add: contract_pair_def contract_leaf_def [of _ ?l] contract_leaf_def [of _ sibling] uint256_bytes_be_int)
  moreover have "contract_verify keccak256 path rt (contract_pair keccak256 ?l sibling)"
    using assms(3) by (simp add: contract_verify_def)
  ultimately show ?thesis by (metis insert_commute)
qed

section \<open>A concrete epoch\<close>

definition pad_hash :: "u8 list \<Rightarrow> hash" where
  "pad_hash bs = take 32 (bs @ replicate 32 0)"

definition demo_credits :: payouts where
  "demo_credits = \<lparr>per_work = [(ex_id 1, 10), (ex_id 2, 20), (ex_id 3, 30)], unallocated = 5, reputation_of = []\<rparr>"

lemma length_pad_hash: "length (pad_hash bs) = 32"
  by (simp add: pad_hash_def)

lemma demo_settled:
  "\<exists>s. finalize pad_hash decode_hex 7 demo_credits [] = Inr s \<and> total_credits s = 60
     \<and> (\<exists>e. e \<in> set (entries s) \<and> as_bytes (se_work_id e) = replicate 32 1 \<and> se_amount e = 10)"
proof -
  have "is_ok (finalize pad_hash decode_hex 7 demo_credits [])" by code_simp
  then obtain s where s: "finalize pad_hash decode_hex 7 demo_credits [] = Inr s" by (auto simp: is_ok_iff)
  note f = finalize_Inr [OF s]
  have d: "map (\<lambda>wa. (as_bytes (work_of decode_hex (fst wa)), snd wa)) (direct_part [] (per_work demo_credits))
      = [(replicate 32 1, 10), (replicate 32 2, 20), (replicate 32 3, 30)]"
    and t: "sum_list (map snd (direct_part [] (per_work demo_credits))) = 60" by code_simp+
  have "map (\<lambda>e. (se_work_id e, se_amount e)) (entries s)
      = map (\<lambda>wa. (work_of decode_hex (fst wa), snd wa)) (direct_part [] (per_work demo_credits))" using f by blast
  from arg_cong [OF this, of "map (\<lambda>(w, a). (as_bytes w, a))"] d
  have "map (\<lambda>e. (as_bytes (se_work_id e), se_amount e)) (entries s)
      = [(replicate 32 1, 10), (replicate 32 2, 20), (replicate 32 3, 30)]" by (simp add: comp_def)
  then have "(replicate 32 1, 10) \<in> set (map (\<lambda>e. (as_bytes (se_work_id e), se_amount e)) (entries s))" by simp
  then have "\<exists>e. e \<in> set (entries s) \<and> as_bytes (se_work_id e) = replicate 32 1 \<and> se_amount e = 10" by auto
  with s f t show ?thesis by auto
qed

lemma demo_pool_run:
  "\<exists>p. pool_run pad_hash (replicate 20 3) [ReceiveTx 1000, CommitTx 7 rt 60] p \<and> unat (liability p) = 60"
proof -
  let ?p = "pool_empty\<lparr>pool_balance := 1000\<rparr>"
  let ?q = "?p\<lparr>epoch_root := (epoch_root ?p)(7 := rt), epoch_total := (epoch_total ?p)(7 := 60),
      epoch_committed := (epoch_committed ?p)(7 := True), liability := 60\<rparr>"
  have "pool_receive 1000 pool_empty = Inr ?p" by (simp add: pool_receive_Inr pool_empty_def exI [of _ 1000])
  from pool_run.received [OF pool_run.opened this]
  have one: "pool_run pad_hash (replicate 20 3) [ReceiveTx 1000] ?p" by simp
  have "commit_epoch (replicate 20 3) (replicate 20 3) 7 rt 60 ?p = Inr ?q"
    by (simp add: commit_epoch_Inr pool_empty_def exI [of _ 60])
  from pool_run.committed [OF one this] show ?thesis by (intro exI [of _ ?q]) simp
qed

theorem pool_stays_solvent_witness:
  "\<exists>p. pool_run pad_hash (replicate 20 3) [ReceiveTx 1000, CommitTx 7 [] 60] p
     \<and> unat (liability p) = 60 \<and> unat (pool_balance p) = 1000"
proof -
  from demo_pool_run obtain p where p: "pool_run pad_hash (replicate 20 3) [ReceiveTx 1000, CommitTx 7 [] 60] p"
    and l: "unat (liability p) = 60" by blast
  have "receipts_of [ReceiveTx 1000, CommitTx 7 [] 60] = [1000]" "withdrawals_of [ReceiveTx 1000, CommitTx 7 [] 60] = []"
    by (simp_all add: receipts_of_def withdrawals_of_def)
  with pool_stays_solvent [OF p] p l show ?thesis by auto
qed

theorem entries_are_withdrawable_witness:
  "\<exists>(s :: settlement) (e :: settlement_entry) (p :: pool) (r :: registry) paid (p' :: pool).
     pool_run pad_hash (replicate 20 3) [ReceiveTx 1000, CommitTx 7 (as_bytes (merkle_root_of s)) 60] p
     \<and> e \<in> set (entries s)
     \<and> withdraw pad_hash r (\<lambda>_ _. True) 7 (replicate 32 1) 10 (map as_bytes (se_proof e)) p = Inr (paid, p')
     \<and> map fst paid = [replicate 20 7, replicate 20 8] \<and> amounts paid = 10 \<and> map (\<lambda>(_, v). unat v) (butlast paid) = [3]"
proof -
  from demo_settled obtain s e where s: "finalize pad_hash decode_hex 7 demo_credits [] = Inr s" "total_credits s = 60"
    and e: "e \<in> set (entries s)" "as_bytes (se_work_id e) = replicate 32 1" "se_amount e = 10" by blast
  let ?txs = "[ReceiveTx 1000, CommitTx 7 (as_bytes (merkle_root_of s)) 60]"
    and ?rtxs = "[RegisterTx (replicate 20 9) 100 demo_work_call]"
  from demo_pool_run obtain p where p: "pool_run pad_hash (replicate 20 3) ?txs p" by blast
  from demo_registry_run obtain r where r: "registry_run demo_registry_env ?rtxs r"
    and k: "wk_payees (r (replicate 32 1)) = [replicate 20 7, replicate 20 8]" "wk_splits (r (replicate 32 1)) = [300000, 700000]"
    by blast
  have lists: "commits_of ?txs = [(7, as_bytes (merkle_root_of s), 60)]" "withdrawals_of ?txs = []"
    by (simp_all add: commits_of_def withdrawals_of_def)
  have small: "map_total (per_work demo_credits) < 2 ^ 128" by (simp add: demo_credits_def map_total_def)
  have "\<exists>paid p'. withdraw pad_hash r (\<lambda>_ _. True) 7 (replicate 32 1) (ucast (se_amount e)) (map as_bytes (se_proof e)) p = Inr (paid, p')
       \<and> map fst paid = wk_payees (r (replicate 32 1)) \<and> amounts paid = unat (se_amount e)
       \<and> map (\<lambda>(_, v). unat v) (butlast paid)
           = map (\<lambda>ppm. unat (se_amount e) * unat ppm div 1000000) (butlast (wk_splits (r (replicate 32 1))))"
  proof (rule entries_are_withdrawable [OF length_pad_hash p r, where S = "\<lambda>_. s"])
    show "registrations (replicate 32 1) ?rtxs \<noteq> []" by (simp add: registrations_def demo_work_call_def)
  qed (use s e small in \<open>auto simp: lists intro!: exI\<close>)
  then obtain paid p' where
      "withdraw pad_hash r (\<lambda>_ _. True) 7 (replicate 32 1) (ucast (se_amount e)) (map as_bytes (se_proof e)) p = Inr (paid, p')"
      "map fst paid = wk_payees (r (replicate 32 1))" "amounts paid = unat (se_amount e)"
      "map (\<lambda>(_, v). unat v) (butlast paid)
         = map (\<lambda>ppm. unat (se_amount e) * unat ppm div 1000000) (butlast (wk_splits (r (replicate 32 1))))" by blast
  moreover have "ucast (se_amount e) = (10 :: u256)" "unat (se_amount e) = 10" by (simp_all add: e(3))
  ultimately show ?thesis using p e(1) k
    by (intro exI [of _ s] exI [of _ e] exI [of _ p] exI [of _ r] exI [of _ paid] exI [of _ p'] conjI) simp_all
qed

theorem inner_nodes_pass_as_leaves_witness:
  "\<exists>w' h. {w', h} = {contract_leaf pad_hash (replicate 32 1) 10, replicate 32 9}
     \<and> contract_verify pad_hash [] (contract_pair pad_hash (contract_leaf pad_hash (replicate 32 1) 10) (replicate 32 9))
         (contract_leaf pad_hash w' (word_of_int (be_int h)))"
  by (rule inner_nodes_pass_as_leaves [OF length_pad_hash]) (simp_all add: contract_verify_def)

end
