(* ===== verification/DaprTests.thy ===== *)
theory DaprTests
  imports Dapr
begin

text \<open>
  The unit tests of \<open>sims/src/lib.rs\<close>, run on the model: every test is a definition with its
  own data and assertions, and every one of them holds.
\<close>

section \<open>Helpers of the test modules\<close>

definition h3_ds :: "(string \<times> u128) list \<Rightarrow> (string \<times> string \<times> u64 \<times> u64 \<times> u64 \<times> u64) list \<Rightarrow> dataset" where
  "h3_ds fees rows =
     \<lparr>ds_tier_fees = foldl (\<lambda>m (u, f). bt_insert u f m) [] fees,
      ds_usage = map (\<lambda>(u, w, m, p, r, pl). \<lparr>ur_user = u, ur_work = w, ur_minutes = m, ur_price_ppm = p,
                                            ur_region_ppm = r, ur_plays = pl\<rparr>) rows,
      ds_bandwidth_ppm = []\<rparr>"

definition flat_dataset :: "(string \<times> u128) list \<Rightarrow> (string \<times> string \<times> u64 \<times> u64 \<times> u64) list \<Rightarrow> dataset" where
  "flat_dataset fees rows = h3_ds fees (map (\<lambda>(u, w, m, p, r). (u, w, m, p, r, 1)) rows)"

definition cred_rows :: "(string, u128) btree_map \<times> raw_row list" where
  "cred_rows =
     (bt_insert ''u2'' 1000000 (bt_insert ''u1'' 1000000 []),
      [\<lparr>rr_user = ''u1'', rr_work = ''wA'', rr_raw = 300\<rparr>,
       \<lparr>rr_user = ''u1'', rr_work = ''wB'', rr_raw = 100\<rparr>,
       \<lparr>rr_user = ''u2'', rr_work = ''wA'', rr_raw = 400\<rparr>])"

text \<open>A test that unwraps an error fails.\<close>

definition passes :: "('a \<Rightarrow> bool) \<Rightarrow> 'e + 'a \<Rightarrow> bool" where
  "passes check r = (case r of Inl _ \<Rightarrow> False | Inr x \<Rightarrow> check x)"

section \<open>The tests\<close>

definition diminishing_multiplier :: bool where
  "diminishing_multiplier \<longleftrightarrow>
     d_ppm 1 1000000 = 1000000 \<and> d_ppm 0 1000000 = 1000000 \<and> d_ppm 2 1000000 = 750000
     \<and> list_all (\<lambda>v. d_ppm (of_nat v) 1000000 \<le> (if v = 1 then 1000001 else d_ppm (of_nat (v - 1)) 1000000)) [1..<51]
     \<and> d_ppm 37 1000000 = d_ppm 37 1000000"

definition diminishing_multiplier_clamps_huge_play_counts :: bool where
  "diminishing_multiplier_clamps_huge_play_counts \<longleftrightarrow> d_ppm (- 1) 1000000 = d_ppm PLAYS_CAP 1000000"

definition neutral_defaults_reproduce_flat_split :: bool where
  "neutral_defaults_reproduce_flat_split =
     passes (\<lambda>p. bt_get (per_work p) ''wA'' = Some 750000 \<and> bt_get (per_work p) ''wB'' = Some 250000
        \<and> total_to_works p + unallocated p = 1000000)
       (allocate (h3_ds [(''u1'', 1000000)]
          [(''u1'', ''wA'', 60, 1000000, 1000000, 1), (''u1'', ''wB'', 20, 1000000, 1000000, 1)]) default_params)"

definition single_work_superfan_unaffected_by_diminishing :: bool where
  "single_work_superfan_unaffected_by_diminishing =
     passes (\<lambda>p. bt_get (per_work p) ''wA'' = Some 1000000 \<and> unallocated p = 0)
       (allocate (h3_ds [(''u1'', 1000000)] [(''u1'', ''wA'', 300, 1000000, 1000000, 100)]) default_params)"

definition low_bandwidth_discounts_and_conserves :: bool where
  "low_bandwidth_discounts_and_conserves =
     passes (\<lambda>p. bt_get (per_work p) ''wA'' = Some 250000 \<and> unallocated p = 750000
        \<and> total_to_works p + unallocated p = 1000000)
       (allocate ((h3_ds [(''u1'', 1000000)] [(''u1'', ''wA'', 60, 1000000, 1000000, 1)])
          \<lparr>ds_bandwidth_ppm := bt_insert ''wA'' 250000 []\<rparr>) default_params)"

definition above_neutral_bandwidth_clamps_and_does_not_error :: bool where
  "above_neutral_bandwidth_clamps_and_does_not_error =
     passes (\<lambda>p. bt_get (per_work p) ''wA'' = Some 1000000 \<and> unallocated p = 0
        \<and> total_to_works p + unallocated p = 1000000)
       (allocate ((h3_ds [(''u1'', 1000000)] [(''u1'', ''wA'', 60, 1000000, 1000000, 1)])
          \<lparr>ds_bandwidth_ppm := bt_insert ''wA'' 2000000 []\<rparr>) default_params)"

definition diminishing_shifts_multiwork_split :: bool where
  "diminishing_shifts_multiwork_split =
     passes (\<lambda>p. bt_get_or 0 (per_work p) ''wA'' > bt_get_or 0 (per_work p) ''wB''
        \<and> bt_contains (per_work p) ''wA'' \<and> bt_contains (per_work p) ''wB''
        \<and> total_to_works p + unallocated p = 1000000)
       (allocate (h3_ds [(''u1'', 1000000)]
          [(''u1'', ''wA'', 10, 1000000, 1000000, 1), (''u1'', ''wB'', 10, 1000000, 1000000, 4)]) default_params)"

definition unit_reputation_prefers_breadth :: bool where
  "unit_reputation_prefers_breadth =
     passes (\<lambda>p. case (bt_get (reputation_of p) ''wBroad'', bt_get (reputation_of p) ''wDeep'') of
          (Some b, Some d) \<Rightarrow> distinct_users b = 2 \<and> distinct_users d = 1 \<and> weighted_usage b > weighted_usage d
        | _ \<Rightarrow> False)
       (allocate (h3_ds [(''u1'', 1000000), (''u2'', 1000000)]
          [(''u1'', ''wBroad'', 10, 1000000, 1000000, 1), (''u2'', ''wBroad'', 10, 1000000, 1000000, 1),
           (''u1'', ''wDeep'', 10, 1000000, 1000000, 50)]) default_params)"

definition allocate_from_raw_matches_allocate :: bool where
  "allocate_from_raw_matches_allocate =
     (let d = h3_ds [(''u1'', 1000000)]
            [(''u1'', ''wA'', 60, 1000000, 1000000, 1), (''u1'', ''wB'', 20, 1000000, 1000000, 1)];
          rows = [\<lparr>rr_user = ''u1'', rr_work = ''wA'', rr_raw = 60 * 1000000 * 1000000\<rparr>,
                  \<lparr>rr_user = ''u1'', rr_work = ''wB'', rr_raw = 20 * 1000000 * 1000000\<rparr>]
      in passes (\<lambda>want. passes (\<lambda>got. per_work want = per_work got \<and> unallocated want = unallocated got)
             (allocate_from_raw (ds_tier_fees d) rows (ds_bandwidth_ppm d))) (allocate d default_params))"

definition fairness_all_fees_conserved :: bool where
  "fairness_all_fees_conserved =
     (let ds = flat_dataset [(''u1'', 1000000), (''u2'', 500000)]
            [(''u1'', ''wA'', 120, 1200000, 1000000), (''u1'', ''wB'', 30, 600000, 1000000),
             (''u2'', ''wA'', 10, 1200000, 1000000), (''u2'', ''wC'', 90, 2500000, 900000)]
      in passes (\<lambda>out. total_to_works out + unallocated out = total_fees ds) (allocate ds default_params))"

definition single_work_user_gets_whole_fee :: bool where
  "single_work_user_gets_whole_fee =
     passes (\<lambda>out. bt_get (per_work out) ''wONLY'' = Some 777777 \<and> unallocated out = 0)
       (allocate (flat_dataset [(''u1'', 777777)] [(''u1'', ''wONLY'', 42, 1000000, 1000000)]) default_params)"

definition zero_value_user_fee_is_unallocated :: bool where
  "zero_value_user_fee_is_unallocated =
     (let ds = flat_dataset [(''u1'', 1000000), (''uZero'', 400000)]
            [(''u1'', ''wA'', 60, 1000000, 1000000), (''uZero'', ''wB'', 0, 1000000, 1000000)]
      in passes (\<lambda>out. bt_get (per_work out) ''wA'' = Some 1000000 \<and> \<not> bt_contains (per_work out) ''wB''
           \<and> unallocated out = 400000 \<and> total_to_works out + unallocated out = total_fees ds)
         (allocate ds default_params))"

definition apportionment_is_exact_and_deterministic :: bool where
  "apportionment_is_exact_and_deterministic =
     passes (\<lambda>out. bt_get (per_work out) ''wX'' = Some 4 \<and> bt_get (per_work out) ''wY'' = Some 3
        \<and> bt_get (per_work out) ''wZ'' = Some 3 \<and> total_to_works out = 10)
       (allocate (flat_dataset [(''u1'', 10)]
          [(''u1'', ''wX'', 1, 1000000, 1000000), (''u1'', ''wY'', 1, 1000000, 1000000),
           (''u1'', ''wZ'', 1, 1000000, 1000000)]) default_params)"

definition region_factor_reduces_share :: bool where
  "region_factor_reduces_share =
     passes (\<lambda>out. case (bt_get (per_work out) ''wFull'', bt_get (per_work out) ''wHalf'') of
          (Some full, Some half) \<Rightarrow> full = 600000 \<and> half = 300000 \<and> full + half = 900000
        | _ \<Rightarrow> False)
       (allocate (flat_dataset [(''u1'', 900000)]
          [(''u1'', ''wFull'', 100, 1000000, 1000000), (''u1'', ''wHalf'', 100, 1000000, 500000)]) default_params)"

definition row_cred :: "u64 list \<Rightarrow> dapr_error + payouts" where
  "row_cred creds = (case cred_rows of (fees, rows) \<Rightarrow> allocate_from_raw_with_row_credibility fees rows creds)"

definition row_baseline :: "dapr_error + payouts" where
  "row_baseline = (case cred_rows of (fees, rows) \<Rightarrow> allocate_from_raw fees rows [])"

definition neutral_row_credibility_matches_allocate_from_raw :: bool where
  "neutral_row_credibility_matches_allocate_from_raw =
     passes (\<lambda>baseline. passes (\<lambda>got. got = baseline) (row_cred (replicate (length (snd cred_rows)) 1000000))) row_baseline"

definition zero_credibility_row_burns_its_share :: bool where
  "zero_credibility_row_burns_its_share =
     passes (\<lambda>got. bt_get (per_work got) ''wB'' = Some 250000 \<and> bt_get (per_work got) ''wA'' = Some 1000000
        \<and> unallocated got = 750000 \<and> sum_list (map snd (per_work got)) + unallocated got = 2000000)
       (row_cred [0, 1000000, 1000000])"

definition row_credibility_does_not_leak_across_users :: bool where
  "row_credibility_does_not_leak_across_users =
     passes (\<lambda>got. bt_get (per_work got) ''wA'' = Some 1000000) (row_cred [0, 1000000, 1000000])"

definition fractional_credibility_discounts_proportionally :: bool where
  "fractional_credibility_discounts_proportionally =
     passes (\<lambda>got. unallocated got = 375000 \<and> sum_list (map snd (per_work got)) + unallocated got = 2000000)
       (row_cred [500000, 1000000, 1000000])"

definition above_neutral_row_credibility_degrades_to_neutral :: bool where
  "above_neutral_row_credibility_degrades_to_neutral =
     passes (\<lambda>baseline. passes (\<lambda>got. got = baseline) (row_cred (replicate (length (snd cred_rows)) 5000000))) row_baseline"

definition mismatched_credibility_length_is_an_error :: bool where
  "mismatched_credibility_length_is_an_error \<longleftrightarrow>
     row_cred (replicate (length (snd cred_rows) - 1) 1000000) = Inl RowCredibilityLen"

section \<open>They pass\<close>

lemma dapr_tests_1:
  "neutral_defaults_reproduce_flat_split" "low_bandwidth_discounts_and_conserves"
  "above_neutral_bandwidth_clamps_and_does_not_error" "diminishing_shifts_multiwork_split"
  "allocate_from_raw_matches_allocate"
  by code_simp+

lemma dapr_tests_2:
  "fairness_all_fees_conserved" "single_work_user_gets_whole_fee" "zero_value_user_fee_is_unallocated"
  "apportionment_is_exact_and_deterministic" "region_factor_reduces_share"
  by code_simp+

lemma dapr_tests_3:
  "neutral_row_credibility_matches_allocate_from_raw" "zero_credibility_row_burns_its_share"
  "row_credibility_does_not_leak_across_users" "fractional_credibility_discounts_proportionally"
  "above_neutral_row_credibility_degrades_to_neutral" "mismatched_credibility_length_is_an_error"
  by code_simp+

lemma dapr_tests_4: "single_work_superfan_unaffected_by_diminishing" "unit_reputation_prefers_breadth"
  by code_simp+

lemma d_values: "d_ppm 1 1000000 = 1000000" "d_ppm 0 1000000 = 1000000" "d_ppm 2 1000000 = 750000"
  by code_simp+

lemma d_step:
  assumes "1 < v" and "v < 51"
  shows "d_ppm (of_nat v) k \<le> d_ppm (of_nat (v - 1)) k"
proof -
  have "unat (of_nat v :: u64) = v" "unat (of_nat (v - 1) :: u64) = v - 1"
    using assms by (simp_all add: unat_of_nat del: of_nat_diff)
  then have "(of_nat (v - 1) :: u64) \<le> of_nat v" unfolding word_le_nat_alt by simp
  then have "max (of_nat (v - 1)) (of_nat v :: u64) = of_nat v" by (rule max_absorb2)
  with d_ppm_diminishes [of "of_nat (v - 1)" k "of_nat v"] show ?thesis by metis
qed

lemma dapr_tests_5: "diminishing_multiplier" "diminishing_multiplier_clamps_huge_play_counts"
proof -
  have "d_ppm (of_nat v) 1000000 \<le> (if v = 1 then 1000001 else d_ppm (of_nat (v - 1)) 1000000)" if "1 \<le> v" "v < 51" for v
  proof (cases "v = 1")
    case True
    have "d_ppm (of_nat v) 1000000 \<le> 1000000" using d_ppm_diminishes [of "of_nat v" 1000000] by blast
    also have "\<dots> \<le> (1000001 :: u64)" by simp
    finally show ?thesis using True by simp
  next
    case False
    with d_step [of v 1000000] that show ?thesis by simp
  qed
  then show "diminishing_multiplier" unfolding diminishing_multiplier_def d_values list_all_iff by auto
  show "diminishing_multiplier_clamps_huge_play_counts"
  proof -
    have "min (max (- 1) 1) PLAYS_CAP = PLAYS_CAP" "min (max PLAYS_CAP 1) PLAYS_CAP = PLAYS_CAP" by code_simp+
    then show ?thesis unfolding diminishing_multiplier_clamps_huge_play_counts_def d_ppm_def by (simp only:)
  qed
qed

text \<open>The library's own tests hold of the model. Every unit test of the payout library, with its data
  and each of its assertions, passes on the definitions that model the library.\<close>
theorem dapr_unit_tests_pass:
  "diminishing_multiplier \<and> diminishing_multiplier_clamps_huge_play_counts
   \<and> neutral_defaults_reproduce_flat_split \<and> single_work_superfan_unaffected_by_diminishing
   \<and> low_bandwidth_discounts_and_conserves \<and> above_neutral_bandwidth_clamps_and_does_not_error
   \<and> diminishing_shifts_multiwork_split \<and> unit_reputation_prefers_breadth
   \<and> allocate_from_raw_matches_allocate \<and> fairness_all_fees_conserved
   \<and> single_work_user_gets_whole_fee \<and> zero_value_user_fee_is_unallocated
   \<and> apportionment_is_exact_and_deterministic \<and> region_factor_reduces_share
   \<and> neutral_row_credibility_matches_allocate_from_raw \<and> zero_credibility_row_burns_its_share
   \<and> row_credibility_does_not_leak_across_users \<and> fractional_credibility_discounts_proportionally
   \<and> above_neutral_row_credibility_degrades_to_neutral \<and> mismatched_credibility_length_is_an_error"
  by (intro conjI) (fact dapr_tests_1 dapr_tests_2 dapr_tests_3 dapr_tests_4 dapr_tests_5)+

end
