(* ===== verification/SettleTests.thy ===== *)
theory SettleTests
  imports Settle Credibility
begin

text \<open>
  The unit tests of the settlement service, run on the model: \<open>merkle.rs\<close>, \<open>settle.rs\<close> and
  \<open>receipts.rs\<close> of \<open>services/settlement/src\<close>. The tests that say proofs verify hold for every hash.
  The two that say hashes differ are run with one, a checksum of the two halves, since a hash that
  collides fails them. Signatures are replaced by ones that carry the signer and the signed bytes.
\<close>

definition checksum :: "u8 list \<Rightarrow> hash" where
  "checksum bs = map2 (\<lambda>a b. a * 31 + b) (take 32 bs) (drop 32 bs)"

definition filled :: "u8 \<Rightarrow> u8 list" where
  "filled b = replicate 32 b"

section \<open>The tree\<close>

definition proofs_verify_for_various_sizes :: "(u8 list \<Rightarrow> hash) \<Rightarrow> bool" where
  "proofs_verify_for_various_sizes k =
     list_all (\<lambda>n.
       let ls = map (\<lambda>i. leaf_hash k (filled (of_nat i)) ((of_nat i + 1) * 1000)) [0..<n]
       in case merkle_build k ls of None \<Rightarrow> False
          | Some tree \<Rightarrow> list_all (\<lambda>i. merkle_verify k (merkle_proof tree i) (merkle_root tree) (ls ! i))
              [0..<length ls]) [1..<9]"

definition single_leaf_tree :: "(u8 list \<Rightarrow> hash) \<Rightarrow> bool" where
  "single_leaf_tree k =
     (let leaf = leaf_hash k (filled 1) 5
      in case merkle_build k [leaf] of None \<Rightarrow> False
         | Some tree \<Rightarrow> merkle_root tree = leaf \<and> merkle_proof tree 0 = [])"

definition leaf_hash_distinguishes_inputs :: bool where
  "leaf_hash_distinguishes_inputs \<longleftrightarrow>
     leaf_hash checksum (filled 1) 100 = leaf_hash checksum (filled 1) 100
     \<and> leaf_hash checksum (filled 1) 100 \<noteq> leaf_hash checksum (filled 2) 100
     \<and> leaf_hash checksum (filled 1) 100 \<noteq> leaf_hash checksum (filled 1) 101"

definition corrupt_first :: "hash \<Rightarrow> hash" where
  "corrupt_first h = (case h of [] \<Rightarrow> [] | b # bs \<Rightarrow> (b XOR 0xFF) # bs)"

definition tampered_proof_fails :: bool where
  "tampered_proof_fails =
     (let ls = [leaf_hash checksum (filled 0) 10, leaf_hash checksum (filled 1) 20]
      in case merkle_build checksum ls of None \<Rightarrow> False
         | Some tree \<Rightarrow>
             (case merkle_proof tree 0 of [] \<Rightarrow> False
              | h # path \<Rightarrow> \<not> merkle_verify checksum (corrupt_first h # path) (merkle_root tree) (ls ! 0)))"

lemma every_leaf_proves:
  "ls \<noteq> [] \<Longrightarrow> (case merkle_build k ls of None \<Rightarrow> False
     | Some tree \<Rightarrow> list_all (\<lambda>i. merkle_verify k (merkle_proof tree i) (merkle_root tree) (ls ! i)) [0..<length ls])"
proof -
  assume "ls \<noteq> []"
  then obtain t where t: "merkle_build k ls = Some t" by (simp add: merkle_build_def)
  then show ?thesis by (simp add: list_all_iff merkle_walk_verifies [OF t])
qed

lemma merkle_tests_pass:
  "proofs_verify_for_various_sizes k" "single_leaf_tree k" "leaf_hash_distinguishes_inputs" "tampered_proof_fails"
proof -
  show "proofs_verify_for_various_sizes k"
    unfolding proofs_verify_for_various_sizes_def list_all_iff [of _ "[1..<9]"] Let_def
    by (intro ballI every_leaf_proves) simp
  show "single_leaf_tree k"
    by (simp add: single_leaf_tree_def merkle_build_def merkle_root_def merkle_proof_def levels_from.simps Let_def)
  show "leaf_hash_distinguishes_inputs" by code_simp
  show "tampered_proof_fails" by code_simp
qed

section \<open>The settlement\<close>

definition test_id :: "u8 \<Rightarrow> string" where
  "test_id b = ''0x'' @ hex_string (filled b)"

definition hex_raw_rows :: "(string, u128) btree_map \<times> raw_row list" where
  "hex_raw_rows =
     (bt_insert ''u1'' 1000000 [],
      [\<lparr>rr_user = ''u1'', rr_work = test_id 0xAA, rr_raw = 60\<rparr>,
       \<lparr>rr_user = ''u1'', rr_work = test_id 0xBB, rr_raw = 20\<rparr>])"

definition hex_dataset :: dataset where
  "hex_dataset =
     \<lparr>ds_tier_fees = bt_insert ''u1'' 1000000 [],
      ds_usage = [\<lparr>ur_user = ''u1'', ur_work = test_id 0xAA, ur_minutes = 60, ur_price_ppm = 1000000,
                    ur_region_ppm = 1000000, ur_plays = 1\<rparr>,
                  \<lparr>ur_user = ''u1'', ur_work = test_id 0xBB, ur_minutes = 20, ur_price_ppm = 1000000,
                    ur_region_ppm = 1000000, ur_plays = 1\<rparr>],
      ds_bandwidth_ppm = []\<rparr>"

definition unwrapped :: "('a \<Rightarrow> bool) \<Rightarrow> 'e + 'a \<Rightarrow> bool" where
  "unwrapped check r = (case r of Inl _ \<Rightarrow> False | Inr x \<Rightarrow> check x)"

text \<open>The tests of \<open>settle.rs\<close> do not depend on the hash: they hold for every one.\<close>

definition test_settle :: "(u8 list \<Rightarrow> hash) \<Rightarrow> string btree_set \<Rightarrow> settle_error + settlement" where
  "test_settle k escrow_works = settle k decode_hex 3 hex_dataset escrow_works"

definition test_settle_raw :: "(u8 list \<Rightarrow> hash) \<Rightarrow> settle_error + settlement" where
  "test_settle_raw k = settle_raw k decode_hex 3 (fst hex_raw_rows) (snd hex_raw_rows) [] []"

definition proofs_hold :: "(u8 list \<Rightarrow> hash) \<Rightarrow> settlement \<Rightarrow> bool" where
  "proofs_hold k s =
     list_all (\<lambda>e. merkle_verify k (map as_bytes (se_proof e)) (as_bytes (merkle_root_of s))
        (leaf_hash k (as_bytes (se_work_id e)) (se_amount e))) (entries s)"

definition credits_conserved :: "settlement \<Rightarrow> bool" where
  "credits_conserved s \<longleftrightarrow>
     sum_list (map se_amount (entries s)) = total_credits s \<and> total_credits s + sm_unallocated s = 1000000"

definition settle_conserves_and_proofs_verify :: "(u8 list \<Rightarrow> hash) \<Rightarrow> bool" where
  "settle_conserves_and_proofs_verify k = unwrapped (\<lambda>s. credits_conserved s \<and> proofs_hold k s) (test_settle k [])"

definition settle_matches_dapr_allocation :: "(u8 list \<Rightarrow> hash) \<Rightarrow> bool" where
  "settle_matches_dapr_allocation k =
     unwrapped (\<lambda>expected. unwrapped (\<lambda>s. list_all (\<lambda>e.
         bt_get (per_work expected) (bytes32_to_string hex_string (se_work_id e)) = Some (se_amount e)) (entries s))
       (test_settle k [])) (allocate hex_dataset default_params)"

definition settle_raw_conserves_and_proofs_verify :: "(u8 list \<Rightarrow> hash) \<Rightarrow> bool" where
  "settle_raw_conserves_and_proofs_verify k = unwrapped (\<lambda>s. credits_conserved s \<and> proofs_hold k s) (test_settle_raw k)"

definition settle_raw_matches_settle_on_equivalent_input :: "(u8 list \<Rightarrow> hash) \<Rightarrow> bool" where
  "settle_raw_matches_settle_on_equivalent_input k =
     unwrapped (\<lambda>raw. unwrapped (\<lambda>ds. entries raw = entries ds \<and> total_credits raw = total_credits ds
         \<and> sm_unallocated raw = sm_unallocated ds) (test_settle k [])) (test_settle_raw k)"

definition all_neutral_row_credibility_matches_settle_raw :: "(u8 list \<Rightarrow> hash) \<Rightarrow> bool" where
  "all_neutral_row_credibility_matches_settle_raw k =
     (case hex_raw_rows of (tier_fees, rows) \<Rightarrow>
        unwrapped (\<lambda>via_row_credibility. unwrapped (\<lambda>via_settle_raw. via_row_credibility = via_settle_raw) (test_settle_raw k))
          (settle_raw_with_row_credibility k decode_hex 3 tier_fees rows (replicate (length rows) 1000000) []))"

definition escrow_works_route_to_escrow :: "(u8 list \<Rightarrow> hash) \<Rightarrow> bool" where
  "escrow_works_route_to_escrow k =
     (let work_b = test_id 0xBB in
      unwrapped (\<lambda>s. list_all (\<lambda>e. bytes32_to_string hex_string (se_work_id e) \<noteq> work_b) (entries s)
          \<and> map (\<lambda>e. bytes32_to_string hex_string (ee_work_id e)) (escrow s) = [work_b]
          \<and> total_credits s + escrow_total s + sm_unallocated s = 1000000 \<and> proofs_hold k s)
        (test_settle k (bs_insert work_b [])))"

definition even_split :: "payouts \<Rightarrow> bool" where
  "even_split p \<longleftrightarrow> per_work p = [(test_id 0xAA, 750000), (test_id 0xBB, 250000)] \<and> unallocated p = 0"

lemma test_allocation: "unwrapped even_split (allocate hex_dataset default_params)"
  by code_simp

lemma test_allocation_raw: "unwrapped even_split (allocate_from_raw (fst hex_raw_rows) (snd hex_raw_rows) [])"
  by code_simp

lemma test_allocation_neutral:
  "allocate_from_raw_with_row_credibility (fst hex_raw_rows) (snd hex_raw_rows) (replicate (length (snd hex_raw_rows)) 1000000)
     = allocate_from_raw (fst hex_raw_rows) (snd hex_raw_rows) []"
  by (simp add: allocate_from_raw_def hex_raw_rows_def bw_ppm_def bt_get_or_def)

lemma unwrapped_iff: "unwrapped check r \<longleftrightarrow> (\<exists>x. r = Inr x \<and> check x)"
  by (cases r) (simp_all add: unwrapped_def)

lemma test_id_string: "test_id b = bytes32_to_string hex_string (Bytes32 (filled b))"
  by (simp add: test_id_def bytes32_to_string_def)

lemma work_of_test_id: "bytes32_from_str decode_hex (test_id b) = Inr (Bytes32 (filled b))"
  unfolding test_id_string by (rule hex.from_str_to_string) (simp add: b32_ok_def filled_def)

lemma test_finalize:
  assumes "even_split p"
  shows "\<exists>s. finalize k decode_hex 3 p esc = Inr s \<and> proofs_hold k s"
proof (cases "finalize k decode_hex 3 p esc")
  case (Inl e)
  have ids: "is_ok (bytes32_from_str decode_hex h)" if "h \<in> fst ` set (per_work p)" for h
    using that assms by (auto simp: even_split_def work_of_test_id)
  from Inl assms obtain ok h a rest where "per_work p = ok @ (h, a) # rest" "\<not> is_ok (bytes32_from_str decode_hex h)"
    unfolding finalize_error_iff by (auto simp: even_split_def)
  then show ?thesis using ids [of h] by simp
next
  case (Inr s)
  then show ?thesis using settlement_proofs_verify [OF Inr] by (simp add: proofs_hold_def list_all_iff)
qed

lemma test_entries:
  assumes "even_split p" and "finalize k decode_hex 3 p esc = Inr s"
  shows "map (\<lambda>e. (se_work_id e, se_amount e)) (entries s)
       = map (\<lambda>wa. (work_of decode_hex (fst wa), snd wa)) (direct_part esc (per_work p))"
    and "map (\<lambda>e. (ee_work_id e, ee_amount e)) (escrow s)
       = map (\<lambda>wa. (work_of decode_hex (fst wa), snd wa)) (escrow_part esc (per_work p))"
    and "total_credits s = sum_list (map snd (direct_part esc (per_work p)))"
    and "escrow_total s = sum_list (map snd (escrow_part esc (per_work p)))" and "sm_unallocated s = 0"
  using finalize_Inr [OF assms(2)] assms(1) by (simp_all add: even_split_def)


lemma direct_credits:
  assumes "even_split p" and "finalize k decode_hex 3 p [] = Inr s"
  shows "map (\<lambda>e. (se_work_id e, se_amount e)) (entries s) = [(Bytes32 (filled 0xAA), 750000), (Bytes32 (filled 0xBB), 250000)]"
    and "credits_conserved s"
proof -
  have d: "direct_part [] (per_work p) = [(test_id 0xAA, 750000), (test_id 0xBB, 250000)]"
    using assms(1) by (simp add: even_split_def direct_part_def bs_contains_def)
  show e: "map (\<lambda>e. (se_work_id e, se_amount e)) (entries s) = [(Bytes32 (filled 0xAA), 750000), (Bytes32 (filled 0xBB), 250000)]"
    using test_entries(1) [OF assms] by (simp add: d work_of_def work_of_test_id)
  from arg_cong [OF e, of "map snd"] have "map se_amount (entries s) = [750000, 250000]" by (simp add: comp_def)
  then show "credits_conserved s"
    using test_entries(3,5) [OF assms] by (simp add: credits_conserved_def d)
qed

lemma settle_tests_pass:
  "settle_conserves_and_proofs_verify k" "settle_matches_dapr_allocation k" "settle_raw_conserves_and_proofs_verify k"
  "settle_raw_matches_settle_on_equivalent_input k" "all_neutral_row_credibility_matches_settle_raw k"
proof -
  from test_allocation obtain p where p: "allocate hex_dataset default_params = Inr p" "even_split p"
    by (auto simp: unwrapped_iff)
  from test_allocation_raw obtain q where q: "allocate_from_raw (fst hex_raw_rows) (snd hex_raw_rows) [] = Inr q" "even_split q"
    by (auto simp: unwrapped_iff)
  from test_finalize [OF p(2)] obtain s where s: "finalize k decode_hex 3 p [] = Inr s" "proofs_hold k s" by blast
  from test_finalize [OF q(2)] obtain t where t: "finalize k decode_hex 3 q [] = Inr t" "proofs_hold k t" by blast
  have runs: "test_settle k [] = Inr s" "test_settle_raw k = Inr t"
    by (simp_all add: test_settle_def settle_def test_settle_raw_def settle_raw_def p q s t)
  show "settle_conserves_and_proofs_verify k" "settle_raw_conserves_and_proofs_verify k"
    using direct_credits(2) [OF p(2) s(1)] direct_credits(2) [OF q(2) t(1)] s t
    by (simp_all add: settle_conserves_and_proofs_verify_def settle_raw_conserves_and_proofs_verify_def runs unwrapped_def)
  have "(se_work_id e, se_amount e) \<in> {(Bytes32 (filled 0xAA), 750000), (Bytes32 (filled 0xBB), 250000)}"
    if "e \<in> set (entries s)" for e
    using arg_cong [OF direct_credits(1) [OF p(2) s(1)], of set] that by auto
  moreover have "test_id 0xAA \<noteq> test_id 0xBB" by (simp add: test_id_def hex.encode_inj filled_def)
  ultimately have "bt_get (per_work p) (bytes32_to_string hex_string (se_work_id e)) = Some (se_amount e)"
    if "e \<in> set (entries s)" for e
    using p(2) that by (fastforce simp: even_split_def simp flip: test_id_string)
  then show "settle_matches_dapr_allocation k"
    by (simp add: settle_matches_dapr_allocation_def p runs unwrapped_def list_all_iff)
  have "finalize k decode_hex 3 p [] = finalize k decode_hex 3 q []"
    using p(2) q(2) by (simp add: even_split_def finalize_def)
  with s t have same: "s = t" by simp
  show "settle_raw_matches_settle_on_equivalent_input k"
    by (simp add: settle_raw_matches_settle_on_equivalent_input_def runs unwrapped_def same)
  show "all_neutral_row_credibility_matches_settle_raw k"
    using test_allocation_neutral
    by (simp add: all_neutral_row_credibility_matches_settle_raw_def runs unwrapped_def case_prod_unfold
        settle_raw_with_row_credibility_def q t)
qed

lemma escrow_test_passes: "escrow_works_route_to_escrow k"
proof -
  from test_allocation obtain p where p: "allocate hex_dataset default_params = Inr p" "even_split p"
    by (auto simp: unwrapped_iff)
  let ?esc = "bs_insert (test_id 0xBB) []"
  from test_finalize [OF p(2)] obtain s where s: "finalize k decode_hex 3 p ?esc = Inr s" "proofs_hold k s" by blast
  have ne: "test_id 0xAA \<noteq> test_id 0xBB" by (simp add: test_id_def hex.encode_inj filled_def)
  have parts: "direct_part ?esc (per_work p) = [(test_id 0xAA, 750000)]" "escrow_part ?esc (per_work p) = [(test_id 0xBB, 250000)]"
    using p(2) ne by (simp_all add: even_split_def direct_part_def escrow_part_def bs_contains_def)
  note ents = test_entries [OF p(2) s(1), unfolded parts]
  have "map se_work_id (entries s) = [Bytes32 (filled 0xAA)]" "map ee_work_id (escrow s) = [Bytes32 (filled 0xBB)]"
    using arg_cong [OF ents(1), of "map fst"] arg_cong [OF ents(2), of "map fst"]
    by (simp_all add: comp_def work_of_def work_of_test_id)
  then have "set (map se_work_id (entries s)) = {Bytes32 (filled 0xAA)}"
    and held: "map (\<lambda>e. bytes32_to_string hex_string (ee_work_id e)) (escrow s) = [test_id 0xBB]"
    by (simp, metis (no_types, lifting) comp_def list.map_comp list.map_cong list.simps(8,9) test_id_string)
  then have "se_work_id e = Bytes32 (filled 0xAA)" if "e \<in> set (entries s)" for e using that by auto
  then have direct: "list_all (\<lambda>e. bytes32_to_string hex_string (se_work_id e) \<noteq> test_id 0xBB) (entries s)"
    using ne by (simp add: list_all_iff flip: test_id_string)
  show ?thesis
    using s held direct ents(3-5)
    by (simp add: escrow_works_route_to_escrow_def Let_def test_settle_def settle_def p unwrapped_def)
qed

end
