(* ===== verification/ReceiptTests.thy ===== *)
theory ReceiptTests
  imports SettleTests
begin

text \<open>
  The unit tests of \<open>libs/receipt/src/lib.rs\<close> and of \<open>services/settlement/src/receipts.rs\<close>,
  run on the model. The tests draw random signers; here a signer is a byte, and a test is a predicate
  of the signers it draws. The signature scheme is replaced by one that carries the signer and the
  signed bytes, so that it recovers the signer on those bytes and fails on others. The signed bytes are
  the numbers of the receipt, which are what the tests tamper with; the texts (work, consumer and node) are not
  in them, so a test that tampered with a text could not be run this way.
\<close>

section \<open>Signers\<close>

definition le_bytes :: "u64 \<Rightarrow> u8 list" where
  "le_bytes v = map (\<lambda>i. ucast (drop_bit (8 * i) v)) [0..<8]"

definition test_message :: "receipt \<Rightarrow> u8 list" where
  "test_message r = le_bytes (rc_chunk_index r) @ le_bytes (rc_bytes r) @ le_bytes (rc_epoch r) @ replicate 40 0"

definition signer_address :: "u8 \<Rightarrow> string" where
  "signer_address n = ''0x'' @ hex_string (replicate 20 n)"

definition sign_message :: "u8 \<Rightarrow> u8 list \<Rightarrow> u8 list" where
  "sign_message n msg = n # msg"

definition test_env :: "(u8 list, u8) receipt_env" where
  "test_env = \<lparr>canonical_json = (\<lambda>r. Inr (test_message r)),
     parse_signature = (\<lambda>bs. if length bs = 65 then Some bs else None),
     recover_from_msg = (\<lambda>sig msg. if tl sig = msg then Inr (hd sig) else Inl ''recovery failed''),
     lower_hex = signer_address\<rparr>"

definition test_co_sign :: "receipt \<Rightarrow> u8 \<Rightarrow> u8 \<Rightarrow> signed_receipt" where
  "test_co_sign r node consumer =
     \<lparr>sr_receipt = r, sr_node_sig = ''0x'' @ hex_string (sign_message node (test_message r)),
      sr_consumer_sig = ''0x'' @ hex_string (sign_message consumer (test_message r))\<rparr>"

section \<open>The tests of the receipt library\<close>

definition sample :: "string \<Rightarrow> string \<Rightarrow> receipt" where
  "sample consumer node = \<lparr>rc_work_id = test_id 0xAA, rc_consumer = consumer, rc_node = node, rc_chunk_index = 3,
     rc_bytes = 131072, rc_epoch = 7\<rparr>"

definition signed_sample :: "u8 \<Rightarrow> u8 \<Rightarrow> signed_receipt" where
  "signed_sample node consumer = test_co_sign (sample (signer_address consumer) (signer_address node)) node consumer"

definition canonical_bytes_are_stable :: bool where
  "canonical_bytes_are_stable \<longleftrightarrow>
     is_ok (canonical_bytes test_env (sample ''0x00'' ''0x11''))
     \<and> canonical_bytes test_env (sample ''0x00'' ''0x11'') = canonical_bytes test_env (sample ''0x00'' ''0x11'')"

definition co_signed_receipt_verifies :: "u8 \<Rightarrow> u8 \<Rightarrow> bool" where
  "co_signed_receipt_verifies node consumer = is_ok (signed_verify test_env (signed_sample node consumer))"

definition tampered_bytes_fail_verification :: "u8 \<Rightarrow> u8 \<Rightarrow> bool" where
  "tampered_bytes_fail_verification node consumer =
     (let s = signed_sample node consumer;
          r = sr_receipt s
      in \<not> is_ok (signed_verify test_env (s\<lparr>sr_receipt := r\<lparr>rc_bytes := rc_bytes r + 1\<rparr>\<rparr>)))"

definition wrong_node_signature_fails :: "u8 \<Rightarrow> u8 \<Rightarrow> u8 \<Rightarrow> bool" where
  "wrong_node_signature_fails node impostor consumer =
     (\<not> is_ok (signed_verify test_env
        (test_co_sign (sample (signer_address consumer) (signer_address node)) impostor consumer)))"

definition missing_consumer_signature_fails :: "u8 \<Rightarrow> u8 \<Rightarrow> bool" where
  "missing_consumer_signature_fails node consumer =
     (\<not> is_ok (signed_verify test_env ((signed_sample node consumer)\<lparr>sr_consumer_sig := []\<rparr>)))"

text \<open>The last three bytes are the UTF-8 form of the euro sign.\<close>

definition non_ascii_signature_fails_without_panic :: "u8 \<Rightarrow> u8 \<Rightarrow> bool" where
  "non_ascii_signature_fails_without_panic node consumer =
     (\<not> is_ok (signed_verify test_env ((signed_sample node consumer)
        \<lparr>sr_node_sig := ''0xa'' @ map char_of [0xE2, 0x82, 0xAC :: nat]\<rparr>)))"

definition wrong_length_hex_signature_fails :: "u8 \<Rightarrow> u8 \<Rightarrow> bool" where
  "wrong_length_hex_signature_fails node consumer =
     (\<not> is_ok (signed_verify test_env ((signed_sample node consumer)
        \<lparr>sr_node_sig := ''0x'' @ concat (replicate 64 ''ab'')\<rparr>)))"

definition odd_length_signature_fails :: "u8 \<Rightarrow> u8 \<Rightarrow> bool" where
  "odd_length_signature_fails node consumer =
     (\<not> is_ok (signed_verify test_env ((signed_sample node consumer)\<lparr>sr_node_sig := ''0xabc''\<rparr>)))"

definition non_hex_characters_signature_fails :: "u8 \<Rightarrow> u8 \<Rightarrow> bool" where
  "non_hex_characters_signature_fails node consumer =
     (\<not> is_ok (signed_verify test_env ((signed_sample node consumer)
        \<lparr>sr_node_sig := ''0x'' @ concat (replicate 65 ''zz'')\<rparr>)))"

definition dedup_key_is_content_position_not_node :: bool where
  "dedup_key_is_content_position_not_node =
     (let a = sample ''0xc0ffee'' ''0xnode1'';
          b = (sample ''0xc0ffee'' ''0xnode2'')\<lparr>rc_bytes := 1\<rparr>;
          c = a\<lparr>rc_chunk_index := rc_chunk_index a + 1\<rparr>;
          d = sample ''0xdecaf'' ''0xnode1''
      in dedup_key a = dedup_key b \<and> dedup_key a \<noteq> dedup_key c \<and> dedup_key a \<noteq> dedup_key d)"

definition dedup_key_normalises_case :: bool where
  "dedup_key_normalises_case \<longleftrightarrow>
     dedup_key (sample ''0xc0ffee'' ''0xnode1'') = dedup_key (sample ''0xC0FFEE'' ''0xNODE1'')"

definition offset_follows_chunk_index :: bool where
  "offset_follows_chunk_index =
     (let r = sample ''0xc0ffee'' ''0xnode1''
      in receipt_offset (r\<lparr>rc_chunk_index := 0\<rparr>) = 0 \<and> receipt_offset (r\<lparr>rc_chunk_index := 5\<rparr>) = 5 * CHUNK_SIZE)"

definition to_ascii_upper_char :: "char \<Rightarrow> char" where
  "to_ascii_upper_char c = (let n = (of_char c :: nat) in if 97 \<le> n \<and> n \<le> 122 then char_of (n - 32) else c)"

definition addresses_normalise_to_lowercase :: "u8 \<Rightarrow> u8 \<Rightarrow> bool" where
  "addresses_normalise_to_lowercase node consumer \<longleftrightarrow>
     is_ok (signed_verify test_env
       (test_co_sign (sample (map to_ascii_upper_char (signer_address consumer)) (map to_ascii_upper_char (signer_address node)))
          node consumer))
     \<and> normalize_addr ''0xAbCd'' = ''0xabcd''"

lemma lower_prefix: "to_ascii_lowercase (''0x'' @ s) = ''0x'' @ to_ascii_lowercase s"
  by (simp add: to_ascii_lowercase_def to_ascii_lower_char_def Let_def)

lemma lower_signer: "normalize_addr (signer_address n) = signer_address n"
  by (simp only: normalize_addr_def signer_address_def lower_prefix hex_string_lowercase)

lemma signer_inj: "signer_address n = signer_address m \<longleftrightarrow> n = m"
  by (simp add: signer_address_def hex.encode_inj)

lemma length_test_message: "length (test_message r) = 64"
  by (simp add: test_message_def le_bytes_def)

lemma test_recovers:
  "recover_signer test_env r (''0x'' @ hex_string (sign_message n msg)) = Inr m
     \<longleftrightarrow> msg = test_message r \<and> m = n"
proof -
  have "strip_prefix ''0x'' (''0x'' @ hex_string (n # msg)) = Some (hex_string (n # msg))" by (rule strip_prefix_append)
  moreover have "decode_hex (hex_string (n # msg)) = Some (n # msg)" by (rule decode_hex_string)
  ultimately show ?thesis
    using length_test_message [of r]
    unfolding recover_signer_def sign_message_def Let_def
    by (auto simp: test_env_def result_simps canonical_bytes_def simp del: hex_string_simps split: if_splits)
qed

lemma test_lower_hex: "lower_hex test_env = signer_address"
  by (simp add: test_env_def)

lemma test_verifies:
  "is_ok (signed_verify test_env (test_co_sign r node consumer)) \<longleftrightarrow>
     normalize_addr (rc_node r) = signer_address node \<and> normalize_addr (rc_consumer r) = signer_address consumer"
  unfolding signed_verify_Inr by (auto simp: test_co_sign_def test_recovers test_lower_hex simp del: append.simps)

text \<open>What any other text in place of the node's signature does.\<close>

lemma bad_node_signature:
  assumes "\<And>bs. decode_hex t = Some bs \<Longrightarrow> length bs \<noteq> 65"
  shows "\<not> is_ok (signed_verify test_env ((signed_sample node consumer)\<lparr>sr_node_sig := ''0x'' @ t\<rparr>))"
proof -
  have "strip_prefix ''0x'' (''0x'' @ t) = Some t" by (rule strip_prefix_append)
  then show ?thesis
    using assms unfolding signed_verify_Inr recover_signer_Inr
    by (auto simp: test_env_def simp del: append.simps split: if_splits)
qed

lemma length_replicate_pair: "length (concat (replicate n [a, b])) = 2 * n"
  by (induction n) simp_all

lemma tampered_message: "test_message (r\<lparr>rc_bytes := 131072\<rparr>) \<noteq> test_message (r\<lparr>rc_bytes := 131073\<rparr>)"
proof -
  have "le_bytes 131072 \<noteq> le_bytes 131073" by code_simp
  moreover have "length (le_bytes v) = 8" for v by (simp add: le_bytes_def)
  ultimately show ?thesis by (simp add: test_message_def)
qed

lemma undecodable: "decode_hex (''a'' @ map char_of [0xE2, 0x82, 0xAC :: nat]) = None" "decode_hex ''abc'' = None"
    "decode_hex (concat (replicate 65 ''zz'')) = None"
proof -
  show "decode_hex (''a'' @ map char_of [0xE2, 0x82, 0xAC :: nat]) = None" "decode_hex ''abc'' = None" by code_simp+
  have "u8_from_str_radix16 ''zz'' = None" by code_simp
  then have "decode_pairs (''zz'' @ s) = None" for s by simp
  moreover have "concat (replicate 65 ''zz'') = ''zz'' @ concat (replicate 64 ''zz'')"
    using replicate_Suc [of 64 "''zz''"] by simp
  ultimately have "decode_pairs (concat (replicate 65 ''zz'')) = None" by metis
  then show "decode_hex (concat (replicate 65 ''zz'')) = None" by (simp add: decode_hex_def)
qed

lemma receipt_library_tests_pass:
  "canonical_bytes_are_stable" "co_signed_receipt_verifies node consumer" "tampered_bytes_fail_verification node consumer"
  "impostor \<noteq> node \<Longrightarrow> wrong_node_signature_fails node impostor consumer"
  "missing_consumer_signature_fails node consumer" "non_ascii_signature_fails_without_panic node consumer"
  "wrong_length_hex_signature_fails node consumer" "odd_length_signature_fails node consumer"
  "non_hex_characters_signature_fails node consumer"
proof -
  show "canonical_bytes_are_stable" by (simp add: canonical_bytes_are_stable_def canonical_bytes_def test_env_def)
  show "co_signed_receipt_verifies node consumer"
    by (simp add: co_signed_receipt_verifies_def signed_sample_def test_verifies sample_def lower_signer)
  show "wrong_node_signature_fails node impostor consumer" if "impostor \<noteq> node"
    using that by (simp add: wrong_node_signature_fails_def test_verifies sample_def lower_signer signer_inj)
  show "tampered_bytes_fail_verification node consumer"
    using tampered_message [of "sample (signer_address consumer) (signer_address node)"]
    unfolding tampered_bytes_fail_verification_def Let_def signed_verify_Inr
    by (simp add: signed_sample_def test_co_sign_def test_recovers del: append.simps) (simp add: sample_def)
  show "missing_consumer_signature_fails node consumer"
    unfolding missing_consumer_signature_fails_def signed_verify_Inr recover_signer_Inr
    by (auto simp: test_env_def strip_prefix_def decode_hex_def)
  have "''0xa'' @ t = ''0x'' @ (''a'' @ t)" for t by simp
  then show "non_ascii_signature_fails_without_panic node consumer"
    unfolding non_ascii_signature_fails_without_panic_def by (metis bad_node_signature option.distinct(1) undecodable(1))
  have "''0xabc'' = ''0x'' @ ''abc''" by simp
  then show "odd_length_signature_fails node consumer"
    unfolding odd_length_signature_fails_def by (metis bad_node_signature option.distinct(1) undecodable(2))
  show "wrong_length_hex_signature_fails node consumer"
    unfolding wrong_length_hex_signature_fails_def
  proof (rule bad_node_signature)
    show "length bs \<noteq> 65" if "decode_hex (concat (replicate 64 ''ab'')) = Some bs" for bs
      using decode_hex_length [OF that] length_replicate_pair [of 64 "CHR ''a''" "CHR ''b''"] by simp
  qed
  show "non_hex_characters_signature_fails node consumer"
    unfolding non_hex_characters_signature_fails_def by (rule bad_node_signature) (simp add: undecodable(3))
qed

lemma lower_upper: "to_ascii_lowercase (map to_ascii_upper_char s) = to_ascii_lowercase s"
proof -
  have "to_ascii_lower_char (to_ascii_upper_char c) = to_ascii_lower_char c" for c
    by (auto simp: to_ascii_lower_char_def to_ascii_upper_char_def Let_def)
  then show ?thesis by (simp add: to_ascii_lowercase_def)
qed

lemma lower_texts:
  "to_ascii_lowercase ''0xC0FFEE'' = ''0xc0ffee''" "to_ascii_lowercase ''0xc0ffee'' = ''0xc0ffee''"
  "to_ascii_lowercase ''0xdecaf'' = ''0xdecaf''" "to_ascii_lowercase ''0xAbCd'' = ''0xabcd''"
  by code_simp+

lemma receipt_key_tests_pass:
  "dedup_key_is_content_position_not_node" "dedup_key_normalises_case" "offset_follows_chunk_index"
  "addresses_normalise_to_lowercase node consumer"
proof -
  show "dedup_key_is_content_position_not_node" "dedup_key_normalises_case"
    by (simp_all add: dedup_key_is_content_position_not_node_def dedup_key_normalises_case_def dedup_key_def sample_def
        normalize_addr_def lower_texts)
  show "offset_follows_chunk_index" unfolding offset_follows_chunk_index_def Let_def receipt_offset_def sample_def by code_simp
  show "addresses_normalise_to_lowercase node consumer"
    using lower_signer by (simp add: addresses_normalise_to_lowercase_def test_verifies sample_def normalize_addr_def lower_upper lower_texts)
qed

section \<open>The tests of the acceptance of receipts\<close>

definition test_work :: string where
  "test_work = test_id 0xAA"

definition signed_block :: "u8 \<Rightarrow> u8 \<Rightarrow> u64 \<Rightarrow> u64 \<Rightarrow> u64 \<Rightarrow> signed_receipt" where
  "signed_block node consumer bytes epoch chunk_index =
     test_co_sign \<lparr>rc_work_id = test_work, rc_consumer = signer_address consumer, rc_node = signer_address node,
       rc_chunk_index = chunk_index, rc_bytes = bytes, rc_epoch = epoch\<rparr> node consumer"

definition accepted :: "(string \<Rightarrow> bool) \<Rightarrow> signed_receipt list \<Rightarrow> byte_totals" where
  "accepted credentialed rs = accept_receipts test_env \<lparr>rb_epoch = 5, rb_receipts = rs\<rparr> 5 credentialed"

definition all_ok :: "string \<Rightarrow> bool" where
  "all_ok node = True"

definition sums_verified_bytes_per_user_and_work :: "u8 \<Rightarrow> u8 \<Rightarrow> bool" where
  "sums_verified_bytes_per_user_and_work node consumer \<longleftrightarrow>
     bt_get (accepted all_ok [signed_block node consumer 1000 5 0, signed_block node consumer 2000 5 1])
       (signer_address consumer, test_work) = Some 3000"

definition drops_receipts_from_an_uncredentialed_node :: "u8 \<Rightarrow> u8 \<Rightarrow> bool" where
  "drops_receipts_from_an_uncredentialed_node node consumer \<longleftrightarrow>
     accepted (\<lambda>_. False) [signed_block node consumer 1000 5 0] = []"

definition same_chunk_from_two_nodes_counts_once :: "u8 \<Rightarrow> u8 \<Rightarrow> u8 \<Rightarrow> bool" where
  "same_chunk_from_two_nodes_counts_once node_a node_b consumer \<longleftrightarrow>
     bt_get (accepted all_ok [signed_block node_a consumer 1000 5 0, signed_block node_b consumer 1000 5 0])
       (signer_address consumer, test_work) = Some 1000"

definition refetching_one_chunk_credits_it_once :: "u8 \<Rightarrow> u8 \<Rightarrow> bool" where
  "refetching_one_chunk_credits_it_once node consumer \<longleftrightarrow>
     bt_get (accepted all_ok (replicate 50 (signed_block node consumer 1000 5 0)))
       (signer_address consumer, test_work) = Some 1000"

definition distinct_chunks_accumulate :: "u8 \<Rightarrow> u8 \<Rightarrow> bool" where
  "distinct_chunks_accumulate node consumer \<longleftrightarrow>
     bt_get (accepted all_ok [signed_block node consumer 1000 5 0, signed_block node consumer 1000 5 1,
         signed_block node consumer 500 5 2]) (signer_address consumer, test_work) = Some 2500"

definition oversized_chunk_claim_is_clamped_to_chunk_size :: "u8 \<Rightarrow> u8 \<Rightarrow> bool" where
  "oversized_chunk_claim_is_clamped_to_chunk_size node consumer \<longleftrightarrow>
     bt_get (accepted all_ok [signed_block node consumer 131072000 5 0]) (signer_address consumer, test_work)
       = Some (ucast CHUNK_SIZE)"

definition drops_a_replayed_chunk :: "u8 \<Rightarrow> u8 \<Rightarrow> bool" where
  "drops_a_replayed_chunk node consumer \<longleftrightarrow>
     bt_get (accepted all_ok [signed_block node consumer 1000 5 0, signed_block node consumer 9000000 5 0])
       (signer_address consumer, test_work) = Some 1000"

definition drops_a_receipt_from_another_epoch :: "u8 \<Rightarrow> u8 \<Rightarrow> bool" where
  "drops_a_receipt_from_another_epoch node consumer \<longleftrightarrow> accepted all_ok [signed_block node consumer 1000 4 0] = []"

definition drops_a_tampered_receipt :: "u8 \<Rightarrow> u8 \<Rightarrow> bool" where
  "drops_a_tampered_receipt node consumer =
     (let s = signed_block node consumer 1000 5 0
      in accepted all_ok [s\<lparr>sr_receipt := (sr_receipt s)\<lparr>rc_bytes := 5000000\<rparr>\<rparr>] = [])"

lemma lower_work: "to_ascii_lowercase test_work = test_work"
  by (simp only: test_work_def test_id_def lower_prefix hex_string_lowercase)

lemma signed_block_fields:
  "sr_receipt (signed_block n c b ep i) = \<lparr>rc_work_id = test_work, rc_consumer = signer_address c,
     rc_node = signer_address n, rc_chunk_index = i, rc_bytes = b, rc_epoch = ep\<rparr>"
  "is_ok (signed_verify test_env (signed_block n c b ep i))"
  by (simp_all add: signed_block_def test_verifies lower_signer) (simp add: test_co_sign_def)

lemma accept_block:
  "accept_one test_env 5 cred s (signed_block n c b ep i) =
     (if ep = 5 \<and> cred (signer_address n) \<and> (signer_address c, test_work, i) \<notin> set (ac_seen s)
      then s\<lparr>ac_seen := bs_insert (signer_address c, test_work, i) (ac_seen s),
             ac_totals := bt_update 0 (\<lambda>x. saturating_add x (ucast (min b CHUNK_SIZE))) (signer_address c, test_work) (ac_totals s)\<rparr>
      else s)"
  by (simp add: accept_one_def Let_def signed_block_fields lower_signer dedup_key_def lower_work bs_contains_def)

lemma accept_tests_pass:
  "sums_verified_bytes_per_user_and_work node consumer" "drops_receipts_from_an_uncredentialed_node node consumer"
  "same_chunk_from_two_nodes_counts_once node node_b consumer" "refetching_one_chunk_credits_it_once node consumer"
  "distinct_chunks_accumulate node consumer" "oversized_chunk_claim_is_clamped_to_chunk_size node consumer"
  "drops_a_replayed_chunk node consumer" "drops_a_receipt_from_another_epoch node consumer"
proof -
  note run = accepted_def accept_receipts_def accept_block all_ok_def set_bs_insert bt_update_def bt_get_or_def
    saturating_add_def CHUNK_SIZE_def
  show "sums_verified_bytes_per_user_and_work node consumer" "drops_receipts_from_an_uncredentialed_node node consumer"
    "same_chunk_from_two_nodes_counts_once node node_b consumer"
    "distinct_chunks_accumulate node consumer" "oversized_chunk_claim_is_clamped_to_chunk_size node consumer"
    "drops_a_replayed_chunk node consumer" "drops_a_receipt_from_another_epoch node consumer"
    by (simp_all add: sums_verified_bytes_per_user_and_work_def drops_receipts_from_an_uncredentialed_node_def
        same_chunk_from_two_nodes_counts_once_def distinct_chunks_accumulate_def
        oversized_chunk_claim_is_clamped_to_chunk_size_def drops_a_replayed_chunk_def
        drops_a_receipt_from_another_epoch_def run)
  have "foldl (accept_one test_env 5 all_ok) s (replicate n (signed_block node consumer 1000 5 0)) = s"
    if "(signer_address consumer, test_work, 0) \<in> set (ac_seen s)" for s n
    using that by (induction n) (simp_all add: accept_block)
  moreover have "replicate 50 (signed_block node consumer 1000 5 0)
      = signed_block node consumer 1000 5 0 # replicate 49 (signed_block node consumer 1000 5 0)"
    using replicate_Suc [of 49] by simp
  ultimately show "refetching_one_chunk_credits_it_once node consumer"
    by (simp add: refetching_one_chunk_credits_it_once_def run)
qed

lemma tampered_receipt_dropped: "drops_a_tampered_receipt node consumer"
proof -
  have "le_bytes 5000000 \<noteq> le_bytes 1000" by code_simp
  moreover have "length (le_bytes v) = 8" for v by (simp add: le_bytes_def)
  ultimately have "test_message (r\<lparr>rc_bytes := 5000000\<rparr>) \<noteq> test_message (r\<lparr>rc_bytes := 1000\<rparr>)" for r :: receipt
    by (simp add: test_message_def)
  from this [of "sr_receipt (signed_block node consumer 1000 5 0)"]
  have "\<not> is_ok (signed_verify test_env ((signed_block node consumer 1000 5 0)
      \<lparr>sr_receipt := (sr_receipt (signed_block node consumer 1000 5 0))\<lparr>rc_bytes := 5000000\<rparr>\<rparr>))"
    unfolding signed_verify_Inr
    by (simp add: signed_block_def test_co_sign_def test_recovers del: append.simps)
  then show ?thesis
    by (simp add: drops_a_tampered_receipt_def Let_def accepted_def accept_receipts_def accept_one_def)
qed

section \<open>The tests of the credibility of rows\<close>

definition row_of :: "string \<Rightarrow> u128 \<Rightarrow> raw_row" where
  "row_of user raw = \<lparr>rr_user = user, rr_work = test_work, rr_raw = raw\<rparr>"

definition bytes_of :: "string \<Rightarrow> u128 \<Rightarrow> byte_totals" where
  "bytes_of user bytes = bt_insert (user, test_work) bytes []"

definition rate_of :: "u64 \<Rightarrow> (string, u64) btree_map" where
  "rate_of rate = bt_insert test_work rate []"

definition full_factor :: "string \<Rightarrow> (string, u64) btree_map" where
  "full_factor user = bt_insert user 1000000 []"

definition full_credibility_when_bytes_meet_expectation :: bool where
  "full_credibility_when_bytes_meet_expectation \<longleftrightarrow>
     row_credibility_ppm [row_of ''0xu'' 1000000000000] (bytes_of ''0xu'' 8192) (rate_of 8192) (full_factor ''0xu'') = [1000000]
   \<and> row_credibility_ppm [row_of ''0xu'' 1000000000000] (bytes_of ''0xu'' 81920) (rate_of 8192) (full_factor ''0xu'') = [1000000]"

definition partial_bytes_give_proportional_credibility :: bool where
  "partial_bytes_give_proportional_credibility \<longleftrightarrow>
     row_credibility_ppm [row_of ''0xu'' 1000000000000] (bytes_of ''0xu'' 4096) (rate_of 8192) (full_factor ''0xu'') = [500000]"

definition no_bytes_gives_zero_credibility :: bool where
  "no_bytes_gives_zero_credibility \<longleftrightarrow>
     row_credibility_ppm [row_of ''0xu'' 1000000000000] [] (rate_of 8192) (full_factor ''0xu'') = [0]"

definition missing_or_zero_rate_fails_closed :: bool where
  "missing_or_zero_rate_fails_closed \<longleftrightarrow>
     row_credibility_ppm [row_of ''0xu'' 1000000000000] (bytes_of ''0xu'' 99999) [] (full_factor ''0xu'') = [0]
   \<and> row_credibility_ppm [row_of ''0xu'' 1000000000000] (bytes_of ''0xu'' 99999) (rate_of 0) (full_factor ''0xu'') = [0]"

definition zero_weight_row_is_neutral :: bool where
  "zero_weight_row_is_neutral \<longleftrightarrow>
     row_credibility_ppm [row_of ''0xu'' 0] [] (rate_of 8192) (full_factor ''0xu'') = [1000000]"

definition zero_weight_row_with_no_epoch_evidence_is_zero :: bool where
  "zero_weight_row_with_no_epoch_evidence_is_zero \<longleftrightarrow> row_credibility_ppm [row_of ''0xu'' 0] [] (rate_of 8192) [] = [0]"

definition dust_weight_row_with_no_evidence_is_not_neutral :: bool where
  "dust_weight_row_with_no_evidence_is_not_neutral \<longleftrightarrow>
     row_credibility_ppm [row_of ''0xu'' 1000000] [] (rate_of 960000) (full_factor ''0xu'') = [0]"

definition dust_weight_expectation_floors_to_one_byte :: bool where
  "dust_weight_expectation_floors_to_one_byte \<longleftrightarrow>
     row_credibility_ppm [row_of ''0xu'' 1000000] (bytes_of ''0xu'' 1) (rate_of 960000) (full_factor ''0xu'') = [1000000]"

definition credibility_is_per_user_and_work :: bool where
  "credibility_is_per_user_and_work \<longleftrightarrow>
     row_credibility_ppm [row_of ''0xu1'' 1000000000000, row_of ''0xu2'' 1000000000000] (bytes_of ''0xu1'' 8192)
       (rate_of 8192) (bt_insert ''0xu2'' 1000000 (bt_insert ''0xu1'' 1000000 [])) = [1000000, 0]"

definition large_weight_does_not_overflow :: bool where
  "large_weight_does_not_overflow \<longleftrightarrow>
     row_credibility_ppm [row_of ''0xu'' (push_bit 118 1)] [] (rate_of (- 1)) (full_factor ''0xu'') = [0]"

definition epoch_factor_scales_below_the_floor :: bool where
  "epoch_factor_scales_below_the_floor =
     (let verified = bt_insert (''0xdust'', test_work) 1
            (bt_insert (''0xhalf'', test_work) 65536 (bt_insert (''0xfull'', test_work) 131072 []));
          f = epoch_factor_ppm verified 131072
      in bt_get f ''0xfull'' = Some 1000000 \<and> bt_get f ''0xhalf'' = Some 500000 \<and> bt_get f ''0xdust'' = Some 7)"

definition epoch_factor_sums_across_works :: bool where
  "epoch_factor_sums_across_works \<longleftrightarrow>
     bt_get (epoch_factor_ppm (bt_insert (''0xu'', test_id 0xBB) 65536 (bytes_of ''0xu'' 65536)) 131072) ''0xu'' = Some 1000000"

definition epoch_factor_clamps_at_neutral :: bool where
  "epoch_factor_clamps_at_neutral \<longleftrightarrow>
     bt_get (epoch_factor_ppm (bytes_of ''0xu'' 10000000) 131072) ''0xu'' = Some 1000000"

definition epoch_factor_discounts_a_satisfied_row :: bool where
  "epoch_factor_discounts_a_satisfied_row =
     (let rows = [row_of ''0xu'' 1000000000000]; verified = bytes_of ''0xu'' 8192; rates = rate_of 8192
      in row_credibility_ppm rows verified rates (full_factor ''0xu'') = [1000000]
       \<and> row_credibility_ppm rows verified rates (epoch_factor_ppm verified 131072) = [62500])"

definition missing_epoch_factor_fails_closed :: bool where
  "missing_epoch_factor_fails_closed \<longleftrightarrow>
     row_credibility_ppm [row_of ''0xu'' 1000000000000] (bytes_of ''0xu'' 8192) (rate_of 8192) [] = [0]"

lemma lower_users:
  "normalize_addr ''0xu'' = ''0xu''" "normalize_addr ''0xu1'' = ''0xu1''" "normalize_addr ''0xu2'' = ''0xu2''"
  "normalize_addr ''0xdust'' = ''0xdust''" "normalize_addr ''0xhalf'' = ''0xhalf''" "normalize_addr ''0xfull'' = ''0xfull''"
  by code_simp+

lemma quotients:
  "mul_div_floor 1000000000000 8192 RATE_SCALE = 8192" "mul_div_floor 8192 1000000 8192 = 1000000"
  "mul_div_floor 81920 1000000 8192 = 10000000" "mul_div_floor 4096 1000000 8192 = 500000"
  "mul_div_floor 1000000 960000 RATE_SCALE = 0" "mul_div_floor 0 1000000 d = 0" "mul_div_floor 1 1000000 1 = 1000000"
  "mul_div_floor 1000000 1000000 1000000 = 1000000" "mul_div_floor 500000 1000000 1000000 = 500000"
  "mul_div_floor 0 b 1000000 = 0" "mul_div_floor 1000000 62500 1000000 = 62500" "mul_div_floor 1000000 0 1000000 = 0"
  "mul_div_floor 8192 1000000 131072 = 62500" "mul_div_floor 131072 1000000 131072 = 1000000"
  "mul_div_floor 65536 1000000 131072 = 500000" "mul_div_floor 1 1000000 131072 = 7"
  "mul_div_floor 10000000 1000000 131072 = 76293945"
  by (simp_all add: mul_div_floor_def Let_def saturating_add_def saturating_mul_def RATE_SCALE_def)

lemmas row_tests = row_credibility_ppm_def row_credibility_def row_of_def bytes_of_def rate_of_def full_factor_def lower_users
  lower_work bt_get_or_def quotients Let_def

lemma credibility_tests_pass:
  "full_credibility_when_bytes_meet_expectation" "partial_bytes_give_proportional_credibility"
  "no_bytes_gives_zero_credibility" "missing_or_zero_rate_fails_closed" "zero_weight_row_is_neutral"
  "zero_weight_row_with_no_epoch_evidence_is_zero" "dust_weight_row_with_no_evidence_is_not_neutral"
  "dust_weight_expectation_floors_to_one_byte" "credibility_is_per_user_and_work" "missing_epoch_factor_fails_closed"
  "large_weight_does_not_overflow"
  by (simp_all add: full_credibility_when_bytes_meet_expectation_def partial_bytes_give_proportional_credibility_def
      no_bytes_gives_zero_credibility_def missing_or_zero_rate_fails_closed_def zero_weight_row_is_neutral_def
      zero_weight_row_with_no_epoch_evidence_is_zero_def dust_weight_row_with_no_evidence_is_not_neutral_def
      dust_weight_expectation_floors_to_one_byte_def credibility_is_per_user_and_work_def
      missing_epoch_factor_fails_closed_def large_weight_does_not_overflow_def row_tests)

lemma user_order:
  "''0xhalf'' > ''0xfull''" "''0xdust'' < ''0xfull''" "''0xdust'' < ''0xhalf''"
  by code_simp+

lemma epoch_factor_tests_pass:
  "epoch_factor_scales_below_the_floor" "epoch_factor_sums_across_works" "epoch_factor_clamps_at_neutral"
  "epoch_factor_discounts_a_satisfied_row"
proof -
  note run = epoch_factor_ppm_def user_bytes_def bt_update_def bt_get_or_def lower_users saturating_add_def quotients
  have "bt_insert (''0xdust'', test_work) 1 (bt_insert (''0xhalf'', test_work) 65536 (bt_insert (''0xfull'', test_work) 131072 []))
      = [((''0xdust'', test_work), 1), ((''0xfull'', test_work), 131072), ((''0xhalf'', test_work), 65536 :: u128)]"
    using user_order by (simp add: less_prod_def less_le)
  moreover have "bt_insert ''0xhalf'' 65536 [(''0xdust'', 1), (''0xfull'', 131072)]
      = [(''0xdust'', 1), (''0xfull'', 131072), (''0xhalf'', 65536 :: u128)]"
    "bt_insert ''0xfull'' 131072 [(''0xdust'', 1)] = [(''0xdust'', 1), (''0xfull'', 131072 :: u128)]"
    by code_simp+
  ultimately show "epoch_factor_scales_below_the_floor"
    by (simp add: epoch_factor_scales_below_the_floor_def Let_def run)
  have "test_id 0xBB \<noteq> test_work" by (simp add: test_work_def test_id_def hex.encode_inj filled_def)
  then show "epoch_factor_sums_across_works"
    by (simp add: epoch_factor_sums_across_works_def bytes_of_def run)
  show "epoch_factor_clamps_at_neutral" by (simp add: epoch_factor_clamps_at_neutral_def bytes_of_def run)
  have "epoch_factor_ppm (bytes_of ''0xu'' 8192) 131072 = [(''0xu'', 62500)]" by (simp add: bytes_of_def run)
  then show "epoch_factor_discounts_a_satisfied_row"
    by (simp add: epoch_factor_discounts_a_satisfied_row_def row_tests)
qed

text \<open>The settlement's own tests hold of the model. For every signer the tests draw, the unit tests of the
  payout tree, of settlement, of the receipt library and of the credibility of rows, with their data and
  each of their assertions, pass on the definitions that model the code: those of settlement and those
  that proofs verify for every hash, the two that hashes differ for the checksum, and those of receipts for
  the signatures of this theory.\<close>
theorem settlement_unit_tests_pass:
  "proofs_verify_for_various_sizes k \<and> single_leaf_tree k \<and> leaf_hash_distinguishes_inputs \<and> tampered_proof_fails
   \<and> settle_conserves_and_proofs_verify k \<and> settle_matches_dapr_allocation k \<and> settle_raw_conserves_and_proofs_verify k
   \<and> settle_raw_matches_settle_on_equivalent_input k \<and> all_neutral_row_credibility_matches_settle_raw k
   \<and> escrow_works_route_to_escrow k
   \<and> canonical_bytes_are_stable \<and> co_signed_receipt_verifies node consumer \<and> tampered_bytes_fail_verification node consumer
   \<and> (impostor = node \<or> wrong_node_signature_fails node impostor consumer)
   \<and> missing_consumer_signature_fails node consumer \<and> non_ascii_signature_fails_without_panic node consumer
   \<and> wrong_length_hex_signature_fails node consumer \<and> odd_length_signature_fails node consumer
   \<and> non_hex_characters_signature_fails node consumer \<and> dedup_key_is_content_position_not_node
   \<and> dedup_key_normalises_case \<and> offset_follows_chunk_index \<and> addresses_normalise_to_lowercase node consumer
   \<and> sums_verified_bytes_per_user_and_work node consumer \<and> drops_receipts_from_an_uncredentialed_node node consumer
   \<and> same_chunk_from_two_nodes_counts_once node impostor consumer \<and> refetching_one_chunk_credits_it_once node consumer
   \<and> distinct_chunks_accumulate node consumer \<and> oversized_chunk_claim_is_clamped_to_chunk_size node consumer
   \<and> drops_a_replayed_chunk node consumer \<and> drops_a_receipt_from_another_epoch node consumer
   \<and> drops_a_tampered_receipt node consumer
   \<and> full_credibility_when_bytes_meet_expectation \<and> partial_bytes_give_proportional_credibility
   \<and> no_bytes_gives_zero_credibility \<and> missing_or_zero_rate_fails_closed \<and> zero_weight_row_is_neutral
   \<and> zero_weight_row_with_no_epoch_evidence_is_zero \<and> dust_weight_row_with_no_evidence_is_not_neutral
   \<and> dust_weight_expectation_floors_to_one_byte \<and> credibility_is_per_user_and_work \<and> large_weight_does_not_overflow
   \<and> epoch_factor_scales_below_the_floor \<and> epoch_factor_sums_across_works \<and> epoch_factor_clamps_at_neutral
   \<and> epoch_factor_discounts_a_satisfied_row \<and> missing_epoch_factor_fails_closed"
  using receipt_library_tests_pass(4) [of impostor node consumer]
  by (simp only: merkle_tests_pass settle_tests_pass escrow_test_passes receipt_library_tests_pass(1-3,5-9)
      receipt_key_tests_pass accept_tests_pass tampered_receipt_dropped credibility_tests_pass epoch_factor_tests_pass) blast

end
