(* ===== verification/IndexTests.thy ===== *)
theory IndexTests
  imports Hub SettleTests
begin

text \<open>
  The unit tests of \<open>index.rs\<close>, \<open>chain.rs\<close>, \<open>manifest.rs\<close> and \<open>config.rs\<close> of the discovery hub, run
  on the model. A test that draws random signers is a predicate of them; a signer is a byte, and its
  signature carries it with the signed bytes. The nearest-fingerprint test hashes synthesized audio and
  is not run: the floating-point analysis is a parameter of the model.
\<close>

section \<open>The tests of the index\<close>

definition fp_str :: "u8 \<Rightarrow> string" where
  "fp_str b = ''fp:'' @ hex_string (replicate 128 b)"

definition zero_payee :: address where
  "zero_payee = replicate 20 0"

definition indexed_manifest :: "u8 \<Rightarrow> string \<Rightarrow> string \<Rightarrow> work_type \<Rightarrow> u64 \<Rightarrow> manifest" where
  "indexed_manifest wid fp title wt created =
     \<lparr>wm_work_id = Bytes32 (filled wid), wm_content_id = Bytes32 (filled wid), wm_fingerprint = fp,
      wm_title = title, wm_description = '''', wm_tags = [''music''], wm_work_type = wt,
      wm_price_per_min = 1000000, wm_bandwidth_rate = 960000, wm_region = Bytes32 (filled 0),
      wm_creator_id = zero_payee, wm_created_at = created, wm_payees = [(zero_payee, 1000000)]\<rparr>"

text \<open>A sequence of unwrapped updates of a new index.\<close>

definition upserted :: "manifest list \<Rightarrow> index_error + hub_index" where
  "upserted ms = res_fold (\<lambda>ix m. index_upsert decode_hex m ix) index_new ms"

definition resolve_hit_and_miss :: bool where
  "resolve_hit_and_miss =
     unwrapped (\<lambda>ix. map_option rs_work_id (index_resolve ix (fp_str 0xAA)) = Some (Bytes32 (filled 1))
         \<and> index_resolve ix (fp_str 0xFF) = None)
       (upserted [indexed_manifest 1 (fp_str 0xAA) ''Song'' Audio 10])"

definition duplicate_fingerprint_guard :: bool where
  "duplicate_fingerprint_guard =
     unwrapped (\<lambda>ix. map_option wm_title (index_manifest ix (Bytes32 (filled 1))) = Some ''Song v2''
         \<and> (\<exists>f. index_upsert decode_hex (indexed_manifest 2 (fp_str 0xAA) ''Stolen'' Audio 12) ix
              = Inl (DuplicateFingerprint f)))
       (upserted [indexed_manifest 1 (fp_str 0xAA) ''Song'' Audio 10,
                  indexed_manifest 1 (fp_str 0xAA) ''Song v2'' Audio 11])"

definition upsert_rejects_unparsable_fingerprint :: bool where
  "upsert_rejects_unparsable_fingerprint \<longleftrightarrow>
     (\<exists>e. index_upsert decode_hex (indexed_manifest 1 ''not-a-fingerprint'' ''Song'' Audio 10) index_new
        = Inl (BadFingerprint e))"

definition duplicate_content_id_guard :: bool where
  "duplicate_content_id_guard =
     unwrapped (\<lambda>ix. \<exists>c. index_upsert decode_hex
          (indexed_manifest 2 (fp_str 2) ''Stolen'' Audio 11 \<lparr>wm_content_id := Bytes32 (filled 0x42)\<rparr>) ix
            = Inl (DuplicateContentId c))
       (upserted [indexed_manifest 1 (fp_str 1) ''Song'' Audio 10 \<lparr>wm_content_id := Bytes32 (filled 0x42)\<rparr>])"

definition resolve_content_hit_and_miss :: bool where
  "resolve_content_hit_and_miss =
     unwrapped (\<lambda>ix. map_option rs_work_id (index_resolve_content ix (Bytes32 (filled 0x11))) = Some (Bytes32 (filled 1))
         \<and> index_resolve_content ix (Bytes32 (filled 0x99)) = None)
       (upserted [indexed_manifest 1 (fp_str 3) ''Song'' Audio 10 \<lparr>wm_content_id := Bytes32 (filled 0x11)\<rparr>])"

definition search_matches_and_filters :: bool where
  "search_matches_and_filters =
     unwrapped (\<lambda>ix. case index_search ix ''ocean'' None 1 20 of (results, count) \<Rightarrow>
           count = 1 \<and> su_work_id (results ! 0) = Bytes32 (filled 1)
           \<and> fst (index_search ix ''ocean'' (Some Video) 1 20) = [])
       (upserted [indexed_manifest 1 (fp_str 0xA1) ''Blue Ocean'' Audio 10,
                  indexed_manifest 2 (fp_str 0xB1) ''Red Desert'' Video 10])"

definition trending_orders_by_recency :: bool where
  "trending_orders_by_recency =
     unwrapped (\<lambda>ix. su_work_id (index_trending ix None 300 20 ! 0) = Bytes32 (filled 2))
       (upserted [indexed_manifest 1 (fp_str 0xA2) ''Old'' Audio 100, indexed_manifest 2 (fp_str 0xB2) ''New'' Audio 200])"

definition snapshot_round_trip ::
    "(hub_index \<Rightarrow> string + 'f) \<Rightarrow> ('f \<Rightarrow> string + hub_index) \<Rightarrow> bool" where
  "snapshot_round_trip to_json from_json =
     unwrapped (\<lambda>ix. case save_snapshot to_json (\<lambda>_. Written) ix NotFound of
         (saved, file_after) \<Rightarrow> unwrapped (\<lambda>_. unwrapped (\<lambda>loaded.
            map_option rs_work_id (index_resolve loaded (fp_str 0xA3)) = Some (Bytes32 (filled 1)))
          (load_snapshot from_json file_after)) saved)
       (upserted [indexed_manifest 1 (fp_str 0xA3) ''Song'' Audio 10])"

definition upsert_rekey_drops_stale_fingerprint :: bool where
  "upsert_rekey_drops_stale_fingerprint =
     unwrapped (\<lambda>ix. index_resolve ix (fp_str 0xAA) = None
         \<and> map_option rs_work_id (index_resolve ix (fp_str 0xBB)) = Some (Bytes32 (filled 1)))
       (upserted [indexed_manifest 1 (fp_str 0xAA) ''Song'' Audio 10, indexed_manifest 1 (fp_str 0xBB) ''Song'' Audio 11])"

definition load_snapshot_missing_file_is_empty :: "('f \<Rightarrow> string + hub_index) \<Rightarrow> bool" where
  "load_snapshot_missing_file_is_empty from_json =
     unwrapped (\<lambda>ix. index_is_empty ix \<and> index_len ix = 0) (load_snapshot from_json NotFound)"

definition search_pagination_second_page :: bool where
  "search_pagination_second_page =
     unwrapped (\<lambda>ix. case index_search ix ''ocean'' None 2 2 of (results, count) \<Rightarrow> count = 3 \<and> length results = 1)
       (upserted [indexed_manifest 1 (fp_str 0xA4) ''Ocean Song'' Audio 10,
                  indexed_manifest 2 (fp_str 0xB4) ''Ocean Waves'' Audio 11,
                  indexed_manifest 3 (fp_str 0xC4) ''Ocean Breeze'' Audio 12])"

definition search_ties_break_by_work_id_ascending :: bool where
  "search_ties_break_by_work_id_ascending =
     unwrapped (\<lambda>ix. let first = fst (index_search ix ''ocean'' None 1 20);
                         second = fst (index_search ix ''ocean'' None 1 20)
         in su_work_id (first ! 0) = Bytes32 (filled 1) \<and> su_work_id (first ! 1) = Bytes32 (filled 2)
            \<and> su_work_id (second ! 0) = su_work_id (first ! 0) \<and> su_work_id (second ! 1) = su_work_id (first ! 1))
       (upserted [indexed_manifest 2 (fp_str 0xB5) ''Ocean Song'' Audio 10,
                  indexed_manifest 1 (fp_str 0xA5) ''Ocean Song'' Audio 10])"

section \<open>Indexes of a few works\<close>

lemma fp_str_parses:
  "fp_parse decode_hex (fp_str b) = Inr (Fingerprint (replicate 32 (u32_from_be_bytes [b, b, b, b])))"
proof -
  have "strip_prefix PREFIX (fp_str b) = Some (hex_string (replicate 128 b))"
    unfolding PREFIX_def fp_str_def by (rule strip_prefix_append)
  moreover have "take 4 (drop (i * 4) (replicate 128 b)) = [b, b, b, b]" if "i < 32" for i
  proof -
    have "take 4 (drop (i * 4) (replicate 128 b)) = replicate 4 b" using that by simp
    then show ?thesis by (simp add: numeral_eq_Suc)
  qed
  then have "map (\<lambda>i. u32_from_be_bytes (take 4 (drop (i * 4) (replicate 128 b)))) [0..<32]
      = map (\<lambda>_. u32_from_be_bytes [b, b, b, b]) [0..<32]" by (intro map_cong) auto
  ultimately show ?thesis
    by (simp add: fp_parse_def HEX_LEN_def BYTE_LEN_def FRAMES_def hex.decode_encode map_replicate_const
        del: drop_replicate take_replicate)
qed

lemma fp_str_eq [simp]: "fp_str a = fp_str b \<longleftrightarrow> a = b"
  by (simp add: fp_str_def hex.encode_inj replicate_eq_replicate)

lemma filled_eq [simp]: "filled a = filled b \<longleftrightarrow> a = b"
  by (simp add: filled_def replicate_eq_replicate)

lemma replicate_less: "replicate (Suc n) a < replicate (Suc n) b \<longleftrightarrow> a < (b :: 'a :: linorder)"
  by (induction n) auto

lemma filled_less [simp]: "Bytes32 (filled a) < Bytes32 (filled b) \<longleftrightarrow> a < b"
  using replicate_less [of 31 a b] by (simp add: filled_def less_bytes32_def numeral_eq_Suc)

lemma filled_le [simp]: "Bytes32 (filled a) \<le> Bytes32 (filled b) \<longleftrightarrow> a \<le> b"
  by (simp flip: not_less)

lemma bind_find:
  assumes "\<And>v. r = Some v \<longleftrightarrow> (\<exists>x \<in> set xs. P x \<and> v = f x)"
  shows "r = map_option f (List.find P xs)"
proof (cases "List.find P xs")
  case None
  with assms show ?thesis by (cases r) (auto simp: find_None_iff)
next
  case (Some x)
  then have "x \<in> set xs" "P x" by (auto simp: find_Some_iff)
  then have "r = Some (f x)" using assms by blast
  with Some show ?thesis by simp
qed

text \<open>An index that meets its invariant answers as a search of its works.\<close>

lemma resolve_find:
  assumes "index_ok hex_decode ix"
  shows "index_resolve ix f = map_option (resolved_of \<circ> snd) (List.find (\<lambda>e. wm_fingerprint (snd e) = f) (ix_works ix))"
    and "index_resolve_content ix c
      = map_option (resolved_of \<circ> snd) (List.find (\<lambda>e. wm_content_id (snd e) = c) (ix_works ix))"
proof -
  have works: "(\<exists>x \<in> set (ix_works ix). P (snd x) \<and> v = (resolved_of \<circ> snd) x)
      \<longleftrightarrow> (\<exists>w m. bt_get (ix_works ix) w = Some m \<and> P m \<and> v = resolved_of m)" for P v
    using bt_entries_get [OF index_okD(1) [OF assms]] by (simp add: Bex_def)
  show "index_resolve ix f = map_option (resolved_of \<circ> snd) (List.find (\<lambda>e. wm_fingerprint (snd e) = f) (ix_works ix))"
    by (rule bind_find) (simp only: resolve_iff(1) [OF assms] works [of "\<lambda>m. wm_fingerprint m = f"])
  show "index_resolve_content ix c
      = map_option (resolved_of \<circ> snd) (List.find (\<lambda>e. wm_content_id (snd e) = c) (ix_works ix))"
    by (rule bind_find) (simp only: resolve_iff(2) [OF assms] works [of "\<lambda>m. wm_content_id m = c"])
qed

definition compatible :: "manifest \<Rightarrow> manifest \<Rightarrow> bool" where
  "compatible m m' \<longleftrightarrow> wm_work_id m = wm_work_id m'
     \<or> wm_fingerprint m \<noteq> wm_fingerprint m' \<and> wm_content_id m \<noteq> wm_content_id m'"

definition works_after :: "manifest list \<Rightarrow> (bytes32, manifest) btree_map" where
  "works_after ms = foldl (\<lambda>works m. bt_insert (wm_work_id m) m works) [] ms"

lemma works_after_simps [simp]:
  "works_after [] = []" "works_after (ms @ [m]) = bt_insert (wm_work_id m) m (works_after ms)"
  by (simp_all add: works_after_def)

lemma upsert_accepts:
  assumes "index_ok decode_hex ix" and "is_ok (fp_parse decode_hex (wm_fingerprint m))"
    and "\<And>w m'. bt_get (ix_works ix) w = Some m' \<Longrightarrow> compatible m' m"
  shows "\<exists>ix'. index_upsert decode_hex m ix = Inr ix' \<and> index_ok decode_hex ix'
     \<and> ix_works ix' = bt_insert (wm_work_id m) m (ix_works ix)"
proof -
  note d = index_okD [OF assms(1)]
  have "\<exists>ix'. index_upsert decode_hex m ix = Inr ix' \<and> ix_works ix' = bt_insert (wm_work_id m) m (ix_works ix)"
    using assms(2,3) d(4,6,7) by (fastforce simp: index_upsert_Inr compatible_def)
  then show ?thesis using upsert_preserves(1) [OF assms(1)] by blast
qed

lemma upserted_works:
  assumes "list_all (\<lambda>m. is_ok (fp_parse decode_hex (wm_fingerprint m))) ms" and "sorted_wrt compatible ms"
  shows "\<exists>ix. upserted ms = Inr ix \<and> index_ok decode_hex ix \<and> ix_works ix = works_after ms
     \<and> (\<forall>w m. bt_get (works_after ms) w = Some m \<longrightarrow> m \<in> set ms)"
  using assms
proof (induction ms rule: rev_induct)
  case Nil
  show ?case by (simp add: upserted_def index_new_ok, simp add: index_new_def)
next
  case (snoc m ms)
  then obtain ix where ix: "upserted ms = Inr ix" "index_ok decode_hex ix" "ix_works ix = works_after ms"
      "\<forall>w m. bt_get (works_after ms) w = Some m \<longrightarrow> m \<in> set ms"
    by (auto simp: sorted_wrt_append)
  from snoc.prems ix have "\<exists>ix'. index_upsert decode_hex m ix = Inr ix' \<and> index_ok decode_hex ix'
      \<and> ix_works ix' = bt_insert (wm_work_id m) m (ix_works ix)"
    by (intro upsert_accepts) (auto simp: sorted_wrt_append)
  then obtain ix' where "index_upsert decode_hex m ix = Inr ix'" "index_ok decode_hex ix'"
      "ix_works ix' = bt_insert (wm_work_id m) m (ix_works ix)" by blast
  with ix show ?case
    by (intro exI [of _ ix']) (auto simp: upserted_def res_fold_append bt_get_insert)
qed

text \<open>An unwrapped check of an index built by compatible updates is a check of every index with those works.\<close>

lemma unwrapped_upserted:
  assumes "list_all (\<lambda>m. is_ok (fp_parse decode_hex (wm_fingerprint m))) ms" and "sorted_wrt compatible ms"
    and "\<And>ix. index_ok decode_hex ix \<Longrightarrow> ix_works ix = works_after ms \<Longrightarrow> check ix"
  shows "unwrapped check (upserted ms)"
  using upserted_works [OF assms(1,2)] assms(3) by (auto simp: unwrapped_def)

lemma upsert_refuses:
  assumes "index_ok decode_hex ix" and "is_ok (fp_parse decode_hex (wm_fingerprint m))"
    and "bt_get (ix_works ix) w = Some m'" and "w \<noteq> wm_work_id m"
  shows "wm_fingerprint m' = wm_fingerprint m \<Longrightarrow>
      index_upsert decode_hex m ix = Inl (DuplicateFingerprint (wm_fingerprint m))"
    and "wm_content_id m' = wm_content_id m \<Longrightarrow>
      (\<And>w m'. bt_get (ix_works ix) w = Some m' \<Longrightarrow> wm_fingerprint m' \<noteq> wm_fingerprint m) \<Longrightarrow>
      index_upsert decode_hex m ix = Inl (DuplicateContentId (wm_content_id m))"
proof -
  note d = index_okD(6,7) [OF assms(1)]
  obtain fp where fp: "fp_parse decode_hex (wm_fingerprint m) = Inr fp" using assms(2) by (auto simp: is_ok_iff)
  show "index_upsert decode_hex m ix = Inl (DuplicateFingerprint (wm_fingerprint m))"
    if "wm_fingerprint m' = wm_fingerprint m"
  proof -
    have "bt_get (ix_by_fingerprint ix) (wm_fingerprint m) = Some w" using assms(3) that d(1) by blast
    then show ?thesis using assms(4) fp by (simp add: index_upsert_def)
  qed
  show "index_upsert decode_hex m ix = Inl (DuplicateContentId (wm_content_id m))"
    if "wm_content_id m' = wm_content_id m"
      "\<And>w m'. bt_get (ix_works ix) w = Some m' \<Longrightarrow> wm_fingerprint m' \<noteq> wm_fingerprint m"
  proof -
    have "bt_get (ix_by_content ix) (wm_content_id m) = Some w" using assms(3) that(1) d(2) by blast
    moreover have "bt_get (ix_by_fingerprint ix) (wm_fingerprint m) = None"
      using that(2) d(1) by (cases "bt_get (ix_by_fingerprint ix) (wm_fingerprint m)") auto
    ultimately show ?thesis using assms(4) fp by (simp add: index_upsert_def)
  qed
qed

section \<open>The index tests hold\<close>

lemma indexed_manifest_fields [simp]:
  "wm_work_id (indexed_manifest wid fp title wt created) = Bytes32 (filled wid)"
  "wm_content_id (indexed_manifest wid fp title wt created) = Bytes32 (filled wid)"
  "wm_fingerprint (indexed_manifest wid fp title wt created) = fp"
  "wm_title (indexed_manifest wid fp title wt created) = title"
  "wm_description (indexed_manifest wid fp title wt created) = ''''"
  "wm_tags (indexed_manifest wid fp title wt created) = [''music'']"
  "wm_work_type (indexed_manifest wid fp title wt created) = wt"
  "wm_created_at (indexed_manifest wid fp title wt created) = created"
  by (simp_all add: indexed_manifest_def)

lemmas index_test_simps = fp_str_parses compatible_def resolve_find works_after_def index_manifest_def resolved_of_def summary_of_def

lemma index_resolution_tests_pass:
  "resolve_hit_and_miss" "duplicate_fingerprint_guard" "upsert_rejects_unparsable_fingerprint"
  "duplicate_content_id_guard" "resolve_content_hit_and_miss" "upsert_rekey_drops_stale_fingerprint"
proof -
  show "resolve_hit_and_miss"
    unfolding resolve_hit_and_miss_def by (rule unwrapped_upserted) (simp_all add: index_test_simps)
  show "duplicate_fingerprint_guard"
    unfolding duplicate_fingerprint_guard_def
  proof (rule unwrapped_upserted)
    fix ix assume ix: "index_ok decode_hex ix"
      "ix_works ix = works_after [indexed_manifest 1 (fp_str 0xAA) ''Song'' Audio 10, indexed_manifest 1 (fp_str 0xAA) ''Song v2'' Audio 11]"
    then have w: "bt_get (ix_works ix) (Bytes32 (filled 1)) = Some (indexed_manifest 1 (fp_str 0xAA) ''Song v2'' Audio 11)"
      by (simp add: works_after_def)
    from upsert_refuses(1) [OF ix(1) _ w, of "indexed_manifest 2 (fp_str 0xAA) ''Stolen'' Audio 12"] w
    show "map_option wm_title (index_manifest ix (Bytes32 (filled 1))) = Some ''Song v2''
        \<and> (\<exists>f. index_upsert decode_hex (indexed_manifest 2 (fp_str 0xAA) ''Stolen'' Audio 12) ix = Inl (DuplicateFingerprint f))"
      by (simp add: index_test_simps)
  qed (simp_all add: index_test_simps)
  show "upsert_rejects_unparsable_fingerprint"
    by (simp add: upsert_rejects_unparsable_fingerprint_def index_upsert_def fp_parse_def PREFIX_def strip_prefix_def)
  show "duplicate_content_id_guard"
    unfolding duplicate_content_id_guard_def
  proof (rule unwrapped_upserted)
    fix ix assume ix: "index_ok decode_hex ix"
      "ix_works ix = works_after [indexed_manifest 1 (fp_str 1) ''Song'' Audio 10 \<lparr>wm_content_id := Bytes32 (filled 0x42)\<rparr>]"
    then have w: "bt_get (ix_works ix) (Bytes32 (filled 1))
        = Some (indexed_manifest 1 (fp_str 1) ''Song'' Audio 10 \<lparr>wm_content_id := Bytes32 (filled 0x42)\<rparr>)"
      by (simp add: works_after_def)
    have free: "wm_fingerprint m' \<noteq> fp_str 2" if "bt_get (ix_works ix) v = Some m'" for v m'
      using that ix(2) by (auto simp: works_after_def split: if_splits)
    show "\<exists>c. index_upsert decode_hex (indexed_manifest 2 (fp_str 2) ''Stolen'' Audio 11 \<lparr>wm_content_id := Bytes32 (filled 0x42)\<rparr>) ix
        = Inl (DuplicateContentId c)"
      by (rule exI, rule upsert_refuses(2) [OF ix(1) _ w]) (use free in \<open>simp_all add: fp_str_parses\<close>)
  qed (simp_all add: index_test_simps)
  show "resolve_content_hit_and_miss"
    unfolding resolve_content_hit_and_miss_def by (rule unwrapped_upserted) (simp_all add: index_test_simps)
  show "upsert_rekey_drops_stale_fingerprint"
    unfolding upsert_rekey_drops_stale_fingerprint_def by (rule unwrapped_upserted) (simp_all add: index_test_simps)
qed

lemma test_tokens:
  "tokenize ''ocean'' = [''ocean'']" "tokenize ''Blue Ocean'' = [''blue'', ''ocean'']" "tokenize ''Red Desert'' = [''red'', ''desert'']"
  "tokenize ''Ocean Song'' = [''ocean'', ''song'']" "tokenize ''Ocean Waves'' = [''ocean'', ''waves'']"
  "tokenize ''Ocean Breeze'' = [''ocean'', ''breeze'']" "tokenize ''music'' = [''music'']" "tokenize '''' = []"
  by code_simp+

lemmas index_search_simps = index_test_simps index_search_def scored_works_def relevance_def test_tokens of_type_def
  rank_before_def saturating_sub_def

lemma index_search_tests_pass:
  "search_matches_and_filters" "trending_orders_by_recency" "search_pagination_second_page"
  "search_ties_break_by_work_id_ascending"
proof -
  show "search_matches_and_filters"
    unfolding search_matches_and_filters_def by (rule unwrapped_upserted) (simp_all add: index_search_simps)
  show "trending_orders_by_recency"
    unfolding trending_orders_by_recency_def
    by (rule unwrapped_upserted) (simp_all add: index_test_simps index_trending_def of_type_def newer_first_def)
  show "search_pagination_second_page"
    unfolding search_pagination_second_page_def by (rule unwrapped_upserted) (simp_all add: index_search_simps)
  show "search_ties_break_by_work_id_ascending"
    unfolding search_ties_break_by_work_id_ascending_def by (rule unwrapped_upserted) (simp_all add: index_search_simps)
qed

lemma snapshot_tests_pass:
  "load_snapshot_missing_file_is_empty from_json"
  "\<lbrakk>\<And>ix. is_ok (to_json ix); \<And>ix raw. to_json ix = Inr raw \<Longrightarrow> from_json raw = Inr ix\<rbrakk> \<Longrightarrow> snapshot_round_trip to_json from_json"
proof -
  show "load_snapshot_missing_file_is_empty from_json"
    by (simp add: load_snapshot_missing_file_is_empty_def unwrapped_def load_snapshot_def index_new_def index_is_empty_def index_len_def)
  assume codec: "\<And>ix. is_ok (to_json ix)" "\<And>ix raw. to_json ix = Inr raw \<Longrightarrow> from_json raw = Inr ix"
  show "snapshot_round_trip to_json from_json"
    unfolding snapshot_round_trip_def
  proof (rule unwrapped_upserted)
    fix ix assume ix: "index_ok decode_hex ix" "ix_works ix = works_after [indexed_manifest 1 (fp_str 0xA3) ''Song'' Audio 10]"
    obtain raw where "to_json ix = Inr raw" using codec(1) [of ix] by (auto simp: is_ok_iff)
    moreover from this have "from_json raw = Inr ix" by (rule codec(2))
    ultimately show "case save_snapshot to_json (\<lambda>_. Written) ix NotFound of
         (saved, file_after) \<Rightarrow> unwrapped (\<lambda>_. unwrapped (\<lambda>loaded.
            map_option rs_work_id (index_resolve loaded (fp_str 0xA3)) = Some (Bytes32 (filled 1)))
          (load_snapshot from_json file_after)) saved"
      using ix by (simp add: unwrapped_def save_snapshot_def load_snapshot_def index_test_simps)
  qed (simp_all add: index_test_simps)
qed
section \<open>The tests of manifests, validation and configuration\<close>

text \<open>A signature of one byte for the signer and 64 for the message. Another message recovers another address.\<close>

definition hub_address :: "u8 \<Rightarrow> address" where
  "hub_address n = replicate 20 n"

definition manifest_message :: "manifest \<Rightarrow> u8 list" where
  "manifest_message m = u64_to_be_bytes (wm_price_per_min m) @ replicate 56 0"

definition hub_test_env :: "u8 list manifest_env" where
  "hub_test_env = \<lparr>mf_canonical_json = (\<lambda>m. Inr (manifest_message m)),
     mf_parse_signature = (\<lambda>bs. if length bs = 65 then Some bs else None),
     mf_recover_from_msg = (\<lambda>sig msg. Inr (hub_address (if tl sig = msg then hd sig else hd sig + 1)))\<rparr>"

definition sign_hub :: "u8 \<Rightarrow> u8 list \<Rightarrow> u8 list" where
  "sign_hub signer msg = signer # msg"

definition sample_manifest :: manifest where
  "sample_manifest =
     \<lparr>wm_work_id = Bytes32 (filled 0xAA), wm_content_id = Bytes32 (filled 0xBB), wm_fingerprint = fp_str 0x11,
      wm_title = ''Test Track'', wm_description = ''a demo'', wm_tags = [''demo'', ''audio''], wm_work_type = Audio,
      wm_price_per_min = 1000000, wm_bandwidth_rate = 960000, wm_region = Bytes32 (filled 0),
      wm_creator_id = zero_payee, wm_created_at = 1721500000, wm_payees = [(zero_payee, 1000000)]\<rparr>"

definition manifest_bytes_are_stable :: bool where
  "manifest_bytes_are_stable =
     unwrapped (\<lambda>a. unwrapped (\<lambda>b. a = b) (manifest_canonical_bytes hub_test_env sample_manifest))
       (manifest_canonical_bytes hub_test_env sample_manifest)"

definition consent_digest_and_recover :: "(u8 list \<Rightarrow> u8 list) \<Rightarrow> u8 \<Rightarrow> bool" where
  "consent_digest_and_recover keccak256 signer =
     (let d = consent_digest keccak256 (Bytes32 (filled 1)) (Bytes32 (filled 2)) (hub_address signer) 700000
      in unwrapped (\<lambda>a. a = hub_address signer) (mf_recover_from_msg hub_test_env (sign_hub signer d) d))"

definition recover_matches_signer_and_rejects_tampering :: "u8 \<Rightarrow> bool" where
  "recover_matches_signer_and_rejects_tampering signer =
     unwrapped (\<lambda>msg.
         unwrapped (\<lambda>a. a = hub_address signer) (manifest_recover_signer hub_test_env sample_manifest (sign_hub signer msg))
         \<and> unwrapped (\<lambda>a. a \<noteq> hub_address signer)
             (manifest_recover_signer hub_test_env (sample_manifest\<lparr>wm_price_per_min := 999\<rparr>) (sign_hub signer msg)))
       (manifest_canonical_bytes hub_test_env sample_manifest)"

definition chain_manifest :: "address \<Rightarrow> manifest" where
  "chain_manifest creator =
     \<lparr>wm_work_id = Bytes32 (filled 1), wm_content_id = Bytes32 (filled 2), wm_fingerprint = ''fp:aa'',
      wm_title = ''Song'', wm_description = '''', wm_tags = [], wm_work_type = Audio,
      wm_price_per_min = 1000000, wm_bandwidth_rate = 960000, wm_region = Bytes32 (filled 7),
      wm_creator_id = creator, wm_created_at = 1, wm_payees = [(creator, 1000000)]\<rparr>"

definition fake_registry :: "on_chain_work option \<Rightarrow> registry_view" where
  "fake_registry oc = (\<lambda>_. Inr oc)"

definition chain_facts :: "address \<Rightarrow> on_chain_work" where
  "chain_facts a = \<lparr>oc_registrant = a, oc_price_per_min = 1000000, oc_bandwidth_rate = 960000, oc_region = Bytes32 (filled 7)\<rparr>"

definition validated :: "u8 \<Rightarrow> manifest \<Rightarrow> on_chain_work option \<Rightarrow> ingest_error + unit" where
  "validated signer m oc = validate_ingest hub_test_env (fake_registry oc) m (sign_hub signer (manifest_message m))"

definition valid_manifest_passes :: "u8 \<Rightarrow> bool" where
  "valid_manifest_passes signer =
     is_ok (validated signer (chain_manifest (hub_address signer)) (Some (chain_facts (hub_address signer))))"

definition wrong_signer_is_rejected :: "u8 \<Rightarrow> u8 \<Rightarrow> bool" where
  "wrong_signer_is_rejected signer other \<longleftrightarrow>
     validated signer (chain_manifest (hub_address signer)) (Some (chain_facts (hub_address other))) = Inl ingest_error.SignerMismatch"

definition price_mismatch_is_rejected :: "u8 \<Rightarrow> bool" where
  "price_mismatch_is_rejected signer \<longleftrightarrow>
     validated signer (chain_manifest (hub_address signer))
       (Some (chain_facts (hub_address signer) \<lparr>oc_price_per_min := 2000000\<rparr>)) = Inl PriceMismatch"

definition bandwidth_rate_mismatch_is_rejected :: "u8 \<Rightarrow> bool" where
  "bandwidth_rate_mismatch_is_rejected signer \<longleftrightarrow>
     validated signer (chain_manifest (hub_address signer))
       (Some (chain_facts (hub_address signer) \<lparr>oc_bandwidth_rate := 2000000\<rparr>)) = Inl BandwidthRateMismatch"

definition unregistered_work_is_rejected :: "u8 \<Rightarrow> bool" where
  "unregistered_work_is_rejected signer \<longleftrightarrow>
     validated signer (chain_manifest (hub_address signer)) None = Inl Unregistered"

definition creator_mismatch_is_rejected :: "u8 \<Rightarrow> u8 \<Rightarrow> bool" where
  "creator_mismatch_is_rejected signer other \<longleftrightarrow>
     validated signer (chain_manifest (hub_address signer) \<lparr>wm_creator_id := hub_address other\<rparr>)
       (Some (chain_facts (hub_address signer))) = Inl CreatorMismatch"

definition region_mismatch_is_rejected :: "u8 \<Rightarrow> bool" where
  "region_mismatch_is_rejected signer \<longleftrightarrow>
     validated signer (chain_manifest (hub_address signer))
       (Some (chain_facts (hub_address signer) \<lparr>oc_region := Bytes32 (filled 9)\<rparr>)) = Inl RegionMismatch"

text \<open>An address is 20 bytes in hexadecimal, with or without its prefix.\<close>

definition parse_test_address :: "string \<Rightarrow> address option" where
  "parse_test_address s =
     (case decode_hex (case strip_prefix ''0x'' s of None \<Rightarrow> s | Some r \<Rightarrow> r) of
        Some bytes \<Rightarrow> if length bytes = 20 then Some bytes else None | None \<Rightarrow> None)"

definition missing_registry_is_an_error :: bool where
  "missing_registry_is_an_error \<longleftrightarrow> hub_config_from_env (map_of []) parse_test_address = Inl MissingRegistry"

definition defaults_apply_when_unset :: bool where
  "defaults_apply_when_unset =
     unwrapped (\<lambda>cfg. hc_bind cfg = ''127.0.0.1:8080'' \<and> hc_rpc_url cfg = ''http://127.0.0.1:8545'' \<and> hc_snapshot cfg = ''hub-index.json'')
       (hub_config_from_env (map_of [(''REGISTRY'', ''0x0000000000000000000000000000000000000001'')]) parse_test_address)"

definition bad_registry_is_an_error :: bool where
  "bad_registry_is_an_error \<longleftrightarrow>
     (\<exists>raw. hub_config_from_env (map_of [(''REGISTRY'', ''not-an-address'')]) parse_test_address = Inl (BadRegistry raw))"

lemma hub_address_eq [simp]: "hub_address a = hub_address b \<longleftrightarrow> a = b"
  by (simp add: hub_address_def replicate_eq_replicate)

lemma length_be_bytes [simp]: "length (u64_to_be_bytes v) = 8"
  by (simp add: u64_to_be_bytes_def)

lemma length_manifest_message [simp]: "length (manifest_message m) = 64"
  by (simp add: manifest_message_def)

lemma test_recover:
  "manifest_recover_signer hub_test_env m (sign_hub signer msg) =
     (if length msg = 64 then Inr (hub_address (if msg = manifest_message m then signer else signer + 1)) else Inl manifest_error.BadSignature)"
  by (simp add: manifest_recover_signer_def manifest_canonical_bytes_def hub_test_env_def sign_hub_def)

lemma test_canonical: "manifest_canonical_bytes hub_test_env m = Inr (manifest_message m)"
  by (simp add: manifest_canonical_bytes_def hub_test_env_def)

lemma tampered_manifest: "manifest_message sample_manifest \<noteq> manifest_message (sample_manifest\<lparr>wm_price_per_min := 999\<rparr>)"
proof -
  have last: "u64_to_be_bytes v ! 7 = of_nat (unat v mod 256)" for v
    by (simp add: u64_to_be_bytes_def)
  have "(of_nat 64 :: u8) \<noteq> of_nat 231" by simp
  then have "u64_to_be_bytes 1000000 \<noteq> u64_to_be_bytes 999"
    using last [of 1000000] last [of 999] by auto
  then show ?thesis by (simp add: manifest_message_def sample_manifest_def)
qed

lemma manifest_tests_pass:
  "manifest_bytes_are_stable" "consent_digest_and_recover keccak256 signer" "recover_matches_signer_and_rejects_tampering signer"
proof -
  show "manifest_bytes_are_stable"
    by (simp add: manifest_bytes_are_stable_def unwrapped_def manifest_canonical_bytes_def hub_test_env_def)
  show "consent_digest_and_recover keccak256 signer"
    by (simp add: consent_digest_and_recover_def Let_def unwrapped_def hub_test_env_def sign_hub_def)
  have "signer + 1 \<noteq> signer" by simp
  with tampered_manifest show "recover_matches_signer_and_rejects_tampering signer"
    by (simp only: recover_matches_signer_and_rejects_tampering_def test_recover test_canonical unwrapped_def sum.case
        length_manifest_message hub_address_eq simp_thms if_True if_False)
qed

lemma validation_tests_pass:
  "valid_manifest_passes signer" "price_mismatch_is_rejected signer" "bandwidth_rate_mismatch_is_rejected signer"
  "unregistered_work_is_rejected signer" "region_mismatch_is_rejected signer"
  "other \<noteq> signer \<Longrightarrow> wrong_signer_is_rejected signer other" "other \<noteq> signer \<Longrightarrow> creator_mismatch_is_rejected signer other"
proof -
  note run = validated_def validate_ingest_def test_recover fake_registry_def chain_facts_def chain_manifest_def
  show "valid_manifest_passes signer" by (simp add: valid_manifest_passes_def run)
  show "price_mismatch_is_rejected signer" by (simp add: price_mismatch_is_rejected_def run)
  show "bandwidth_rate_mismatch_is_rejected signer" by (simp add: bandwidth_rate_mismatch_is_rejected_def run)
  show "unregistered_work_is_rejected signer" by (simp add: unregistered_work_is_rejected_def run)
  show "region_mismatch_is_rejected signer" by (simp add: region_mismatch_is_rejected_def run)
  show "other \<noteq> signer \<Longrightarrow> wrong_signer_is_rejected signer other" by (simp add: wrong_signer_is_rejected_def run)
  show "other \<noteq> signer \<Longrightarrow> creator_mismatch_is_rejected signer other" by (simp add: creator_mismatch_is_rejected_def run)
qed

lemma hub_config_tests_pass: "missing_registry_is_an_error" "defaults_apply_when_unset" "bad_registry_is_an_error"
proof -
  show "missing_registry_is_an_error" by (simp add: missing_registry_is_an_error_def hub_config_from_env_def)
  have "parse_test_address ''0x0000000000000000000000000000000000000001'' \<noteq> None" by code_simp
  then show "defaults_apply_when_unset"
    by (auto simp: defaults_apply_when_unset_def unwrapped_def hub_config_from_env_def or_default_def)
  have "parse_test_address ''not-an-address'' = None" by code_simp
  then show "bad_registry_is_an_error" by (simp add: bad_registry_is_an_error_def hub_config_from_env_def)
qed

end
