(* ===== verification/HubTests.thy ===== *)
theory HubTests
  imports HubApi IndexTests
begin

text \<open>
  The route tests of \<open>api.rs\<close> of the discovery hub, run on the model: requests posted to a fresh hub
  over a fake registry, and the status and body of what it answers. The clock is a parameter of a test;
  the document \<open>utoipa\<close> derives is replaced by one that has the schema a test looks up.
\<close>

section \<open>Requests\<close>

definition api_env :: "(u8 list, hub_index) hub_env" where
  "api_env = \<lparr>he_manifest_env = hub_test_env, he_hex_encode = hex_string, he_hex_decode = decode_hex,
     he_to_json = Inr, he_from_json = Inr\<rparr>"

definition test_state :: "hub_index hub_state" where
  "test_state = \<lparr>hb_index = index_new, hb_snapshot = NotFound\<rparr>"

definition fake_reg :: "address \<Rightarrow> registry_view" where
  "fake_reg a = (\<lambda>_. Inr (Some \<lparr>oc_registrant = a, oc_price_per_min = 1000000, oc_bandwidth_rate = 960000,
     oc_region = Bytes32 (filled 0)\<rparr>))"

definition api_manifest :: "u8 \<Rightarrow> string \<Rightarrow> string \<Rightarrow> address \<Rightarrow> manifest" where
  "api_manifest w fp title creator =
     \<lparr>wm_work_id = Bytes32 (filled w), wm_content_id = Bytes32 (filled w), wm_fingerprint = fp, wm_title = title,
      wm_description = '''', wm_tags = [], wm_work_type = Audio, wm_price_per_min = 1000000,
      wm_bandwidth_rate = 960000, wm_region = Bytes32 (filled 0), wm_creator_id = creator, wm_created_at = 1,
      wm_payees = [(creator, 1000000)]\<rparr>"

text \<open>The signature of a post, and a request to the hub of a registrant.\<close>

definition ingest_body :: "manifest \<Rightarrow> u8 \<Rightarrow> hub_request" where
  "ingest_body m signer = PostManifest m (''0x'' @ hex_string (sign_hub signer (manifest_message m)))"

definition requested :: "u8 \<Rightarrow> u64 \<Rightarrow> hub_request \<Rightarrow> hub_index hub_state \<Rightarrow> hub_index hub_state \<times> nat" where
  "requested registrant now = hub_dispatch api_env (fake_reg (hub_address registrant)) (\<lambda>_. Written) parse_test_address now"

definition answered :: "u8 \<Rightarrow> u64 \<Rightarrow> hub_index hub_state \<Rightarrow> hub_request \<Rightarrow> nat" where
  "answered registrant now st req = snd (requested registrant now req st)"

text \<open>A post of a manifest to a fresh hub that answers created, and what holds of the hub then.\<close>

definition after_created :: "u8 \<Rightarrow> u64 \<Rightarrow> manifest \<Rightarrow> (hub_index hub_state \<Rightarrow> bool) \<Rightarrow> bool" where
  "after_created signer now m check =
     (case requested signer now (ingest_body m signer) test_state of (st, status) \<Rightarrow> status = 201 \<and> check st)"

definition id_text :: "u8 \<Rightarrow> string" where
  "id_text b = bytes32_to_string hex_string (Bytes32 (filled b))"

definition body_holds :: "('a \<Rightarrow> bool) \<Rightarrow> 'a response \<Rightarrow> bool" where
  "body_holds check r = (case r of Reply status body \<Rightarrow> status = 200 \<and> check body | Fail _ _ \<Rightarrow> False)"

section \<open>The tests\<close>

definition ingest_then_resolve :: "u8 \<Rightarrow> u64 \<Rightarrow> bool" where
  "ingest_then_resolve signer now =
     after_created signer now (api_manifest 1 (fp_str 0xAA) ''Song'' (hub_address signer)) (\<lambda>st.
       answered signer now st (GetContent (id_text 1)) = 200
       \<and> answered signer now st (GetFingerprint (fp_str 0xAA) None) = 200)"

definition ingest_clamps_future_created_at :: "u8 \<Rightarrow> u64 \<Rightarrow> bool" where
  "ingest_clamps_future_created_at signer now =
     after_created signer now (api_manifest 9 (fp_str 0xC1) ''Future'' (hub_address signer) \<lparr>wm_created_at := - 1\<rparr>) (\<lambda>st.
       body_holds (\<lambda>stored. wm_created_at stored \<le> now \<and> wm_created_at stored \<noteq> - 1)
         (manifest_handler api_env (hb_index st) (id_text 9)))"

definition resolve_missing_is_not_found :: "u8 \<Rightarrow> u64 \<Rightarrow> bool" where
  "resolve_missing_is_not_found signer now \<longleftrightarrow>
     answered signer now test_state (GetContent (id_text 0xFF)) = 404
     \<and> answered signer now test_state (GetContent ''not-an-id'') = 400
     \<and> answered signer now test_state (GetFingerprint (fp_str 0xEE) None) = 404
     \<and> answered signer now test_state (GetFingerprint ''not-a-fingerprint'' None) = 400"

definition ingest_rejects_wrong_signer :: "u8 \<Rightarrow> u8 \<Rightarrow> u64 \<Rightarrow> bool" where
  "ingest_rejects_wrong_signer signer registrant now \<longleftrightarrow>
     answered registrant now test_state
       (ingest_body (api_manifest 2 (fp_str 0xBB) ''Song'' (hub_address registrant)) signer) = 400"

definition healthz_reports_ok :: "u8 \<Rightarrow> u64 \<Rightarrow> bool" where
  "healthz_reports_ok signer now \<longleftrightarrow> answered signer now test_state GetHealthz = 200"

fun is_object :: "json_value option \<Rightarrow> bool" where
  "is_object (Some (JObj _)) = True"
| "is_object _ = False"

definition derived_document :: json_value where
  "derived_document = JObj [(''openapi'', JStr ''3.1.0''), (''info'', JObj [(''title'', JStr ''''), (''version'', JStr '''')]),
     (''paths'', JObj []), (''components'', JObj [(''schemas'', JObj [(''WorkManifest'', JObj [(''type'', JStr ''object'')])])])]"

definition json_path :: "json_value \<Rightarrow> string list \<Rightarrow> json_value option" where
  "json_path doc keys = foldl (\<lambda>v k. Option.bind v (\<lambda>v. json_get v k)) (Some doc) keys"

definition openapi_document_is_served :: "u8 \<Rightarrow> u64 \<Rightarrow> bool" where
  "openapi_document_is_served signer now \<longleftrightarrow>
     answered signer now test_state GetOpenapi = 200
     \<and> (case openapi_json derived_document ''0.1.0'' of
          None \<Rightarrow> False
        | Some doc \<Rightarrow> is_object (json_path doc [''paths'', ''/manifests''])
            \<and> is_object (json_path doc [''components'', ''schemas'', ''WorkManifest'']))"

definition search_finds_ingested_work :: "u8 \<Rightarrow> u64 \<Rightarrow> bool" where
  "search_finds_ingested_work signer now =
     after_created signer now (api_manifest 3 (fp_str 0xD1) ''Nightjar Melodies'' (hub_address signer)) (\<lambda>st.
       body_holds (\<lambda>(results, page, count). count = 1 \<and> su_work_id (results ! 0) = Bytes32 (filled 3))
         (search_handler (hb_index st) (Some ''nightjar'') None None))"

definition trending_lists_ingested_work :: "u8 \<Rightarrow> u64 \<Rightarrow> bool" where
  "trending_lists_ingested_work signer now =
     after_created signer now (api_manifest 4 (fp_str 0xD2) ''Trending Tune'' (hub_address signer)) (\<lambda>st.
       body_holds (\<lambda>results. su_work_id (results ! 0) = Bytes32 (filled 4)) (trending_handler (hb_index st) now None))"

definition manifest_success_and_not_found :: "u8 \<Rightarrow> u64 \<Rightarrow> bool" where
  "manifest_success_and_not_found signer now =
     after_created signer now (api_manifest 5 (fp_str 0xD3) ''Manifest Work'' (hub_address signer)) (\<lambda>st.
       body_holds (\<lambda>m. wm_title m = ''Manifest Work'') (manifest_handler api_env (hb_index st) (id_text 5))
       \<and> answered signer now st (GetManifest (id_text 0xAB)) = 404)"

definition creator_success_and_bad_address :: "u8 \<Rightarrow> u64 \<Rightarrow> bool" where
  "creator_success_and_bad_address signer now =
     after_created signer now (api_manifest 6 (fp_str 0xD4) ''Creator Work'' (hub_address signer)) (\<lambda>st.
       body_holds (\<lambda>(creator, works, count). count = 1)
         (creator_handler parse_test_address (hb_index st) (''0x'' @ hex_string (hub_address signer)))
       \<and> answered signer now st (GetCreator ''not-an-address'') = 400)"

definition ingest_duplicate_fingerprint_is_conflict :: "u8 \<Rightarrow> u64 \<Rightarrow> bool" where
  "ingest_duplicate_fingerprint_is_conflict signer now =
     after_created signer now (api_manifest 7 (fp_str 0xD5) ''First Work'' (hub_address signer)) (\<lambda>st.
       answered signer now st (ingest_body (api_manifest 8 (fp_str 0xD5) ''Second Work'' (hub_address signer)) signer) = 409)"

definition ingest_rejects_bad_fingerprint :: "u8 \<Rightarrow> u64 \<Rightarrow> bool" where
  "ingest_rejects_bad_fingerprint signer now \<longleftrightarrow>
     answered signer now test_state
       (ingest_body (api_manifest 10 ''not-a-fingerprint'' ''Bad FP Work'' (hub_address signer)) signer) = 400"

section \<open>Posting to a hub\<close>

lemma api_manifest_fields [simp]:
  "wm_work_id (api_manifest w fp title creator) = Bytes32 (filled w)"
  "wm_content_id (api_manifest w fp title creator) = Bytes32 (filled w)"
  "wm_fingerprint (api_manifest w fp title creator) = fp"
  "wm_title (api_manifest w fp title creator) = title"
  "wm_description (api_manifest w fp title creator) = ''''"
  "wm_tags (api_manifest w fp title creator) = []"
  "wm_work_type (api_manifest w fp title creator) = Audio"
  "wm_creator_id (api_manifest w fp title creator) = creator"
  by (simp_all add: api_manifest_def)

lemma test_signature: "decode_hex (trim_start_0x (''0x'' @ hex_string bs)) = Some bs"
proof -
  have "trim_start_0x (hex_string bs) = hex_string bs"
    by (simp add: trim_start_0x.simps hex.encode_no_prefix)
  moreover have "trim_start_0x (''0x'' @ hex_string bs) = trim_start_0x (hex_string bs)"
    by (subst trim_start_0x.simps) (simp only: strip_prefix_append option.case)
  ultimately show ?thesis by (simp only: hex.decode_encode)
qed

lemma posted_validates:
  assumes "wm_creator_id m = hub_address registrant" "wm_price_per_min m = 1000000" "wm_bandwidth_rate m = 960000"
    "wm_region m = Bytes32 (filled 0)"
  shows "validate_ingest hub_test_env (fake_reg (hub_address registrant)) m (sign_hub signer (manifest_message m))
     = (if signer = registrant then Inr () else Inl ingest_error.SignerMismatch)"
  using assms by (simp add: validate_ingest_def test_recover fake_reg_def)

lemma posted:
  assumes "wm_creator_id m = hub_address registrant" "wm_price_per_min m = 1000000" "wm_bandwidth_rate m = 960000"
    "wm_region m = Bytes32 (filled 0)"
  shows "requested registrant now (ingest_body m signer) st =
     (if signer \<noteq> registrant then (st, 400)
      else case index_upsert decode_hex (m\<lparr>wm_created_at := min (wm_created_at m) now\<rparr>) (hb_index st) of
             Inl e \<Rightarrow> (st, case e of BadFingerprint _ \<Rightarrow> 400 | _ \<Rightarrow> 409)
           | Inr ix \<Rightarrow> (\<lparr>hb_index = ix, hb_snapshot = Content ix\<rparr>, 201))"
proof -
  have "hub_ingest api_env (fake_reg (hub_address registrant)) (\<lambda>_. Written) now m
      (''0x'' @ hex_string (sign_hub signer (manifest_message m))) st =
     (if signer \<noteq> registrant then (st, Fail 400 (ingest_error_text ingest_error.SignerMismatch))
      else case index_upsert decode_hex (m\<lparr>wm_created_at := min (wm_created_at m) now\<rparr>) (hb_index st) of
             Inl e \<Rightarrow> (st, Fail (case e of BadFingerprint _ \<Rightarrow> 400 | _ \<Rightarrow> 409) (index_error_text hex_string e))
           | Inr ix \<Rightarrow> (st\<lparr>hb_index := ix, hb_snapshot := Content ix\<rparr>, Reply 201 (wm_work_id m)))"
    unfolding hub_ingest_def api_env_def hub_env.simps test_signature option.case posted_validates [OF assms]
    by (auto simp: Let_def save_snapshot_def split: sum.split)
  then show ?thesis
    unfolding requested_def ingest_body_def hub_dispatch_def hub_request.case
    by (auto split: sum.split)
qed

text \<open>A first post by the registrant is created, and the hub then indexes exactly the posted work, its
  time clamped.\<close>

lemma after_createdI:
  assumes "wm_creator_id m = hub_address signer" "wm_price_per_min m = 1000000" "wm_bandwidth_rate m = 960000"
    "wm_region m = Bytes32 (filled 0)" "is_ok (fp_parse decode_hex (wm_fingerprint m))"
    and check: "\<And>st. index_ok decode_hex (hb_index st) \<Longrightarrow>
      ix_works (hb_index st) = [(wm_work_id m, m\<lparr>wm_created_at := min (wm_created_at m) now\<rparr>)] \<Longrightarrow> check st"
  shows "after_created signer now m check"
proof -
  let ?m = "m\<lparr>wm_created_at := min (wm_created_at m) now\<rparr>"
  have "\<exists>ix. index_upsert decode_hex ?m index_new = Inr ix \<and> index_ok decode_hex ix
      \<and> ix_works ix = bt_insert (wm_work_id ?m) ?m (ix_works index_new)"
    using assms(5) by (intro upsert_accepts) (simp_all add: index_new_ok, simp add: index_new_def)
  then obtain ix where ix: "index_upsert decode_hex ?m index_new = Inr ix" "index_ok decode_hex ix"
      "ix_works ix = [(wm_work_id m, ?m)]" by (auto simp: index_new_def)
  then show ?thesis
    using check [of "\<lparr>hb_index = ix, hb_snapshot = Content ix\<rparr>"]
    by (simp add: after_created_def posted [OF assms(1-4)] test_state_def)
qed

lemma answered_simps:
  "answered signer now st (GetContent text) = status_of (resolve_content_handler api_env (hb_index st) text)"
  "answered signer now st (GetFingerprint text threshold) = status_of (resolve_fingerprint_handler api_env (hb_index st) text threshold)"
  "answered signer now st (GetManifest text) = status_of (manifest_handler api_env (hb_index st) text)"
  "answered signer now st (GetCreator text) = status_of (creator_handler parse_test_address (hb_index st) text)"
  "answered signer now st GetHealthz = 200" "answered signer now st GetOpenapi = 200"
  by (simp_all add: answered_def requested_def hub_dispatch_def healthz_def)

lemma id_parses: "bytes32_from_str decode_hex (id_text b) = Inr (Bytes32 (filled b))"
  unfolding id_text_def by (rule hex.from_str_to_string) (simp add: b32_ok_def filled_def)

lemma api_env_simps [simp]: "he_hex_decode api_env = decode_hex"
  by (simp add: api_env_def)

lemma fp_self_similar: "compare_fp f f = 1"
proof -
  have "foldl (\<lambda>diff i. diff + count_ones (0 :: u32)) d is = d" for d and "is" :: "nat list"
    by (induction "is") (simp_all add: count_ones_def)
  then show ?thesis by (simp add: compare_fp_def differing_def)
qed

lemma unparsable_texts:
  "bytes32_from_str decode_hex ''not-an-id'' = Inl bytes32_error.NotHex" "parse_test_address ''not-an-address'' = None"
  "fp_parse decode_hex ''not-a-fingerprint'' = Inl MissingPrefix"
proof -
  show "bytes32_from_str decode_hex ''not-an-id'' = Inl bytes32_error.NotHex" by code_simp
  show "parse_test_address ''not-an-address'' = None" by code_simp
  show "fp_parse decode_hex ''not-a-fingerprint'' = Inl MissingPrefix"
    by (simp add: fp_parse_def PREFIX_def strip_prefix_def)
qed

lemma api_tokens:
  "tokenize ''nightjar'' = [''nightjar'']" "tokenize ''Nightjar Melodies'' = [''nightjar'', ''melodies'']"
  by code_simp+

section \<open>The tests hold\<close>

lemma resolution_tests_pass: "ingest_then_resolve signer now" "resolve_missing_is_not_found signer now"
proof -
  show "ingest_then_resolve signer now"
    unfolding ingest_then_resolve_def
    by (rule after_createdI)
      (simp_all add: api_manifest_def fp_str_parses answered_simps resolve_content_handler_def id_parses resolve_find
        resolve_fingerprint_handler_def nearest_fingerprint_def fp_self_similar or_default_def FP_MATCH_THRESHOLD_def max_by_last_def)
  show "resolve_missing_is_not_found signer now"
    by (simp add: resolve_missing_is_not_found_def answered_simps resolve_content_handler_def id_parses test_state_def
        resolve_fingerprint_handler_def unparsable_texts fp_str_parses index_resolve_content_def index_new_def
        nearest_fingerprint_def max_by_last_def)
qed

lemma clamp_test_passes: "now \<noteq> - 1 \<Longrightarrow> ingest_clamps_future_created_at signer now"
  unfolding ingest_clamps_future_created_at_def
  by (rule after_createdI)
    (simp_all add: fp_str_parses manifest_handler_def id_parses index_manifest_def body_holds_def, simp_all add: api_manifest_def)

lemma refusal_tests_pass:
  "signer \<noteq> registrant \<Longrightarrow> ingest_rejects_wrong_signer signer registrant now"
  "ingest_rejects_bad_fingerprint signer now" "ingest_duplicate_fingerprint_is_conflict signer now"
proof -
  have facts: "wm_creator_id (api_manifest w fp t (hub_address n)) = hub_address n"
      "wm_price_per_min (api_manifest w fp t (hub_address n)) = 1000000"
      "wm_bandwidth_rate (api_manifest w fp t (hub_address n)) = 960000"
      "wm_region (api_manifest w fp t (hub_address n)) = Bytes32 (filled 0)" for w fp t n
    by (simp_all add: api_manifest_def)
  note post = posted [OF facts]
  show "signer \<noteq> registrant \<Longrightarrow> ingest_rejects_wrong_signer signer registrant now"
    by (simp add: ingest_rejects_wrong_signer_def answered_def post)
  show "ingest_rejects_bad_fingerprint signer now"
    by (simp add: ingest_rejects_bad_fingerprint_def answered_def post index_upsert_def unparsable_texts)
  show "ingest_duplicate_fingerprint_is_conflict signer now"
    unfolding ingest_duplicate_fingerprint_is_conflict_def
  proof (rule after_createdI)
    let ?a = "api_manifest 7 (fp_str 0xD5) ''First Work'' (hub_address signer)"
      and ?b = "api_manifest 8 (fp_str 0xD5) ''Second Work'' (hub_address signer)"
    fix st :: "hub_index hub_state" assume st: "index_ok decode_hex (hb_index st)"
      "ix_works (hb_index st) = [(wm_work_id ?a, ?a\<lparr>wm_created_at := min (wm_created_at ?a) now\<rparr>)]"
    then have w: "bt_get (ix_works (hb_index st)) (Bytes32 (filled 7)) = Some (?a\<lparr>wm_created_at := min (wm_created_at ?a) now\<rparr>)"
      by simp
    from upsert_refuses(1) [OF st(1) _ w, of "?b\<lparr>wm_created_at := min (wm_created_at ?b) now\<rparr>"]
    have "index_upsert decode_hex (?b\<lparr>wm_created_at := min (wm_created_at ?b) now\<rparr>) (hb_index st)
        = Inl (DuplicateFingerprint (fp_str 0xD5))" by (simp add: fp_str_parses)
    then show "answered signer now st (ingest_body ?b signer) = 409" by (simp add: answered_def post)
  qed (simp_all add: facts fp_str_parses)
qed

lemma lookup_tests_pass:
  "manifest_success_and_not_found signer now" "creator_success_and_bad_address signer now"
  "search_finds_ingested_work signer now" "trending_lists_ingested_work signer now"
proof -
  have addr: "parse_test_address (''0x'' @ hex_string (hub_address signer)) = Some (hub_address signer)"
    unfolding parse_test_address_def by (simp only: hex.decode_prefixed) (simp add: hub_address_def)
  show "manifest_success_and_not_found signer now"
    unfolding manifest_success_and_not_found_def
    by (rule after_createdI)
      (simp_all add: fp_str_parses manifest_handler_def id_parses index_manifest_def body_holds_def answered_simps,
       simp_all add: api_manifest_def)
  show "creator_success_and_bad_address signer now"
    unfolding creator_success_and_bad_address_def
    by (rule after_createdI)
      (simp_all add: fp_str_parses creator_handler_def addr by_creator_def body_holds_def answered_simps unparsable_texts
        del: append_Cons append_Nil, simp_all add: api_manifest_def)
  show "search_finds_ingested_work signer now"
    unfolding search_finds_ingested_work_def
    by (rule after_createdI)
      (simp_all add: fp_str_parses search_handler_def body_holds_def or_default_def Let_def index_search_def api_tokens
        scored_works_def relevance_def of_type_def summary_of_def saturating_sub_def PAGE_SIZE_def, simp_all add: api_manifest_def test_tokens)
  show "trending_lists_ingested_work signer now"
    unfolding trending_lists_ingested_work_def
    by (rule after_createdI)
      (simp_all add: fp_str_parses trending_handler_def body_holds_def index_trending_def of_type_def summary_of_def PAGE_SIZE_def,
       simp_all add: api_manifest_def)
qed

lemma document_tests_pass: "healthz_reports_ok signer now" "openapi_document_is_served signer now"
proof -
  show "healthz_reports_ok signer now" by (simp add: healthz_reports_ok_def answered_simps)
  have "case openapi_json derived_document ''0.1.0'' of None \<Rightarrow> False
      | Some doc \<Rightarrow> is_object (json_path doc [''paths'', ''/manifests''])
          \<and> is_object (json_path doc [''components'', ''schemas'', ''WorkManifest''])" by code_simp
  then show "openapi_document_is_served signer now" by (simp only: openapi_document_is_served_def answered_simps simp_thms)
qed

text \<open>The discovery hub's own tests hold of the model. For every two different signers, every clock
  below its greatest value and every JSON coder that reads back what it writes, the unit tests of the
  manifests, of the index, of the validation against the registry, of the configuration and of the routes
  pass, with their data and each of their assertions, on the definitions that model the code.\<close>
theorem hub_unit_tests_pass:
  assumes "other \<noteq> signer" and "now \<noteq> - 1"
    and "\<And>ix. is_ok (to_json ix)" and "\<And>ix raw. to_json ix = Inr raw \<Longrightarrow> from_json raw = Inr ix"
  shows "resolve_hit_and_miss \<and> duplicate_fingerprint_guard \<and> upsert_rejects_unparsable_fingerprint
   \<and> duplicate_content_id_guard \<and> resolve_content_hit_and_miss \<and> search_matches_and_filters
   \<and> trending_orders_by_recency \<and> snapshot_round_trip to_json from_json \<and> upsert_rekey_drops_stale_fingerprint
   \<and> load_snapshot_missing_file_is_empty from_json \<and> search_pagination_second_page \<and> search_ties_break_by_work_id_ascending
   \<and> manifest_bytes_are_stable \<and> consent_digest_and_recover keccak256 signer
   \<and> recover_matches_signer_and_rejects_tampering signer
   \<and> valid_manifest_passes signer \<and> wrong_signer_is_rejected signer other \<and> price_mismatch_is_rejected signer
   \<and> bandwidth_rate_mismatch_is_rejected signer \<and> unregistered_work_is_rejected signer
   \<and> creator_mismatch_is_rejected signer other \<and> region_mismatch_is_rejected signer
   \<and> missing_registry_is_an_error \<and> defaults_apply_when_unset \<and> bad_registry_is_an_error
   \<and> ingest_then_resolve signer now \<and> ingest_clamps_future_created_at signer now \<and> resolve_missing_is_not_found signer now
   \<and> ingest_rejects_wrong_signer signer other now \<and> healthz_reports_ok signer now \<and> openapi_document_is_served signer now
   \<and> search_finds_ingested_work signer now \<and> trending_lists_ingested_work signer now
   \<and> manifest_success_and_not_found signer now \<and> creator_success_and_bad_address signer now
   \<and> ingest_duplicate_fingerprint_is_conflict signer now \<and> ingest_rejects_bad_fingerprint signer now"
proof -
  note snapshot = snapshot_tests_pass(2) [of to_json from_json, OF assms(3,4)]
  note different = validation_tests_pass(6,7) [OF assms(1)] refusal_tests_pass(1) [OF assms(1) [symmetric]]
    clamp_test_passes [OF assms(2)]
  show ?thesis
    by (simp only: index_resolution_tests_pass index_search_tests_pass snapshot_tests_pass(1) snapshot manifest_tests_pass
        validation_tests_pass(1-5) different hub_config_tests_pass resolution_tests_pass refusal_tests_pass(2,3)
        lookup_tests_pass document_tests_pass simp_thms)
qed

theorem hub_unit_tests_pass_witness:
  "ingest_then_resolve 1 5 \<and> snapshot_round_trip Inr Inr \<and> wrong_signer_is_rejected 1 2 \<and> ingest_rejects_wrong_signer 1 2 5"
  using hub_unit_tests_pass [of 2 1 5 Inr Inr "\<lambda>bs. bs"] by simp

end
