(* ===== verification/StorageTests.thy ===== *)
theory StorageTests
  imports Storage ReceiptTests
begin

text \<open>
  The unit tests of the storage node (\<open>services/storage/src/lib.rs\<close>), run on the model: receipts of the
  ledger, delivery streams drained and dropped, the windows of a file, and the two tests that drive the
  content and receipt routes. The temporary directory of a test is a function from file names, and the
  random signer of the node is a byte.
\<close>

section \<open>Helpers of the tests\<close>

definition router_work :: string where
  "router_work = test_id 0xBB"

definition delivered_chunk :: served_chunk where
  "delivered_chunk = \<lparr>sv_work_id = test_work, sv_consumer = ''0xc0ffee'', sv_bytes = 4096\<rparr>"

definition ledger_with_one_chunk :: ledger where
  "ledger_with_one_chunk = ledger_record ''0xc0ffee'' test_work 0 delivered_chunk \<lparr>lg_entries = []\<rparr>"

text \<open>A directory with one file.\<close>

definition dir_with :: "string \<Rightarrow> u8 list \<Rightarrow> string \<Rightarrow> string + u8 list" where
  "dir_with work_id content name = (if name = work_id @ ''.bin'' then Inr content else Inl ''not found'')"

text \<open>Polling a stream to its end: the bytes it yielded and how often its callback ran.\<close>

fun drained :: "nat \<Rightarrow> delivery_stream \<Rightarrow> (u8 list \<times> nat) option" where
  "drained 0 s = None"
| "drained (Suc n) s =
     (case poll_next s of
        (None, fired, _) \<Rightarrow> Some ([], if fired then 1 else 0)
      | (Some piece, fired, s') \<Rightarrow> map_option (\<lambda>(bytes, k). (piece @ bytes, k + (if fired then 1 else 0))) (drained n s'))"

text \<open>The node of a route test, a content request to it, and the status of its receipt.\<close>

definition test_node :: "u8 \<Rightarrow> node" where
  "test_node signer = node_start (signer_address signer) 1"

definition receipt_status :: "u8 \<Rightarrow> node \<Rightarrow> nat" where
  "receipt_status signer n =
     (case receipt_handler test_env (\<lambda>msg. Inr (sign_message signer msg)) n router_work 0 ''0xc0ffee'' of
        Status status _ \<Rightarrow> status | Signed _ _ \<Rightarrow> 200)"

section \<open>The tests\<close>

definition issues_a_receipt_for_a_delivered_chunk :: bool where
  "issues_a_receipt_for_a_delivered_chunk =
     unwrapped (\<lambda>r. rc_bytes r = 4096 \<and> rc_epoch r = 7 \<and> rc_chunk_index r = 0 \<and> rc_work_id r = test_work
         \<and> rc_consumer r = ''0xc0ffee'' \<and> rc_node r = ''0xn0de'')
       (issue_receipt ledger_with_one_chunk ''0xn0de'' 7 ''0xc0ffee'' test_work 0)"

definition refuses_to_sign_for_an_undelivered_chunk :: bool where
  "refuses_to_sign_for_an_undelivered_chunk \<longleftrightarrow>
     issue_receipt ledger_with_one_chunk ''0xn0de'' 7 ''0xc0ffee'' test_work 9 = Inl NotServed
     \<and> issue_receipt ledger_with_one_chunk ''0xn0de'' 7 ''0xdecaf'' test_work 0 = Inl NotServed"

definition fully_consumed_stream_credits_the_chunk :: bool where
  "fully_consumed_stream_credits_the_chunk =
     (case drained 1001 (stream_new (replicate 1000 7) 256) of
        None \<Rightarrow> False | Some (bytes, fires) \<Rightarrow> length bytes = 1000 \<and> fires * 1000 = 1000)"

definition abandoned_stream_credits_nothing :: bool where
  "abandoned_stream_credits_nothing =
     (case poll_next (stream_new (replicate 1000 7) 256) of
        (Some first, fired, _) \<Rightarrow> length first = 256 \<and> \<not> fired | (None, _, _) \<Rightarrow> False)"

definition redelivering_a_chunk_keeps_one_entry :: bool where
  "redelivering_a_chunk_keeps_one_entry =
     (let l = ledger_record ''0xc0ffee'' test_work 0 delivered_chunk ledger_with_one_chunk
      in map_option sv_bytes (ledger_get l ''0xc0ffee'' test_work 0) = Some 4096
         \<and> unwrapped (\<lambda>r. rc_bytes r = 4096) (issue_receipt l ''0xn0de'' 7 ''0xc0ffee'' test_work 0))"

definition fragment_for_chunk_windows_the_content :: bool where
  "fragment_for_chunk_windows_the_content =
     (let w = test_id 0xAB; dir = dir_with w (replicate (unat CHUNK_SIZE + 100) 7)
      in unwrapped (\<lambda>bytes. length bytes = unat CHUNK_SIZE) (fragment_for_chunk dir w 0)
         \<and> unwrapped (\<lambda>bytes. length bytes = 100) (fragment_for_chunk dir w 1)
         \<and> unwrapped (\<lambda>bytes. length bytes = 0) (fragment_for_chunk dir w 99))"

definition rejects_a_malformed_work_id :: "(string \<Rightarrow> string + u8 list) \<Rightarrow> bool" where
  "rejects_a_malformed_work_id dir \<longleftrightarrow>
     fragment_for_chunk dir ''../../etc/passwd'' 0 = Inl storage_error.BadWorkId \<and> fragment_for_chunk dir ''0xzz'' 0 = Inl storage_error.BadWorkId"

definition abandoned_http_delivery_yields_no_receipt :: "u8 \<Rightarrow> bool" where
  "abandoned_http_delivery_yields_no_receipt signer =
     unwrapped (\<lambda>resp. case poll_next (or_stream resp) of
          (Some _, fired, _) \<Rightarrow> receipt_status signer (complete_response resp fired (test_node signer)) = 404
        | (None, _, _) \<Rightarrow> False)
       (content_handler (dir_with router_work (replicate 4096 7)) router_work ''0xc0ffee'' 0)"

definition fully_drained_http_delivery_yields_a_receipt :: "u8 \<Rightarrow> bool" where
  "fully_drained_http_delivery_yields_a_receipt signer =
     unwrapped (\<lambda>resp. case drained 4097 (or_stream resp) of
          Some (body, fires) \<Rightarrow> length body = 4096
            \<and> receipt_status signer (complete_response resp (0 < fires) (test_node signer)) = 200
        | None \<Rightarrow> False)
       (content_handler (dir_with router_work (replicate 4096 7)) router_work ''0xc0ffee'' 0)"

section \<open>The tests hold\<close>

lemma lower_addresses: "normalize_addr ''0xc0ffee'' = ''0xc0ffee''" "normalize_addr ''0xdecaf'' = ''0xdecaf''"
  "normalize_addr ''0xn0de'' = ''0xn0de''"
  by code_simp+

lemma ledger_tests_pass:
  "issues_a_receipt_for_a_delivered_chunk" "refuses_to_sign_for_an_undelivered_chunk" "redelivering_a_chunk_keeps_one_entry"
proof -
  note run = issue_receipt_def ledger_with_one_chunk_def ledger_get_def ledger_record_def ledger_key_def delivered_chunk_def
    lower_addresses lower_work unwrapped_def
  show "issues_a_receipt_for_a_delivered_chunk" by (simp add: issues_a_receipt_for_a_delivered_chunk_def run)
  show "refuses_to_sign_for_an_undelivered_chunk" by (simp add: refuses_to_sign_for_an_undelivered_chunk_def run)
  show "redelivering_a_chunk_keeps_one_entry" by (simp add: redelivering_a_chunk_keeps_one_entry_def run)
qed

text \<open>A stream of a whole number of fuel steps above its length yields its data and fires once.\<close>

lemma drained_all:
  "\<lbrakk>st_pos s \<le> length (st_data s); 0 < st_piece s; length (st_data s) - st_pos s < n\<rbrakk>
    \<Longrightarrow> drained n s = Some (drop (st_pos s) (st_data s), if st_armed s then 1 else 0)"
proof (induction n arbitrary: s)
  case (Suc n)
  show ?case
  proof (cases "st_pos s < length (st_data s)")
    case False
    then show ?thesis using Suc.prems(1) by (simp add: poll_next_def)
  next
    case True
    let ?stop = "min (st_pos s + st_piece s) (length (st_data s))"
    let ?s = "s\<lparr>st_pos := ?stop\<rparr>"
    have "drained n ?s = Some (drop ?stop (st_data s), if st_armed s then 1 else 0)"
    proof -
      have "length (st_data s) - ?stop < n" using Suc.prems(2,3) True by linarith
      then show ?thesis using Suc.IH [of ?s] Suc.prems(2) by simp
    qed
    moreover have "take (?stop - st_pos s) (drop (st_pos s) (st_data s)) @ drop ?stop (st_data s) = drop (st_pos s) (st_data s)"
    proof -
      have "drop ?stop (st_data s) = drop (?stop - st_pos s) (drop (st_pos s) (st_data s))" using True by simp
      then show ?thesis by (simp only: append_take_drop_id)
    qed
    ultimately show ?thesis using True by (simp add: poll_next_def Let_def)
  qed
qed simp

lemma stream_tests_pass: "fully_consumed_stream_credits_the_chunk" "abandoned_stream_credits_nothing"
proof -
  have "drained 1001 (stream_new (replicate 1000 7) 256) = Some (replicate 1000 7, 1)"
    by (subst drained_all) (simp_all add: stream_new_def)
  then show "fully_consumed_stream_credits_the_chunk" by (simp add: fully_consumed_stream_credits_the_chunk_def)
  show "abandoned_stream_credits_nothing"
    by (simp add: abandoned_stream_credits_nothing_def poll_next_def stream_new_def Let_def)
qed

lemma test_id_names: "is_work_id (test_id b)" "content_name (test_id b) = test_id b @ ''.bin''"
proof -
  have "list_all is_ascii_hexdigit (hex_string (filled b))"
    using hex_string_digits by (auto simp: list_all_iff)
  moreover have "length (hex_string (filled b)) = 64" by (simp add: filled_def)
  ultimately show "is_work_id (test_id b)" unfolding is_work_id_iff test_id_def by blast
  show "content_name (test_id b) = test_id b @ ''.bin''"
    unfolding content_name_def test_id_def lower_prefix by (simp add: hex_string_lowercase)
qed

lemma dir_fragment:
  "unat x * 131072 < 2 ^ 64 \<Longrightarrow> fragment_for_chunk (dir_with (test_id b) data) (test_id b) x
     = Inr (take 131072 (drop (unat x * 131072) data))"
  by (rule fragment_in_range) (simp_all add: dir_with_def test_id_names)

lemma fragment_tests_pass: "fragment_for_chunk_windows_the_content" "rejects_a_malformed_work_id dir"
proof -
  show "fragment_for_chunk_windows_the_content"
    by (simp add: fragment_for_chunk_windows_the_content_def Let_def dir_fragment unwrapped_def CHUNK_SIZE_def)
  show "rejects_a_malformed_work_id dir"
    by (simp add: rejects_a_malformed_work_id_def fragment_for_chunk_def is_work_id_def strip_prefix_def)
qed

lemma test_receipt_status:
  "receipt_status signer n = (case ledger_get (nd_ledger n) ''0xc0ffee'' router_work 0 of None \<Rightarrow> 404 | Some _ \<Rightarrow> 200)"
  by (simp add: receipt_status_def receipt_handler_def issue_receipt_def test_env_def split: option.split)

lemma route_tests_pass:
  "abandoned_http_delivery_yields_no_receipt signer" "fully_drained_http_delivery_yields_a_receipt signer"
proof -
  have lower: "to_ascii_lowercase router_work = router_work"
    unfolding router_work_def test_id_def lower_prefix by (simp add: hex_string_lowercase)
  have fragment: "fragment_for_chunk (dir_with router_work data) router_work 0 = Inr (take 131072 data)" for data
    unfolding router_work_def using dir_fragment [of 0] by simp
  have served: "content_handler (dir_with router_work (replicate 4096 7)) router_work ''0xc0ffee'' 0
      = Inr \<lparr>or_stream = stream_new (replicate 4096 7) (16 * 1024),
             or_served = \<lparr>sv_work_id = router_work, sv_consumer = ''0xc0ffee'', sv_bytes = 4096\<rparr>,
             or_consumer = ''0xc0ffee'', or_work_id = router_work, or_chunk_index = 0\<rparr>"
    by (simp add: content_handler_def fragment lower_addresses lower)
  have "drained 4097 (stream_new (replicate 4096 7) (16 * 1024)) = Some (replicate 4096 7, 1)"
    by (subst drained_all) (simp_all add: stream_new_def)
  then show "fully_drained_http_delivery_yields_a_receipt signer"
    by (simp add: fully_drained_http_delivery_yields_a_receipt_def served unwrapped_def test_receipt_status complete_response_def
        ledger_get_def ledger_record_def test_node_def node_start_def)
  show "abandoned_http_delivery_yields_no_receipt signer"
    by (simp add: abandoned_http_delivery_yields_no_receipt_def served unwrapped_def test_receipt_status complete_response_def
        poll_next_def stream_new_def Let_def ledger_get_def test_node_def node_start_def)
qed

text \<open>The storage node's own tests hold of the model. For every signer of the node and every
  directory, the unit tests of receipts, of delivery streams, of the windows of a file and of the content
  and receipt routes pass, with their data and each of their assertions, on the definitions that model the
  code.\<close>
theorem storage_unit_tests_pass:
  "issues_a_receipt_for_a_delivered_chunk \<and> refuses_to_sign_for_an_undelivered_chunk
   \<and> fully_consumed_stream_credits_the_chunk \<and> abandoned_stream_credits_nothing \<and> redelivering_a_chunk_keeps_one_entry
   \<and> fragment_for_chunk_windows_the_content \<and> rejects_a_malformed_work_id dir
   \<and> abandoned_http_delivery_yields_no_receipt signer \<and> fully_drained_http_delivery_yields_a_receipt signer"
  by (simp only: ledger_tests_pass stream_tests_pass fragment_tests_pass route_tests_pass simp_thms)

end
