(* ===== verification/CircuitTests.thy ===== *)
theory CircuitTests
  imports Circuit SettleTests
begin

text \<open>
  The unit tests of \<open>libs/zk-circuits/src\<close> (\<open>field.rs\<close>, \<open>dr.rs\<close>, \<open>circuit.rs\<close>, \<open>prove.rs\<close>), run on the
  model over any modulus and any hash; what a test needs of the hash, the prover and the verifier is a
  hypothesis of the theorem. The test that compares the Poseidon gadget with the native hash is not run:
  the model has one parameter for both.
\<close>

section \<open>The tests of the weight and of the field\<close>

definition table_matches_sim :: bool where
  "table_matches_sim =
     list_all (\<lambda>j. d_ppm_table 1000000 ! (j - 1) = d_ppm (of_nat j) 1000000) [1..<Suc (unat MAX_PLAYS_CIRCUIT)]"

definition weight_matches_sim_raw :: bool where
  "weight_matches_sim_raw \<longleftrightarrow>
     weight_of 60 2 1000000 1000000 1000000 = 60 * 1000000 * 1000000 * ucast (d_ppm 2 1000000) div 1000000"

definition plays_clamped_to_circuit_cap :: bool where
  "plays_clamped_to_circuit_cap \<longleftrightarrow>
     weight_of 10 1000000 1000000 1000000 1000000 = weight_of 10 MAX_PLAYS_CIRCUIT 1000000 1000000 1000000"

definition small_value_round_trips :: "int \<Rightarrow> bool" where
  "small_value_round_trips p =
     (let f = fr_from_u128 p 123456789 in fr_from_bytes32 p (fr_to_bytes32 f) = f)"

definition one_is_big_endian :: "int \<Rightarrow> bool" where
  "one_is_big_endian p =
     (let b = fr_to_bytes32 (fr_from_u128 p 1) in b ! 31 = 1 \<and> take 31 b = replicate 31 0)"

section \<open>The tests of the circuit\<close>

definition TEST_K_EPOCH :: b32 where
  "TEST_K_EPOCH = filled 7"

definition test_row :: "int \<Rightarrow> (fr list \<Rightarrow> fr) \<Rightarrow> u8 \<Rightarrow> u64 \<Rightarrow> u64 \<Rightarrow> u8 \<Rightarrow> row_witness" where
  "test_row p poseidon_hash work minutes plays salt =
     (let c = commitment p poseidon_hash (filled work) minutes plays (filled salt)
      in \<lparr>rw_active = True, rw_work_id = filled work, rw_minutes = minutes, rw_plays = plays, rw_salt = filled salt,
          rw_price_ppm = 1000000, rw_region_ppm = 1000000,
          rw_weight = weight_of minutes plays 1000000 1000000 1000000, rw_commitment = c,
          rw_pseudonym = pseudonym p poseidon_hash TEST_K_EPOCH c\<rparr>)"

definition test_circuit :: "int \<Rightarrow> (fr list \<Rightarrow> fr) \<Rightarrow> row_witness list \<Rightarrow> usage_circuit" where
  "test_circuit p poseidon_hash rows =
     (let padded = pad_to MAX_WORKS (padded_row p poseidon_hash TEST_K_EPOCH) rows
      in \<lparr>uc_epoch = 1, uc_tier = filled 0, uc_k_epoch = TEST_K_EPOCH, uc_k_ppm = 1000000, uc_rows = padded,
          uc_digest = digest p poseidon_hash 1 (filled 0) TEST_K_EPOCH (map public_row_of padded)\<rparr>)"

definition with_first_row :: "(row_witness \<Rightarrow> row_witness) \<Rightarrow> usage_circuit \<Rightarrow> usage_circuit" where
  "with_first_row f c = c\<lparr>uc_rows := (uc_rows c)[0 := f (uc_rows c ! 0)]\<rparr>"

definition commitment_and_range_constraints :: "int \<Rightarrow> (fr list \<Rightarrow> fr) \<Rightarrow> bool" where
  "commitment_and_range_constraints p h =
     (let circ = test_circuit p h [test_row p h 1 60 2 9]
      in circuit_satisfied p h circ
         \<and> \<not> circuit_satisfied p h (with_first_row (\<lambda>r. r\<lparr>rw_commitment := filled 0xEE\<rparr>) circ))"

definition weight_and_pseudonym_constraints :: "int \<Rightarrow> (fr list \<Rightarrow> fr) \<Rightarrow> bool" where
  "weight_and_pseudonym_constraints p h =
     (let circ = test_circuit p h [test_row p h 1 60 2 9]
      in \<not> circuit_satisfied p h (with_first_row (\<lambda>r. r\<lparr>rw_weight := rw_weight r + 1\<rparr>) circ)
         \<and> \<not> circuit_satisfied p h (with_first_row (\<lambda>r. r\<lparr>rw_pseudonym := filled 0x77\<rparr>) circ))"

definition uniqueness_and_digest :: "int \<Rightarrow> (fr list \<Rightarrow> fr) \<Rightarrow> bool" where
  "uniqueness_and_digest p h =
     (let dup = test_circuit p h [test_row p h 1 10 1 9, test_row p h 1 20 1 8];
          ok = test_circuit p h [test_row p h 1 10 1 9, test_row p h 2 20 1 8]
      in \<not> circuit_satisfied p h dup \<and> circuit_satisfied p h ok
         \<and> \<not> circuit_satisfied p h (ok\<lparr>uc_digest := filled 0\<rparr>))"

section \<open>The circuit tests hold\<close>

definition test_input :: "u8 \<Rightarrow> u64 \<Rightarrow> u64 \<Rightarrow> u8 \<Rightarrow> usage_row_input" where
  "test_input work minutes plays salt =
     \<lparr>ri_work_id = filled work, ri_minutes = minutes, ri_plays = plays, ri_salt = filled salt,
      ri_price_ppm = 1000000, ri_region_ppm = 1000000\<rparr>"

lemma test_row_active: "test_row p h w m n s = active_row p h TEST_K_EPOCH 1000000 (test_input w m n s)"
  by (simp add: test_row_def active_row_def test_input_def)

lemma test_circuit_proves:
  "test_circuit p h (map (active_row p h TEST_K_EPOCH 1000000) inputs) = prove_circuit p h 1 (filled 0) TEST_K_EPOCH 1000000 inputs"
  by (simp add: test_circuit_def prove_circuit_def)

lemma weight_tests_pass: "table_matches_sim" "weight_matches_sim_raw" "plays_clamped_to_circuit_cap"
proof -
  show "table_matches_sim"
    unfolding table_matches_sim_def list_all_iff
  proof
    fix j assume "j \<in> set [1..<Suc (unat MAX_PLAYS_CIRCUIT)]"
    then have j: "j - 1 < 64" "of_nat (j - 1) + 1 = (of_nat j :: u64)"
      by (auto simp: MAX_PLAYS_CIRCUIT_def of_nat_diff)
    then show "d_ppm_table 1000000 ! (j - 1) = d_ppm (of_nat j) 1000000"
      using table_entry [OF j(1), of 1000000] by simp
  qed
  have "circuit_plays 2 = 2" by (simp add: circuit_plays_def MAX_PLAYS_CIRCUIT_def)
  then show "weight_matches_sim_raw" by (simp add: weight_matches_sim_raw_def weight_of_def')
  show "plays_clamped_to_circuit_cap"
    by (simp add: plays_clamped_to_circuit_cap_def weight_of_def MAX_PLAYS_CIRCUIT_def)
qed

lemma field_tests_pass:
  assumes "2 ^ 253 < p" and "p \<le> 2 ^ 256"
  shows "small_value_round_trips p" "one_is_big_endian p"
proof -
  have "fr_from_u128 p 123456789 = 123456789" using assms(1) by (simp add: fr_from_u128_def)
  moreover have "fr_from_bytes32 p (fr_to_bytes32 123456789) = 123456789" using assms by (intro fr_round_trip) simp_all
  ultimately show "small_value_round_trips p" by (simp add: small_value_round_trips_def)
  have one: "fr_from_u128 p 1 = 1" using assms(1) by (simp add: fr_from_u128_def)
  show "one_is_big_endian p"
    unfolding one_is_big_endian_def one Let_def by code_simp
qed

lemma be_int_filled: "be_int (filled b) = uint b * 454086624460063511464984254936031011189294057512315937409637584344757371137"
proof -
  have "be_int (replicate n b) = uint b * be_int (replicate n 1)" for n
    by (induction n) (simp_all add: be_int_append algebra_simps flip: replicate_append_same, simp_all add: be_int_def)
  moreover have "be_int (replicate 32 1) = 454086624460063511464984254936031011189294057512315937409637584344757371137"
    by (simp add: be_int_def numeral_eq_Suc)
  ultimately show ?thesis by (simp add: filled_def)
qed

lemma fr_filled:
  assumes "2 ^ 253 < p"
  shows "fr_from_bytes32 p (filled 0) = 0" "fr_from_bytes32 p (filled 1) = be_int (filled 1)"
    "fr_from_bytes32 p (filled 2) = be_int (filled 2)" "be_int (filled 1) \<noteq> 0" "be_int (filled 1) \<noteq> be_int (filled 2)"
    "be_int (filled 2) \<noteq> 0"
proof -
  note v = be_int_filled [of 0] be_int_filled [of 1] be_int_filled [of 2]
  with assms show "fr_from_bytes32 p (filled 0) = 0" "fr_from_bytes32 p (filled 1) = be_int (filled 1)"
    "fr_from_bytes32 p (filled 2) = be_int (filled 2)" by (simp_all add: fr_from_bytes32_def)
  show "be_int (filled 1) \<noteq> 0" "be_int (filled 1) \<noteq> be_int (filled 2)" "be_int (filled 2) \<noteq> 0" by (simp_all add: v)
qed

lemma test_input_provable:
  "\<lbrakk>2 ^ 253 < p; minutes \<le> 60; 1 \<le> plays; plays \<le> 64; work = 1 \<or> work = 2\<rbrakk>
    \<Longrightarrow> provable_input p (test_input work minutes plays salt)"
  using fr_filled [of p] by (auto simp: provable_input_def test_input_def word_le_nat_alt)

lemma honest_circuits:
  assumes "2 ^ 253 < p" and "p \<le> 2 ^ 256" and "hash_in_field p h"
  shows "circuit_satisfied p h (test_circuit p h [test_row p h 1 60 2 9])"
    and "circuit_satisfied p h (test_circuit p h [test_row p h 1 10 1 9, test_row p h 2 20 1 8])"
proof -
  note complete = circuit_complete [OF assms, of _ 1 "filled 0" TEST_K_EPOCH]
  have "circuit_satisfied p h (prove_circuit p h 1 (filled 0) TEST_K_EPOCH 1000000 [test_input 1 60 2 9])"
    using test_input_provable [OF assms(1)] by (intro complete) (auto simp: MAX_WORKS_def)
  then show "circuit_satisfied p h (test_circuit p h [test_row p h 1 60 2 9])"
    by (simp add: test_row_active flip: test_circuit_proves)
  have "circuit_satisfied p h (prove_circuit p h 1 (filled 0) TEST_K_EPOCH 1000000 [test_input 1 10 1 9, test_input 2 20 1 8])"
    using test_input_provable [OF assms(1)] fr_filled [OF assms(1)]
    by (intro complete) (auto simp: MAX_WORKS_def test_input_def)
  then show "circuit_satisfied p h (test_circuit p h [test_row p h 1 10 1 9, test_row p h 2 20 1 8])"
    by (simp add: test_row_active flip: test_circuit_proves)
qed

text \<open>A circuit whose first row is active and whose statement about it is false is not satisfied.\<close>

lemma tampered_row:
  assumes big: "2 ^ 253 < p"
    and act: "rw_active (f (test_row p h w m n s))"
    and bad: "\<not> row_statement h (fr_from_bytes32 p TEST_K_EPOCH) (assign_row p (f (test_row p h w m n s)))"
  shows "\<not> circuit_satisfied p h (with_first_row f (test_circuit p h (test_row p h w m n s # rows)))"
proof
  let ?c = "with_first_row f (test_circuit p h (test_row p h w m n s # rows))"
    and ?v = "assign_row p (f (test_row p h w m n s))"
  assume "circuit_satisfied p h ?c"
  then have "enforce_row p h (fr_from_bytes32 p TEST_K_EPOCH) ?v"
    by (simp add: circuit_satisfied_def generate_constraints_def with_first_row_def test_circuit_def pad_to_def Let_def)
  moreover have "field_row p ?v" using big by (intro assign_row_in_field) simp
  moreover have "rv_active ?v" using act by (simp add: assign_row_def Let_def)
  ultimately show False using enforce_row_sound [OF big] bad by blast
qed

lemma circuit_tests_pass:
  assumes big: "2 ^ 253 < p" and top: "p \<le> 2 ^ 256" and h: "hash_in_field p h"
    and com: "h [fr_from_bytes32 p (filled 1), 60, 2, fr_from_bytes32 p (filled 9)] \<noteq> fr_from_bytes32 p (filled 0xEE)"
    and ps: "h [fr_from_bytes32 p TEST_K_EPOCH, rv_commitment (assign_row p (test_row p h 1 60 2 9))] \<noteq> fr_from_bytes32 p (filled 0x77)"
    and dg: "h (digest_inputs p 1 (filled 0) TEST_K_EPOCH
        (map public_row_of (uc_rows (test_circuit p h [test_row p h 1 10 1 9, test_row p h 2 20 1 8])))) \<noteq> 0"
  shows "commitment_and_range_constraints p h" "weight_and_pseudonym_constraints p h" "uniqueness_and_digest p h"
proof -
  note honest = honest_circuits [OF big top h]
  let ?row = "test_row p h 1 60 2 9"
  have vals: "rv_minutes (assign_row p ?row) = 60" "rv_plays (assign_row p ?row) = 2"
      "rv_work_id (assign_row p ?row) = fr_from_bytes32 p (filled 1)" "rv_salt (assign_row p ?row) = fr_from_bytes32 p (filled 9)"
    using big by (simp_all add: assign_row_def test_row_def Let_def fr_from_u128_def)
  have same: "rv_work_id (assign_row p (r\<lparr>rw_commitment := x\<rparr>)) = rv_work_id (assign_row p r)"
      "rv_minutes (assign_row p (r\<lparr>rw_commitment := x\<rparr>)) = rv_minutes (assign_row p r)"
      "rv_plays (assign_row p (r\<lparr>rw_commitment := x\<rparr>)) = rv_plays (assign_row p r)"
      "rv_salt (assign_row p (r\<lparr>rw_commitment := x\<rparr>)) = rv_salt (assign_row p r)"
      "rv_commitment (assign_row p (r\<lparr>rw_commitment := x\<rparr>)) = fr_from_bytes32 p x"
      "rv_pseudonym (assign_row p (r\<lparr>rw_pseudonym := x\<rparr>)) = fr_from_bytes32 p x"
      "rv_commitment (assign_row p (r\<lparr>rw_pseudonym := x\<rparr>)) = rv_commitment (assign_row p r)" for r x
    by (simp_all add: assign_row_def Let_def)
  let ?k = "fr_from_bytes32 p TEST_K_EPOCH"
  have "\<not> row_statement h ?k (assign_row p (?row\<lparr>rw_commitment := filled 0xEE\<rparr>))"
    using com by (simp add: row_statement_def same vals)
  then have "\<not> circuit_satisfied p h (with_first_row (\<lambda>r. r\<lparr>rw_commitment := filled 0xEE\<rparr>) (test_circuit p h [?row]))"
    by (intro tampered_row [OF big]) (simp_all, simp add: test_row_def Let_def)
  with honest(1) show "commitment_and_range_constraints p h"
    by (simp add: commitment_and_range_constraints_def Let_def)
  have "\<not> row_statement h ?k (assign_row p (?row\<lparr>rw_pseudonym := filled 0x77\<rparr>))"
    using ps by (simp add: row_statement_def same)
  then have pseudo: "\<not> circuit_satisfied p h (with_first_row (\<lambda>r. r\<lparr>rw_pseudonym := filled 0x77\<rparr>) (test_circuit p h [?row]))"
    by (intro tampered_row [OF big]) (simp_all, simp add: test_row_def Let_def)
  have d: "d_ppm 2 1000000 = 750000" by code_simp
  have "circuit_plays 2 = 2" by (simp add: circuit_plays_def MAX_PLAYS_CIRCUIT_def)
  then have w: "rw_weight ?row = 45000000000000" by (simp add: test_row_def Let_def weight_of_def' d)
  have "rv_weight (assign_row p (?row\<lparr>rw_weight := rw_weight ?row + 1\<rparr>)) = 45000000000001"
    using big by (simp add: w, simp add: assign_row_def Let_def fr_from_u128_def)
  moreover have "rv_minutes (assign_row p (?row\<lparr>rw_weight := x\<rparr>)) = 60" "rv_plays (assign_row p (?row\<lparr>rw_weight := x\<rparr>)) = 2"
      "rv_price (assign_row p (?row\<lparr>rw_weight := x\<rparr>)) = 1000000" "rv_region (assign_row p (?row\<lparr>rw_weight := x\<rparr>)) = 1000000" for x
    using big by (simp_all add: assign_row_def test_row_def Let_def fr_from_u128_def)
  ultimately have "\<not> row_statement h ?k (assign_row p (?row\<lparr>rw_weight := rw_weight ?row + 1\<rparr>))"
    by (simp add: row_statement_def d)
  then have "\<not> circuit_satisfied p h (with_first_row (\<lambda>r. r\<lparr>rw_weight := rw_weight r + 1\<rparr>) (test_circuit p h [?row]))"
    by (intro tampered_row [OF big]) (simp_all, simp add: test_row_def Let_def)
  with pseudo show "weight_and_pseudonym_constraints p h"
    by (simp add: weight_and_pseudonym_constraints_def Let_def)
  let ?dup = "test_circuit p h [test_row p h 1 10 1 9, test_row p h 1 20 1 8]"
    and ?ok = "test_circuit p h [test_row p h 1 10 1 9, test_row p h 2 20 1 8]"
  have "\<not> unique_works (map (assign_row p) (uc_rows ?dup))"
  proof
    assume "unique_works (map (assign_row p) (uc_rows ?dup))"
    from unique_works_distinct [OF this] show False
      by (simp add: test_circuit_def pad_to_def test_row_def assign_row_def Let_def)
  qed
  then have dup: "\<not> circuit_satisfied p h ?dup" by (simp add: circuit_satisfied_def generate_constraints_def)
  have "digest_preimage (fr_from_u128 p (ucast (uc_epoch ?ok))) (fr_from_bytes32 p (uc_tier ?ok)) (fr_from_bytes32 p (uc_k_epoch ?ok))
        (map (assign_row p) (uc_rows ?ok)) = digest_inputs p 1 (filled 0) TEST_K_EPOCH (map public_row_of (uc_rows ?ok))"
    by (simp add: digest_preimage_def digest_inputs_def assign_row_def public_row_of_def Let_def comp_def test_circuit_def)
  then have "\<not> circuit_satisfied p h (?ok\<lparr>uc_digest := filled 0\<rparr>)"
    using dg fr_filled(1) [OF big] by (simp add: circuit_satisfied_def generate_constraints_def)
  with dup honest(2) show "uniqueness_and_digest p h" by (simp add: uniqueness_and_digest_def Let_def)
qed
section \<open>The tests of the prover\<close>

text \<open>The two inputs of the second test, and what a test uses of the proof system: keys that belong
  together prove every satisfied circuit, the bytes of a proof are read back, and a proof of a circuit
  verifies for the public input of that circuit and no other.\<close>

definition second_input :: usage_row_input where
  "second_input = test_input 2 30 1 8 \<lparr>ri_price_ppm := 900000\<rparr>"

definition proof_system ::
    "int \<Rightarrow> (fr list \<Rightarrow> fr) \<Rightarrow> (usage_circuit \<Rightarrow> string + 'pf) \<Rightarrow> ('pf \<Rightarrow> string + u8 list) \<Rightarrow> (u8 list \<Rightarrow> 'pf option)
     \<Rightarrow> (fr list \<Rightarrow> 'pf \<Rightarrow> bool option) \<Rightarrow> bool" where
  "proof_system p h gp ser deser gv \<longleftrightarrow>
     (\<forall>c. circuit_satisfied p h c \<longrightarrow>
        (\<exists>pr bytes. gp c = Inr pr \<and> ser pr = Inr bytes \<and> deser bytes = Some pr
           \<and> (\<forall>x. gv [x] pr = Some (x = fr_from_bytes32 p (uc_digest c)))))"

definition prove_verify_round_trip ::
    "int \<Rightarrow> (fr list \<Rightarrow> fr) \<Rightarrow> (usage_circuit \<Rightarrow> string + 'pf) \<Rightarrow> ('pf \<Rightarrow> string + u8 list) \<Rightarrow> (u8 list \<Rightarrow> 'pf option)
     \<Rightarrow> (fr list \<Rightarrow> 'pf \<Rightarrow> bool option) \<Rightarrow> bool" where
  "prove_verify_round_trip p h gp ser deser gv =
     unwrapped (\<lambda>b. verify p deser (\<lambda>_. gv) () (pb_digest b) (pb_proof b)
         \<and> \<not> verify p deser (\<lambda>_. gv) () (filled 0) (pb_proof b)
         \<and> pr_weight (pb_rows b ! 0) = weight_of 60 2 1000000 1000000 1000000)
       (prove p h (\<lambda>_. gp) ser () 7 (filled 0xAB) (filled 0x5C) 1000000 [test_input 1 60 2 9])"

definition digest_from_active_matches_prove ::
    "int \<Rightarrow> (fr list \<Rightarrow> fr) \<Rightarrow> (usage_circuit \<Rightarrow> string + 'pf) \<Rightarrow> ('pf \<Rightarrow> string + u8 list) \<Rightarrow> bool" where
  "digest_from_active_matches_prove p h gp ser =
     (let inputs = [test_input 1 60 2 9, second_input]
      in unwrapped (\<lambda>b. unwrapped (\<lambda>recomputed. recomputed = pb_digest b)
             (digest_from_active p h 11 (filled 0x7C) (filled 0x33) (take (length inputs) (pb_rows b))))
           (prove p h (\<lambda>_. gp) ser () 11 (filled 0x7C) (filled 0x33) 1000000 inputs))"

definition digest_from_active_rejects_overflow :: "int \<Rightarrow> (fr list \<Rightarrow> fr) \<Rightarrow> bool" where
  "digest_from_active_rejects_overflow p h \<longleftrightarrow>
     digest_from_active p h 1 (filled 0) (filled 0)
       (replicate (MAX_WORKS + 1) \<lparr>pr_work_id = filled 0, pr_commitment = filled 0, pr_pseudonym = filled 0, pr_weight = 0\<rparr>)
       = Inl TooManyWorks"

definition calldata_is_eight_words_a_first :: "g1 \<Rightarrow> g2 \<Rightarrow> g1 \<Rightarrow> u8 list \<Rightarrow> bool" where
  "calldata_is_eight_words_a_first a b c proof_bytes =
     (case proof_to_evm_calldata (\<lambda>bytes. if bytes = proof_bytes then Some (a, b, c) else None) proof_bytes of
        None \<Rightarrow> False | Some calldata \<Rightarrow> length calldata = 256 \<and> take 32 calldata = fq_word (fst a))"

definition rejects_invalid_proof_bytes :: "(u8 list \<Rightarrow> (g1 \<times> g2 \<times> g1) option) \<Rightarrow> bool" where
  "rejects_invalid_proof_bytes deser \<longleftrightarrow> proof_to_evm_calldata deser (replicate 8 0) = None"

lemma proved:
  assumes sys: "proof_system p h gp ser deser gv" and sat: "circuit_satisfied p h (prove_circuit p h epoch tier k 1000000 inputs)"
    and len: "length inputs \<le> MAX_WORKS"
  shows "\<exists>b pr. prove p h (\<lambda>_. gp) ser () epoch tier k 1000000 inputs = Inr b
     \<and> deser (pb_proof b) = Some pr \<and> pb_digest b = uc_digest (prove_circuit p h epoch tier k 1000000 inputs)
     \<and> pb_rows b = map public_row_of (uc_rows (prove_circuit p h epoch tier k 1000000 inputs))
     \<and> (\<forall>x. gv [x] pr = Some (x = fr_from_bytes32 p (pb_digest b)))"
proof -
  from sys sat obtain pr bytes where "gp (prove_circuit p h epoch tier k 1000000 inputs) = Inr pr" "ser pr = Inr bytes"
      "deser bytes = Some pr" "\<forall>x. gv [x] pr = Some (x = fr_from_bytes32 p (uc_digest (prove_circuit p h epoch tier k 1000000 inputs)))"
    unfolding proof_system_def by blast
  with len show ?thesis by (simp add: prove_def Let_def)
qed

lemma prover_tests_pass:
  assumes field: "2 ^ 253 < p" "p \<le> 2 ^ 256" "hash_in_field p h"
    and sys: "proof_system p h gp ser deser gv"
    and dg: "h (digest_inputs p 7 (filled 0xAB) (filled 0x5C)
        (map public_row_of (uc_rows (prove_circuit p h 7 (filled 0xAB) (filled 0x5C) 1000000 [test_input 1 60 2 9])))) \<noteq> 0"
  shows "prove_verify_round_trip p h gp ser deser gv" "digest_from_active_matches_prove p h gp ser"
    "digest_from_active_rejects_overflow p h"
proof -
  note complete = circuit_complete [OF field]
  have "provable_input p (test_input 1 60 2 9)" by (rule test_input_provable [OF field(1)]) simp_all
  then have "circuit_satisfied p h (prove_circuit p h 7 (filled 0xAB) (filled 0x5C) 1000000 [test_input 1 60 2 9])"
    by (intro complete) (auto simp: MAX_WORKS_def)
  from proved [OF sys this] obtain b pr where b: "prove p h (\<lambda>_. gp) ser () 7 (filled 0xAB) (filled 0x5C) 1000000 [test_input 1 60 2 9] = Inr b"
      "deser (pb_proof b) = Some pr" "pb_digest b = uc_digest (prove_circuit p h 7 (filled 0xAB) (filled 0x5C) 1000000 [test_input 1 60 2 9])"
      "pb_rows b = map public_row_of (uc_rows (prove_circuit p h 7 (filled 0xAB) (filled 0x5C) 1000000 [test_input 1 60 2 9]))"
      "\<forall>x. gv [x] pr = Some (x = fr_from_bytes32 p (pb_digest b))" by (auto simp: MAX_WORKS_def)
  have "fr_from_bytes32 p (pb_digest b) \<noteq> 0"
    using dg hash_round_trip [OF field(3,2)] by (simp add: b(3) prove_circuit_def digest_def Let_def)
  moreover have "pr_weight (pb_rows b ! 0) = weight_of 60 2 1000000 1000000 1000000"
    by (simp add: b(4) prove_circuit_def Let_def pad_to_def public_row_of_def active_row_def test_input_def)
  ultimately show "prove_verify_round_trip p h gp ser deser gv"
    using b fr_filled(1) [OF field(1)] by (simp add: prove_verify_round_trip_def unwrapped_def verify_def)
  have "provable_input p second_input"
    using test_input_provable [OF field(1), of 30 1 2 8] by (simp add: provable_input_def second_input_def test_input_def)
  then have "circuit_satisfied p h (prove_circuit p h 11 (filled 0x7C) (filled 0x33) 1000000 [test_input 1 60 2 9, second_input])"
    using \<open>provable_input p (test_input 1 60 2 9)\<close> fr_filled [OF field(1)]
    by (intro complete) (auto simp: MAX_WORKS_def second_input_def test_input_def)
  from proved [OF sys this] obtain b' where b': "prove p h (\<lambda>_. gp) ser () 11 (filled 0x7C) (filled 0x33) 1000000 [test_input 1 60 2 9, second_input] = Inr b'"
    by (auto simp: MAX_WORKS_def)
  from digest_from_active_agrees [OF this]
  have "digest_from_active p h 11 (filled 0x7C) (filled 0x33) (take (length [test_input 1 60 2 9, second_input]) (pb_rows b'))
      = Inr (pb_digest b')" by blast
  then show "digest_from_active_matches_prove p h gp ser"
    by (simp only: digest_from_active_matches_prove_def Let_def unwrapped_def b' sum.case)
  show "digest_from_active_rejects_overflow p h"
    by (simp add: digest_from_active_rejects_overflow_def digest_from_active_def)
qed

lemma calldata_tests_pass:
  "calldata_is_eight_words_a_first a b c proof_bytes" "deser (replicate 8 0) = None \<Longrightarrow> rejects_invalid_proof_bytes deser"
  by (simp_all add: calldata_is_eight_words_a_first_def rejects_invalid_proof_bytes_def proof_to_evm_calldata_def push_g1_def
      push_g2_def fq_word_def split: prod.split)

text \<open>The proof library's own tests hold of the model. For every modulus above \<open>2^253\<close>, every hash
  into its field that misses the four corrupted values at the inputs of the tests, and every proof system
  that proves satisfied circuits and verifies a proof for its public input only, the unit tests of the
  field, of the diminishing-returns table, of the circuit, of the prover and of the calldata pass: honest
  circuits are satisfied, and each corruption of a row or of the digest makes its circuit unsatisfied.\<close>
theorem proof_unit_tests_pass:
  assumes "2 ^ 253 < p" "p \<le> 2 ^ 256" "hash_in_field p h"
    and "h [fr_from_bytes32 p (filled 1), 60, 2, fr_from_bytes32 p (filled 9)] \<noteq> fr_from_bytes32 p (filled 0xEE)"
    and "h [fr_from_bytes32 p TEST_K_EPOCH, rv_commitment (assign_row p (test_row p h 1 60 2 9))] \<noteq> fr_from_bytes32 p (filled 0x77)"
    and "h (digest_inputs p 1 (filled 0) TEST_K_EPOCH
        (map public_row_of (uc_rows (test_circuit p h [test_row p h 1 10 1 9, test_row p h 2 20 1 8])))) \<noteq> 0"
    and "h (digest_inputs p 7 (filled 0xAB) (filled 0x5C)
        (map public_row_of (uc_rows (prove_circuit p h 7 (filled 0xAB) (filled 0x5C) 1000000 [test_input 1 60 2 9])))) \<noteq> 0"
    and "proof_system p h gp ser deser gv"
  shows "table_matches_sim \<and> weight_matches_sim_raw \<and> plays_clamped_to_circuit_cap
   \<and> small_value_round_trips p \<and> one_is_big_endian p
   \<and> commitment_and_range_constraints p h \<and> weight_and_pseudonym_constraints p h \<and> uniqueness_and_digest p h
   \<and> prove_verify_round_trip p h gp ser deser gv \<and> digest_from_active_matches_prove p h gp ser
   \<and> digest_from_active_rejects_overflow p h \<and> calldata_is_eight_words_a_first a b c proof_bytes"
  using weight_tests_pass field_tests_pass [OF assms(1,2)] circuit_tests_pass [OF assms(1-6)]
    prover_tests_pass [OF assms(1-3,8,7)] calldata_tests_pass(1) [of a b c proof_bytes] by blast

text \<open>A proof system whose proofs are the digests of satisfied circuits, over a constant hash.\<close>

definition five_hash :: "fr list \<Rightarrow> fr" where
  "five_hash xs = 5"

lemma five_proof_system:
  "proof_system bn254_modulus five_hash (\<lambda>c. Inr (fr_from_bytes32 bn254_modulus (uc_digest c))) (\<lambda>x. Inr (fr_to_bytes32 x))
     (\<lambda>bytes. Some (fr_from_bytes32 bn254_modulus bytes)) (\<lambda>xs pr. Some (xs = [pr]))"
proof -
  have "fr_from_bytes32 bn254_modulus (fr_to_bytes32 (fr_from_bytes32 bn254_modulus b)) = fr_from_bytes32 bn254_modulus b" for b
    using fr_in_field [of bn254_modulus b] by (intro fr_round_trip) (simp_all add: bn254_modulus_def)
  then show ?thesis by (auto simp: proof_system_def)
qed

theorem proof_unit_tests_pass_witness:
  "commitment_and_range_constraints bn254_modulus five_hash \<and> uniqueness_and_digest bn254_modulus five_hash"
proof -
  have v: "fr_from_bytes32 bn254_modulus (filled 0xEE) \<noteq> 5" "fr_from_bytes32 bn254_modulus (filled 0x77) \<noteq> 5"
    by (simp_all add: fr_from_bytes32_def be_int_filled bn254_modulus_def)
  have f: "hash_in_field bn254_modulus five_hash" by (simp add: hash_in_field_def five_hash_def bn254_modulus_def)
  have "five_hash xs \<noteq> 0" "five_hash xs \<noteq> fr_from_bytes32 bn254_modulus (filled 0xEE)"
      "five_hash xs \<noteq> fr_from_bytes32 bn254_modulus (filled 0x77)" for xs
    using v by (auto simp: five_hash_def)
  from proof_unit_tests_pass [OF ex_field(1,2) f this(2,3,1,1) five_proof_system] show ?thesis by blast
qed

end
