(* ===== verification/WalletTests.thy ===== *)
theory WalletTests
  imports Wallet SettleTests
begin

text \<open>
  The unit tests of the session store (\<open>session.rs\<close>) and of the placeholder proof (\<open>zk.rs\<close>) of
  \<open>libs/wallet-zk/src\<close>, run on the model. The tests that print and parse JSON are not run, the coder being
  a crate; the snapshot test reads the state back as it was written.
\<close>

section \<open>The tests of the session store\<close>

definition work_b :: "u8 \<Rightarrow> bytes32" where
  "work_b fill = Bytes32 (filled fill)"

definition flushed :: "session_event list \<Rightarrow> session_state \<Rightarrow> usage_entry list" where
  "flushed es s = fst (session_flush (session_run es s))"

definition epoch_boundaries :: bool where
  "epoch_boundaries \<longleftrightarrow>
     epoch_of 0 = 0 \<and> epoch_of (EPOCH_LENGTH_SECS - 1) = 0 \<and> epoch_of EPOCH_LENGTH_SECS = 1"

definition accrue_and_flush :: bool where
  "accrue_and_flush =
     (let s1 = session_run [Start ''s1'' (work_b 0xA)] (session_new 0);
          usage = flushed [AddTime ''s1'' 130, Stop ''s1''] s1
      in fst (session_add_time ''s1'' 130 s1) \<and> length usage = 1 \<and> ue_work_id (usage ! 0) = work_b 0xA
         \<and> ue_minutes (usage ! 0) = 2 \<and> ue_plays (usage ! 0) = 1)"

definition multiple_sessions_same_work_sum :: bool where
  "multiple_sessions_same_work_sum =
     (let usage = flushed [Start ''s1'' (work_b 0xA), Start ''s2'' (work_b 0xA), AddTime ''s1'' 60, AddTime ''s2'' 60] (session_new 0)
      in length usage = 1 \<and> ue_minutes (usage ! 0) = 2)"

definition two_starts_on_same_work_count_two_plays :: bool where
  "two_starts_on_same_work_count_two_plays =
     (let usage = flushed [Start ''s1'' (work_b 0xA), AddTime ''s1'' 60, Stop ''s1'',
            Start ''s1'' (work_b 0xA), AddTime ''s1'' 90, Stop ''s1''] (session_new 0)
      in length usage = 1 \<and> ue_work_id (usage ! 0) = work_b 0xA \<and> ue_minutes (usage ! 0) = 2 \<and> ue_plays (usage ! 0) = 2)"

definition sub_minute_usage_dropped :: bool where
  "sub_minute_usage_dropped \<longleftrightarrow> flushed [Start ''s1'' (work_b 0xA), AddTime ''s1'' 59] (session_new 0) = []"

definition add_time_unknown_session_ignored :: bool where
  "add_time_unknown_session_ignored \<longleftrightarrow>
     \<not> fst (session_add_time ''nope'' 60 (session_new 0)) \<and> flushed [AddTime ''nope'' 60] (session_new 0) = []"

definition flush_clears_but_keeps_sessions :: bool where
  "flush_clears_but_keeps_sessions =
     (case session_flush (session_run [Start ''s1'' (work_b 0xA), AddTime ''s1'' 120] (session_new 0)) of
        (first, s) \<Rightarrow> length first = 1 \<and> length (flushed [AddTime ''s1'' 120] s) = 1)"

definition state_round_trips_through_json :: "(session_state \<Rightarrow> string + 'f) \<Rightarrow> ('f \<Rightarrow> string + session_state) \<Rightarrow> bool" where
  "state_round_trips_through_json to_json from_json =
     unwrapped (\<lambda>json. unwrapped (\<lambda>restored. ss_epoch restored = 1 \<and>
            (let usage = flushed [] restored in length usage = 1 \<and> ue_minutes (usage ! 0) = 1)) (from_json json))
       (to_json (session_run [Start ''s1'' (work_b 0xA), AddTime ''s1'' 90] (session_new EPOCH_LENGTH_SECS)))"

section \<open>The tests of the placeholder proof\<close>

definition usage_of :: "u8 \<Rightarrow> u64 \<Rightarrow> usage_entry" where
  "usage_of fill minutes = \<lparr>ue_work_id = work_b fill, ue_minutes = minutes, ue_plays = 1\<rparr>"

definition opening_of :: "u8 \<Rightarrow> u64 \<Rightarrow> usage_opening" where
  "opening_of fill minutes = \<lparr>op_work_id = work_b fill, op_minutes = minutes, op_plays = 1, op_salt = work_b 9\<rparr>"

definition generate_records_totals :: bool where
  "generate_records_totals =
     (let pf = generate_proof [usage_of 1 30, usage_of 2 12]
      in pf_scheme pf = PLACEHOLDER_SCHEME \<and> pf_work_count pf = 2 \<and> pf_total_minutes pf = 42)"

definition verify_checks_scheme_and_count :: "int \<Rightarrow> (fr list \<Rightarrow> fr) \<Rightarrow> bool" where
  "verify_checks_scheme_and_count p poseidon_hash =
     (let commitments = [opening_commit p poseidon_hash (opening_of 1 30), opening_commit p poseidon_hash (opening_of 2 12)];
          good = generate_proof [usage_of 1 30, usage_of 2 12];
          bad = generate_proof [usage_of 1 30]
      in verify_proof commitments good \<and> \<not> verify_proof commitments bad
         \<and> \<not> verify_proof commitments (good\<lparr>pf_scheme := ''groth16''\<rparr>))"

lemma session_store_tests_pass:
  "epoch_boundaries" "accrue_and_flush" "multiple_sessions_same_work_sum" "two_starts_on_same_work_count_two_plays"
  "sub_minute_usage_dropped" "add_time_unknown_session_ignored" "flush_clears_but_keeps_sessions"
proof -
  note run = flushed_def session_flush_def session_step_def session_ops session_new_def epoch_of_def bt_update_def
    bt_get_or_def saturating_add_def Let_def
  show "epoch_boundaries" by (simp add: epoch_boundaries_def epoch_of_def EPOCH_LENGTH_SECS_def)
  show "accrue_and_flush" by (simp add: accrue_and_flush_def run)
  show "multiple_sessions_same_work_sum" by (simp add: multiple_sessions_same_work_sum_def run)
  show "two_starts_on_same_work_count_two_plays" by (simp add: two_starts_on_same_work_count_two_plays_def run)
  show "sub_minute_usage_dropped" by (simp add: sub_minute_usage_dropped_def run)
  show "add_time_unknown_session_ignored" by (simp add: add_time_unknown_session_ignored_def run)
  show "flush_clears_but_keeps_sessions" by (simp add: flush_clears_but_keeps_sessions_def run)
qed

lemma snapshot_test_passes:
  assumes "\<And>s. is_ok (to_json s)" and "\<And>s raw. to_json s = Inr raw \<Longrightarrow> from_json raw = Inr s"
  shows "state_round_trips_through_json to_json from_json"
proof -
  let ?s = "session_run [Start ''s1'' (work_b 0xA), AddTime ''s1'' 90] (session_new EPOCH_LENGTH_SECS)"
  obtain raw where raw: "to_json ?s = Inr raw" using assms(1) [of ?s] by (auto simp only: is_ok_iff)
  have "ss_epoch ?s = 1 \<and> length (flushed [] ?s) = 1 \<and> ue_minutes (flushed [] ?s ! 0) = 1"
    by (simp add: flushed_def session_flush_def session_step_def session_ops session_new_def epoch_of_def bt_update_def
        bt_get_or_def saturating_add_def Let_def EPOCH_LENGTH_SECS_def)
  then show ?thesis
    by (simp only: state_round_trips_through_json_def raw assms(2) [OF raw] unwrapped_def sum.case Let_def)
qed

lemma placeholder_tests_pass: "generate_records_totals" "verify_checks_scheme_and_count p poseidon_hash"
  by (simp_all add: generate_records_totals_def verify_checks_scheme_and_count_def generate_proof_def verify_proof_def
      usage_of_def saturating_add_def PLACEHOLDER_SCHEME_def)

text \<open>The wallet's own tests hold of the model. For every hash, and every JSON coder that reads back what
  it writes, the unit tests of the session store and of the placeholder proof pass, with their data and
  each of their assertions, on the definitions that model the code.\<close>
theorem wallet_unit_tests_pass:
  assumes "\<And>s. is_ok (to_json s)" and "\<And>s raw. to_json s = Inr raw \<Longrightarrow> from_json raw = Inr s"
  shows "epoch_boundaries \<and> accrue_and_flush \<and> multiple_sessions_same_work_sum \<and> two_starts_on_same_work_count_two_plays
   \<and> sub_minute_usage_dropped \<and> add_time_unknown_session_ignored \<and> flush_clears_but_keeps_sessions
   \<and> state_round_trips_through_json to_json from_json
   \<and> generate_records_totals \<and> verify_checks_scheme_and_count p poseidon_hash"
  using session_store_tests_pass placeholder_tests_pass snapshot_test_passes [of to_json from_json, OF assms] by blast

theorem wallet_unit_tests_pass_witness: "state_round_trips_through_json Inr Inr"
  using wallet_unit_tests_pass [of Inr Inr 0 "\<lambda>_. 0"] by simp

end
