(* ===== verification/PlayerTests.thy ===== *)
theory PlayerTests
  imports Player HubApi IndexTests
begin

text \<open>
  The unit tests of the desktop player (\<open>config.rs\<close>, \<open>policy.rs\<close>, \<open>recognize.rs\<close>, \<open>session.rs\<close> and the
  openings test of \<open>settle.rs\<close> in \<open>clients/player-plugin/src\<close>), of the disclosure file
  (\<open>disclosure.rs\<close>) and of the fingerprint value (\<open>libs/fingerprint\<close>), run on the model. The hub of a
  recognition test is a map from URLs to JSON values; a fingerprint test holds of every fingerprint,
  computed or not. The tests that decode a WAV file, derive an address from a key or compare computed
  fingerprints of synthesized tones are not run: the decoder, the curve and the Fourier transform are
  crates.
\<close>

section \<open>Configuration and price cap\<close>

definition from_map_defaults_and_parses :: "(string \<Rightarrow> string) \<Rightarrow> bool" where
  "from_map_defaults_and_parses in_temp_dir =
     unwrapped (\<lambda>cfg. pc_hub_url cfg = ''http://hub.test'' \<and> pc_threshold cfg = Some 500
         \<and> pc_rpc_url cfg = ''http://127.0.0.1:8545'' \<and> pc_private_key cfg = None)
       (player_config_from_map in_temp_dir (map_of [(''HUB_URL'', ''http://hub.test''), (''THRESHOLD'', ''500'')]))"

definition missing_hub_url_errors :: "(string \<Rightarrow> string) \<Rightarrow> bool" where
  "missing_hub_url_errors in_temp_dir \<longleftrightarrow>
     player_config_from_map in_temp_dir (\<lambda>_. None) = Inl (MissingVar ''HUB_URL'')"

definition bad_threshold_errors :: "(string \<Rightarrow> string) \<Rightarrow> bool" where
  "bad_threshold_errors in_temp_dir \<longleftrightarrow>
     (\<exists>k. player_config_from_map in_temp_dir (\<lambda>k. if k = ''HUB_URL'' then Some ''h'' else if k = ''THRESHOLD'' then Some ''abc'' else None)
        = Inl (InvalidVar k))"

definition threshold_boundaries :: bool where
  "threshold_boundaries \<longleftrightarrow>
     policy_allows 1000000 None \<and> policy_allows 500 (Some 500) \<and> policy_allows 499 (Some 500) \<and> \<not> policy_allows 501 (Some 500)"

section \<open>Recognition\<close>

definition value_api :: "json_value json_api" where
  "value_api = \<lparr>js_null = JArr [], js_get = json_get, js_as_str = (\<lambda>v. case v of JStr s \<Rightarrow> Some s | _ \<Rightarrow> None),
     js_as_u64 = (\<lambda>v. case v of JNum n \<Rightarrow> Some (of_nat n) | _ \<Rightarrow> None)\<rparr>"

definition test_recognizer :: "(u8 list \<Rightarrow> u8 list) \<Rightarrow> ('s list \<Rightarrow> u32 \<Rightarrow> fingerprint) \<Rightarrow> (json_value, 's) recognizer" where
  "test_recognizer keccak256 compute =
     \<lparr>rz_json = value_api, rz_hex_encode = hex_string, rz_keccak256 = keccak256, rz_compute = compute\<rparr>"

definition test_audio :: "'s \<Rightarrow> 's decoded_audio" where
  "test_audio sample = \<lparr>da_bytes = map of_char ''the-song'', da_samples = replicate 200000 sample, da_sample_rate = 44100\<rparr>"

definition content_key :: "(u8 list \<Rightarrow> u8 list) \<Rightarrow> 's \<Rightarrow> string" where
  "content_key keccak256 sample = content_url ''http://h'' (content_id_of hex_string keccak256 (da_bytes (test_audio sample)))"

definition fingerprint_key :: "('s list \<Rightarrow> u32 \<Rightarrow> fingerprint) \<Rightarrow> 's \<Rightarrow> string" where
  "fingerprint_key compute sample = fingerprint_url ''http://h''
     (fp_to_string hex_string (compute (da_samples (test_audio sample)) (da_sample_rate (test_audio sample))))"

definition work_json :: "string \<Rightarrow> nat \<Rightarrow> json_value" where
  "work_json work_id price = JObj [(''work_id'', JStr work_id), (''price_per_min'', JNum price)]"

definition recognized ::
    "(u8 list \<Rightarrow> u8 list) \<Rightarrow> ('s list \<Rightarrow> u32 \<Rightarrow> fingerprint) \<Rightarrow> 's \<Rightarrow> (string \<times> json_value) list \<Rightarrow> resolved_work option" where
  "recognized keccak256 compute sample hub =
     recognize (test_recognizer keccak256 compute) ''http://h'' (test_audio sample) (map_of hub)"

definition prefers_signed :: "(u8 list \<Rightarrow> u8 list) \<Rightarrow> ('s list \<Rightarrow> u32 \<Rightarrow> fingerprint) \<Rightarrow> 's \<Rightarrow> bool" where
  "prefers_signed keccak256 compute sample =
     (case recognized keccak256 compute sample
          [(content_key keccak256 sample, work_json ''0xSIGNED'' 10),
           (fingerprint_key compute sample, JObj [(''candidate'', work_json ''0xFP'' 10)])] of
        None \<Rightarrow> False | Some w \<Rightarrow> rk_work_id w = ''0xSIGNED'' \<and> rk_tier w = SignedTier)"

definition falls_back_to_fingerprint :: "(u8 list \<Rightarrow> u8 list) \<Rightarrow> ('s list \<Rightarrow> u32 \<Rightarrow> fingerprint) \<Rightarrow> 's \<Rightarrow> bool" where
  "falls_back_to_fingerprint keccak256 compute sample =
     (case recognized keccak256 compute sample
          [(fingerprint_key compute sample, JObj [(''candidate'', work_json ''0xFP'' 7)])] of
        None \<Rightarrow> False | Some w \<Rightarrow> rk_work_id w = ''0xFP'' \<and> rk_price_per_min w = 7 \<and> rk_tier w = FingerprintTier)"

definition total_miss_is_none :: "(u8 list \<Rightarrow> u8 list) \<Rightarrow> ('s list \<Rightarrow> u32 \<Rightarrow> fingerprint) \<Rightarrow> 's \<Rightarrow> bool" where
  "total_miss_is_none keccak256 compute sample \<longleftrightarrow> recognized keccak256 compute sample [] = None"

section \<open>Session and settlement\<close>

definition played :: "player_state \<Rightarrow> player_state" where
  "played st = session_accrue hex_string (Bytes32 (filled 2)) 200 True (session_accrue hex_string (Bytes32 (filled 1)) 130 False st)"

definition persists_across_invocations :: "(player_state \<Rightarrow> string + 'f) \<Rightarrow> ('f \<Rightarrow> string + player_state) \<Rightarrow> bool" where
  "persists_across_invocations to_json from_json =
     unwrapped (\<lambda>s. unwrapped (\<lambda>steps.
          case foldl (\<lambda>d step. disk_step step d) Map.empty steps ''sess.json'' of
            None \<Rightarrow> False
          | Some raw \<Rightarrow> unwrapped (\<lambda>s2. case snapshot_view s2 of (epoch, work_secs, bound) \<Rightarrow>
                epoch = 0 \<and> (Bytes32 (filled 1), 130) \<in> set work_secs \<and> (Bytes32 (filled 2), 200) \<in> set work_secs
                \<and> bound = [Bytes32 (filled 2)]) (session_load from_json (Content raw) 0))
          (session_save to_json ''sess.json'' (played s)))
       (session_load from_json NotFound 0)"

definition flush_and_take :: "('f \<Rightarrow> string + player_state) \<Rightarrow> bool" where
  "flush_and_take from_json =
     unwrapped (\<lambda>s. case flush_usage (played s) of (usage, s1) \<Rightarrow>
          map_option ue_minutes (List.find (\<lambda>u. ue_work_id u = Bytes32 (filled 1)) usage) = Some 2
          \<and> (case take_escrow_works s1 of (bound, s2) \<Rightarrow>
                bound = [Bytes32 (filled 2)] \<and> fst (take_escrow_works s2) = []))
       (session_load from_json NotFound 0)"

definition load_corrupt_file_returns_parse_error :: "('f \<Rightarrow> string + player_state) \<Rightarrow> 'f \<Rightarrow> bool" where
  "load_corrupt_file_returns_parse_error from_json corrupt \<longleftrightarrow>
     (\<exists>e. session_load from_json (Content corrupt) 0 = Inl (SessionParse e))"

definition openings_commit_matches :: "int \<Rightarrow> (fr list \<Rightarrow> fr) \<Rightarrow> bool" where
  "openings_commit_matches p poseidon_hash =
     (let salt = Bytes32 (filled 9);
          openings = build_openings [\<lparr>ue_work_id = Bytes32 (filled 7), ue_minutes = 4, ue_plays = 2\<rparr>] (\<lambda>_. salt)
      in length openings = 1 \<and> op_minutes (openings ! 0) = 4 \<and> op_plays (openings ! 0) = 2
         \<and> opening_commit p poseidon_hash (openings ! 0)
           = opening_commit p poseidon_hash \<lparr>op_work_id = Bytes32 (filled 7), op_minutes = 4, op_plays = 2, op_salt = salt\<rparr>)"

definition disclosure_json_and_lookup :: "(disclosure \<Rightarrow> string + 'f) \<Rightarrow> ('f \<Rightarrow> string + disclosure) \<Rightarrow> bool" where
  "disclosure_json_and_lookup to_json from_json =
     unwrapped (\<lambda>raw. unwrapped (\<lambda>back. for_user back ''0xABC'' \<noteq> None
           \<and> map_option (\<lambda>os. op_minutes (os ! 0)) (for_user back ''0xabc'') = Some 30) (from_json raw))
       (to_json \<lparr>dc_users = bt_insert ''0xabc'' [\<lparr>op_work_id = Bytes32 (filled 1), op_minutes = 30, op_plays = 1,
            op_salt = Bytes32 (filled 2)\<rparr>] [], dc_escrow_works = []\<rparr>)"

section \<open>Fingerprints\<close>

definition compare_bounds :: "fingerprint \<Rightarrow> bool" where
  "compare_bounds a \<longleftrightarrow> compare_fp a a = 1"

definition hex_round_trip :: "fingerprint \<Rightarrow> bool" where
  "hex_round_trip a = unwrapped (\<lambda>b. b = a) (fp_parse decode_hex (fp_to_string hex_string a))"

section \<open>The tests hold\<close>

lemma player_config_tests_pass:
  "from_map_defaults_and_parses in_temp_dir" "missing_hub_url_errors in_temp_dir" "bad_threshold_errors in_temp_dir"
  "threshold_boundaries"
proof -
  have parsed: "parse_u64 ''500'' = Some 500" "parse_u64 ''abc'' = None" by code_simp+
  show "from_map_defaults_and_parses in_temp_dir"
    by (simp add: from_map_defaults_and_parses_def unwrapped_def player_config_from_map_def or_default_def parsed)
  show "missing_hub_url_errors in_temp_dir"
    by (simp add: missing_hub_url_errors_def player_config_from_map_def)
  show "bad_threshold_errors in_temp_dir"
    by (simp add: bad_threshold_errors_def player_config_from_map_def parsed)
  show "threshold_boundaries" by (simp add: threshold_boundaries_def policy_allows_def)
qed

lemma recognition_tests_pass:
  "prefers_signed keccak256 compute sample" "falls_back_to_fingerprint keccak256 compute sample"
  "total_miss_is_none keccak256 compute sample"
proof -
  have base: "trim_end_slash ''http://h'' = ''http://h''" by code_simp
  have other: "content_key keccak256 sample \<noteq> fingerprint_key compute sample"
    by (simp add: content_key_def fingerprint_key_def content_url_def fingerprint_url_def)
  note run = recognized_def recognize_def test_recognizer_def base Let_def parse_work_def value_api_def work_json_def or_default_def
  have urls: "content_url ''http://h'' (content_id_of hex_string keccak256 (da_bytes (test_audio sample))) = content_key keccak256 sample"
    "fingerprint_url ''http://h'' (fp_to_string hex_string
       (compute (da_samples (test_audio sample)) (da_sample_rate (test_audio sample)))) = fingerprint_key compute sample"
    by (simp_all add: content_key_def fingerprint_key_def)
  show "prefers_signed keccak256 compute sample"
    by (simp add: prefers_signed_def run urls)
  show "falls_back_to_fingerprint keccak256 compute sample"
    using other by (simp add: falls_back_to_fingerprint_def run urls)
  show "total_miss_is_none keccak256 compute sample" by (simp add: total_miss_is_none_def run)
qed

lemma played_fresh:
  "played \<lparr>ps_session = session_new 0, ps_escrow = []\<rparr> =
     \<lparr>ps_session = \<lparr>ss_epoch = 0, per_work_secs = [(Bytes32 (filled 1), 130), (Bytes32 (filled 2), 200)],
        per_work_plays = [(Bytes32 (filled 1), 1), (Bytes32 (filled 2), 1)], ss_active = []\<rparr>, ps_escrow = [Bytes32 (filled 2)]\<rparr>"
  by (simp add: played_def session_accrue_def session_new_def session_start_def session_add_time_def session_stop_def Let_def
      bt_update_def bt_get_or_def saturating_add_def epoch_of_def)

lemma session_tests_pass:
  assumes "\<And>s. is_ok (to_json s)" and "\<And>s raw. to_json s = Inr raw \<Longrightarrow> from_json raw = Inr s"
  shows "persists_across_invocations to_json from_json" "flush_and_take from_json"
proof -
  let ?s = "played \<lparr>ps_session = session_new 0, ps_escrow = []\<rparr>"
  have fresh: "session_load from_json NotFound 0 = Inr \<lparr>ps_session = session_new 0, ps_escrow = []\<rparr>"
    by (simp add: session_load_def)
  obtain raw where raw: "to_json ?s = Inr raw" using assms(1) [of ?s] by (auto simp only: is_ok_iff)
  have ext: "with_extension ''sess.json'' ''tmp'' = ''sess.tmp''" by code_simp
  have disk: "foldl (\<lambda>d step. disk_step step d) Map.empty (save_steps ''sess.json'' raw) ''sess.json'' = Some raw"
    by (simp add: save_steps_def disk_step_def ext Let_def)
  show "persists_across_invocations to_json from_json"
    unfolding persists_across_invocations_def fresh unwrapped_def sum.case session_save_def raw map_err_simps res_bind_simps disk option.case
    using assms(2) [OF raw]
    by (simp add: session_load_def played_fresh snapshot_view_def)
  show "flush_and_take from_json"
    by (simp add: flush_and_take_def unwrapped_def fresh played_fresh flush_usage_def session_flush_def take_escrow_works_def)
qed

lemma settle_file_tests_pass:
  assumes "\<And>s. is_ok (to_json s)" and "\<And>s raw. to_json s = Inr raw \<Longrightarrow> from_json raw = Inr s"
  shows "openings_commit_matches p poseidon_hash" "disclosure_json_and_lookup to_json from_json"
proof -
  show "openings_commit_matches p poseidon_hash" by (simp add: openings_commit_matches_def build_openings_def)
  let ?d = "\<lparr>dc_users = bt_insert ''0xabc'' [\<lparr>op_work_id = Bytes32 (filled 1), op_minutes = 30, op_plays = 1,
            op_salt = Bytes32 (filled 2)\<rparr>] [], dc_escrow_works = []\<rparr>"
  obtain raw where raw: "to_json ?d = Inr raw" using assms(1) [of ?d] by (auto simp only: is_ok_iff)
  have lower: "to_ascii_lowercase ''0xABC'' = ''0xabc''" "to_ascii_lowercase ''0xabc'' = ''0xabc''" by code_simp+
  show "disclosure_json_and_lookup to_json from_json"
    unfolding disclosure_json_and_lookup_def raw unwrapped_def sum.case assms(2) [OF raw] by (simp add: for_user_def lower)
qed

lemma fingerprint_tests_pass:
  assumes "fp_ok a"
  shows "compare_bounds a" "hex_round_trip a"
proof -
  have "foldl (\<lambda>diff i. diff + count_ones (0 :: u32)) d is = d" for d and "is" :: "nat list"
    by (induction "is") (simp_all add: count_ones_def)
  then show "compare_bounds a" by (simp add: compare_bounds_def compare_fp_def differing_def)
  show "hex_round_trip a" using sized_hex.parse_to_string [OF assms] by (simp add: hex_round_trip_def unwrapped_def)
qed

text \<open>The player's own tests hold of the model. For every digest, every fingerprint analysis, every JSON
  coder that reads back what it writes, and every file the coder refuses, the unit tests of the player's
  configuration, price cap, recognition, session and openings, of the disclosure file and of the
  fingerprint value pass, with their data and each of their assertions, on the definitions that model
  the code.\<close>
theorem player_unit_tests_pass:
  assumes "\<And>s. is_ok (state_json s)" and "\<And>s raw. state_json s = Inr raw \<Longrightarrow> read_state raw = Inr s"
    and "\<And>d. is_ok (disclosure_json d)" and "\<And>d raw. disclosure_json d = Inr raw \<Longrightarrow> read_disclosure raw = Inr d"
    and "read_state corrupt = Inl e" and "fp_ok a"
  shows "from_map_defaults_and_parses in_temp_dir \<and> missing_hub_url_errors in_temp_dir \<and> bad_threshold_errors in_temp_dir
   \<and> threshold_boundaries
   \<and> prefers_signed keccak256 compute sample \<and> falls_back_to_fingerprint keccak256 compute sample
   \<and> total_miss_is_none keccak256 compute sample
   \<and> persists_across_invocations state_json read_state \<and> flush_and_take read_state
   \<and> load_corrupt_file_returns_parse_error read_state corrupt
   \<and> openings_commit_matches p poseidon_hash \<and> disclosure_json_and_lookup disclosure_json read_disclosure
   \<and> compare_bounds a \<and> hex_round_trip a"
proof -
  have "load_corrupt_file_returns_parse_error read_state corrupt"
    using assms(5) by (simp add: load_corrupt_file_returns_parse_error_def session_load_def)
  then show ?thesis
    by (simp only: player_config_tests_pass recognition_tests_pass session_tests_pass [of state_json read_state, OF assms(1,2)]
        settle_file_tests_pass [of disclosure_json read_disclosure, OF assms(3,4)] fingerprint_tests_pass [OF assms(6)] simp_thms)
qed

theorem player_unit_tests_pass_witness:
  "persists_across_invocations (\<lambda>s. Inr (Some s)) (\<lambda>raw. case raw of Some s \<Rightarrow> Inr s | None \<Rightarrow> Inl ''not json'')"
proof -
  have "fp_ok (Fingerprint (replicate 32 0))" by (simp add: fp_ok_def FRAMES_def)
  from player_unit_tests_pass [where state_json = "\<lambda>s. Inr (Some s)" and disclosure_json = Inr and read_disclosure = Inr
      and read_state = "\<lambda>raw. case raw of Some s \<Rightarrow> Inr s | None \<Rightarrow> Inl ''not json''" and corrupt = None
      and in_temp_dir = "\<lambda>s. s" and ?keccak256.0 = "\<lambda>bs. bs" and compute = "\<lambda>_ _. Fingerprint []" and sample = "()" and p = 0
      and poseidon_hash = "\<lambda>_. 0" and e = "''not json''", OF _ _ _ _ _ this]
  show ?thesis by simp
qed

end
