(* ===== verification/Spec2Isabelle.thy ===== *)
theory Spec2Isabelle
  imports Dapr Settle Circuit Wallet Credibility Storage Epoch Hub Player BandwidthClient ZkSubmit AntiFraud
    Fixtures Browser Shell KeyTools Acoustic HubApi Media Services Journey Registry Payouts DaprTests SettleTests
    ReceiptTests IndexTests HubTests StorageTests CircuitTests WalletTests PlayerTests
begin

text \<open>
  The Clean Web Economy, a verification development.

  Listeners pay a flat fee per epoch. Their players and browsers record what they play, commit to it,
  prove its weight in zero knowledge and submit the proof to a contract; storage nodes and listeners
  sign receipts of the bytes served; at the end of the epoch a settlement job checks what was submitted,
  splits every fee over the works its payer used, and commits the payouts as a Merkle root. A discovery
  hub maps content ids and acoustic fingerprints to works registered on chain. The Rust workspace under
  \<open>src\<close> is modelled crate by crate; paths below are relative to it.

  \<^bold>\<open>Theories and the code they model.\<close>

  Shared: \<open>Prelude\<close> (machine integers as words, \<open>Result\<close> as a sum with \<open>?\<close> as a bind, loops as folds),
  \<open>BTree\<close> (\<open>BTreeMap\<close> and \<open>BTreeSet\<close> as strictly ascending association lists, the locale
  \<open>ordered_map\<close>), \<open>Hex\<close> (base-16 text, the locale \<open>hex_codec\<close>), \<open>Bytes32\<close>
  (\<open>libs/wallet-zk/src/lib.rs\<close>), \<open>Job\<close> (computations with recorded effects).

  Payouts: \<open>Dapr\<close> (\<open>sims/src/lib.rs\<close>), \<open>AntiFraud\<close> (\<open>sims/src/bin\<close>), \<open>Fixtures\<close>
  (\<open>sims/tests\<close> and \<open>sims/fixtures\<close>).

  Settlement: \<open>Merkle\<close>, \<open>Settle\<close>, \<open>Credibility\<close>, \<open>Epoch\<close> (\<open>merkle.rs\<close>, \<open>settle.rs\<close>,
  \<open>receipts.rs\<close>, and \<open>config.rs\<close>, \<open>disclosure.rs\<close>, \<open>chain.rs\<close> of
  \<open>services/settlement/src\<close>).

  Usage proofs: \<open>Zk\<close> and \<open>Circuit\<close> (\<open>libs/zk-circuits/src\<close>), \<open>ZkSubmit\<close>
  (\<open>bin/zk_submit.rs\<close> and \<open>CWEConsumption.sol\<close>), \<open>KeyTools\<close> (\<open>setup.rs\<close>,
  \<open>bin/export_keys.rs\<close>, \<open>bin/gen_verifier.rs\<close>).

  Delivery: \<open>Receipt\<close> (\<open>libs/receipt\<close>), \<open>Storage\<close> (\<open>services/storage/src/lib.rs\<close>),
  \<open>BandwidthClient\<close> (its \<open>bin/bandwidth_client.rs\<close>).

  Discovery: \<open>Fingerprint\<close> and \<open>Acoustic\<close> (\<open>libs/fingerprint\<close>), \<open>HubIndex\<close>, \<open>Hub\<close> and
  \<open>HubApi\<close> (\<open>services/discovery-hub/src\<close>).

  Listeners: \<open>Wallet\<close> (\<open>libs/wallet-zk/src\<close>), \<open>Player\<close> and \<open>Media\<close>
  (\<open>clients/player-plugin/src\<close>), \<open>Browser\<close> (\<open>clients/browser-ext/core/src\<close>) and \<open>Shell\<close>, the service
  worker that calls it (\<open>clients/browser-ext/src/background.js\<close>, \<open>policy.js\<close>).

  Contracts the Rust code meets on chain: \<open>Registry\<close> (\<open>chain/contracts/CWERegistry.sol\<close>) and
  \<open>Payouts\<close> (\<open>CWEPayouts.sol\<close>, \<open>utils/MerkleProof.sol\<close>).

  Process entry points of the three services: \<open>Services\<close>. \<open>Journey\<close> follows what a listener
  plays through disclosure and settlement to the payment. This theory composes the other parts: from
  the circuit to the payment, and from the registry through the hub to what a play accrues to.

  Unit tests: \<open>DaprTests\<close> (\<open>sims/src/lib.rs\<close>), \<open>SettleTests\<close> and \<open>ReceiptTests\<close> (the
  payout tree, settlement, receipts and their credibility), \<open>IndexTests\<close> and \<open>HubTests\<close> (the
  discovery hub), \<open>StorageTests\<close>, \<open>CircuitTests\<close> (\<open>libs/zk-circuits\<close>), \<open>WalletTests\<close>,
  \<open>PlayerTests\<close>. Each test of the \<open>tests\<close> modules is a definition with its data and assertions, and
  a theorem per theory says that all of them hold of the model: what the code was tested on, the
  definitions reproduce. A random signer is a byte and its signature carries it with the message, so
  that it recovers on that message only; a temporary directory is a function from names.

  \<^bold>\<open>Correspondence.\<close> A struct is a record, an enum a datatype, a map an ascending association list, a
  \<open>u64\<close> or \<open>u128\<close> a word, and checked, saturating and wrapping operations are kept apart. A
  handler returns the changed state with its answer; a binary that writes or sends returns the list of
  effects that happened with its result; the storage node, the hub and the contracts are step relations
  over requests, polls, disconnections, restarts and transactions, and their properties hold of every run. Names are the code's; a
  suffix or prefix is added where a name is taken.

  \<^bold>\<open>What the lemmas show.\<close> \<open>Dapr\<close>: the allocation succeeds under stated bounds, loses no unit, is
  the payout formula with largest-remainder shares, and keeps users apart; \<open>AntiFraud\<close> and
  \<open>Fixtures\<close> draw the consequences the demonstrations and the committed oracles claim. \<open>Merkle\<close>,
  \<open>Settle\<close>, \<open>Epoch\<close>: proofs verify, and only those of payments the tree was built from do as long as the
  hashes used do not collide; the published entries and escrow items add up to the fees; a run pays exactly the
  genuine submissions and its effects are a prefix of one plan. \<open>Circuit\<close>, \<open>Zk\<close>,
  \<open>ZkSubmit\<close>, \<open>KeyTools\<close>: a satisfied circuit means the stated weights, the prover's assignment
  satisfies it, the generated contract evaluates the Groth16 equation of the saved key, an honest
  submission is recorded and paid. \<open>Storage\<close>, \<open>BandwidthClient\<close>, \<open>Credibility\<close>: a receipt
  needs a complete delivery, an honest download is credited to the byte, replays earn nothing.
  \<open>HubIndex\<close>, \<open>Hub\<close>, \<open>HubApi\<close>, \<open>Acoustic\<close>: the index holds what the registry
  vouched for, resolves exactly, survives restarts, and matches its published document. \<open>Wallet\<close>,
  \<open>Player\<close>, \<open>Browser\<close>, \<open>Shell\<close>: seconds and plays are accounted for across sessions, and across stops
  of the browser's worker between any two of its writes; the player discloses usage before it drains it,
  the browser's worker does not, and a failed transaction loses the usage there.

  \<^bold>\<open>Interfaces.\<close> The locales are \<open>ordered_map\<close>, \<open>hex_codec\<close> and its extension
  \<open>sized_hex_codec\<close>, \<open>unordered_pairing\<close> (the sibling hash of the tree) and \<open>exact_split\<close>
  (a division of an amount into shares), each interpreted on the code's own operations.

  \<^bold>\<open>Bounds and termination.\<close> There is no fuel: every loop is a fold over data or a \<open>function\<close> with
  a measure (the polls of a delivery stream, the frames of a clip, the digits of a number). Where the
  code can overflow, the property states the bound: fees times weights below \<open>2 ^ 128\<close> in
  \<open>Dapr\<close>, weights below \<open>2 ^ 128\<close> in a submission, 16 rows and 64 plays in the circuit.

  \<^bold>\<open>Parameters.\<close> Code that is not in the repository is an argument: keccak256, SHA-256 and Poseidon,
  signatures and key parsing (alloy), canonical JSON and other codecs (serde), Groth16 (arkworks), the
  Fourier transform (rustfft) and floating-point arithmetic, media containers (symphonia), contract
  calls over RPC, the file system, the clock and the environment. What a property needs of them is a
  hypothesis of that property, and its witness instantiates it.

  \<^bold>\<open>Not modelled.\<close> Printed lines; the schemas derived by utoipa; the transport of axum, its routing of
  malformed requests, and locking (a handler is one step); the sine of the test tone; load balancing of
  the RPC provider; the remaining contracts (\<open>CWEEscrow\<close>, \<open>CWETiers\<close>, \<open>CWEIdentity\<close>,
  \<open>CWEJury\<close> and others), which settlement reaches only through the calls that are parameters, and the
  extension's other JavaScript (its hub client, content script and popup), which are not Rust, and messages
  its worker handles at the same time; the unit tests of values that only a crate
  computes: JSON text, decoded WAV files, fingerprints of synthesized tones, Poseidon hashes of given
  inputs, addresses of given keys, generated proving keys. A failed write of the hub's snapshot leaves the file as it was or torn, and a torn
  file is taken not to load; a crash of the operating system during a write is not modelled. Texts are ASCII.
\<close>

section \<open>From the circuit to the payment\<close>

definition hashed_rows :: "primitives \<Rightarrow> b32 \<Rightarrow> submission \<Rightarrow> public_row list" where
  "hashed_rows pm k_epoch ev =
     pad_to MAX_WORKS (public_row_of (padded_row (pm_modulus pm) (pm_poseidon pm) k_epoch)) (submission_rows ev)"

lemma genuine_digest:
  "genuine pm epoch k_epoch ev \<Longrightarrow>
     same_lengths ev \<and> length (ev_work_ids ev) \<le> MAX_WORKS \<and> length (hashed_rows pm k_epoch ev) = MAX_WORKS
     \<and> ev_digest ev = digest (pm_modulus pm) (pm_poseidon pm) epoch (ev_tier ev) k_epoch (hashed_rows pm k_epoch ev)"
  by (auto simp: genuine_def digest_from_active_def Let_def hashed_rows_def pad_to_def length_submission_rows
      split: if_splits)

text \<open>C3: what is paid was proven. Let a submission pass re-verification, and let any field elements
  satisfy the circuit for its digest, as the on-chain verifier checks. Unless these elements exhibit a
  second Poseidon preimage of that digest, the epoch key and every row agree: a paid weight is the
  weight of the row's variables, so it is zero or equals minutes, price, region and the diminishing
  multiplier of a play count between 1 and 64 multiplied out over one million, for the commitment
  behind the row's pseudonym; the work is the row's work in the field; and no two weighted rows name
  the same work.\<close>
theorem paid_weights_are_proven:
  assumes "2 ^ 253 < pm_modulus pm" and "pm_modulus pm \<le> 2 ^ 256"
    and "hash_in_field (pm_modulus pm) (pm_poseidon pm)"
    and "genuine pm epoch k_epoch ev" and "in_range ev"
    and "\<And>v. v \<in> set rows \<Longrightarrow> field_row (pm_modulus pm) v"
    and "generate_constraints (pm_modulus pm) (pm_poseidon pm)
           (fr_from_bytes32 (pm_modulus pm) (ev_digest ev)) k ep ti rows"
    and "pm_poseidon pm (digest_preimage ep ti k rows)
           = pm_poseidon pm (digest_inputs (pm_modulus pm) epoch (ev_tier ev) k_epoch (hashed_rows pm k_epoch ev))
         \<Longrightarrow> digest_preimage ep ti k rows
           = digest_inputs (pm_modulus pm) epoch (ev_tier ev) k_epoch (hashed_rows pm k_epoch ev)"
    and "i < length (ev_work_ids ev)"
  shows "k = fr_from_bytes32 (pm_modulus pm) k_epoch
       \<and> uint (ev_weights ev ! i) = rv_weight (rows ! i)
       \<and> fr_from_bytes32 (pm_modulus pm) (ev_work_ids ev ! i) = rv_work_id (rows ! i)
       \<and> fr_from_bytes32 (pm_modulus pm) (ev_pseudonyms ev ! i) = rv_pseudonym (rows ! i)
       \<and> (if rv_active (rows ! i) then row_statement (pm_poseidon pm) k (rows ! i) else ev_weights ev ! i = 0)
       \<and> distinct (map rv_work_id (List.filter rv_active rows))"
proof -
  let ?p = "pm_modulus pm" and ?H = "pm_poseidon pm" and ?pub = "hashed_rows pm k_epoch ev"
  note g = genuine_digest [OF assms(4)]
  have "(2::int) ^ 128 < 2 ^ 253" by simp
  then have big: "2 ^ 128 < ?p" using assms(1) by (rule less_trans)
  have len: "length rows = MAX_WORKS" and dg: "fr_from_bytes32 ?p (ev_digest ev) = ?H (digest_preimage ep ti k rows)"
    using assms(7) by (auto simp: generate_constraints_def)
  have "fr_from_bytes32 ?p (ev_digest ev) = ?H (digest_inputs ?p epoch (ev_tier ev) k_epoch ?pub)"
    using g unfolding digest_def by (metis hash_round_trip [OF assms(3,2)])
  with dg have pre: "digest_preimage ep ti k rows = digest_inputs ?p epoch (ev_tier ev) k_epoch ?pub"
    by (intro assms(8)) (rule trans [OF sym])
  have i: "i < length rows" "i < length (submission_rows ev)" using g assms(9) len by (auto simp: length_submission_rows)
  note row = preimage_rows [OF pre _ i(1)]
  have pub: "?pub ! i = \<lparr>pr_work_id = ev_work_ids ev ! i, pr_commitment = replicate 32 0,
      pr_pseudonym = ev_pseudonyms ev ! i, pr_weight = ucast (ev_weights ev ! i)\<rparr>"
    using i g assms(9) by (simp add: hashed_rows_def pad_to_def nth_append submission_rows_def same_lengths_def)
  have w: "unat (ev_weights ev ! i) < 2 ^ 128"
    using assms(5,9) g by (auto simp: in_range_def list_all_length same_lengths_def)
  then have "uint (ev_weights ev ! i) < 2 ^ 128" unfolding uint_lt_iff .
  have wt: "uint (ucast (ev_weights ev ! i) :: u128) = uint (ev_weights ev ! i)"
  proof -
    have "unat (ev_weights ev ! i) < 2 ^ LENGTH(128)" using w by simp
    from unat_ucast_exact [OF this] show ?thesis by (metis uint_nat)
  qed
  have "fr_from_u128 ?p (ucast (ev_weights ev ! i)) = uint (ev_weights ev ! i)"
  proof -
    have "uint (ev_weights ev ! i) < pm_modulus pm"
      using \<open>uint (ev_weights ev ! i) < 2 ^ 128\<close> big by (rule less_trans)
    then show ?thesis using fr_u128_exact [of "ucast (ev_weights ev ! i)" ?p] unfolding wt by blast
  qed
  with row pub g len have weight: "rv_weight (rows ! i) = uint (ev_weights ev ! i)" by simp
  from circuit_sound [OF assms(1,6,7)] i(1)
  have "if rv_active (rows ! i) then row_statement ?H k (rows ! i) else rv_weight (rows ! i) = 0 \<and> rv_work_id (rows ! i) = 0"
    and "distinct (map rv_work_id (List.filter rv_active rows))" by auto
  with row pub g len weight show ?thesis by (auto simp: uint_0_iff split: if_splits)
qed

definition proven_prims :: primitives where
  "proven_prims = ex_prims\<lparr>pm_modulus := bn254_modulus, pm_poseidon := sum_hash\<rparr>"

definition proven_circuit :: usage_circuit where
  "proven_circuit = prove_circuit bn254_modulus sum_hash 3 [1] [2] 1000000 [ex_input]"

definition proven_row :: public_row where
  "proven_row = public_row_of (active_row bn254_modulus sum_hash [2] 1000000 ex_input)"

definition proven_submission :: submission where
  "proven_submission = \<lparr>ev_user = ''0xaa'', ev_tier = [1], ev_digest = uc_digest proven_circuit,
     ev_pseudonyms = [pr_pseudonym proven_row], ev_work_ids = [pr_work_id proven_row],
     ev_weights = [ucast (pr_weight proven_row)]\<rparr>"

lemma proven_hashed:
  "digest_inputs bn254_modulus 3 [1] [2] (hashed_rows proven_prims [2] proven_submission)
     = digest_inputs bn254_modulus 3 [1] [2] (map public_row_of (uc_rows proven_circuit))"
proof -
  have "ucast (ucast (pr_weight proven_row) :: u256) = pr_weight proven_row"
    by (rule ucast_up_ucast_id) (simp add: is_up)
  then show ?thesis
    by (simp add: hashed_rows_def proven_prims_def proven_submission_def submission_rows_def proven_circuit_def
        prove_circuit_def Let_def pad_to_def digest_inputs_def proven_row_def)
qed

lemma proven_preimage:
  "digest_preimage (fr_from_u128 bn254_modulus (ucast (3 :: u64))) (fr_from_bytes32 bn254_modulus [1])
      (fr_from_bytes32 bn254_modulus [2]) (map (assign_row bn254_modulus) (uc_rows proven_circuit))
     = digest_inputs bn254_modulus 3 [1] [2] (map public_row_of (uc_rows proven_circuit))"
  by (simp add: digest_preimage_def digest_inputs_def assign_row_def public_row_of_def Let_def comp_def)

lemma proven_genuine: "genuine proven_prims 3 [2] proven_submission" "in_range proven_submission"
proof -
  have "digest_from_active bn254_modulus sum_hash 3 [1] [2] (submission_rows proven_submission)
      = Inr (digest bn254_modulus sum_hash 3 [1] [2] (hashed_rows proven_prims [2] proven_submission))"
    by (simp add: digest_from_active_def hashed_rows_def proven_prims_def submission_rows_def proven_submission_def
        MAX_WORKS_def)
  then show "genuine proven_prims 3 [2] proven_submission"
    unfolding digest_def proven_hashed
    by (simp add: genuine_def proven_prims_def same_lengths_def proven_submission_def)
      (simp add: proven_circuit_def prove_circuit_def Let_def digest_def)
  show "in_range proven_submission"
    using u128_lt by (simp add: in_range_def proven_submission_def MAX_WORKS_def unat_u128_u256)
qed

theorem paid_weights_are_proven_witness:
  "let v = assign_row bn254_modulus (active_row bn254_modulus sum_hash [2] 1000000 ex_input)
   in uint (ev_weights proven_submission ! 0) = rv_weight v
      \<and> row_statement sum_hash (fr_from_bytes32 bn254_modulus [2]) v"
proof -
  let ?rows = "map (assign_row bn254_modulus) (uc_rows proven_circuit)"
  let ?v = "assign_row bn254_modulus (active_row bn254_modulus sum_hash [2] 1000000 ex_input)"
  have prims: "pm_modulus proven_prims = bn254_modulus" "pm_poseidon proven_prims = sum_hash"
    by (simp_all add: proven_prims_def)
  have ctx: "uc_k_epoch proven_circuit = [2]" "uc_epoch proven_circuit = 3" "uc_tier proven_circuit = [1]"
      "ev_tier proven_submission = [1]" "ev_digest proven_submission = uc_digest proven_circuit"
      "length (ev_work_ids proven_submission) = 1"
    by (simp_all add: proven_circuit_def prove_circuit_def Let_def proven_submission_def)
  have row: "?rows ! 0 = ?v" "rv_active ?v"
    by (simp_all add: proven_circuit_def prove_circuit_def Let_def pad_to_def assign_row_def active_row_def)
  have sat: "circuit_satisfied bn254_modulus sum_hash proven_circuit"
    unfolding proven_circuit_def by (rule circuit_complete [OF ex_field]) (simp_all add: ex_provable MAX_WORKS_def)
  have "\<And>v. v \<in> set ?rows \<Longrightarrow> field_row bn254_modulus v"
    using assign_row_in_field [of bn254_modulus] by (auto simp: bn254_modulus_def)
  from paid_weights_are_proven [of proven_prims 3 "[2]" proven_submission ?rows _ _ _ 0, unfolded prims ctx,
      OF ex_field proven_genuine [unfolded ctx] this sat [unfolded circuit_satisfied_def ctx]]
  show ?thesis by (simp add: proven_preimage [simplified] proven_hashed row Let_def del: map_map)
qed

section \<open>From the registry to the player\<close>

lemma play_accrued:
  assumes "cmd_play w send path [] = (effects, Inr (Accrued work secs))" and "load_config w = Inr cfg"
  shows "\<exists>audio wid st. pw_decode w path = Inr audio \<and> secs = duration_secs audio
     \<and> recognize (pw_recognizer w) (pc_hub_url cfg) audio (pw_get_json w) = Some work
     \<and> policy_allows (rk_price_per_min work) (pc_threshold cfg)
     \<and> bytes32_from_str (pw_hex_decode w) (rk_work_id work) = Inr wid \<and> load_session w cfg = Inr st
     \<and> effects = [SaveState (pc_state_path cfg)
          (session_accrue (rz_hex_encode (pw_recognizer w)) wid secs (rk_tier work = FingerprintTier) st)]"
  using assms
  by (auto simp: cmd_play_def result_simps Let_def split: option.splits if_splits)

lemma decoded_id:
  assumes "hex_codec enc dec" and "bytes32_from_str dec (bytes32_to_string enc b) = Inr wid"
  shows "wid = b"
  using assms(2) unfolding bytes32_from_str_def bytes32_to_string_def Let_def hex_codec.decode_prefixed [OF assms(1)]
  by (cases b) (simp split: if_splits)

text \<open>C15: what a play accrues to. With a hub that has run from its start behind the player, whatever was
  posted to it, every play that accrues does so to an indexed work whose manifest the registry vouched
  for when it was posted, under the price the registry gave, which the listener's cap allows: the work
  registered with exactly the content id of the file's bytes, or, only when no work has that id, one
  whose fingerprint is more similar than the threshold, and then it is marked for escrow.\<close>
theorem accrued_work_is_registered:
  assumes "\<And>ix json. he_to_json env ix = Inr json \<Longrightarrow> he_from_json env json = Inr ix"
    and "hub_run env tr hub" and "pw_get_json w = hub_get_json env resolved_json candidate_json (hb_index hub)
           (trim_end_slash (pc_hub_url cfg))"
    and "sized_hex_codec (rz_hex_encode rz) (he_hex_decode env)"
    and "pw_recognizer w = rz" and "pw_hex_decode w = he_hex_decode env"
    and "\<And>bs. length (rz_keccak256 rz bs) = 32" and "\<And>samples rate. fp_ok (rz_compute rz samples rate)"
    and "\<And>r. shows_work (rz_hex_encode rz) (rz_json rz) (resolved_json r) (rs_work_id r) (rs_price_per_min r)"
    and "\<And>s sim. \<exists>v. js_get (rz_json rz) (candidate_json (s, sim)) ''candidate'' = Some v
           \<and> shows_work (rz_hex_encode rz) (rz_json rz) v (su_work_id s) (su_price_per_min s)"
    and "cmd_play w send path [] = (effects, Inr (Accrued work secs))" and "load_config w = Inr cfg"
  shows "\<exists>m audio st. vouched env tr m \<and> pw_decode w path = Inr audio \<and> secs = duration_secs audio
       \<and> load_session w cfg = Inr st
       \<and> effects = [SaveState (pc_state_path cfg)
            (session_accrue (rz_hex_encode rz) (wm_work_id m) secs (rk_tier work = FingerprintTier) st)]
       \<and> policy_allows (wm_price_per_min m) (pc_threshold cfg)
       \<and> (case rk_tier work of
            SignedTier \<Rightarrow> found_by_content (hb_index hub) (Bytes32 (rz_keccak256 rz (da_bytes audio))) m
          | FingerprintTier \<Rightarrow>
              found_by_fingerprint (he_hex_decode env) (hb_index hub)
                (rz_compute rz (da_samples audio) (da_sample_rate audio)) m
              \<and> \<not> (\<exists>m'. found_by_content (hb_index hub) (Bytes32 (rz_keccak256 rz (da_bytes audio))) m'))"
proof -
  from hub_run_vouched [OF assms(1,2)] have v: "index_vouched env tr (hb_index hub)" by blast
  then have ok: "index_ok (he_hex_decode env) (hb_index hub)" by (simp add: index_vouched_def)
  from play_accrued [OF assms(11,12)] obtain audio wid st where play: "pw_decode w path = Inr audio"
      "secs = duration_secs audio" "recognize rz (pc_hub_url cfg) audio (pw_get_json w) = Some work"
      "policy_allows (rk_price_per_min work) (pc_threshold cfg)"
      "bytes32_from_str (he_hex_decode env) (rk_work_id work) = Inr wid" "load_session w cfg = Inr st"
      "effects = [SaveState (pc_state_path cfg)
          (session_accrue (rz_hex_encode rz) wid secs (rk_tier work = FingerprintTier) st)]"
    unfolding assms(5,6) by blast
  from recognize_in_hub [OF assms(4) ok assms(7) assms(8) assms(9,10) assms(3) play(3)] obtain m where
      m: "rk_work_id work = bytes32_to_string (rz_hex_encode rz) (wm_work_id m)" "rk_price_per_min work = wm_price_per_min m"
        "case rk_tier work of
            SignedTier \<Rightarrow> found_by_content (hb_index hub) (Bytes32 (rz_keccak256 rz (da_bytes audio))) m
          | FingerprintTier \<Rightarrow>
              found_by_fingerprint (he_hex_decode env) (hb_index hub)
                (rz_compute rz (da_samples audio) (da_sample_rate audio)) m
              \<and> \<not> (\<exists>m'. found_by_content (hb_index hub) (Bytes32 (rz_keccak256 rz (da_bytes audio))) m')" by blast
  have "wid = wm_work_id m"
    using decoded_id [OF sized_hex_codec.axioms(1) [OF assms(4)]] play(5) m(1) by metis
  moreover have "index_manifest (hb_index hub) (wm_work_id m) = Some m"
    using m(3) by (cases "rk_tier work") (auto simp: found_by_content_def found_by_fingerprint_def)
  then have "vouched env tr m" using v by (auto simp: index_vouched_def)
  ultimately show ?thesis using play m by (intro exI [of _ m] exI [of _ audio] exI [of _ st]) auto
qed

type_synonym demo_json = "(string \<times> u64) + string + u64"

definition demo_rz :: "(demo_json, nat) recognizer" where
  "demo_rz = \<lparr>rz_json = \<lparr>js_null = Inr (Inr 0),
       js_get = (\<lambda>v k. case v of
          Inl (s, n) \<Rightarrow> (if k = ''work_id'' then Some (Inr (Inl s)) else if k = ''price_per_min'' then Some (Inr (Inr n))
                       else Some v)
        | Inr _ \<Rightarrow> None),
       js_as_str = (\<lambda>v. case v of Inr (Inl s) \<Rightarrow> Some s | _ \<Rightarrow> None),
       js_as_u64 = (\<lambda>v. case v of Inr (Inr n) \<Rightarrow> Some n | _ \<Rightarrow> None)\<rparr>,
     rz_hex_encode = hex_string, rz_keccak256 = (\<lambda>_. replicate 32 101),
     rz_compute = (\<lambda>_ _. Fingerprint (replicate 32 0))\<rparr>"

definition demo_resolved :: "resolved \<Rightarrow> demo_json" where
  "demo_resolved r = Inl (bytes32_to_string hex_string (rs_work_id r), rs_price_per_min r)"

definition demo_candidate :: "summary \<times> rat \<Rightarrow> demo_json" where
  "demo_candidate c = Inl (bytes32_to_string hex_string (su_work_id (fst c)), su_price_per_min (fst c))"

lemma demo_rz_facts:
  "rz_hex_encode demo_rz = hex_string" "length (rz_keccak256 demo_rz bs) = 32" "fp_ok (rz_compute demo_rz xs r)"
  "rz_keccak256 demo_rz = (\<lambda>_. replicate 32 101)"
  "shows_work hex_string (rz_json demo_rz) (demo_resolved res) (rs_work_id res) (rs_price_per_min res)"
  "\<exists>v. js_get (rz_json demo_rz) (demo_candidate (s, sim)) ''candidate'' = Some v
     \<and> shows_work hex_string (rz_json demo_rz) v (su_work_id s) (su_price_per_min s)"
  by (simp_all add: demo_rz_def fp_ok_def FRAMES_def shows_work_def demo_resolved_def demo_candidate_def)

theorem accrued_work_is_registered_witness:
  "\<exists>tr m. vouched ex_hub_env tr m \<and> wm_content_id m = Bytes32 (replicate 32 101) \<and> wm_price_per_min m \<le> 9"
proof -
  let ?tr = "[Posted (ex_manifest 1 ''t'') (hex_string (replicate 20 1)) 4 ex_registry
      (Reply 201 (wm_work_id (ex_manifest 1 ''t'')))]"
  obtain hub where hub: "hub_run ex_hub_env ?tr hub"
      "index_manifest (hb_index hub) (Bytes32 (replicate 32 1)) = Some (clamped 4 (ex_manifest 1 ''t''))"
    using ex_posted by blast
  have env: "he_hex_decode ex_hub_env = decode_hex" by (simp add: ex_hub_env_def)
  have codec: "he_to_json ex_hub_env ix = Inr json \<Longrightarrow> he_from_json ex_hub_env json = Inr ix" for ix json
    by (simp add: ex_hub_env_def)
  from hub_run_vouched [OF codec hub(1)] have ok: "index_ok decode_hex (hb_index hub)"
    by (simp add: index_vouched_def env)
  let ?js = "hub_get_json ex_hub_env demo_resolved demo_candidate (hb_index hub) (trim_end_slash (pc_hub_url demo_cfg))"
  have base: "trim_end_slash (pc_hub_url demo_cfg) = ''HUB_URL''" by (simp add: demo_cfg_def trim_end_slash_def)
  have "index_resolve_content (hb_index hub) (Bytes32 (replicate 32 101)) = Some (resolved_of (clamped 4 (ex_manifest 1 ''t'')))"
    using hub(2) unfolding resolve_iff(2) [OF ok] index_manifest_def
    by (intro exI conjI) (assumption, simp_all add: ex_manifest_def clamped_def)
  then have "resolve_content_handler ex_hub_env (hb_index hub) (bytes32_to_string hex_string (Bytes32 (replicate 32 101)))
      = Reply 200 (resolved_of (clamped 4 (ex_manifest 1 ''t'')))"
    using hex.from_str_to_string [of "Bytes32 (replicate 32 101)"] by (simp add: resolve_content_handler_def env b32_ok_def)
  then have "?js (content_url ''HUB_URL'' (bytes32_to_string hex_string (Bytes32 (replicate 32 101))))
      = Some (demo_resolved (resolved_of (clamped 4 (ex_manifest 1 ''t''))))"
    unfolding base by (simp add: hub_get_json_def content_url_prefix)
  moreover have "trim_end_slash ''HUB_URL'' = ''HUB_URL''" by (simp add: trim_end_slash_def)
  ultimately have "recognize demo_rz ''HUB_URL'' \<lparr>da_bytes = [1], da_samples = replicate 150 0, da_sample_rate = 1\<rparr> ?js
      = Some \<lparr>rk_work_id = bytes32_to_string hex_string demo_work_id, rk_price_per_min = 5, rk_tier = SignedTier\<rparr>"
    using parse_shown [OF demo_rz_facts(5)]
    by (simp add: recognize_def Let_def content_id_of_def demo_rz_facts(1,4) resolved_of_def clamped_def ex_manifest_def
        demo_work_id_def)
  note play = demo_play [OF this demo_rz_facts(1)]
  from accrued_work_is_registered [where env = ex_hub_env and rz = demo_rz and w = "demo_world demo_rz ?js" and cfg = demo_cfg
      and resolved_json = demo_resolved and candidate_json = demo_candidate, unfolded env demo_fields demo_rz_facts(1),
      OF codec hub(1) refl sized_hex.sized_hex_codec_axioms refl refl demo_rz_facts(2,3,5,6) play demo_config]
  obtain m where "vouched ex_hub_env ?tr m" "policy_allows (wm_price_per_min m) (pc_threshold demo_cfg)"
      "found_by_content (hb_index hub) (Bytes32 (replicate 32 101)) m"
    by (auto simp: demo_rz_facts(4))
  then show ?thesis by (intro exI [of _ ?tr] exI [of _ m]) (simp add: found_by_content_def policy_allows_def demo_cfg_def)
qed

end
